(* ===== verification/Prelude.thy ===== *)
theory Prelude
  imports Main "HOL-Library.List_Lexorder" "HOL-Library.Char_ord"
begin

text \<open>
  Shared ground of the development: the results of fallible code, and the operations of Rust's
  \<open>str\<close> the broker uses.  A \<open>String\<close> is a byte list (\<open>string\<close>), so \<open>length\<close> is \<open>str::len\<close> and
  the list order of \<open>List_Lexorder\<close> is Rust's byte-wise \<open>Ord\<close>.  Every delimiter the broker searches
  for is ASCII, and an ASCII byte never occurs inside a multi-byte UTF-8 sequence, so searching bytes
  and searching characters find the same positions.  White space is Unicode's \<open>White_Space\<close>, listed by
  its UTF-8 encodings.
\<close>

named_theorems str_simps \<open>rewriting of the string operations on concrete shapes\<close>
named_theorems consume \<open>parsers never give back more input than they got\<close>

subsection \<open>Fallible results\<close>

type_synonym ('e, 'a) result = "'e + 'a"

abbreviation Err :: "'e \<Rightarrow> ('e, 'a) result" where "Err \<equiv> Inl"
abbreviation Ok :: "'a \<Rightarrow> ('e, 'a) result" where "Ok \<equiv> Inr"

text \<open>The \<open>?\<close> operator: stop at the first error.\<close>

fun and_then :: "('e, 'a) result \<Rightarrow> ('a \<Rightarrow> ('e, 'b) result) \<Rightarrow> ('e, 'b) result" where
  "and_then (Inl e) f = Inl e"
| "and_then (Inr x) f = f x"

lemma and_then_Inr_iff: "and_then r f = Inr y \<longleftrightarrow> (\<exists>x. r = Inr x \<and> f x = Inr y)"
  by (cases r) auto

lemma and_then_Inl_iff: "and_then r f = Inl e \<longleftrightarrow> r = Inl e \<or> (\<exists>x. r = Inr x \<and> f x = Inl e)"
  by (cases r) auto

text \<open>A loop whose body may fail.\<close>

fun try_fold :: "('a \<Rightarrow> 's \<Rightarrow> ('e, 's) result) \<Rightarrow> 'a list \<Rightarrow> 's \<Rightarrow> ('e, 's) result" where
  "try_fold f [] s = Ok s"
| "try_fold f (x # xs) s = and_then (f x s) (try_fold f xs)"

lemma try_fold_append: "try_fold f (xs @ ys) s = and_then (try_fold f xs s) (try_fold f ys)"
proof (induction xs arbitrary: s)
  case (Cons x xs)
  then show ?case by (cases "f x s") auto
qed simp

text \<open>Loops that fail on the first bad item: \<open>collect::<Result<Vec<_>, _>>\<close> and \<open>try_for_each\<close>.\<close>

fun try_map :: "('a \<Rightarrow> ('e, 'b) result) \<Rightarrow> 'a list \<Rightarrow> ('e, 'b list) result" where
  "try_map f [] = Ok []"
| "try_map f (x # xs) = and_then (f x) (\<lambda>y. and_then (try_map f xs) (\<lambda>ys. Ok (y # ys)))"

fun try_each :: "('a \<Rightarrow> ('e, unit) result) \<Rightarrow> 'a list \<Rightarrow> ('e, unit) result" where
  "try_each f [] = Ok ()"
| "try_each f (x # xs) = and_then (f x) (\<lambda>_. try_each f xs)"

text \<open>A loop that turns every item and carries a state along.\<close>

fun thread :: "('a \<Rightarrow> 's \<Rightarrow> 'b \<times> 's) \<Rightarrow> 'a list \<Rightarrow> 's \<Rightarrow> 'b list \<times> 's" where
  "thread f [] s = ([], s)"
| "thread f (x # xs) s = (case f x s of (y, s') \<Rightarrow> (case thread f xs s' of (ys, s'') \<Rightarrow> (y # ys, s'')))"

lemma thread_cong [fundef_cong]:
  "(\<And>x. x \<in> set xs \<Longrightarrow> f x = g x) \<Longrightarrow> xs = ys \<Longrightarrow> s = t \<Longrightarrow> thread f xs s = thread g ys t"
proof -
  assume a: "\<And>x. x \<in> set xs \<Longrightarrow> f x = g x" and e: "xs = ys" "s = t"
  from a have "thread f xs s = thread g xs s"
    by (induction xs arbitrary: s) (auto split: prod.split)
  with e show ?thesis by simp
qed

lemma thread_inv:
  "I s \<Longrightarrow> (\<And>x s. x \<in> set xs \<Longrightarrow> I s \<Longrightarrow> I (snd (f x s))) \<Longrightarrow> I (snd (thread f xs s))"
proof (induction xs arbitrary: s)
  case (Cons x xs)
  from Cons.prems have "I (snd (f x s))" by simp
  from Cons.IH [OF this Cons.prems(2)] show ?case by (auto split: prod.split simp: split_beta)
qed simp

lemma try_map_Inr: "try_map f xs = Inr ys \<longleftrightarrow> list_all2 (\<lambda>x y. f x = Inr y) xs ys"
  by (induction xs arbitrary: ys) (auto simp: and_then_Inr_iff list_all2_Cons1)

lemma try_map_Inl: "try_map f xs = Inl e \<Longrightarrow> \<exists>x\<in>set xs. f x = Inl e"
  by (induction xs) (auto simp: and_then_Inl_iff)

lemma try_map_all: "try_map f xs = Inr ys \<Longrightarrow> (\<And>x y. x \<in> set xs \<Longrightarrow> f x = Inr y \<Longrightarrow> P y) \<Longrightarrow> \<forall>y\<in>set ys. P y"
proof (induction xs arbitrary: ys)
  case (Cons x xs)
  from Cons.prems(1) obtain y zs where y: "f x = Inr y" "try_map f xs = Inr zs" "ys = y # zs" by (auto simp: and_then_Inr_iff)
  have "\<forall>y\<in>set zs. P y" by (rule Cons.IH [OF y(2)]) (rule Cons.prems(2), simp_all)
  then show ?case using Cons.prems(2) [of x y] y by simp
qed simp

lemma try_map_length: "try_map f xs = Inr ys \<Longrightarrow> length ys = length xs"
  by (simp add: try_map_Inr list_all2_lengthD)

lemma try_each_Inr: "try_each f xs = Inr u \<longleftrightarrow> (\<forall>x\<in>set xs. f x = Inr ())"
  by (induction xs) (auto simp: and_then_Inr_iff)

lemma try_each_Inl: "try_each f xs = Inl e \<Longrightarrow> \<exists>x\<in>set xs. f x = Inl e"
  by (induction xs) (auto simp: and_then_Inl_iff)

lemma try_fold_Inr_inv:
  "try_fold f xs s = Inr t \<Longrightarrow> P s \<Longrightarrow> (\<And>x s s'. x \<in> set xs \<Longrightarrow> P s \<Longrightarrow> f x s = Inr s' \<Longrightarrow> P s') \<Longrightarrow> P t"
proof (induction xs arbitrary: s)
  case (Cons x xs)
  from Cons.prems(1) obtain s' where s': "f x s = Inr s'" "try_fold f xs s' = Inr t" by (auto simp: and_then_Inr_iff)
  have "P s'" using Cons.prems(3) [of x s s'] Cons.prems(2) s'(1) by simp
  then show ?case by (rule Cons.IH [OF s'(2)]) (rule Cons.prems(3), simp_all)
qed simp

lemma try_fold_Inl: "try_fold f xs s = Inl e \<Longrightarrow> \<exists>x\<in>set xs. \<exists>s'. f x s' = Inl e"
  by (induction xs arbitrary: s) (auto simp: and_then_Inl_iff)

subsection \<open>Lists\<close>

lemma map_filter_fundef_cong [fundef_cong]:
  "xs = ys \<Longrightarrow> (\<And>x. x \<in> set ys \<Longrightarrow> f x = g x) \<Longrightarrow> List.map_filter f xs = List.map_filter g ys"
  by (induction xs arbitrary: ys) (auto simp: List.map_filter_simps split: option.splits)

lemma set_map_filter: "y \<in> set (List.map_filter f xs) \<longleftrightarrow> (\<exists>x\<in>set xs. f x = Some y)"
  by (induction xs) (auto simp: List.map_filter_simps split: option.splits)

subsection \<open>Byte strings\<close>

definition byte :: "nat \<Rightarrow> char" where
  "byte n = char_of n"

definition is_digit :: "char \<Rightarrow> bool" where
  "is_digit c \<longleftrightarrow> of_char c \<ge> (48::nat) \<and> of_char c \<le> (57::nat)"

definition is_alpha :: "char \<Rightarrow> bool" where
  "is_alpha c \<longleftrightarrow> (of_char c \<ge> (65::nat) \<and> of_char c \<le> (90::nat))
     \<or> (of_char c \<ge> (97::nat) \<and> of_char c \<le> (122::nat))"

definition is_alnum :: "char \<Rightarrow> bool" where
  "is_alnum c \<longleftrightarrow> is_alpha c \<or> is_digit c"

definition is_ascii :: "char \<Rightarrow> bool" where
  "is_ascii c \<longleftrightarrow> of_char c < (128::nat)"

definition to_lower :: "char \<Rightarrow> char" where
  "to_lower c = (if of_char c \<ge> (65::nat) \<and> of_char c \<le> (90::nat) then char_of (of_char c + (32::nat)) else c)"

text \<open>\<open>str::strip_prefix\<close> and \<open>str::strip_prefix(char)\<close>.\<close>

fun strip_prefix :: "string \<Rightarrow> string \<Rightarrow> string option" where
  "strip_prefix [] s = Some s"
| "strip_prefix (p # ps) [] = None"
| "strip_prefix (p # ps) (c # s) = (if p = c then strip_prefix ps s else None)"

fun strip_char :: "char \<Rightarrow> string \<Rightarrow> string option" where
  "strip_char c [] = None"
| "strip_char c (x # s) = (if x = c then Some s else None)"

definition starts_with :: "string \<Rightarrow> string \<Rightarrow> bool" where
  "starts_with p s \<longleftrightarrow> strip_prefix p s \<noteq> None"

definition strip_suffix :: "string \<Rightarrow> string \<Rightarrow> string option" where
  "strip_suffix p s = map_option rev (strip_prefix (rev p) (rev s))"

lemma strip_prefix_Some_iff [str_simps]: "strip_prefix p s = Some r \<longleftrightarrow> s = p @ r"
  by (induction p s rule: strip_prefix.induct) auto

lemma strip_prefix_append [simp]: "strip_prefix p (p @ r) = Some r"
  by (simp add: strip_prefix_Some_iff)

lemma strip_char_Some_iff [str_simps]: "strip_char c s = Some r \<longleftrightarrow> s = c # r"
  by (cases s) auto

lemma starts_with_append [simp]: "starts_with p (p @ r)"
  by (simp add: starts_with_def)

lemma strip_suffix_Some_iff [str_simps]: "strip_suffix p s = Some r \<longleftrightarrow> s = r @ p"
proof -
  have "strip_suffix p s = Some r \<longleftrightarrow> strip_prefix (rev p) (rev s) = Some (rev r)"
    by (auto simp: strip_suffix_def)
  also have "\<dots> \<longleftrightarrow> s = r @ p"
    by (simp add: strip_prefix_Some_iff) (metis rev_append rev_rev_ident)
  finally show ?thesis .
qed

lemma length_strip_prefix [consume]: "strip_prefix p s = Some r \<Longrightarrow> length r \<le> length s"
  by (simp add: strip_prefix_Some_iff)

lemma length_strip_char [consume]: "strip_char c s = Some r \<Longrightarrow> length r < length s"
  by (simp add: strip_char_Some_iff)

text \<open>\<open>str::split(pred)\<close>: the pieces between the separators, always at least one.\<close>

fun split_on :: "(char \<Rightarrow> bool) \<Rightarrow> string \<Rightarrow> string list" where
  "split_on P [] = [[]]"
| "split_on P (c # s) =
     (if P c then [] # split_on P s
      else (case split_on P s of [] \<Rightarrow> [[c]] | w # ws \<Rightarrow> (c # w) # ws))"

lemma split_on_neq_Nil [simp]: "split_on P s \<noteq> []"
  by (induction s) (auto split: list.splits)

lemma split_on_no_sep: "(\<forall>c\<in>set s. \<not> P c) \<Longrightarrow> split_on P s = [s]"
  by (induction s) auto

lemma split_on_append_sep:
  "(\<forall>c\<in>set s. \<not> P c) \<Longrightarrow> P d \<Longrightarrow> split_on P (s @ d # t) = s # split_on P t"
  by (induction s) auto

lemma split_on_pieces: "w \<in> set (split_on P s) \<Longrightarrow> c \<in> set w \<Longrightarrow> \<not> P c \<and> c \<in> set s"
proof (induction s arbitrary: w)
  case Nil
  then show ?case by simp
next
  case (Cons d s)
  then show ?case by (cases "split_on P s") (fastforce split: if_splits)+
qed

lemma split_on_append_any:
  "P d \<Longrightarrow> split_on P (s @ d # t) = split_on P s @ split_on P t"
  by (induction s) (auto split: list.splits)

text \<open>\<open>str::split_once(char)\<close>.\<close>

definition split_once :: "char \<Rightarrow> string \<Rightarrow> (string \<times> string) option" where
  "split_once c s = (case dropWhile (\<lambda>x. x \<noteq> c) s of
      [] \<Rightarrow> None | _ # r \<Rightarrow> Some (takeWhile (\<lambda>x. x \<noteq> c) s, r))"

lemma dropWhile_neq_Nil_iff: "dropWhile (\<lambda>x. x \<noteq> c) s = [] \<longleftrightarrow> c \<notin> set s"
  by (induction s) auto

lemma split_once_None_iff: "split_once c s = None \<longleftrightarrow> c \<notin> set s"
  unfolding dropWhile_neq_Nil_iff [symmetric] split_once_def
  by (cases "dropWhile (\<lambda>x. x \<noteq> c) s") (simp_all only: list.case option.distinct list.distinct simp_thms)

lemma split_once_append [str_simps]: "c \<notin> set a \<Longrightarrow> split_once c (a @ c # b) = Some (a, b)"
proof -
  assume "c \<notin> set a"
  then have "\<forall>x\<in>set a. x \<noteq> c" by auto
  then show ?thesis by (simp add: split_once_def dropWhile_append2 takeWhile_append2)
qed

lemma split_once_Some_iff:
  "split_once c s = Some (a, b) \<longleftrightarrow> s = a @ c # b \<and> c \<notin> set a"
proof
  assume eq: "split_once c s = Some (a, b)"
  then have "c \<in> set s" using split_once_None_iff by (metis option.distinct(1))
  then obtain p q where "s = p @ c # q" "c \<notin> set p" by (meson split_list_first)
  with eq show "s = a @ c # b \<and> c \<notin> set a" by (simp add: split_once_append)
next
  assume "s = a @ c # b \<and> c \<notin> set a"
  then show "split_once c s = Some (a, b)" by (simp add: split_once_append)
qed

text \<open>\<open>slice::join\<close> with a separator.\<close>

fun join :: "string \<Rightarrow> string list \<Rightarrow> string" where
  "join sep [] = []"
| "join sep [x] = x"
| "join sep (x # y # ys) = x @ sep @ join sep (y # ys)"

lemma join_Cons: "join sep (x # xs) = (if xs = [] then x else x @ sep @ join sep xs)"
  by (cases xs) auto

lemma join_split_on:
  "join [d] (split_on (\<lambda>c. c = d) s) = s"
  by (induction s) (auto simp: join_Cons split: list.splits if_splits)

text \<open>\<open>str::replace\<close> for a non-empty pattern (left to right, not overlapping) and
  \<open>str::to_ascii_lowercase\<close>.\<close>

function str_replace :: "string \<Rightarrow> string \<Rightarrow> string \<Rightarrow> string" where
  "str_replace p q s =
     (if p = [] then s
      else (case strip_prefix p s of
              Some r \<Rightarrow> q @ str_replace p q r
            | None \<Rightarrow> (case s of [] \<Rightarrow> [] | c # r \<Rightarrow> c # str_replace p q r)))"
  by pat_completeness auto
termination
  by (relation "measure (\<lambda>(p, q, s). length s)") (auto simp: strip_prefix_Some_iff)

declare str_replace.simps [simp del]

definition to_ascii_lowercase :: "string \<Rightarrow> string" where
  "to_ascii_lowercase s = map to_lower s"

subsection \<open>White space and trimming\<close>

text \<open>The UTF-8 encodings of the \<open>White_Space\<close> code points.\<close>

definition ws_tokens :: "string list" where
  "ws_tokens =
     map (\<lambda>n. [byte n]) [9, 10, 11, 12, 13, 32]
     @ map (\<lambda>n. [byte 194, byte n]) [133, 160]
     @ [[byte 225, byte 154, byte 128]]
     @ map (\<lambda>n. [byte 226, byte 128, byte n]) [128, 129, 130, 131, 132, 133, 134, 135, 136, 137, 138, 168, 169, 175]
     @ [[byte 226, byte 129, byte 159], [byte 227, byte 128, byte 128]]"

definition lead :: "string list \<Rightarrow> string \<Rightarrow> nat" where
  "lead toks s = (case find (\<lambda>t. take (length t) s = t) toks of None \<Rightarrow> 0 | Some t \<Rightarrow> length t)"

function trim_with :: "string list \<Rightarrow> string \<Rightarrow> string" where
  "trim_with toks s = (if s = [] \<or> lead toks s = 0 then s else trim_with toks (drop (lead toks s) s))"
  by pat_completeness auto
termination
  by (relation "measure (\<lambda>(toks, s). length s)") auto

declare trim_with.simps [simp del]

definition trim_start :: "string \<Rightarrow> string" where
  "trim_start s = trim_with ws_tokens s"

definition trim_end :: "string \<Rightarrow> string" where
  "trim_end s = rev (trim_with (map rev ws_tokens) (rev s))"

definition trim :: "string \<Rightarrow> string" where
  "trim s = trim_end (trim_start s)"

text \<open>\<open>trim_start_matches(char)\<close> and \<open>trim_end_matches(char)\<close>.\<close>

definition trim_start_matches :: "char \<Rightarrow> string \<Rightarrow> string" where
  "trim_start_matches c s = dropWhile (\<lambda>x. x = c) s"

definition trim_end_matches :: "char \<Rightarrow> string \<Rightarrow> string" where
  "trim_end_matches c s = rev (dropWhile (\<lambda>x. x = c) (rev s))"

lemma length_trim_with [simp]: "length (trim_with toks s) \<le> length s"
proof (induction toks s rule: trim_with.induct)
  case (1 toks s)
  then show ?case
    by (subst trim_with.simps) (auto intro: order_trans)
qed

lemma length_trim_start [simp]: "length (trim_start s) \<le> length s"
  by (simp add: trim_start_def)

lemma length_trim_end [simp]: "length (trim_end s) \<le> length s"
  using length_trim_with [of "map rev ws_tokens" "rev s"] by (simp add: trim_end_def)

lemma length_trim [simp]: "length (trim s) \<le> length s"
  unfolding trim_def by (rule order_trans [OF length_trim_end length_trim_start])

lemma trim_with_idle: "lead toks s = 0 \<Longrightarrow> trim_with toks s = s"
  by (subst trim_with.simps) simp

lemma trim_with_Nil [simp]: "trim_with toks [] = []"
  by (subst trim_with.simps) simp

lemma lead_trim_with: "trim_with toks s = [] \<or> lead toks (trim_with toks s) = 0"
proof (induction toks s rule: trim_with.induct)
  case (1 toks s)
  show ?case
  proof (cases "s = [] \<or> lead toks s = 0")
    case True
    then show ?thesis by (auto simp: trim_with.simps [of toks s])
  next
    case False
    with 1 show ?thesis by (simp add: trim_with.simps [of toks s])
  qed
qed

lemma trim_with_suffix: "\<exists>p. s = p @ trim_with toks s"
proof (induction toks s rule: trim_with.induct)
  case (1 toks s)
  show ?case
  proof (cases "s = [] \<or> lead toks s = 0")
    case True
    then show ?thesis by (simp add: trim_with.simps [of toks s])
  next
    case False
    with 1 obtain p where "drop (lead toks s) s = p @ trim_with toks (drop (lead toks s) s)" by blast
    then have "s = (take (lead toks s) s @ p) @ trim_with toks (drop (lead toks s) s)"
      by (metis append.assoc append_take_drop_id)
    with False show ?thesis unfolding trim_with.simps [of toks s] by (metis (full_types))
  qed
qed

lemma trim_with_idem [simp]: "trim_with toks (trim_with toks s) = trim_with toks s"
  using lead_trim_with [of toks s] by (auto intro: trim_with_idle)

lemma trim_start_idem [simp]: "trim_start (trim_start s) = trim_start s"
  by (simp add: trim_start_def)

lemma trim_start_Nil [simp]: "trim_start [] = []"
  by (simp add: trim_start_def)

lemma trim_end_Nil [simp]: "trim_end [] = []"
  by (simp add: trim_end_def)

lemma trim_Nil [simp]: "trim [] = []"
  by (simp add: trim_def)

text \<open>No white space token starts with an ASCII character that is not itself white space.\<close>

definition ascii_ws :: "char \<Rightarrow> bool" where
  "ascii_ws c \<longleftrightarrow> of_char c \<in> {9, 10, 11, 12, 13, 32 :: nat}"

lemma lead_eq_0_iff:
  "[] \<notin> set toks \<Longrightarrow> lead toks s = 0 \<longleftrightarrow> (\<forall>t\<in>set toks. take (length t) s \<noteq> t)"
  by (auto simp: lead_def find_None_iff find_Some_iff split: option.splits)
     (metis in_set_conv_nth length_0_conv)+

lemma Nil_not_ws [simp]: "[] \<notin> set ws_tokens"
  by (simp add: ws_tokens_def)

lemma of_byte [simp]: "n < 256 \<Longrightarrow> (of_char (byte n) :: nat) = n"
  by (simp add: byte_def)

lemma ws_token_cases:
  "t \<in> set ws_tokens \<Longrightarrow> (\<exists>c. t = [c] \<and> ascii_ws c) \<or> (\<forall>c\<in>set t. \<not> is_ascii c)"
  by (auto simp: ws_tokens_def ascii_ws_def is_ascii_def)

lemma lead_ws_ascii: "is_ascii c \<Longrightarrow> \<not> ascii_ws c \<Longrightarrow> lead ws_tokens (c # s) = 0"
proof -
  assume c: "is_ascii c" "\<not> ascii_ws c"
  have "take (length t) (c # s) \<noteq> t" if t: "t \<in> set ws_tokens" for t
    using ws_token_cases [OF t]
  proof
    assume "\<exists>d. t = [d] \<and> ascii_ws d"
    with c show ?thesis by auto
  next
    assume na: "\<forall>d\<in>set t. \<not> is_ascii d"
    from t have "t \<noteq> []" using Nil_not_ws by metis
    with na c show ?thesis by (cases t) auto
  qed
  then show ?thesis by (simp add: lead_eq_0_iff)
qed

lemma trim_start_ascii [simp]:
  "is_ascii c \<Longrightarrow> \<not> ascii_ws c \<Longrightarrow> trim_start (c # s) = c # s"
  by (simp add: trim_start_def trim_with_idle lead_ws_ascii)

text \<open>A piece with no leading white space keeps none when ASCII text follows it, and the same from the
  end: no white space token reaches across an ASCII character.\<close>

definition ws_like :: "string list \<Rightarrow> bool" where
  "ws_like toks \<longleftrightarrow> [] \<notin> set toks
     \<and> (\<forall>t\<in>set toks. (\<exists>c. t = [c] \<and> ascii_ws c) \<or> (\<forall>c\<in>set t. \<not> is_ascii c))"

lemma ws_like_tokens [simp]: "ws_like ws_tokens" "ws_like (map rev ws_tokens)"
  using ws_token_cases Nil_not_ws by (fastforce simp: ws_like_def)+

lemma lead_append:
  assumes "ws_like toks" "s \<noteq> []" "lead toks s = 0" "r = [] \<or> is_ascii (hd r)"
  shows "lead toks (s @ r) = 0"
proof -
  have ne: "[] \<notin> set toks" using assms(1) by (simp add: ws_like_def)
  have no: "\<forall>t\<in>set toks. take (length t) s \<noteq> t"
    using assms(3) by (simp add: lead_eq_0_iff [OF ne])
  have "take (length t) (s @ r) \<noteq> t" if t: "t \<in> set toks" for t
  proof
    assume tk: "take (length t) (s @ r) = t"
    show False
    proof (cases "length t \<le> length s")
      case True
      with tk have "take (length t) s = t" by simp
      with no t show False by blast
    next
      case False
      then have lt: "length s < length t" by simp
      have rne: "r \<noteq> []" using tk lt assms(2) by (metis append.right_neutral leD length_take min.cobounded1)
      have "\<not> (\<exists>c. t = [c] \<and> ascii_ws c)" using lt assms(2) by (cases s) auto
      then have na: "\<forall>c\<in>set t. \<not> is_ascii c" using assms(1) t by (auto simp: ws_like_def)
      have "t ! length s = (s @ r) ! length s" using tk lt by (metis nth_take)
      also have "\<dots> = hd r" using rne by (simp add: nth_append hd_conv_nth)
      finally have "hd r \<in> set t" using lt by (metis nth_mem)
      with na assms(4) rne show False by blast
    qed
  qed
  then show ?thesis by (simp add: lead_eq_0_iff [OF ne])
qed

lemmas lead_ws_append = lead_append [OF ws_like_tokens(1)]

lemma lead_ascii:
  assumes "ws_like toks" "is_ascii c" "\<not> ascii_ws c"
  shows "lead toks (c # s) = 0"
proof -
  have "take (length t) (c # s) \<noteq> t" if "t \<in> set toks" for t
    using assms that by (cases t) (fastforce simp: ws_like_def)+
  then show ?thesis using assms(1) by (simp add: lead_eq_0_iff ws_like_def)
qed

text \<open>Text that \<open>trim\<close> leaves alone at its start and at its end.\<close>

definition starts_clean :: "string \<Rightarrow> bool" where
  "starts_clean s \<longleftrightarrow> s \<noteq> [] \<and> lead ws_tokens s = 0"

definition ends_clean :: "string \<Rightarrow> bool" where
  "ends_clean s \<longleftrightarrow> s \<noteq> [] \<and> lead (map rev ws_tokens) (rev s) = 0"

lemma starts_clean_append: "starts_clean s \<Longrightarrow> r = [] \<or> is_ascii (hd r) \<Longrightarrow> starts_clean (s @ r)"
  by (simp add: starts_clean_def lead_ws_append)

lemma starts_clean_ascii: "is_ascii c \<Longrightarrow> \<not> ascii_ws c \<Longrightarrow> starts_clean (c # s)"
  by (simp add: starts_clean_def lead_ascii)

lemma ends_clean_append: "ends_clean s \<Longrightarrow> p = [] \<or> is_ascii (last p) \<Longrightarrow> ends_clean (p @ s)"
  using lead_append [OF ws_like_tokens(2), of "rev s" "rev p"] by (auto simp: ends_clean_def hd_rev)

lemma ends_clean_ascii: "is_ascii c \<Longrightarrow> \<not> ascii_ws c \<Longrightarrow> ends_clean (s @ [c])"
  by (simp add: ends_clean_def lead_ascii)

lemma trim_clean: "starts_clean s \<Longrightarrow> ends_clean s \<Longrightarrow> trim s = s"
  by (simp add: starts_clean_def ends_clean_def trim_def trim_start_def trim_end_def trim_with_idle)

lemma trim_ascii:
  assumes "s \<noteq> []" "is_ascii (hd s)" "\<not> ascii_ws (hd s)" "is_ascii (last s)" "\<not> ascii_ws (last s)"
  shows "trim s = s"
  using starts_clean_ascii [of "hd s" "tl s"] ends_clean_ascii [of "last s" "butlast s"] assms
  by (intro trim_clean) simp_all

lemma trim_start_append:
  "s \<noteq> [] \<Longrightarrow> lead ws_tokens s = 0 \<Longrightarrow> r = [] \<or> is_ascii (hd r) \<Longrightarrow> trim_start (s @ r) = s @ r"
  by (simp add: trim_start_def trim_with_idle lead_ws_append)

lemma trim_end_ascii:
  assumes "is_ascii c" "\<not> ascii_ws c"
  shows "trim_end (s @ [c]) = s @ [c]"
proof -
  have "take (length t) (c # rev s) \<noteq> t" if "t \<in> set (map rev ws_tokens)" for t
  proof -
    from that obtain u where u: "u \<in> set ws_tokens" "t = rev u" by auto
    from u Nil_not_ws have "u \<noteq> []" by metis
    with ws_token_cases [OF u(1)] assms u(2) show ?thesis
      by (cases "rev u") (auto simp: rev_eq_Cons_iff)
  qed
  moreover have "[] \<notin> set (map rev ws_tokens)" by (auto simp: ws_tokens_def)
  ultimately have "lead (map rev ws_tokens) (c # rev s) = 0"
    using lead_eq_0_iff [of "map rev ws_tokens" "c # rev s"] by auto
  then show ?thesis by (simp add: trim_end_def trim_with_idle)
qed

end
