(* ===== verification/BMap.thy ===== *)
theory BMap
  imports Prelude
begin

text \<open>
  Keyed maps.  \<open>BTreeMap<String, V>\<close> (every JSON object and every per-tenant document map) and
  \<open>HashMap<String, V>\<close> (whose iteration order the broker never relies on) are association lists in
  strictly increasing key order.  The locale \<open>dict\<close> is what the clients rely on; it is interpreted
  below on the list operations.
\<close>

named_theorems dict_simps \<open>lookups after map operations\<close>

type_synonym 'v bmap = "(string \<times> 'v) list"

definition bm_ok :: "'v bmap \<Rightarrow> bool" where
  "bm_ok m \<longleftrightarrow> sorted_wrt (<) (map fst m)"

definition bm_get :: "'v bmap \<Rightarrow> string \<Rightarrow> 'v option" where
  "bm_get m k = map_of m k"

fun bm_insert :: "string \<Rightarrow> 'v \<Rightarrow> 'v bmap \<Rightarrow> 'v bmap" where
  "bm_insert k v [] = [(k, v)]"
| "bm_insert k v ((k', v') # m) =
     (if k < k' then (k, v) # (k', v') # m
      else if k = k' then (k, v) # m
      else (k', v') # bm_insert k v m)"

definition bm_remove :: "string \<Rightarrow> 'v bmap \<Rightarrow> 'v bmap" where
  "bm_remove k m = filter (\<lambda>e. fst e \<noteq> k) m"

definition bm_keys :: "'v bmap \<Rightarrow> string list" where
  "bm_keys m = map fst m"

definition bm_values :: "'v bmap \<Rightarrow> 'v list" where
  "bm_values m = map snd m"

definition bm_contains :: "'v bmap \<Rightarrow> string \<Rightarrow> bool" where
  "bm_contains m k \<longleftrightarrow> bm_get m k \<noteq> None"

subsection \<open>The interface\<close>

locale dict =
  fixes get :: "'m \<Rightarrow> string \<Rightarrow> 'v option"
    and ins :: "string \<Rightarrow> 'v \<Rightarrow> 'm \<Rightarrow> 'm"
    and del :: "string \<Rightarrow> 'm \<Rightarrow> 'm"
    and emp :: "'m"
    and ok :: "'m \<Rightarrow> bool"
  assumes get_emp: "get emp k = None"
    and get_ins: "ok m \<Longrightarrow> get (ins j v m) k = (if k = j then Some v else get m k)"
    and get_del: "ok m \<Longrightarrow> get (del j m) k = (if k = j then None else get m k)"
    and ok_emp: "ok emp"
    and ok_ins: "ok m \<Longrightarrow> ok (ins j v m)"
    and ok_del: "ok m \<Longrightarrow> ok (del j m)"
    and ext: "ok m \<Longrightarrow> ok n \<Longrightarrow> (\<And>k. get m k = get n k) \<Longrightarrow> m = n"
begin

lemma ins_ins: "ok m \<Longrightarrow> ins k v (ins k w m) = ins k v m"
  by (rule ext) (simp_all add: ok_ins get_ins)

lemma ins_commute: "ok m \<Longrightarrow> j \<noteq> k \<Longrightarrow> ins j v (ins k w m) = ins k w (ins j v m)"
  by (rule ext) (auto simp: ok_ins get_ins)

lemma ins_same: "ok m \<Longrightarrow> get m k = Some v \<Longrightarrow> ins k v m = m"
  by (rule ext) (auto simp: ok_ins get_ins)

lemma del_ins: "ok m \<Longrightarrow> del k (ins k v m) = del k m"
  by (rule ext) (auto simp: ok_ins ok_del get_ins get_del)

lemma del_absent: "ok m \<Longrightarrow> get m k = None \<Longrightarrow> del k m = m"
  by (rule ext) (auto simp: ok_del get_del)

lemma ok_fold_ins: "ok m \<Longrightarrow> ok (fold (\<lambda>e. ins (fst e) (snd e)) kvs m)"
  by (induction kvs arbitrary: m) (auto simp: ok_ins)

lemma ok_fold_del: "ok m \<Longrightarrow> ok (fold del ks m)"
  by (induction ks arbitrary: m) (auto simp: ok_del)

lemma get_fold_del: "ok m \<Longrightarrow> get (fold del ks m) k = (if k \<in> set ks then None else get m k)"
  by (induction ks arbitrary: m) (auto simp: ok_del get_del)

lemma get_fold_ins_None:
  "ok m \<Longrightarrow> k \<notin> fst ` set kvs \<Longrightarrow> get (fold (\<lambda>e. ins (fst e) (snd e)) kvs m) k = get m k"
  by (induction kvs arbitrary: m) (auto simp: ok_ins get_ins)

lemma get_fold_ins_distinct:
  "ok m \<Longrightarrow> distinct (map fst kvs) \<Longrightarrow>
     get (fold (\<lambda>e. ins (fst e) (snd e)) kvs m) k =
       (case map_of kvs k of None \<Rightarrow> get m k | Some v \<Rightarrow> Some v)"
proof (induction kvs arbitrary: m)
  case Nil
  then show ?case by simp
next
  case (Cons e kvs)
  show ?case
  proof (cases "k = fst e")
    case True
    with Cons.prems have "map_of kvs k = None" by (auto simp: map_of_eq_None_iff)
    with True Cons show ?thesis by (cases e) (simp add: ok_ins get_ins)
  next
    case False
    with Cons show ?thesis by (cases e) (auto simp: ok_ins get_ins split: option.splits)
  qed
qed

end

subsection \<open>Sorted association lists provide it\<close>

lemma bm_ok_Nil [simp]: "bm_ok []"
  by (simp add: bm_ok_def)

lemma bm_ok_Cons: "bm_ok (e # m) \<longleftrightarrow> (\<forall>x\<in>set m. fst e < fst x) \<and> bm_ok m"
  by (auto simp: bm_ok_def)

lemma bm_get_Nil [simp]: "bm_get [] k = None"
  by (simp add: bm_get_def)

lemma bm_get_single [simp]: "bm_get [(j, v)] k = (if k = j then Some v else None)"
  by (simp add: bm_get_def)

lemma set_fst_bm_insert: "fst ` set (bm_insert k v m) = insert k (fst ` set m)"
  by (induction k v m rule: bm_insert.induct) auto

lemma set_bm_insert: "e \<in> set (bm_insert k v m) \<Longrightarrow> e = (k, v) \<or> e \<in> set m"
  by (induction k v m rule: bm_insert.induct) (auto split: if_splits)

lemma bm_insert_ok: "bm_ok m \<Longrightarrow> bm_ok (bm_insert k v m)"
proof (induction k v m rule: bm_insert.induct)
  case (2 k v k' v' m)
  have tl: "x \<in> set (bm_insert k v m) \<Longrightarrow> fst x = k \<or> fst x \<in> fst ` set m" for x
    using set_fst_bm_insert [of k v m] by (metis image_eqI insertE)
  from 2 show ?case
    by (auto simp: bm_ok_Cons not_less_iff_gr_or_eq dest!: tl)
qed (simp add: bm_ok_Cons)

lemma bm_get_None_iff: "bm_get m k = None \<longleftrightarrow> k \<notin> fst ` set m"
  by (simp add: bm_get_def map_of_eq_None_iff)

text \<open>Lookups after an insertion need no order: whatever precedes the new entry has a smaller key.\<close>

lemma bm_get_insert [simp]: "bm_get (bm_insert j v m) k = (if k = j then Some v else bm_get m k)"
  by (induction j v m rule: bm_insert.induct) (auto simp: bm_get_def)

lemma bm_remove_ok: "bm_ok m \<Longrightarrow> bm_ok (bm_remove k m)"
  by (induction m) (auto simp: bm_ok_Cons bm_remove_def)

lemma bm_get_remove [simp]: "bm_get (bm_remove j m) k = (if k = j then None else bm_get m k)"
  by (induction m) (auto simp: bm_get_def bm_remove_def)

lemma bm_ext:
  assumes "bm_ok m" "bm_ok n" "\<And>k. bm_get m k = bm_get n k"
  shows "m = n"
proof (rule map_sorted_distinct_set_unique [where f = fst])
  have srt: "sorted (map fst m) \<and> distinct (map fst m)" if "bm_ok m" for m :: "'a bmap"
    using that by (simp add: bm_ok_def strict_sorted_iff)
  show "sorted (map fst m)" "distinct (map fst m)" "sorted (map fst n)" "distinct (map fst n)"
    using srt assms(1,2) by auto
  have mem: "(k, v) \<in> set m \<longleftrightarrow> bm_get m k = Some v" if "bm_ok m" for m :: "'a bmap" and k v
    using srt [OF that] by (simp add: bm_get_def)
  show "set m = set n"
    using mem [OF assms(1)] mem [OF assms(2)] assms(3) by auto
  show "inj_on fst (set m \<union> set n)"
    using mem [OF assms(1)] mem [OF assms(2)] assms(3) by (auto simp: inj_on_def)
qed

interpretation bm: dict bm_get bm_insert bm_remove "[]" bm_ok
proof unfold_locales
  show "bm_ok m \<Longrightarrow> bm_ok n \<Longrightarrow> (\<And>k. bm_get m k = bm_get n k) \<Longrightarrow> m = n" for m n :: "'a bmap"
    by (rule bm_ext)
qed (simp_all add: bm_insert_ok bm_remove_ok)

lemmas bm_laws [dict_simps] = bm.get_emp bm.get_ins bm.get_del bm.ok_emp bm.ok_ins bm.ok_del

lemma bm_distinct: "bm_ok m \<Longrightarrow> distinct (map fst m)"
  by (simp add: bm_ok_def strict_sorted_iff)

lemma bm_get_iff: "bm_ok m \<Longrightarrow> bm_get m k = Some v \<longleftrightarrow> (k, v) \<in> set m"
  by (simp add: bm_get_def bm_distinct)

lemma bm_get_SomeD: "bm_get m k = Some v \<Longrightarrow> (k, v) \<in> set m"
  by (simp add: bm_get_def map_of_SomeD)

lemma bm_filter_ok: "bm_ok m \<Longrightarrow> bm_ok (filter P m)"
  by (induction m) (auto simp: bm_ok_Cons)

lemma bm_get_filter:
  "bm_ok m \<Longrightarrow> bm_get (filter P m) k =
     (case bm_get m k of None \<Rightarrow> None | Some v \<Rightarrow> if P (k, v) then Some v else None)"
  by (induction m) (auto simp: bm_get_def bm_ok_Cons map_of_eq_None_iff split: option.splits)

text \<open>Mapping the values keeps the keys.\<close>

definition bm_map :: "(string \<Rightarrow> 'v \<Rightarrow> 'w) \<Rightarrow> 'v bmap \<Rightarrow> 'w bmap" where
  "bm_map f m = map (\<lambda>e. (fst e, f (fst e) (snd e))) m"

lemma bm_map_ok [simp]: "bm_ok (bm_map f m) = bm_ok m"
  by (simp add: bm_ok_def bm_map_def comp_def)

lemma bm_get_map [simp]: "bm_get (bm_map f m) k = map_option (f k) (bm_get m k)"
  by (induction m) (auto simp: bm_get_def bm_map_def)

text \<open>Building a map from a list of entries, as \<open>collect()\<close> does: later entries win.\<close>

definition bm_of_list :: "(string \<times> 'v) list \<Rightarrow> 'v bmap" where
  "bm_of_list kvs = fold (\<lambda>e. bm_insert (fst e) (snd e)) kvs []"

lemma bm_of_list_ok [simp]: "bm_ok (bm_of_list kvs)"
  unfolding bm_of_list_def by (rule bm.ok_fold_ins) simp

lemma bm_of_list_id: "bm_ok m \<Longrightarrow> bm_of_list m = m"
proof (rule bm_ext)
  assume ok: "bm_ok m"
  then show "bm_get (bm_of_list m) k = bm_get m k" for k
    using bm.get_fold_ins_distinct [OF bm.ok_emp bm_distinct [OF ok]]
    by (simp add: bm_of_list_def bm_get_def split: option.splits)
qed simp_all

end
