(* ===== verification/F64.thy ===== *)
theory F64
  imports Complex_Main Prelude
begin

text \<open>
  IEEE 754 binary64 as the broker uses it: parse a decimal (\<open>str::parse::<f64>\<close> of an RFC 8259
  number), widen an integer (\<open>as f64\<close>), compare.  A finite value is the rational it denotes, so the
  two zeros, which compare equal, are one value; NaN is absent because no RFC 8259 number parses to
  it.  Rounding is to nearest, ties to even, with gradual underflow and overflow to infinity.
\<close>

datatype f64 = NInf | Fin rat | PInf

fun f64_le :: "f64 \<Rightarrow> f64 \<Rightarrow> bool" where
  "f64_le NInf y = True"
| "f64_le (Fin a) NInf = False"
| "f64_le (Fin a) (Fin b) = (a \<le> b)"
| "f64_le (Fin a) PInf = True"
| "f64_le PInf y = (y = PInf)"

instantiation f64 :: linorder
begin

definition less_eq_f64 :: "f64 \<Rightarrow> f64 \<Rightarrow> bool" where
  "less_eq_f64 x y = f64_le x y"

definition less_f64 :: "f64 \<Rightarrow> f64 \<Rightarrow> bool" where
  "less_f64 x y = (f64_le x y \<and> \<not> f64_le y x)"

instance
proof
  fix x y z :: f64
  show "(x < y) = (x \<le> y \<and> \<not> y \<le> x)"
    by (simp add: less_eq_f64_def less_f64_def)
  show "x \<le> x"
    by (cases x) (simp_all add: less_eq_f64_def)
  show "x \<le> y \<Longrightarrow> y \<le> z \<Longrightarrow> x \<le> z"
    by (cases x; cases y; cases z) (simp_all add: less_eq_f64_def)
  show "x \<le> y \<Longrightarrow> y \<le> x \<Longrightarrow> x = y"
    by (cases x; cases y) (simp_all add: less_eq_f64_def)
  show "x \<le> y \<or> y \<le> x"
    by (cases x; cases y) (auto simp: less_eq_f64_def)
qed

end

lemma Fin_le_iff [simp]: "Fin a \<le> Fin b \<longleftrightarrow> a \<le> b"
  by (simp add: less_eq_f64_def)

lemma Fin_less_iff [simp]: "Fin a < Fin b \<longleftrightarrow> a < b"
  by (auto simp: less_f64_def)

fun is_finite :: "f64 \<Rightarrow> bool" where
  "is_finite (Fin _) = True"
| "is_finite _ = False"

subsection \<open>Rounding\<close>

text \<open>The bit length of a non-negative integer.\<close>

function bits :: "int \<Rightarrow> nat" where
  "bits n = (if n \<le> 0 then 0 else Suc (bits (n div 2)))"
  by pat_completeness auto
termination
  by (relation "measure nat") auto

declare bits.simps [simp del]

text \<open>\<open>ilog2 x\<close> is the \<open>k\<close> with \<open>2\<^sup>k \<le> x < 2\<^sup>k\<^sup>+\<^sup>1\<close>, for positive \<open>x\<close>.\<close>

definition ilog2 :: "rat \<Rightarrow> int" where
  "ilog2 x = (case quotient_of x of (p, q) \<Rightarrow>
     let k = int (bits p) - int (bits q)
     in if power_int 2 k \<le> x then k else k - 1)"

definition round_half_even :: "rat \<Rightarrow> int" where
  "round_half_even x =
     (let f = \<lfloor>x\<rfloor>; d = x - of_int f
      in if d < 1 / 2 then f else if 1 / 2 < d then f + 1 else if even f then f else f + 1)"

definition round_abs :: "rat \<Rightarrow> rat" where
  "round_abs x = (let e = max (ilog2 x - 52) (- 1074)
     in of_int (round_half_even (x / power_int 2 e)) * power_int 2 e)"

definition round_f64 :: "rat \<Rightarrow> f64" where
  "round_f64 x =
     (if x = 0 then Fin 0
      else (let y = round_abs \<bar>x\<bar>
            in if power_int 2 1024 \<le> y then (if x < 0 then NInf else PInf)
               else Fin (if x < 0 then - y else y)))"

text \<open>\<open>n as f64\<close> for the integers JSON numbers hold.\<close>

definition f64_of_int :: "int \<Rightarrow> f64" where
  "f64_of_int n = round_f64 (of_int n)"

lemma bits_bounds: "n > 0 \<Longrightarrow> 2 ^ (bits n - 1) \<le> n \<and> n < 2 ^ bits n \<and> bits n > 0"
proof (induction n rule: bits.induct)
  case (1 n)
  show ?case
  proof (cases "n div 2 \<le> 0")
    case True
    with 1(2) have "n = 1" by auto
    then show ?thesis using bits.simps [of 1] bits.simps [of 0] by simp
  next
    case False
    with 1 have IH: "2 ^ (bits (n div 2) - 1) \<le> n div 2 \<and> n div 2 < 2 ^ bits (n div 2) \<and> bits (n div 2) > 0"
      by simp
    have b: "bits n = Suc (bits (n div 2))" using 1(2) by (subst bits.simps) simp
    from IH obtain k where k: "bits (n div 2) = Suc k" by (cases "bits (n div 2)") auto
    from IH k have "2 ^ k \<le> n div 2" "n div 2 < 2 * 2 ^ k" by auto
    then have "2 * 2 ^ k \<le> n" "n < 2 * (2 * 2 ^ k)" by auto
    then show ?thesis by (simp add: b k)
  qed
qed

lemma ilog2_bounds:
  assumes "x > 0"
  shows "power_int 2 (ilog2 x) \<le> x \<and> x < power_int 2 (ilog2 x + 1)"
proof -
  obtain p q where pq: "quotient_of x = (p, q)" by (cases "quotient_of x")
  have q: "q > 0" using pq by (rule quotient_of_denom_pos)
  have x: "x = of_int p / of_int q" using pq by (rule quotient_of_div)
  with assms q have p: "p > 0" by (simp add: zero_less_divide_iff)
  define a b where "a = bits p" and "b = bits q"
  have pa: "2 ^ (a - 1) \<le> p" "p < 2 ^ a" "a > 0"
    and qb: "2 ^ (b - 1) \<le> q" "q < 2 ^ b" "b > 0"
    using bits_bounds [of p] bits_bounds [of q] p q by (auto simp: a_def b_def)
  have up: "(2::int) ^ m \<le> i \<Longrightarrow> (2::rat) ^ m \<le> of_int i" "i < 2 ^ m \<Longrightarrow> of_int i < (2::rat) ^ m" for m i
    by (metis of_int_le_iff of_int_numeral of_int_power) (metis of_int_less_iff of_int_numeral of_int_power)
  have rp: "(2::rat) ^ (a - 1) \<le> of_int p" "of_int p < (2::rat) ^ a"
    and rq: "(2::rat) ^ (b - 1) \<le> of_int q" "of_int q < (2::rat) ^ b"
    using up pa qb by blast+
  have pw: "power_int (2::rat) (int m - int n) = 2 ^ m / 2 ^ n" for m n
    by (simp add: power_int_diff)
  let ?k = "int a - int b"
  have hi: "x < power_int 2 (?k + 1)"
  proof -
    have "x < 2 ^ a / of_int q" using x rp(2) q by (simp add: divide_strict_right_mono)
    also have "\<dots> \<le> 2 ^ a / 2 ^ (b - 1)" using rq(1) by (intro divide_left_mono) (auto simp: q)
    also have "\<dots> = power_int 2 (?k + 1)"
      using pw [of a "b - 1"] qb(3) by (simp add: of_nat_diff algebra_simps)
    finally show ?thesis .
  qed
  have lo: "power_int 2 (?k - 1) \<le> x"
  proof -
    have "power_int (2::rat) (?k - 1) = 2 ^ (a - 1) / 2 ^ b"
      using pw [of "a - 1" b] pa(3) by (simp add: of_nat_diff algebra_simps)
    also have "\<dots> \<le> 2 ^ (a - 1) / of_int q" using rq(2) q by (intro divide_left_mono) auto
    also have "\<dots> \<le> x" using x rp(1) q by (simp add: divide_right_mono)
    finally show ?thesis .
  qed
  have "ilog2 x = (if power_int 2 ?k \<le> x then ?k else ?k - 1)"
    by (simp add: ilog2_def pq Let_def a_def b_def)
  with hi lo show ?thesis by (simp add: not_le)
qed

lemma round_half_even_int [simp]: "round_half_even (of_int n) = n"
  by (simp add: round_half_even_def)

text \<open>A dyadic rational with a 53-bit significand inside the exponent range is its own rounding.\<close>

lemma round_abs_dyadic:
  assumes n: "0 < n" "n \<le> 2 ^ 53" and e: "- 1074 \<le> e"
  shows "round_abs (of_int n * power_int 2 e) = of_int n * power_int 2 e"
proof -
  let ?x = "of_int n * power_int 2 e :: rat"
  have pos: "?x > 0" using n by simp
  define k where "k = ilog2 ?x"
  have k: "power_int 2 k \<le> ?x" using ilog2_bounds [OF pos] by (simp add: k_def)
  have nle: "(of_int n :: rat) \<le> 2 ^ 53" using n(2) by (metis of_int_le_iff of_int_numeral of_int_power)
  define e' where "e' = max (k - 52) (- 1074)"
  have "\<exists>j. ?x / power_int 2 e' = of_int j"
  proof (cases "e' \<le> e")
    case True
    have "power_int (2::rat) e / power_int 2 e' = power_int 2 (e - e')" by (simp add: power_int_diff)
    also have "\<dots> = 2 ^ nat (e - e')" using True by (simp add: power_int_def)
    finally have "?x / power_int 2 e' = of_int n * (2 ^ nat (e - e'))" by (simp flip: times_divide_eq_right)
    then show ?thesis by (intro exI [of _ "n * 2 ^ nat (e - e')"]) simp
  next
    case False
    with e have e': "e' = k - 52" "e < k - 52" by (auto simp: e'_def)
    have "power_int 2 k \<le> (2::rat) ^ 53 * power_int 2 e"
      by (rule order_trans [OF k mult_right_mono [OF nle]]) simp
    also have "\<dots> = power_int 2 (e + 53)" by (simp add: power_int_add)
    finally have le: "power_int (2::rat) k \<le> power_int 2 (e + 53)" .
    have "k \<le> e + 53"
    proof (rule ccontr)
      assume "\<not> k \<le> e + 53"
      then have "power_int (2::rat) (e + 53) < power_int 2 k" by (intro power_int_strict_increasing) auto
      with le show False by simp
    qed
    with e' have ke: "k = e + 53" by simp
    with k have "power_int (2::rat) e * 2 ^ 53 \<le> of_int n * power_int 2 e" by (simp add: power_int_add)
    then have "(2::rat) ^ 53 \<le> of_int n" by (simp add: mult.commute)
    with nle have n53: "(of_int n :: rat) = 2 ^ 53" by simp
    have "?x / power_int 2 e' = of_int (2 ^ 52)"
      using ke e' by (simp add: n53 power_int_add field_simps)
    then show ?thesis by blast
  qed
  then obtain j where j: "?x / power_int 2 e' = of_int j" by blast
  then have "round_abs ?x = of_int j * power_int 2 e'"
    unfolding round_abs_def Let_def k_def [symmetric] e'_def [symmetric] by simp
  also have "\<dots> = ?x" using j by (simp add: field_simps)
  finally show ?thesis .
qed

lemma round_f64_dyadic:
  assumes "\<bar>n\<bar> \<le> 2 ^ 53" "- 1074 \<le> e" "e \<le> 970"
  shows "round_f64 (of_int n * power_int 2 e) = Fin (of_int n * power_int 2 e)"
proof (cases "n = 0")
  case True
  then show ?thesis by (simp add: round_f64_def)
next
  case False
  let ?x = "of_int n * power_int 2 e :: rat"
  have ax: "\<bar>?x\<bar> = of_int \<bar>n\<bar> * power_int 2 e" by (simp add: abs_mult)
  have r: "round_abs \<bar>?x\<bar> = \<bar>?x\<bar>"
    unfolding ax using False assms by (intro round_abs_dyadic) auto
  have "\<bar>?x\<bar> \<le> 2 ^ 53 * power_int 2 e"
    unfolding ax using assms(1)
    by (intro mult_right_mono) (metis of_int_abs of_int_le_iff of_int_numeral of_int_power, simp)
  also have "\<dots> = power_int 2 (e + 53)" by (simp add: power_int_add)
  also have "\<dots> < power_int 2 1024" using assms(3) by (intro power_int_strict_increasing) auto
  finally have small: "\<not> power_int 2 1024 \<le> \<bar>?x\<bar>" by (simp only: not_le)
  have "?x \<noteq> 0" using False by simp
  then have "round_f64 ?x = Fin (if ?x < 0 then - \<bar>?x\<bar> else \<bar>?x\<bar>)"
    by (simp only: round_f64_def r Let_def small if_False)
  then show ?thesis by (simp only: abs_if) simp
qed

lemma f64_of_int_exact: "\<bar>n\<bar> \<le> 2 ^ 53 \<Longrightarrow> f64_of_int n = Fin (of_int n)"
  using round_f64_dyadic [of n 0] by (simp add: f64_of_int_def)

subsection \<open>RFC 8259 numbers\<close>

definition digit_run :: "string \<Rightarrow> nat" where
  "digit_run s = length (takeWhile is_digit s)"

fun strip_any :: "string \<Rightarrow> string \<Rightarrow> string option" where
  "strip_any cs [] = None"
| "strip_any cs (x # s) = (if x \<in> set cs then Some s else None)"

text \<open>\<open>is_json_number\<close>: \<open>[minus] int [frac] [exp]\<close>, no leading zero, every part with a digit.\<close>

definition is_json_number :: "string \<Rightarrow> bool" where
  "is_json_number s0 =
     (let s = (case strip_char CHR ''-'' s0 of Some r \<Rightarrow> r | None \<Rightarrow> s0);
          i = digit_run s
      in if i = 0 \<or> (1 < i \<and> starts_with ''0'' s) then False
         else (let rest = drop i s;
                   rest' = (case strip_char CHR ''.'' rest of
                              None \<Rightarrow> Some rest
                            | Some fr \<Rightarrow> (if digit_run fr = 0 then None else Some (drop (digit_run fr) fr)))
               in case rest' of
                    None \<Rightarrow> False
                  | Some r \<Rightarrow> (case strip_any ''eE'' r of
                        None \<Rightarrow> r = []
                      | Some ex \<Rightarrow> (let ex' = (case strip_any ''+-'' ex of Some t \<Rightarrow> t | None \<Rightarrow> ex)
                                   in ex' \<noteq> [] \<and> digit_run ex' = length ex'))))"

definition digits_val :: "string \<Rightarrow> int" where
  "digits_val s = foldl (\<lambda>n c. 10 * n + (of_char c - 48)) 0 s"

text \<open>The decimal a number literal denotes, and \<open>parse::<f64>\<close> on such literals.\<close>

definition json_rat :: "string \<Rightarrow> rat" where
  "json_rat s0 =
     (let neg = starts_with ''-'' s0;
          s = (if neg then tl s0 else s0);
          ip = takeWhile is_digit s;
          rest = dropWhile is_digit s;
          fp = (case strip_char CHR ''.'' rest of None \<Rightarrow> [] | Some t \<Rightarrow> takeWhile is_digit t);
          rest' = (case strip_char CHR ''.'' rest of None \<Rightarrow> rest | Some t \<Rightarrow> dropWhile is_digit t);
          ex = (case strip_any ''eE'' rest' of
                  None \<Rightarrow> 0
                | Some t \<Rightarrow> (if starts_with ''-'' t then - digits_val (tl t)
                            else digits_val (case strip_char CHR ''+'' t of Some u \<Rightarrow> u | None \<Rightarrow> t)));
          m = of_int (digits_val (ip @ fp)) * power_int 10 (ex - int (length fp))
      in if neg then - m else m)"

definition parse_f64 :: "string \<Rightarrow> f64" where
  "parse_f64 s = round_f64 (json_rat s)"

end
