(* ===== verification/Json.thy ===== *)
theory Json
  imports BMap F64
begin

text \<open>
  \<open>serde_json::Value\<close>.  Objects are \<open>BTreeMap\<close>s (association lists in key order), and a \<open>Number\<close> is an
  integer of \<open>u64\<close> or \<open>i64\<close> or a finite \<open>f64\<close>, compared by representation as \<open>PartialEq\<close> does.
\<close>

named_theorems json_simps \<open>accessors of JSON values\<close>

datatype jnum = JInt int | JFloat f64

datatype json =
    JNull
  | JBool bool
  | JNum jnum
  | JStr string
  | JArr "json list"
  | JObj "(string \<times> json) list"

abbreviation jint :: "int \<Rightarrow> json" where "jint i \<equiv> JNum (JInt i)"

type_synonym jobj = "json bmap"

fun jnum_ok :: "jnum \<Rightarrow> bool" where
  "jnum_ok (JInt i) = (- (2 ^ 63) \<le> i \<and> i < 2 ^ 64)"
| "jnum_ok (JFloat x) = is_finite x"

fun json_ok :: "json \<Rightarrow> bool" where
  "json_ok JNull = True"
| "json_ok (JBool _) = True"
| "json_ok (JNum n) = jnum_ok n"
| "json_ok (JStr _) = True"
| "json_ok (JArr xs) = list_all json_ok xs"
| "json_ok (JObj m) = (bm_ok m \<and> list_all (\<lambda>e. json_ok (snd e)) m)"

text \<open>\<open>Number::as_f64\<close>.\<close>

fun jnum_f64 :: "jnum \<Rightarrow> f64" where
  "jnum_f64 (JInt i) = f64_of_int i"
| "jnum_f64 (JFloat x) = x"

fun as_f64 :: "json \<Rightarrow> f64 option" where
  "as_f64 (JNum n) = Some (jnum_f64 n)"
| "as_f64 _ = None"

fun as_str :: "json \<Rightarrow> string option" where
  "as_str (JStr s) = Some s"
| "as_str _ = None"

fun as_bool :: "json \<Rightarrow> bool option" where
  "as_bool (JBool b) = Some b"
| "as_bool _ = None"

fun as_array :: "json \<Rightarrow> json list option" where
  "as_array (JArr xs) = Some xs"
| "as_array _ = None"

fun as_object :: "json \<Rightarrow> jobj option" where
  "as_object (JObj m) = Some m"
| "as_object _ = None"

fun is_object :: "json \<Rightarrow> bool" where
  "is_object (JObj _) = True"
| "is_object _ = False"

fun is_array :: "json \<Rightarrow> bool" where
  "is_array (JArr _) = True"
| "is_array _ = False"

fun is_string :: "json \<Rightarrow> bool" where
  "is_string (JStr _) = True"
| "is_string _ = False"

text \<open>\<open>Value::get(key)\<close> (None on a non-object) and \<open>v[key]\<close> (Null when absent).\<close>

fun jget :: "json \<Rightarrow> string \<Rightarrow> json option" where
  "jget (JObj m) k = bm_get m k"
| "jget _ k = None"

definition jindex :: "json \<Rightarrow> string \<Rightarrow> json" where
  "jindex v k = (case jget v k of None \<Rightarrow> JNull | Some x \<Rightarrow> x)"

text \<open>\<open>get(key).and_then(Value::as_str)\<close>.\<close>

definition jget_str :: "jobj \<Rightarrow> string \<Rightarrow> string option" where
  "jget_str m k = Option.bind (bm_get m k) as_str"

text \<open>An object built with \<open>json!({...})\<close>.\<close>

definition mkobj :: "(string \<times> json) list \<Rightarrow> json" where
  "mkobj kvs = JObj (bm_of_list kvs)"

lemma as_str_Some_iff [json_simps]: "as_str v = Some s \<longleftrightarrow> v = JStr s"
  by (cases v) auto

lemma as_array_Some_iff [json_simps]: "as_array v = Some xs \<longleftrightarrow> v = JArr xs"
  by (cases v) auto

lemma as_object_Some_iff [json_simps]: "as_object v = Some m \<longleftrightarrow> v = JObj m"
  by (cases v) auto

lemma as_bool_Some_iff [json_simps]: "as_bool v = Some b \<longleftrightarrow> v = JBool b"
  by (cases v) auto

lemma is_object_iff [json_simps]: "is_object v \<longleftrightarrow> (\<exists>m. v = JObj m)"
  by (cases v) auto

lemma is_array_iff [json_simps]: "is_array v \<longleftrightarrow> (\<exists>xs. v = JArr xs)"
  by (cases v) auto

lemma json_ok_get: "json_ok (JObj m) \<Longrightarrow> bm_get m k = Some v \<Longrightarrow> json_ok v"
  by (drule bm_get_SomeD) (auto simp: list_all_iff)

lemma json_ok_insert: "json_ok (JObj m) \<Longrightarrow> json_ok v \<Longrightarrow> json_ok (JObj (bm_insert k v m))"
proof -
  assume a: "json_ok (JObj m)" "json_ok v"
  have "list_all (\<lambda>e. json_ok (snd e)) m \<Longrightarrow> list_all (\<lambda>e. json_ok (snd e)) (bm_insert k v m)"
    using a(2) by (induction k v m rule: bm_insert.induct) auto
  with a show ?thesis by (simp add: bm_laws)
qed

lemma json_ok_remove: "json_ok (JObj m) \<Longrightarrow> json_ok (JObj (bm_remove k m))"
  using bm_remove_ok [of m k] by (auto simp: list_all_iff bm_remove_def)

lemma json_ok_filter: "json_ok (JObj m) \<Longrightarrow> json_ok (JObj (filter P m))"
  by (auto simp: list_all_iff intro: bm_filter_ok)

end
