(* ===== verification/Model.thy ===== *)
theory Model
  imports Json
begin

text \<open>
  The crate \<open>antares-model\<close>: the error vocabulary with its HTTP statuses (\<open>error.rs\<close>), tenant and entity
  ids (\<open>id.rs\<close>), the operation names and groups of clause 4.20 (\<open>operations.rs\<close>), and the helpers of
  \<open>lib.rs\<close>: egress key order, the entity members that are no attributes, the datetime comparison key,
  ISO 8601 durations and the attribute-name check.  An error carries its kind and its fixed text; the
  echo of the offending input (\<open>{raw:?}\<close>) is left out.
\<close>

subsection \<open>Errors (error.rs)\<close>

datatype ngsi_error =
    AlreadyExists string
  | BadRequestData string
  | Conflict string
  | InvalidRequest string
  | InternalError string
  | LdContextNotAvailable string
  | NoMultiTenantSupport string
  | NonexistentTenant string
  | OperationNotSupported string
  | ResourceNotFound string
  | TooComplexQuery string
  | TooManyResults string

type_synonym 'a ngsi_result = "(ngsi_error, 'a) result"

definition ERROR_TYPE_BASE :: string where
  "ERROR_TYPE_BASE = ''https://uri.etsi.org/ngsi-ld/errors/''"

fun status :: "ngsi_error \<Rightarrow> int" where
  "status (AlreadyExists _) = 409"
| "status (Conflict _) = 409"
| "status (BadRequestData _) = 400"
| "status (InvalidRequest _) = 400"
| "status (InternalError _) = 500"
| "status (LdContextNotAvailable _) = 504"
| "status (NoMultiTenantSupport _) = 501"
| "status (NonexistentTenant _) = 404"
| "status (ResourceNotFound _) = 404"
| "status (OperationNotSupported _) = 422"
| "status (TooComplexQuery _) = 403"
| "status (TooManyResults _) = 403"

fun kind :: "ngsi_error \<Rightarrow> string" where
  "kind (AlreadyExists _) = ''AlreadyExists''"
| "kind (BadRequestData _) = ''BadRequestData''"
| "kind (Conflict _) = ''Conflict''"
| "kind (InvalidRequest _) = ''InvalidRequest''"
| "kind (InternalError _) = ''InternalError''"
| "kind (LdContextNotAvailable _) = ''LdContextNotAvailable''"
| "kind (NoMultiTenantSupport _) = ''NoMultiTenantSupport''"
| "kind (NonexistentTenant _) = ''NonexistentTenant''"
| "kind (OperationNotSupported _) = ''OperationNotSupported''"
| "kind (ResourceNotFound _) = ''ResourceNotFound''"
| "kind (TooComplexQuery _) = ''TooComplexQuery''"
| "kind (TooManyResults _) = ''TooManyResults''"

fun detail :: "ngsi_error \<Rightarrow> string" where
  "detail (AlreadyExists d) = d"
| "detail (BadRequestData d) = d"
| "detail (Conflict d) = d"
| "detail (InvalidRequest d) = d"
| "detail (InternalError d) = d"
| "detail (LdContextNotAvailable d) = d"
| "detail (NoMultiTenantSupport d) = d"
| "detail (NonexistentTenant d) = d"
| "detail (OperationNotSupported d) = d"
| "detail (ResourceNotFound d) = d"
| "detail (TooComplexQuery d) = d"
| "detail (TooManyResults d) = d"

record problem_details =
  pd_type :: string
  pd_title :: string
  pd_status :: int
  pd_detail :: string

definition to_problem_details :: "ngsi_error \<Rightarrow> problem_details" where
  "to_problem_details e =
     \<lparr>pd_type = ERROR_TYPE_BASE @ kind e, pd_title = kind e, pd_status = status e, pd_detail = detail e\<rparr>"

subsection \<open>Ids (id.rs)\<close>

definition RESERVED_PREFIXES :: "string list" where
  "RESERVED_PREFIXES = [''snap-'']"

definition RESERVED_EXACT :: "string list" where
  "RESERVED_EXACT = [''distsub-index'']"

definition is_reserved_str :: "string \<Rightarrow> bool" where
  "is_reserved_str raw \<longleftrightarrow>
     list_ex (\<lambda>p. starts_with p raw) RESERVED_PREFIXES \<or> List.member RESERVED_EXACT raw"

definition tenant_byte :: "char \<Rightarrow> bool" where
  "tenant_byte c \<longleftrightarrow> is_alnum c \<or> c = CHR ''_'' \<or> c = CHR ''-''"

definition tenant_new_internal :: "string \<Rightarrow> string ngsi_result" where
  "tenant_new_internal raw =
     (if raw \<noteq> [] \<and> length raw \<le> 64 \<and> list_all tenant_byte raw then Ok raw
      else Err (BadRequestData ''invalid NGSILD-Tenant value''))"

definition tenant_new :: "string \<Rightarrow> string ngsi_result" where
  "tenant_new raw =
     (if is_reserved_str raw then Err (BadRequestData ''invalid NGSILD-Tenant value'')
      else tenant_new_internal raw)"

text \<open>\<open>str::chars\<close>: the code points of a UTF-8 byte string.\<close>

definition byte_val :: "char \<Rightarrow> int" where
  "byte_val c = of_char c"

fun chars :: "string \<Rightarrow> int list" where
  "chars [] = []"
| "chars [a] = [byte_val a]"
| "chars (a # b # s) =
     (if byte_val a < 192 then byte_val a # chars (b # s)
      else if byte_val a < 224 then ((byte_val a - 192) * 64 + (byte_val b - 128)) # chars s
      else (case s of
              [] \<Rightarrow> [byte_val a, byte_val b]
            | c # s' \<Rightarrow>
                (if byte_val a < 240
                 then ((byte_val a - 224) * 4096 + (byte_val b - 128) * 64 + (byte_val c - 128)) # chars s'
                 else (case s' of
                         [] \<Rightarrow> [byte_val a, byte_val b, byte_val c]
                       | d # s'' \<Rightarrow> ((byte_val a - 240) * 262144 + (byte_val b - 128) * 4096
                                    + (byte_val c - 128) * 64 + (byte_val d - 128)) # chars s''))))"

definition unicode_ws :: "int \<Rightarrow> bool" where
  "unicode_ws n \<longleftrightarrow> (9 \<le> n \<and> n \<le> 13) \<or> n = 32 \<or> n = 133 \<or> n = 160 \<or> n = 5760
     \<or> (8192 \<le> n \<and> n \<le> 8202) \<or> n = 8232 \<or> n = 8233 \<or> n = 8239 \<or> n = 8287 \<or> n = 12288"

definition ascii_alnum_code :: "int \<Rightarrow> bool" where
  "ascii_alnum_code n \<longleftrightarrow> (48 \<le> n \<and> n \<le> 57) \<or> (65 \<le> n \<and> n \<le> 90) \<or> (97 \<le> n \<and> n \<le> 122)"

definition URI_ASCII :: "int list" where
  "URI_ASCII = map byte_val (''-._~:/?#[]@!$&'' @ [CHR 0x27] @ ''()*+,;=%'')"

definition iri_non_ascii :: "int \<Rightarrow> bool" where
  "iri_non_ascii n \<longleftrightarrow>
     (0xa0 \<le> n \<and> n \<le> 0xd7ff) \<or> (0xe000 \<le> n \<and> n \<le> 0xfdcf) \<or> (0xfdf0 \<le> n \<and> n \<le> 0xffef)
     \<or> (0x10000 \<le> n \<and> n mod 0x10000 \<le> 0xfffd \<and> \<not> (0xe0000 \<le> n \<and> n \<le> 0xe0fff))"

definition invisible :: "int \<Rightarrow> bool" where
  "invisible n \<longleftrightarrow> n = 0xad \<or> n = 0x61c \<or> n = 0x115f \<or> n = 0x1160 \<or> n = 0x3164 \<or> n = 0xffa0
     \<or> n = 0x180e \<or> (0x200b \<le> n \<and> n \<le> 0x200f) \<or> n = 0x2800 \<or> (0x2028 \<le> n \<and> n \<le> 0x202e)
     \<or> (0x2060 \<le> n \<and> n \<le> 0x206f) \<or> (0xfe00 \<le> n \<and> n \<le> 0xfe0f) \<or> n = 0xfeff
     \<or> (0xfff9 \<le> n \<and> n \<le> 0xfffb)"

definition is_id_char :: "int \<Rightarrow> bool" where
  "is_id_char n \<longleftrightarrow>
     (ascii_alnum_code n \<or> List.member URI_ASCII n \<or> iri_non_ascii n) \<and> \<not> unicode_ws n \<and> \<not> invisible n"

text \<open>\<open>has_dot_segment\<close> (lib.rs), written out a second time inside \<open>EntityId::new\<close>.\<close>

definition has_dot_segment :: "string \<Rightarrow> bool" where
  "has_dot_segment attr =
     list_ex (\<lambda>seg. seg = ''.'' \<or> seg = ''..'')
       (split_on (\<lambda>c. c = CHR ''/'')
          (str_replace ''%2f'' ''/'' (str_replace ''%2e'' ''.'' (to_ascii_lowercase attr))))"

definition scheme_char :: "char \<Rightarrow> bool" where
  "scheme_char c \<longleftrightarrow> is_alnum c \<or> List.member ''+-.'' c"

definition entity_id_new :: "string \<Rightarrow> string ngsi_result" where
  "entity_id_new raw =
     (let no_illegal = list_all is_id_char (chars raw);
          no_dot_segment = (\<not> has_dot_segment raw);
          scheme_ok = (no_illegal \<and> no_dot_segment \<and>
            (case split_once CHR '':'' raw of
               None \<Rightarrow> False
             | Some (s, rest) \<Rightarrow> s \<noteq> [] \<and> rest \<noteq> [] \<and> list_all scheme_char s))
      in if scheme_ok then Ok raw else Err (BadRequestData ''entity id is not a valid URI''))"


subsection \<open>Operations (operations.rs)\<close>

definition OPERATION_NAMES :: "string list" where
  "OPERATION_NAMES =
    [''createEntity'', ''updateEntity'', ''appendAttrs'', ''updateAttrs'', ''deleteAttrs'',
      ''deleteEntity'', ''createBatch'', ''upsertBatch'', ''updateBatch'', ''deleteBatch'',
      ''upsertTemporal'', ''appendAttrsTemporal'', ''deleteAttrsTemporal'',
      ''updateAttrInstanceTemporal'', ''deleteAttrInstanceTemporal'', ''deleteTemporal'',
      ''mergeEntity'', ''replaceEntity'', ''replaceAttrs'', ''mergeBatch'', ''purgeEntity'',
      ''retrieveEntity'', ''queryEntity'', ''queryBatch'', ''retrieveTemporal'', ''queryTemporal'',
      ''retrieveEntityTypes'', ''retrieveEntityTypeDetails'', ''retrieveEntityTypeInfo'',
      ''retrieveAttrTypes'', ''retrieveAttrTypeDetails'', ''retrieveAttrTypeInfo'',
      ''createSubscription'', ''updateSubscription'', ''retrieveSubscription'',
      ''querySubscription'', ''deleteSubscription'', ''retrieveEntityMap'', ''updateEntityMap'',
      ''deleteEntityMap'', ''createEntityMapQueryEntity'', ''createEntityMapQueryTemporal'',
      ''retrieveContextSourceIdentity'']"

definition OPERATION_GROUPS :: "string list" where
  "OPERATION_GROUPS = [''federationOps'', ''associationOps'', ''updateOps'', ''retrieveOps'', ''redirectionOps'']"

definition DEFAULT_OPERATION_GROUP :: string where
  "DEFAULT_OPERATION_GROUP = ''federationOps''"

definition FEDERATION :: "string list" where
  "FEDERATION =
    [''retrieveEntity'', ''queryEntity'', ''queryBatch'', ''retrieveEntityTypes'',
      ''retrieveEntityTypeDetails'', ''retrieveEntityTypeInfo'', ''retrieveAttrTypes'',
      ''retrieveAttrTypeDetails'', ''retrieveAttrTypeInfo'', ''createSubscription'',
      ''updateSubscription'', ''retrieveSubscription'', ''querySubscription'',
      ''deleteSubscription'', ''retrieveEntityMap'', ''updateEntityMap'', ''deleteEntityMap'',
      ''createEntityMapQueryEntity'', ''retrieveContextSourceIdentity'']"

definition ASSOCIATION :: "string list" where
  "ASSOCIATION =
    [''retrieveEntity'', ''queryEntity'', ''queryBatch'', ''retrieveEntityTypes'',
      ''retrieveEntityTypeDetails'', ''retrieveEntityTypeInfo'', ''retrieveAttrTypes'',
      ''retrieveAttrTypeDetails'', ''retrieveAttrTypeInfo'', ''createSubscription'',
      ''updateSubscription'', ''retrieveSubscription'', ''querySubscription'',
      ''deleteSubscription'', ''retrieveContextSourceIdentity'']"

definition REDIRECTION :: "string list" where
  "REDIRECTION =
    [''createEntity'', ''updateEntity'', ''appendAttrs'', ''updateAttrs'', ''deleteAttrs'',
      ''deleteEntity'', ''mergeEntity'', ''replaceEntity'', ''replaceAttrs'', ''retrieveEntity'',
      ''queryEntity'', ''purgeEntity'', ''retrieveEntityTypes'', ''retrieveEntityTypeDetails'',
      ''retrieveEntityTypeInfo'', ''retrieveAttrTypes'', ''retrieveAttrTypeDetails'',
      ''retrieveAttrTypeInfo'', ''retrieveEntityMap'', ''updateEntityMap'', ''deleteEntityMap'',
      ''createEntityMapQueryEntity'', ''retrieveContextSourceIdentity'']"

definition group_members :: "string \<Rightarrow> string list option" where
  "group_members name =
     (if name = ''federationOps'' then Some FEDERATION
      else if name = ''associationOps'' then Some ASSOCIATION
      else if name = ''updateOps'' then Some [''updateEntity'', ''updateAttrs'', ''replaceEntity'', ''replaceAttrs'']
      else if name = ''retrieveOps'' then Some [''retrieveEntity'', ''queryEntity'']
      else if name = ''redirectionOps'' then Some REDIRECTION
      else None)"

subsection \<open>Shapes (lib.rs)\<close>

text \<open>\<open>SpecOrder\<close>: the members of a served object in order, \<open>id\<close> and \<open>type\<close> first at every depth.  The
  result is the sequence of entries the serializer is given, so an object here need not be sorted.\<close>

fun spec_order :: "json \<Rightarrow> json" where
  "spec_order (JObj m) =
     (let es = map (\<lambda>e. (fst e, spec_order (snd e))) m
      in JObj (List.map_filter (\<lambda>k. map_option (Pair k) (map_of es k)) [''id'', ''type'']
               @ filter (\<lambda>e. fst e \<noteq> ''id'' \<and> fst e \<noteq> ''type'') es))"
| "spec_order (JArr a) = JArr (map spec_order a)"
| "spec_order v = v"

definition ENTITY_META_KEYS :: "string list" where
  "ENTITY_META_KEYS = [''id'', ''type'', ''scope'', ''createdAt'', ''modifiedAt'', ''deletedAt'',
     ''expiresAt'', ''@context'']"

definition is_meta :: "string \<Rightarrow> bool" where
  "is_meta k \<longleftrightarrow> k \<noteq> ''@context'' \<and> List.member ENTITY_META_KEYS k"

text \<open>\<open>is_char_boundary(n)\<close> on UTF-8 bytes: the end, or a byte that does not continue a character.\<close>

definition is_char_boundary :: "string \<Rightarrow> nat \<Rightarrow> bool" where
  "is_char_boundary s n \<longleftrightarrow>
     n = 0 \<or> n = length s \<or> (n < length s \<and> \<not> (128 \<le> byte_val (s ! n) \<and> byte_val (s ! n) < 192))"

text \<open>The format \<open>{:0<6}\<close>, which counts characters.\<close>

definition pad_zeros :: "nat \<Rightarrow> string \<Rightarrow> string" where
  "pad_zeros n s = s @ replicate (n - length (chars s)) CHR ''0''"

definition dt_key :: "string \<Rightarrow> string" where
  "dt_key s = (case strip_suffix ''Z'' s of
      None \<Rightarrow> s
    | Some body \<Rightarrow>
        (if \<not> is_char_boundary body 19 then s
         else (let base = take 19 body; frac = drop 19 body;
                   digits = (case strip_char CHR ''.'' frac of
                               Some d \<Rightarrow> d
                             | None \<Rightarrow> (case strip_char CHR '','' frac of Some d \<Rightarrow> d | None \<Rightarrow> []))
               in base @ ''.'' @ pad_zeros 6 digits)))"

definition check_attr_name :: "string \<Rightarrow> unit ngsi_result" where
  "check_attr_name attr =
     (if attr \<noteq> [] \<and> list_all (\<lambda>c. is_alnum c \<or> List.member ''_:.#/%-+'' c) attr \<and> \<not> has_dot_segment attr
      then Ok () else Err (BadRequestData ''invalid attribute name''))"

subsection \<open>ISO 8601 durations (lib.rs)\<close>

record iso_duration =
  years :: f64
  months :: f64
  weeks :: f64
  days :: f64
  hours :: f64
  minutes :: f64
  seconds :: f64
  whole :: bool
  empty :: bool

text \<open>\<open>parse::<f64>\<close> and \<open>parse::<i64>\<close> on the text the scan passes: digits, \<open>.\<close> and (for \<open>i64\<close>) \<open>,\<close>.
  A float may leave one side of its point empty, not both.\<close>

definition dur_f64 :: "string \<Rightarrow> f64 option" where
  "dur_f64 s = (let ip = takeWhile is_digit s; rest = dropWhile is_digit s in
     case rest of
       [] \<Rightarrow> if ip = [] then None else Some (round_f64 (of_int (digits_val ip)))
     | _ # fp \<Rightarrow> if list_all is_digit fp \<and> ip @ fp \<noteq> []
                then Some (round_f64 (of_int (digits_val (ip @ fp)) / 10 ^ length fp)) else None)"

definition dur_i64 :: "string \<Rightarrow> bool" where
  "dur_i64 s \<longleftrightarrow> s \<noteq> [] \<and> list_all is_digit s \<and> digits_val s < 2 ^ 63"

fun position :: "'a \<Rightarrow> 'a list \<Rightarrow> nat option" where
  "position x [] = None"
| "position x (y # ys) = (if x = y then Some 0 else map_option Suc (position x ys))"

definition dur_char :: "char \<Rightarrow> bool" where
  "dur_char c \<longleftrightarrow> is_digit c \<or> c = CHR ''.'' \<or> c = CHR '',''"

function dur_scan :: "char list \<Rightarrow> string \<Rightarrow> nat \<Rightarrow> f64 list \<Rightarrow> bool \<Rightarrow> bool \<Rightarrow> (f64 list \<times> bool \<times> bool) option" where
  "dur_scan units p nxt out wh anyc =
     (if p = [] then Some (out, wh, anyc)
      else (case dropWhile dur_char p of
              [] \<Rightarrow> None
            | unit # p' \<Rightarrow>
                (let num = takeWhile dur_char p in
                 case position unit (drop nxt units) of
                   None \<Rightarrow> None
                 | Some k \<Rightarrow>
                     (if \<not> list_ex is_digit num then None
                      else (case dur_f64 (map (\<lambda>c. if c = CHR '','' then CHR ''.'' else c) num) of
                              None \<Rightarrow> None
                            | Some v \<Rightarrow>
                                (if \<not> is_finite v then None
                                 else dur_scan units p' (Suc (nxt + k)) (out[nxt + k := v])
                                        (wh \<and> dur_i64 num) True))))))"
  by pat_completeness auto
termination
proof (relation "measure (\<lambda>(units, p, nxt, out, wh, anyc). length p)", goal_cases)
  case (2 units p nxt out wh anyc unit p')
  have "length (dropWhile dur_char p) \<le> length p" by (rule length_dropWhile_le)
  with 2 show ?case by simp
qed simp

declare dur_scan.simps [simp del]

definition parse_iso_duration :: "string \<Rightarrow> iso_duration option" where
  "parse_iso_duration s =
     (case strip_char CHR ''P'' s of
        None \<Rightarrow> None
      | Some rest \<Rightarrow>
          (let (date, time) = (case split_once CHR ''T'' rest of
                 Some (d, t) \<Rightarrow> (d, Some t) | None \<Rightarrow> (rest, None))
           in case dur_scan ''YMWD'' date 0 (replicate 4 (Fin 0)) True False of
                None \<Rightarrow> None
              | Some (v, wh, date_any) \<Rightarrow>
                  (case (case time of
                           None \<Rightarrow> Some (replicate 3 (Fin 0), wh, False)
                         | Some t \<Rightarrow> dur_scan ''HMS'' t 0 (replicate 3 (Fin 0)) wh False) of
                     None \<Rightarrow> None
                   | Some (w, wh', time_any) \<Rightarrow>
                       (if time \<noteq> None \<and> \<not> time_any then None
                        else Some \<lparr>years = v ! 0, months = v ! 1, weeks = v ! 2, days = v ! 3,
                                   hours = w ! 0, minutes = w ! 1, seconds = w ! 2,
                                   whole = wh', empty = (\<not> date_any \<and> \<not> time_any)\<rparr>))))"

lemma length_dur_scan: "dur_scan units p nxt out wh anyc = Some (out', wh', any') \<Longrightarrow> length out' = length out"
proof (induction units p nxt out wh anyc rule: dur_scan.induct)
  case (1 units p nxt out wh anyc)
  from 1(2) show ?case
    by (subst (asm) dur_scan.simps)
       (auto split: if_splits list.splits option.splits simp: Let_def dest: 1(1))
qed

end
