(* ===== verification/QParser.thy ===== *)
theory QParser
  imports Model
begin

text \<open>
  The \<open>q=\<close> query language (\<open>antares-ql/src/lib.rs\<close>): the syntax tree and its parser.  The Rust parser is
  a cursor \<open>rest\<close> over the input with a nesting counter; here every parse function takes the remaining
  input and returns the value with the input left.  \<open>qterm\<close> recurses on the nesting budget
  \<open>MAX_Q_DEPTH - depth\<close>, and the \<open>while self.eat(c)\<close> loops are \<open>many\<close>, which runs on the length of the
  input: \<open>many_unfold\<close> shows that budget is never the reason it stops.

  \<open>serde_json::from_str\<close> on a string literal, the float formatter, \<open>chrono\<close> and the \<open>regex\<close> crate are
  outside the source; what the broker calls of them are the fields of \<open>ext\<close>.
\<close>

record ext =
  unquote :: "string \<Rightarrow> string option"  \<comment> \<open>\<open>serde_json::from_str::<String>\<close>\<close>
  quote :: "string \<Rightarrow> string"           \<comment> \<open>\<open>Display\<close> of \<open>serde_json::Value::String\<close>\<close>
  show_f64 :: "f64 \<Rightarrow> string"           \<comment> \<open>\<open>Display\<close> of \<open>f64\<close>\<close>
  rfc3339 :: "string \<Rightarrow> int option"      \<comment> \<open>\<open>chrono::DateTime::parse_from_rfc3339\<close>: the instant, in nanoseconds\<close>
  re_compile :: "string \<Rightarrow> (string \<Rightarrow> bool) option"  \<comment> \<open>the \<open>regex\<close> crate: \<open>is_match\<close> of the compiled pattern\<close>

subsection \<open>The syntax tree\<close>

datatype cmp_op = Eq | Ne | Gt | Ge | Lt | Le | Pattern | NotPattern

datatype qvalue =
    QStr string
  | QNum f64
  | QBool bool
  | QList "qvalue list"
  | QRange qvalue qvalue

record link =
  attr :: string
  types :: "string list"

record qpath =
  links :: "link list"
  path :: "string list"
  bracket :: "string list option"

datatype qnode =
    And "qnode list"
  | Or "qnode list"
  | Cmp qpath cmp_op qvalue
  | Exists qpath bool

definition dotted :: "string list \<Rightarrow> qpath" where
  "dotted p = \<lparr>links = [], path = p, bracket = None\<rparr>"

definition top :: "qpath \<Rightarrow> string option" where
  "top p = (case links p of
      l # _ \<Rightarrow> Some (attr l)
    | [] \<Rightarrow> (case path p of s # _ \<Rightarrow> Some s | [] \<Rightarrow> None))"

fun attribute_paths :: "qnode \<Rightarrow> string list" where
  "attribute_paths (And ns) = concat (map attribute_paths ns)"
| "attribute_paths (Or ns) = concat (map attribute_paths ns)"
| "attribute_paths (Cmp p _ _) = (case top p of None \<Rightarrow> [] | Some s \<Rightarrow> [s])"
| "attribute_paths (Exists p _) = (case top p of None \<Rightarrow> [] | Some s \<Rightarrow> [s])"

fun has_linked_paths :: "qnode \<Rightarrow> bool" where
  "has_linked_paths (And ns) = list_ex has_linked_paths ns"
| "has_linked_paths (Or ns) = list_ex has_linked_paths ns"
| "has_linked_paths (Cmp p _ _) = (links p \<noteq> [])"
| "has_linked_paths (Exists p _) = (links p \<noteq> [])"

definition max_or_0 :: "nat list \<Rightarrow> nat" where
  "max_or_0 xs = foldr max xs 0"

fun max_link_depth :: "qnode \<Rightarrow> nat" where
  "max_link_depth (And ns) = max_or_0 (map max_link_depth ns)"
| "max_link_depth (Or ns) = max_or_0 (map max_link_depth ns)"
| "max_link_depth (Cmp p _ _) = length (links p)"
| "max_link_depth (Exists p _) = length (links p)"

definition SYSTEM_ATTRS :: "string list" where
  "SYSTEM_ATTRS = [''id'', ''type'', ''scope'', ''createdAt'', ''modifiedAt'', ''expiresAt'',
     ''deletedAt'', ''instanceId'']"

definition is_non_system_attr :: "string \<Rightarrow> bool" where
  "is_non_system_attr name \<longleftrightarrow> \<not> List.member SYSTEM_ATTRS name"

fun q_nodes :: "qnode \<Rightarrow> nat" where
  "q_nodes (And xs) = 1 + sum_list (map q_nodes xs)"
| "q_nodes (Or xs) = 1 + sum_list (map q_nodes xs)"
| "q_nodes _ = 1"

subsection \<open>Percent decoding\<close>

definition hex_val :: "char \<Rightarrow> nat option" where
  "hex_val c = (let n = of_char c :: nat in
     if is_digit c then Some (n - 48)
     else if 97 \<le> n \<and> n \<le> 102 then Some (n - 87)
     else if 65 \<le> n \<and> n \<le> 70 then Some (n - 55) else None)"

text \<open>The bytes \<open>percent_decode\<close> collects; \<open>String::from_utf8_lossy\<close> is \<open>utf8_lossy\<close>: every maximal
  prefix of an ill-formed sequence becomes U+FFFD.\<close>

fun percent_bytes :: "string \<Rightarrow> string" where
  "percent_bytes (c # h # l # s) =
     (if c = CHR ''%'' then
        (case (hex_val h, hex_val l) of
           (Some a, Some b) \<Rightarrow> char_of (16 * a + b) # percent_bytes s
         | _ \<Rightarrow> c # percent_bytes (h # l # s))
      else c # percent_bytes (h # l # s))"
| "percent_bytes s = s"

definition utf8_step :: "string \<Rightarrow> nat \<times> bool" where
  "utf8_step s =
     (let b = (\<lambda>i. if i < length s then byte_val (s ! i) else 0);
          cont = (\<lambda>i. 128 \<le> b i \<and> b i \<le> 191);
          a = b 0
      in if a < 128 then (1, True)
         else if 194 \<le> a \<and> a \<le> 223 then (if cont 1 then (2, True) else (1, False))
         else if 224 \<le> a \<and> a \<le> 239 then
           (if \<not> (cont 1 \<and> (a = 224 \<longrightarrow> 160 \<le> b 1) \<and> (a = 237 \<longrightarrow> b 1 \<le> 159)) then (1, False)
            else if \<not> cont 2 then (2, False) else (3, True))
         else if 240 \<le> a \<and> a \<le> 244 then
           (if \<not> (cont 1 \<and> (a = 240 \<longrightarrow> 144 \<le> b 1) \<and> (a = 244 \<longrightarrow> b 1 \<le> 143)) then (1, False)
            else if \<not> cont 2 then (2, False)
            else if \<not> cont 3 then (3, False) else (4, True))
         else (1, False))"

lemma utf8_step_pos: "fst (utf8_step s) \<noteq> 0"
  by (auto simp: utf8_step_def Let_def)

function utf8_lossy :: "string \<Rightarrow> string" where
  "utf8_lossy s = (if s = [] then []
     else (case utf8_step s of (n, ok) \<Rightarrow>
       (if ok then take n s else map byte [239, 191, 189]) @ utf8_lossy (drop n s)))"
  by pat_completeness auto
termination
proof (relation "measure length", goal_cases)
  case (2 s n ok)
  then have "n = fst (utf8_step s)" by (metis fst_conv)
  with utf8_step_pos [of s] have "n \<noteq> 0" by simp
  with 2 show ?case by (cases s) simp_all
qed simp

declare utf8_lossy.simps [simp del]

definition percent_decode :: "string \<Rightarrow> string" where
  "percent_decode input = utf8_lossy (percent_bytes input)"

subsection \<open>The parser\<close>

type_synonym 'a parser = "string \<Rightarrow> (ngsi_error, 'a \<times> string) result"

definition MAX_Q_BYTES :: nat where "MAX_Q_BYTES = 4096"
definition MAX_Q_DEPTH :: nat where "MAX_Q_DEPTH = 64"
definition MAX_Q_NODES :: nat where "MAX_Q_NODES = 512"

definition bad :: "string \<Rightarrow> ngsi_error" where
  "bad why = BadRequestData (''invalid q expression: '' @ why)"

fun many_fuel :: "nat \<Rightarrow> char \<Rightarrow> 'a parser \<Rightarrow> 'a list parser" where
  "many_fuel 0 c p s = Ok ([], s)"
| "many_fuel (Suc n) c p s =
     (case strip_char c s of
        None \<Rightarrow> Ok ([], s)
      | Some r \<Rightarrow> and_then (p r) (\<lambda>(x, r'). and_then (many_fuel n c p r') (\<lambda>(xs, r''). Ok (x # xs, r''))))"

text \<open>\<open>while self.eat(c) { xs.push(p()?) }\<close>.\<close>

definition many :: "char \<Rightarrow> 'a parser \<Rightarrow> 'a list parser" where
  "many c p s = many_fuel (length s) c p s"

definition name_delim :: "char \<Rightarrow> bool" where
  "name_delim c \<longleftrightarrow> List.member ''=!<>~;|(),.{}[]: '' c"

definition name_token :: "string parser" where
  "name_token s0 =
     (let s = trim_start s0;
          raw = takeWhile (\<lambda>c. \<not> name_delim c) s;
          rest = dropWhile (\<lambda>c. \<not> name_delim c) s
      in if raw = [] then Err (bad ''expected attribute name'') else Ok (raw, trim_start rest))"

definition cmp_toks :: "(string \<times> cmp_op) list" where
  "cmp_toks = [(''=='', Eq), (''!~='', NotPattern), (''!='', Ne), (''~='', Pattern),
     (''>='', Ge), (''<='', Le), (''>'', Gt), (''<'', Lt)]"

fun first_tok :: "(string \<times> cmp_op) list \<Rightarrow> string \<Rightarrow> (cmp_op \<times> string) option" where
  "first_tok [] s = None"
| "first_tok ((t, op) # ts) s = (case strip_prefix t s of Some r \<Rightarrow> Some (op, r) | None \<Rightarrow> first_tok ts s)"

definition parse_op :: "string \<Rightarrow> (cmp_op \<times> string) option" where
  "parse_op s = first_tok cmp_toks s"

text \<open>\<open>json_string_end\<close>: one past the closing quote; the scan starts after the opening one.\<close>

fun json_string_scan :: "nat \<Rightarrow> string \<Rightarrow> nat option" where
  "json_string_scan i [] = None"
| "json_string_scan i (c # s) =
     (if c = CHR 0x5C then (case s of [] \<Rightarrow> None | _ # s' \<Rightarrow> json_string_scan (i + 2) s')
      else if c = CHR 0x22 then Some (i + 1)
      else json_string_scan (i + 1) s)"

definition json_string_end :: "string \<Rightarrow> nat option" where
  "json_string_end s = json_string_scan 1 (drop 1 s)"

fun find_sub :: "string \<Rightarrow> string \<Rightarrow> nat option" where
  "find_sub p [] = (if p = [] then Some 0 else None)"
| "find_sub p (c # s) = (if starts_with p (c # s) then Some 0 else map_option Suc (find_sub p s))"

definition scalar_stop :: "string \<Rightarrow> nat" where
  "scalar_stop s =
     (let stop = length (takeWhile (\<lambda>c. \<not> List.member '';|(),'' c) s)
      in case find_sub ''..'' s of Some d \<Rightarrow> (if d < stop then d else stop) | None \<Rightarrow> stop)"

definition scalar :: "ext \<Rightarrow> bool \<Rightarrow> qvalue parser" where
  "scalar E regexp s0 =
     (let s = trim_start s0 in
      if starts_with [CHR 0x22] s then
        (if regexp then
           (let rest = tl s in
            if CHR 0x22 \<in> set rest
            then Ok (QStr (takeWhile (\<lambda>c. c \<noteq> CHR 0x22) rest), tl (dropWhile (\<lambda>c. c \<noteq> CHR 0x22) rest))
            else Err (bad ''unterminated string''))
         else (case json_string_end s of
                 None \<Rightarrow> Err (bad ''unterminated string'')
               | Some e \<Rightarrow>
                   (case unquote E (take e s) of
                      None \<Rightarrow> Err (bad ''value is not an RFC 8259 String (4.9 quotedStr)'')
                    | Some v \<Rightarrow> Ok (QStr v, drop e s))))
      else
        (let e = scalar_stop s; raw = trim (take e s); rest = drop e s in
         if \<not> regexp \<and> CHR 0x22 \<in> set raw then Err (bad ''unquoted value must not contain a quote (4.9)'')
         else if raw = ''true'' then Ok (QBool True, rest)
         else if raw = ''false'' then Ok (QBool False, rest)
         else if is_json_number raw then Ok (QNum (parse_f64 raw), rest)
         else if raw = [] then Err (bad ''expected value'')
         else Ok (QStr raw, rest)))"

fun is_equality :: "cmp_op \<Rightarrow> bool" where
  "is_equality Eq = True" | "is_equality Ne = True" | "is_equality _ = False"

fun is_regexp :: "cmp_op \<Rightarrow> bool" where
  "is_regexp Pattern = True" | "is_regexp NotPattern = True" | "is_regexp _ = False"

fun is_ordering :: "cmp_op \<Rightarrow> bool" where
  "is_ordering Gt = True" | "is_ordering Ge = True" | "is_ordering Lt = True"
| "is_ordering Le = True" | "is_ordering _ = False"

fun is_QBool :: "qvalue \<Rightarrow> bool" where
  "is_QBool (QBool _) = True" | "is_QBool _ = False"

text \<open>\<open>std::mem::discriminant\<close> equality.\<close>

fun same_variant :: "qvalue \<Rightarrow> qvalue \<Rightarrow> bool" where
  "same_variant (QStr _) (QStr _) = True"
| "same_variant (QNum _) (QNum _) = True"
| "same_variant (QBool _) (QBool _) = True"
| "same_variant (QList _) (QList _) = True"
| "same_variant (QRange _ _) (QRange _ _) = True"
| "same_variant _ _ = False"

text \<open>One item of a value list, with the white space around it.\<close>

definition list_item :: "ext \<Rightarrow> qvalue parser" where
  "list_item E s = and_then (scalar E False (trim_start s)) (\<lambda>(v, r). Ok (v, trim_start r))"

definition op_value :: "ext \<Rightarrow> cmp_op \<Rightarrow> qvalue parser" where
  "op_value E op s =
     and_then (scalar E (is_regexp op) s) (\<lambda>(first, r0).
       let r = trim_start r0 in
       case strip_prefix ''..'' r of
         Some r1 \<Rightarrow>
           (if \<not> is_equality op then Err (bad ''a Range is only valid with == or != (4.9 CompEqualityValue)'')
            else and_then (scalar E False (trim_start r1)) (\<lambda>(hi, r2).
              if \<not> same_variant first hi \<or> is_QBool first
              then Err (bad ''Range endpoints must be two comparable values of the same type'')
              else Ok (QRange first hi, r2)))
       | None \<Rightarrow>
           (if starts_with '','' r then
              (if \<not> is_equality op then Err (bad ''a ValueList is only valid with == or != (4.9 CompEqualityValue)'')
               else and_then (many CHR '','' (list_item E) r) (\<lambda>(items, r2). Ok (QList (first # items), r2)))
            else if is_ordering op \<and> is_QBool first
            then Err (bad ''true/false are only valid with == or != (4.9 OtherValue)'')
            else Ok (first, r)))"

text \<open>\<open>if !self.eat(c) { return Err(bad(..)) }\<close>.\<close>

definition expect :: "char \<Rightarrow> string \<Rightarrow> string \<Rightarrow> (ngsi_error, string) result" where
  "expect c why s = (case strip_char c s of Some r \<Rightarrow> Ok r | None \<Rightarrow> Err (bad why))"

text \<open>The linked-entity hops; the argument is the number of braces still allowed.\<close>

fun hops :: "nat \<Rightarrow> string \<Rightarrow> (link list \<times> string) parser" where
  "hops k name s =
     (case strip_char CHR ''{'' s of
        None \<Rightarrow> Ok (([], name), s)
      | Some s1 \<Rightarrow>
          (case k of
             0 \<Rightarrow> Err (TooComplexQuery ''q linked-entity path nests deeper than 8'')
           | Suc k' \<Rightarrow>
               and_then (name_token s1) (\<lambda>(inner, s2).
               and_then
                 (if starts_with '','' s2 \<or> starts_with '':'' s2 then
                    and_then (many CHR '','' name_token s2) (\<lambda>(ts, s3).
                    and_then (expect CHR '':'' ''expected : after EntityType hints'' s3) (\<lambda>s4.
                    and_then (name_token s4) (\<lambda>(nm, s5). Ok ((inner # ts, nm), s5))))
                  else Ok (([], inner), s2))
                 (\<lambda>((tys, nm), s6).
               and_then (hops k' nm s6) (\<lambda>((ls, last_name), s7).
                 Ok ((\<lparr>attr = name, types = tys\<rparr> # ls, last_name), s7))))))"

definition bracket_body :: "string list parser" where
  "bracket_body s =
     (case strip_char CHR ''*'' s of
        Some r \<Rightarrow> Ok ([''*''], r)
      | None \<Rightarrow> and_then (name_token s) (\<lambda>(n, r). and_then (many CHR ''.'' name_token r) (\<lambda>(ns, r'). Ok (n # ns, r'))))"

definition bracket_opt :: "string list option parser" where
  "bracket_opt s =
     (case strip_char CHR ''['' s of
        None \<Rightarrow> Ok (None, s)
      | Some r \<Rightarrow> and_then (bracket_body r) (\<lambda>(b, r'). and_then (expect CHR '']'' ''expected ]'' r') (\<lambda>r''. Ok (Some b, r''))))"

fun close_braces :: "nat \<Rightarrow> string \<Rightarrow> (ngsi_error, string) result" where
  "close_braces 0 s = Ok s"
| "close_braces (Suc n) s = and_then (expect CHR ''}'' ''expected }'' s) (close_braces n)"

definition parse_path :: "qpath parser" where
  "parse_path s =
     and_then (name_token s) (\<lambda>(name, s1).
     and_then (hops 8 name s1) (\<lambda>((ls, nm), s2).
     and_then (many CHR ''.'' name_token s2) (\<lambda>(segs, s3).
     and_then (bracket_opt s3) (\<lambda>(br, s4).
     and_then (close_braces (length ls) s4) (\<lambda>s5.
       Ok (\<lparr>links = ls, path = nm # segs, bracket = br\<rparr>, s5))))))"

text \<open>A term that is no parenthesis.\<close>

definition leaf :: "ext \<Rightarrow> qnode parser" where
  "leaf E s =
     (let (negated, s1) = (case strip_char CHR ''!'' s of Some r \<Rightarrow> (True, r) | None \<Rightarrow> (False, s))
      in and_then (parse_path s1) (\<lambda>(p, s2).
        case parse_op s2 of
          Some (op, s3) \<Rightarrow>
            (if negated then Err (bad ''! only prefixes an existence check'')
             else and_then (op_value E op s3) (\<lambda>(v, s4). Ok (Cmp p op v, s4)))
        | None \<Rightarrow> Ok (Exists p negated, s2)))"

text \<open>\<open>and_expr\<close> and \<open>or_expr\<close> over the parser of their operands.\<close>

definition sep_expr :: "char \<Rightarrow> (qnode list \<Rightarrow> qnode) \<Rightarrow> qnode parser \<Rightarrow> qnode parser" where
  "sep_expr c mk p s =
     and_then (p s) (\<lambda>(first, r). and_then (many c p r) (\<lambda>(rest, r').
       Ok (if rest = [] then first else mk (first # rest), r')))"

definition and_expr :: "qnode parser \<Rightarrow> qnode parser" where
  "and_expr tm = sep_expr CHR '';'' And tm"

definition or_expr :: "qnode parser \<Rightarrow> qnode parser" where
  "or_expr tm = sep_expr CHR ''|'' Or (and_expr tm)"

primrec qterm :: "nat \<Rightarrow> ext \<Rightarrow> qnode parser" where
  "qterm 0 E s =
     (case strip_char CHR ''('' s of
        Some _ \<Rightarrow> Err (TooComplexQuery ''q expression nests deeper than 64'')
      | None \<Rightarrow> leaf E s)"
| "qterm (Suc k) E s =
     (case strip_char CHR ''('' s of
        Some r \<Rightarrow> and_then (or_expr (qterm k E) r) (\<lambda>(node, r').
                    and_then (expect CHR '')'' ''expected )'' r') (\<lambda>r''. Ok (node, r'')))
      | None \<Rightarrow> leaf E s)"

definition parse_q :: "ext \<Rightarrow> string \<Rightarrow> qnode ngsi_result" where
  "parse_q E input =
     (if MAX_Q_BYTES < length input then Err (TooComplexQuery ''q expression exceeds 4096 bytes'')
      else and_then (or_expr (qterm MAX_Q_DEPTH E) (trim input)) (\<lambda>(node, rest).
        if rest \<noteq> [] then Err (bad ''trailing input'')
        else if MAX_Q_NODES < q_nodes node then Err (TooComplexQuery ''q expression exceeds 512 nodes'')
        else Ok node))"

subsection \<open>The loops are never cut short\<close>

text \<open>A parser that never gives back more input than it got.\<close>

definition shrinks :: "'a parser \<Rightarrow> bool" where
  "shrinks p \<longleftrightarrow> (\<forall>s x r. p s = Ok (x, r) \<longrightarrow> length r \<le> length s)"

lemma shrinksD: "shrinks p \<Longrightarrow> p s = Ok (x, r) \<Longrightarrow> length r \<le> length s"
  by (auto simp: shrinks_def)

lemma many_fuel_enough:
  assumes "shrinks p" "length s \<le> n" "length s \<le> m"
  shows "many_fuel n c p s = many_fuel m c p s"
  using assms(2,3)
proof (induction n arbitrary: m s)
  case 0
  then show ?case by (cases m) auto
next
  case (Suc n)
  show ?case
  proof (cases "strip_char c s")
    case None
    then show ?thesis by (cases m) auto
  next
    case (Some r)
    then have s: "s = c # r" by (simp add: strip_char_Some_iff)
    with Suc.prems obtain m' where m: "m = Suc m'" by (cases m) auto
    have "many_fuel n c p r' = many_fuel m' c p r'" if "p r = Ok (x, r')" for x r'
      using shrinksD [OF assms(1) that] Suc.prems s m by (intro Suc.IH) auto
    then show ?thesis by (cases "p r") (auto simp: m Some)
  qed
qed

lemma many_unfold:
  assumes "shrinks p"
  shows "many c p s =
    (case strip_char c s of
       None \<Rightarrow> Ok ([], s)
     | Some r \<Rightarrow> and_then (p r) (\<lambda>(x, r'). and_then (many c p r') (\<lambda>(xs, r''). Ok (x # xs, r''))))"
proof (cases "strip_char c s")
  case None
  then show ?thesis by (cases "length s") (auto simp: many_def)
next
  case (Some r)
  then have s: "s = c # r" by (simp add: strip_char_Some_iff)
  have "many_fuel (length r) c p r' = many c p r'" if "p r = Ok (x, r')" for x r'
    unfolding many_def using shrinksD [OF assms that] by (intro many_fuel_enough assms) auto
  then show ?thesis by (cases "p r") (auto simp: many_def s)
qed

lemma shrinks_many_fuel: "shrinks p \<Longrightarrow> many_fuel n c p s = Ok (xs, r) \<Longrightarrow> length r \<le> length s"
proof (induction n arbitrary: s xs)
  case (Suc n)
  then show ?case
    by (fastforce split: option.splits simp: and_then_Inr_iff strip_char_Some_iff dest: shrinksD)
qed auto

lemma shrinks_many [consume]: "shrinks p \<Longrightarrow> shrinks (many c p)"
  by (auto simp: shrinks_def [of "many c p"] many_def intro: shrinks_many_fuel)

lemma shrinks_name_token [consume]: "shrinks name_token"
  unfolding shrinks_def
proof (intro allI impI)
  fix s x r
  assume "name_token s = Ok (x, r)"
  then have "r = trim_start (dropWhile (\<lambda>c. \<not> name_delim c) (trim_start s))"
    by (auto simp: name_token_def Let_def split: if_splits)
  then have "length r \<le> length (dropWhile (\<lambda>c. \<not> name_delim c) (trim_start s))"
    by simp
  also have "\<dots> \<le> length (trim_start s)" by (rule length_dropWhile_le)
  also have "\<dots> \<le> length s" by simp
  finally show "length r \<le> length s" .
qed

lemma shrinks_scalar [consume]: "shrinks (scalar E b)"
proof -
  have "length r \<le> length (trim_start s)" if "scalar E b s = Ok (x, r)" for s x r
    using that length_dropWhile_le [of "\<lambda>c. c \<noteq> CHR 0x22" "tl (trim_start s)"]
    by (auto simp: scalar_def Let_def split: if_splits option.splits)
  then show ?thesis unfolding shrinks_def using length_trim_start by (meson order_trans)
qed

lemma shrinks_list_item [consume]: "shrinks (list_item E)"
proof -
  have "length r \<le> length s" if "list_item E s = Ok (x, r)" for s x r
  proof -
    from that obtain r0 where r0: "scalar E False (trim_start s) = Ok (x, r0)" "r = trim_start r0"
      by (auto simp: list_item_def and_then_Inr_iff)
    have "length r \<le> length r0" by (simp add: r0)
    also have "\<dots> \<le> length (trim_start s)" by (rule shrinksD [OF shrinks_scalar r0(1)])
    finally show ?thesis by (rule order_trans [OF _ length_trim_start])
  qed
  then show ?thesis by (simp add: shrinks_def)
qed

lemma shrinks_op_value [consume]: "shrinks (op_value E op)"
proof -
  have "length r \<le> length s" if "op_value E op s = Ok (x, r)" for s x r
  proof -
    from that obtain v r0 where r0: "scalar E (is_regexp op) s = Ok (v, r0)"
      by (auto simp: op_value_def and_then_Inr_iff)
    have l0: "length (trim_start r0) \<le> length s"
      by (rule order_trans [OF length_trim_start shrinksD [OF shrinks_scalar r0]])
    have "length r \<le> length (trim_start r0)"
    proof (cases "strip_prefix ''..'' (trim_start r0)")
      case (Some r1)
      with that r0 obtain y where "scalar E False (trim_start r1) = Ok (y, r)"
        by (auto simp: op_value_def and_then_Inr_iff Let_def split: if_splits)
      from shrinksD [OF shrinks_scalar this] length_trim_start [of r1] length_strip_prefix [OF Some]
      show ?thesis by linarith
    next
      case None
      show ?thesis
      proof (cases "starts_with '','' (trim_start r0)")
        case True
        with that r0 None obtain y where "many CHR '','' (list_item E) (trim_start r0) = Ok (y, r)"
          by (auto simp: op_value_def and_then_Inr_iff Let_def split: if_splits)
        then show ?thesis by (rule shrinksD [OF shrinks_many [OF shrinks_list_item]])
      next
        case False
        with that r0 None show ?thesis
          by (auto simp: op_value_def and_then_Inr_iff Let_def split: if_splits)
      qed
    qed
    with l0 show ?thesis by simp
  qed
  then show ?thesis by (simp add: shrinks_def)
qed

lemma shrinks_expect: "expect c w s = Ok r \<Longrightarrow> length r \<le> length s"
  by (auto simp: expect_def strip_char_Some_iff split: option.splits)

lemma shrinks_hops: "shrinks (hops k name)"
proof -
  have "length r \<le> length s" if "hops k name s = Ok (x, r)" for s x r
    using that
  proof (induction k arbitrary: name s x r)
    case 0
    then show ?case by (auto split: option.splits)
  next
    case (Suc k)
    show ?case
    proof (cases "strip_char CHR ''{'' s")
      case None
      with Suc.prems show ?thesis by simp
    next
      case (Some s1)
      with Suc.prems obtain inner s2 s6 tys nm where
        a: "name_token s1 = Ok (inner, s2)"
        and b: "(if starts_with '','' s2 \<or> starts_with '':'' s2 then
                    and_then (many CHR '','' name_token s2) (\<lambda>(ts, s3).
                    and_then (expect CHR '':'' ''expected : after EntityType hints'' s3) (\<lambda>s4.
                    and_then (name_token s4) (\<lambda>(nm, s5). Ok ((inner # ts, nm), s5))))
                  else Ok (([], inner), s2)) = Ok ((tys, nm), s6)"
        and c: "\<exists>y. hops k nm s6 = Ok (y, r)"
        by (fastforce simp: and_then_Inr_iff)
      have "length s6 \<le> length s2"
      proof (cases "starts_with '','' s2 \<or> starts_with '':'' s2")
        case True
        with b obtain ts s3 s4 where *: "many CHR '','' name_token s2 = Ok (ts, s3)"
          "expect CHR '':'' ''expected : after EntityType hints'' s3 = Ok s4" "name_token s4 = Ok (nm, s6)"
          by (fastforce simp: and_then_Inr_iff)
        from shrinksD [OF shrinks_many [OF shrinks_name_token] *(1)] shrinks_expect [OF *(2)]
          shrinksD [OF shrinks_name_token *(3)] show ?thesis by linarith
      next
        case False
        with b show ?thesis by simp
      qed
      moreover from c Suc.IH have "length r \<le> length s6" by blast
      ultimately show ?thesis
        using shrinksD [OF shrinks_name_token a] Some by (simp add: strip_char_Some_iff)
    qed
  qed
  then show ?thesis by (simp add: shrinks_def)
qed

lemma shrinks_bracket_opt: "shrinks bracket_opt"
proof -
  have body: "length r \<le> length s" if b: "bracket_body s = Ok (x, r)" for s x r
  proof (cases "strip_char CHR ''*'' s")
    case None
    with b obtain n r0 ns where "name_token s = Ok (n, r0)" "many CHR ''.'' name_token r0 = Ok (ns, r)"
      by (auto simp: bracket_body_def and_then_Inr_iff)
    from shrinksD [OF shrinks_name_token this(1)] shrinksD [OF shrinks_many [OF shrinks_name_token] this(2)]
    show ?thesis by linarith
  qed (use b in \<open>auto simp: bracket_body_def strip_char_Some_iff\<close>)
  show ?thesis
    by (auto simp: shrinks_def bracket_opt_def and_then_Inr_iff strip_char_Some_iff
        split: option.splits dest!: body shrinks_expect)
qed

lemma shrinks_close_braces: "close_braces n s = Ok r \<Longrightarrow> length r \<le> length s"
  by (induction n arbitrary: s) (fastforce simp: and_then_Inr_iff dest: shrinks_expect)+

lemma shrinks_parse_path [consume]: "shrinks parse_path"
proof -
  have "length r \<le> length s" if "parse_path s = Ok (x, r)" for s x r
  proof -
    from that obtain name s1 ls nm s2 segs s3 br s4 where
      "name_token s = Ok (name, s1)" "hops 8 name s1 = Ok ((ls, nm), s2)"
      "many CHR ''.'' name_token s2 = Ok (segs, s3)" "bracket_opt s3 = Ok (br, s4)"
      "close_braces (length ls) s4 = Ok r"
      by (auto simp: parse_path_def and_then_Inr_iff simp del: hops.simps)
    from shrinksD [OF shrinks_name_token this(1)] shrinksD [OF shrinks_hops this(2)]
      shrinksD [OF shrinks_many [OF shrinks_name_token] this(3)] shrinksD [OF shrinks_bracket_opt this(4)]
      shrinks_close_braces [OF this(5)]
    show ?thesis by linarith
  qed
  then show ?thesis by (simp add: shrinks_def)
qed

lemma shrinks_parse_op: "parse_op s = Some (op, r) \<Longrightarrow> length r \<le> length s"
  by (auto simp: parse_op_def cmp_toks_def strip_prefix_Some_iff split: option.splits)

lemma shrinks_leaf [consume]: "shrinks (leaf E)"
proof -
  have "length r \<le> length s" if "leaf E s = Ok (x, r)" for s x r
  proof -
    define s1 where "s1 = (case strip_char CHR ''!'' s of Some r \<Rightarrow> r | None \<Rightarrow> s)"
    have l: "length s1 \<le> length s" by (auto simp: s1_def strip_char_Some_iff split: option.splits)
    from that obtain p s2 where p: "parse_path s1 = Ok (p, s2)"
      by (auto simp: leaf_def s1_def and_then_Inr_iff split: option.splits)
    note lp = shrinksD [OF shrinks_parse_path p]
    show ?thesis
    proof (cases "parse_op s2")
      case None
      with that p have "r = s2" by (auto simp: leaf_def s1_def split: option.splits)
      with l lp show ?thesis by simp
    next
      case (Some y)
      obtain op s3 where y: "y = (op, s3)" by (cases y)
      with that p Some obtain v where "op_value E op s3 = Ok (v, r)"
        by (auto simp: leaf_def s1_def and_then_Inr_iff split: option.splits if_splits)
      from shrinksD [OF shrinks_op_value this] shrinks_parse_op Some y l lp show ?thesis
        by fastforce
    qed
  qed
  then show ?thesis by (simp add: shrinks_def)
qed

lemma shrinks_sep_expr [consume]: "shrinks p \<Longrightarrow> shrinks (sep_expr c mk p)"
  unfolding shrinks_def [of "sep_expr c mk p"]
proof (intro allI impI)
  fix s x r
  assume p: "shrinks p" and e: "sep_expr c mk p s = Ok (x, r)"
  then obtain f r0 xs where "p s = Ok (f, r0)" "many c p r0 = Ok (xs, r)"
    by (auto simp: sep_expr_def and_then_Inr_iff)
  from shrinksD [OF p this(1)] shrinksD [OF shrinks_many [OF p] this(2)]
  show "length r \<le> length s" by simp
qed

lemma shrinks_or_expr [consume]: "shrinks p \<Longrightarrow> shrinks (or_expr p)"
  unfolding or_expr_def and_expr_def by (intro shrinks_sep_expr)

lemma shrinks_qterm [consume]: "shrinks (qterm k E)"
proof (induction k)
  case 0
  show ?case using shrinks_leaf [of E] by (auto simp: shrinks_def split: option.splits)
next
  case (Suc k)
  show ?case
    unfolding shrinks_def
  proof (intro allI impI)
    fix s x r
    assume e: "qterm (Suc k) E s = Ok (x, r)"
    show "length r \<le> length s"
    proof (cases "strip_char CHR ''('' s")
      case None
      with e show ?thesis using shrinksD [OF shrinks_leaf] by auto
    next
      case (Some s1)
      with e obtain r' where "or_expr (qterm k E) s1 = Ok (x, r')" "expect CHR '')'' ''expected )'' r' = Ok r"
        by (auto simp: and_then_Inr_iff)
      from shrinksD [OF shrinks_or_expr [OF Suc] this(1)] shrinks_expect [OF this(2)] Some
      show ?thesis by (simp add: strip_char_Some_iff)
    qed
  qed
qed

lemmas shrinks_rules = shrinks_name_token shrinks_list_item shrinks_qterm shrinks_leaf

text \<open>The loops of the two expression levels, as the Rust \<open>while\<close> runs them.\<close>

lemmas many_terms = many_unfold [OF shrinks_qterm]
lemmas many_names = many_unfold [OF shrinks_name_token]
lemmas many_items = many_unfold [OF shrinks_list_item]

subsection \<open>What the parser can return\<close>

definition yields :: "'a parser \<Rightarrow> ('a \<Rightarrow> bool) \<Rightarrow> bool" where
  "yields p Q \<longleftrightarrow> (\<forall>s x r. p s = Ok (x, r) \<longrightarrow> Q x)"

lemma yieldsD: "yields p Q \<Longrightarrow> p s = Ok (x, r) \<Longrightarrow> Q x"
  by (auto simp: yields_def)

lemma yields_many_fuel: "yields p Q \<Longrightarrow> many_fuel n c p s = Ok (xs, r) \<Longrightarrow> list_all Q xs"
  by (induction n arbitrary: s xs)
     (fastforce split: option.splits simp: and_then_Inr_iff dest: yieldsD)+

lemma yields_many: "yields p Q \<Longrightarrow> yields (many c p) (list_all Q)"
  by (auto simp: yields_def [of "many c p"] many_def intro: yields_many_fuel)

lemma yields_sep_expr:
  assumes "yields p Q" "\<And>x. Q x \<Longrightarrow> R x" "\<And>xs. 2 \<le> length xs \<Longrightarrow> list_all Q xs \<Longrightarrow> R (mk xs)"
  shows "yields (sep_expr c mk p) R"
  unfolding yields_def
proof (intro allI impI)
  fix s x r
  assume "sep_expr c mk p s = Ok (x, r)"
  then obtain f r0 xs where f: "p s = Ok (f, r0)" "many c p r0 = Ok (xs, r)"
    and x: "x = (if xs = [] then f else mk (f # xs))"
    by (auto simp: sep_expr_def and_then_Inr_iff)
  have "Q f" "list_all Q xs"
    using yieldsD [OF assms(1) f(1)] yieldsD [OF yields_many [OF assms(1)] f(2)] by auto
  then show "R x" using assms(2,3) x by (cases xs) auto
qed

text \<open>The grammar of clause 4.9, as a predicate on trees: operands are at least two, paths are not empty
  and take at most eight hops, a list or range comes with \<open>==\<close> or \<open>!=\<close> only and holds scalars only, and
  no ordering operator takes a boolean.\<close>

fun is_scalar :: "qvalue \<Rightarrow> bool" where
  "is_scalar (QList _) = False" | "is_scalar (QRange _ _) = False" | "is_scalar _ = True"

fun value_shape :: "cmp_op \<Rightarrow> qvalue \<Rightarrow> bool" where
  "value_shape op (QList vs) = (is_equality op \<and> 2 \<le> length vs \<and> list_all is_scalar vs)"
| "value_shape op (QRange lo hi) =
     (is_equality op \<and> is_scalar lo \<and> is_scalar hi \<and> same_variant lo hi \<and> \<not> is_QBool lo)"
| "value_shape op (QBool b) = (\<not> is_ordering op)"
| "value_shape op v = True"

definition path_shape :: "qpath \<Rightarrow> bool" where
  "path_shape p \<longleftrightarrow> path p \<noteq> [] \<and> length (links p) \<le> 8"

fun node_shape :: "qnode \<Rightarrow> bool" where
  "node_shape (And ns) = (2 \<le> length ns \<and> list_all node_shape ns)"
| "node_shape (Or ns) = (2 \<le> length ns \<and> list_all node_shape ns)"
| "node_shape (Cmp p op v) = (path_shape p \<and> value_shape op v)"
| "node_shape (Exists p _) = path_shape p"

text \<open>Levels of the tree, which is what evaluating or dropping it recurses over.\<close>

fun height :: "qnode \<Rightarrow> nat" where
  "height (And ns) = Suc (max_or_0 (map height ns))"
| "height (Or ns) = Suc (max_or_0 (map height ns))"
| "height _ = 0"

lemma max_or_0_le: "(\<forall>x\<in>set xs. x \<le> k) \<Longrightarrow> max_or_0 xs \<le> k"
  by (induction xs) (auto simp: max_or_0_def)

lemma yields_hops: "hops k name s = Ok ((ls, nm), r) \<Longrightarrow> length ls \<le> k"
proof (induction k arbitrary: name s ls nm r)
  case (Suc k)
  show ?case
  proof (cases "strip_char CHR ''{'' s")
    case (Some s1)
    with Suc.prems obtain nm' s6 ls' where "hops k nm' s6 = Ok ((ls', nm), r)" "length ls = Suc (length ls')"
      by (auto simp: and_then_Inr_iff)
    with Suc.IH show ?thesis by fastforce
  qed (use Suc.prems in simp)
qed (auto split: option.splits)

lemma yields_path: "yields parse_path path_shape"
  unfolding yields_def
proof (intro allI impI)
  fix s x r
  assume "parse_path s = Ok (x, r)"
  then obtain name s1 ls nm s2 segs br where
    "hops 8 name s1 = Ok ((ls, nm), s2)" "x = \<lparr>links = ls, path = nm # segs, bracket = br\<rparr>"
    by (auto simp: parse_path_def and_then_Inr_iff simp del: hops.simps)
  with yields_hops show "path_shape x" by (auto simp: path_shape_def)
qed

lemma yields_scalar: "yields (scalar E b) is_scalar"
  by (auto simp: yields_def scalar_def Let_def split: if_splits option.splits)

lemma yields_list_item: "yields (list_item E) is_scalar"
  using yields_scalar by (fastforce simp: yields_def list_item_def and_then_Inr_iff)

lemma many_starts: "starts_with [c] s \<Longrightarrow> many c p s = Ok (xs, r) \<Longrightarrow> xs \<noteq> []"
  by (cases s) (auto simp: many_def starts_with_def and_then_Inr_iff split: if_splits)

lemma yields_op_value: "yields (op_value E op) (value_shape op)"
  unfolding yields_def
proof (intro allI impI)
  fix s x r
  assume "op_value E op s = Ok (x, r)"
  then obtain first r0 where f: "scalar E (is_regexp op) s = Ok (first, r0)"
    and rest: "(case strip_prefix ''..'' (trim_start r0) of
         Some r1 \<Rightarrow>
           (if \<not> is_equality op then Err (bad ''a Range is only valid with == or != (4.9 CompEqualityValue)'')
            else and_then (scalar E False (trim_start r1)) (\<lambda>(hi, r2).
              if \<not> same_variant first hi \<or> is_QBool first
              then Err (bad ''Range endpoints must be two comparable values of the same type'')
              else Ok (QRange first hi, r2)))
       | None \<Rightarrow>
           (if starts_with '','' (trim_start r0) then
              (if \<not> is_equality op then Err (bad ''a ValueList is only valid with == or != (4.9 CompEqualityValue)'')
               else and_then (many CHR '','' (list_item E) (trim_start r0)) (\<lambda>(items, r2). Ok (QList (first # items), r2)))
            else if is_ordering op \<and> is_QBool first
            then Err (bad ''true/false are only valid with == or != (4.9 OtherValue)'')
            else Ok (first, trim_start r0))) = Ok (x, r)"
    by (auto simp: op_value_def and_then_Inr_iff Let_def)
  have fs: "is_scalar first" by (rule yieldsD [OF yields_scalar f])
  show "value_shape op x"
  proof (cases "strip_prefix ''..'' (trim_start r0)")
    case (Some r1)
    with rest obtain hi r2 where hi: "scalar E False (trim_start r1) = Ok (hi, r2)"
      and x: "x = QRange first hi" "is_equality op" "same_variant first hi" "\<not> is_QBool first"
      by (auto simp: and_then_Inr_iff split: if_splits)
    with fs yieldsD [OF yields_scalar hi] show ?thesis by simp
  next
    case None
    show ?thesis
    proof (cases "starts_with '','' (trim_start r0)")
      case True
      with rest None obtain items r2 where m: "many CHR '','' (list_item E) (trim_start r0) = Ok (items, r2)"
        and x: "x = QList (first # items)" "is_equality op"
        by (auto simp: and_then_Inr_iff split: if_splits)
      have "items \<noteq> []" by (rule many_starts [OF True m])
      with x fs yieldsD [OF yields_many [OF yields_list_item] m] show ?thesis by (cases items) auto
    next
      case False
      with rest None have "x = first" "\<not> (is_ordering op \<and> is_QBool first)" by (auto split: if_splits)
      with fs show ?thesis by (cases first) auto
    qed
  qed
qed

lemma yields_leaf: "yields (leaf E) (\<lambda>n. node_shape n \<and> height n = 0)"
  unfolding yields_def
proof (intro allI impI)
  fix s x r
  assume "leaf E s = Ok (x, r)"
  then obtain s1 p s2 where p: "parse_path s1 = Ok (p, s2)"
    and x: "(\<exists>neg. x = Exists p neg) \<or> (\<exists>op s3 v r'. x = Cmp p op v \<and> op_value E op s3 = Ok (v, r'))"
    by (fastforce simp: leaf_def and_then_Inr_iff split: option.splits if_splits)
  have "path_shape p" by (rule yieldsD [OF yields_path p])
  with x yieldsD [OF yields_op_value] show "node_shape x \<and> height x = 0" by auto
qed

lemma height_list:
  assumes "list_all (\<lambda>n. node_shape n \<and> height n \<le> h) ns" "2 \<le> length ns"
  shows "node_shape (And ns) \<and> height (And ns) \<le> Suc h" "node_shape (Or ns) \<and> height (Or ns) \<le> Suc h"
  using assms by (auto simp: list_all_iff intro!: max_or_0_le)

lemma yields_or_expr:
  assumes "yields p (\<lambda>n. node_shape n \<and> height n \<le> h)"
  shows "yields (or_expr p) (\<lambda>n. node_shape n \<and> height n \<le> Suc (Suc h))"
proof -
  have a: "yields (and_expr p) (\<lambda>n. node_shape n \<and> height n \<le> Suc h)"
    unfolding and_expr_def using height_list by (intro yields_sep_expr [OF assms]) auto
  show ?thesis
    unfolding or_expr_def using height_list by (intro yields_sep_expr [OF a]) auto
qed

lemma yields_qterm: "yields (qterm k E) (\<lambda>n. node_shape n \<and> height n \<le> 2 * k)"
proof (induction k)
  case 0
  show ?case using yields_leaf [of E] by (auto simp: yields_def split: option.splits)
next
  case (Suc k)
  have "node_shape x \<and> height x \<le> 2 * Suc k" if "qterm (Suc k) E s = Ok (x, r)" for s x r
  proof (cases "strip_char CHR ''('' s")
    case None
    with that yieldsD [OF yields_leaf] show ?thesis by fastforce
  next
    case (Some s1)
    with that obtain r' where "or_expr (qterm k E) s1 = Ok (x, r')" by (auto simp: and_then_Inr_iff)
    from yieldsD [OF yields_or_expr [OF Suc] this] show ?thesis by simp
  qed
  then show ?case by (simp add: yields_def)
qed

lemma link_depth_shape: "node_shape n \<Longrightarrow> max_link_depth n \<le> 8"
  by (induction n) (auto simp: path_shape_def list_all_iff intro!: max_or_0_le)

lemma parse_q_bounds:
  assumes "parse_q E s = Ok n"
  shows "node_shape n \<and> height n \<le> 2 * MAX_Q_DEPTH + 2 \<and> q_nodes n \<le> MAX_Q_NODES \<and> max_link_depth n \<le> 8
    \<and> length s \<le> MAX_Q_BYTES"
proof -
  from assms obtain r where "or_expr (qterm MAX_Q_DEPTH E) (trim s) = Ok (n, r)"
    "q_nodes n \<le> MAX_Q_NODES" "length s \<le> MAX_Q_BYTES"
    by (auto simp: parse_q_def and_then_Inr_iff not_less split: if_splits)
  with yieldsD [OF yields_or_expr [OF yields_qterm] this(1)] link_depth_shape show ?thesis by simp
qed

end
