(* ===== verification/QRender.thy ===== *)
theory QRender
  imports QParser
begin

text \<open>
  Rendering a query back to text (\<open>antares-ql/src/render.rs\<close>) and its relation to the parser: which
  trees can be spelled (\<open>wf_node\<close>), which tree the parser reads back (\<open>canon\<close>), and the round trip.
\<close>

subsection \<open>The renderer\<close>

fun show_op :: "cmp_op \<Rightarrow> string" where
  "show_op Eq = ''==''"
| "show_op Ne = ''!=''"
| "show_op Gt = ''>''"
| "show_op Ge = ''>=''"
| "show_op Lt = ''<''"
| "show_op Le = ''<=''"
| "show_op Pattern = ''~=''"
| "show_op NotPattern = ''!~=''"

fun show_value :: "ext \<Rightarrow> qvalue \<Rightarrow> string" where
  "show_value E (QStr s) = quote E s"
| "show_value E (QNum n) = show_f64 E n"
| "show_value E (QBool b) = (if b then ''true'' else ''false'')"
| "show_value E (QList vs) = join '','' (map (show_value E) vs)"
| "show_value E (QRange lo hi) = show_value E lo @ ''..'' @ show_value E hi"

definition show_link :: "link \<Rightarrow> string" where
  "show_link l = attr l @ ''{'' @ (if types l = [] then [] else join '','' (types l) @ '':'')"

definition show_path :: "qpath \<Rightarrow> string" where
  "show_path p = concat (map show_link (links p)) @ join ''.'' (path p)
     @ (case bracket p of None \<Rightarrow> [] | Some b \<Rightarrow> ''['' @ join ''.'' b @ '']'')
     @ replicate (length (links p)) CHR ''}''"

fun is_Or :: "qnode \<Rightarrow> bool" where
  "is_Or (Or _) = True"
| "is_Or _ = False"

text \<open>The operand of a pattern operator is written verbatim between quotes.\<close>

definition show_operand :: "ext \<Rightarrow> cmp_op \<Rightarrow> qvalue \<Rightarrow> string" where
  "show_operand E op v = (case v of
      QStr s \<Rightarrow> if is_regexp op then [CHR 0x22] @ s @ [CHR 0x22] else show_value E v
    | _ \<Rightarrow> show_value E v)"

definition parens :: "bool \<Rightarrow> string \<Rightarrow> string" where
  "parens b s = (if b then ''('' @ s @ '')'' else s)"

fun render :: "ext \<Rightarrow> qnode \<Rightarrow> string" where
  "render E (And ns) = join '';'' (map (\<lambda>n. parens (is_Or n) (render E n)) ns)"
| "render E (Or ns) = join ''|'' (map (\<lambda>n. parens (is_Or n) (render E n)) ns)"
| "render E (Cmp p op v) = show_path p @ show_op op @ show_operand E op v"
| "render E (Exists p neg) = (if neg then ''!'' else []) @ show_path p"

subsection \<open>What the parser reads back\<close>

definition mk_and :: "qnode list \<Rightarrow> qnode" where
  "mk_and ns = (case ns of [n] \<Rightarrow> n | _ \<Rightarrow> And ns)"

definition mk_or :: "qnode list \<Rightarrow> qnode" where
  "mk_or ns = (case ns of [n] \<Rightarrow> n | _ \<Rightarrow> Or ns)"

text \<open>\<open>and_terms n\<close>: the terms \<open>and_expr\<close> collects from the text of \<open>n\<close> (an \<open>Or\<close> being in parentheses).\<close>

fun and_terms :: "qnode \<Rightarrow> qnode list" and canon :: "qnode \<Rightarrow> qnode" where
  "and_terms (And ns) = concat (map and_terms ns)"
| "and_terms (Or ns) = [mk_or (map canon ns)]"
| "and_terms n = [n]"
| "canon (And ns) = mk_and (concat (map and_terms ns))"
| "canon (Or ns) = mk_or (map canon ns)"
| "canon n = n"

lemma canon_and_terms: "canon n = (case n of Or _ \<Rightarrow> canon n | _ \<Rightarrow> mk_and (and_terms n))"
  by (cases n) (auto simp: mk_and_def)

subsection \<open>The trees that can be spelled\<close>

definition name_ok :: "string \<Rightarrow> bool" where
  "name_ok s \<longleftrightarrow> list_all (\<lambda>c. \<not> name_delim c) s \<and> starts_clean s \<and> ends_clean s"

lemma name_ok_ascii:
  "s \<noteq> [] \<Longrightarrow> list_all (\<lambda>c. is_ascii c \<and> \<not> ascii_ws c \<and> \<not> name_delim c) s \<Longrightarrow> name_ok s"
  using starts_clean_ascii [of "hd s" "tl s"] ends_clean_ascii [of "last s" "butlast s"]
  by (auto simp: name_ok_def list_all_iff)

definition bracket_ok :: "string list \<Rightarrow> bool" where
  "bracket_ok b \<longleftrightarrow> b = [''*''] \<or> (b \<noteq> [] \<and> list_all name_ok b \<and> hd (hd b) \<noteq> CHR ''*'')"

definition path_ok :: "qpath \<Rightarrow> bool" where
  "path_ok p \<longleftrightarrow> list_all (\<lambda>l. name_ok (attr l) \<and> list_all name_ok (types l)) (links p) \<and> length (links p) \<le> 8
     \<and> path p \<noteq> [] \<and> list_all name_ok (path p)
     \<and> (case bracket p of None \<Rightarrow> True | Some b \<Rightarrow> bracket_ok b)"

text \<open>What the two external formatters promise about one string and one number.\<close>

definition quote_ok :: "ext \<Rightarrow> string \<Rightarrow> bool" where
  "quote_ok E s \<longleftrightarrow> unquote E (quote E s) = Some s \<and> starts_with [CHR 0x22] (quote E s)
     \<and> json_string_end (quote E s) = Some (length (quote E s))"

definition num_ok :: "ext \<Rightarrow> f64 \<Rightarrow> bool" where
  "num_ok E n \<longleftrightarrow> is_json_number (show_f64 E n) \<and> parse_f64 (show_f64 E n) = n"

fun scalar_ok :: "ext \<Rightarrow> qvalue \<Rightarrow> bool" where
  "scalar_ok E (QStr s) = quote_ok E s"
| "scalar_ok E (QNum n) = num_ok E n"
| "scalar_ok E (QBool b) = True"
| "scalar_ok E _ = False"

fun value_ok :: "ext \<Rightarrow> cmp_op \<Rightarrow> qvalue \<Rightarrow> bool" where
  "value_ok E op (QStr s) = (if is_regexp op then CHR 0x22 \<notin> set s else quote_ok E s)"
| "value_ok E op (QNum n) = num_ok E n"
| "value_ok E op (QBool b) = (\<not> is_ordering op)"
| "value_ok E op (QList vs) = (is_equality op \<and> 2 \<le> length vs \<and> list_all (scalar_ok E) vs)"
| "value_ok E op (QRange lo hi) =
     (is_equality op \<and> scalar_ok E lo \<and> scalar_ok E hi \<and> same_variant lo hi \<and> \<not> is_QBool lo)"

fun wf_node :: "ext \<Rightarrow> qnode \<Rightarrow> bool" where
  "wf_node E (And ns) = (ns \<noteq> [] \<and> list_all (wf_node E) ns)"
| "wf_node E (Or ns) = (ns \<noteq> [] \<and> list_all (wf_node E) ns)"
| "wf_node E (Cmp p op v) = (path_ok p \<and> value_ok E op v)"
| "wf_node E (Exists p neg) = path_ok p"

text \<open>Parentheses the text nests.\<close>

fun nesting :: "qnode \<Rightarrow> nat" where
  "nesting (And ns) = max_or_0 (map (\<lambda>n. (if is_Or n then 1 else 0) + nesting n) ns)"
| "nesting (Or ns) = max_or_0 (map (\<lambda>n. (if is_Or n then 1 else 0) + nesting n) ns)"
| "nesting _ = 0"

lemma max_or_0_ge: "x \<in> set xs \<Longrightarrow> x \<le> max_or_0 xs"
  by (induction xs) (auto simp: max_or_0_def)

lemma max_or_0_map: "x \<in> set xs \<Longrightarrow> f x \<le> max_or_0 (map f xs)"
  by (simp add: max_or_0_ge)

lemma nesting_child:
  "n \<in> set ns \<Longrightarrow> (if is_Or n then 1 else 0) + nesting n \<le> nesting (And ns)"
  "n \<in> set ns \<Longrightarrow> (if is_Or n then 1 else 0) + nesting n \<le> nesting (Or ns)"
  using max_or_0_map [of n ns "\<lambda>n. (if is_Or n then 1 else 0) + nesting n"] by simp_all

subsection \<open>Reading names and paths back\<close>

text \<open>What may follow: the end, or a delimiter that no white space token starts with.\<close>

definition fol :: "string \<Rightarrow> string \<Rightarrow> bool" where
  "fol cs r \<longleftrightarrow> r = [] \<or> hd r \<in> set cs"

abbreviation delims :: string where "delims \<equiv> ''=!<>~;|(),.{}[]:''"

lemma fol_mono: "fol cs r \<Longrightarrow> set cs \<subseteq> set ds \<Longrightarrow> fol ds r"
  by (auto simp: fol_def)

lemma fol_Nil [simp]: "fol cs []"
  by (simp add: fol_def)

lemma fol_Cons [simp]: "fol cs (c # r) \<longleftrightarrow> c \<in> set cs"
  by (simp add: fol_def)

lemma delims_props: "c \<in> set delims \<Longrightarrow> is_ascii c \<and> \<not> ascii_ws c \<and> name_delim c"
  by (simp add: is_ascii_def ascii_ws_def name_delim_def) (elim disjE; simp)

lemma trim_start_fol: "fol delims r \<Longrightarrow> trim_start r = r"
  using delims_props by (cases r) auto

lemma name_token_name: "name_ok n \<Longrightarrow> fol delims r \<Longrightarrow> name_token (n @ r) = Ok (n, r)"
proof -
  assume n: "name_ok n" and r: "fol delims r"
  have hd: "r = [] \<or> is_ascii (hd r)" "r = [] \<or> name_delim (hd r)"
    using r delims_props by (auto simp: fol_def)
  have t: "trim_start (n @ r) = n @ r"
    using n hd by (intro trim_start_append) (auto simp: name_ok_def starts_clean_def)
  have nd: "\<forall>c\<in>set n. \<not> name_delim c" using n by (simp add: name_ok_def list_all_iff)
  have "takeWhile (\<lambda>c. \<not> name_delim c) (n @ r) = n" "dropWhile (\<lambda>c. \<not> name_delim c) (n @ r) = r"
    using nd hd(2) by (cases r; simp add: takeWhile_append2 dropWhile_append2)+
  with t n show ?thesis
    by (simp add: name_token_def Let_def name_ok_def starts_clean_def trim_start_fol [OF r])
qed

lemma name_ok_hd: "name_ok n \<Longrightarrow> \<exists>c n'. n = c # n' \<and> c \<notin> set delims"
  using delims_props by (cases n) (auto simp: name_ok_def starts_clean_def)

text \<open>A separated list is read by \<open>many\<close>, given that each item is.\<close>

lemma many_items_read:
  assumes "shrinks p" "fol fs r" "c \<notin> set fs" "c \<in> set ds" "set fs \<subseteq> set ds"
    and "\<And>x r. x \<in> set xs \<Longrightarrow> fol ds r \<Longrightarrow> p (sh x @ r) = Ok (f x, r)"
  shows "many c p (concat (map (\<lambda>x. c # sh x) xs) @ r) = Ok (map f xs, r)"
  using assms(6)
proof (induction xs)
  case Nil
  have "strip_char c r = None" using assms(2,3) by (cases r) auto
  then show ?case by (simp add: many_unfold [OF assms(1)])
next
  case (Cons x xs)
  have "fol ds (concat (map (\<lambda>x. c # sh x) xs) @ r)"
    using assms(2,4,5) by (cases xs) (auto intro: fol_mono)
  with Cons show ?case by (simp add: many_unfold [OF assms(1)])
qed

lemma join_concat: "xs \<noteq> [] \<Longrightarrow> join [c] (map f xs) = f (hd xs) @ concat (map (\<lambda>x. c # f x) (tl xs))"
proof (induction xs)
  case (Cons x xs)
  then show ?case by (cases xs) auto
qed simp

lemma join_concat_id: "xs \<noteq> [] \<Longrightarrow> join [c] xs = hd xs @ concat (map (\<lambda>x. c # x) (tl xs))"
  using join_concat [of xs c "\<lambda>x. x"] by simp

lemma many_names_read:
  assumes "list_all name_ok ns" "fol fs r" "c \<notin> set fs" "c \<in> set delims" "set fs \<subseteq> set delims"
  shows "many c name_token (concat (map (\<lambda>x. c # x) ns) @ r) = Ok (ns, r)"
  using many_items_read [OF shrinks_name_token assms(2-5), where sh = "\<lambda>x. x" and f = "\<lambda>x. x" and xs = ns]
    name_token_name assms(1) by (auto simp: list_all_iff)

fun next_name :: "link list \<Rightarrow> string \<Rightarrow> string" where
  "next_name [] p = p"
| "next_name (l # ls) p = attr l"

fun hop_text :: "link list \<Rightarrow> string \<Rightarrow> string" where
  "hop_text [] p = []"
| "hop_text (l # ls) p =
     ''{'' @ (if types l = [] then [] else join '','' (types l) @ '':'') @ next_name ls p @ hop_text ls p"

lemma show_links: "concat (map show_link ls) @ p = next_name ls p @ hop_text ls p"
proof (induction ls)
  case Nil
  then show ?case by simp
next
  case (Cons l ls)
  then show ?case by (simp add: show_link_def)
qed

definition links_ok :: "link list \<Rightarrow> bool" where
  "links_ok ls \<longleftrightarrow> list_all (\<lambda>l. name_ok (attr l) \<and> list_all name_ok (types l)) ls"

lemma expect_Cons [simp]: "expect c w (c # r) = Ok r"
  by (simp add: expect_def)

lemma starts_with_Cons: "starts_with [a] (b # s) \<longleftrightarrow> a = b"
  by (auto simp: starts_with_def)

lemma starts_with_fol: "fol cs r \<Longrightarrow> a \<notin> set cs \<Longrightarrow> \<not> starts_with [a] r"
  by (cases r) (auto simp: starts_with_def)

lemma hop_types_read:
  assumes "list_all name_ok ts" "ts \<noteq> []" "name_ok nm" "fol delims r"
  shows "\<exists>inner s2. name_token (join '','' ts @ CHR '':'' # nm @ r) = Ok (inner, s2)
     \<and> (starts_with '','' s2 \<or> starts_with '':'' s2)
     \<and> and_then (many CHR '','' name_token s2) (\<lambda>(us, s3).
        and_then (expect CHR '':'' ''expected : after EntityType hints'' s3) (\<lambda>s4.
        and_then (name_token s4) (\<lambda>(n, s5). Ok ((inner # us, n), s5)))) = Ok ((ts, nm), r)"
proof -
  obtain t us where ts: "ts = t # us" using assms(2) by (cases ts) auto
  let ?s2 = "concat (map (\<lambda>x. CHR '','' # x) us) @ CHR '':'' # nm @ r"
  have f: "fol delims ?s2" by (cases us) auto
  have "join '','' ts @ CHR '':'' # nm @ r = t @ ?s2" by (simp add: ts join_concat_id)
  then have "name_token (join '','' ts @ CHR '':'' # nm @ r) = Ok (t, ?s2)"
    using name_token_name [OF _ f, of t] assms(1) ts by simp
  moreover have "starts_with '','' ?s2 \<or> starts_with '':'' ?s2"
    by (cases us) (simp_all add: starts_with_Cons)
  moreover have "many CHR '','' name_token ?s2 = Ok (us, CHR '':'' # nm @ r)"
    using assms(1) ts by (intro many_names_read [where fs = "'':''"]) auto
  ultimately show ?thesis using name_token_name [OF assms(3,4)] by (simp add: ts)
qed

lemma hops_read:
  assumes "links_ok ls" "name_ok p" "fol ''=!<>~;|).[]}'' r" "length ls \<le> k"
  shows "hops k (next_name ls p) (hop_text ls p @ r) = Ok ((ls, p), r)"
  using assms(1,4)
proof (induction ls arbitrary: k)
  case Nil
  have "strip_char CHR ''{'' r = None" using assms(3) by (cases r) auto
  then show ?case by (cases k) auto
next
  case (Cons l ls)
  then obtain k' where k: "k = Suc k'" by (cases k) auto
  let ?r = "hop_text ls p @ r"
  have nm: "name_ok (next_name ls p)" using Cons.prems assms(2) by (cases ls) (auto simp: links_ok_def)
  have f: "fol ''=!<>~;|).[]}{'' ?r" using assms(3) by (cases ls) (auto intro: fol_mono)
  then have fd: "fol delims ?r" by (auto intro: fol_mono)
  have IH: "hops k' (next_name ls p) ?r = Ok ((ls, p), r)"
    using Cons k by (simp add: links_ok_def)
  show ?case
  proof (cases "types l = []")
    case True
    have "name_token (next_name ls p @ ?r) = Ok (next_name ls p, ?r)" by (rule name_token_name [OF nm fd])
    moreover have "\<not> starts_with '','' ?r" "\<not> starts_with '':'' ?r"
      by (rule starts_with_fol [OF f], simp)+
    ultimately show ?thesis using IH True by (simp add: k)
  next
    case False
    have "list_all name_ok (types l)" using Cons.prems by (simp add: links_ok_def)
    from hop_types_read [OF this False nm fd] obtain inner s2 where
      "name_token (join '','' (types l) @ CHR '':'' # next_name ls p @ ?r) = Ok (inner, s2)"
      "starts_with '','' s2 \<or> starts_with '':'' s2"
      "and_then (many CHR '','' name_token s2) (\<lambda>(us, s3).
        and_then (expect CHR '':'' ''expected : after EntityType hints'' s3) (\<lambda>s4.
        and_then (name_token s4) (\<lambda>(n, s5). Ok ((inner # us, n), s5)))) = Ok ((types l, next_name ls p), ?r)"
      by blast
    then show ?thesis using IH False by (simp add: k)
  qed
qed

lemma bracket_read:
  assumes "bracket_ok b" "fol ds r" "CHR ''['' \<notin> set ds"
  shows "bracket_opt (''['' @ join ''.'' b @ '']'' @ r) = Ok (Some b, r)"
proof (cases "b = [''*'']")
  case True
  then show ?thesis by (simp add: bracket_opt_def bracket_body_def)
next
  case False
  then obtain n ns where b: "b = n # ns" and n: "list_all name_ok b" "hd n \<noteq> CHR ''*''"
    using assms(1) by (cases b) (auto simp: bracket_ok_def)
  let ?r = "concat (map (\<lambda>x. CHR ''.'' # x) ns) @ CHR '']'' # r"
  have "name_ok n" using n b by simp
  then obtain c n' where "n = c # n'" by (auto simp: name_ok_def starts_clean_def neq_Nil_conv)
  with n(2) have "strip_char CHR ''*'' (n @ ?r) = None" by simp
  moreover have "name_token (n @ ?r) = Ok (n, ?r)"
    by (rule name_token_name [OF \<open>name_ok n\<close>]) (cases ns; simp)
  moreover have "many CHR ''.'' name_token ?r = Ok (ns, CHR '']'' # r)"
    using n b by (intro many_names_read [where fs = "'']''"]) auto
  ultimately show ?thesis
    by (simp add: b bracket_opt_def bracket_body_def join_concat_id)
qed

lemma close_braces_read: "close_braces n (replicate n CHR ''}'' @ r) = Ok r"
  by (induction n) auto

lemma parse_path_read:
  assumes p: "path_ok p" and r: "fol ''=!<>~;|)'' r"
  shows "parse_path (show_path p @ r) = Ok (p, r)"
proof -
  obtain nm segs where ps: "path p = nm # segs" and ok: "list_all name_ok (path p)"
    using p by (cases "path p") (auto simp: path_ok_def)
  let ?b = "case bracket p of None \<Rightarrow> [] | Some b \<Rightarrow> ''['' @ join ''.'' b @ '']''"
  let ?c = "replicate (length (links p)) CHR ''}''"
  let ?s = "concat (map (\<lambda>x. CHR ''.'' # x) segs)"
  let ?r1 = "?b @ ?c @ r"
  let ?r0 = "?s @ ?r1"
  have lok: "links_ok (links p)" "length (links p) \<le> 8" using p by (auto simp: path_ok_def links_ok_def)
  have fc: "fol ''=!<>~;|)}'' (?c @ r)"
    using r by (cases "length (links p)") (auto intro: fol_mono)
  then have f1: "fol ''=!<>~;|)[}'' ?r1"
    by (cases "bracket p") (auto intro: fol_mono)
  then have f0: "fol ''=!<>~;|).[]}'' ?r0"
    by (cases segs) (auto intro: fol_mono)
  have tx: "show_path p @ r = next_name (links p) nm @ hop_text (links p) nm @ ?r0"
    using show_links [of "links p" nm] by (simp add: show_path_def ps join_concat_id flip: append_assoc)
  have nok: "name_ok nm" "list_all name_ok segs" using ok ps by auto
  have fh: "fol delims (hop_text (links p) nm @ ?r0)"
    using f0 by (cases "links p") (auto intro: fol_mono)
  have n1: "name_ok (next_name (links p) nm)"
    using lok nok by (cases "links p") (auto simp: links_ok_def)
  have br: "bracket_opt ?r1 = Ok (bracket p, ?c @ r)"
  proof (cases "bracket p")
    case None
    have "strip_char CHR ''['' (?c @ r) = None" using fc by (cases "?c @ r") (auto simp del: append_is_Nil_conv)
    with None show ?thesis by (simp add: bracket_opt_def)
  next
    case (Some b)
    then have "bracket_ok b" using p by (simp add: path_ok_def)
    from bracket_read [OF this fc] Some show ?thesis by simp
  qed
  have sg: "many CHR ''.'' name_token ?r0 = Ok (segs, ?r1)"
    by (rule many_names_read [OF nok(2) f1]) auto
  show ?thesis
    using name_token_name [OF n1 fh] hops_read [OF lok(1) nok(1) f0 lok(2)] sg br close_braces_read
    by (simp add: parse_path_def tx ps)
qed

subsection \<open>Reading values back\<close>

lemma json_string_scan_append:
  "json_string_scan i s = Some e \<Longrightarrow> json_string_scan i (s @ t) = Some e"
proof (induction i s rule: json_string_scan.induct)
  case (2 i c s)
  show ?case
  proof (cases "c = CHR 0x5C")
    case True
    with 2 show ?thesis by (cases s) simp_all
  next
    case False
    with 2 show ?thesis by (cases "c = CHR 0x22") simp_all
  qed
qed simp

lemma starts_with_cut: "starts_with [c] s \<Longrightarrow> \<exists>s'. s = c # s'"
  by (cases s) (auto simp: starts_with_def split: if_splits)

lemma quote_ok_hd: "quote_ok E s \<Longrightarrow> \<exists>q. quote E s = CHR 0x22 # q"
  by (auto simp: quote_ok_def dest: starts_with_cut)

lemma trim_start_quote: "trim_start (CHR 0x22 # s) = CHR 0x22 # s"
  by (rule trim_start_ascii) (simp_all add: is_ascii_def ascii_ws_def)

lemma scalar_quote_read:
  assumes "quote_ok E s"
  shows "scalar E False (quote E s @ r) = Ok (QStr s, r)"
proof -
  obtain q where q: "quote E s = CHR 0x22 # q" using quote_ok_hd [OF assms] by blast
  have "json_string_scan 1 q = Some (length (quote E s))"
    using assms q by (simp add: quote_ok_def json_string_end_def)
  from json_string_scan_append [OF this]
  have "json_string_end (quote E s @ r) = Some (length (quote E s))"
    by (simp add: q json_string_end_def)
  moreover have "unquote E (take (length (quote E s)) (quote E s @ r)) = Some s"
    using assms by (simp add: quote_ok_def)
  moreover have "trim_start (quote E s @ r) = quote E s @ r" by (simp add: q trim_start_quote)
  moreover have "starts_with [CHR 0x22] (quote E s @ r)" by (simp add: q starts_with_Cons)
  ultimately show ?thesis by (simp add: scalar_def Let_def)
qed

lemma scalar_regexp_read:
  "CHR 0x22 \<notin> set s \<Longrightarrow> scalar E True (CHR 0x22 # s @ CHR 0x22 # r) = Ok (QStr s, r)"
proof -
  assume "CHR 0x22 \<notin> set s"
  then have "\<forall>x\<in>set s. x \<noteq> CHR 0x22" by auto
  then show ?thesis
    by (simp add: scalar_def Let_def trim_start_quote starts_with_Cons takeWhile_append2 dropWhile_append2)
qed

text \<open>An unquoted token: no separator inside, no \<open>..\<close> inside, and none begun at its end.\<close>

fun no_dots :: "string \<Rightarrow> bool" where
  "no_dots [] = True"
| "no_dots [c] = (c \<noteq> CHR ''.'')"
| "no_dots (c # d # s) = ((c \<noteq> CHR ''.'' \<or> d \<noteq> CHR ''.'') \<and> no_dots (d # s))"

definition token :: "string \<Rightarrow> bool" where
  "token w \<longleftrightarrow> no_dots w \<and> list_all (\<lambda>c. \<not> List.member '';|(),'' c) w"

definition val_fol :: "string \<Rightarrow> bool" where
  "val_fol r \<longleftrightarrow> fol '';|),'' r \<or> starts_with ''..'' r"

lemma find_sub_token: "no_dots w \<Longrightarrow> find_sub ''..'' (w @ r) = map_option (\<lambda>d. d + length w) (find_sub ''..'' r)"
proof (induction w rule: no_dots.induct)
  case 1
  then show ?case by (simp add: option.map_ident)
next
  case (2 c)
  then show ?case by (cases r) (auto simp: starts_with_def option.map_comp comp_def)
next
  case (3 c d s)
  then have "\<not> starts_with ''..'' (c # (d # s) @ r)" by (auto simp: starts_with_def)
  with 3 show ?case by (simp add: option.map_comp comp_def)
qed

lemma scalar_stop_token:
  assumes "token w" "val_fol r"
  shows "scalar_stop (w @ r) = length w"
proof -
  let ?P = "\<lambda>c. \<not> List.member '';|(),'' c"
  have w: "\<forall>c\<in>set w. ?P c" "no_dots w" using assms(1) by (auto simp: token_def list_all_iff)
  have tk: "length (takeWhile ?P (w @ r)) = length w + length (takeWhile ?P r)"
    using w(1) by (simp add: takeWhile_append2)
  show ?thesis
  proof (cases "starts_with ''..'' r")
    case True
    then obtain r' where r: "r = CHR ''.'' # CHR ''.'' # r'"
      by (auto simp: starts_with_def strip_prefix_Some_iff)
    then have "find_sub ''..'' r = Some 0" by (simp add: starts_with_def)
    moreover have "length (takeWhile ?P r) > 0" by (simp add: r)
    ultimately show ?thesis using tk by (simp add: scalar_stop_def find_sub_token [OF w(2)])
  next
    case False
    with assms(2) have "fol '';|),'' r" by (simp add: val_fol_def)
    then have "takeWhile ?P r = []" by (cases r) auto
    with tk have "length (takeWhile ?P (w @ r)) = length w" by simp
    then show ?thesis
      unfolding scalar_stop_def Let_def find_sub_token [OF w(2)]
      by (cases "find_sub ''..'' r") simp_all
  qed
qed

text \<open>The shape of an RFC 8259 number.\<close>

definition plain_char :: "char \<Rightarrow> bool" where
  "plain_char c \<longleftrightarrow> is_ascii c \<and> \<not> ascii_ws c \<and> c \<noteq> CHR 0x22 \<and> \<not> List.member '';|(),'' c"

lemma is_digit_plain: "is_digit c \<Longrightarrow> plain_char c \<and> c \<noteq> CHR ''.''"
  by (auto simp: plain_char_def is_digit_def is_ascii_def ascii_ws_def)

lemma no_dots_digits: "list_all is_digit w \<Longrightarrow> no_dots (w @ s) = no_dots s"
proof (induction w)
  case (Cons c w)
  then have "c \<noteq> CHR ''.''" using is_digit_plain by auto
  with Cons show ?case by (cases "w @ s") auto
qed simp

lemma digit_run_split: "list_all is_digit (take (digit_run s) s)"
  by (induction s) (auto simp: digit_run_def)

lemma json_number_shape:
  assumes "is_json_number s"
  shows "\<exists>sg i fr ex. s = sg @ i @ fr @ ex \<and> (sg = [] \<or> sg = ''-'') \<and> i \<noteq> [] \<and> list_all is_digit i
     \<and> (fr = [] \<or> (\<exists>d. fr = CHR ''.'' # d \<and> d \<noteq> [] \<and> list_all is_digit d))
     \<and> (ex = [] \<or> (\<exists>e sg' d. ex = e # sg' @ d \<and> e \<in> set ''eE'' \<and> sg' \<in> {[], ''+'', ''-''} \<and> d \<noteq> [] \<and> list_all is_digit d))"
proof -
  define t where "t = (case strip_char CHR ''-'' s of Some r \<Rightarrow> r | None \<Rightarrow> s)"
  define sg where "sg = (case strip_char CHR ''-'' s of Some r \<Rightarrow> ''-'' | None \<Rightarrow> [])"
  have s: "s = sg @ t" "sg = [] \<or> sg = ''-''"
    by (auto simp: t_def sg_def strip_char_Some_iff split: option.splits)
  define i where "i = take (digit_run t) t"
  define rest where "rest = drop (digit_run t) t"
  have i: "list_all is_digit i" "t = i @ rest" by (simp_all add: i_def rest_def digit_run_split)
  have J: "\<not> (digit_run t = 0 \<or> (1 < digit_run t \<and> starts_with ''0'' t))"
    "case (case strip_char CHR ''.'' rest of None \<Rightarrow> Some rest
        | Some fr \<Rightarrow> (if digit_run fr = 0 then None else Some (drop (digit_run fr) fr))) of
       None \<Rightarrow> False
     | Some r \<Rightarrow> (case strip_any ''eE'' r of None \<Rightarrow> r = []
         | Some ex \<Rightarrow> (let ex' = (case strip_any ''+-'' ex of Some t \<Rightarrow> t | None \<Rightarrow> ex)
             in ex' \<noteq> [] \<and> digit_run ex' = length ex'))"
    using assms unfolding is_json_number_def Let_def t_def [symmetric] rest_def
    by (simp_all only: if_bool_eq_conj) blast+
  then have dr: "digit_run t \<noteq> 0" by simp
  then have "i \<noteq> []" by (auto simp: i_def digit_run_def)
  obtain r fr where r: "rest = fr @ r"
    "fr = [] \<or> (\<exists>d. fr = CHR ''.'' # d \<and> d \<noteq> [] \<and> list_all is_digit d)"
    and e: "case strip_any ''eE'' r of None \<Rightarrow> r = []
        | Some ex \<Rightarrow> (let ex' = (case strip_any ''+-'' ex of Some t \<Rightarrow> t | None \<Rightarrow> ex)
             in ex' \<noteq> [] \<and> digit_run ex' = length ex')"
  proof (cases "strip_char CHR ''.'' rest")
    case None
    show ?thesis
      using J(2) None by (intro that [of "[]" rest]) simp_all
  next
    case (Some f)
    define d where "d = take (digit_run f) f"
    have "digit_run f \<noteq> 0" using J(2) Some by (simp split: if_splits)
    then have "d \<noteq> []" by (auto simp: d_def digit_run_def)
    moreover have "f = d @ drop (digit_run f) f" by (simp add: d_def)
    ultimately show ?thesis
      using J(2) Some \<open>digit_run f \<noteq> 0\<close>
      by (intro that [of "CHR ''.'' # d" "drop (digit_run f) f"])
         (simp_all add: d_def digit_run_split strip_char_Some_iff)
  qed
  have "r = [] \<or> (\<exists>e sg' d. r = e # sg' @ d \<and> e \<in> set ''eE'' \<and> sg' \<in> {[], ''+'', ''-''} \<and> d \<noteq> [] \<and> list_all is_digit d)"
  proof (cases "strip_any ''eE'' r")
    case None
    with e show ?thesis by simp
  next
    case (Some ex)
    then obtain ec where rc: "r = ec # ex" "ec \<in> set ''eE''" by (cases r) (auto split: if_splits)
    define d where "d = (case strip_any ''+-'' ex of Some t \<Rightarrow> t | None \<Rightarrow> ex)"
    have "d \<noteq> []" "digit_run d = length d" using e Some by (simp_all add: d_def Let_def)
    moreover from this(2) have "list_all is_digit d" using digit_run_split [of d] by simp
    moreover have "\<exists>sg'. ex = sg' @ d \<and> sg' \<in> {[], ''+'', ''-''}"
      by (cases ex) (auto simp: d_def split: if_splits)
    ultimately show ?thesis using rc by blast
  qed
  note exd = this
  have "s = sg @ i @ fr @ r" using s(1) i(2) r(1) by simp
  with s(2) i(1) \<open>i \<noteq> []\<close> r(2) exd show ?thesis
    by (intro exI [of _ sg] exI [of _ i] exI [of _ fr] exI [of _ r] conjI)
qed

lemma json_number_token:
  assumes "is_json_number s"
  shows "token s" "list_all plain_char s" "s \<noteq> []" "\<exists>s' c. s = s' @ [c] \<and> is_digit c"
    "hd s = CHR ''-'' \<or> is_digit (hd s)"
proof -
  from json_number_shape [OF assms] obtain sg i fr ex where
    s: "s = sg @ i @ fr @ ex" and sg: "sg = [] \<or> sg = ''-''" and i: "i \<noteq> []" "list_all is_digit i"
    and fr: "fr = [] \<or> (\<exists>d. fr = CHR ''.'' # d \<and> d \<noteq> [] \<and> list_all is_digit d)"
    and ex: "ex = [] \<or> (\<exists>e sg' d. ex = e # sg' @ d \<and> e \<in> set ''eE'' \<and> sg' \<in> {[], ''+'', ''-''} \<and> d \<noteq> [] \<and> list_all is_digit d)"
    by blast
  have dp: "list_all is_digit d \<Longrightarrow> list_all plain_char d" for d
    using is_digit_plain by (auto simp: list_all_iff)
  have sp: "plain_char CHR ''-''" "plain_char CHR ''+''" "plain_char CHR ''.''" "plain_char CHR ''e''" "plain_char CHR ''E''"
    by (simp_all add: plain_char_def is_ascii_def ascii_ws_def)
  show pl: "list_all plain_char s"
    using sg i(2) fr ex sp by (auto simp: s dp)
  have dotless: "d \<noteq> [] \<Longrightarrow> list_all is_digit d \<Longrightarrow> no_dots d" for d
    using no_dots_digits [of d "[]"] by simp
  have nex: "no_dots ex"
  proof (cases "ex = []")
    case False
    with ex obtain e sg' d where *: "ex = e # sg' @ d" "e \<in> set ''eE''" "sg' \<in> {[], ''+'', ''-''}"
      "d \<noteq> []" "list_all is_digit d" by blast
    from *(4,5) obtain c d' where d: "d = c # d'" by (cases d) auto
    have "no_dots d" by (rule dotless [OF *(4,5)])
    with * d show ?thesis by auto
  qed simp
  have nfe: "no_dots (fr @ ex)"
  proof (cases "fr = []")
    case False
    with fr obtain d where d: "fr = CHR ''.'' # d" "d \<noteq> []" "list_all is_digit d" by blast
    then obtain c d' where c: "d = c # d'" "c \<noteq> CHR ''.''"
      using is_digit_plain by (cases d) auto
    have "no_dots (d @ ex)" using no_dots_digits [OF d(3)] nex by simp
    with d c show ?thesis by simp
  qed (use nex in simp)
  have nd: "no_dots (i @ fr @ ex)" using no_dots_digits [OF i(2)] nfe by simp
  then have "no_dots s" using sg i by (cases i) (auto simp: s)
  with pl show "token s" by (auto simp: token_def list_all_iff plain_char_def)
  show "s \<noteq> []" using i s by auto
  show "hd s = CHR ''-'' \<or> is_digit (hd s)" using sg i by (cases i) (auto simp: s)
  have lastd: "\<exists>s' c. p @ d = s' @ [c] \<and> is_digit c" if "d \<noteq> []" "list_all is_digit d" for p d
    using that by (cases d rule: rev_cases) auto
  show "\<exists>s' c. s = s' @ [c] \<and> is_digit c"
  proof (cases "ex = []")
    case False
    with ex obtain e sg' d where *: "ex = e # sg' @ d" "d \<noteq> []" "list_all is_digit d" by blast
    then show ?thesis using lastd [OF *(2,3), of "sg @ i @ fr @ e # sg'"] s by simp
  next
    case True
    show ?thesis
    proof (cases "fr = []")
      case True
      with \<open>ex = []\<close> show ?thesis using lastd [OF i, of sg] s by simp
    next
      case False
      with fr obtain d where "fr = CHR ''.'' # d" "d \<noteq> []" "list_all is_digit d" by blast
      with \<open>ex = []\<close> show ?thesis using lastd [of d "sg @ i @ ''.''"] s by simp
    qed
  qed
qed

lemma trim_token:
  assumes "list_all plain_char w" "w \<noteq> []"
  shows "trim w = w" "trim_start (w @ r) = w @ r"
proof -
  obtain c w' where w: "w = c # w'" using assms(2) by (cases w) auto
  have c: "is_ascii c" "\<not> ascii_ws c" using assms(1) w by (auto simp: plain_char_def)
  show "trim_start (w @ r) = w @ r" using c by (simp add: w)
  obtain w2 d where w2: "w = w2 @ [d]" using assms(2) by (cases w rule: rev_cases) auto
  have d: "is_ascii d" "\<not> ascii_ws d" using assms(1) w2 by (auto simp: plain_char_def)
  have "trim_start w = w" using c by (simp add: w)
  moreover have "trim_end w = w" using trim_end_ascii [OF d, of w2] by (simp add: w2)
  ultimately show "trim w = w" by (simp add: trim_def)
qed

lemma plain_no_quote: "list_all plain_char w \<Longrightarrow> CHR 0x22 \<notin> set w"
  by (auto simp: list_all_iff plain_char_def)

lemma scalar_token:
  assumes "token w" "list_all plain_char w" "w \<noteq> []" "val_fol r"
  shows "scalar E b (w @ r) =
    (if w = ''true'' then Ok (QBool True, r) else if w = ''false'' then Ok (QBool False, r)
     else if is_json_number w then Ok (QNum (parse_f64 w), r) else Ok (QStr w, r))"
proof -
  have "\<not> starts_with [CHR 0x22] (w @ r)"
    using plain_no_quote [OF assms(2)] assms(3) by (cases w) (auto simp: starts_with_Cons)
  then show ?thesis
    using assms(3) plain_no_quote [OF assms(2)]
    by (simp add: scalar_def Let_def trim_token [OF assms(2,3)] scalar_stop_token [OF assms(1,4)])
qed

lemma scalar_num_read:
  assumes "num_ok E n" "val_fol r"
  shows "scalar E b (show_f64 E n @ r) = Ok (QNum n, r)"
proof -
  let ?w = "show_f64 E n"
  have j: "is_json_number ?w" "parse_f64 ?w = n" using assms(1) by (auto simp: num_ok_def)
  note tk = json_number_token [OF j(1)]
  have "hd ?w \<noteq> CHR ''t''" "hd ?w \<noteq> CHR ''f''" using tk(5) by (auto simp: is_digit_def)
  then have "?w \<noteq> ''true''" "?w \<noteq> ''false''" by auto
  then show ?thesis by (simp add: scalar_token [OF tk(1-3) assms(2)] j)
qed

lemma scalar_bool_read: "val_fol r \<Longrightarrow> scalar E x (show_value E (QBool b) @ r) = Ok (QBool b, r)"
proof -
  assume r: "val_fol r"
  have "token ''true''" "token ''false''" "list_all plain_char ''true''" "list_all plain_char ''false''"
    by (simp_all add: token_def plain_char_def is_ascii_def ascii_ws_def)
  then show ?thesis using scalar_token [OF _ _ _ r, of "''true''"] scalar_token [OF _ _ _ r, of "''false''"]
    by simp
qed

lemma scalar_read:
  assumes "scalar_ok E v" "val_fol r"
  shows "scalar E False (show_value E v @ r) = Ok (v, r)"
  using assms scalar_quote_read scalar_num_read scalar_bool_read [of r E False] by (cases v) auto

lemma scalar_trim [simp]: "scalar E b (trim_start s) = scalar E b s"
  by (simp add: scalar_def)

lemma fol_val_fol: "fol '';|),'' r \<Longrightarrow> val_fol r"
  by (simp add: val_fol_def)

lemma trim_start_fol_val: "fol '';|),'' r \<Longrightarrow> trim_start r = r"
  by (rule trim_start_fol) (auto intro: fol_mono)

lemma list_item_read:
  assumes "scalar_ok E v" "fol '';|),'' r"
  shows "list_item E (show_value E v @ r) = Ok (v, r)"
  using scalar_read [OF assms(1) fol_val_fol [OF assms(2)]] trim_start_fol_val [OF assms(2)]
  by (simp add: list_item_def)

lemma op_value_scalar:
  assumes "scalar E (is_regexp op) (w @ r) = Ok (v, r)" "fol '';|)'' r" "\<not> (is_ordering op \<and> is_QBool v)"
  shows "op_value E op (w @ r) = Ok (v, r)"
proof -
  have t: "trim_start r = r" by (rule trim_start_fol_val) (use assms(2) in \<open>auto intro: fol_mono\<close>)
  have n1: "strip_prefix ''..'' r = None" using assms(2) by (cases r) auto
  have n2: "\<not> starts_with '','' r" by (rule starts_with_fol [OF assms(2)]) simp
  show ?thesis using assms(1,3) by (auto simp: op_value_def t n1 n2)
qed

lemma op_value_list:
  assumes "is_equality op" "2 \<le> length vs" "list_all (scalar_ok E) vs" "fol '';|)'' r"
  shows "op_value E op (join '','' (map (show_value E) vs) @ r) = Ok (QList vs, r)"
proof -
  obtain v ws where vs: "vs = v # ws" and ws: "ws \<noteq> []" using assms(2) by (cases vs; cases "tl vs") auto
  let ?t = "concat (map (\<lambda>x. CHR '','' # show_value E x) ws) @ r"
  have f: "fol '','' ?t" "starts_with '','' ?t" using ws by (cases ws; simp add: starts_with_Cons)+
  then have f': "fol '';|),'' ?t" by (auto intro: fol_mono)
  have nr: "\<not> is_regexp op" using assms(1) by (cases op) auto
  have "join '','' (map (show_value E) vs) @ r = show_value E v @ ?t"
    using join_concat [of vs "CHR '',''" "show_value E"] by (simp add: vs)
  moreover have "scalar E False (show_value E v @ ?t) = Ok (v, ?t)"
    using assms(3) vs by (intro scalar_read fol_val_fol [OF f']) simp
  moreover have "many CHR '','' (list_item E) ?t = Ok (map (\<lambda>x. x) ws, r)"
    using assms(3) vs list_item_read
    by (intro many_items_read [OF shrinks_list_item assms(4), where ds = "'';|),''"]) (auto simp: list_all_iff)
  moreover have "strip_prefix ''..'' ?t = None" using f(1) by (cases ?t) auto
  ultimately show ?thesis
    using assms(1) nr f(2) by (simp add: op_value_def trim_start_fol_val [OF f'] vs)
qed

lemma op_value_range:
  assumes "is_equality op" "scalar_ok E lo" "scalar_ok E hi" "same_variant lo hi" "\<not> is_QBool lo" "fol '';|)'' r"
  shows "op_value E op (show_value E lo @ ''..'' @ show_value E hi @ r) = Ok (QRange lo hi, r)"
proof -
  let ?t = "''..'' @ show_value E hi @ r"
  have nr: "\<not> is_regexp op" using assms(1) by (cases op) auto
  have "val_fol ?t" unfolding val_fol_def by (intro disjI2 starts_with_append)
  then have "scalar E False (show_value E lo @ ?t) = Ok (lo, ?t)" by (rule scalar_read [OF assms(2)])
  moreover have "scalar E False (show_value E hi @ r) = Ok (hi, r)"
    using assms(6) by (intro scalar_read [OF assms(3)] fol_val_fol) (auto intro: fol_mono)
  moreover have "trim_start ?t = ?t"
    using trim_start_ascii [of "CHR ''.''" "''.'' @ show_value E hi @ r"]
    by (simp add: is_ascii_def ascii_ws_def)
  moreover have "strip_prefix ''..'' ?t = Some (show_value E hi @ r)" by (rule strip_prefix_append)
  ultimately show ?thesis using assms(1,4,5) nr by (simp add: op_value_def Let_def)
qed

lemma op_value_read:
  assumes "value_ok E op v" "fol '';|)'' r"
  shows "op_value E op (show_operand E op v @ r) = Ok (v, r)"
proof -
  have vf: "val_fol r" using assms(2) by (intro fol_val_fol) (auto intro: fol_mono)
  show ?thesis
  proof (cases v)
    case (QStr s)
    show ?thesis
    proof (cases "is_regexp op")
      case True
      with assms QStr have "scalar E (is_regexp op) ((CHR 0x22 # s @ [CHR 0x22]) @ r) = Ok (v, r)"
        using scalar_regexp_read [of s E r] by simp
      from op_value_scalar [OF this assms(2)] QStr True show ?thesis by (simp add: show_operand_def)
    next
      case False
      with assms QStr have "scalar E (is_regexp op) (quote E s @ r) = Ok (v, r)"
        using scalar_quote_read by simp
      from op_value_scalar [OF this assms(2)] QStr False show ?thesis by (simp add: show_operand_def)
    qed
  next
    case (QNum n)
    with assms have "scalar E (is_regexp op) (show_f64 E n @ r) = Ok (v, r)"
      using scalar_num_read [OF _ vf] by simp
    from op_value_scalar [OF this assms(2)] QNum show ?thesis by (simp add: show_operand_def)
  next
    case (QBool b)
    from op_value_scalar [OF scalar_bool_read [OF vf] assms(2)] assms QBool
    show ?thesis by (simp add: show_operand_def)
  next
    case (QList vs)
    with assms op_value_list show ?thesis by (simp add: show_operand_def)
  next
    case (QRange lo hi)
    with assms op_value_range show ?thesis by (simp add: show_operand_def)
  qed
qed

subsection \<open>Reading terms and expressions back\<close>

lemma show_operand_hd:
  assumes "value_ok E op v"
  shows "\<exists>c s. show_operand E op v = c # s \<and> c \<noteq> CHR ''=''"
proof -
  have q: "quote_ok E s \<Longrightarrow> \<exists>c t. quote E s = c # t \<and> c \<noteq> CHR ''=''" for s using quote_ok_hd by fastforce
  have n: "num_ok E n \<Longrightarrow> \<exists>c t. show_f64 E n = c # t \<and> c \<noteq> CHR ''=''" for n
  proof -
    assume "num_ok E n"
    then have "is_json_number (show_f64 E n)" by (simp add: num_ok_def)
    note k = json_number_token(3,5) [OF this]
    then show ?thesis by (cases "show_f64 E n") (auto simp: is_digit_def)
  qed
  have s: "scalar_ok E w \<Longrightarrow> \<exists>c t. show_value E w = c # t \<and> c \<noteq> CHR ''=''" for w
    using q n by (cases w) auto
  show ?thesis
  proof (cases v)
    case (QList vs)
    with assms obtain w ws where vs: "vs = w # ws" by (cases vs) auto
    with QList assms s [of w] obtain c t where "show_value E w = c # t" "c \<noteq> CHR ''=''" by auto
    then show ?thesis by (auto simp: QList vs show_operand_def join_Cons)
  next
    case (QRange lo hi)
    with assms s [of lo] obtain c t where "show_value E lo = c # t" "c \<noteq> CHR ''=''" by auto
    then show ?thesis by (simp add: QRange show_operand_def)
  qed (use assms q n in \<open>auto simp: show_operand_def\<close>)
qed

lemma parse_op_read: "c \<noteq> CHR ''='' \<Longrightarrow> parse_op (show_op op @ c # s) = Some (op, c # s)"
  by (cases op) (simp_all add: parse_op_def cmp_toks_def)

lemma parse_op_fol: "fol '';|)'' r \<Longrightarrow> parse_op r = None"
  by (cases r) (auto simp: parse_op_def cmp_toks_def)

lemma show_op_fol: "fol ''=!<>~;|)'' (show_op op @ s)"
  by (cases op) simp_all

lemma show_path_hd:
  assumes "path_ok p"
  shows "\<exists>c s. show_path p = c # s \<and> c \<notin> set delims"
proof -
  obtain nm segs where ps: "path p = nm # segs" using assms by (cases "path p") (auto simp: path_ok_def)
  have "name_ok (next_name (links p) nm)"
    using assms ps by (cases "links p") (auto simp: path_ok_def)
  from name_ok_hd [OF this] obtain c n' where "next_name (links p) nm = c # n'" "c \<notin> set delims" by blast
  then show ?thesis using show_links [of "links p" nm]
    by (simp add: show_path_def ps join_concat_id flip: append_assoc)
qed

fun is_leaf :: "qnode \<Rightarrow> bool" where
  "is_leaf (Cmp _ _ _) = True" | "is_leaf (Exists _ _) = True" | "is_leaf _ = False"

lemma leaf_read:
  assumes "is_leaf n" "wf_node E n" "fol '';|)'' r"
  shows "leaf E (render E n @ r) = Ok (n, r)" "strip_char CHR ''('' (render E n @ r) = None"
proof -
  have "leaf E (render E n @ r) = Ok (n, r) \<and> strip_char CHR ''('' (render E n @ r) = None"
  proof (cases n)
    case (Cmp p op v)
    then have p: "path_ok p" and v: "value_ok E op v" using assms(2) by auto
    obtain c s where cs: "show_path p = c # s" "c \<notin> set delims" using show_path_hd [OF p] by blast
    obtain d t where dt: "show_operand E op v = d # t" "d \<noteq> CHR ''=''" using show_operand_hd [OF v] by blast
    have "parse_path (show_path p @ show_op op @ show_operand E op v @ r) = Ok (p, show_op op @ show_operand E op v @ r)"
      by (rule parse_path_read [OF p show_op_fol])
    then show ?thesis
      using cs op_value_read [OF v assms(3)] parse_op_read [OF dt(2), of op "t @ r"]
      by (simp add: Cmp leaf_def dt)
  next
    case (Exists p neg)
    then have p: "path_ok p" using assms(2) by auto
    obtain c s where cs: "show_path p = c # s" "c \<notin> set delims" using show_path_hd [OF p] by blast
    have "parse_path (show_path p @ r) = Ok (p, r)"
      using assms(3) by (intro parse_path_read [OF p]) (auto intro: fol_mono)
    then show ?thesis using cs by (auto simp: Exists leaf_def parse_op_fol [OF assms(3)])
  qed (use assms(1) in auto)
  then show "leaf E (render E n @ r) = Ok (n, r)" "strip_char CHR ''('' (render E n @ r) = None" by auto
qed

text \<open>\<open>reads p fs t x\<close>: the parser takes the text \<open>t\<close> to \<open>x\<close> whatever follows in \<open>fs\<close>.\<close>

definition reads :: "'a parser \<Rightarrow> string \<Rightarrow> string \<Rightarrow> 'a \<Rightarrow> bool" where
  "reads p fs t x \<longleftrightarrow> (\<forall>r. fol fs r \<longrightarrow> p (t @ r) = Ok (x, r))"

lemma sep_expr_reads:
  assumes "shrinks p" "c \<in> set ds" "set fs \<subseteq> set ds" "c \<notin> set fs" "ts \<noteq> []" "list_all2 (reads p ds) ts xs"
  shows "reads (sep_expr c mk p) fs (join [c] ts) (case xs of [x] \<Rightarrow> x | _ \<Rightarrow> mk xs)"
  unfolding reads_def
proof (intro allI impI)
  fix r
  assume r: "fol fs r"
  obtain t ts' x xs' where l: "ts = t # ts'" "xs = x # xs'" "reads p ds t x" "list_all2 (reads p ds) ts' xs'"
    using assms(5,6) by (cases ts; cases xs) auto
  let ?z = "zip ts' xs'"
  have len: "length ts' = length xs'" using l(4) by (rule list_all2_lengthD)
  have z: "map fst ?z = ts'" "map snd ?z = xs'" using len by simp_all
  have rd: "p (fst e @ r') = Ok (snd e, r')" if "e \<in> set ?z" "fol ds r'" for e r'
    using l(4) that by (auto simp: list_all2_iff reads_def)
  have m: "many c p (concat (map (\<lambda>e. c # fst e) ?z) @ r) = Ok (map snd ?z, r)"
    by (rule many_items_read [OF assms(1) r assms(4,2,3)]) (use rd in auto)
  have cat: "concat (map (\<lambda>e. c # fst e) ?z) = concat (map (\<lambda>t. c # t) ts')"
    using arg_cong [OF z(1), of "\<lambda>l. concat (map (\<lambda>t. c # t) l)"] by (simp add: comp_def)
  have "fol ds (concat (map (\<lambda>t. c # t) ts') @ r)"
    using r assms(2,3) by (cases ts') (auto intro: fol_mono)
  with l(3) have "p (t @ concat (map (\<lambda>t. c # t) ts') @ r) = Ok (x, concat (map (\<lambda>t. c # t) ts') @ r)"
    by (simp add: reads_def)
  moreover have "many c p (concat (map (\<lambda>t. c # t) ts') @ r) = Ok (xs', r)"
    using m by (simp only: cat z)
  ultimately show "sep_expr c mk p (join [c] ts @ r) = Ok (case xs of [x] \<Rightarrow> x | _ \<Rightarrow> mk xs, r)"
    by (cases xs') (auto simp: sep_expr_def l(1,2) join_concat_id)
qed

text \<open>The \<open>;\<close>-separated pieces of the text of a node, each one term.\<close>

fun texts :: "ext \<Rightarrow> qnode \<Rightarrow> string list" where
  "texts E (And ns) = concat (map (texts E) ns)"
| "texts E (Or ns) = [parens True (render E (Or ns))]"
| "texts E n = [render E n]"

lemma texts_neq_Nil: "wf_node E n \<Longrightarrow> texts E n \<noteq> []"
proof (induction n)
  case (And ns)
  then show ?case by (cases ns) auto
qed auto

lemma join_append: "xs \<noteq> [] \<Longrightarrow> ys \<noteq> [] \<Longrightarrow> join s (xs @ ys) = join s xs @ s @ join s ys"
  by (induction xs) (auto simp: join_Cons)

lemma join_concat_pieces: "\<forall>p\<in>set pss. p \<noteq> [] \<Longrightarrow> join s (map (join s) pss) = join s (concat pss)"
proof (induction pss)
  case (Cons p pss)
  show ?case
  proof (cases "concat pss = []")
    case True
    with Cons.prems have "pss = []" by (cases pss) auto
    then show ?thesis by simp
  next
    case False
    then have "pss \<noteq> []" by auto
    with Cons False show ?thesis by (simp add: join_append join_Cons)
  qed
qed simp

lemma parens_texts: "wf_node E n \<Longrightarrow> parens (is_Or n) (render E n) = join '';'' (texts E n)"
proof (induction n)
  case (And ns)
  have "map (\<lambda>n. parens (is_Or n) (render E n)) ns = map (\<lambda>n. join '';'' (texts E n)) ns"
    using And by (auto simp: list_all_iff)
  also have "\<dots> = map (join '';'') (map (texts E) ns)" by simp
  finally have eq: "map (\<lambda>n. parens (is_Or n) (render E n)) ns = map (join '';'') (map (texts E) ns)" .
  have "render E (And ns) = join '';'' (map (join '';'') (map (texts E) ns))"
    by (simp only: render.simps eq)
  also have "\<dots> = join '';'' (concat (map (texts E) ns))"
    using And.prems texts_neq_Nil by (intro join_concat_pieces) (auto simp: list_all_iff)
  finally show ?case by (simp add: parens_def)
qed (auto simp: parens_def)

lemma list_all2_concat:
  "(\<And>x. x \<in> set xs \<Longrightarrow> list_all2 P (f x) (g x)) \<Longrightarrow> list_all2 P (concat (map f xs)) (concat (map g xs))"
  by (induction xs) (auto intro: list_all2_appendI)

lemma canon_mk_and: "canon n = mk_and (and_terms n)"
  by (cases n) (auto simp: mk_and_def)

lemma and_expr_reads:
  assumes "wf_node E n" "list_all2 (reads (qterm k E) '';|)'') (texts E n) (and_terms n)"
  shows "reads (and_expr (qterm k E)) ''|)'' (parens (is_Or n) (render E n)) (canon n)"
  using sep_expr_reads [OF shrinks_qterm _ _ _ texts_neq_Nil [OF assms(1)] assms(2),
      where c = "CHR '';''" and mk = And and fs = "''|)''"]
  by (simp add: and_expr_def canon_mk_and mk_and_def parens_texts [OF assms(1)])

lemma or_expr_reads:
  assumes "\<forall>n\<in>set ns. reads (and_expr (qterm k E)) ''|)'' (parens (is_Or n) (render E n)) (canon n)" "ns \<noteq> []"
  shows "reads (or_expr (qterm k E)) '')'' (render E (Or ns)) (canon (Or ns))"
proof -
  have "list_all2 (reads (and_expr (qterm k E)) ''|)'') (map (\<lambda>n. parens (is_Or n) (render E n)) ns) (map canon ns)"
    using assms(1) by (auto simp: list_all2_conv_all_nth)
  from sep_expr_reads [OF _ _ _ _ _ this, where c = "CHR ''|''" and mk = Or and fs = "'')''"] assms(2)
  show ?thesis
    by (simp add: or_expr_def mk_or_def shrinks_sep_expr shrinks_qterm and_expr_def)
qed

lemma terms_read:
  "wf_node E n \<Longrightarrow> (if is_Or n then 1 else 0) + nesting n \<le> k \<Longrightarrow>
     list_all2 (reads (qterm k E) '';|)'') (texts E n) (and_terms n)"
proof (induction n arbitrary: k)
  case (And ns)
  have "list_all2 (reads (qterm k E) '';|)'') (texts E n) (and_terms n)" if "n \<in> set ns" for n
  proof (rule And.IH [OF that])
    show "wf_node E n" using And.prems that by (simp add: list_all_iff)
    have "(if is_Or n then 1 else 0) + nesting n \<le> nesting (And ns)"
      by (rule nesting_child [OF that])
    with And.prems show "(if is_Or n then 1 else 0) + nesting n \<le> k" by simp
  qed
  then show ?case by (simp add: list_all2_concat)
next
  case (Or ns)
  then obtain k' where k: "k = Suc k'" by (cases k) auto
  have "reads (and_expr (qterm k' E)) ''|)'' (parens (is_Or n) (render E n)) (canon n)" if "n \<in> set ns" for n
  proof (rule and_expr_reads)
    show wf: "wf_node E n" using Or.prems that by (simp add: list_all_iff)
    have "(if is_Or n then 1 else 0) + nesting n \<le> nesting (Or ns)"
      by (rule nesting_child [OF that])
    with Or.prems k show "list_all2 (reads (qterm k' E) '';|)'') (texts E n) (and_terms n)"
      by (intro Or.IH [OF that wf]) simp
  qed
  then have rd: "reads (or_expr (qterm k' E)) '')'' (render E (Or ns)) (canon (Or ns))"
    using Or.prems by (intro or_expr_reads) auto
  have "or_expr (qterm k' E) (render E (Or ns) @ CHR '')'' # r) = Ok (canon (Or ns), CHR '')'' # r)" for r
    using rd unfolding reads_def by (metis fol_Cons list.set_intros(1))
  then show ?case by (simp add: reads_def k parens_def del: render.simps canon.simps) simp
next
  case (Cmp p op v)
  with leaf_read [of "Cmp p op v" E] show ?case by (cases k) (auto simp: reads_def)
next
  case (Exists p neg)
  with leaf_read [of "Exists p neg" E] show ?case by (cases k) (auto simp: reads_def)
qed

lemma or_expr_render:
  assumes "wf_node E n" "nesting n \<le> k"
  shows "reads (or_expr (qterm k E)) '')'' (render E n) (canon n)"
proof (cases n)
  case (Or ns)
  have "reads (and_expr (qterm k E)) ''|)'' (parens (is_Or m) (render E m)) (canon m)" if "m \<in> set ns" for m
  proof (rule and_expr_reads)
    show wf: "wf_node E m" using assms(1) Or that by (simp add: list_all_iff)
    have "(if is_Or m then 1 else 0) + nesting m \<le> nesting (Or ns)"
      by (rule nesting_child [OF that])
    with assms(2) Or show "list_all2 (reads (qterm k E) '';|)'') (texts E m) (and_terms m)"
      by (intro terms_read [OF wf]) simp
  qed
  then show ?thesis using assms(1) unfolding Or by (intro or_expr_reads) auto
next
  case (And ns)
  have "list_all2 (reads (qterm k E) '';|)'') (texts E n) (and_terms n)"
    using assms(2) And by (intro terms_read [OF assms(1)]) simp
  from or_expr_reads [of "[n]" k E] and_expr_reads [OF assms(1) this]
  show ?thesis by (simp add: And parens_def mk_or_def)
next
  case (Cmp p op v)
  have "list_all2 (reads (qterm k E) '';|)'') (texts E n) (and_terms n)"
    using assms Cmp by (intro terms_read) auto
  from or_expr_reads [of "[n]" k E] and_expr_reads [OF assms(1) this]
  show ?thesis by (simp add: Cmp parens_def mk_or_def)
next
  case (Exists p neg)
  have "list_all2 (reads (qterm k E) '';|)'') (texts E n) (and_terms n)"
    using assms Exists by (intro terms_read) auto
  from or_expr_reads [of "[n]" k E] and_expr_reads [OF assms(1) this]
  show ?thesis by (simp add: Exists parens_def mk_or_def)
qed

subsection \<open>The round trip\<close>

definition clean :: "string \<Rightarrow> bool" where
  "clean s \<longleftrightarrow> starts_clean s \<and> ends_clean s"

lemma ascii_delims: "c \<in> set delims \<Longrightarrow> is_ascii c \<and> \<not> ascii_ws c"
  using delims_props by blast

lemma clean_join:
  assumes "xs \<noteq> []" "\<forall>x\<in>set xs. clean x" "is_ascii c"
  shows "clean (join [c] xs)"
  using assms(1,2)
proof (induction xs)
  case (Cons x xs)
  show ?case
  proof (cases "xs = []")
    case True
    with Cons show ?thesis by simp
  next
    case False
    with Cons have IH: "clean (join [c] xs)" "clean x" by auto
    have "ends_clean ((x @ [c]) @ join [c] xs)"
      using IH assms(3) by (intro ends_clean_append) (auto simp: clean_def)
    moreover have "starts_clean (x @ c # join [c] xs)"
      using IH assms(3) by (intro starts_clean_append) (auto simp: clean_def)
    ultimately show ?thesis using False by (simp add: clean_def join_Cons)
  qed
qed simp

lemma clean_wrap:
  "is_ascii c \<Longrightarrow> \<not> ascii_ws c \<Longrightarrow> is_ascii d \<Longrightarrow> \<not> ascii_ws d \<Longrightarrow> clean (c # s @ [d])"
  using ends_clean_ascii [of d "c # s"] by (simp add: clean_def starts_clean_ascii)

lemma starts_show_path: "path_ok p \<Longrightarrow> starts_clean (show_path p)"
proof -
  assume p: "path_ok p"
  obtain nm segs where ps: "path p = nm # segs" and ok: "list_all name_ok (path p)"
    using p by (cases "path p") (auto simp: path_ok_def)
  let ?r = "concat (map (\<lambda>x. CHR ''.'' # x) segs)
    @ (case bracket p of None \<Rightarrow> [] | Some b \<Rightarrow> ''['' @ join ''.'' b @ '']'') @ replicate (length (links p)) CHR ''}''"
  have eq: "show_path p = next_name (links p) nm @ hop_text (links p) nm @ ?r"
    using show_links [of "links p" nm] by (simp add: show_path_def ps join_concat_id flip: append_assoc)
  have "name_ok (next_name (links p) nm)" using p ps ok by (cases "links p") (auto simp: path_ok_def)
  moreover have "hop_text (links p) nm @ ?r = [] \<or> is_ascii (hd (hop_text (links p) nm @ ?r))"
    by (cases "links p"; cases segs; cases "bracket p") (auto simp: is_ascii_def)
  ultimately show ?thesis unfolding eq by (intro starts_clean_append) (auto simp: name_ok_def)
qed

lemma ends_show_path: "path_ok p \<Longrightarrow> ends_clean (show_path p)"
proof -
  assume p: "path_ok p"
  have brace: "is_ascii CHR ''}'' \<and> \<not> ascii_ws CHR ''}''" "is_ascii CHR '']'' \<and> \<not> ascii_ws CHR '']''"
    by (simp_all add: ascii_delims)
  show ?thesis
  proof (cases "links p")
    case (Cons l ls)
    then have "replicate (length (links p)) CHR ''}'' = replicate (length ls) CHR ''}'' @ ''}''"
      by (simp add: replicate_append_same)
    then obtain w where "show_path p = w @ ''}''" by (auto simp: show_path_def)
    then show ?thesis using ends_clean_ascii brace(1) by simp
  next
    case Nil
    show ?thesis
    proof (cases "bracket p")
      case (Some b)
      then show ?thesis using ends_clean_ascii [of "CHR '']''" "join ''.'' (path p) @ ''['' @ join ''.'' b"] brace(2)
        by (simp add: show_path_def Nil)
    next
      case None
      have "clean (join ''.'' (path p))"
        using p by (intro clean_join) (auto simp: path_ok_def list_all_iff name_ok_def clean_def is_ascii_def)
      with None Nil show ?thesis by (simp add: show_path_def clean_def)
    qed
  qed
qed

lemma quote_ends:
  assumes "json_string_scan i s = Some e"
  shows "i < e \<and> e \<le> i + length s \<and> s ! (e - i - 1) = CHR 0x22"
  using assms
proof (induction i s rule: json_string_scan.induct)
  case (2 i c s)
  show ?case
  proof (cases "c = CHR 0x5C")
    case True
    with 2(3) obtain d s' where s: "s = d # s'" by (cases s) auto
    with True 2 have IH: "i + 2 < e \<and> e \<le> i + 2 + length s' \<and> s' ! (e - (i + 2) - 1) = CHR 0x22" by simp
    then have "e - i - 1 = Suc (Suc (e - (i + 2) - 1))" by arith
    with IH s show ?thesis by simp
  next
    case False
    show ?thesis
    proof (cases "c = CHR 0x22")
      case True
      with 2 show ?thesis by simp
    next
      case f: False
      with False 2 have IH: "i + 1 < e \<and> e \<le> i + 1 + length s \<and> s ! (e - (i + 1) - 1) = CHR 0x22" by simp
      then have "e - i - 1 = Suc (e - (i + 1) - 1)" by arith
      with IH show ?thesis by simp
    qed
  qed
qed simp

lemma ascii_quote: "is_ascii CHR 0x22 \<and> \<not> ascii_ws CHR 0x22"
  by (simp add: is_ascii_def ascii_ws_def)

lemma ends_quote: "quote_ok E s \<Longrightarrow> ends_clean (quote E s)"
proof -
  assume q: "quote_ok E s"
  then obtain t where t: "quote E s = CHR 0x22 # t" using quote_ok_hd by blast
  with q have "json_string_scan 1 t = Some (Suc (length t))"
    by (simp add: quote_ok_def json_string_end_def)
  from quote_ends [OF this] have "t \<noteq> []" "t ! (length t - 1) = CHR 0x22" by auto
  then have "last t = CHR 0x22" by (simp add: last_conv_nth)
  then have "quote E s = (CHR 0x22 # butlast t) @ [CHR 0x22]" using \<open>t \<noteq> []\<close> t by (metis append_Cons append_butlast_last_id)
  then show ?thesis using ends_clean_ascii ascii_quote by metis
qed

lemma ends_scalar: "scalar_ok E v \<Longrightarrow> ends_clean (show_value E v)"
proof (cases v)
  case (QNum n)
  assume "scalar_ok E v"
  with QNum have "is_json_number (show_f64 E n)" by (simp add: num_ok_def)
  from json_number_token(2) [OF this] json_number_token(4) [OF this] show ?thesis
    using ends_clean_ascii by (auto simp: QNum plain_char_def)
next
  case (QBool b)
  then show ?thesis using ends_clean_ascii [of "CHR ''e''" "''tru''"] ends_clean_ascii [of "CHR ''e''" "''fals''"]
    by (simp add: is_ascii_def ascii_ws_def)
qed (auto simp: ends_quote)

lemma ends_join_last:
  "xs \<noteq> [] \<Longrightarrow> ends_clean (last xs) \<Longrightarrow> is_ascii c \<Longrightarrow> ends_clean (join [c] xs)"
proof (induction xs)
  case (Cons x xs)
  show ?case
  proof (cases "xs = []")
    case False
    with Cons have "ends_clean (join [c] xs)" by simp
    from ends_clean_append [OF this, of "x @ [c]"] Cons.prems(3) False show ?thesis by (simp add: join_Cons)
  qed (use Cons in simp)
qed simp

lemma ends_value:
  assumes "value_ok E op v"
  shows "ends_clean (show_operand E op v)"
proof (cases v)
  case (QStr s)
  with assms show ?thesis
    using ends_quote ends_clean_ascii [of "CHR 0x22" "CHR 0x22 # s"] ascii_quote by (auto simp: show_operand_def)
next
  case (QNum n)
  with assms ends_scalar [of E v] show ?thesis by (simp add: show_operand_def)
next
  case (QBool b)
  with assms ends_scalar [of E v] show ?thesis by (simp add: show_operand_def)
next
  case (QList vs)
  with assms have "vs \<noteq> []" "\<forall>v\<in>set vs. scalar_ok E v" by (auto simp: list_all_iff)
  then have "vs \<noteq> []" "scalar_ok E (last vs)" by auto
  then have "ends_clean (join '','' (map (show_value E) vs))"
    by (intro ends_join_last) (simp_all add: last_map ends_scalar is_ascii_def)
  with QList show ?thesis by (simp add: show_operand_def)
next
  case (QRange lo hi)
  with assms have "ends_clean (show_value E hi)" by (simp add: ends_scalar)
  from ends_clean_append [OF this, of "show_value E lo @ ''..''"] QRange show ?thesis
    by (simp add: show_operand_def is_ascii_def)
qed

lemma render_clean: "wf_node E n \<Longrightarrow> clean (render E n)"
proof (induction n)
  case (And ns)
  have "clean (parens (is_Or n) (render E n))" if "n \<in> set ns" for n
    using And that by (auto simp: list_all_iff parens_def intro!: clean_wrap simp: is_ascii_def ascii_ws_def)
  with And.prems show ?case by (auto intro!: clean_join simp: is_ascii_def)
next
  case (Or ns)
  have "clean (parens (is_Or n) (render E n))" if "n \<in> set ns" for n
    using Or that by (auto simp: list_all_iff parens_def intro!: clean_wrap simp: is_ascii_def ascii_ws_def)
  with Or.prems show ?case by (auto intro!: clean_join simp: is_ascii_def)
next
  case (Cmp p op v)
  then have p: "path_ok p" and v: "value_ok E op v" by auto
  have "ends_clean ((show_path p @ show_op op) @ show_operand E op v)"
    by (rule ends_clean_append [OF ends_value [OF v]]) (cases op; simp add: is_ascii_def)
  moreover have "starts_clean (show_path p @ show_op op @ show_operand E op v)"
    by (rule starts_clean_append [OF starts_show_path [OF p]]) (cases op; simp add: is_ascii_def)
  ultimately show ?case by (simp add: clean_def)
next
  case (Exists p neg)
  then have p: "path_ok p" by simp
  have "ends_clean ((if neg then ''!'' else []) @ show_path p)"
    by (rule ends_clean_append [OF ends_show_path [OF p]]) (simp add: is_ascii_def)
  moreover have "starts_clean ((if neg then ''!'' else []) @ show_path p)"
    using starts_show_path [OF p] starts_clean_ascii [of "CHR ''!''" "show_path p"]
    by (simp add: is_ascii_def ascii_ws_def)
  ultimately show ?case by (simp add: clean_def)
qed

text \<open>The limits \<open>parse_q\<close> enforces, on the rendered text and the tree it denotes.\<close>

definition within_limits :: "ext \<Rightarrow> qnode \<Rightarrow> bool" where
  "within_limits E n \<longleftrightarrow> length (render E n) \<le> MAX_Q_BYTES \<and> nesting n \<le> MAX_Q_DEPTH
     \<and> q_nodes (canon n) \<le> MAX_Q_NODES"

lemma parse_render:
  assumes "wf_node E n" "within_limits E n"
  shows "parse_q E (render E n) = Ok (canon n)"
proof -
  have "trim (render E n) = render E n"
    using render_clean [OF assms(1)] trim_clean by (auto simp: clean_def)
  moreover have "or_expr (qterm MAX_Q_DEPTH E) (render E n @ []) = Ok (canon n, [])"
    using or_expr_render [OF assms(1)] assms(2) unfolding reads_def within_limits_def by (metis fol_Nil)
  ultimately show ?thesis using assms(2) by (simp add: parse_q_def within_limits_def)
qed

end
