(* ===== verification/JsonldContext.thy ===== *)
theory JsonldContext
  imports Model
begin

text \<open>
  The JSON-LD term map of one request (\<open>antares-jsonld/src/context.rs\<close>): merging @context objects,
  freezing the inverse and prefix indexes, expanding a key and compacting an IRI.  A \<open>HashMap\<close> is a
  \<open>bmap\<close>; Rust iterates one in a random order, so \<open>freeze\<close> is written over a list of its entries and
  \<open>freeze_order\<close> shows that the order does not matter.
\<close>

definition DEFAULT_VOCAB :: string where
  "DEFAULT_VOCAB = ''https://uri.etsi.org/ngsi-ld/default-context/''"

record term_def =
  iri :: string
  type_is_id :: bool
  type_is_vocab :: bool
  container_list :: bool
  prefix_ok :: bool

record jctx =
  terms :: "term_def bmap"
  inverse :: "string bmap"
  prefixes :: "string bmap"
  prefix_lens :: "nat list"
  vocab :: string
  ctx_bytes :: nat

definition empty_ctx :: jctx where
  "empty_ctx = \<lparr>terms = [], inverse = [], prefixes = [], prefix_lens = [], vocab = [], ctx_bytes = 0\<rparr>"

definition vocab_or_default :: "string \<Rightarrow> string" where
  "vocab_or_default v = (if v = [] then DEFAULT_VOCAB else v)"

definition is_absolute_iri :: "string \<Rightarrow> bool" where
  "is_absolute_iri s = (case split_once CHR '':'' s of
      None \<Rightarrow> False
    | Some (scheme, rest) \<Rightarrow>
        rest \<noteq> [] \<and> scheme \<noteq> [] \<and> is_alpha (hd scheme) \<and> list_all scheme_char scheme)"

definition MAX_CONTEXT_BYTES :: nat where
  "MAX_CONTEXT_BYTES = 5 * 1024 * 1024"

definition charge :: "string \<Rightarrow> jctx \<Rightarrow> jctx ngsi_result" where
  "charge i c = (let c' = c\<lparr>ctx_bytes := ctx_bytes c + length i\<rparr> in
     if MAX_CONTEXT_BYTES < ctx_bytes c'
     then Err (BadRequestData ''@context term definitions exceed the maximum size'') else Ok c')"

text \<open>The prefix step both expansions share: \<open>prefix:suffix\<close> with a prefix-capable term.\<close>

definition prefix_expand :: "term_def bmap \<Rightarrow> string \<Rightarrow> string option" where
  "prefix_expand ts s = (case split_once CHR '':'' s of
      None \<Rightarrow> None
    | Some (prefix, suffix) \<Rightarrow>
        (if starts_with ''//'' suffix then None
         else (case bm_get ts prefix of
                 Some d \<Rightarrow> (if prefix_ok d then Some (iri d @ suffix) else None)
               | None \<Rightarrow> None)))"

definition expand_iri_for_def :: "jctx \<Rightarrow> string \<Rightarrow> string" where
  "expand_iri_for_def c s =
     (if starts_with ''@'' s then s
      else case prefix_expand (terms c) s of
        Some i \<Rightarrow> i
      | None \<Rightarrow>
          (if is_absolute_iri s then s
           else case bm_get (terms c) s of
             Some d \<Rightarrow> iri d
           | None \<Rightarrow> if vocab c \<noteq> [] then vocab c @ s else s))"

definition plain_def :: "string \<Rightarrow> term_def" where
  "plain_def i = \<lparr>iri = i, type_is_id = False, type_is_vocab = False, container_list = False, prefix_ok = True\<rparr>"

definition set_term :: "string \<Rightarrow> term_def \<Rightarrow> jctx \<Rightarrow> jctx" where
  "set_term t d c = c\<lparr>terms := bm_insert t d (terms c)\<rparr>"

definition pass1 :: "jobj \<Rightarrow> jctx \<Rightarrow> jctx" where
  "pass1 obj c = fold (\<lambda>(t, d) c.
     if starts_with ''@'' t then c
     else (case d of JStr s \<Rightarrow> if is_absolute_iri s then set_term t (plain_def s) c else c | _ \<Rightarrow> c)) obj c"

definition object_def :: "bool \<Rightarrow> string \<Rightarrow> jobj \<Rightarrow> jctx \<Rightarrow> jctx ngsi_result" where
  "object_def user t ob c =
     (if user \<and> bm_contains ob ''@context''
      then Err (BadRequestData ''JSON-LD Scoped Contexts are not allowed in a user @context (5.5.7)'')
      else
        (case (case jget_str ob ''@id'' of
                 Some i \<Rightarrow> Some (expand_iri_for_def c i)
               | None \<Rightarrow>
                   (if bm_contains ob ''@container'' \<or> bm_contains ob ''@type''
                    then (let e = expand_iri_for_def c t in
                          Some (if is_absolute_iri e then e else vocab_or_default (vocab c) @ t))
                    else None)) of
           None \<Rightarrow> Ok c
         | Some i \<Rightarrow>
             and_then (charge i c) (\<lambda>c.
               let ty = (case jget_str ob ''@type'' of Some s \<Rightarrow> s | None \<Rightarrow> []);
                   co = (case jget_str ob ''@container'' of Some s \<Rightarrow> s | None \<Rightarrow> [])
               in Ok (set_term t \<lparr>iri = i, type_is_id = (ty = ''@id''), type_is_vocab = (ty = ''@vocab''),
                        container_list = (co = ''@list''),
                        prefix_ok = (case Option.bind (bm_get ob ''@prefix'') as_bool of Some b \<Rightarrow> b | None \<Rightarrow> False)\<rparr> c))))"

definition pass2_step :: "bool \<Rightarrow> string \<times> json \<Rightarrow> jctx \<Rightarrow> jctx ngsi_result" where
  "pass2_step user e c = (case e of (t, d) \<Rightarrow>
     if starts_with ''@'' t then Ok c
     else (case d of
         JStr s \<Rightarrow> (let i = expand_iri_for_def c s in
                    and_then (charge i c) (\<lambda>c. Ok (set_term t (plain_def i) c)))
       | JObj ob \<Rightarrow> object_def user t ob c
       | JNull \<Rightarrow> Ok (c\<lparr>terms := bm_remove t (terms c)\<rparr>)
       | _ \<Rightarrow> Ok c))"

definition merge_definitions :: "bool \<Rightarrow> jobj \<Rightarrow> jctx \<Rightarrow> jctx ngsi_result" where
  "merge_definitions user obj c =
     (let c1 = (case jget_str obj ''@vocab'' of Some v \<Rightarrow> c\<lparr>vocab := v\<rparr> | None \<Rightarrow> c)
      in try_fold (pass2_step user) obj (pass1 obj c1))"

definition merge_object :: "jobj \<Rightarrow> jctx \<Rightarrow> jctx ngsi_result" where
  "merge_object obj c = merge_definitions True obj c"

definition merge_core_object :: "jobj \<Rightarrow> jctx \<Rightarrow> jctx ngsi_result" where
  "merge_core_object obj c = merge_definitions False obj c"

subsection \<open>Freezing\<close>

text \<open>The tie-break: the shorter term, then the lexicographically smaller one.\<close>

definition term_le :: "string \<Rightarrow> string \<Rightarrow> bool" where
  "term_le a b \<longleftrightarrow> length a < length b \<or> (length a = length b \<and> a \<le> b)"

definition offer :: "string \<Rightarrow> string \<Rightarrow> string bmap \<Rightarrow> string bmap" where
  "offer i t m = (case bm_get m i of
      Some existing \<Rightarrow> if term_le existing t then m else bm_insert i t m
    | None \<Rightarrow> bm_insert i t m)"

definition build_inverse :: "(string \<times> term_def) list \<Rightarrow> string bmap" where
  "build_inverse ts = fold (\<lambda>(t, d) m. offer (iri d) t m) ts []"

definition build_prefixes :: "(string \<times> term_def) list \<Rightarrow> string bmap" where
  "build_prefixes ts = fold (\<lambda>(t, d) m. if \<not> prefix_ok d \<or> iri d = [] then m else offer (iri d) t m) ts []"

definition freeze :: "jctx \<Rightarrow> jctx" where
  "freeze c = (let pfx = build_prefixes (terms c) in
     c\<lparr>inverse := build_inverse (terms c), prefixes := pfx,
       prefix_lens := rev (remdups_adj (sort (map length (bm_keys pfx))))\<rparr>)"

subsection \<open>Expanding and compacting\<close>

definition expand_key :: "jctx \<Rightarrow> string \<Rightarrow> string" where
  "expand_key c key = (case bm_get (terms c) key of
      Some d \<Rightarrow> iri d
    | None \<Rightarrow> (case prefix_expand (terms c) key of
        Some i \<Rightarrow> i
      | None \<Rightarrow> if is_absolute_iri key then key else vocab_or_default (vocab c) @ key))"

text \<open>The loop over the two vocabularies stops at the first one the IRI starts with.\<close>

definition vocab_rest :: "jctx \<Rightarrow> string \<Rightarrow> string option" where
  "vocab_rest c i = (case strip_prefix (vocab_or_default (vocab c)) i of
      Some r \<Rightarrow> Some r | None \<Rightarrow> strip_prefix DEFAULT_VOCAB i)"

definition vocab_round_trips :: "jctx \<Rightarrow> string \<Rightarrow> string \<Rightarrow> bool" where
  "vocab_round_trips c i rest \<longleftrightarrow> rest \<noteq> [] \<and> CHR '':'' \<notin> set rest
     \<and> (case bm_get (terms c) rest of None \<Rightarrow> True | Some d \<Rightarrow> iri d = i)"

fun prefix_probe :: "string bmap \<Rightarrow> nat list \<Rightarrow> string \<Rightarrow> string" where
  "prefix_probe m [] i = i"
| "prefix_probe m (n # ns) i =
     (if length i \<le> n \<or> \<not> is_char_boundary i n then prefix_probe m ns i
      else (case bm_get m (take n i) of
              Some t \<Rightarrow> t @ '':'' @ drop n i
            | None \<Rightarrow> prefix_probe m ns i))"

definition compact_iri :: "jctx \<Rightarrow> string \<Rightarrow> string" where
  "compact_iri c i = (case bm_get (inverse c) i of
      Some t \<Rightarrow> t
    | None \<Rightarrow> (case vocab_rest c i of
        Some r \<Rightarrow> if vocab_round_trips c i r then r else prefix_probe (prefixes c) (prefix_lens c) i
      | None \<Rightarrow> prefix_probe (prefixes c) (prefix_lens c) i))"

subsection \<open>The indexes\<close>

lemma term_le_linear: "term_le a b \<or> term_le b a"
  by (auto simp: term_le_def)

lemma term_le_antisym: "term_le a b \<Longrightarrow> term_le b a \<Longrightarrow> a = b"
  by (auto simp: term_le_def)

lemma term_le_trans: "term_le a b \<Longrightarrow> term_le b c \<Longrightarrow> term_le a c"
  by (auto simp: term_le_def)

lemma offer_ok: "bm_ok m \<Longrightarrow> bm_ok (offer i t m)"
  by (auto simp: offer_def bm_laws split: option.splits)

lemma offer_get:
  "bm_ok m \<Longrightarrow> bm_get (offer i t m) j =
     (if j = i then (case bm_get m i of Some e \<Rightarrow> Some (if term_le e t then e else t) | None \<Rightarrow> Some t)
      else bm_get m j)"
  by (auto simp: offer_def bm_laws split: option.splits)

text \<open>\<open>candidates P ts i\<close>: the terms an index may name for the IRI \<open>i\<close>.\<close>

definition candidates :: "(term_def \<Rightarrow> bool) \<Rightarrow> (string \<times> term_def) list \<Rightarrow> string \<Rightarrow> string set" where
  "candidates P ts i = {t. \<exists>d. (t, d) \<in> set ts \<and> P d \<and> iri d = i}"

definition best :: "string set \<Rightarrow> string option \<Rightarrow> bool" where
  "best S r \<longleftrightarrow> (case r of None \<Rightarrow> S = {} | Some t \<Rightarrow> t \<in> S \<and> (\<forall>s\<in>S. term_le t s))"

lemma best_unique: "best S r \<Longrightarrow> best S r' \<Longrightarrow> r = r'"
  by (auto simp: best_def intro: term_le_antisym split: option.splits)

definition build_index :: "(term_def \<Rightarrow> bool) \<Rightarrow> (string \<times> term_def) list \<Rightarrow> string bmap" where
  "build_index P ts = fold (\<lambda>(t, d) m. if P d then offer (iri d) t m else m) ts []"

lemma build_inverse_index: "build_inverse ts = build_index (\<lambda>d. True) ts"
  by (simp add: build_inverse_def build_index_def)

lemma build_prefixes_index: "build_prefixes ts = build_index (\<lambda>d. prefix_ok d \<and> iri d \<noteq> []) ts"
  by (simp add: build_prefixes_def build_index_def) (metis (mono_tags, lifting))

lemma build_index_snoc:
  "build_index P (ts @ [(t, d)]) =
     (if P d then offer (iri d) t (build_index P ts) else build_index P ts)"
  by (simp add: build_index_def)

lemma candidates_snoc:
  "candidates P (ts @ [(t, d)]) i = (if P d \<and> iri d = i then insert t (candidates P ts i) else candidates P ts i)"
  by (auto simp: candidates_def)

lemma build_index_spec: "bm_ok (build_index P ts) \<and> best (candidates P ts i) (bm_get (build_index P ts) i)"
proof (induction ts rule: rev_induct)
  case Nil
  then show ?case by (simp add: build_index_def candidates_def best_def bm_get_def)
next
  case (snoc x ts)
  obtain t d where x: "x = (t, d)" by (cases x)
  from snoc have ok: "bm_ok (build_index P ts)" by simp
  show ?case
  proof (cases "P d \<and> iri d = i")
    case False
    with snoc ok show ?thesis by (auto simp: x build_index_snoc candidates_snoc offer_ok offer_get)
  next
    case True
    let ?S = "candidates P ts i"
    let ?g = "bm_get (build_index P ts) i"
    have g: "bm_get (build_index P (ts @ [x])) i =
        (case ?g of Some e \<Rightarrow> Some (if term_le e t then e else t) | None \<Rightarrow> Some t)"
      using True ok by (simp add: x build_index_snoc offer_get)
    have S: "candidates P (ts @ [x]) i = insert t ?S" using True by (simp add: x candidates_snoc)
    have "best (insert t ?S) (case ?g of Some e \<Rightarrow> Some (if term_le e t then e else t) | None \<Rightarrow> Some t)"
    proof (cases ?g)
      case None
      with snoc have "?S = {}" by (simp add: best_def)
      with None show ?thesis by (simp add: best_def term_le_def)
    next
      case (Some e)
      with snoc have e: "e \<in> ?S" "\<forall>s\<in>?S. term_le e s" by (simp_all add: best_def)
      show ?thesis
      proof (cases "term_le e t")
        case True
        with Some e show ?thesis by (simp add: best_def)
      next
        case False
        then have "term_le t e" using term_le_linear by blast
        with Some e False show ?thesis by (auto simp: best_def term_le_def [of t t] intro: term_le_trans)
      qed
    qed
    with ok True show ?thesis by (simp add: g S) (simp add: x build_index_snoc offer_ok)
  qed
qed

lemma build_index_order: "set ts = set us \<Longrightarrow> build_index P ts = build_index P us"
proof (rule bm_ext)
  assume "set ts = set us"
  then have "candidates P ts i = candidates P us i" for i by (simp add: candidates_def)
  then show "bm_get (build_index P ts) i = bm_get (build_index P us) i" for i
    using build_index_spec best_unique by metis
qed (simp_all add: build_index_spec)

lemma build_index_SomeD:
  "bm_get (build_index P ts) i = Some t \<Longrightarrow> \<exists>d. (t, d) \<in> set ts \<and> P d \<and> iri d = i"
  using build_index_spec [of P ts i] by (auto simp: best_def candidates_def)

lemma prefix_probe_cases:
  "prefix_probe m ns i = i \<or>
     (\<exists>t n. prefix_probe m ns i = t @ '':'' @ drop n i \<and> bm_get m (take n i) = Some t \<and> n < length i)"
proof (induction ns)
  case (Cons a ns)
  show ?case
  proof (cases "length i \<le> a \<or> \<not> is_char_boundary i a \<or> bm_get m (take a i) = None")
    case True
    then have "prefix_probe m (a # ns) i = prefix_probe m ns i" by auto
    with Cons show ?thesis by simp
  next
    case False
    then obtain t where "bm_get m (take a i) = Some t" by auto
    with False show ?thesis by (intro disjI2 exI [of _ t] exI [of _ a]) simp
  qed
qed simp

text \<open>When compaction must be undone by expansion: no term has a colon in its name, the vocabulary is the
  default one, no prefix-capable term's IRI leaves a suffix that starts with \<open>//\<close>, and the IRI itself
  does not read as a prefixed name.\<close>

definition frozen :: "jctx \<Rightarrow> bool" where
  "frozen c \<longleftrightarrow> bm_ok (terms c) \<and> inverse c = build_inverse (terms c) \<and> prefixes c = build_prefixes (terms c)"

definition plain_terms :: "jctx \<Rightarrow> bool" where
  "plain_terms c \<longleftrightarrow> list_all (\<lambda>e. CHR '':'' \<notin> set (fst e)) (terms c)"

definition unambiguous :: "jctx \<Rightarrow> string \<Rightarrow> bool" where
  "unambiguous c i \<longleftrightarrow> is_absolute_iri i \<and> prefix_expand (terms c) i = None
     \<and> list_all (\<lambda>n. \<not> starts_with ''//'' (drop n i)) (map (\<lambda>e. length (iri (snd e))) (filter (\<lambda>e. prefix_ok (snd e)) (terms c)))"

lemma frozen_freeze: "bm_ok (terms c) \<Longrightarrow> frozen (freeze c)"
  by (simp add: frozen_def freeze_def Let_def)

lemma plain_terms_no_colon: "plain_terms c \<Longrightarrow> CHR '':'' \<in> set k \<Longrightarrow> bm_get (terms c) k = None"
  by (auto simp: plain_terms_def list_all_iff bm_get_None_iff)

lemma expand_prefix_form:
  assumes c: "frozen c" "plain_terms c" and i: "unambiguous c i"
    and t: "bm_get (prefixes c) (take n i) = Some t" and n: "n < length i"
  shows "expand_key c (t @ '':'' @ drop n i) = i"
proof -
  from t c(1) obtain d where d: "(t, d) \<in> set (terms c)" "prefix_ok d" "iri d = take n i"
    using build_index_SomeD by (fastforce simp: frozen_def build_prefixes_index)
  have ok: "bm_ok (terms c)" using c(1) by (simp add: frozen_def)
  have get: "bm_get (terms c) t = Some d" using d(1) bm_get_iff [OF ok] by simp
  have nc: "CHR '':'' \<notin> set t" using c(2) d(1) by (auto simp: plain_terms_def list_all_iff)
  have ns: "\<not> starts_with ''//'' (drop n i)"
    using i d n by (force simp: unambiguous_def list_all_iff)
  have "bm_get (terms c) (t @ '':'' @ drop n i) = None" by (rule plain_terms_no_colon [OF c(2)]) simp
  moreover have "prefix_expand (terms c) (t @ '':'' @ drop n i) = Some i"
    using split_once_append [OF nc, of "drop n i"] ns get d by (simp add: prefix_expand_def)
  ultimately show ?thesis by (simp add: expand_key_def)
qed

lemma expand_compact:
  assumes c: "frozen c" "plain_terms c" and v: "vocab_or_default (vocab c) = DEFAULT_VOCAB" and i: "unambiguous c i"
  shows "expand_key c (compact_iri c i) = i"
proof (cases "bm_get (inverse c) i")
  case (Some t)
  then obtain d where "(t, d) \<in> set (terms c)" "iri d = i"
    using c(1) build_index_SomeD by (fastforce simp: frozen_def build_inverse_index)
  with c(1) have "bm_get (terms c) t = Some d" by (simp add: frozen_def bm_get_iff)
  with Some \<open>iri d = i\<close> show ?thesis by (simp add: compact_iri_def expand_key_def)
next
  case None
  have abs: "is_absolute_iri i" "prefix_expand (terms c) i = None" using i by (auto simp: unambiguous_def)
  then have col: "CHR '':'' \<in> set i"
    using split_once_None_iff [of "CHR '':''" i] by (auto simp: is_absolute_iri_def split: option.splits)
  have self: "expand_key c i = i"
    using plain_terms_no_colon [OF c(2) col] abs by (simp add: expand_key_def)
  have probe: "expand_key c (prefix_probe (prefixes c) (prefix_lens c) i) = i"
    using prefix_probe_cases [of "prefixes c" "prefix_lens c" i] self expand_prefix_form [OF c i] by auto
  have vr: "expand_key c r = i" if r: "vocab_rest c i = Some r" "vocab_round_trips c i r" for r
  proof -
    have i_eq: "i = DEFAULT_VOCAB @ r"
      using r(1) by (auto simp: vocab_rest_def v strip_prefix_Some_iff split: option.splits)
    have nc: "CHR '':'' \<notin> set r" using r(2) by (simp add: vocab_round_trips_def)
    then have "split_once CHR '':'' r = None" by (simp add: split_once_None_iff)
    then show ?thesis
      using r(2) i_eq v
      by (auto simp: expand_key_def vocab_round_trips_def prefix_expand_def is_absolute_iri_def split: option.splits)
  qed
  from None probe vr show ?thesis by (auto simp: compact_iri_def split: option.splits)
qed

text \<open>The compaction indexes do not depend on the order in which the terms were met: equal sets of terms freeze to equal inverse and prefix maps.\<close>

lemma freeze_order_independent:
  assumes "set ts = set us"
  shows "build_inverse ts = build_inverse us \<and> build_prefixes ts = build_prefixes us"
  using build_index_order [OF assms] by (simp add: build_inverse_index build_prefixes_index)

end
