(* ===== verification/DateTime.thy ===== *)
theory DateTime
  imports QParser
begin

text \<open>
  Datetimes of clause 4.6.3 and what hangs on them: the shape check \<open>parse_datetime\<close>
  (\<open>antares-jsonld/src/expand.rs\<close>), the ordering key \<open>temporal_key\<close> (\<open>antares-ql/src/eval.rs\<close>), and
  transient storage (\<open>antares-store/src/filter.rs\<close>): \<open>expired_at\<close> and \<open>strip_expired\<close>.
\<close>

definition digits_at :: "string \<Rightarrow> nat \<Rightarrow> nat \<Rightarrow> bool" where
  "digits_at s i j \<longleftrightarrow> list_all is_digit (take (j - i) (drop i s))"

definition datetime_shape :: "string \<Rightarrow> bool" where
  "datetime_shape b \<longleftrightarrow>
     digits_at b 0 4 \<and> b ! 4 = CHR ''-'' \<and> digits_at b 5 7 \<and> b ! 7 = CHR ''-'' \<and> digits_at b 8 10
     \<and> b ! 10 = CHR ''T'' \<and> digits_at b 11 13 \<and> b ! 13 = CHR '':'' \<and> digits_at b 14 16
     \<and> b ! 16 = CHR '':'' \<and> digits_at b 17 19"

text \<open>The fraction between second and \<open>Z\<close>: empty, or a separator and one to six digits.\<close>

definition strip_sep :: "string \<Rightarrow> string option" where
  "strip_sep s = (case strip_char CHR ''.'' s of Some r \<Rightarrow> Some r | None \<Rightarrow> strip_char CHR '','' s)"

definition parse_datetime :: "ext \<Rightarrow> string \<Rightarrow> bool" where
  "parse_datetime E s =
     (if length s < 20 \<or> last s \<noteq> CHR ''Z'' then False
      else if \<not> datetime_shape s then False
      else (let frac = drop 19 (butlast s) in
            if frac \<noteq> [] \<and> (case strip_sep frac of
                 None \<Rightarrow> True
               | Some r \<Rightarrow> r = [] \<or> 6 < length r \<or> \<not> list_all is_digit r)
            then False
            else rfc3339 E (take 19 s @ ''Z'') \<noteq> None))"

definition is_sep :: "char \<Rightarrow> bool" where
  "is_sep c \<longleftrightarrow> c = CHR ''.'' \<or> c = CHR '',''"

definition time_shape :: "string \<Rightarrow> bool" where
  "time_shape s \<longleftrightarrow> list_all (\<lambda>i. if i = 2 \<or> i = 5 then s ! i = CHR '':'' else is_digit (s ! i)) [0..<8]"

definition temporal_key :: "ext \<Rightarrow> string \<Rightarrow> string option" where
  "temporal_key E s = (case strip_suffix ''Z'' s of
      None \<Rightarrow> None
    | Some body \<Rightarrow>
        (let base = takeWhile (\<lambda>c. \<not> is_sep c) body;
             frac = drop 1 (dropWhile (\<lambda>c. \<not> is_sep c) body);
             shaped = (if length base = 19 then parse_datetime E s
                       else if length base = 8 then time_shape base else False)
         in if shaped \<and> length frac \<le> 6 \<and> list_all is_digit frac
            then Some (base @ ''.'' @ pad_zeros 6 frac) else None))"

subsection \<open>Transient storage\<close>

fun replace_first :: "char \<Rightarrow> char \<Rightarrow> string \<Rightarrow> string" where
  "replace_first a b [] = []"
| "replace_first a b (c # s) = (if c = a then b # s else c # replace_first a b s)"

definition canonical_datetime :: "string \<Rightarrow> string" where
  "canonical_datetime s = replace_first CHR '','' CHR ''.'' s"

definition expired_at :: "ext \<Rightarrow> string \<Rightarrow> json \<Rightarrow> bool" where
  "expired_at E now v = (case Option.bind (jget v ''expiresAt'') as_str of
      None \<Rightarrow> False
    | Some e \<Rightarrow> (case (rfc3339 E (canonical_datetime e), rfc3339 E (canonical_datetime now)) of
        (Some x, Some n) \<Rightarrow> x < n
      | _ \<Rightarrow> e < now))"

text \<open>\<open>strip_expired\<close>: \<open>None\<close> for \<open>true\<close> (the value is expired), else the value with the expired
  instances of its attributes removed, at every depth, and attributes left empty dropped.\<close>

fun strip_expired :: "ext \<Rightarrow> string \<Rightarrow> json \<Rightarrow> json option" where
  "strip_expired E now (JObj m) =
     (if expired_at E now (JObj m) then None
      else Some (JObj (List.map_filter (\<lambda>(k, v).
        (case v of
           JArr xs \<Rightarrow> if CHR '':'' \<in> set k
                     then (let ys = List.map_filter (\<lambda>x. strip_expired E now x) xs
                           in if xs \<noteq> [] \<and> ys = [] then None else Some (k, JArr ys))
                     else Some (k, v)
         | _ \<Rightarrow> Some (k, v))) m)))"
| "strip_expired E now v = (if expired_at E now v then None else Some v)"

subsection \<open>What is served is not expired\<close>

fun none_expired :: "ext \<Rightarrow> string \<Rightarrow> json \<Rightarrow> bool" where
  "none_expired E now (JObj m) \<longleftrightarrow> \<not> expired_at E now (JObj m) \<and>
     (\<forall>(k, v)\<in>set m. case v of JArr xs \<Rightarrow> CHR '':'' \<in> set k \<longrightarrow> (\<forall>x\<in>set xs. none_expired E now x) | _ \<Rightarrow> True)"
| "none_expired E now v \<longleftrightarrow> \<not> expired_at E now v"

definition strip_entry :: "ext \<Rightarrow> string \<Rightarrow> string \<times> json \<Rightarrow> (string \<times> json) option" where
  "strip_entry E now e = (case e of (k, v) \<Rightarrow>
     (case v of
        JArr xs \<Rightarrow> if CHR '':'' \<in> set k
          then (let ys = List.map_filter (strip_expired E now) xs
                in if xs \<noteq> [] \<and> ys = [] then None else Some (k, JArr ys))
          else Some (k, v)
      | _ \<Rightarrow> Some (k, v)))"

lemma strip_obj: "strip_expired E now (JObj m) =
    (if expired_at E now (JObj m) then None else Some (JObj (List.map_filter (strip_entry E now) m)))"
proof -
  have "strip_entry E now = (\<lambda>(k, v). (case v of
           JArr xs \<Rightarrow> if CHR '':'' \<in> set k
                     then (let ys = List.map_filter (\<lambda>x. strip_expired E now x) xs
                           in if xs \<noteq> [] \<and> ys = [] then None else Some (k, JArr ys))
                     else Some (k, v)
         | _ \<Rightarrow> Some (k, v)))"
    by (rule ext) (simp add: strip_entry_def split: prod.split json.split)
  then show ?thesis by simp
qed

lemma strip_entry_key: "strip_entry E now (k, v) = Some (k', v') \<Longrightarrow> k' = k"
  by (auto simp: strip_entry_def Let_def split: json.splits if_splits)

lemma strip_entry_plain: "CHR '':'' \<notin> set k \<Longrightarrow> strip_entry E now (k, v) = Some (k, v)"
  by (simp add: strip_entry_def split: json.split)

lemma strip_get: "CHR '':'' \<notin> set k \<Longrightarrow> bm_get (List.map_filter (strip_entry E now) m) k = bm_get m k"
proof (induction m)
  case (Cons e m)
  obtain k0 v0 where e: "e = (k0, v0)" by (cases e)
  show ?case
  proof (cases "k0 = k")
    case True
    with Cons.prems show ?thesis by (simp add: e strip_entry_plain bm_get_def List.map_filter_simps)
  next
    case False
    with Cons show ?thesis
      by (auto simp: e bm_get_def List.map_filter_simps split: option.split dest: strip_entry_key)
  qed
qed (simp add: List.map_filter_simps)

lemma strip_keeps_expiry: "expired_at E now (JObj (List.map_filter (strip_entry E now) m)) = expired_at E now (JObj m)"
proof -
  have "bm_get (List.map_filter (strip_entry E now) m) ''expiresAt'' = bm_get m ''expiresAt''"
    by (rule strip_get) simp
  then show ?thesis by (simp only: expired_at_def jget.simps)
qed

lemma strip_none_expired: "strip_expired E now v = Some v' \<Longrightarrow> none_expired E now v'"
proof (induction E now v arbitrary: v' rule: strip_expired.induct)
  case (1 E now m)
  then have ne: "\<not> expired_at E now (JObj m)" and v': "v' = JObj (List.map_filter (strip_entry E now) m)"
    by (simp_all only: strip_obj split: if_splits) simp_all
  have "none_expired E now x" if e: "(k, JArr ys) \<in> set (List.map_filter (strip_entry E now) m)" "CHR '':'' \<in> set k" "x \<in> set ys" for k ys x
  proof -
    obtain k0 v where m: "(k0, v) \<in> set m" "strip_entry E now (k0, v) = Some (k, JArr ys)"
      using e(1) unfolding set_map_filter by force
    have k: "k0 = k" using strip_entry_key [OF m(2)] ..
    obtain xs where xs: "v = JArr xs" "ys = List.map_filter (strip_expired E now) xs"
      using m(2) e(2) unfolding k by (auto simp: strip_entry_def Let_def split: json.splits if_splits)
    then obtain y where "y \<in> set xs" "strip_expired E now y = Some x" using e(3) by (auto simp: set_map_filter)
    then show ?thesis using 1(1) [OF ne m(1) refl] xs(1) e(2) k by blast
  qed
  then show ?case using ne strip_keeps_expiry [of E now m] by (auto simp: v' split: json.split)
qed (auto split: if_splits)

lemma strip_idle: "none_expired E now v \<Longrightarrow> strip_expired E now v = Some v"
proof (induction E now v rule: strip_expired.induct)
  case (1 E now m)
  have "strip_entry E now e = Some e" if e: "e \<in> set m" for e
  proof -
    obtain k v where kv: "e = (k, v)" by (cases e)
    have "List.map_filter (strip_expired E now) xs = xs" if v: "v = JArr xs" and c: "CHR '':'' \<in> set k" for xs
    proof -
      have "strip_expired E now x = Some x" if "x \<in> set xs" for x
      proof (rule 1(1) [OF _ e kv [symmetric] v c that])
        show "\<not> expired_at E now (JObj m)" using 1(2) by simp
        show "none_expired E now x" using 1(2) e kv v c that by fastforce
      qed
      then show ?thesis by (induction xs) (simp_all add: List.map_filter_simps)
    qed
    then show ?thesis by (auto simp: kv strip_entry_def Let_def split: json.split)
  qed
  then have "List.map_filter (strip_entry E now) m = m" by (induction m) (simp_all add: List.map_filter_simps)
  with 1(2) show ?case by (simp only: strip_obj none_expired.simps simp_thms if_False)
qed simp_all

end
