(* ===== verification/QEval.thy ===== *)
theory QEval
  imports QRender JsonldContext DateTime
begin

text \<open>
  Evaluation of a query against an expanded entity (\<open>antares-ql/src/eval.rs\<close>).  The budget of linked
  entity lookups is a \<open>Cell\<close> shared by every term and every recursion branch; here it is threaded:
  each step takes the lookups left and returns what it leaves.  \<open>lookup\<close> is the store.
\<close>

definition MAX_Q_LINK_LOOKUPS :: nat where "MAX_Q_LINK_LOOKUPS = 512"

datatype target_kind = KValue | KObject | KLanguageMap | KVocab | KJson | KValueList | KObjectList

type_synonym target = "target_kind \<times> json"

fun kind_allows :: "target_kind \<Rightarrow> cmp_op \<Rightarrow> bool" where
  "kind_allows KObject op = is_equality op"
| "kind_allows KObjectList op = is_equality op"
| "kind_allows _ op = True"

definition value_members :: "(string \<times> target_kind) list" where
  "value_members = [(''value'', KValue), (''object'', KObject), (''languageMap'', KLanguageMap),
     (''vocab'', KVocab), (''json'', KJson), (''valueList'', KValueList), (''objectList'', KObjectList)]"

fun first_member :: "(string \<times> target_kind) list \<Rightarrow> jobj \<Rightarrow> (target_kind \<times> json) option" where
  "first_member [] m = None"
| "first_member ((k, kd) # ks) m = (case bm_get m k of Some v \<Rightarrow> Some (kd, v) | None \<Rightarrow> first_member ks m)"

definition comparable_value :: "json \<Rightarrow> target option" where
  "comparable_value inst = (case inst of JObj m \<Rightarrow> first_member value_members m | _ \<Rightarrow> None)"

fun navigate :: "json \<Rightarrow> string list \<Rightarrow> json option" where
  "navigate v [] = Some v"
| "navigate v (s # ss) = (case jget v s of None \<Rightarrow> None | Some w \<Rightarrow> navigate w ss)"

fun untyped :: "json \<Rightarrow> json" where
  "untyped (JObj m) = (case bm_get m ''@value'' of Some v \<Rightarrow> v | None \<Rightarrow> JObj m)"
| "untyped (JArr xs) = JArr (map untyped xs)"
| "untyped v = v"

definition push_target :: "target_kind \<Rightarrow> json \<Rightarrow> target" where
  "push_target k v = (k, if k = KValue \<or> k = KValueList then untyped v else v)"

fun expand_vocab :: "jctx \<Rightarrow> json \<Rightarrow> json" where
  "expand_vocab c (JStr s) = JStr (expand_key c s)"
| "expand_vocab c (JArr xs) = JArr (map (expand_vocab c) xs)"
| "expand_vocab c v = v"

definition lang_values :: "jobj \<Rightarrow> json list" where
  "lang_values m = concat (map (\<lambda>v. case v of JArr xs \<Rightarrow> xs | _ \<Rightarrow> [v]) (bm_values m))"

definition terminal :: "jctx \<Rightarrow> string list option \<Rightarrow> json \<Rightarrow> target list" where
  "terminal c br inst = (case comparable_value inst of
      None \<Rightarrow> []
    | Some (k, v) \<Rightarrow>
        (case br of
           None \<Rightarrow> (if k = KVocab then [(k, expand_vocab c v)] else [push_target k v])
         | Some b \<Rightarrow>
             (if k = KLanguageMap then
                (case v of
                   JObj m \<Rightarrow>
                     (if length b \<noteq> 1 then []
                      else if hd b = ''*'' then [(k, JArr (lang_values m))]
                      else (case bm_get m (hd b) of Some x \<Rightarrow> [(k, x)] | None \<Rightarrow> []))
                 | _ \<Rightarrow> [])
              else (case navigate v b of Some x \<Rightarrow> [push_target k x] | None \<Rightarrow> []))))"

primrec collect :: "string list \<Rightarrow> jctx \<Rightarrow> string list option \<Rightarrow> json \<Rightarrow> target list" where
  "collect [] c br inst = terminal c br inst"
| "collect (seg # rest) c br inst =
     (case Option.bind (jget inst (expand_key c seg)) as_array of
        Some subs \<Rightarrow> concat (map (collect rest c br) subs)
      | None \<Rightarrow>
          (case comparable_value inst of
             None \<Rightarrow> []
           | Some (k, v) \<Rightarrow>
               (case navigate v (seg # rest) of
                  None \<Rightarrow> []
                | Some nested \<Rightarrow>
                    (case br of
                       None \<Rightarrow> [push_target k nested]
                     | Some b \<Rightarrow> (case navigate nested b of Some x \<Rightarrow> [push_target k x] | None \<Rightarrow> [])))))"

definition resolve_targets :: "jctx \<Rightarrow> string list \<Rightarrow> string list option \<Rightarrow> json \<Rightarrow> target list" where
  "resolve_targets c p br entity = (case p of
      [] \<Rightarrow> []
    | first # rest \<Rightarrow>
        (case Option.bind (jget entity (expand_key c first)) as_array of
           None \<Rightarrow> []
         | Some insts \<Rightarrow> concat (map (collect rest c br) insts)))"

definition instance_uris :: "json \<Rightarrow> string list" where
  "instance_uris inst =
     (case jget inst ''object'' of
        Some (JStr s) \<Rightarrow> [s] | Some (JArr a) \<Rightarrow> List.map_filter as_str a | _ \<Rightarrow> [])
     @ (case jget inst ''objectList'' of Some (JArr a) \<Rightarrow> List.map_filter as_str a | _ \<Rightarrow> [])"

definition type_hint_ok :: "jctx \<Rightarrow> string list \<Rightarrow> json \<Rightarrow> bool" where
  "type_hint_ok c hints linked \<longleftrightarrow> hints = [] \<or>
     (case as_array (jindex linked ''type'') of
        None \<Rightarrow> False
      | Some a \<Rightarrow> list_ex (\<lambda>t. list_ex (\<lambda>h. expand_key c h = t) hints) (List.map_filter as_str a))"

text \<open>One hop: look every URI up while the budget lasts, and walk on from those that qualify.\<close>

fun hop_loop :: "(string \<Rightarrow> json option) \<Rightarrow> (json \<Rightarrow> bool) \<Rightarrow> (json \<Rightarrow> nat \<Rightarrow> target list \<times> nat) \<Rightarrow>
    string list \<Rightarrow> nat \<Rightarrow> target list \<times> nat" where
  "hop_loop lookup ok walk [] b = ([], b)"
| "hop_loop lookup ok walk (u # us) 0 = ([], 0)"
| "hop_loop lookup ok walk (u # us) (Suc b) =
     (case lookup u of
        None \<Rightarrow> hop_loop lookup ok walk us b
      | Some e \<Rightarrow>
          (if \<not> ok e then hop_loop lookup ok walk us b
           else (let (ts, b') = walk e b; (ts', b'') = hop_loop lookup ok walk us b' in (ts @ ts', b''))))"

primrec resolve_links :: "link list \<Rightarrow> jctx \<Rightarrow> (string \<Rightarrow> json option) \<Rightarrow> string list \<Rightarrow> string list option \<Rightarrow>
    json \<Rightarrow> nat \<Rightarrow> target list \<times> nat" where
  "resolve_links [] c lookup p br entity b = (resolve_targets c p br entity, b)"
| "resolve_links (l # ls) c lookup p br entity b =
     (case Option.bind (jget entity (expand_key c (attr l))) as_array of
        None \<Rightarrow> ([], b)
      | Some insts \<Rightarrow>
          hop_loop lookup (type_hint_ok c (types l)) (resolve_links ls c lookup p br)
            (concat (map instance_uris insts)) b)"

definition resolve_qpath :: "jctx \<Rightarrow> (string \<Rightarrow> json option) \<Rightarrow> qpath \<Rightarrow> json \<Rightarrow> nat \<Rightarrow> target list \<times> nat" where
  "resolve_qpath c lookup q = resolve_links (links q) c lookup (path q) (bracket q)"

subsection \<open>Comparison\<close>

fun is_number :: "json \<Rightarrow> bool" where "is_number (JNum _) = True" | "is_number _ = False"
fun is_boolean :: "json \<Rightarrow> bool" where "is_boolean (JBool _) = True" | "is_boolean _ = False"

fun same_datatype :: "json \<Rightarrow> qvalue \<Rightarrow> bool" where
  "same_datatype t (QNum _) = is_number t"
| "same_datatype t (QStr _) = is_string t"
| "same_datatype t (QBool _) = is_boolean t"
| "same_datatype t (QRange lo _) = same_datatype t lo"
| "same_datatype t (QList _) = True"

fun num_cmp :: "f64 \<Rightarrow> cmp_op \<Rightarrow> f64 \<Rightarrow> bool" where
  "num_cmp t Eq n = (t = n)"
| "num_cmp t Ne n = (t \<noteq> n)"
| "num_cmp t Gt n = (t > n)"
| "num_cmp t Ge n = (t \<ge> n)"
| "num_cmp t Lt n = (t < n)"
| "num_cmp t Le n = (t \<le> n)"
| "num_cmp t _ n = False"

fun str_ord :: "cmp_op \<Rightarrow> string \<Rightarrow> string \<Rightarrow> bool" where
  "str_ord Gt a b = (a > b)"
| "str_ord Ge a b = (a \<ge> b)"
| "str_ord Lt a b = (a < b)"
| "str_ord _ a b = (a \<le> b)"

definition str_cmp :: "ext \<Rightarrow> (string \<Rightarrow> bool) option \<Rightarrow> string \<Rightarrow> cmp_op \<Rightarrow> string \<Rightarrow> bool" where
  "str_cmp E re t op s =
     (let keyed = (if is_ordering op then
                     (case (temporal_key E t, temporal_key E s) of
                        (Some tk, Some sk) \<Rightarrow> if length tk = length sk then Some (str_ord op tk sk) else None
                      | _ \<Rightarrow> None)
                   else None)
      in case keyed of
           Some r \<Rightarrow> r
         | None \<Rightarrow>
             (case op of
                Eq \<Rightarrow> t = s | Ne \<Rightarrow> t \<noteq> s
              | Pattern \<Rightarrow> (case re of Some m \<Rightarrow> m t | None \<Rightarrow> False)
              | NotPattern \<Rightarrow> (case re of Some m \<Rightarrow> \<not> m t | None \<Rightarrow> False)
              | _ \<Rightarrow> str_ord op t s))"

definition in_range :: "ext \<Rightarrow> json \<Rightarrow> qvalue \<Rightarrow> qvalue \<Rightarrow> bool" where
  "in_range E t lo hi = (case (lo, hi) of
      (QNum a, QNum b) \<Rightarrow> (case as_f64 t of Some x \<Rightarrow> a \<le> x \<and> x \<le> b | None \<Rightarrow> False)
    | (QStr a, QStr b) \<Rightarrow>
        (case as_str t of
           None \<Rightarrow> False
         | Some s \<Rightarrow>
             (case (temporal_key E s, temporal_key E a, temporal_key E b) of
                (Some tk, Some ak, Some bk) \<Rightarrow>
                  (if length tk = length ak \<and> length ak = length bk then ak \<le> tk \<and> tk \<le> bk else a \<le> s \<and> s \<le> b)
              | _ \<Rightarrow> a \<le> s \<and> s \<le> b))
    | _ \<Rightarrow> False)"

definition scalar_cmp :: "ext \<Rightarrow> (string \<Rightarrow> bool) option \<Rightarrow> json \<Rightarrow> cmp_op \<Rightarrow> qvalue \<Rightarrow> bool" where
  "scalar_cmp E re t op want =
     (if op = Ne \<and> \<not> same_datatype t want then True
      else (case want of
          QRange lo hi \<Rightarrow>
            (case op of Eq \<Rightarrow> in_range E t lo hi | Ne \<Rightarrow> \<not> in_range E t lo hi | _ \<Rightarrow> False)
        | QNum n \<Rightarrow> (case as_f64 t of Some x \<Rightarrow> num_cmp x op n | None \<Rightarrow> False)
        | QBool b \<Rightarrow>
            (case op of
               Eq \<Rightarrow> as_bool t = Some b
             | Ne \<Rightarrow> (case as_bool t of Some x \<Rightarrow> x \<noteq> b | None \<Rightarrow> False)
             | _ \<Rightarrow> False)
        | QStr s \<Rightarrow> (case as_str t of Some x \<Rightarrow> str_cmp E re x op s | None \<Rightarrow> False)
        | QList _ \<Rightarrow> False))"

text \<open>Target arrays: every element for \<open>!=\<close> and \<open>!~=\<close>, some element otherwise.\<close>

fun target_cmp :: "ext \<Rightarrow> (string \<Rightarrow> bool) option \<Rightarrow> cmp_op \<Rightarrow> qvalue \<Rightarrow> json \<Rightarrow> bool" where
  "target_cmp E re op want (JArr xs) =
     (if op = Ne \<or> op = NotPattern then list_all (target_cmp E re op want) xs
      else list_ex (target_cmp E re op want) xs)"
| "target_cmp E re op want t = scalar_cmp E re t op want"

text \<open>A value list is unfolded first, so that the array rules apply to each of its elements.\<close>

fun compare :: "ext \<Rightarrow> (string \<Rightarrow> bool) option \<Rightarrow> json \<Rightarrow> cmp_op \<Rightarrow> qvalue \<Rightarrow> bool" where
  "compare E re t op (QList vs) =
     (case op of
        Eq \<Rightarrow> list_ex (compare E re t op) vs
      | Ne \<Rightarrow> list_all (compare E re t op) vs
      | _ \<Rightarrow> False)"
| "compare E re t op v = target_cmp E re op v t"

subsection \<open>Evaluation\<close>

definition term_regex :: "ext \<Rightarrow> cmp_op \<Rightarrow> qvalue \<Rightarrow> (string \<Rightarrow> bool) option" where
  "term_regex E op v = (case v of QStr s \<Rightarrow> if is_regexp op then re_compile E s else None | _ \<Rightarrow> None)"

text \<open>\<open>iter().all\<close> and \<open>iter().any\<close> stop at the first answer, and what they skip costs no lookup.\<close>

fun all_b :: "('a \<Rightarrow> nat \<Rightarrow> bool \<times> nat) \<Rightarrow> 'a list \<Rightarrow> nat \<Rightarrow> bool \<times> nat" where
  "all_b f [] b = (True, b)"
| "all_b f (x # xs) b = (let (r, b') = f x b in if r then all_b f xs b' else (False, b'))"

fun any_b :: "('a \<Rightarrow> nat \<Rightarrow> bool \<times> nat) \<Rightarrow> 'a list \<Rightarrow> nat \<Rightarrow> bool \<times> nat" where
  "any_b f [] b = (False, b)"
| "any_b f (x # xs) b = (let (r, b') = f x b in if r then (True, b') else any_b f xs b')"

lemma all_b_cong [fundef_cong]:
  "xs = ys \<Longrightarrow> b = b' \<Longrightarrow> (\<And>x b. x \<in> set ys \<Longrightarrow> f x b = g x b) \<Longrightarrow> all_b f xs b = all_b g ys b'"
  by (induction xs arbitrary: ys b b') (auto split: prod.splits)

lemma any_b_cong [fundef_cong]:
  "xs = ys \<Longrightarrow> b = b' \<Longrightarrow> (\<And>x b. x \<in> set ys \<Longrightarrow> f x b = g x b) \<Longrightarrow> any_b f xs b = any_b g ys b'"
  by (induction xs arbitrary: ys b b') (auto split: prod.splits)

definition eval_leaf :: "ext \<Rightarrow> jctx \<Rightarrow> (string \<Rightarrow> json option) \<Rightarrow> json \<Rightarrow> qnode \<Rightarrow> nat \<Rightarrow> bool \<times> nat" where
  "eval_leaf E c lookup entity n b = (case n of
      Exists p neg \<Rightarrow>
        (let (ts, b') = resolve_qpath c lookup p entity b in ((ts \<noteq> []) \<noteq> neg, b'))
    | Cmp p op v \<Rightarrow>
        (let (ts, b') = resolve_qpath c lookup p entity b
         in (list_ex (\<lambda>(k, t). kind_allows k op \<and> compare E (term_regex E op v) t op v) ts, b'))
    | _ \<Rightarrow> (False, b))"

fun eval_node :: "ext \<Rightarrow> jctx \<Rightarrow> (string \<Rightarrow> json option) \<Rightarrow> json \<Rightarrow> qnode \<Rightarrow> nat \<Rightarrow> bool \<times> nat" where
  "eval_node E c lookup entity (And ns) b = all_b (eval_node E c lookup entity) ns b"
| "eval_node E c lookup entity (Or ns) b = any_b (eval_node E c lookup entity) ns b"
| "eval_node E c lookup entity n b = eval_leaf E c lookup entity n b"

definition eval_q :: "ext \<Rightarrow> jctx \<Rightarrow> (string \<Rightarrow> json option) \<Rightarrow> json \<Rightarrow> qnode \<Rightarrow> bool" where
  "eval_q E c lookup entity n = fst (eval_node E c lookup entity n MAX_Q_LINK_LOOKUPS)"

subsection \<open>Value expansion\<close>

fun expand_val :: "jctx \<Rightarrow> qvalue \<Rightarrow> qvalue" where
  "expand_val c (QStr s) = QStr (expand_key c s)"
| "expand_val c (QList vs) = QList (map (expand_val c) vs)"
| "expand_val c v = v"

fun expand_walk :: "jctx \<Rightarrow> string list \<Rightarrow> qnode \<Rightarrow> qnode" where
  "expand_walk c names (And ns) = And (map (expand_walk c names) ns)"
| "expand_walk c names (Or ns) = Or (map (expand_walk c names) ns)"
| "expand_walk c names (Cmp p op v) =
     (if (case top p of Some t \<Rightarrow> List.member names t | None \<Rightarrow> False) then Cmp p op (expand_val c v)
      else Cmp p op v)"
| "expand_walk c names n = n"

definition comma_list :: "string \<Rightarrow> string list" where
  "comma_list s = map trim (split_on (\<lambda>c. c = CHR '','') s)"

definition apply_expand_values :: "jctx \<Rightarrow> string option \<Rightarrow> qnode \<Rightarrow> qnode" where
  "apply_expand_values c vs n = (case vs of None \<Rightarrow> n | Some l \<Rightarrow> expand_walk c (comma_list l) n)"

definition expansion_list :: "string option \<Rightarrow> string option \<Rightarrow> string option" where
  "expansion_list expand_values json_keys = (case expand_values of
      None \<Rightarrow> None
    | Some names \<Rightarrow> (case json_keys of
        None \<Rightarrow> Some names
      | Some raw \<Rightarrow> (let kept = filter (\<lambda>n. \<not> List.member (comma_list raw) n) (comma_list names)
                     in if kept = [] then None else Some (join '','' kept))))"

definition type_selection_matches :: "jctx \<Rightarrow> string \<Rightarrow> string list \<Rightarrow> bool" where
  "type_selection_matches c sel tys =
     list_ex (\<lambda>alt. list_all (\<lambda>t. List.member tys (expand_key c (trim t)))
         (split_on (\<lambda>c. c = CHR '';'')
            (trim_end_matches CHR '')'' (trim_start_matches CHR ''('' (trim alt)))))
       (split_on (\<lambda>c. c = CHR '','' \<or> c = CHR ''|'') sel)"

subsection \<open>Rendering and reading back keeps the meaning\<close>

lemma all_b_append: "all_b f (xs @ ys) b = (let (r, b') = all_b f xs b in if r then all_b f ys b' else (False, b'))"
  by (induction xs arbitrary: b) (auto split: prod.splits)

lemma all_b_concat:
  assumes "\<And>x b. x \<in> set xs \<Longrightarrow> all_b f (g x) b = f x b"
  shows "all_b f (concat (map g xs)) b = all_b f xs b"
  using assms by (induction xs arbitrary: b) (auto simp: all_b_append split: prod.splits)

lemma all_b_single [simp]: "all_b f [x] b = f x b"
  by (simp split: prod.splits)

lemma any_b_single [simp]: "any_b f [x] b = f x b"
  by (simp split: prod.splits)

lemma any_b_map: "any_b f (map g xs) b = any_b (\<lambda>x. f (g x)) xs b"
  by (induction xs arbitrary: b) (auto split: prod.splits)

lemma eval_mk_and: "eval_node E c lk e (mk_and ns) b = all_b (eval_node E c lk e) ns b"
  by (auto simp: mk_and_def split: list.splits simp del: all_b.simps)

lemma eval_mk_or: "eval_node E c lk e (mk_or ns) b = any_b (eval_node E c lk e) ns b"
  by (auto simp: mk_or_def split: list.splits simp del: any_b.simps)

lemma eval_terms:
  "all_b (eval_node E c lk e) (and_terms n) b = eval_node E c lk e n b
   \<and> eval_node E c lk e (canon n) b = eval_node E c lk e n b"
proof (induction n arbitrary: b)
  case (And ns)
  have "all_b (eval_node E c lk e) (concat (map and_terms ns)) b = all_b (eval_node E c lk e) ns b" for b
    by (rule all_b_concat) (use And in blast)
  then show ?case by (simp add: eval_mk_and)
next
  case (Or ns)
  have "any_b (eval_node E c lk e) (map canon ns) b = any_b (eval_node E c lk e) ns b"
    unfolding any_b_map by (rule any_b_cong) (use Or in auto)
  then show ?case by (simp add: eval_mk_or del: all_b.simps)
qed (simp_all del: all_b.simps)

lemma eval_canon: "eval_q E c lk e (canon n) = eval_q E c lk e n"
  by (simp add: eval_q_def eval_terms)

subsection \<open>Unequal is not equal\<close>

lemma scalar_cmp_Ne:
  assumes "\<And>vs. v \<noteq> QList vs"
  shows "scalar_cmp E re t Ne v \<longleftrightarrow> \<not> scalar_cmp E re t Eq v"
proof (cases v)
  case (QRange lo hi)
  have "in_range E t lo hi \<Longrightarrow> same_datatype t lo"
    by (cases lo; cases hi; cases t) (auto simp: in_range_def)
  with QRange show ?thesis by (auto simp: scalar_cmp_def)
next
  case (QStr s)
  then show ?thesis by (cases t) (simp_all add: scalar_cmp_def str_cmp_def)
next
  case (QNum n)
  then show ?thesis by (cases t) (simp_all add: scalar_cmp_def)
next
  case (QBool b)
  then show ?thesis by (cases t) (simp_all add: scalar_cmp_def)
next
  case (QList vs)
  with assms [of vs] show ?thesis by simp
qed

lemma target_cmp_Ne:
  assumes "\<And>vs. v \<noteq> QList vs"
  shows "target_cmp E re Ne v t \<longleftrightarrow> \<not> target_cmp E re Eq v t"
proof (induction t)
  case (JArr xs)
  then show ?case by (auto simp: list_all_iff list_ex_iff)
qed (simp_all add: scalar_cmp_Ne [OF assms])

lemma compare_Ne: "compare E re t Ne v \<longleftrightarrow> \<not> compare E re t Eq v"
proof (induction v)
  case (QList vs)
  then show ?case by (auto simp: list_all_iff list_ex_iff)
qed (simp_all add: target_cmp_Ne)

subsection \<open>The lookup budget\<close>

text \<open>\<open>bounded f\<close>: what \<open>f\<close> computes from a store and a budget depends on the store at a list of URIs no
  longer than the budget it uses up.\<close>

definition agree :: "string list \<Rightarrow> (string \<Rightarrow> json option) \<Rightarrow> (string \<Rightarrow> json option) \<Rightarrow> bool" where
  "agree us l l' \<longleftrightarrow> (\<forall>u\<in>set us. l' u = l u)"

definition bounded :: "((string \<Rightarrow> json option) \<Rightarrow> nat \<Rightarrow> 'a \<times> nat) \<Rightarrow> bool" where
  "bounded f \<longleftrightarrow> (\<forall>l b. \<exists>us. length us + snd (f l b) \<le> b \<and> (\<forall>l'. agree us l l' \<longrightarrow> f l' b = f l b))"

lemma boundedI:
  "(\<And>l b. \<exists>us. length us + snd (f l b) \<le> b \<and> (\<forall>l'. agree us l l' \<longrightarrow> f l' b = f l b)) \<Longrightarrow> bounded f"
  by (auto simp: bounded_def)

lemma boundedE:
  assumes "bounded f"
  obtains us where "length us + snd (f l b) \<le> b" "\<And>l'. agree us l l' \<Longrightarrow> f l' b = f l b"
  using assms unfolding bounded_def by blast

lemma agree_append: "agree (us @ vs) l l' \<longleftrightarrow> agree us l l' \<and> agree vs l l'"
  by (auto simp: agree_def)

lemma bounded_const: "bounded (\<lambda>l b. (x, b))"
  by (rule boundedI) (rule exI [of _ "[]"], simp)

lemma bounded_if: "bounded f \<Longrightarrow> bounded g \<Longrightarrow> bounded (\<lambda>l b. if r then f l b else g l b)"
  by (cases r) simp_all

lemma bounded_bind:
  assumes "bounded f" "\<And>x. bounded (g x)"
  shows "bounded (\<lambda>l b. let (x, b') = f l b in g x l b')"
proof (rule boundedI)
  fix l b
  obtain x b' where f: "f l b = (x, b')" by (cases "f l b")
  obtain us where us: "length us + b' \<le> b" "\<And>l'. agree us l l' \<Longrightarrow> f l' b = (x, b')"
    using boundedE [OF assms(1), of l b] f by (metis snd_conv)
  obtain vs where vs: "length vs + snd (g x l b') \<le> b'" "\<And>l'. agree vs l l' \<Longrightarrow> g x l' b' = g x l b'"
    using boundedE [OF assms(2), of x l b'] by blast
  show "\<exists>ws. length ws + snd (let (x, b') = f l b in g x l b') \<le> b \<and>
      (\<forall>l'. agree ws l l' \<longrightarrow> (let (x, b') = f l' b in g x l' b') = (let (x, b') = f l b in g x l b'))"
    by (rule exI [of _ "us @ vs"]) (use f us vs in \<open>auto simp: agree_append\<close>)
qed

lemma bounded_hop:
  assumes "\<And>e. bounded (\<lambda>l. walk l e)"
  shows "bounded (\<lambda>l. hop_loop l ok (walk l) us)"
proof (induction us)
  case Nil
  show ?case using bounded_const [of "[]"] by (simp add: bounded_def)
next
  case (Cons u us)
  show ?case
  proof (rule boundedI)
    fix l b
    show "\<exists>ws. length ws + snd (hop_loop l ok (walk l) (u # us) b) \<le> b \<and>
      (\<forall>l'. agree ws l l' \<longrightarrow> hop_loop l' ok (walk l') (u # us) b = hop_loop l ok (walk l) (u # us) b)"
    proof (cases b)
      case 0
      then show ?thesis by (intro exI [of _ "[]"]) simp
    next
      case (Suc n)
      have tl: "\<exists>ws. length ws + snd (h l n) \<le> n \<and> (\<forall>l'. agree ws l l' \<longrightarrow> h l' n = h l n)"
        if "bounded h" for h :: "(string \<Rightarrow> json option) \<Rightarrow> nat \<Rightarrow> target list \<times> nat"
        using that by (auto simp: bounded_def)
      define h where "h = (\<lambda>k. case l u of
          None \<Rightarrow> hop_loop k ok (walk k) us
        | Some e \<Rightarrow> (if \<not> ok e then hop_loop k ok (walk k) us
             else (\<lambda>b. let (ts, b') = walk k e b in
                (\<lambda>ts k b. let (ts', b'') = hop_loop k ok (walk k) us b in (ts @ ts', b'')) ts k b')))"
      have step: "bounded (\<lambda>k b. let (ts', b'') = hop_loop k ok (walk k) us b in (ts @ ts', b''))" for ts
        by (rule bounded_bind [OF Cons bounded_const])
      have walk: "bounded (\<lambda>l b. let (ts, b') = walk l e b in
          (\<lambda>ts k b. let (ts', b'') = hop_loop k ok (walk k) us b in (ts @ ts', b'')) ts l b')" for e
        by (rule bounded_bind [OF assms step])
      have "bounded h"
      proof (cases "\<exists>e. l u = Some e \<and> ok e")
        case True
        then obtain e where "l u = Some e" "ok e" by blast
        then have "h = (\<lambda>k b. let (ts, b') = walk k e b in
            (\<lambda>ts k b. let (ts', b'') = hop_loop k ok (walk k) us b in (ts @ ts', b'')) ts k b')"
          by (simp add: h_def)
        with walk [of e] show ?thesis by simp
      next
        case False
        then have "h = (\<lambda>k. hop_loop k ok (walk k) us)" by (auto simp: h_def split: option.splits)
        with Cons show ?thesis by simp
      qed
      then obtain ws where ws: "length ws + snd (h l n) \<le> n" "\<And>l'. agree ws l l' \<Longrightarrow> h l' n = h l n"
        using tl by blast
      have eq: "hop_loop k ok (walk k) (u # us) b = h k n" if "k u = l u" for k
        using that by (auto simp: Suc h_def split: option.splits prod.splits)
      have here: "hop_loop l ok (walk l) (u # us) b = h l n" by (rule eq) simp
      have there: "hop_loop l' ok (walk l') (u # us) b = h l n" if "agree (u # ws) l l'" for l'
      proof -
        have "l' u = l u" "agree ws l l'" using that by (simp_all add: agree_def)
        then show ?thesis using eq ws(2) by metis
      qed
      show ?thesis
      proof (intro exI [of _ "u # ws"] conjI allI impI)
        show "length (u # ws) + snd (hop_loop l ok (walk l) (u # us) b) \<le> b"
          using ws(1) Suc unfolding here by simp
      next
        fix l'
        assume "agree (u # ws) l l'"
        from there [OF this] here
        show "hop_loop l' ok (walk l') (u # us) b = hop_loop l ok (walk l) (u # us) b" by simp
      qed
    qed
  qed
qed

lemma bounded_links: "bounded (\<lambda>l. resolve_links ls c l p br e)"
proof (induction ls arbitrary: e)
  case Nil
  show ?case using bounded_const by (simp add: bounded_def)
next
  case (Cons k ls)
  show ?case
  proof (cases "Option.bind (jget e (expand_key c (attr k))) as_array")
    case None
    then show ?thesis using bounded_const by (simp add: bounded_def)
  next
    case (Some insts)
    have "resolve_links (k # ls) c l p br e =
        hop_loop l (type_hint_ok c (types k)) (resolve_links ls c l p br) (concat (map instance_uris insts))" for l
      by (rule ext) (simp add: Some)
    then show ?thesis using bounded_hop [OF Cons] by simp
  qed
qed

lemma bounded_resolve: "bounded (\<lambda>l. resolve_qpath c l q e)"
  using bounded_links by (simp add: resolve_qpath_def)

lemma bounded_all:
  "(\<And>x. x \<in> set xs \<Longrightarrow> bounded (\<lambda>l. f l x)) \<Longrightarrow> bounded (\<lambda>l. all_b (f l) xs)"
proof (induction xs)
  case (Cons x xs)
  have "bounded (\<lambda>l b. let (r, b') = f l x b in (\<lambda>r l b. if r then all_b (f l) xs b else (False, b)) r l b')"
    using Cons by (intro bounded_bind bounded_if bounded_const) auto
  then show ?case by (simp add: bounded_def)
qed (use bounded_const [of True] in \<open>simp add: bounded_def\<close>)

lemma bounded_any:
  "(\<And>x. x \<in> set xs \<Longrightarrow> bounded (\<lambda>l. f l x)) \<Longrightarrow> bounded (\<lambda>l. any_b (f l) xs)"
proof (induction xs)
  case (Cons x xs)
  have "bounded (\<lambda>l b. let (r, b') = f l x b in (\<lambda>r l b. if r then (True, b) else any_b (f l) xs b) r l b')"
    using Cons by (intro bounded_bind bounded_if bounded_const) auto
  then show ?case by (simp add: bounded_def)
qed (use bounded_const [of False] in \<open>simp add: bounded_def\<close>)

lemma bounded_eval: "bounded (\<lambda>l. eval_node E c l e n)"
proof (induction n)
  case (And ns)
  then show ?case using bounded_all [of ns "\<lambda>l. eval_node E c l e"] by (simp add: bounded_def)
next
  case (Or ns)
  then show ?case using bounded_any [of ns "\<lambda>l. eval_node E c l e"] by (simp add: bounded_def)
next
  case (Cmp p op v)
  show ?case using bounded_bind [OF bounded_resolve [of c p e],
      of "\<lambda>ts l b. (list_ex (\<lambda>(k, t). kind_allows k op \<and> compare E (term_regex E op v) t op v) ts, b)"]
    bounded_const by (simp add: bounded_def eval_leaf_def)
next
  case (Exists p neg)
  show ?case using bounded_bind [OF bounded_resolve [of c p e], of "\<lambda>ts l b. ((ts \<noteq> []) \<noteq> neg, b)"]
    bounded_const by (simp add: bounded_def eval_leaf_def)
qed

lemma eval_q_lookups:
  "\<exists>us. length us \<le> MAX_Q_LINK_LOOKUPS \<and> (\<forall>l'. agree us l l' \<longrightarrow> eval_q E c l' e n = eval_q E c l e n)"
proof -
  obtain us where "length us + snd (eval_node E c l e n MAX_Q_LINK_LOOKUPS) \<le> MAX_Q_LINK_LOOKUPS"
    "\<And>l'. agree us l l' \<Longrightarrow> eval_node E c l' e n MAX_Q_LINK_LOOKUPS = eval_node E c l e n MAX_Q_LINK_LOOKUPS"
    using boundedE [OF bounded_eval [of E c e n], of l MAX_Q_LINK_LOOKUPS] by blast
  then show ?thesis by (intro exI [of _ us]) (auto simp: eval_q_def)
qed

end
