(* ===== verification/Scope.thy ===== *)
theory Scope
  imports Model
begin

text \<open>
  Scope queries of clause 4.19 (\<open>antares-ql/src/scope.rs\<close>): evaluation over the \<open>scope\<close> member and the
  intersection of two queries.
\<close>

definition MAX_SCOPE_Q_BYTES :: nat where "MAX_SCOPE_Q_BYTES = 4096"

definition ANY_SCOPE :: string where "ANY_SCOPE = ''/#''"

definition segments :: "string \<Rightarrow> string list" where
  "segments s = filter (\<lambda>w. w \<noteq> []) (split_on (\<lambda>c. c = CHR ''/'') s)"

text \<open>The loop over the pattern's segments, the scope's position being the segments left.\<close>

fun match_segs :: "string list \<Rightarrow> string list \<Rightarrow> bool" where
  "match_segs [] ss = (ss = [])"
| "match_segs (p # ps) ss =
     (if p = ''#'' then ps = []
      else (case ss of [] \<Rightarrow> False
            | s # ss' \<Rightarrow> if p \<noteq> ''+'' \<and> p \<noteq> s then False else match_segs ps ss'))"

definition scope_pattern_matches :: "string \<Rightarrow> string \<Rightarrow> bool" where
  "scope_pattern_matches pat scope \<longleftrightarrow>
     (if pat = ANY_SCOPE then True else match_segs (segments pat) (segments scope))"

definition is_or_sep :: "char \<Rightarrow> bool" where
  "is_or_sep c \<longleftrightarrow> c = CHR '','' \<or> c = CHR ''|''"

definition unparen :: "string \<Rightarrow> string" where
  "unparen s = trim_end_matches CHR '')'' (trim_start_matches CHR ''('' (trim s))"

definition doc_scopes :: "json \<Rightarrow> string list" where
  "doc_scopes doc = (case jget doc ''scope'' of
      Some (JArr a) \<Rightarrow> List.map_filter as_str a
    | Some (JStr s) \<Rightarrow> [s]
    | _ \<Rightarrow> [])"

definition scope_group_matches :: "string list \<Rightarrow> string \<Rightarrow> bool" where
  "scope_group_matches scopes g =
     list_all (\<lambda>pat. list_ex (scope_pattern_matches (trim pat)) scopes)
       (split_on (\<lambda>c. c = CHR '';'') g)"

definition scope_matches :: "string \<Rightarrow> json \<Rightarrow> bool" where
  "scope_matches q doc = list_ex (\<lambda>g. scope_group_matches (doc_scopes doc) (unparen g)) (split_on is_or_sep q)"

definition scope_groups :: "string \<Rightarrow> string list" where
  "scope_groups s = filter (\<lambda>g. g \<noteq> []) (map (\<lambda>g. trim (unparen g)) (split_on is_or_sep s))"

definition pair_term :: "string \<Rightarrow> string \<Rightarrow> string" where
  "pair_term x y =
     (if x = ANY_SCOPE \<and> y = ANY_SCOPE then ANY_SCOPE
      else if x = ANY_SCOPE then y
      else if y = ANY_SCOPE then x
      else ''('' @ x @ '';'' @ y @ '')'')"

text \<open>The two nested loops over the product, giving up as soon as the text is too long.\<close>

fun add_pairs :: "(string \<times> string) list \<Rightarrow> string \<Rightarrow> string option" where
  "add_pairs [] out = Some out"
| "add_pairs ((x, y) # ps) out =
     (let out' = (if out = [] then [] else out @ '','') @ pair_term x y
      in if MAX_SCOPE_Q_BYTES < length out' then None else add_pairs ps out')"

definition intersect_scope_q :: "string \<Rightarrow> string \<Rightarrow> string option" where
  "intersect_scope_q a b =
     (let ga = scope_groups a; gb = scope_groups b in
      if ga = [] \<or> gb = [] then None else add_pairs (List.product ga gb) [])"

subsection \<open>The intersection selects what both select\<close>

lemma set_trim: "set (trim s) \<subseteq> set s"
proof -
  have "set (trim_with toks u) \<subseteq> set u" for toks u by (metis set_append sup_ge2 trim_with_suffix)
  from this [of "map rev ws_tokens" "rev (trim_start s)"] this [of ws_tokens s]
  show ?thesis by (auto simp: trim_def trim_start_def trim_end_def)
qed

lemma set_unparen: "set (unparen s) \<subseteq> set s"
  using set_trim [of s] by (auto simp: unparen_def trim_start_matches_def trim_end_matches_def dest!: set_dropWhileD)

lemma unparen_ends:
  "unparen s \<noteq> [] \<Longrightarrow> hd (unparen s) \<noteq> CHR ''('' \<and> last (unparen s) \<noteq> CHR '')''"
proof -
  assume ne: "unparen s \<noteq> []"
  define u where "u = dropWhile (\<lambda>x. x = CHR ''('') (trim s)"
  have un: "unparen s = rev (dropWhile (\<lambda>x. x = CHR '')'') (rev u))"
    by (simp add: unparen_def trim_start_matches_def trim_end_matches_def u_def)
  with ne have d: "dropWhile (\<lambda>x. x = CHR '')'') (rev u) \<noteq> []" by simp
  then have "last (unparen s) \<noteq> CHR '')''" using hd_dropWhile [OF d] un by (simp add: last_rev)
  moreover obtain p where "rev u = p @ dropWhile (\<lambda>x. x = CHR '')'') (rev u)"
    by (metis takeWhile_dropWhile_id)
  then have "u = unparen s @ rev p" using un by (metis rev_append rev_rev_ident)
  then have "hd (unparen s) = hd u" "u \<noteq> []" using ne by auto
  then have "hd (unparen s) \<noteq> CHR ''(''"
    using hd_dropWhile [of "\<lambda>x. x = CHR ''(''" "trim s"] unfolding u_def [symmetric] by simp
  ultimately show ?thesis by blast
qed

text \<open>A query with no empty group and no blank just inside a group's parentheses.\<close>

definition clean_scope_q :: "string \<Rightarrow> bool" where
  "clean_scope_q q = list_all (\<lambda>g. unparen g \<noteq> [] \<and> trim (unparen g) = unparen g) (split_on is_or_sep q)"

definition group_ok :: "string \<Rightarrow> bool" where
  "group_ok g \<longleftrightarrow> g \<noteq> [] \<and> trim g = g \<and> hd g \<noteq> CHR ''('' \<and> last g \<noteq> CHR '')'' \<and> (\<forall>c\<in>set g. \<not> is_or_sep c)"

lemma clean_groups:
  assumes "clean_scope_q q"
  shows "scope_groups q = map unparen (split_on is_or_sep q)" "list_all group_ok (scope_groups q)"
proof -
  show eq: "scope_groups q = map unparen (split_on is_or_sep q)"
  proof -
    have m: "map (\<lambda>g. trim (unparen g)) (split_on is_or_sep q) = map unparen (split_on is_or_sep q)"
      using assms by (intro map_cong) (simp_all add: clean_scope_q_def list_all_iff)
    have f: "filter (\<lambda>g. g \<noteq> []) (map unparen (split_on is_or_sep q)) = map unparen (split_on is_or_sep q)"
      using assms by (simp add: clean_scope_q_def list_all_iff filter_id_conv)
    show ?thesis unfolding scope_groups_def m by (rule f)
  qed
  have "group_ok (unparen g)" if g: "g \<in> set (split_on is_or_sep q)" for g
    using assms g set_unparen [of g] split_on_pieces [OF g] unparen_ends [of g]
    unfolding group_ok_def clean_scope_q_def list_all_iff by blast
  then show "list_all group_ok (scope_groups q)" unfolding eq by (simp add: list_all_iff)
qed

lemma scope_matches_groups:
  "clean_scope_q q \<Longrightarrow> scope_matches q doc = list_ex (scope_group_matches (doc_scopes doc)) (scope_groups q)"
  by (simp add: scope_matches_def clean_groups(1) list_ex_iff)

lemma unparen_group: "group_ok g \<Longrightarrow> unparen g = g"
proof -
  assume g: "group_ok g"
  have st: "dropWhile (\<lambda>x. x = c) u = u" if "u \<noteq> []" "hd u \<noteq> c" for c and u :: string
    using that by (cases u) simp_all
  have "dropWhile (\<lambda>x. x = CHR ''('') g = g" "dropWhile (\<lambda>x. x = CHR '')'') (rev g) = rev g"
    using g by (auto intro!: st simp: group_ok_def hd_rev)
  with g show ?thesis
    by (simp add: unparen_def group_ok_def trim_start_matches_def trim_end_matches_def)
qed

lemma group_conj:
  "scope_group_matches ss (x @ CHR '';'' # y) \<longleftrightarrow> scope_group_matches ss x \<and> scope_group_matches ss y"
  by (simp add: scope_group_matches_def split_on_append_any)

lemma any_scope: "scope_group_matches ss ANY_SCOPE \<longleftrightarrow> ss \<noteq> []"
proof -
  have "split_on (\<lambda>c. c = CHR '';'') ANY_SCOPE = [ANY_SCOPE]" by (simp add: ANY_SCOPE_def)
  moreover have "trim ANY_SCOPE = ANY_SCOPE" by code_simp
  ultimately show ?thesis
    by (simp add: scope_group_matches_def scope_pattern_matches_def list_ex_iff ex_in_conv)
qed

lemma group_needs_scope: "scope_group_matches ss g \<Longrightarrow> ss \<noteq> []"
  using split_on_neq_Nil by (cases "split_on (\<lambda>c. c = CHR '';'') g") (auto simp: scope_group_matches_def)

lemma unparen_pair:
  assumes "group_ok x" "group_ok y"
  shows "unparen (''('' @ x @ '';'' @ y @ '')'') = x @ '';'' @ y"
proof -
  have "trim (''('' @ x @ '';'' @ y @ '')'') = ''('' @ x @ '';'' @ y @ '')''"
    using starts_clean_ascii [of "CHR ''(''" "x @ '';'' @ y @ '')''"] ends_clean_ascii [of "CHR '')''" "''('' @ x @ '';'' @ y"]
    by (intro trim_clean) (simp_all add: is_ascii_def ascii_ws_def)
  moreover obtain c r where "x = c # r" "c \<noteq> CHR ''(''" using assms(1) by (cases x) (auto simp: group_ok_def)
  moreover obtain d b where "y = b @ [d]" "d \<noteq> CHR '')''" using assms(2) by (cases y rule: rev_cases) (auto simp: group_ok_def)
  ultimately show ?thesis by (simp add: unparen_def trim_start_matches_def trim_end_matches_def)
qed

lemma group_ok_any: "group_ok ANY_SCOPE"
  by code_simp

lemma pair_term_matches:
  assumes "group_ok x" "group_ok y"
  shows "scope_group_matches ss (unparen (pair_term x y)) \<longleftrightarrow> scope_group_matches ss x \<and> scope_group_matches ss y"
  using assms group_conj [of ss x y] any_scope [of ss] group_needs_scope [of ss]
  by (auto simp: pair_term_def unparen_group unparen_pair [simplified])

lemma pair_term_text:
  assumes "group_ok x" "group_ok y"
  shows "pair_term x y \<noteq> []" "\<forall>c\<in>set (pair_term x y). \<not> is_or_sep c"
  using assms by (auto simp: pair_term_def group_ok_def is_or_sep_def)

lemma add_pairs_terms:
  assumes "add_pairs ps out = Some r" "\<forall>(x, y)\<in>set ps. group_ok x \<and> group_ok y" "ps \<noteq> [] \<or> out \<noteq> []"
  shows "split_on is_or_sep r = (if out = [] then [] else split_on is_or_sep out) @ map (\<lambda>(x, y). pair_term x y) ps"
  using assms
proof (induction ps out rule: add_pairs.induct)
  case (2 x y ps out)
  define t where "t = pair_term x y"
  define out' where "out' = (if out = [] then [] else out @ '','') @ t"
  have t: "t \<noteq> []" "\<forall>c\<in>set t. \<not> is_or_sep c" using pair_term_text 2(3) by (auto simp: t_def)
  have r: "add_pairs ps out' = Some r" "\<not> MAX_SCOPE_Q_BYTES < length out'"
    using 2(2) by (auto simp: Let_def out'_def t_def split: if_splits)
  have "split_on is_or_sep r = (if out' = [] then [] else split_on is_or_sep out') @ map (\<lambda>(x, y). pair_term x y) ps"
    using 2(1) [OF out'_def [unfolded t_def] r(2) r(1)] 2(3) t by (auto simp: out'_def)
  moreover have "split_on is_or_sep out' = (if out = [] then [] else split_on is_or_sep out) @ [t]"
    using split_on_append_any [of is_or_sep "CHR '',''" out t, unfolded split_on_no_sep [OF t(2)]] split_on_no_sep [OF t(2)]
    by (simp add: out'_def, simp add: is_or_sep_def [of "CHR '',''"])
  moreover have "out' \<noteq> []" using t by (simp add: out'_def)
  ultimately show ?case by (simp add: t_def)
qed simp

lemma add_pairs_length: "add_pairs ps out = Some r \<Longrightarrow> ps \<noteq> [] \<Longrightarrow> length r \<le> MAX_SCOPE_Q_BYTES"
proof (induction ps out rule: add_pairs.induct)
  case (2 x y ps out)
  then show ?case by (cases "ps = []") (auto simp: Let_def split: if_splits)
qed simp

lemma intersect_matches:
  assumes "intersect_scope_q a b = Some r" "clean_scope_q a" "clean_scope_q b"
  shows "scope_matches r doc \<longleftrightarrow> scope_matches a doc \<and> scope_matches b doc"
proof -
  let ?ps = "List.product (scope_groups a) (scope_groups b)"
  have ga: "list_all group_ok (scope_groups a)" and gb: "list_all group_ok (scope_groups b)"
    using clean_groups(2) assms(2,3) by blast+
  have r: "add_pairs ?ps [] = Some r" and ne: "scope_groups a \<noteq> []" "scope_groups b \<noteq> []"
    using assms(1) by (auto simp: intersect_scope_q_def Let_def split: if_splits)
  have pne: "?ps \<noteq> []" using ne by (cases "scope_groups a"; cases "scope_groups b") auto
  have ok: "\<forall>(x, y)\<in>set ?ps. group_ok x \<and> group_ok y" using ga gb by (auto simp: list_all_iff)
  have "split_on is_or_sep r = map (\<lambda>(x, y). pair_term x y) ?ps"
    using add_pairs_terms [OF r ok] pne by simp
  then have "scope_matches r doc \<longleftrightarrow>
      (\<exists>x\<in>set (scope_groups a). \<exists>y\<in>set (scope_groups b). scope_group_matches (doc_scopes doc) (unparen (pair_term x y)))"
    by (auto simp: scope_matches_def list_ex_iff)
  also have "\<dots> \<longleftrightarrow> (\<exists>x\<in>set (scope_groups a). \<exists>y\<in>set (scope_groups b).
      scope_group_matches (doc_scopes doc) x \<and> scope_group_matches (doc_scopes doc) y)"
    using ga gb by (auto simp: list_all_iff pair_term_matches)
  finally show ?thesis using assms(2,3) by (auto simp: scope_matches_groups list_ex_iff)
qed

lemma intersect_bounded: "intersect_scope_q a b = Some r \<Longrightarrow> length r \<le> MAX_SCOPE_Q_BYTES"
  using add_pairs_length [of "List.product (scope_groups a) (scope_groups b)" "[]" r]
  by (cases "scope_groups a"; cases "scope_groups b") (auto simp: intersect_scope_q_def Let_def split: if_splits)

end
