(* ===== verification/Policy.thy ===== *)
theory Policy
  imports QEval Scope
begin

text \<open>
  The policy seam (\<open>antares-api/src/policy.rs\<close>): what an engine may answer, how the broker resolves,
  bounds and applies the answer, and the subject a stored document belongs to.  An engine is code outside
  the broker; calling it gives an \<open>engine_run\<close>.  HTTP headers and query parameters are association lists
  and maps; metrics and log lines are left out.
\<close>

record pfilter =
  f_q :: "qnode option"
  f_scope_q :: "string option"
  f_omit :: "string list"
  f_pick :: "string list"
  f_restricted :: bool

definition default_filter :: pfilter where
  "default_filter = \<lparr>f_q = None, f_scope_q = None, f_omit = [], f_pick = [], f_restricted = False\<rparr>"

datatype decision = Allow | Deny string | Narrow pfilter

datatype notify_decision = Deliver | NFilter pfilter | NDrop

definition ENGINE_TIMED_OUT :: string where
  "ENGINE_TIMED_OUT = ''the policy engine did not answer in time''"

definition ENGINE_FAILED :: string where
  "ENGINE_FAILED = ''the policy engine failed''"

definition WHOLE_TENANT :: "string list" where
  "WHOLE_TENANT = [''5.6.21'', ''5.16.1'', ''5.16.2'', ''5.16.7'']"

definition FILTERABLE :: "string list" where
  "FILTERABLE = [''5.7.1'', ''5.7.2'', ''5.7.3'', ''5.7.4'', ''5.14.4'', ''5.14.5'']"

definition FRAME :: "string list" where
  "FRAME = [''id'', ''type'', ''@context'']"

definition RESTRICTED_HEADER :: string where
  "RESTRICTED_HEADER = ''Antares-Results-Restricted''"

definition SCOPE_NOT_NARROWABLE :: string where
  "SCOPE_NOT_NARROWABLE = ''the request's own scope query cannot be narrowed by the policy engine''"

subsection \<open>Applying a filter\<close>

definition project :: "pfilter \<Rightarrow> json \<Rightarrow> json" where
  "project f doc = (case doc of
      JObj m \<Rightarrow>
        (let kept = (if f_pick f = [] then m
                     else filter (\<lambda>e. List.member FRAME (fst e) \<or> List.member (f_pick f) (fst e)) m)
         in JObj (fold (\<lambda>name o'. if List.member FRAME name then o' else bm_remove name o') (f_omit f) kept))
    | _ \<Rightarrow> doc)"

definition filter_is_empty :: "pfilter \<Rightarrow> bool" where
  "filter_is_empty f \<longleftrightarrow> f_q f = None \<and> f_scope_q f = None \<and> f_omit f = [] \<and> f_pick f = []"

definition mark_restricted :: "pfilter \<Rightarrow> string bmap \<Rightarrow> string bmap" where
  "mark_restricted f headers = (if f_restricted f then bm_insert RESTRICTED_HEADER ''true'' headers else headers)"

definition narrow_params :: "ext \<Rightarrow> pfilter \<Rightarrow> string bmap \<Rightarrow> (string, string bmap) result" where
  "narrow_params E f params =
     and_then
       (case f_q f of
          None \<Rightarrow> Ok params
        | Some extra \<Rightarrow>
            (case bm_get params ''q'' of
               None \<Rightarrow> Ok (bm_insert ''q'' (render E extra) params)
             | Some q \<Rightarrow>
                 (case parse_q E q of
                    Inl _ \<Rightarrow> Err ENGINE_FAILED
                  | Inr own \<Rightarrow> Ok (bm_insert ''q'' (render E (And [own, extra])) params))))
       (\<lambda>out.
        case f_scope_q f of
          None \<Rightarrow> Ok out
        | Some scope \<Rightarrow>
            (case bm_get out ''scopeQ'' of
               None \<Rightarrow> Ok (bm_insert ''scopeQ'' scope out)
             | Some own \<Rightarrow>
                 (case intersect_scope_q own scope of
                    None \<Rightarrow> Err SCOPE_NOT_NARROWABLE
                  | Some n \<Rightarrow> Ok (bm_insert ''scopeQ'' n out))))"

subsection \<open>Asking the engine\<close>

text \<open>What happens when the engine is called: the call that builds the future panics, the future panics,
  it does not finish in time, or it answers.\<close>

datatype engine_run = BuildPanics | FuturePanics | TimesOut | Answers decision

definition resolve :: "string \<Rightarrow> decision \<Rightarrow> decision" where
  "resolve clause d = (case d of
      Narrow f \<Rightarrow>
        (if List.member FILTERABLE clause then d
         else if filter_is_empty f then Allow
         else if List.member WHOLE_TENANT clause
         then Deny (clause @ '' acts on everything the tenant holds and cannot be narrowed'')
         else Deny (clause @ '' is performed whole or not at all and cannot be narrowed''))
    | _ \<Rightarrow> d)"

fun decide :: "string \<Rightarrow> engine_run \<Rightarrow> decision" where
  "decide clause BuildPanics = Deny ENGINE_FAILED"
| "decide clause FuturePanics = Deny ENGINE_FAILED"
| "decide clause TimesOut = Deny ENGINE_TIMED_OUT"
| "decide clause (Answers d) = resolve clause d"

definition gate :: "string \<Rightarrow> engine_run \<Rightarrow> (string, pfilter) result" where
  "gate clause run = (case decide clause run of
      Allow \<Rightarrow> Ok default_filter
    | Narrow f \<Rightarrow> Ok f
    | Deny why \<Rightarrow> Err why)"

text \<open>\<open>pre_notify\<close>: \<open>None\<close> when the engine panics.\<close>

definition pre_notify :: "notify_decision option \<Rightarrow> notify_decision" where
  "pre_notify run = (case run of Some d \<Rightarrow> d | None \<Rightarrow> NDrop)"

subsection \<open>Subjects\<close>

record subject =
  s_tenant :: string
  s_headers :: "(string \<times> string) list"

definition SUBJECT_MEMBER :: string where
  "SUBJECT_MEMBER = ''__subject''"

text \<open>\<open>headers\<close> are the request's header fields, lower-case names, in order; a value is \<open>None\<close> when it is
  not visible ASCII and \<open>to_str\<close> refuses it.\<close>

definition subject_of :: "string list \<Rightarrow> string \<Rightarrow> (string \<times> string option) list \<Rightarrow> subject" where
  "subject_of names tenant headers =
     \<lparr>s_tenant = tenant,
      s_headers = concat (map (\<lambda>n. List.map_filter (\<lambda>(k, v). if k = n then map_option (Pair n) v else None) headers) names)\<rparr>"

definition header_json :: "string \<times> string \<Rightarrow> json" where
  "header_json h = JArr [JStr (fst h), JStr (snd h)]"

definition subject_member :: "subject \<Rightarrow> json option" where
  "subject_member s = (if s_headers s = [] then None else Some (JArr (map header_json (s_headers s))))"

fun json_header :: "json \<Rightarrow> (string \<times> string) option" where
  "json_header (JArr [JStr a, JStr b]) = Some (a, b)"
| "json_header _ = None"

fun json_headers :: "json list \<Rightarrow> (string \<times> string) list option" where
  "json_headers [] = Some []"
| "json_headers (x # xs) = (case json_header x of
      None \<Rightarrow> None
    | Some h \<Rightarrow> map_option ((#) h) (json_headers xs))"

definition stored_subject :: "string \<Rightarrow> json \<Rightarrow> subject" where
  "stored_subject tenant doc =
     \<lparr>s_tenant = tenant,
      s_headers = (case jget doc SUBJECT_MEMBER of
          Some (JArr xs) \<Rightarrow> (case json_headers xs of Some hs \<Rightarrow> hs | None \<Rightarrow> [])
        | _ \<Rightarrow> [])\<rparr>"

definition strip_internal :: "json \<Rightarrow> json" where
  "strip_internal doc = (case doc of
      JObj m \<Rightarrow> JObj (filter (\<lambda>e. \<not> starts_with ''__'' (fst e)) m)
    | _ \<Rightarrow> doc)"

definition belongs_to :: "json \<Rightarrow> subject \<Rightarrow> bool" where
  "belongs_to doc s \<longleftrightarrow> s_headers (stored_subject (s_tenant s) doc) = s_headers s"

subsection \<open>A filter only takes away\<close>

lemma project_get:
  assumes "bm_ok m" "project f (JObj m) = JObj m'"
  shows "bm_get m' k =
    (if (f_pick f = [] \<or> List.member FRAME k \<or> List.member (f_pick f) k) \<and>
        (List.member FRAME k \<or> \<not> List.member (f_omit f) k)
     then bm_get m k else None)"
proof -
  define kept where "kept = (if f_pick f = [] then m
      else filter (\<lambda>e. List.member FRAME (fst e) \<or> List.member (f_pick f) (fst e)) m)"
  have ok: "bm_ok kept" using assms(1) by (simp add: kept_def bm_filter_ok)
  have kget: "bm_get kept k = (if f_pick f = [] \<or> List.member FRAME k \<or> List.member (f_pick f) k then bm_get m k else None)"
    using bm_get_filter [OF assms(1), of "\<lambda>e. List.member FRAME (fst e) \<or> List.member (f_pick f) (fst e)" k]
    by (auto simp: kept_def split: option.splits)
  have del: "bm_get (fold (\<lambda>name o'. if List.member FRAME name then o' else bm_remove name o') ns n) k =
      (if List.member FRAME k \<or> \<not> List.member ns k then bm_get n k else None)" if "bm_ok n" for ns and n :: jobj
    using that by (induction ns arbitrary: n) (auto simp: bm_laws)
  have "m' = fold (\<lambda>name o'. if List.member FRAME name then o' else bm_remove name o') (f_omit f) kept"
    using assms(2) by (simp add: project_def kept_def Let_def)
  then show ?thesis using del [OF ok] kget by simp
qed

lemma narrow_params_cases:
  assumes "narrow_params E f params = Ok out"
  shows "\<exists>mid. (case f_q f of
         None \<Rightarrow> mid = params
       | Some extra \<Rightarrow> (case bm_get params ''q'' of
            None \<Rightarrow> mid = bm_insert ''q'' (render E extra) params
          | Some q \<Rightarrow> \<exists>own. parse_q E q = Ok own \<and> mid = bm_insert ''q'' (render E (And [own, extra])) params))
     \<and> (case f_scope_q f of
         None \<Rightarrow> out = mid
       | Some s \<Rightarrow> (case bm_get mid ''scopeQ'' of
            None \<Rightarrow> out = bm_insert ''scopeQ'' s mid
          | Some own \<Rightarrow> \<exists>n. intersect_scope_q own s = Some n \<and> out = bm_insert ''scopeQ'' n mid))"
  using assms unfolding narrow_params_def and_then_Inr_iff
  by (elim exE conjE, intro exI) (auto split: option.splits sum.splits)

lemma narrow_params_q:
  assumes "narrow_params E f params = Ok out" "f_q f = Some extra"
  shows "case bm_get params ''q'' of
     None \<Rightarrow> bm_get out ''q'' = Some (render E extra)
   | Some q \<Rightarrow> \<exists>own. parse_q E q = Ok own \<and> bm_get out ''q'' = Some (render E (And [own, extra]))"
proof -
  obtain mid where mid: "case bm_get params ''q'' of
       None \<Rightarrow> mid = bm_insert ''q'' (render E extra) params
     | Some q \<Rightarrow> \<exists>own. parse_q E q = Ok own \<and> mid = bm_insert ''q'' (render E (And [own, extra])) params"
    and out: "case f_scope_q f of None \<Rightarrow> out = mid
       | Some s \<Rightarrow> (case bm_get mid ''scopeQ'' of None \<Rightarrow> out = bm_insert ''scopeQ'' s mid
          | Some own \<Rightarrow> \<exists>n. intersect_scope_q own s = Some n \<and> out = bm_insert ''scopeQ'' n mid)"
    using narrow_params_cases [OF assms(1)] unfolding assms(2) option.case by blast
  have "bm_get out ''q'' = bm_get mid ''q''" using out by (auto split: option.splits)
  with mid show ?thesis by (auto split: option.split)
qed

text \<open>A query with no linked entity terms buys no lookups, so its answer does not depend on the budget.\<close>

lemma resolve_no_links: "links q = [] \<Longrightarrow> resolve_qpath c l q e b = (resolve_targets c (path q) (bracket q) e, b)"
  by (simp add: resolve_qpath_def)

lemma eval_no_links:
  "\<not> has_linked_paths n \<Longrightarrow> eval_node E c l e n b = (fst (eval_node E c l e n b'), b)"
proof (induction n arbitrary: b b')
  case (And ns)
  have "all_b (eval_node E c l e) ns b = (fst (all_b (eval_node E c l e) ns b'), b)"
    using And
  proof (induction ns arbitrary: b b')
    case (Cons n ns)
    have "eval_node E c l e n b = (fst (eval_node E c l e n b'), b)"
      "eval_node E c l e n b' = (fst (eval_node E c l e n b'), b')"
      using Cons.prems by (auto simp: list_ex_iff)
    moreover have "all_b (eval_node E c l e) ns b = (fst (all_b (eval_node E c l e) ns b'), b)"
      using Cons by (simp add: list_ex_iff)
    ultimately show ?case
      by (cases "eval_node E c l e n b'") (auto simp: split_beta)
  qed simp
  then show ?case by simp
next
  case (Or ns)
  have "any_b (eval_node E c l e) ns b = (fst (any_b (eval_node E c l e) ns b'), b)"
    using Or
  proof (induction ns arbitrary: b b')
    case (Cons n ns)
    have "eval_node E c l e n b = (fst (eval_node E c l e n b'), b)"
      "eval_node E c l e n b' = (fst (eval_node E c l e n b'), b')"
      using Cons.prems by (auto simp: list_ex_iff)
    moreover have "any_b (eval_node E c l e) ns b = (fst (any_b (eval_node E c l e) ns b'), b)"
      using Cons by (simp add: list_ex_iff)
    ultimately show ?case
      by (cases "eval_node E c l e n b'") (auto simp: split_beta)
  qed simp
  then show ?case by simp
qed (simp_all add: eval_leaf_def resolve_no_links)

lemma eval_and_no_links:
  assumes "\<not> has_linked_paths extra"
  shows "eval_q E c l e (And [own, extra]) \<longleftrightarrow> eval_q E c l e own \<and> eval_q E c l e extra"
proof -
  obtain r b where o: "eval_node E c l e own MAX_Q_LINK_LOOKUPS = (r, b)" by fastforce
  have "eval_node E c l e extra b = (eval_q E c l e extra, b)"
    using eval_no_links [OF assms] by (simp add: eval_q_def)
  with o show ?thesis by (simp add: eval_q_def)
qed

text \<open>With linked terms in the policy's own query the two share one budget, and a client's query can use
  it up: \<open>!owner{secret}\<close> then holds for want of lookups.\<close>

lemma hop_loop_spent: "hop_loop l ok walk us 0 = ([], 0)"
  by (cases us) auto

lemma hop_loop_unknown: "(\<forall>u\<in>set us. l u = None) \<Longrightarrow> hop_loop l ok walk us b = ([], b - length us)"
  by (induction us arbitrary: b) (auto simp: hop_loop_spent, case_tac b, auto)

lemma subject_round_trip: "json_headers (map header_json hs) = Some hs"
  by (induction hs) (auto simp: header_json_def)

text \<open>A projection only takes members away: id, type and @context always stay, an omitted member is gone, a pick list keeps only its members, and every kept value is unchanged.\<close>

lemma projection_only_removes:
  assumes "bm_ok m" "project f (JObj m) = JObj m'"
  shows "bm_get m' k =
    (if List.member FRAME k then bm_get m k
     else if List.member (f_omit f) k then None
     else if f_pick f = [] \<or> List.member (f_pick f) k then bm_get m k else None)"
  using project_get [OF assms, of k] by auto

text \<open>The subject stored inside a document reads back as it was and owns the document, and stripping internal members hides it.\<close>

lemma stored_subject_reads_back:
  assumes "subject_member s = Some x"
  shows "stored_subject (s_tenant s) (JObj (bm_insert SUBJECT_MEMBER x m)) = s
    \<and> belongs_to (JObj (bm_insert SUBJECT_MEMBER x m)) s
    \<and> jget (strip_internal (JObj (bm_insert SUBJECT_MEMBER x m))) SUBJECT_MEMBER = None"
proof -
  have x: "x = JArr (map header_json (s_headers s))" using assms by (simp add: subject_member_def split: if_splits)
  have s: "stored_subject (s_tenant s) (JObj (bm_insert SUBJECT_MEMBER x m)) = s"
    by (simp add: stored_subject_def x subject_round_trip)
  have "starts_with ''__'' SUBJECT_MEMBER" by code_simp
  then have "bm_get (filter (\<lambda>e. \<not> starts_with ''__'' (fst e)) m') SUBJECT_MEMBER = None" for m' :: jobj
    by (auto simp: bm_get_None_iff)
  then show ?thesis using s by (simp add: belongs_to_def strip_internal_def)
qed

end
