(* ===== verification/MemStore.thy ===== *)
theory MemStore
  imports DateTime
begin

text \<open>
  The in-memory store and its durability shadow (\<open>antares-sql/src/store/mem/mod.rs\<close>, \<open>mem/redb.rs\<close>).
  A store is the ten maps, the shadow database of \<open>file\<close> mode, and the log of change-hook calls.  Every
  operation takes the wall clock (\<open>now_stamp\<close>) as an argument and runs inside one hold of the write
  lock, so it is one step; writers' counters and \<open>on_blocking\<close> have no effect on the state and are left
  out.  redb and the JSON codec are outside the source: a database is its tables of rows, and the codec
  is a parameter.  A failed commit aborts the process, so a step that returns has committed.
\<close>

record codec =
  enc :: "json \<Rightarrow> string option"   \<comment> \<open>\<open>serde_json::to_vec\<close>\<close>
  dec :: "string \<Rightarrow> json option"   \<comment> \<open>\<open>serde_json::from_slice\<close>\<close>

datatype doc_kind = Entity | Subscription | Registration | CSourceSubscription | Temporal | Snapshot
  | EntityMap | DistSub | DeadLetter

type_synonym tmap = "json bmap bmap"

record inner =
  entities :: tmap
  subscriptions :: tmap
  registrations :: tmap
  csource_subscriptions :: tmap
  snapshots :: tmap
  entity_map_docs :: tmap
  dist_subs :: tmap
  dead_letters :: tmap
  temporal :: tmap
  contexts :: "json bmap"

definition ALL_KINDS :: "doc_kind list" where
  "ALL_KINDS = [Entity, Subscription, Registration, CSourceSubscription, Temporal, Snapshot, EntityMap,
     DistSub, DeadLetter]"

fun kmap :: "doc_kind \<Rightarrow> inner \<Rightarrow> tmap" where
  "kmap Entity i = entities i"
| "kmap Subscription i = subscriptions i"
| "kmap Registration i = registrations i"
| "kmap CSourceSubscription i = csource_subscriptions i"
| "kmap Temporal i = temporal i"
| "kmap Snapshot i = snapshots i"
| "kmap EntityMap i = entity_map_docs i"
| "kmap DistSub i = dist_subs i"
| "kmap DeadLetter i = dead_letters i"

fun kmap_set :: "doc_kind \<Rightarrow> tmap \<Rightarrow> inner \<Rightarrow> inner" where
  "kmap_set Entity m i = i\<lparr>entities := m\<rparr>"
| "kmap_set Subscription m i = i\<lparr>subscriptions := m\<rparr>"
| "kmap_set Registration m i = i\<lparr>registrations := m\<rparr>"
| "kmap_set CSourceSubscription m i = i\<lparr>csource_subscriptions := m\<rparr>"
| "kmap_set Temporal m i = i\<lparr>temporal := m\<rparr>"
| "kmap_set Snapshot m i = i\<lparr>snapshots := m\<rparr>"
| "kmap_set EntityMap m i = i\<lparr>entity_map_docs := m\<rparr>"
| "kmap_set DistSub m i = i\<lparr>dist_subs := m\<rparr>"
| "kmap_set DeadLetter m i = i\<lparr>dead_letters := m\<rparr>"

definition empty_inner :: inner where
  "empty_inner = \<lparr>entities = [], subscriptions = [], registrations = [], csource_subscriptions = [],
     snapshots = [], entity_map_docs = [], dist_subs = [], dead_letters = [], temporal = [], contexts = []\<rparr>"

subsection \<open>The shadow database\<close>

datatype table = T_ENTITIES | T_SUBSCRIPTIONS | T_CSOURCE_REGISTRATIONS | T_CSOURCE_SUBSCRIPTIONS
  | T_TEMPORAL_ENTITIES | T_JSONLD_CONTEXTS | T_SNAPSHOTS | T_ENTITY_MAP_DOCS | T_DIST_SUBS | T_DEAD_LETTERS

fun table_for :: "doc_kind \<Rightarrow> table" where
  "table_for Entity = T_ENTITIES"
| "table_for Subscription = T_SUBSCRIPTIONS"
| "table_for Registration = T_CSOURCE_REGISTRATIONS"
| "table_for CSourceSubscription = T_CSOURCE_SUBSCRIPTIONS"
| "table_for Temporal = T_TEMPORAL_ENTITIES"
| "table_for Snapshot = T_SNAPSHOTS"
| "table_for EntityMap = T_ENTITY_MAP_DOCS"
| "table_for DistSub = T_DIST_SUBS"
| "table_for DeadLetter = T_DEAD_LETTERS"

definition FORMAT_VERSION :: string where
  "FORMAT_VERSION = ''1''"

text \<open>A table that was never written does not exist (\<open>None\<close>).\<close>

record db =
  tables :: "table \<Rightarrow> string bmap option"
  format :: "string option"

definition empty_db :: db where
  "empty_db = \<lparr>tables = (\<lambda>_. None), format = None\<rparr>"

definition rows :: "db \<Rightarrow> table \<Rightarrow> string bmap" where
  "rows d t = (case tables d t of Some m \<Rightarrow> m | None \<Rightarrow> [])"

definition key_bytes :: "string \<Rightarrow> string \<Rightarrow> string" where
  "key_bytes tenant i = tenant @ byte 0 # i"

text \<open>\<open>String::from_utf8\<close>.\<close>

function utf8_ok :: "string \<Rightarrow> bool" where
  "utf8_ok s = (if s = [] then True
     else (case utf8_step s of (n, ok) \<Rightarrow> ok \<and> utf8_ok (drop n s)))"
  by pat_completeness auto
termination
proof (relation "measure length", goal_cases)
  case (2 s n ok)
  then have "n = fst (utf8_step s)" by (metis fst_conv)
  with utf8_step_pos [of s] have "n \<noteq> 0" by simp
  with 2 show ?case by (cases s) simp_all
qed simp

declare utf8_ok.simps [simp del]

definition split_key :: "string \<Rightarrow> (string \<times> string) option" where
  "split_key key = (case split_once (byte 0) key of
      None \<Rightarrow> None
    | Some (t, i) \<Rightarrow> if utf8_ok t \<and> utf8_ok i then Some (t, i) else None)"

definition shadow_write :: "table \<Rightarrow> string \<Rightarrow> string option \<Rightarrow> db \<Rightarrow> db" where
  "shadow_write t key v d = d\<lparr>tables := (tables d)(t := Some (case v of
      Some b \<Rightarrow> bm_insert key b (rows d t) | None \<Rightarrow> bm_remove key (rows d t)))\<rparr>"

subsection \<open>The store\<close>

record store =
  st_inner :: inner
  st_shadow :: "db option"
  st_hook :: bool
  st_emitted :: "(string \<times> json option \<times> json option) list"

definition new_store :: store where
  "new_store = \<lparr>st_inner = empty_inner, st_shadow = None, st_hook = False, st_emitted = []\<rparr>"

text \<open>\<open>persist\<close>: nothing without a shadow; a document that does not encode is skipped.\<close>

definition persist :: "codec \<Rightarrow> table \<Rightarrow> string \<Rightarrow> json option \<Rightarrow> store \<Rightarrow> store" where
  "persist C t key doc st = (case st_shadow st of
      None \<Rightarrow> st
    | Some d \<Rightarrow> (case doc of
        None \<Rightarrow> st\<lparr>st_shadow := Some (shadow_write t key None d)\<rparr>
      | Some j \<Rightarrow> (case enc C j of
          Some b \<Rightarrow> st\<lparr>st_shadow := Some (shadow_write t key (Some b) d)\<rparr>
        | None \<Rightarrow> st)))"

definition emit :: "string \<Rightarrow> json option \<Rightarrow> json option \<Rightarrow> store \<Rightarrow> store" where
  "emit tenant before after st =
     (if st_hook st then st\<lparr>st_emitted := st_emitted st @ [(tenant, before, after)]\<rparr> else st)"

definition set_change_hook :: "store \<Rightarrow> store" where
  "set_change_hook st = st\<lparr>st_hook := True\<rparr>"

definition tenant_docs :: "inner \<Rightarrow> doc_kind \<Rightarrow> string \<Rightarrow> json bmap" where
  "tenant_docs i k t = (case bm_get (kmap k i) t of Some m \<Rightarrow> m | None \<Rightarrow> [])"

definition doc_at :: "inner \<Rightarrow> doc_kind \<Rightarrow> string \<Rightarrow> string \<Rightarrow> json option" where
  "doc_at i k t d = bm_get (tenant_docs i k t) d"

definition put_doc :: "doc_kind \<Rightarrow> string \<Rightarrow> string \<Rightarrow> json \<Rightarrow> inner \<Rightarrow> inner" where
  "put_doc k t d j i = kmap_set k (bm_insert t (bm_insert d j (tenant_docs i k t)) (kmap k i)) i"

definition del_doc :: "doc_kind \<Rightarrow> string \<Rightarrow> string \<Rightarrow> inner \<Rightarrow> inner" where
  "del_doc k t d i = (case bm_get (kmap k i) t of
      None \<Rightarrow> i
    | Some m \<Rightarrow> kmap_set k (bm_insert t (bm_remove d m) (kmap k i)) i)"

definition is_expired :: "ext \<Rightarrow> string \<Rightarrow> inner \<Rightarrow> doc_kind \<Rightarrow> string \<Rightarrow> string \<Rightarrow> bool" where
  "is_expired E now i k t d \<longleftrightarrow> k = Entity \<and>
     (case doc_at i k t d of Some j \<Rightarrow> expired_at E now j | None \<Rightarrow> False)"

definition emit_if :: "bool \<Rightarrow> string \<Rightarrow> json option \<Rightarrow> json option \<Rightarrow> store \<Rightarrow> store" where
  "emit_if b t x y st = (if b then emit t x y st else st)"

definition create :: "ext \<Rightarrow> codec \<Rightarrow> string \<Rightarrow> string \<Rightarrow> doc_kind \<Rightarrow> string \<Rightarrow> json \<Rightarrow> store \<Rightarrow> bool \<times> store" where
  "create E C now t k d j st =
     (if doc_at (st_inner st) k t d \<noteq> None \<and> \<not> is_expired E now (st_inner st) k t d then (False, st)
      else (True,
        emit_if (k = Entity) t None (Some j)
          (persist C (table_for k) (key_bytes t d) (Some j)
             (st\<lparr>st_inner := put_doc k t d j (st_inner st)\<rparr>))))"

definition upsert :: "ext \<Rightarrow> codec \<Rightarrow> string \<Rightarrow> string \<Rightarrow> doc_kind \<Rightarrow> string \<Rightarrow> json \<Rightarrow> store \<Rightarrow> bool \<times> store" where
  "upsert E C now t k d j st =
     (let expired = is_expired E now (st_inner st) k t d;
          prev = doc_at (st_inner st) k t d
      in (prev \<noteq> None \<and> \<not> expired,
          emit_if (k = Entity) t (if expired then None else prev) (Some j)
            (persist C (table_for k) (key_bytes t d) (Some j)
               (st\<lparr>st_inner := put_doc k t d j (st_inner st)\<rparr>))))"

definition get :: "string \<Rightarrow> doc_kind \<Rightarrow> string \<Rightarrow> store \<Rightarrow> json option" where
  "get t k d st = doc_at (st_inner st) k t d"

definition delete :: "ext \<Rightarrow> codec \<Rightarrow> string \<Rightarrow> string \<Rightarrow> doc_kind \<Rightarrow> string \<Rightarrow> store \<Rightarrow> bool \<times> store" where
  "delete E C now t k d st =
     (if is_expired E now (st_inner st) k t d then (False, st)
      else (case doc_at (st_inner st) k t d of
          None \<Rightarrow> (False, st)
        | Some old \<Rightarrow> (True,
            emit_if (k = Entity) t (Some old) None
              (persist C (table_for k) (key_bytes t d) None
                 (st\<lparr>st_inner := del_doc k t d (st_inner st)\<rparr>)))))"

definition delete_if :: "ext \<Rightarrow> codec \<Rightarrow> string \<Rightarrow> string \<Rightarrow> string \<Rightarrow> (json \<Rightarrow> bool) \<Rightarrow> store \<Rightarrow> json option \<times> store" where
  "delete_if E C now t d keep st =
     (if is_expired E now (st_inner st) Entity t d then (None, st)
      else (case doc_at (st_inner st) Entity t d of
          None \<Rightarrow> (None, st)
        | Some old \<Rightarrow>
            (if \<not> keep old then (None, st)
             else (Some old,
               emit t (Some old) None
                 (persist C (table_for Entity) (key_bytes t d) None
                    (st\<lparr>st_inner := del_doc Entity t d (st_inner st)\<rparr>))))))"

text \<open>Read-modify-write: \<open>f\<close> is the caller's closure on a copy; its error aborts without writing.\<close>

definition mutate :: "ext \<Rightarrow> codec \<Rightarrow> string \<Rightarrow> string \<Rightarrow> doc_kind \<Rightarrow> string \<Rightarrow> (json \<Rightarrow> ('e, 'a \<times> json) result) \<Rightarrow>
    store \<Rightarrow> ('e, 'a) result option \<times> store" where
  "mutate E C now t k d f st =
     (if is_expired E now (st_inner st) k t d then (None, st)
      else (case doc_at (st_inner st) k t d of
          None \<Rightarrow> (None, st)
        | Some before \<Rightarrow>
            (case f before of
               Inl e \<Rightarrow> (Some (Inl e), st)
             | Inr (x, candidate) \<Rightarrow>
                 (let st1 = (if candidate \<noteq> before
                             then persist C (table_for k) (key_bytes t d) (Some candidate) st else st);
                      st2 = st1\<lparr>st_inner := put_doc k t d candidate (st_inner st1)\<rparr>
                  in (Some (Inr x), emit_if (k = Entity \<and> candidate \<noteq> before) t (Some before) (Some candidate) st2)))))"

subsection \<open>Reading\<close>

definition list_docs :: "string \<Rightarrow> doc_kind \<Rightarrow> store \<Rightarrow> json list" where
  "list_docs t k st = bm_values (tenant_docs (st_inner st) k t)"

definition list_page :: "ext \<Rightarrow> string \<Rightarrow> string \<Rightarrow> doc_kind \<Rightarrow> string option \<Rightarrow> nat \<Rightarrow> store \<Rightarrow> json list" where
  "list_page E now t k after limit st =
     take limit
       (List.map_filter (\<lambda>e. if k = Entity then strip_expired E now (snd e) else Some (snd e))
          (filter (\<lambda>e. case after of Some a \<Rightarrow> a < fst e | None \<Rightarrow> True) (tenant_docs (st_inner st) k t)))"

definition list_slice :: "string \<Rightarrow> doc_kind \<Rightarrow> nat \<Rightarrow> nat \<Rightarrow> store \<Rightarrow> json list \<times> nat" where
  "list_slice t k offset limit st =
     (let m = tenant_docs (st_inner st) k t in (take limit (drop offset (bm_values m)), length m))"

definition tenant_exists :: "string \<Rightarrow> store \<Rightarrow> bool" where
  "tenant_exists t st = list_ex (\<lambda>k. bm_contains (kmap k (st_inner st)) t) ALL_KINDS"

definition tenant_ids :: "store \<Rightarrow> string list" where
  "tenant_ids st = bm_keys (bm_of_list (map (\<lambda>t. (t, ())) (''default'' #
     filter (\<lambda>t. \<not> is_reserved_str t) (concat (map (\<lambda>k. bm_keys (kmap k (st_inner st))) ALL_KINDS)))))"

definition subscription_tenants :: "store \<Rightarrow> string list" where
  "subscription_tenants st = (let i = st_inner st in
     remdups_adj (sort (map fst (filter (\<lambda>e. snd e \<noteq> [])
       (subscriptions i @ csource_subscriptions i @ registrations i)))))"

text \<open>\<open>tenant_stats_one\<close>: entities, subscriptions, registrations, CSR subscriptions, snapshots, entity
  maps, distributed subscriptions.\<close>

definition tenant_stats_one :: "string \<Rightarrow> store \<Rightarrow> nat list" where
  "tenant_stats_one t st = map (\<lambda>k. length (tenant_docs (st_inner st) k t))
     [Entity, Subscription, Registration, CSourceSubscription, Snapshot, EntityMap, DistSub]"

definition attr_instance_count :: "string \<Rightarrow> store \<Rightarrow> nat" where
  "attr_instance_count t st =
     sum_list (map (\<lambda>d. case d of
         JObj m \<Rightarrow> sum_list (map (\<lambda>v. case v of JArr a \<Rightarrow> length (filter is_object a) | _ \<Rightarrow> 0) (bm_values m))
       | _ \<Rightarrow> 0) (bm_values (tenant_docs (st_inner st) Temporal t)))"

subsection \<open>Purging and sweeping\<close>

definition persist_all :: "codec \<Rightarrow> table \<Rightarrow> string \<Rightarrow> string list \<Rightarrow> store \<Rightarrow> store" where
  "persist_all C tb t ids st = fold (\<lambda>d. persist C tb (key_bytes t d) None) ids st"

definition purge_kind :: "codec \<Rightarrow> string \<Rightarrow> doc_kind \<Rightarrow> bool \<times> store \<Rightarrow> bool \<times> store" where
  "purge_kind C t k s = (case s of (hit, st) \<Rightarrow>
     (case bm_get (kmap k (st_inner st)) t of
        None \<Rightarrow> (hit, st)
      | Some docs \<Rightarrow> (True,
          persist_all C (table_for k) t (bm_keys docs)
            (st\<lparr>st_inner := kmap_set k (bm_remove t (kmap k (st_inner st))) (st_inner st)\<rparr>))))"

definition purge_kinds :: "codec \<Rightarrow> string \<Rightarrow> doc_kind list \<Rightarrow> store \<Rightarrow> bool \<times> store" where
  "purge_kinds C t ks st = fold (purge_kind C t) ks (False, st)"

text \<open>\<open>context_row_owner\<close> and \<open>context_row_visible\<close> (\<open>antares-store/src/lib.rs\<close>).\<close>

definition context_row_owner :: "json \<Rightarrow> string option" where
  "context_row_owner row =
     (if as_str (jindex row ''kind'') \<noteq> Some ''Cached''
      then Some (case as_str (jindex row ''owner'') of Some o' \<Rightarrow> o' | None \<Rightarrow> ''default'') else None)"

definition context_row_visible :: "json \<Rightarrow> string option \<Rightarrow> bool" where
  "context_row_visible row tenant = (case context_row_owner row of
      None \<Rightarrow> True
    | Some o' \<Rightarrow> (case tenant of Some t \<Rightarrow> t = o' | None \<Rightarrow> False))"

definition context_drop :: "codec \<Rightarrow> string \<Rightarrow> store \<Rightarrow> store" where
  "context_drop C d st = (let st1 = persist C T_JSONLD_CONTEXTS d None st
     in st1\<lparr>st_inner := (st_inner st1)\<lparr>contexts := bm_remove d (contexts (st_inner st1))\<rparr>\<rparr>)"

definition purge_tenant :: "codec \<Rightarrow> string \<Rightarrow> store \<Rightarrow> bool \<times> store" where
  "purge_tenant C t st = (case purge_kinds C t ALL_KINDS st of (existed, st1) \<Rightarrow>
     (existed, fold (context_drop C)
        (map fst (filter (\<lambda>e. context_row_owner (snd e) = Some t) (contexts (st_inner st1)))) st1))"

text \<open>\<open>prune_expired_instances\<close>: the document and whether it changed.\<close>

definition prune_attr :: "ext \<Rightarrow> string \<Rightarrow> string \<Rightarrow> jobj \<times> bool \<Rightarrow> jobj \<times> bool" where
  "prune_attr E now k s = (case s of (m, changed) \<Rightarrow>
     (case Option.bind (bm_get m k) as_array of
        None \<Rightarrow> (m, changed)
      | Some xs \<Rightarrow>
          (let ys = filter (\<lambda>x. \<not> expired_at E now x) xs in
           if length ys \<noteq> length xs
           then (if ys = [] then bm_remove k m else bm_insert k (JArr ys) m, True)
           else (m, changed))))"

definition prune_expired_instances :: "ext \<Rightarrow> string \<Rightarrow> json \<Rightarrow> json \<times> bool" where
  "prune_expired_instances E now doc = (case doc of
      JObj m \<Rightarrow> (case fold (prune_attr E now) (filter (\<lambda>k. \<not> List.member ENTITY_META_KEYS k) (bm_keys m)) (m, False)
                 of (m', changed) \<Rightarrow> (JObj m', changed))
    | _ \<Rightarrow> (doc, False))"

definition all_docs :: "tmap \<Rightarrow> (string \<times> string \<times> json) list" where
  "all_docs m = concat (map (\<lambda>(t, docs). map (\<lambda>(d, j). (t, d, j)) docs) m)"

definition reap :: "codec \<Rightarrow> string \<times> string \<Rightarrow> store \<Rightarrow> store" where
  "reap C e st = (case e of (t, d) \<Rightarrow>
     (let st1 = persist C T_ENTITIES (key_bytes t d) None st
      in st1\<lparr>st_inner := del_doc Entity t d (st_inner st1)\<rparr>))"

definition prune_doc :: "ext \<Rightarrow> codec \<Rightarrow> string \<Rightarrow> doc_kind \<Rightarrow> string \<times> string \<times> json \<Rightarrow> nat \<times> store \<Rightarrow> nat \<times> store" where
  "prune_doc E C now k e s = (case e of (t, d, j) \<Rightarrow> case s of (n, st) \<Rightarrow>
     (case prune_expired_instances E now j of (j', changed) \<Rightarrow>
        if changed
        then (Suc n, persist C (table_for k) (key_bytes t d) (Some j')
                (st\<lparr>st_inner := put_doc k t d j' (st_inner st)\<rparr>))
        else (n, st)))"

definition sweep_expired :: "ext \<Rightarrow> codec \<Rightarrow> string \<Rightarrow> store \<Rightarrow> nat \<times> store" where
  "sweep_expired E C now st =
     (let dead = map (\<lambda>(t, d, j). (t, d)) (filter (\<lambda>(t, d, j). expired_at E now j) (all_docs (entities (st_inner st))));
          st1 = fold (reap C) dead st;
          s2 = fold (prune_doc E C now Entity) (all_docs (entities (st_inner st1))) (length dead, st1)
      in fold (prune_doc E C now Temporal) (all_docs (temporal (st_inner (snd s2)))) s2)"

subsection \<open>Stored contexts\<close>

definition MAX_CACHED_CONTEXTS :: nat where "MAX_CACHED_CONTEXTS = 1000"

definition is_cached :: "json \<Rightarrow> bool" where
  "is_cached row \<longleftrightarrow> Option.bind (jget row ''kind'') as_str = Some ''Cached''"

definition created_at :: "json \<Rightarrow> string" where
  "created_at row = (case Option.bind (jget row ''createdAt'') as_str of Some s \<Rightarrow> s | None \<Rightarrow> [])"

text \<open>Oldest first: by \<open>(createdAt, id)\<close>.\<close>

definition stamp_le :: "string \<times> string \<Rightarrow> string \<times> string \<Rightarrow> bool" where
  "stamp_le a b \<longleftrightarrow> fst a < fst b \<or> (fst a = fst b \<and> snd a \<le> snd b)"

fun ins_by :: "('a \<Rightarrow> 'a \<Rightarrow> bool) \<Rightarrow> 'a \<Rightarrow> 'a list \<Rightarrow> 'a list" where
  "ins_by le x [] = [x]"
| "ins_by le x (y # ys) = (if le x y then x # y # ys else y # ins_by le x ys)"

definition sort_by :: "('a \<Rightarrow> 'a \<Rightarrow> bool) \<Rightarrow> 'a list \<Rightarrow> 'a list" where
  "sort_by le xs = foldr (ins_by le) xs []"

definition oldest_cached :: "json bmap \<Rightarrow> string list" where
  "oldest_cached m =
     (let cached = map (\<lambda>e. (created_at (snd e), fst e)) (filter (\<lambda>e. is_cached (snd e)) m)
      in if length cached \<le> MAX_CACHED_CONTEXTS then []
         else map snd (take (length cached - MAX_CACHED_CONTEXTS) (sort_by stamp_le cached)))"

definition context_put :: "codec \<Rightarrow> string option \<Rightarrow> string \<Rightarrow> json \<Rightarrow> store \<Rightarrow> unit ngsi_result \<times> store" where
  "context_put C tenant d doc st =
     (let held = bm_get (contexts (st_inner st)) d in
      if \<not> (case held of None \<Rightarrow> True | Some r \<Rightarrow> context_row_visible r tenant) \<or> \<not> context_row_visible doc tenant
      then (Err (InternalError ''@context belongs to another tenant''), st)
      else
        (let st1 = persist C T_JSONLD_CONTEXTS d (Some doc) st;
             st2 = st1\<lparr>st_inner := (st_inner st1)\<lparr>contexts := bm_insert d doc (contexts (st_inner st1))\<rparr>\<rparr>
         in (Ok (),
             if is_cached doc \<and> MAX_CACHED_CONTEXTS < length (contexts (st_inner st2))
             then fold (context_drop C) (oldest_cached (contexts (st_inner st2))) st2
             else st2)))"

definition context_get :: "string option \<Rightarrow> string \<Rightarrow> store \<Rightarrow> json option" where
  "context_get tenant d st = (case bm_get (contexts (st_inner st)) d of
      Some r \<Rightarrow> if context_row_visible r tenant then Some r else None
    | None \<Rightarrow> None)"

definition context_delete :: "codec \<Rightarrow> string option \<Rightarrow> string \<Rightarrow> store \<Rightarrow> bool \<times> store" where
  "context_delete C tenant d st =
     (case bm_get (contexts (st_inner st)) d of
        Some r \<Rightarrow> if context_row_visible r tenant then (True, context_drop C d st) else (False, st)
      | None \<Rightarrow> (False, st))"

definition context_list_meta :: "string option \<Rightarrow> store \<Rightarrow> json list" where
  "context_list_meta tenant st =
     map (\<lambda>v. case v of JObj o' \<Rightarrow> JObj (bm_remove ''body'' o') | _ \<Rightarrow> v)
       (filter (\<lambda>v. context_row_visible v tenant) (bm_values (contexts (st_inner st))))"

subsection \<open>Opening a database\<close>

definition load_row :: "codec \<Rightarrow> doc_kind \<Rightarrow> string \<times> string \<Rightarrow> inner \<Rightarrow> (string, inner) result" where
  "load_row C k row i = (case split_key (fst row) of
      None \<Rightarrow> Err ''undecodable key''
    | Some (t, d) \<Rightarrow> (case dec C (snd row) of
        None \<Rightarrow> Err ''undecodable value''
      | Some j \<Rightarrow> Ok (put_doc k t d j i)))"

definition load_context :: "codec \<Rightarrow> string \<times> string \<Rightarrow> inner \<Rightarrow> (string, inner) result" where
  "load_context C row i =
     (if \<not> utf8_ok (fst row) then Err ''undecodable context id''
      else (case dec C (snd row) of
        None \<Rightarrow> Err ''undecodable context''
      | Some j \<Rightarrow> Ok (i\<lparr>contexts := bm_insert (fst row) j (contexts i)\<rparr>)))"

definition check_format :: "db \<Rightarrow> (string, db) result" where
  "check_format d = (case format d of
      Some v \<Rightarrow> if v = FORMAT_VERSION then Ok d else Err ''data file has another format, refusing to start''
    | None \<Rightarrow>
        (if list_ex (\<lambda>k. rows d (table_for k) \<noteq> []) ALL_KINDS
         then Err ''data file holds data but no format marker, refusing to start''
         else Ok (d\<lparr>format := Some FORMAT_VERSION\<rparr>)))"

definition from_database :: "codec \<Rightarrow> db \<Rightarrow> (string, store) result" where
  "from_database C d =
     and_then (check_format d) (\<lambda>d.
     and_then (try_fold (\<lambda>k. try_fold (load_row C k) (rows d (table_for k))) ALL_KINDS empty_inner) (\<lambda>i.
     and_then (try_fold (load_context C) (rows d T_JSONLD_CONTEXTS) i) (\<lambda>i.
       Ok \<lparr>st_inner = i, st_shadow = Some d, st_hook = False, st_emitted = []\<rparr>)))"

subsection \<open>Lookups after an operation\<close>

lemma kmap_set_same [simp]: "kmap k (kmap_set k m i) = m"
  by (cases k) simp_all

lemma kmap_set_other: "k \<noteq> k' \<Longrightarrow> kmap k (kmap_set k' m i) = kmap k i"
  by (cases k; cases k') simp_all

lemma contexts_kmap_set [simp]: "contexts (kmap_set k m i) = contexts i"
  by (cases k) simp_all

lemma tenant_docs_set:
  "tenant_docs (kmap_set k m i) k' t =
     (if k' = k then (case bm_get m t of Some x \<Rightarrow> x | None \<Rightarrow> []) else tenant_docs i k' t)"
  by (simp add: tenant_docs_def kmap_set_other)

lemma doc_at_put: "doc_at (put_doc k t d j i) k' t' d' =
    (if k' = k \<and> t' = t \<and> d' = d then Some j else doc_at i k' t' d')"
  by (auto simp: doc_at_def put_doc_def tenant_docs_set) (simp add: tenant_docs_def)

lemma doc_at_del: "doc_at (del_doc k t d i) k' t' d' =
    (if k' = k \<and> t' = t \<and> d' = d then None else doc_at i k' t' d')"
proof (cases "bm_get (kmap k i) t")
  case None
  then have "tenant_docs i k t = []" by (simp add: tenant_docs_def)
  with None show ?thesis by (simp add: doc_at_def del_doc_def)
next
  case (Some m)
  then have "tenant_docs i k t = m" by (simp add: tenant_docs_def)
  with Some show ?thesis by (auto simp: doc_at_def del_doc_def tenant_docs_set) (simp add: tenant_docs_def)
qed

lemma contexts_put [simp]: "contexts (put_doc k t d j i) = contexts i"
  by (simp add: put_doc_def)

lemma contexts_del [simp]: "contexts (del_doc k t d i) = contexts i"
  by (simp add: del_doc_def split: option.splits)

lemma doc_at_contexts [simp]: "doc_at (i\<lparr>contexts := m\<rparr>) k t d = doc_at i k t d"
  by (cases k) (simp_all add: doc_at_def tenant_docs_def)


subsection \<open>Well-formed maps\<close>

definition wf_inner :: "inner \<Rightarrow> bool" where
  "wf_inner i \<longleftrightarrow> (\<forall>k. bm_ok (kmap k i) \<and> (\<forall>e\<in>set (kmap k i). bm_ok (snd e))) \<and> bm_ok (contexts i)"

lemma wf_kmap: "wf_inner i \<Longrightarrow> bm_ok (kmap k i)"
  by (simp add: wf_inner_def)

lemma wf_tenant_docs: "wf_inner i \<Longrightarrow> bm_ok (tenant_docs i k t)"
  by (force simp: wf_inner_def tenant_docs_def dest: bm_get_SomeD split: option.splits)

lemma wf_kmap_set:
  "wf_inner i \<Longrightarrow> bm_ok m \<Longrightarrow> \<forall>e\<in>set m. bm_ok (snd e) \<Longrightarrow> wf_inner (kmap_set k m i)"
  unfolding wf_inner_def by (metis kmap_set_same kmap_set_other contexts_kmap_set)

lemma wf_put_doc:
  assumes "wf_inner i"
  shows "wf_inner (put_doc k t d j i)"
  unfolding put_doc_def
proof (rule wf_kmap_set [OF assms])
  show "bm_ok (bm_insert t (bm_insert d j (tenant_docs i k t)) (kmap k i))"
    using wf_kmap [OF assms] by (rule bm_insert_ok)
  show "\<forall>e\<in>set (bm_insert t (bm_insert d j (tenant_docs i k t)) (kmap k i)). bm_ok (snd e)"
    using assms wf_tenant_docs [OF assms] by (auto simp: wf_inner_def bm_insert_ok dest!: set_bm_insert)
qed

lemma wf_del_doc:
  assumes "wf_inner i"
  shows "wf_inner (del_doc k t d i)"
proof (cases "bm_get (kmap k i) t")
  case (Some m)
  have "bm_ok (bm_insert t (bm_remove d m) (kmap k i))"
    using wf_kmap [OF assms] by (rule bm_insert_ok)
  moreover have "\<forall>e\<in>set (bm_insert t (bm_remove d m) (kmap k i)). bm_ok (snd e)"
    using assms bm_get_SomeD [OF Some] by (force simp: wf_inner_def bm_remove_ok dest!: set_bm_insert)
  ultimately show ?thesis using Some wf_kmap_set [OF assms] by (simp add: del_doc_def)
qed (simp add: del_doc_def assms)

lemma kmap_contexts [simp]: "kmap k (i\<lparr>contexts := m\<rparr>) = kmap k i"
  by (cases k) simp_all

lemma wf_contexts: "wf_inner i \<Longrightarrow> bm_ok m \<Longrightarrow> wf_inner (i\<lparr>contexts := m\<rparr>)"
  by (simp add: wf_inner_def)

lemma wf_empty: "wf_inner empty_inner"
proof -
  have "kmap k empty_inner = []" for k by (cases k) (simp_all add: empty_inner_def)
  then show ?thesis by (simp add: wf_inner_def) (simp add: empty_inner_def)
qed

lemma all_docs_at:
  assumes "(t, d, j) \<in> set (all_docs (kmap k i))" "wf_inner i"
  shows "doc_at i k t d = Some j"
proof -
  from assms(1) obtain m where m: "(t, m) \<in> set (kmap k i)" "(d, j) \<in> set m"
    by (auto simp: all_docs_def)
  then have "bm_get (kmap k i) t = Some m" "bm_ok m" using assms(2) by (force simp: wf_inner_def bm_get_iff)+
  with m(2) show ?thesis by (simp add: doc_at_def tenant_docs_def bm_get_iff)
qed

end
