(* ===== verification/Durable.thy ===== *)
theory Durable
  imports MemStore
begin

text \<open>
  File mode: every operation of the in-memory store writes its row before it returns.  The locale
  \<open>write_through\<close> is the contract between a memory and a database of coded rows; the store provides it,
  \<open>durable\<close> is the resulting invariant, and opening the database again yields the memory it was in.
\<close>

subsection \<open>The write-through interface\<close>

text \<open>A memory of values under keys and a database of coded rows: \<open>synced\<close> says the rows are exactly the
  codes of the memory's values.  Whatever writes both keeps it.\<close>

definition synced :: "('k \<Rightarrow> 'v option) \<Rightarrow> ('r \<Rightarrow> 'b option) \<Rightarrow> ('r \<Rightarrow> 'k option) \<Rightarrow> ('v \<Rightarrow> 'b option) \<Rightarrow> bool" where
  "synced g r unkey code \<longleftrightarrow> (\<forall>x. r x = Option.bind (unkey x) (\<lambda>k. Option.bind (g k) code))"

locale write_through =
  fixes value_at :: "'s \<Rightarrow> 'k \<Rightarrow> 'v option"
    and row_at :: "'d \<Rightarrow> 'r \<Rightarrow> 'b option"
    and put :: "'k \<Rightarrow> 'v option \<Rightarrow> 's \<Rightarrow> 's"
    and wr :: "'r \<Rightarrow> 'b option \<Rightarrow> 'd \<Rightarrow> 'd"
    and key :: "'k \<Rightarrow> 'r"
    and unkey :: "'r \<Rightarrow> 'k option"
  assumes value_put: "value_at (put k v s) j = (if j = k then v else value_at s j)"
    and row_wr: "row_at (wr x b d) y = (if y = x then b else row_at d y)"
    and key_unkey: "unkey x = Some k \<Longrightarrow> key k = x"
begin

lemma synced_put:
  assumes "synced (value_at s) (row_at d) unkey code" "unkey (key k) = Some k"
  shows "synced (value_at (put k v s)) (row_at (wr (key k) (Option.bind v code) d)) unkey code"
  unfolding synced_def
proof
  fix x
  show "row_at (wr (key k) (Option.bind v code) d) x =
      Option.bind (unkey x) (\<lambda>j. Option.bind (value_at (put k v s) j) code)"
  proof (cases "x = key k")
    case True
    with assms(2) show ?thesis by (simp add: row_wr value_put)
  next
    case False
    then have "j \<noteq> k" if "unkey x = Some j" for j using that key_unkey by auto
    then have "Option.bind (unkey x) (\<lambda>j. Option.bind (value_at (put k v s) j) code)
        = Option.bind (unkey x) (\<lambda>j. Option.bind (value_at s j) code)"
      by (cases "unkey x") (auto simp: value_put)
    with assms(1) False show ?thesis by (simp add: row_wr synced_def)
  qed
qed

lemma synced_inj:
  assumes "synced (value_at s) (row_at d) unkey code" "unkey (key k) = Some k"
  shows "row_at d (key k) = Option.bind (value_at s k) code"
  using assms by (simp add: synced_def)

end

subsection \<open>The store provides it\<close>

datatype rkey = DocKey doc_kind string string | CtxKey string

fun get_any :: "inner \<Rightarrow> rkey \<Rightarrow> json option" where
  "get_any i (DocKey k t d) = doc_at i k t d"
| "get_any i (CtxKey d) = bm_get (contexts i) d"

fun put_any :: "rkey \<Rightarrow> json option \<Rightarrow> inner \<Rightarrow> inner" where
  "put_any (DocKey k t d) v i = (case v of Some j \<Rightarrow> put_doc k t d j i | None \<Rightarrow> del_doc k t d i)"
| "put_any (CtxKey d) v i =
     i\<lparr>contexts := (case v of Some j \<Rightarrow> bm_insert d j (contexts i) | None \<Rightarrow> bm_remove d (contexts i))\<rparr>"

fun key_of :: "rkey \<Rightarrow> table \<times> string" where
  "key_of (DocKey k t d) = (table_for k, key_bytes t d)"
| "key_of (CtxKey d) = (T_JSONLD_CONTEXTS, d)"

fun kind_of :: "table \<Rightarrow> doc_kind" where
  "kind_of T_ENTITIES = Entity"
| "kind_of T_SUBSCRIPTIONS = Subscription"
| "kind_of T_CSOURCE_REGISTRATIONS = Registration"
| "kind_of T_CSOURCE_SUBSCRIPTIONS = CSourceSubscription"
| "kind_of T_TEMPORAL_ENTITIES = Temporal"
| "kind_of T_JSONLD_CONTEXTS = Entity"
| "kind_of T_SNAPSHOTS = Snapshot"
| "kind_of T_ENTITY_MAP_DOCS = EntityMap"
| "kind_of T_DIST_SUBS = DistSub"
| "kind_of T_DEAD_LETTERS = DeadLetter"

definition unkey :: "table \<times> string \<Rightarrow> rkey option" where
  "unkey x = (if fst x = T_JSONLD_CONTEXTS then (if utf8_ok (snd x) then Some (CtxKey (snd x)) else None)
     else map_option (\<lambda>(t, d). DocKey (kind_of (fst x)) t d) (split_key (snd x)))"

definition row_any :: "db \<Rightarrow> table \<times> string \<Rightarrow> string option" where
  "row_any d x = bm_get (rows d (fst x)) (snd x)"

definition wr_any :: "table \<times> string \<Rightarrow> string option \<Rightarrow> db \<Rightarrow> db" where
  "wr_any x v d = shadow_write (fst x) (snd x) v d"

lemma get_put_any: "get_any (put_any k v i) j = (if j = k then v else get_any i j)"
  by (cases k; cases j; cases v) (auto simp: doc_at_put doc_at_del)

lemma row_wr_any: "row_any (wr_any x b d) y = (if y = x then b else row_any d y)"
  by (cases x; cases y) (auto simp: row_any_def wr_any_def shadow_write_def rows_def split: option.splits)

lemma split_key_bytes: "split_key key = Some (t, d) \<Longrightarrow> key_bytes t d = key"
  by (auto simp: split_key_def key_bytes_def split_once_Some_iff split: option.splits if_splits)

lemma table_kind: "tb \<noteq> T_JSONLD_CONTEXTS \<Longrightarrow> table_for (kind_of tb) = tb"
  by (cases tb) simp_all

lemma key_unkey_any: "unkey x = Some k \<Longrightarrow> key_of k = x"
  by (cases x) (auto simp: unkey_def table_kind split_key_bytes split: if_splits)

interpretation wt: write_through get_any row_any put_any wr_any key_of unkey
  by unfold_locales (simp_all add: get_put_any row_wr_any key_unkey_any)

subsection \<open>What is acknowledged is in the file\<close>

definition codec_ok :: "codec \<Rightarrow> json \<Rightarrow> bool" where
  "codec_ok C j \<longleftrightarrow> (case enc C j of Some b \<Rightarrow> dec C b = Some j | None \<Rightarrow> False)"

definition key_ok :: "rkey \<Rightarrow> bool" where
  "key_ok k \<longleftrightarrow> unkey (key_of k) = Some k"

definition docs_ok :: "codec \<Rightarrow> inner \<Rightarrow> bool" where
  "docs_ok C i \<longleftrightarrow> (\<forall>k j. get_any i k = Some j \<longrightarrow> key_ok k \<and> codec_ok C j)"

definition durable :: "codec \<Rightarrow> store \<Rightarrow> bool" where
  "durable C st \<longleftrightarrow> docs_ok C (st_inner st) \<and> wf_inner (st_inner st) \<and>
     (case st_shadow st of None \<Rightarrow> False
      | Some d \<Rightarrow> format d = Some FORMAT_VERSION \<and> (\<forall>tb. bm_ok (rows d tb))
          \<and> synced (get_any (st_inner st)) (row_any d) unkey (enc C))"

text \<open>One write-through: the value in memory and its row, in either order.\<close>

definition write_any :: "codec \<Rightarrow> rkey \<Rightarrow> json option \<Rightarrow> store \<Rightarrow> store" where
  "write_any C k v st =
     persist C (fst (key_of k)) (snd (key_of k)) v (st\<lparr>st_inner := put_any k v (st_inner st)\<rparr>)"

lemma persist_inner [simp]: "st_inner (persist C tb key v st) = st_inner st"
  by (auto simp: persist_def split: option.splits)

lemma persist_update: "persist C tb key v (st\<lparr>st_inner := i\<rparr>) = (persist C tb key v st)\<lparr>st_inner := i\<rparr>"
  by (auto simp: persist_def split: option.splits)

lemma emit_if_simps [simp]:
  "st_inner (emit_if b t x y st) = st_inner st" "st_shadow (emit_if b t x y st) = st_shadow st"
  by (auto simp: emit_if_def emit_def)

lemma durable_emit [simp]: "durable C (emit_if b t x y st) = durable C st"
  by (auto simp: durable_def split: option.splits)

lemma rows_shadow_write: "\<forall>tb. bm_ok (rows d tb) \<Longrightarrow> bm_ok (rows (shadow_write t key v d) tb)"
  by (auto simp: shadow_write_def rows_def bm_laws split: option.splits)

lemma format_shadow_write [simp]: "format (shadow_write t key v d) = format d"
  by (simp add: shadow_write_def)

lemma wf_put_any: "wf_inner i \<Longrightarrow> wf_inner (put_any k v i)"
  by (cases k; cases v) (simp_all add: wf_put_doc wf_del_doc wf_contexts wf_inner_def [THEN iffD1] bm_insert_ok bm_remove_ok)

lemma docs_ok_put:
  "docs_ok C i \<Longrightarrow> key_ok k \<Longrightarrow> (case v of Some j \<Rightarrow> codec_ok C j | None \<Rightarrow> True) \<Longrightarrow> docs_ok C (put_any k v i)"
  by (auto simp: docs_ok_def get_put_any split: option.splits)

lemma durable_write:
  assumes "durable C st" "key_ok k" "case v of Some j \<Rightarrow> codec_ok C j | None \<Rightarrow> True"
  shows "durable C (write_any C k v st)"
proof -
  obtain d where d: "st_shadow st = Some d" "format d = Some FORMAT_VERSION" "\<forall>tb. bm_ok (rows d tb)"
    "synced (get_any (st_inner st)) (row_any d) unkey (enc C)" and ok: "docs_ok C (st_inner st)" "wf_inner (st_inner st)"
    using assms(1) by (auto simp: durable_def split: option.splits)
  have "v = None \<or> (\<exists>j b. v = Some j \<and> enc C j = Some b)"
    using assms(3) by (auto simp: codec_ok_def split: option.splits)
  then have sh: "st_shadow (write_any C k v st) = Some (wr_any (key_of k) (Option.bind v (enc C)) d)"
    by (auto simp: write_any_def persist_def d(1) wr_any_def)
  have "synced (get_any (put_any k v (st_inner st))) (row_any (wr_any (key_of k) (Option.bind v (enc C)) d)) unkey (enc C)"
    using wt.synced_put [OF d(4)] assms(2) by (simp add: key_ok_def)
  then show ?thesis
    using sh d(2) rows_shadow_write [OF d(3)] docs_ok_put [OF ok(1) assms(2,3)] wf_put_any [OF ok(2)]
    by (simp add: durable_def write_any_def wr_any_def)
qed

lemma durable_del: "durable C st \<Longrightarrow> key_ok k \<Longrightarrow> durable C (write_any C k None st)"
  by (rule durable_write) simp_all

text \<open>Only the values in memory and the shadow matter.\<close>

lemma durable_cong:
  "get_any (st_inner st) = get_any (st_inner st') \<Longrightarrow> st_shadow st = st_shadow st' \<Longrightarrow>
     wf_inner (st_inner st) = wf_inner (st_inner st') \<Longrightarrow> durable C st = durable C st'"
  by (auto simp: durable_def docs_ok_def split: option.splits)

lemma durable_create:
  assumes "durable C st" "key_ok (DocKey k t d)" "codec_ok C j"
  shows "durable C (snd (create E C now t k d j st))"
  using durable_write [OF assms(1,2), of "Some j"] assms by (auto simp: create_def write_any_def)

lemma durable_upsert:
  assumes "durable C st" "key_ok (DocKey k t d)" "codec_ok C j"
  shows "durable C (snd (upsert E C now t k d j st))"
  using durable_write [OF assms(1,2), of "Some j"] assms by (auto simp: upsert_def Let_def write_any_def)

lemma docs_ok_key: "docs_ok C i \<Longrightarrow> doc_at i k t d = Some j \<Longrightarrow> key_ok (DocKey k t d)"
  unfolding docs_ok_def by (metis get_any.simps(1))

lemma docs_ok_codec: "docs_ok C i \<Longrightarrow> doc_at i k t d = Some j \<Longrightarrow> codec_ok C j"
  unfolding docs_ok_def by (metis get_any.simps(1))

lemma durable_wf: "durable C st \<Longrightarrow> wf_inner (st_inner st)"
  by (simp add: durable_def)

lemma durable_docs: "durable C st \<Longrightarrow> docs_ok C (st_inner st)"
  by (simp add: durable_def)

lemma durable_delete:
  assumes "durable C st"
  shows "durable C (snd (delete E C now t k d st))"
  using durable_write [OF assms docs_ok_key [OF durable_docs [OF assms]], of k t d _ None] assms
  by (auto simp: delete_def write_any_def split: option.splits)

lemma durable_delete_if:
  assumes "durable C st"
  shows "durable C (snd (delete_if E C now t d keep st))"
  using durable_write [OF assms docs_ok_key [OF durable_docs [OF assms]], of Entity t d _ None] assms
  by (auto simp: delete_if_def write_any_def emit_if_def [of True, simplified, symmetric] split: option.splits)

lemma put_doc_same: "doc_at i k t d = Some j \<Longrightarrow> get_any (put_doc k t d j i) = get_any i"
proof
  fix x
  assume "doc_at i k t d = Some j"
  then show "get_any (put_doc k t d j i) x = get_any i x" by (cases x) (auto simp: doc_at_put)
qed

lemma durable_mutate:
  assumes "durable C st" "\<And>j x c. codec_ok C j \<Longrightarrow> f j = Ok (x, c) \<Longrightarrow> codec_ok C c"
  shows "durable C (snd (mutate E C now t k d f st))"
proof (cases "\<exists>j x c. \<not> is_expired E now (st_inner st) k t d \<and> doc_at (st_inner st) k t d = Some j \<and> f j = Ok (x, c)")
  case False
  then have "snd (mutate E C now t k d f st) = st"
    by (auto simp: mutate_def split: option.splits sum.splits)
  with assms(1) show ?thesis by simp
next
  case True
  then obtain j x c where j: "\<not> is_expired E now (st_inner st) k t d" "doc_at (st_inner st) k t d = Some j" "f j = Ok (x, c)"
    by blast
  have "durable C (write_any C (DocKey k t d) (Some c) st)"
    using durable_write [OF assms(1) docs_ok_key [OF durable_docs [OF assms(1)] j(2)], of "Some c"]
      assms(2) [OF docs_ok_codec [OF durable_docs [OF assms(1)] j(2)] j(3)] by simp
  moreover have "durable C (st\<lparr>st_inner := put_doc k t d j (st_inner st)\<rparr>)"
    using assms(1) put_doc_same [OF j(2)] durable_wf [OF assms(1)] by (subst durable_cong [of _ st]) (simp_all add: wf_put_doc)
  ultimately show ?thesis
    using j by (simp add: mutate_def write_any_def persist_update)
qed


lemma context_drop_write: "context_drop C d st = write_any C (CtxKey d) None st"
  by (simp add: context_drop_def write_any_def persist_update Let_def)

lemma durable_context_drop:
  assumes "durable C st" "utf8_ok d"
  shows "durable C (context_drop C d st)"
  using durable_write [OF assms(1), of "CtxKey d" None] assms(2) by (simp add: context_drop_write key_ok_def unkey_def)

lemma durable_context_drops:
  "durable C st \<Longrightarrow> list_all utf8_ok ds \<Longrightarrow> durable C (fold (context_drop C) ds st)"
  by (induction ds arbitrary: st) (auto intro: durable_context_drop)

lemma durable_context_keys: "durable C st \<Longrightarrow> (d, j) \<in> set (contexts (st_inner st)) \<Longrightarrow> utf8_ok d"
proof -
  assume st: "durable C st" and m: "(d, j) \<in> set (contexts (st_inner st))"
  from m have "d \<in> fst ` set (contexts (st_inner st))" by (metis fst_conv image_eqI)
  then have "bm_get (contexts (st_inner st)) d \<noteq> None" by (simp add: bm_get_None_iff)
  then obtain j' where "get_any (st_inner st) (CtxKey d) = Some j'" by auto
  with durable_docs [OF st] have "key_ok (CtxKey d)" by (auto simp: docs_ok_def)
  then show ?thesis by (simp add: key_ok_def unkey_def split: if_splits)
qed

lemma set_ins_by: "set (ins_by le x ys) = insert x (set ys)"
  by (induction ys) auto

lemma set_sort_by [simp]: "set (sort_by le xs) = set xs"
  by (induction xs) (simp_all add: sort_by_def set_ins_by)

lemma oldest_cached_subset: "d \<in> set (oldest_cached m) \<Longrightarrow> \<exists>j. (d, j) \<in> set m \<and> is_cached j"
  by (auto simp: oldest_cached_def Let_def dest!: in_set_takeD split: if_splits) blast?

lemma durable_context_put:
  assumes "durable C st" "utf8_ok d" "codec_ok C doc"
  shows "durable C (snd (context_put C tenant d doc st))"
proof -
  have w: "durable C (write_any C (CtxKey d) (Some doc) st)"
    using durable_write [OF assms(1), of "CtxKey d" "Some doc"] assms(2,3) by (simp add: key_ok_def unkey_def)
  let ?s = "(persist C T_JSONLD_CONTEXTS d (Some doc) st)\<lparr>st_inner :=
      (st_inner (persist C T_JSONLD_CONTEXTS d (Some doc) st))\<lparr>contexts := bm_insert d doc (contexts (st_inner st))\<rparr>\<rparr>"
  have eq: "?s = write_any C (CtxKey d) (Some doc) st" by (simp add: write_any_def persist_update)
  have "list_all utf8_ok (oldest_cached (contexts (st_inner ?s)))"
    using durable_context_keys [OF w [folded eq]] oldest_cached_subset by (fastforce simp: list_all_iff)
  then have "durable C (fold (context_drop C) (oldest_cached (contexts (st_inner ?s))) ?s)"
    by (rule durable_context_drops [OF w [folded eq]])
  with assms(1) w [folded eq] show ?thesis by (auto simp: context_put_def Let_def)
qed

lemma durable_context_delete: "durable C st \<Longrightarrow> durable C (snd (context_delete C tenant d st))"
  using durable_context_keys bm_get_SomeD durable_context_drop
  by (fastforce simp: context_delete_def split: option.splits)

text \<open>Removing a tenant's map of one kind is, for every lookup, removing its documents one by one.\<close>

lemma fold_del_get:
  "get_any (fold (\<lambda>d. put_any (DocKey k t d) None) ds i) x =
     (if \<exists>d\<in>set ds. x = DocKey k t d then None else get_any i x)"
  by (induction ds arbitrary: i) (auto simp: get_put_any simp del: put_any.simps get_any.simps)

lemma persist_shadow: "st_shadow st = st_shadow st' \<Longrightarrow> st_shadow (persist C tb key v st) = st_shadow (persist C tb key v st')"
  by (simp add: persist_def split: option.splits)

lemma persist_all_cong: "st_shadow st = st_shadow st' \<Longrightarrow> st_shadow (persist_all C tb t ds st) = st_shadow (persist_all C tb t ds st')"
  unfolding persist_all_def
proof (induction ds arbitrary: st st')
  case (Cons d ds)
  show ?case using Cons.IH [OF persist_shadow [OF Cons.prems]] by simp
qed simp

lemma fold_write_docs:
  "st_shadow (fold (\<lambda>d. write_any C (DocKey k t d) None) ds st) = st_shadow (persist_all C (table_for k) t ds st)
   \<and> st_inner (fold (\<lambda>d. write_any C (DocKey k t d) None) ds st) = fold (\<lambda>d. put_any (DocKey k t d) None) ds (st_inner st)"
proof (induction ds arbitrary: st)
  case Nil
  then show ?case by (simp add: persist_all_def)
next
  case (Cons d ds)
  have "st_shadow (write_any C (DocKey k t d) None st) = st_shadow (persist C (table_for k) (key_bytes t d) None st)"
    by (simp add: write_any_def persist_update)
  then have "st_shadow (persist_all C (table_for k) t ds (write_any C (DocKey k t d) None st))
      = st_shadow (persist_all C (table_for k) t ds (persist C (table_for k) (key_bytes t d) None st))"
    by (rule persist_all_cong)
  then have "st_shadow (persist_all C (table_for k) t ds (write_any C (DocKey k t d) None st))
      = st_shadow (persist_all C (table_for k) t (d # ds) st)" by (simp add: persist_all_def)
  with Cons [of "write_any C (DocKey k t d) None st"] show ?case
    by (simp add: write_any_def del: put_any.simps)
qed

lemma durable_write_docs:
  "durable C st \<Longrightarrow> \<forall>d\<in>set ds. key_ok (DocKey k t d) \<Longrightarrow> durable C (fold (\<lambda>d. write_any C (DocKey k t d) None) ds st)"
  by (induction ds arbitrary: st) (auto intro: durable_del)

lemma persist_all_inner [simp]: "st_inner (persist_all C tb t ds st) = st_inner st"
  unfolding persist_all_def by (induction ds arbitrary: st) auto

lemma persist_all_shadow: "st_shadow (persist_all C tb t ds (st\<lparr>st_inner := i\<rparr>)) = st_shadow (persist_all C tb t ds st)"
  unfolding persist_all_def by (induction ds arbitrary: st) (auto simp: persist_update)

lemma durable_purge_kind:
  assumes "durable C (snd s)"
  shows "durable C (snd (purge_kind C t k s))"
proof -
  obtain hit st where s: "s = (hit, st)" by (cases s)
  show ?thesis
  proof (cases "bm_get (kmap k (st_inner st)) t")
    case None
    with assms s show ?thesis by (simp add: purge_kind_def)
  next
    case (Some docs)
    have td: "tenant_docs (st_inner st) k t = docs" using Some by (simp add: tenant_docs_def)
    have "\<forall>d\<in>set (bm_keys docs). key_ok (DocKey k t d)"
    proof
      fix d
      assume "d \<in> set (bm_keys docs)"
      then have "bm_get docs d \<noteq> None" by (simp add: bm_get_None_iff bm_keys_def)
      then show "key_ok (DocKey k t d)"
        using docs_ok_key [OF durable_docs, of C st k t d] assms s td by (auto simp: doc_at_def)
    qed
    with assms s have d: "durable C (fold (\<lambda>d. write_any C (DocKey k t d) None) (bm_keys docs) st)"
      by (simp add: durable_write_docs)
    have "get_any (kmap_set k (bm_remove t (kmap k (st_inner st))) (st_inner st)) x =
        get_any (fold (\<lambda>d. put_any (DocKey k t d) None) (bm_keys docs) (st_inner st)) x" for x
    proof (cases x)
      case (DocKey k' t' d)
      have "bm_get docs d = None" if "d \<notin> set (bm_keys docs)" using that by (simp add: bm_get_None_iff bm_keys_def)
      with td show ?thesis
        unfolding DocKey fold_del_get
        by (cases "k' = k \<and> t' = t") (auto simp: doc_at_def tenant_docs_set, simp add: tenant_docs_def)
    next
      case (CtxKey c)
      show ?thesis unfolding CtxKey fold_del_get by simp
    qed
    moreover have "wf_inner (kmap_set k (bm_remove t (kmap k (st_inner st))) (st_inner st))"
      using durable_wf [OF assms] s by (intro wf_kmap_set) (simp_all add: wf_inner_def bm_remove_ok, force simp: bm_remove_def)
    ultimately show ?thesis
      using d s Some durable_wf [OF d] fold_write_docs [of C k t "bm_keys docs" st]
      by (subst durable_cong [of _ "fold (\<lambda>d. write_any C (DocKey k t d) None) (bm_keys docs) st"])
         (auto simp: purge_kind_def persist_all_shadow)
  qed
qed

lemma durable_purge_kinds: "durable C st \<Longrightarrow> durable C (snd (purge_kinds C t ks st))"
proof -
  have "durable C (snd s) \<Longrightarrow> durable C (snd (fold (purge_kind C t) ks s))" for s
  proof (induction ks arbitrary: s)
    case (Cons k ks)
    show ?case using Cons.IH [OF durable_purge_kind [OF Cons.prems]] by simp
  qed simp
  then show "durable C st \<Longrightarrow> durable C (snd (purge_kinds C t ks st))" by (simp add: purge_kinds_def)
qed

lemma durable_purge_tenant: "durable C st \<Longrightarrow> durable C (snd (purge_tenant C t st))"
proof -
  assume st: "durable C st"
  obtain e st1 where p: "purge_kinds C t ALL_KINDS st = (e, st1)" by (cases "purge_kinds C t ALL_KINDS st")
  have d1: "durable C st1" using durable_purge_kinds [OF st, of t ALL_KINDS] p by simp
  have "list_all utf8_ok (map fst (filter (\<lambda>e. context_row_owner (snd e) = Some t) (contexts (st_inner st1))))"
    using durable_context_keys [OF d1] by (force simp: list_all_iff)
  with d1 show ?thesis by (simp add: purge_tenant_def p durable_context_drops)
qed

text \<open>The sweep.  Pruning expired instances must leave a document the codec still carries.\<close>

lemma reap_write: "reap C (t, d) st = write_any C (DocKey Entity t d) None st"
  by (simp add: reap_def write_any_def persist_update Let_def)

lemma docs_ok_at:
  assumes "durable C st" "(t, d, j) \<in> set (all_docs (kmap k (st_inner st)))"
  shows "key_ok (DocKey k t d) \<and> codec_ok C j"
  using all_docs_at [OF assms(2) durable_wf [OF assms(1)]] durable_docs [OF assms(1)]
  unfolding docs_ok_def by (metis get_any.simps(1))

lemma durable_reaps:
  "durable C st \<Longrightarrow> \<forall>(t, d)\<in>set es. key_ok (DocKey Entity t d) \<Longrightarrow> durable C (fold (reap C) es st)"
proof (induction es arbitrary: st)
  case (Cons e es)
  obtain t d where e: "e = (t, d)" by (cases e)
  have "durable C (reap C e st)"
    unfolding e reap_write using Cons.prems e by (intro durable_del) auto
  with Cons show ?case by simp
qed simp

lemma durable_prune_doc:
  assumes "durable C (snd s)" "key_ok (DocKey k t d)" "codec_ok C (fst (prune_expired_instances E now j))"
  shows "durable C (snd (prune_doc E C now k (t, d, j) s))"
  using durable_write [OF assms(1,2), of "Some (fst (prune_expired_instances E now j))"] assms
  by (auto simp: prune_doc_def write_any_def split: prod.splits)

definition prune_safe :: "ext \<Rightarrow> codec \<Rightarrow> string \<Rightarrow> bool" where
  "prune_safe E C now \<longleftrightarrow> (\<forall>j. codec_ok C j \<longrightarrow> codec_ok C (fst (prune_expired_instances E now j)))"

lemma durable_prunes:
  assumes "prune_safe E C now"
  shows "durable C (snd s) \<Longrightarrow> \<forall>(t, d, j)\<in>set es. key_ok (DocKey k t d) \<and> codec_ok C j \<Longrightarrow>
    durable C (snd (fold (prune_doc E C now k) es s))"
proof (induction es arbitrary: s)
  case (Cons e es)
  obtain t d j where e: "e = (t, d, j)" by (cases e)
  have "durable C (snd (prune_doc E C now k e s))"
    using Cons.prems assms unfolding e by (intro durable_prune_doc) (auto simp: prune_safe_def)
  with Cons show ?case by simp
qed simp

lemma durable_prune_all:
  assumes "prune_safe E C now" "durable C (snd s)"
  shows "durable C (snd (fold (prune_doc E C now k) (all_docs (kmap k (st_inner (snd s)))) s))"
  using docs_ok_at [OF assms(2)] assms(2) by (intro durable_prunes [OF assms(1)]) auto

lemma durable_sweep:
  assumes st: "durable C st" and safe: "prune_safe E C now"
  shows "durable C (snd (sweep_expired E C now st))"
proof -
  define dead where "dead = map (\<lambda>(t, d, j). (t, d)) (filter (\<lambda>(t, d, j). expired_at E now j) (all_docs (kmap Entity (st_inner st))))"
  have "\<forall>(t, d)\<in>set dead. key_ok (DocKey Entity t d)"
    using docs_ok_at [OF st, of _ _ _ Entity] by (auto simp: dead_def)
  then have s1: "durable C (fold (reap C) dead st)" by (rule durable_reaps [OF st])
  define s where "s = (length dead, fold (reap C) dead st)"
  define s2 where "s2 = fold (prune_doc E C now Entity) (all_docs (kmap Entity (st_inner (snd s)))) s"
  have "durable C (snd s2)"
    unfolding s2_def using s1 by (intro durable_prune_all [OF safe]) (simp add: s_def)
  then have "durable C (snd (fold (prune_doc E C now Temporal) (all_docs (kmap Temporal (st_inner (snd s2)))) s2))"
    by (rule durable_prune_all [OF safe])
  then show ?thesis by (simp add: sweep_expired_def Let_def s2_def s_def dead_def)
qed

subsection \<open>Runs\<close>

text \<open>The store's public mutators, each with the clock it reads.\<close>

datatype op =
    OCreate string doc_kind string json
  | OUpsert string doc_kind string json
  | ODelete string doc_kind string
  | ODeleteIf string string "json \<Rightarrow> bool"
  | OMutate string doc_kind string "json \<Rightarrow> (ngsi_error, unit \<times> json) result"
  | OPurgeKinds string "doc_kind list"
  | OPurgeTenant string
  | OContextPut "string option" string json
  | OContextDelete "string option" string
  | OSweep

fun step :: "ext \<Rightarrow> codec \<Rightarrow> string \<times> op \<Rightarrow> store \<Rightarrow> store" where
  "step E C (now, OCreate t k d j) st = snd (create E C now t k d j st)"
| "step E C (now, OUpsert t k d j) st = snd (upsert E C now t k d j st)"
| "step E C (now, ODelete t k d) st = snd (delete E C now t k d st)"
| "step E C (now, ODeleteIf t d keep) st = snd (delete_if E C now t d keep st)"
| "step E C (now, OMutate t k d f) st = snd (mutate E C now t k d f st)"
| "step E C (now, OPurgeKinds t ks) st = snd (purge_kinds C t ks st)"
| "step E C (now, OPurgeTenant t) st = snd (purge_tenant C t st)"
| "step E C (now, OContextPut owner d j) st = snd (context_put C owner d j st)"
| "step E C (now, OContextDelete owner d) st = snd (context_delete C owner d st)"
| "step E C (now, OSweep) st = snd (sweep_expired E C now st)"

text \<open>What the callers guarantee: identifiers without a NUL in the tenant, in UTF-8, and documents the
  codec carries.\<close>

fun op_ok :: "ext \<Rightarrow> codec \<Rightarrow> string \<times> op \<Rightarrow> bool" where
  "op_ok E C (now, OCreate t k d j) = (key_ok (DocKey k t d) \<and> codec_ok C j)"
| "op_ok E C (now, OUpsert t k d j) = (key_ok (DocKey k t d) \<and> codec_ok C j)"
| "op_ok E C (now, OMutate t k d f) = (\<forall>j x c. codec_ok C j \<longrightarrow> f j = Ok (x, c) \<longrightarrow> codec_ok C c)"
| "op_ok E C (now, OContextPut owner d j) = (utf8_ok d \<and> codec_ok C j)"
| "op_ok E C (now, OSweep) = prune_safe E C now"
| "op_ok E C (now, _) = True"

lemma durable_step:
  assumes "durable C st" "op_ok E C e"
  shows "durable C (step E C e st)"
  using assms
  by (induction E C e rule: op_ok.induct)
     (simp_all add: durable_create durable_upsert durable_delete durable_delete_if durable_mutate durable_purge_kinds
        durable_purge_tenant durable_context_put durable_context_delete durable_sweep)

lemma durable_run: "durable C st \<Longrightarrow> list_all (op_ok E C) es \<Longrightarrow> durable C (fold (step E C) es st)"
  by (induction es arbitrary: st) (simp_all add: durable_step)

subsection \<open>Opening the file again\<close>

lemma durable_rows:
  assumes "durable C st" "st_shadow st = Some d"
  shows "bm_get (rows d tb) key = Some b \<longleftrightarrow>
    (\<exists>k j. unkey (tb, key) = Some k \<and> get_any (st_inner st) k = Some j \<and> enc C j = Some b \<and> dec C b = Some j)"
proof -
  have "row_any d (tb, key) = Option.bind (unkey (tb, key)) (\<lambda>k. Option.bind (get_any (st_inner st) k) (enc C))"
    using assms by (simp add: durable_def synced_def)
  moreover have "enc C j = Some b \<Longrightarrow> dec C b = Some j" if "get_any (st_inner st) k = Some j" for k j
    using durable_docs [OF assms(1)] that by (fastforce simp: docs_ok_def codec_ok_def split: option.splits)
  ultimately show ?thesis by (auto simp: row_any_def bind_eq_Some_conv)
qed

lemma durable_has_row:
  assumes "durable C st" "st_shadow st = Some d" "get_any (st_inner st) k = Some j"
  shows "\<exists>b. (snd (key_of k), b) \<in> set (rows d (fst (key_of k)))"
proof -
  have "key_ok k" "codec_ok C j" using durable_docs [OF assms(1)] assms(3) by (auto simp: docs_ok_def)
  then have "\<exists>b. bm_get (rows d (fst (key_of k))) (snd (key_of k)) = Some b"
    using assms by (auto simp: durable_rows key_ok_def codec_ok_def split: option.splits)
  then show ?thesis by (auto dest: bm_get_SomeD)
qed

text \<open>Folding rows that all agree with one memory yields that memory on the keys met.\<close>

lemma try_fold_puts:
  assumes "\<And>e i. e \<in> set es \<Longrightarrow> f e i = Ok (put_any (K e) (g (K e)) i)"
  shows "try_fold f es i = Ok (fold (\<lambda>e. put_any (K e) (g (K e))) es i)"
  using assms by (induction es arbitrary: i) simp_all

lemma get_fold_puts:
  "get_any (fold (\<lambda>e. put_any (K e) (g (K e))) es i) x = (if x \<in> K ` set es then g x else get_any i x)"
  by (induction es arbitrary: i) (auto simp: get_put_any simp del: put_any.simps get_any.simps)

lemma wf_fold_puts: "wf_inner i \<Longrightarrow> wf_inner (fold (\<lambda>e. put_any (K e) (g (K e))) es i)"
  by (induction es arbitrary: i) (simp_all add: wf_put_any del: put_any.simps)

lemma load_table:
  assumes du: "durable C st" "st_shadow st = Some d" and wf: "wf_inner i"
  shows "\<exists>i'. try_fold (load_row C k) (rows d (table_for k)) i = Ok i' \<and> wf_inner i' \<and>
    (\<forall>x. get_any i' x = (if \<exists>t e. x = DocKey k t e \<and> get_any (st_inner st) x \<noteq> None
                         then get_any (st_inner st) x else get_any i x))"
proof -
  let ?g = "get_any (st_inner st)"
  define K where "K = (\<lambda>r::string \<times> string. the (unkey (table_for k, fst r)))"
  have tb: "table_for k \<noteq> T_JSONLD_CONTEXTS" "kind_of (table_for k) = k" by (cases k; simp)+
  have ok: "bm_ok (rows d (table_for k))" using du by (simp add: durable_def)
  have row: "\<exists>t e j. unkey (table_for k, fst r) = Some (DocKey k t e) \<and> split_key (fst r) = Some (t, e)
      \<and> ?g (DocKey k t e) = Some j \<and> dec C (snd r) = Some j" if "r \<in> set (rows d (table_for k))" for r
  proof -
    have "bm_get (rows d (table_for k)) (fst r) = Some (snd r)" using that ok by (simp add: bm_get_iff)
    then obtain q j where q: "unkey (table_for k, fst r) = Some q" "?g q = Some j" "dec C (snd r) = Some j"
      by (auto simp: durable_rows [OF du])
    then show ?thesis using tb by (auto simp: unkey_def)
  qed
  have "load_row C k r i = Ok (put_any (K r) (?g (K r)) i)" if "r \<in> set (rows d (table_for k))" for r i
    using row [OF that] by (auto simp: load_row_def K_def)
  then have eq: "try_fold (load_row C k) (rows d (table_for k)) i
      = Ok (fold (\<lambda>r. put_any (K r) (?g (K r))) (rows d (table_for k)) i)"
    by (rule try_fold_puts)
  have "x \<in> K ` set (rows d (table_for k)) \<longleftrightarrow> (\<exists>t e. x = DocKey k t e \<and> ?g x \<noteq> None)" for x
  proof
    assume "x \<in> K ` set (rows d (table_for k))"
    then show "\<exists>t e. x = DocKey k t e \<and> ?g x \<noteq> None" using row by (fastforce simp: K_def)
  next
    assume "\<exists>t e. x = DocKey k t e \<and> ?g x \<noteq> None"
    then obtain t e j where x: "x = DocKey k t e" "?g x = Some j" by auto
    then have "unkey (key_of x) = Some x"
      using durable_docs [OF du(1)] unfolding docs_ok_def key_ok_def by blast
    with durable_has_row [OF du x(2)] x(1) show "x \<in> K ` set (rows d (table_for k))"
      by (force simp: K_def)
  qed
  then show ?thesis
    unfolding eq using wf_fold_puts [OF wf]
    by (simp add: get_fold_puts del: get_any.simps put_any.simps)
qed

lemma load_tables:
  assumes du: "durable C st" "st_shadow st = Some d"
  shows "wf_inner i \<Longrightarrow> \<exists>i'. try_fold (\<lambda>k. try_fold (load_row C k) (rows d (table_for k))) ks i = Ok i' \<and> wf_inner i' \<and>
    (\<forall>x. get_any i' x = (if \<exists>k\<in>set ks. \<exists>t e. x = DocKey k t e \<and> get_any (st_inner st) x \<noteq> None
                         then get_any (st_inner st) x else get_any i x))"
proof (induction ks arbitrary: i)
  case (Cons k ks)
  obtain i1 where i1: "try_fold (load_row C k) (rows d (table_for k)) i = Ok i1" "wf_inner i1"
    "\<forall>x. get_any i1 x = (if \<exists>t e. x = DocKey k t e \<and> get_any (st_inner st) x \<noteq> None
                         then get_any (st_inner st) x else get_any i x)"
    using load_table [OF du Cons.prems] by blast
  obtain i2 where i2: "try_fold (\<lambda>k. try_fold (load_row C k) (rows d (table_for k))) ks i1 = Ok i2" "wf_inner i2"
    "\<forall>x. get_any i2 x = (if \<exists>k\<in>set ks. \<exists>t e. x = DocKey k t e \<and> get_any (st_inner st) x \<noteq> None
                         then get_any (st_inner st) x else get_any i1 x)"
    using Cons.IH [OF i1(2)] by blast
  show ?case
    by (rule exI [of _ i2]) (use i1 i2 in \<open>auto simp del: get_any.simps\<close>)
qed simp

lemma load_contexts:
  assumes du: "durable C st" "st_shadow st = Some d" and wf: "wf_inner i"
  shows "\<exists>i'. try_fold (load_context C) (rows d T_JSONLD_CONTEXTS) i = Ok i' \<and> wf_inner i' \<and>
    (\<forall>x. get_any i' x = (if \<exists>e. x = CtxKey e \<and> get_any (st_inner st) x \<noteq> None
                         then get_any (st_inner st) x else get_any i x))"
proof -
  let ?g = "get_any (st_inner st)"
  let ?rs = "rows d T_JSONLD_CONTEXTS"
  have ok: "bm_ok ?rs" using du by (simp add: durable_def)
  have row: "utf8_ok (fst r) \<and> (\<exists>j. ?g (CtxKey (fst r)) = Some j \<and> dec C (snd r) = Some j)" if "r \<in> set ?rs" for r
  proof -
    have "bm_get ?rs (fst r) = Some (snd r)" using that ok by (simp add: bm_get_iff)
    then obtain q j where q: "unkey (T_JSONLD_CONTEXTS, fst r) = Some q" "?g q = Some j" "dec C (snd r) = Some j"
      by (auto simp: durable_rows [OF du])
    then show ?thesis by (auto simp: unkey_def split: if_splits)
  qed
  have "load_context C r i = Ok (put_any (CtxKey (fst r)) (?g (CtxKey (fst r))) i)" if "r \<in> set ?rs" for r i
    using row [OF that] by (auto simp: load_context_def)
  then have eq: "try_fold (load_context C) ?rs i = Ok (fold (\<lambda>r. put_any (CtxKey (fst r)) (?g (CtxKey (fst r)))) ?rs i)"
    by (rule try_fold_puts)
  have "x \<in> (\<lambda>r. CtxKey (fst r)) ` set ?rs \<longleftrightarrow> (\<exists>e. x = CtxKey e \<and> ?g x \<noteq> None)" for x
    using row durable_has_row [OF du, of x] by force
  then show ?thesis
    unfolding eq
    using wf_fold_puts [OF wf, of "\<lambda>r. CtxKey (fst r)" ?g ?rs] get_fold_puts [of "\<lambda>r. CtxKey (fst r)" ?g ?rs i]
    by (simp del: get_any.simps put_any.simps)
qed

lemma get_any_empty: "get_any empty_inner x = None"
proof (cases x)
  case (DocKey k t d)
  then show ?thesis by (cases k) (simp_all add: doc_at_def tenant_docs_def empty_inner_def)
qed (simp add: empty_inner_def)

lemma ALL_KINDS_all: "k \<in> set ALL_KINDS"
  by (cases k) (simp_all add: ALL_KINDS_def)

lemma reopen:
  assumes du: "durable C st" "st_shadow st = Some d"
  shows "\<exists>st'. from_database C d = Ok st' \<and> durable C st' \<and> st_shadow st' = Some d \<and>
    get_any (st_inner st') = get_any (st_inner st)"
proof -
  let ?g = "get_any (st_inner st)"
  have fmt: "check_format d = Ok d" using du by (simp add: durable_def check_format_def)
  obtain i1 where i1: "try_fold (\<lambda>k. try_fold (load_row C k) (rows d (table_for k))) ALL_KINDS empty_inner = Ok i1"
    "wf_inner i1" "\<forall>x. get_any i1 x = (if \<exists>k\<in>set ALL_KINDS. \<exists>t e. x = DocKey k t e \<and> ?g x \<noteq> None then ?g x else None)"
    using load_tables [OF du wf_empty, of ALL_KINDS] by (auto simp: get_any_empty)
  obtain i2 where i2: "try_fold (load_context C) (rows d T_JSONLD_CONTEXTS) i1 = Ok i2" "wf_inner i2"
    "\<forall>x. get_any i2 x = (if \<exists>e. x = CtxKey e \<and> ?g x \<noteq> None then ?g x else get_any i1 x)"
    using load_contexts [OF du i1(2)] by blast
  have g: "get_any i2 = ?g"
  proof
    fix x
    show "get_any i2 x = ?g x"
      using i1(3) i2(3) by (cases x) (auto simp: ALL_KINDS_all simp del: get_any.simps)
  qed
  let ?st = "\<lparr>st_inner = i2, st_shadow = Some d, st_hook = False, st_emitted = []\<rparr>"
  have "from_database C d = Ok ?st" by (simp add: from_database_def fmt i1(1) i2(1))
  moreover have "durable C ?st" using du i2(2) g by (simp add: durable_def docs_ok_def)
  ultimately show ?thesis using g by auto
qed

text \<open>A fresh database opens as an empty, durable store.\<close>

definition fresh :: store where
  "fresh = \<lparr>st_inner = empty_inner, st_shadow = Some (empty_db\<lparr>format := Some FORMAT_VERSION\<rparr>),
     st_hook = False, st_emitted = []\<rparr>"

lemma open_empty: "from_database C empty_db = Ok fresh"
proof -
  have r: "rows (empty_db\<lparr>format := x\<rparr>) tb = []" "rows empty_db tb = []" for x tb
    by (simp_all add: rows_def empty_db_def)
  have "check_format empty_db = Ok (empty_db\<lparr>format := Some FORMAT_VERSION\<rparr>)"
    unfolding check_format_def r by (simp add: empty_db_def list_ex_iff)
  moreover have "try_fold (\<lambda>k. try_fold (load_row C k) (rows (empty_db\<lparr>format := x\<rparr>) (table_for k))) ks i = Ok i" for x ks i
    by (induction ks arbitrary: i) (simp_all add: r)
  ultimately show ?thesis by (simp add: from_database_def r fresh_def)
qed

lemma durable_fresh: "durable C fresh"
proof -
  have "rows (empty_db\<lparr>format := x\<rparr>) tb = []" for x tb by (simp add: rows_def empty_db_def)
  then show ?thesis
    by (simp add: durable_def fresh_def docs_ok_def get_any_empty wf_empty synced_def row_any_def bind_eq_None_conv)
       (auto split: option.splits simp: Option.bind_eq_Some_conv intro!: Option.bind_cong)?
qed

text \<open>Well-formed maps with the same lookups hold the same contexts.\<close>

lemma same_contexts:
  assumes "wf_inner i" "wf_inner i'" "get_any i = get_any i'"
  shows "contexts i = contexts i'"
proof (rule bm_ext)
  show "bm_get (contexts i) k = bm_get (contexts i') k" for k
    using fun_cong [OF assms(3), of "CtxKey k"] by simp
qed (use assms(1,2) in \<open>simp_all add: wf_inner_def\<close>)

end
