(* ===== verification/Naming.thy ===== *)
theory Naming
  imports Durable
begin

text \<open>
  Names that reach a path or a key: entity identifiers and attribute names cannot climb out of a URL path
  even after the peer decodes it, and a validated tenant makes its database keys unambiguous.
\<close>

subsection \<open>Folding the percent triplets of \<open>.\<close> and \<open>/\<close>\<close>

definition fold_dots :: "string \<Rightarrow> string" where
  "fold_dots s = str_replace ''%2f'' ''/'' (str_replace ''%2e'' ''.'' s)"

abbreviation fold_e :: "string \<Rightarrow> string" where "fold_e \<equiv> str_replace ''%2e'' ''.''"

lemma fold_e_Nil: "fold_e [] = []"
  by (subst str_replace.simps) simp

lemma fold_e_plain: "c \<noteq> CHR ''%'' \<Longrightarrow> fold_e (c # s) = c # fold_e s"
  by (subst str_replace.simps) simp

lemma fold_e_hit: "fold_e (CHR ''%'' # CHR ''2'' # CHR ''e'' # s) = CHR ''.'' # fold_e s"
  by (subst str_replace.simps) simp

lemma fold_e_miss: "strip_prefix ''2e'' s = None \<Longrightarrow> fold_e (CHR ''%'' # s) = CHR ''%'' # fold_e s"
  by (subst str_replace.simps) simp

lemma strip_prefix_head: "strip_prefix (p # ps) (c # s) = (if p = c then strip_prefix ps s else None)"
  by simp

lemma fold_e_head: "fold_e s = c # r \<Longrightarrow> c = CHR ''.'' \<or> c = CHR ''%'' \<or> (\<exists>r'. s = c # r' \<and> r = fold_e r' \<and> c \<noteq> CHR ''%'')"
  by (cases s) (auto simp: fold_e_Nil str_replace.simps [of _ _ "_ # _"] split: option.splits if_splits)

lemma fold_e_2f: "strip_prefix ''2f'' (fold_e s) = map_option fold_e (strip_prefix ''2f'' s)"
proof (cases "strip_prefix ''2f'' s")
  case None
  have "strip_prefix ''2f'' (fold_e s) = None"
  proof (rule ccontr)
    assume "strip_prefix ''2f'' (fold_e s) \<noteq> None"
    then obtain r where r: "fold_e s = CHR ''2'' # CHR ''f'' # r" by (auto simp: strip_prefix_Some_iff)
    from fold_e_head [OF this] obtain r' where r': "s = CHR ''2'' # r'" "CHR ''f'' # r = fold_e r'" by auto
    from fold_e_head [OF r'(2) [symmetric]] obtain r'' where "r' = CHR ''f'' # r''" by auto
    with r' None show False by simp
  qed
  with None show ?thesis by simp
next
  case (Some r)
  then show ?thesis by (auto simp: strip_prefix_Some_iff fold_e_plain)
qed

lemma fold_dots_Nil: "fold_dots [] = []"
  by (simp add: fold_dots_def fold_e_Nil str_replace.simps [of _ _ "[]"])

lemma fold_dots_plain: "c \<noteq> CHR ''%'' \<Longrightarrow> fold_dots (c # s) = c # fold_dots s"
  unfolding fold_dots_def by (simp add: fold_e_plain, subst str_replace.simps, simp)

lemma fold_dots_e: "fold_dots (CHR ''%'' # CHR ''2'' # CHR ''e'' # s) = CHR ''.'' # fold_dots s"
  unfolding fold_dots_def by (simp add: fold_e_hit, subst str_replace.simps, simp)

lemma fold_dots_f: "fold_dots (CHR ''%'' # CHR ''2'' # CHR ''f'' # s) = CHR ''/'' # fold_dots s"
  unfolding fold_dots_def by (simp add: fold_e_miss fold_e_plain, subst str_replace.simps, simp)

lemma fold_dots_miss:
  assumes "strip_prefix ''2e'' s = None" "strip_prefix ''2f'' s = None"
  shows "fold_dots (CHR ''%'' # s) = CHR ''%'' # fold_dots s"
proof -
  have "strip_prefix ''2f'' (fold_e s) = None" by (simp add: fold_e_2f assms(2))
  then show ?thesis
    unfolding fold_dots_def by (simp add: fold_e_miss [OF assms(1)], subst str_replace.simps, simp)
qed

subsection \<open>What the peer's decoder sees\<close>

definition slashes :: "string \<Rightarrow> string list" where
  "slashes s = split_on (\<lambda>c. c = CHR ''/'') s"

text \<open>Piece by piece, a decoded piece of dots only was already so in the folded text.\<close>

definition dots_kept :: "string \<Rightarrow> string \<Rightarrow> bool" where
  "dots_kept u v \<longleftrightarrow> (set v \<subseteq> {CHR ''.''} \<longrightarrow> u = v)"

definition tracks :: "string \<Rightarrow> string \<Rightarrow> bool" where
  "tracks s t \<longleftrightarrow> list_all2 dots_kept (slashes s) (slashes t)"

lemma tracks_slash: "tracks s t \<Longrightarrow> tracks (CHR ''/'' # s) (CHR ''/'' # t)"
  by (simp add: tracks_def slashes_def dots_kept_def)

lemma tracks_dot: "tracks s t \<Longrightarrow> tracks (CHR ''.'' # s) (CHR ''.'' # t)"
  by (auto simp: tracks_def slashes_def dots_kept_def split: list.splits)

lemma tracks_left: "c \<noteq> CHR ''/'' \<Longrightarrow> d \<noteq> CHR ''/'' \<Longrightarrow> d \<noteq> CHR ''.'' \<Longrightarrow> tracks s t \<Longrightarrow> tracks (c # s) (d # t)"
  by (auto simp: tracks_def slashes_def dots_kept_def split: list.splits)

lemma tracks_more: "c \<noteq> CHR ''/'' \<Longrightarrow> d \<noteq> CHR ''/'' \<Longrightarrow> d \<noteq> CHR ''.'' \<Longrightarrow> tracks s (d # t) \<Longrightarrow> tracks (c # s) (d # t)"
  by (auto simp: tracks_def slashes_def dots_kept_def split: list.splits)

lemma of_to_lower: "(of_char (to_lower c) :: nat) = (if 65 \<le> (of_char c :: nat) \<and> (of_char c :: nat) \<le> 90 then of_char c + 32 else of_char c)"
  by (simp add: to_lower_def)

lemma char_nat_eq: "c = d \<longleftrightarrow> (of_char c :: nat) = of_char d"
  by simp

lemma lower_special:
  "to_lower c = CHR ''/'' \<longleftrightarrow> c = CHR ''/''" "to_lower c = CHR ''.'' \<longleftrightarrow> c = CHR ''.''" "to_lower c = CHR ''%'' \<longleftrightarrow> c = CHR ''%''"
  "to_lower c = CHR ''2'' \<longleftrightarrow> c = CHR ''2''" "to_lower c = CHR ''e'' \<longleftrightarrow> c = CHR ''e'' \<or> c = CHR ''E''"
  "to_lower c = CHR ''f'' \<longleftrightarrow> c = CHR ''f'' \<or> c = CHR ''F''"
  unfolding char_nat_eq [of "to_lower c"] char_nat_eq [of c] of_to_lower by auto

lemma hex_of_char: "hex_val h = Some a \<Longrightarrow> hex_val l = Some b \<Longrightarrow>
    (of_char (char_of (16 * a + b) :: char) :: nat) = 16 * a + b"
  by (auto simp: hex_val_def is_digit_def Let_def split: if_splits)

lemma hex_val_cases:
  assumes "hex_val c = Some a"
  shows "a < 16" "a = 2 \<longleftrightarrow> to_lower c = CHR ''2''" "a = 14 \<longleftrightarrow> to_lower c = CHR ''e''" "a = 15 \<longleftrightarrow> to_lower c = CHR ''f''"
  unfolding char_nat_eq [of "to_lower _"] of_to_lower
  using assms by (auto simp: hex_val_def is_digit_def Let_def split: if_splits)

lemma hex_triplet:
  assumes "hex_val h = Some a" "hex_val l = Some b"
  shows "(char_of (16 * a + b) :: char) = CHR ''.'' \<longleftrightarrow> to_lower h = CHR ''2'' \<and> to_lower l = CHR ''e''"
    "(char_of (16 * a + b) :: char) = CHR ''/'' \<longleftrightarrow> to_lower h = CHR ''2'' \<and> to_lower l = CHR ''f''"
proof -
  have "a < 16" "b < 16" using hex_val_cases(1) assms by blast+
  then have "16 * a + b = 46 \<longleftrightarrow> a = 2 \<and> b = 14" "16 * a + b = 47 \<longleftrightarrow> a = 2 \<and> b = 15" by presburger+
  then show "(char_of (16 * a + b) :: char) = CHR ''.'' \<longleftrightarrow> to_lower h = CHR ''2'' \<and> to_lower l = CHR ''e''"
    "(char_of (16 * a + b) :: char) = CHR ''/'' \<longleftrightarrow> to_lower h = CHR ''2'' \<and> to_lower l = CHR ''f''"
    unfolding char_nat_eq [of "char_of _"] hex_of_char [OF assms]
    using hex_val_cases [OF assms(1)] hex_val_cases [OF assms(2)] by simp_all
qed

lemma hex_not_slash: "hex_val h = Some a \<Longrightarrow> h \<noteq> CHR ''/'' \<and> h \<noteq> CHR ''%''"
  by (auto simp: hex_val_def is_digit_def Let_def split: if_splits)

lemma tracks_same: "c \<noteq> CHR ''%'' \<Longrightarrow> tracks (fold_dots (map to_lower s)) t \<Longrightarrow>
    tracks (fold_dots (map to_lower (c # s))) (c # t)"
  by (cases "c = CHR ''/''"; cases "c = CHR ''.''")
     (auto simp: fold_dots_plain lower_special tracks_slash tracks_dot to_lower_def [of "CHR ''/''"] to_lower_def [of "CHR ''.''"] intro!: tracks_left)

lemma tracks_percent:
  assumes "\<not> (\<exists>h l r. s = h # l # r \<and> hex_val h \<noteq> None \<and> hex_val l \<noteq> None)" "tracks (fold_dots (map to_lower s)) t"
  shows "tracks (fold_dots (map to_lower (CHR ''%'' # s))) (CHR ''%'' # t)"
proof -
  have hex: "hex_val CHR ''2'' \<noteq> None" "to_lower l \<in> {CHR ''e'', CHR ''f''} \<Longrightarrow> hex_val l \<noteq> None" for l
    by (auto simp: lower_special hex_val_def is_digit_def)
  have "strip_prefix [CHR ''2'', x] (map to_lower s) = None" if "x = CHR ''e'' \<or> x = CHR ''f''" for x
  proof (rule ccontr)
    assume "strip_prefix [CHR ''2'', x] (map to_lower s) \<noteq> None"
    then obtain r where "map to_lower s = CHR ''2'' # x # r" by (auto simp: strip_prefix_Some_iff)
    then obtain h l r' where s: "s = h # l # r'" and h: "to_lower h = CHR ''2''" and l: "to_lower l = x"
      by (auto simp: map_eq_Cons_conv)
    have "hex_val h \<noteq> None" using h hex(1) by (simp add: lower_special)
    moreover have "hex_val l \<noteq> None" using l that by (intro hex(2)) auto
    ultimately show False using s assms(1) by blast
  qed
  then have "fold_dots (CHR ''%'' # map to_lower s) = CHR ''%'' # fold_dots (map to_lower s)"
    by (intro fold_dots_miss) auto
  then show ?thesis using assms(2) by (simp add: lower_special [THEN iffD2] tracks_left)
qed

lemma tracks_triplet:
  assumes "hex_val h = Some a" "hex_val l = Some b" "tracks (fold_dots (map to_lower s)) t"
  shows "tracks (fold_dots (map to_lower (CHR ''%'' # h # l # s))) (char_of (16 * a + b) # t)"
proof -
  have pc: "to_lower CHR ''%'' = CHR ''%''" by (simp add: lower_special)
  consider "to_lower h = CHR ''2''" "to_lower l = CHR ''e''" | "to_lower h = CHR ''2''" "to_lower l = CHR ''f''"
    | "\<not> (to_lower h = CHR ''2'' \<and> (to_lower l = CHR ''e'' \<or> to_lower l = CHR ''f''))" by blast
  then show ?thesis
  proof cases
    case 1
    then have "(char_of (16 * a + b) :: char) = CHR ''.''" using hex_triplet [OF assms(1,2)] by blast
    with 1 assms(3) pc show ?thesis by (simp add: fold_dots_e tracks_dot)
  next
    case 2
    then have "(char_of (16 * a + b) :: char) = CHR ''/''" using hex_triplet [OF assms(1,2)] by blast
    with 2 assms(3) pc show ?thesis by (simp add: fold_dots_f tracks_slash)
  next
    case 3
    then have c: "(char_of (16 * a + b) :: char) \<noteq> CHR ''.''" "(char_of (16 * a + b) :: char) \<noteq> CHR ''/''"
      using hex_triplet [OF assms(1,2)] by blast+
    have hl: "to_lower h \<noteq> CHR ''/''" "to_lower h \<noteq> CHR ''%''" "to_lower l \<noteq> CHR ''/''" "to_lower l \<noteq> CHR ''%''"
      using hex_not_slash assms(1,2) by (auto simp: lower_special)
    have "fold_dots (map to_lower (CHR ''%'' # h # l # s)) = CHR ''%'' # to_lower h # to_lower l # fold_dots (map to_lower s)"
      using 3 hl by (auto simp: pc fold_dots_miss fold_dots_plain)
    then show ?thesis using c hl assms(3) by (simp add: tracks_left tracks_more)
  qed
qed

lemma tracks_short: "length s \<le> 2 \<Longrightarrow> tracks (fold_dots (map to_lower s)) s"
proof (induction s)
  case Nil
  then show ?case by (simp add: fold_dots_Nil tracks_def slashes_def dots_kept_def)
next
  case (Cons c s)
  have "\<not> (\<exists>h l r. s = h # l # r \<and> hex_val h \<noteq> None \<and> hex_val l \<noteq> None)" using Cons.prems by auto
  with Cons show ?case
    using tracks_same [of c s s] tracks_percent [of s s] by (cases "c = CHR ''%''") (simp_all del: list.map)
qed

lemma tracks_decode: "tracks (fold_dots (map to_lower s)) (percent_bytes s)"
proof (induction s rule: percent_bytes.induct)
  case (1 c h l s)
  show ?case
  proof (cases "c = CHR ''%''")
    case False
    with 1 show ?thesis by (simp add: tracks_same del: list.map)
  next
    case True
    show ?thesis
    proof (cases "hex_val h \<noteq> None \<and> hex_val l \<noteq> None")
      case True
      with 1 \<open>c = _\<close> show ?thesis by (auto simp: tracks_triplet simp del: list.map)
    next
      case False
      with 1 True show ?thesis
        using tracks_percent [of "h # l # s" "percent_bytes (h # l # s)"]
        by (auto split: option.splits simp del: list.map)
    qed
  qed
qed (simp_all add: tracks_short del: list.map)

lemma has_dot_segment_fold: "has_dot_segment s \<longleftrightarrow> (\<exists>g\<in>set (slashes (fold_dots (map to_lower s))). g = ''.'' \<or> g = ''..'')"
  by (simp add: has_dot_segment_def fold_dots_def slashes_def to_ascii_lowercase_def list_ex_iff)

lemma no_dot_segment_decoded:
  assumes "\<not> has_dot_segment s"
  shows "''.'' \<notin> set (slashes (percent_bytes s)) \<and> ''..'' \<notin> set (slashes (percent_bytes s))"
proof -
  have kept: "g \<in> set (slashes (fold_dots (map to_lower s)))" if "g \<in> set (slashes (percent_bytes s))" "set g \<subseteq> {CHR ''.''}" for g
  proof -
    from that(1) have "\<exists>i<length (slashes (percent_bytes s)). slashes (percent_bytes s) ! i = g"
      unfolding in_set_conv_nth .
    then obtain i where i: "i < length (slashes (percent_bytes s))" "slashes (percent_bytes s) ! i = g" by blast
    then have "i < length (slashes (fold_dots (map to_lower s)))" "dots_kept (slashes (fold_dots (map to_lower s)) ! i) g"
      using tracks_decode [of s] by (auto simp: tracks_def list_all2_conv_all_nth)
    with that(2) show ?thesis by (metis dots_kept_def nth_mem)
  qed
  have "set ''.'' \<subseteq> {CHR ''.''}" "set ''..'' \<subseteq> {CHR ''.''}" by simp_all
  with assms kept show ?thesis unfolding has_dot_segment_fold by blast
qed

subsection \<open>Tenants\<close>

lemma utf8_ascii: "list_all is_ascii s \<Longrightarrow> utf8_ok s"
proof (induction s)
  case Nil
  then show ?case by (simp add: utf8_ok.simps)
next
  case (Cons c s)
  then have "byte_val c < 128" by (simp add: is_ascii_def byte_val_def) (metis of_nat_less_iff of_nat_numeral of_nat_of_char)
  then have "utf8_step (c # s) = (1, True)" by (simp add: utf8_step_def)
  with Cons show ?case by (simp add: utf8_ok.simps [of "c # s"])
qed

lemma tenant_byte_ascii: "tenant_byte c \<Longrightarrow> is_ascii c \<and> c \<noteq> byte 0"
  unfolding char_nat_eq [of c "byte 0"]
  by (auto simp: tenant_byte_def is_alnum_def is_alpha_def is_digit_def is_ascii_def)

lemma tenant_key_ok:
  assumes "tenant_new_internal raw = Ok t" "utf8_ok d"
  shows "key_ok (DocKey k t d)"
proof -
  have t: "list_all tenant_byte t" using assms(1) by (auto simp: tenant_new_internal_def split: if_splits)
  then have "list_all is_ascii t" "byte 0 \<notin> set t" using tenant_byte_ascii by (fastforce simp: list_all_iff)+
  moreover have "table_for k \<noteq> T_JSONLD_CONTEXTS" "kind_of (table_for k) = k" by (cases k; simp)+
  ultimately show ?thesis
    using assms(2) by (simp add: key_ok_def unkey_def split_key_def key_bytes_def split_once_append utf8_ascii)
qed

text \<open>A validated tenant makes the database key of a document unambiguous: splitting the key gives back tenant and id.\<close>

lemma tenant_keys_split:
  assumes "tenant_new_internal raw = Ok t" "utf8_ok d"
  shows "split_key (key_bytes t d) = Some (t, d)"
  using tenant_key_ok [OF assms, of Entity] by (auto simp: key_ok_def unkey_def)

end
