(* ===== verification/StoreSpec.thy ===== *)
theory StoreSpec
  imports Durable
begin

text \<open>
  What the store promises.  The abstract store is the live view: a map from (kind, tenant, id) to the
  documents a reader may see, in which an expired entity is absent.  Every operation of the in-memory
  store is the evident operation on that map.
\<close>

type_synonym live_view = "doc_kind \<times> string \<times> string \<Rightarrow> json option"

definition alive :: "ext \<Rightarrow> string \<Rightarrow> doc_kind \<Rightarrow> json \<Rightarrow> json option" where
  "alive E now k j = (if k = Entity \<and> expired_at E now j then None else Some j)"

definition live :: "ext \<Rightarrow> string \<Rightarrow> store \<Rightarrow> live_view" where
  "live E now st = (\<lambda>(k, t, d). Option.bind (doc_at (st_inner st) k t d) (alive E now k))"

lemma is_expired_alive:
  "is_expired E now i k t d \<longleftrightarrow> (\<exists>j. doc_at i k t d = Some j \<and> alive E now k j = None)"
  by (auto simp: is_expired_def alive_def split: option.splits)

lemma alive_same: "alive E now k j = Some x \<Longrightarrow> x = j"
  by (simp add: alive_def split: if_splits)

lemma live_None: "live E now st (k, t, d) = None \<longleftrightarrow>
    doc_at (st_inner st) k t d = None \<or> is_expired E now (st_inner st) k t d"
  by (cases "doc_at (st_inner st) k t d") (auto simp: live_def is_expired_alive)

lemma live_Some: "live E now st (k, t, d) = Some j \<longleftrightarrow>
    doc_at (st_inner st) k t d = Some j \<and> \<not> is_expired E now (st_inner st) k t d"
  by (auto simp: live_def is_expired_alive bind_eq_Some_conv dest: alive_same)

lemma live_put: "live E now (st\<lparr>st_inner := put_doc k t d j i\<rparr>) = (live E now (st\<lparr>st_inner := i\<rparr>))((k, t, d) := alive E now k j)"
  by (simp add: live_def doc_at_put fun_eq_iff)

lemma live_del: "live E now (st\<lparr>st_inner := del_doc k t d i\<rparr>) = (live E now (st\<lparr>st_inner := i\<rparr>))((k, t, d) := None)"
  by (simp add: live_def doc_at_del fun_eq_iff)

lemma live_inner: "st_inner st = st_inner st' \<Longrightarrow> live E now st = live E now st'"
  by (simp add: live_def)

lemma live_persist [simp]: "live E now (persist C tb key v st) = live E now st"
  by (rule live_inner) simp

lemma live_emit [simp]: "live E now (emit_if b t x y st) = live E now st" "live E now (emit t x y st) = live E now st"
  by (rule live_inner, simp, rule live_inner, simp add: emit_def)

subsection \<open>Operations on the live view\<close>

lemma create_live:
  "fst (create E C now t k d j st) = (live E now st (k, t, d) = None)
   \<and> live E now (snd (create E C now t k d j st)) =
      (if live E now st (k, t, d) = None then (live E now st)((k, t, d) := alive E now k j) else live E now st)"
  by (auto simp: create_def live_None live_put)

lemma upsert_live:
  "fst (upsert E C now t k d j st) = (live E now st (k, t, d) \<noteq> None)
   \<and> live E now (snd (upsert E C now t k d j st)) = (live E now st)((k, t, d) := alive E now k j)"
  by (auto simp: upsert_def Let_def live_None live_put)

lemma delete_live:
  "fst (delete E C now t k d st) = (live E now st (k, t, d) \<noteq> None)
   \<and> live E now (snd (delete E C now t k d st)) = (live E now st)((k, t, d) := None)"
proof (cases "live E now st (k, t, d)")
  case None
  then have "(live E now st)((k, t, d) := None) = live E now st" by auto
  moreover have "delete E C now t k d st = (False, st)"
    using None by (auto simp: delete_def live_None)
  ultimately show ?thesis using None by simp
next
  case (Some j)
  then show ?thesis by (simp add: delete_def live_Some live_del)
qed

lemma delete_if_live:
  "fst (delete_if E C now t d keep st) = (case live E now st (Entity, t, d) of Some j \<Rightarrow> if keep j then Some j else None | None \<Rightarrow> None)
   \<and> live E now (snd (delete_if E C now t d keep st)) =
      (if fst (delete_if E C now t d keep st) = None then live E now st else (live E now st)((Entity, t, d) := None))"
proof (cases "live E now st (Entity, t, d)")
  case None
  then have "delete_if E C now t d keep st = (None, st)"
    by (auto simp: delete_if_def live_None)
  with None show ?thesis by simp
next
  case (Some j)
  then have "doc_at (st_inner st) Entity t d = Some j" "\<not> is_expired E now (st_inner st) Entity t d"
    by (simp_all add: live_Some)
  with Some show ?thesis by (simp add: delete_if_def live_del)
qed

lemma mutate_live:
  "fst (mutate E C now t k d f st) = map_option (\<lambda>j. map_sum id fst (f j)) (live E now st (k, t, d))
   \<and> live E now (snd (mutate E C now t k d f st)) =
      (case Option.bind (live E now st (k, t, d)) (\<lambda>j. case f j of Inr (x, c) \<Rightarrow> Some c | Inl _ \<Rightarrow> None) of
         Some c \<Rightarrow> (live E now st)((k, t, d) := alive E now k c)
       | None \<Rightarrow> live E now st)"
proof (cases "live E now st (k, t, d)")
  case None
  then have "mutate E C now t k d f st = (None, st)"
    by (auto simp: mutate_def live_None)
  with None show ?thesis by simp
next
  case (Some j)
  then have at: "doc_at (st_inner st) k t d = Some j" "\<not> is_expired E now (st_inner st) k t d"
    by (simp_all add: live_Some)
  show ?thesis
  proof (cases "f j")
    case (Inr r)
    then show ?thesis using at Some
      by (cases r) (simp add: mutate_def live_put Let_def)
  qed (simp add: mutate_def at Some)
qed

subsection \<open>The change hook\<close>

lemma emitted_simps [simp]:
  "st_emitted (persist C tb key v st) = st_emitted st" "st_hook (persist C tb key v st) = st_hook st"
  by (auto simp: persist_def split: option.splits)

lemma emitted_emit_if [simp]:
  "st_emitted (emit_if b t x y st) = st_emitted st @ (if b \<and> st_hook st then [(t, x, y)] else [])"
  by (simp add: emit_if_def emit_def)

text \<open>The events an operation reports, from the view it started in.\<close>

fun reported :: "live_view \<Rightarrow> op \<Rightarrow> (string \<times> json option \<times> json option) list" where
  "reported A (OCreate t k d j) = (if k = Entity \<and> A (k, t, d) = None then [(t, None, Some j)] else [])"
| "reported A (OUpsert t k d j) = (if k = Entity then [(t, A (k, t, d), Some j)] else [])"
| "reported A (ODelete t k d) = (if k = Entity \<and> A (k, t, d) \<noteq> None then [(t, A (k, t, d), None)] else [])"
| "reported A (ODeleteIf t d keep) = (case A (Entity, t, d) of
      Some j \<Rightarrow> if keep j then [(t, Some j, None)] else [] | None \<Rightarrow> [])"
| "reported A (OMutate t k d f) = (case A (k, t, d) of
      Some j \<Rightarrow> (case f j of Inr (x, c) \<Rightarrow> if k = Entity \<and> c \<noteq> j then [(t, Some j, Some c)] else [] | Inl _ \<Rightarrow> [])
    | None \<Rightarrow> [])"
| "reported A _ = []"

lemma emit_is_emit_if: "emit t x y st = emit_if True t x y st"
  by (simp add: emit_if_def)

lemma live_case:
  obtains (absent) "live E now st (k, t, d) = None" "doc_at (st_inner st) k t d = None \<or> is_expired E now (st_inner st) k t d"
  | (present) j where "live E now st (k, t, d) = Some j" "doc_at (st_inner st) k t d = Some j"
      "\<not> is_expired E now (st_inner st) k t d"
  by (cases "live E now st (k, t, d)") (auto simp: live_None live_Some)

lemma emitted_fold:
  "(\<And>x st. st_emitted (f x st) = st_emitted st) \<Longrightarrow> st_emitted (fold f xs st) = st_emitted st"
  by (induction xs arbitrary: st) simp_all

lemma emitted_fold_snd:
  "(\<And>x s. st_emitted (snd (f x s)) = st_emitted (snd s)) \<Longrightarrow> st_emitted (snd (fold f xs s)) = st_emitted (snd s)"
  by (induction xs arbitrary: s) simp_all

lemma emitted_persist_all [simp]: "st_emitted (persist_all C tb t ds st) = st_emitted st"
  unfolding persist_all_def by (rule emitted_fold) simp

lemma emitted_purge_kinds [simp]: "st_emitted (snd (purge_kinds C t ks st)) = st_emitted st"
proof -
  have "st_emitted (snd (purge_kind C t k s)) = st_emitted (snd s)" for k s
    by (simp add: purge_kind_def split: prod.split option.split)
  then show ?thesis using emitted_fold_snd [of "purge_kind C t"] by (simp add: purge_kinds_def)
qed

lemma emitted_context_drop [simp]: "st_emitted (context_drop C d st) = st_emitted st"
  by (simp add: context_drop_def Let_def)

lemma emitted_sweep [simp]: "st_emitted (snd (sweep_expired E C now st)) = st_emitted st"
proof -
  have "st_emitted (snd (prune_doc E C now k e s)) = st_emitted (snd s)" for k e s
    by (simp add: prune_doc_def split: prod.split)
  then have p: "st_emitted (snd (fold (prune_doc E C now k) es s)) = st_emitted (snd s)" for k es s
    by (rule emitted_fold_snd)
  have "st_emitted (fold (reap C) es s) = st_emitted s" for es s
    by (rule emitted_fold) (simp add: reap_def Let_def split: prod.split)
  then show ?thesis by (simp add: sweep_expired_def Let_def p)
qed

lemma emitted_rest [simp]:
  "st_emitted (snd (purge_tenant C t st)) = st_emitted st"
  "st_emitted (snd (context_put C owner d j st)) = st_emitted st"
  "st_emitted (snd (context_delete C owner d st)) = st_emitted st"
proof -
  have f: "st_emitted (fold (context_drop C) ds s) = st_emitted s" for ds s by (rule emitted_fold) simp
  show "st_emitted (snd (purge_tenant C t st)) = st_emitted st"
    using emitted_purge_kinds [of C t ALL_KINDS st]
    by (cases "purge_kinds C t ALL_KINDS st") (simp add: purge_tenant_def f del: emitted_purge_kinds)
  show "st_emitted (snd (context_put C owner d j st)) = st_emitted st"
    by (simp add: context_put_def Let_def f)
  show "st_emitted (snd (context_delete C owner d st)) = st_emitted st"
    by (simp add: context_delete_def split: option.split)
qed

lemma emitted_step:
  "st_emitted (step E C (now, x) st) = st_emitted st @ (if st_hook st then reported (live E now st) x else [])"
proof (cases x)
  case (OCreate t k d j)
  show ?thesis unfolding OCreate
    by (rule live_case [of E now st k t d]) (auto simp: create_def)
next
  case (OUpsert t k d j)
  show ?thesis unfolding OUpsert
    by (rule live_case [of E now st k t d]) (auto simp: upsert_def Let_def is_expired_alive)
next
  case (ODelete t k d)
  show ?thesis unfolding ODelete
    by (rule live_case [of E now st k t d]) (auto simp: delete_def split: option.split)
next
  case (ODeleteIf t d keep)
  show ?thesis unfolding ODeleteIf
    by (rule live_case [of E now st Entity t d]) (auto simp: delete_if_def emit_is_emit_if split: option.split)
next
  case (OMutate t k d f)
  show ?thesis unfolding OMutate
    by (rule live_case [of E now st k t d]) (auto simp: mutate_def Let_def split: option.split sum.split)
qed simp_all

subsection \<open>Purging\<close>

lemma doc_at_kmap: "kmap k i = kmap k i' \<Longrightarrow> doc_at i k t d = doc_at i' k t d"
  by (simp add: doc_at_def tenant_docs_def)

lemma purge_kind_kmap:
  "kmap k' (st_inner (snd (purge_kind C t k s))) =
     (if k' = k then bm_remove t (kmap k (st_inner (snd s))) else kmap k' (st_inner (snd s)))"
proof (cases "bm_get (kmap k (st_inner (snd s))) t")
  case None
  then have "bm_remove t (kmap k (st_inner (snd s))) = kmap k (st_inner (snd s))"
    by (auto simp: bm_remove_def bm_get_None_iff filter_id_conv)
  with None show ?thesis by (cases s) (simp add: purge_kind_def)
next
  case (Some m)
  then show ?thesis by (cases s) (simp add: purge_kind_def kmap_set_other)
qed

lemma contexts_persist_purge [simp]: "contexts (st_inner (snd (purge_kind C t k s))) = contexts (st_inner (snd s))"
  by (simp add: purge_kind_def split: prod.split option.split)

lemma bm_remove_idem [simp]: "bm_remove t (bm_remove t m) = bm_remove t m"
  by (simp add: bm_remove_def)

lemma purge_kinds_kmap:
  "kmap k (st_inner (snd (purge_kinds C t ks st))) =
     (if k \<in> set ks then bm_remove t (kmap k (st_inner st)) else kmap k (st_inner st))"
proof -
  have "kmap k (st_inner (snd (fold (purge_kind C t) ks s))) =
     (if k \<in> set ks then bm_remove t (kmap k (st_inner (snd s))) else kmap k (st_inner (snd s)))" for s
    by (induction ks arbitrary: s) (auto simp: purge_kind_kmap)
  then show ?thesis by (simp add: purge_kinds_def)
qed

lemma purge_kinds_contexts [simp]: "contexts (st_inner (snd (purge_kinds C t ks st))) = contexts (st_inner st)"
proof -
  have "contexts (st_inner (snd (fold (purge_kind C t) ks s))) = contexts (st_inner (snd s))" for s
    by (induction ks arbitrary: s) simp_all
  then show ?thesis by (simp add: purge_kinds_def)
qed

lemma purge_kinds_hit: "fst (purge_kinds C t ks st) = list_ex (\<lambda>k. bm_contains (kmap k (st_inner st)) t) ks"
proof -
  have "fst (fold (purge_kind C t) ks s) \<longleftrightarrow> fst s \<or> list_ex (\<lambda>k. bm_contains (kmap k (st_inner (snd s))) t) ks" for s
  proof (induction ks arbitrary: s)
    case (Cons k ks)
    have "fst (purge_kind C t k s) \<longleftrightarrow> fst s \<or> bm_contains (kmap k (st_inner (snd s))) t"
      by (auto simp: purge_kind_def bm_contains_def split: prod.split option.split)
    moreover have "list_ex (\<lambda>k'. bm_contains (kmap k' (st_inner (snd (purge_kind C t k s)))) t) ks
        \<or> bm_contains (kmap k (st_inner (snd s))) t
        \<longleftrightarrow> list_ex (\<lambda>k'. bm_contains (kmap k' (st_inner (snd s))) t) ks \<or> bm_contains (kmap k (st_inner (snd s))) t"
      by (auto simp: list_ex_iff purge_kind_kmap bm_contains_def)
    ultimately show ?case using Cons by auto
  qed simp
  then show ?thesis by (simp add: purge_kinds_def)
qed

lemma context_drop_inner [simp]:
  "kmap k (st_inner (context_drop C d st)) = kmap k (st_inner st)"
  "contexts (st_inner (context_drop C d st)) = bm_remove d (contexts (st_inner st))"
  by (simp_all add: context_drop_def Let_def)

lemma context_drops_inner:
  "kmap k (st_inner (fold (context_drop C) ds st)) = kmap k (st_inner st)"
  "contexts (st_inner (fold (context_drop C) ds st)) = filter (\<lambda>e. fst e \<notin> set ds) (contexts (st_inner st))"
  by (induction ds arbitrary: st) (simp_all add: bm_remove_def conj_commute)

text \<open>Purging a tenant: whether it existed, every other tenant untouched, nothing of its own left.\<close>

lemma purge_tenant_eq:
  assumes "wf_inner (st_inner st)"
  shows "fst (purge_tenant C t st) = tenant_exists t st
    \<and> (\<forall>k. kmap k (st_inner (snd (purge_tenant C t st))) = bm_remove t (kmap k (st_inner st)))
    \<and> contexts (st_inner (snd (purge_tenant C t st))) = filter (\<lambda>e. context_row_owner (snd e) \<noteq> Some t) (contexts (st_inner st))"
proof -
  obtain b st1 where p: "purge_kinds C t ALL_KINDS st = (b, st1)" by (cases "purge_kinds C t ALL_KINDS st")
  have c1: "contexts (st_inner st1) = contexts (st_inner st)" using purge_kinds_contexts [of C t ALL_KINDS st] p by simp
  have k1: "kmap k (st_inner st1) = bm_remove t (kmap k (st_inner st))" for k
    using purge_kinds_kmap [of k C t ALL_KINDS st] p by (simp add: ALL_KINDS_all)
  have b: "b = tenant_exists t st" using purge_kinds_hit [of C t ALL_KINDS st] p by (simp add: tenant_exists_def)
  have fn: "distinct (map fst (contexts (st_inner st)))" using assms by (simp add: wf_inner_def bm_distinct)
  have "fst e \<in> fst ` {x \<in> set (contexts (st_inner st)). context_row_owner (snd x) = Some t}
      \<longleftrightarrow> context_row_owner (snd e) = Some t" if e: "e \<in> set (contexts (st_inner st))" for e
  proof
    assume "fst e \<in> fst ` {x \<in> set (contexts (st_inner st)). context_row_owner (snd x) = Some t}"
    then obtain x where xe: "fst e = fst x" and xs: "x \<in> {x \<in> set (contexts (st_inner st)). context_row_owner (snd x) = Some t}"
      by (rule imageE)
    then have x: "x \<in> set (contexts (st_inner st))" "context_row_owner (snd x) = Some t" "fst x = fst e" by simp_all
    have "snd x = snd e"
      by (rule eq_key_imp_eq_value [OF fn, of "fst e"]) (use x(1,3) e in \<open>simp_all add: prod_eq_iff [symmetric]\<close>, metis prod.collapse)
    with x(2) show "context_row_owner (snd e) = Some t" by simp
  qed (use e in blast)
  then have f: "filter (\<lambda>e. fst e \<notin> fst ` {x \<in> set (contexts (st_inner st)). context_row_owner (snd x) = Some t}) (contexts (st_inner st))
      = filter (\<lambda>e. context_row_owner (snd e) \<noteq> Some t) (contexts (st_inner st))"
    by (intro filter_cong) simp_all
  show ?thesis
    by (simp add: purge_tenant_def p b k1 c1 context_drops_inner f)
qed

subsection \<open>The sweep\<close>

lemma expired_ignores_attributes:
  assumes "\<And>k. List.member ENTITY_META_KEYS k \<Longrightarrow> bm_get m' k = bm_get m k"
  shows "expired_at E now (JObj m') = expired_at E now (JObj m)"
proof -
  have "bm_get m' ''expiresAt'' = bm_get m ''expiresAt''" by (rule assms) (simp add: ENTITY_META_KEYS_def)
  then show ?thesis by (simp only: expired_at_def jget.simps)
qed

lemma prune_attr_get:
  "\<not> List.member ENTITY_META_KEYS k \<Longrightarrow> List.member ENTITY_META_KEYS q \<Longrightarrow>
     bm_get (fst (prune_attr E now k s)) q = bm_get (fst s) q"
  by (auto simp: prune_attr_def Let_def split: prod.split option.split)

lemma prune_changed: "snd (prune_attr E now k s) \<or> fst (prune_attr E now k s) = fst s"
  "snd s \<Longrightarrow> snd (prune_attr E now k s)"
  by (auto simp: prune_attr_def Let_def split: prod.split option.split)

lemma prune_fold_changed:
  "snd (fold (prune_attr E now) ks s) \<or> fst (fold (prune_attr E now) ks s) = fst s"
proof (induction ks arbitrary: s)
  case (Cons k ks)
  have mono: "snd s \<Longrightarrow> snd (fold (prune_attr E now) ks s)" for s
    by (induction ks arbitrary: s) (simp_all add: prune_changed)
  show ?case
    using Cons.IH [of "prune_attr E now k s"] mono [of "prune_attr E now k s"] prune_changed(1) [of E now k s]
    by (metis fold_simps(2))
qed simp

lemma prune_unchanged:
  assumes "\<not> snd (prune_expired_instances E now j)"
  shows "fst (prune_expired_instances E now j) = j"
proof (cases j)
  case (JObj m)
  show ?thesis
    using prune_fold_changed [of E now "filter (\<lambda>k. \<not> List.member ENTITY_META_KEYS k) (bm_keys m)" "(m, False)"] assms
    by (simp add: prune_expired_instances_def JObj split: prod.splits)
qed (simp_all add: prune_expired_instances_def)

lemma prune_expired_at: "expired_at E now (fst (prune_expired_instances E now j)) = expired_at E now j"
proof (cases j)
  case (JObj m)
  have "bm_get (fst (fold (prune_attr E now) ks s)) q = bm_get (fst s) q"
    if "List.member ENTITY_META_KEYS q" "list_all (\<lambda>k. \<not> List.member ENTITY_META_KEYS k) ks" for ks s q
    using that by (induction ks arbitrary: s) (simp_all add: prune_attr_get)
  then show ?thesis
    by (auto simp: prune_expired_instances_def JObj list_all_iff intro!: expired_ignores_attributes split: prod.split)
       (metis (no_types, lifting) fst_conv mem_Collect_eq set_filter)
qed (simp_all add: prune_expired_instances_def)

lemma all_docs_iff:
  assumes "wf_inner i"
  shows "(t, d, j) \<in> set (all_docs (kmap k i)) \<longleftrightarrow> doc_at i k t d = Some j"
proof
  assume "doc_at i k t d = Some j"
  then obtain m where "bm_get (kmap k i) t = Some m" "bm_get m d = Some j"
    by (auto simp: doc_at_def tenant_docs_def split: option.splits)
  then have "(t, m) \<in> set (kmap k i)" "(d, j) \<in> set m" by (simp_all add: bm_get_SomeD)
  then show "(t, d, j) \<in> set (all_docs (kmap k i))" by (force simp: all_docs_def)
qed (simp add: all_docs_at assms)

lemma reap_inner: "st_inner (reap C (t, d) st) = del_doc Entity t d (st_inner st)"
  by (simp add: reap_def)

lemma reaps_doc:
  "doc_at (st_inner (fold (reap C) es st)) k t d =
     (if k = Entity \<and> (t, d) \<in> set es then None else doc_at (st_inner st) k t d)"
proof (induction es arbitrary: st)
  case (Cons e es)
  obtain a b where e: "e = (a, b)" by (cases e)
  show ?case unfolding e fold_simps Cons.IH by (auto simp: reap_inner doc_at_del)
qed simp

lemma reaps_wf: "wf_inner (st_inner st) \<Longrightarrow> wf_inner (st_inner (fold (reap C) es st))"
  by (induction es arbitrary: st) (auto simp: reap_inner wf_del_doc)

lemma prune_doc_at:
  "doc_at (st_inner (snd (prune_doc E C now k (t, d, j) s))) k' t' d' =
     (if k' = k \<and> t' = t \<and> d' = d \<and> snd (prune_expired_instances E now j)
      then Some (fst (prune_expired_instances E now j)) else doc_at (st_inner (snd s)) k' t' d')"
  by (simp add: prune_doc_def doc_at_put split: prod.split)

lemma prunes_wf: "wf_inner (st_inner (snd s)) \<Longrightarrow> wf_inner (st_inner (snd (fold (prune_doc E C now k) es s)))"
proof (induction es arbitrary: s)
  case (Cons e es)
  have "wf_inner (st_inner (snd (prune_doc E C now k e s)))"
    using Cons.prems by (auto simp: prune_doc_def wf_put_doc split: prod.split)
  with Cons.IH show ?case by simp
qed simp

lemma prunes_doc:
  assumes "\<And>t d j. (t, d, j) \<in> set es \<Longrightarrow>
      doc_at (st_inner (snd s)) k t d \<in> {Some j, Some (fst (prune_expired_instances E now j))}"
    and "\<And>t d j j'. (t, d, j) \<in> set es \<Longrightarrow> (t, d, j') \<in> set es \<Longrightarrow> j = j'"
  shows "(\<forall>j. (t, d, j) \<in> set es \<longrightarrow> doc_at (st_inner (snd (fold (prune_doc E C now k) es s))) k t d
            = Some (fst (prune_expired_instances E now j)))
    \<and> (\<forall>k'. k' \<noteq> k \<or> (\<forall>j. (t, d, j) \<notin> set es) \<longrightarrow>
         doc_at (st_inner (snd (fold (prune_doc E C now k) es s))) k' t d = doc_at (st_inner (snd s)) k' t d)"
  using assms
proof (induction es arbitrary: s)
  case (Cons e es)
  obtain t0 d0 j0 where e: "e = (t0, d0, j0)" by (cases e)
  let ?s = "prune_doc E C now k e s"
  have at: "doc_at (st_inner (snd ?s)) k t0 d0 = Some (fst (prune_expired_instances E now j0))"
    using Cons.prems(1) [of t0 d0 j0] prune_unchanged [of E now j0] by (auto simp: e prune_doc_at)
  have off: "doc_at (st_inner (snd ?s)) q t1 d1 = doc_at (st_inner (snd s)) q t1 d1"
    if "q \<noteq> k \<or> (t1, d1) \<noteq> (t0, d0)" for q t1 d1
    using that by (auto simp: e prune_doc_at)
  have pre: "doc_at (st_inner (snd ?s)) k t1 d1 \<in> {Some j1, Some (fst (prune_expired_instances E now j1))}"
    if "(t1, d1, j1) \<in> set es" for t1 d1 j1
    using Cons.prems(1) [of t1 d1 j1] Cons.prems(2) [of t1 d1 j1 j0] that off [of k t1 d1] at
    by (cases "(t1, d1) = (t0, d0)") (auto simp: e)
  have fn: "\<And>t d j j'. (t, d, j) \<in> set es \<Longrightarrow> (t, d, j') \<in> set es \<Longrightarrow> j = j'"
    using Cons.prems(2) by (meson list.set_intros(2))
  have IH: "(\<forall>j. (t, d, j) \<in> set es \<longrightarrow> doc_at (st_inner (snd (fold (prune_doc E C now k) es ?s))) k t d
            = Some (fst (prune_expired_instances E now j)))
    \<and> (\<forall>k'. k' \<noteq> k \<or> (\<forall>j. (t, d, j) \<notin> set es) \<longrightarrow>
         doc_at (st_inner (snd (fold (prune_doc E C now k) es ?s))) k' t d = doc_at (st_inner (snd ?s)) k' t d)"
    by (rule Cons.IH [of ?s, OF pre fn])
  have uniq: "\<And>j'. (t0, d0, j') \<in> set es \<Longrightarrow> j' = j0"
    using Cons.prems(2) [of t0 d0 _ j0] by (simp add: e)
  let ?fin = "snd (fold (prune_doc E C now k) es ?s)"
  have hit: "doc_at (st_inner ?fin) k t d = Some (fst (prune_expired_instances E now j))" if "(t, d, j) \<in> set (e # es)" for j
  proof (cases "(t, d, j) \<in> set es")
    case False
    with that have here: "t = t0" "d = d0" "j = j0" by (simp_all add: e)
    with False uniq have "\<forall>j. (t, d, j) \<notin> set es" by blast
    then show ?thesis using IH at here by simp
  qed (use IH in blast)
  have miss: "doc_at (st_inner ?fin) k' t d = doc_at (st_inner (snd s)) k' t d" if "k' \<noteq> k \<or> (\<forall>j. (t, d, j) \<notin> set (e # es))" for k'
  proof -
    have "k' \<noteq> k \<or> (t, d) \<noteq> (t0, d0)" using that by (auto simp: e)
    with off have "doc_at (st_inner (snd ?s)) k' t d = doc_at (st_inner (snd s)) k' t d" by blast
    with IH that show ?thesis by simp
  qed
  show ?case using hit miss by simp
qed simp

lemma prune_all_doc:
  assumes "wf_inner (st_inner (snd s))"
  shows "doc_at (st_inner (snd (fold (prune_doc E C now k) (all_docs (kmap k (st_inner (snd s)))) s))) k' t d =
    (if k' = k then map_option (\<lambda>j. fst (prune_expired_instances E now j)) (doc_at (st_inner (snd s)) k t d)
     else doc_at (st_inner (snd s)) k' t d)"
proof -
  let ?es = "all_docs (kmap k (st_inner (snd s)))"
  have "\<And>t d j. (t, d, j) \<in> set ?es \<longleftrightarrow> doc_at (st_inner (snd s)) k t d = Some j"
    by (rule all_docs_iff [OF assms])
  then show ?thesis
    using prunes_doc [of ?es s k E now t d C] by (cases "doc_at (st_inner (snd s)) k t d") auto
qed

text \<open>After a sweep the entities are the live ones, pruned; the evolutions are pruned; nothing else changed.\<close>

lemma sweep_docs:
  assumes "wf_inner (st_inner st)"
  shows "doc_at (st_inner (snd (sweep_expired E C now st))) k t d =
    (let j = live E now st (k, t, d) in
     if k = Entity \<or> k = Temporal then map_option (\<lambda>j. fst (prune_expired_instances E now j)) j else j)"
proof -
  define dead where "dead = map (\<lambda>(t, d, j). (t, d)) (filter (\<lambda>(t, d, j). expired_at E now j) (all_docs (kmap Entity (st_inner st))))"
  define s where "s = (length dead, fold (reap C) dead st)"
  define s2 where "s2 = fold (prune_doc E C now Entity) (all_docs (kmap Entity (st_inner (snd s)))) s"
  have eq: "sweep_expired E C now st = fold (prune_doc E C now Temporal) (all_docs (kmap Temporal (st_inner (snd s2)))) s2"
    by (simp add: sweep_expired_def Let_def s2_def s_def dead_def)
  have "(t, d) \<in> set dead \<longleftrightarrow> (\<exists>j. doc_at (st_inner st) Entity t d = Some j \<and> expired_at E now j)" for t d
  proof -
    have "(t, d) \<in> set dead \<longleftrightarrow> (\<exists>j. (t, d, j) \<in> set (all_docs (kmap Entity (st_inner st))) \<and> expired_at E now j)"
      by (auto simp: dead_def simp del: kmap.simps) (rule rev_image_eqI, auto)
    then show ?thesis by (simp only: all_docs_iff [OF assms])
  qed
  then have s: "doc_at (st_inner (snd s)) k t d = live E now st (k, t, d)" for k t d
    by (cases "doc_at (st_inner st) k t d") (auto simp: s_def reaps_doc live_def alive_def)
  have w1: "wf_inner (st_inner (snd s))" by (simp add: s_def reaps_wf assms)
  then have w2: "wf_inner (st_inner (snd s2))" by (simp add: s2_def prunes_wf)
  have s2: "doc_at (st_inner (snd s2)) k t d =
      (if k = Entity then map_option (\<lambda>j. fst (prune_expired_instances E now j)) (live E now st (k, t, d)) else live E now st (k, t, d))" for k
    unfolding s2_def prune_all_doc [OF w1] s by simp
  show ?thesis
    unfolding eq prune_all_doc [OF w2] s2 by (simp add: Let_def)
qed

subsection \<open>The abstract store\<close>

text \<open>Each public mutator on the live view.\<close>

fun live_step :: "ext \<Rightarrow> string \<Rightarrow> op \<Rightarrow> live_view \<Rightarrow> live_view" where
  "live_step E now (OCreate t k d j) A = (if A (k, t, d) = None then A((k, t, d) := alive E now k j) else A)"
| "live_step E now (OUpsert t k d j) A = A((k, t, d) := alive E now k j)"
| "live_step E now (ODelete t k d) A = A((k, t, d) := None)"
| "live_step E now (ODeleteIf t d keep) A = (case A (Entity, t, d) of
      Some j \<Rightarrow> if keep j then A((Entity, t, d) := None) else A | None \<Rightarrow> A)"
| "live_step E now (OMutate t k d f) A = (case A (k, t, d) of
      Some j \<Rightarrow> (case f j of Inr (x, c) \<Rightarrow> A((k, t, d) := alive E now k c) | Inl _ \<Rightarrow> A) | None \<Rightarrow> A)"
| "live_step E now (OPurgeKinds t ks) A = (\<lambda>(k, t', d). if t' = t \<and> k \<in> set ks then None else A (k, t', d))"
| "live_step E now (OPurgeTenant t) A = (\<lambda>(k, t', d). if t' = t then None else A (k, t', d))"
| "live_step E now OSweep A = (\<lambda>(k, t, d). if k = Entity \<or> k = Temporal
      then map_option (\<lambda>j. fst (prune_expired_instances E now j)) (A (k, t, d)) else A (k, t, d))"
| "live_step E now _ A = A"

lemma doc_at_removed: "kmap k i = bm_remove t (kmap k i') \<Longrightarrow> doc_at i k t' d = (if t' = t then None else doc_at i' k t' d)"
  by (simp add: doc_at_def tenant_docs_def)

lemma live_contexts:
  "(\<And>k. kmap k (st_inner st') = kmap k (st_inner st)) \<Longrightarrow> live E now st' = live E now st"
  by (rule ext) (auto simp: live_def doc_at_def tenant_docs_def)

lemma live_purge_kinds: "live E now (snd (purge_kinds C t ks st)) = live_step E now (OPurgeKinds t ks) (live E now st)"
proof (rule ext, clarify)
  fix k t' d
  show "live E now (snd (purge_kinds C t ks st)) (k, t', d) = live_step E now (OPurgeKinds t ks) (live E now st) (k, t', d)"
  proof (cases "k \<in> set ks")
    case True
    then have "doc_at (st_inner (snd (purge_kinds C t ks st))) k t' d = (if t' = t then None else doc_at (st_inner st) k t' d)"
      by (intro doc_at_removed) (simp add: purge_kinds_kmap)
    with True show ?thesis by (simp add: live_def)
  next
    case False
    then have "doc_at (st_inner (snd (purge_kinds C t ks st))) k t' d = doc_at (st_inner st) k t' d"
      by (intro doc_at_kmap) (simp add: purge_kinds_kmap)
    with False show ?thesis by (simp add: live_def)
  qed
qed

lemma live_purge_tenant:
  "wf_inner (st_inner st) \<Longrightarrow> live E now (snd (purge_tenant C t st)) = live_step E now (OPurgeTenant t) (live E now st)"
  using purge_tenant_eq [of st C t]
    doc_at_removed [of _ "st_inner (snd (purge_tenant C t st))" t "st_inner st"]
  by (auto simp: fun_eq_iff live_def)

lemma live_sweep:
  assumes "wf_inner (st_inner st)"
  shows "live E now (snd (sweep_expired E C now st)) = live_step E now OSweep (live E now st)"
proof (rule ext, clarify)
  fix k t d
  have "Option.bind (if k = Entity \<or> k = Temporal then map_option (\<lambda>j. fst (prune_expired_instances E now j)) (live E now st (k, t, d))
        else live E now st (k, t, d)) (alive E now k)
      = (if k = Entity \<or> k = Temporal then map_option (\<lambda>j. fst (prune_expired_instances E now j)) (live E now st (k, t, d))
        else live E now st (k, t, d))"
    by (cases "doc_at (st_inner st) k t d") (auto simp: live_def alive_def prune_expired_at)
  then show "live E now (snd (sweep_expired E C now st)) (k, t, d) = live_step E now OSweep (live E now st) (k, t, d)"
    unfolding live_step.simps by (simp add: live_def [of _ _ "snd _"] sweep_docs [OF assms] Let_def)
qed

lemma live_step_refines:
  assumes "wf_inner (st_inner st)"
  shows "live E now (step E C (now, x) st) = live_step E now x (live E now st)"
proof (cases x)
  case (ODeleteIf t d keep)
  then show ?thesis using delete_if_live [of E C now t d keep st] by (auto split: option.split)
next
  case (OMutate t k d f)
  then show ?thesis using mutate_live [of E C now t k d f st] by (auto split: option.split sum.split)
next
  case (OContextPut owner d j)
  have "kmap k (st_inner (snd (context_put C owner d j st))) = kmap k (st_inner st)" for k
    by (simp add: context_put_def Let_def context_drops_inner)
  then show ?thesis using live_contexts [of "snd (context_put C owner d j st)" st] by (simp add: OContextPut)
next
  case (OContextDelete owner d)
  have "kmap k (st_inner (snd (context_delete C owner d st))) = kmap k (st_inner st)" for k
    by (simp add: context_delete_def split: option.split)
  then show ?thesis using live_contexts [of "snd (context_delete C owner d st)" st] by (simp add: OContextDelete)
qed (simp_all only: step.simps live_step.simps create_live upsert_live delete_live live_purge_kinds
       live_purge_tenant [OF assms] live_sweep [OF assms])

end
