(* ===== verification/StoreLists.thy ===== *)
theory StoreLists
  imports StoreSpec "HOL-Library.Multiset"
begin

text \<open>
  Reading the store page by page, and the stored contexts: who may see and replace them, and how the
  downloaded ones are kept within \<open>MAX_CACHED_CONTEXTS\<close>.
\<close>

subsection \<open>Pages\<close>

definition shown :: "ext \<Rightarrow> string \<Rightarrow> doc_kind \<Rightarrow> json \<Rightarrow> json option" where
  "shown E now k j = (if k = Entity then strip_expired E now j else Some j)"

definition page_entries :: "ext \<Rightarrow> string \<Rightarrow> string \<Rightarrow> doc_kind \<Rightarrow> store \<Rightarrow> (string \<times> json) list" where
  "page_entries E now t k st =
     List.map_filter (\<lambda>e. map_option (Pair (fst e)) (shown E now k (snd e))) (tenant_docs (st_inner st) k t)"

lemma map_filter_entries:
  "List.map_filter (\<lambda>e. f (snd e)) (filter (\<lambda>e. P (fst e)) m) =
     map snd (filter (\<lambda>e. P (fst e)) (List.map_filter (\<lambda>e. map_option (Pair (fst e)) (f (snd e))) m))"
  by (induction m) (auto simp: List.map_filter_def)

lemma list_page_entries:
  "list_page E now t k after limit st = map snd (take limit
     (filter (\<lambda>e. case after of Some a \<Rightarrow> a < fst e | None \<Rightarrow> True) (page_entries E now t k st)))"
  using map_filter_entries [of "shown E now k" "\<lambda>a. case after of Some b \<Rightarrow> b < a | None \<Rightarrow> True"]
  by (simp add: list_page_def page_entries_def shown_def take_map)

lemma map_filter_ok: "bm_ok m \<Longrightarrow> bm_ok (List.map_filter (\<lambda>e. map_option (Pair (fst e)) (f (snd e))) m)"
  by (induction m) (auto simp: List.map_filter_def bm_ok_Cons split: option.splits)

lemma filter_after:
  "bm_ok m \<Longrightarrow> i < length m \<Longrightarrow> filter (\<lambda>e. fst (m ! i) < fst e) m = drop (Suc i) m"
proof (induction m arbitrary: i)
  case (Cons e m)
  have m: "\<forall>x\<in>set m. fst e < fst x" "bm_ok m" using Cons.prems by (auto simp: bm_ok_Cons)
  show ?case
  proof (cases i)
    case 0
    with m show ?thesis by (simp add: filter_id_conv)
  next
    case (Suc j)
    with Cons.prems m have "fst e < fst (m ! j)" by simp
    with Suc Cons.IH [of j] Cons.prems m show ?thesis by (auto dest: less_trans)
  qed
qed simp

lemma page_entries_ok: "wf_inner (st_inner st) \<Longrightarrow> bm_ok (page_entries E now t k st)"
  by (simp add: page_entries_def map_filter_ok wf_tenant_docs)

lemma next_page:
  assumes "wf_inner (st_inner st)" "i < length (page_entries E now t k st)"
  shows "list_page E now t k (Some (fst (page_entries E now t k st ! i))) limit st =
    map snd (take limit (drop (Suc i) (page_entries E now t k st)))"
  using filter_after [OF page_entries_ok [OF assms(1)] assms(2)] by (simp add: list_page_entries)

subsection \<open>Oldest first\<close>

lemma stamp_le_total: "stamp_le a b \<or> stamp_le b a"
  by (auto simp: stamp_le_def)

lemma stamp_le_trans: "stamp_le a b \<Longrightarrow> stamp_le b c \<Longrightarrow> stamp_le a c"
  by (auto simp: stamp_le_def dest: less_trans order_trans)

lemma ins_by_sorted: "sorted_wrt stamp_le ys \<Longrightarrow> sorted_wrt stamp_le (ins_by stamp_le x ys)"
proof (induction ys)
  case (Cons y ys)
  have "stamp_le x y \<Longrightarrow> \<forall>z\<in>set ys. stamp_le x z" using Cons.prems stamp_le_trans [of x y] by simp
  moreover have "\<not> stamp_le x y \<Longrightarrow> stamp_le y x" using stamp_le_total by blast
  ultimately show ?case using Cons by (auto simp: set_ins_by)
qed simp

lemma sort_by_sorted: "sorted_wrt stamp_le (sort_by stamp_le xs)"
  by (induction xs) (simp_all add: sort_by_def ins_by_sorted)

lemma mset_ins_by: "mset (ins_by le x ys) = add_mset x (mset ys)"
  by (induction ys) simp_all

lemma mset_sort_by [simp]: "mset (sort_by le xs) = mset xs"
  by (induction xs) (simp_all add: sort_by_def mset_ins_by)

definition cached_stamps :: "json bmap \<Rightarrow> (string \<times> string) list" where
  "cached_stamps m = map (\<lambda>e. (created_at (snd e), fst e)) (filter (\<lambda>e. is_cached (snd e)) m)"

definition cached_count :: "json bmap \<Rightarrow> nat" where
  "cached_count m = length (filter (\<lambda>e. is_cached (snd e)) m)"

lemma oldest_cached_take:
  "oldest_cached m = map snd (take (cached_count m - MAX_CACHED_CONTEXTS) (sort_by stamp_le (cached_stamps m)))"
  by (simp add: oldest_cached_def Let_def cached_stamps_def cached_count_def)

lemma count_removed:
  assumes "distinct (map fst m)" "distinct ds" "set ds \<subseteq> fst ` {e \<in> set m. P e}"
  shows "length (filter P (filter (\<lambda>e. fst e \<notin> set ds) m)) = length (filter P m) - length ds"
proof -
  have inj: "inj_on fst (set m)" using assms(1) by (simp add: distinct_map)
  have dm: "distinct m" using assms(1) by (simp add: distinct_map)
  let ?hit = "{e \<in> set m. P e \<and> fst e \<in> set ds}"
  have "fst ` ?hit = set ds" using assms(3) by auto
  then have "card ?hit = length ds"
    using card_image [OF inj_on_subset [OF inj], of ?hit] assms(2) by (simp add: distinct_card subset_iff)
  moreover have "set (filter P (filter (\<lambda>e. fst e \<notin> set ds) m)) = {e \<in> set m. P e} - ?hit" by auto
  then have "length (filter P (filter (\<lambda>e. fst e \<notin> set ds) m)) = card ({e \<in> set m. P e} - ?hit)"
    using dm by (metis distinct_card distinct_filter)
  moreover have "card ({e \<in> set m. P e} - ?hit) = card {e \<in> set m. P e} - card ?hit"
    by (intro card_Diff_subset) auto
  moreover have "card {e \<in> set m. P e} = length (filter P m)"
    using dm by (metis distinct_card distinct_filter set_filter)
  ultimately show ?thesis by simp
qed

lemma length_sort_by [simp]: "length (sort_by le xs) = length xs"
  by (metis mset_sort_by size_mset)

lemma distinct_stamps: "distinct (map fst m) \<Longrightarrow> distinct (map snd (sort_by stamp_le (cached_stamps m)))"
proof -
  assume d: "distinct (map fst m)"
  have "mset (map snd (sort_by stamp_le (cached_stamps m))) = mset (map fst (filter (\<lambda>e. is_cached (snd e)) m))"
    by (simp add: cached_stamps_def multiset.map_comp comp_def)
  moreover have "distinct (map fst (filter (\<lambda>e. is_cached (snd e)) m))" using d by (rule distinct_map_filter)
  ultimately show ?thesis by (metis mset_eq_imp_distinct_iff)
qed

lemma distinct_oldest: "distinct (map fst m) \<Longrightarrow> distinct (oldest_cached m)"
  unfolding oldest_cached_take take_map [symmetric] by (intro distinct_take distinct_stamps)

lemma oldest_are_cached: "set (oldest_cached m) \<subseteq> fst ` {e \<in> set m. is_cached (snd e)}"
  using oldest_cached_subset by force

lemma length_oldest: "length (oldest_cached m) = cached_count m - MAX_CACHED_CONTEXTS"
  by (simp add: oldest_cached_take cached_stamps_def cached_count_def)

lemma evicted_count:
  assumes "bm_ok m"
  shows "cached_count (filter (\<lambda>e. fst e \<notin> set (oldest_cached m)) m) \<le> MAX_CACHED_CONTEXTS"
  using count_removed [OF bm_distinct [OF assms] distinct_oldest [OF bm_distinct [OF assms]] oldest_are_cached]
  by (simp add: cached_count_def length_oldest)

text \<open>An evicted row is no younger than any downloaded row that stays.\<close>

lemma evicted_oldest:
  assumes "bm_ok m" "(d, j) \<in> set m" "d \<in> set (oldest_cached m)" "(d', j') \<in> set m" "is_cached j'" "d' \<notin> set (oldest_cached m)"
  shows "stamp_le (created_at j, d) (created_at j', d')"
proof -
  let ?n = "cached_count m - MAX_CACHED_CONTEXTS"
  let ?s = "sort_by stamp_le (cached_stamps m)"
  have "(created_at j, d) \<in> set (take ?n ?s)"
  proof -
    obtain c where c: "(c, d) \<in> set (take ?n ?s)" using assms(3) by (auto simp: oldest_cached_take)
    then have "(c, d) \<in> set (cached_stamps m)" using in_set_takeD by fastforce
    then obtain x where "(d, x) \<in> set m" "c = created_at x" by (auto simp: cached_stamps_def)
    with assms(2) bm_distinct [OF assms(1)] have "c = created_at j" by (metis eq_key_imp_eq_value)
    with c show ?thesis by simp
  qed
  moreover have "(created_at j', d') \<in> set (drop ?n ?s)"
  proof -
    have "(created_at j', d') \<in> set ?s" using assms(4,5) by (force simp: cached_stamps_def)
    moreover have "(created_at j', d') \<notin> set (take ?n ?s)"
      using assms(6) by (force simp: oldest_cached_take)
    ultimately show ?thesis by (metis Un_iff append_take_drop_id set_append)
  qed
  moreover have "sorted_wrt stamp_le (take ?n ?s @ drop ?n ?s)"
    unfolding append_take_drop_id by (rule sort_by_sorted)
  ultimately show ?thesis unfolding sorted_wrt_append by blast
qed

subsection \<open>Storing a context\<close>

lemma context_put_contexts:
  "contexts (st_inner (snd (context_put C owner d doc st))) =
    (let m = contexts (st_inner st); m' = bm_insert d doc m in
     if fst (context_put C owner d doc st) \<noteq> Ok () then m
     else if is_cached doc \<and> MAX_CACHED_CONTEXTS < length m' then filter (\<lambda>e. fst e \<notin> set (oldest_cached m')) m'
     else m')"
  by (auto simp: context_put_def Let_def context_drops_inner)

lemma length_filter_insert:
  "bm_ok m \<Longrightarrow> \<not> P v \<Longrightarrow> length (filter (\<lambda>e. P (snd e)) (bm_insert k v m)) \<le> length (filter (\<lambda>e. P (snd e)) m)"
  by (induction k v m rule: bm_insert.induct) (auto simp: bm_ok_Cons)

lemma context_put_cached:
  assumes "bm_ok (contexts (st_inner st))" "cached_count (contexts (st_inner st)) \<le> MAX_CACHED_CONTEXTS"
  shows "cached_count (contexts (st_inner (snd (context_put C owner d doc st)))) \<le> MAX_CACHED_CONTEXTS"
proof -
  let ?m = "bm_insert d doc (contexts (st_inner st))"
  have ok: "bm_ok ?m" using assms(1) by (rule bm_insert_ok)
  have "cached_count ?m \<le> length ?m" by (simp add: cached_count_def)
  moreover have "\<not> is_cached doc \<Longrightarrow> cached_count ?m \<le> MAX_CACHED_CONTEXTS"
    using length_filter_insert [OF assms(1), of is_cached doc d] assms(2) by (simp add: cached_count_def)
  ultimately show ?thesis
    using evicted_count [OF ok] assms(2) by (auto simp: context_put_contexts Let_def)
qed

lemma cached_is_unowned: "is_cached r \<longleftrightarrow> context_row_owner r = None"
  by (auto simp: is_cached_def context_row_owner_def jindex_def split: option.splits)

text \<open>What one tenant stores or deletes leaves another tenant's rows alone.\<close>

lemma foreign_row_put:
  assumes "bm_ok (contexts (st_inner st))" "bm_get (contexts (st_inner st)) x = Some r" "\<not> context_row_visible r owner"
  shows "bm_get (contexts (st_inner (snd (context_put C owner d doc st)))) x = Some r"
proof (cases "fst (context_put C owner d doc st) = Ok ()")
  case True
  then have "x \<noteq> d" using assms by (auto simp: context_put_def Let_def)
  let ?m = "bm_insert d doc (contexts (st_inner st))"
  have ok: "bm_ok ?m" using assms(1) by (rule bm_insert_ok)
  have get: "bm_get ?m x = Some r" using assms(2) \<open>x \<noteq> d\<close> by simp
  have "\<not> is_cached r" using assms(3) by (auto simp: cached_is_unowned context_row_visible_def split: option.splits)
  moreover have "j = r" if "(x, j) \<in> set ?m" for j
    using get that bm_get_iff [OF ok, of x j] by simp
  ultimately have "x \<notin> set (oldest_cached ?m)" using oldest_cached_subset [of x ?m] by blast
  with get True show ?thesis by (simp add: context_put_contexts Let_def bm_get_filter [OF ok])
qed (simp add: context_put_contexts Let_def assms(2))

lemma foreign_row_delete:
  "bm_get (contexts (st_inner st)) x = Some r \<Longrightarrow> \<not> context_row_visible r owner \<Longrightarrow>
     bm_get (contexts (st_inner (snd (context_delete C owner d st)))) x = Some r"
  by (auto simp: context_delete_def split: option.split)

subsection \<open>The invariant of every run\<close>

definition store_ok :: "store \<Rightarrow> bool" where
  "store_ok st \<longleftrightarrow> wf_inner (st_inner st) \<and> cached_count (contexts (st_inner st)) \<le> MAX_CACHED_CONTEXTS"

lemma store_ok_inner: "st_inner st = st_inner st' \<Longrightarrow> store_ok st = store_ok st'"
  by (simp add: store_ok_def)

lemma store_ok_docs:
  "store_ok (st\<lparr>st_inner := i\<rparr>) \<Longrightarrow> store_ok (st\<lparr>st_inner := put_doc k t d j i\<rparr>)"
  "store_ok (st\<lparr>st_inner := i\<rparr>) \<Longrightarrow> store_ok (st\<lparr>st_inner := del_doc k t d i\<rparr>)"
  by (simp_all add: store_ok_def wf_put_doc wf_del_doc)

lemma store_ok_simps [simp]:
  "store_ok (persist C tb key v st) = store_ok st" "store_ok (emit_if b t x y st) = store_ok st" "store_ok (emit t x y st) = store_ok st"
  by (rule store_ok_inner, simp)+ (simp add: store_ok_def emit_def)

lemma cached_count_filter: "cached_count (filter P m) \<le> cached_count m"
  by (induction m) (auto simp: cached_count_def)

lemma store_ok_purge_kinds: "store_ok st \<Longrightarrow> store_ok (snd (purge_kinds C t ks st))"
  by (auto simp: store_ok_def wf_inner_def purge_kinds_kmap bm_remove_ok) (force simp: bm_remove_def)

lemma store_ok_filter_contexts:
  "store_ok st \<Longrightarrow> (\<And>k. kmap k (st_inner st') = kmap k (st_inner st)) \<Longrightarrow>
     contexts (st_inner st') = filter P (contexts (st_inner st)) \<Longrightarrow> store_ok st'"
  using cached_count_filter [of P "contexts (st_inner st)"]
  by (simp add: store_ok_def wf_inner_def bm_filter_ok)

lemma store_ok_step:
  assumes "store_ok st"
  shows "store_ok (step E C (now, x) st)"
proof (cases x)
  case (OPurgeTenant t)
  obtain b st1 where p: "purge_kinds C t ALL_KINDS st = (b, st1)" by (cases "purge_kinds C t ALL_KINDS st")
  have "store_ok st1" using store_ok_purge_kinds [OF assms, of C t ALL_KINDS] p by simp
  then show ?thesis
    unfolding OPurgeTenant
    by (rule store_ok_filter_contexts) (simp_all add: purge_tenant_def p context_drops_inner)
next
  case (OContextPut owner d j)
  have "wf_inner (st_inner (snd (context_put C owner d j st)))"
    using assms by (auto simp: store_ok_def wf_inner_def context_put_def Let_def context_drops_inner bm_insert_ok bm_filter_ok)
  moreover have "cached_count (contexts (st_inner (snd (context_put C owner d j st)))) \<le> MAX_CACHED_CONTEXTS"
    using assms by (intro context_put_cached) (simp_all add: store_ok_def wf_inner_def)
  ultimately show ?thesis by (simp add: OContextPut store_ok_def)
next
  case (OContextDelete owner d)
  have "store_ok (context_drop C d st)"
    by (rule store_ok_filter_contexts [OF assms, of _ "\<lambda>e. fst e \<noteq> d"]) (simp_all add: bm_remove_def)
  with assms show ?thesis by (simp add: OContextDelete context_delete_def split: option.split)
next
  case OSweep
  have r: "store_ok (fold (reap C) es s)" if "store_ok s" for es s
    using that by (induction es arbitrary: s) (auto simp: reap_def Let_def store_ok_def wf_del_doc)
  have p: "store_ok (snd (fold (prune_doc E C now k) es s))" if "store_ok (snd s)" for k es s
  proof -
    have "contexts (st_inner (snd (fold (prune_doc E C now k) es s))) = contexts (st_inner (snd s))"
    proof (induction es arbitrary: s)
      case (Cons e es)
      then show ?case by (simp add: prune_doc_def split: prod.split)
    qed simp
    with that show ?thesis by (simp add: store_ok_def prunes_wf)
  qed
  show ?thesis by (simp add: OSweep sweep_expired_def Let_def r p assms)
next
  case (OMutate t k d f)
  with assms show ?thesis
    by (auto simp: mutate_def Let_def store_ok_docs split: option.split sum.split)
qed (use assms in \<open>auto simp: create_def upsert_def delete_def delete_if_def Let_def store_ok_docs
       store_ok_purge_kinds split: option.split\<close>)

lemma store_ok_run: "store_ok st \<Longrightarrow> store_ok (fold (step E C) es st)"
proof (induction es arbitrary: st)
  case (Cons e es)
  then show ?case by (cases e) (simp add: store_ok_step)
qed simp

lemma store_ok_new: "store_ok new_store"
  by (simp add: store_ok_def new_store_def wf_empty) (simp add: empty_inner_def cached_count_def)

lemma cached_contexts_bounded:
  "length (filter (\<lambda>e. is_cached (snd e)) (contexts (st_inner (fold (step E C) es new_store)))) \<le> MAX_CACHED_CONTEXTS"
  using store_ok_run [OF store_ok_new, of E C es] by (simp add: store_ok_def cached_count_def)

text \<open>Purging a tenant removes its documents and its own contexts, and nothing else.\<close>

lemma tenant_purged:
  assumes "wf_inner (st_inner st)"
  shows "fst (purge_tenant C t st) = tenant_exists t st
    \<and> \<not> tenant_exists t (snd (purge_tenant C t st))
    \<and> (\<forall>k t' d. t' \<noteq> t \<longrightarrow> get t' k d (snd (purge_tenant C t st)) = get t' k d st)
    \<and> contexts (st_inner (snd (purge_tenant C t st))) = filter (\<lambda>e. context_row_owner (snd e) \<noteq> Some t) (contexts (st_inner st))"
  using purge_tenant_eq [OF assms, of C t] doc_at_removed [of _ "st_inner (snd (purge_tenant C t st))" t "st_inner st"]
  by (simp add: tenant_exists_def get_def list_ex_iff bm_contains_def)

end
