(* ===== verification/Samples.thy ===== *)
theory Samples
  imports Policy Naming StoreLists
begin

text \<open>
  Concrete stand-ins for the code outside the source, for the witnesses: a JSON string escaper and its
  inverse, a formatter of whole numbers, an instant for the RFC 3339 form, and literal patterns.
\<close>

definition sample_escape :: "string \<Rightarrow> string" where
  "sample_escape s = concat (map (\<lambda>c. if c = CHR 0x22 \<or> c = CHR 0x5C then [CHR 0x5C, c] else [c]) s)"

fun sample_unescape :: "string \<Rightarrow> string option" where
  "sample_unescape [] = None"
| "sample_unescape (c # s) =
     (if c = CHR 0x22 then (if s = [] then Some [] else None)
      else if c = CHR 0x5C then (case s of [] \<Rightarrow> None | d # s' \<Rightarrow> map_option ((#) d) (sample_unescape s'))
      else map_option ((#) c) (sample_unescape s))"

fun digits_of :: "nat \<Rightarrow> nat \<Rightarrow> string" where
  "digits_of 0 n = []"
| "digits_of (Suc k) n = (if n < 10 then [] else digits_of k (n div 10)) @ [char_of (48 + n mod 10)]"

fun sample_show :: "f64 \<Rightarrow> string" where
  "sample_show (Fin r) = (if r < 0 then ''-'' else []) @ digits_of 20 (nat \<lfloor>\<bar>r\<bar>\<rfloor>)"
| "sample_show _ = ''inf''"

text \<open>Nanoseconds in a calendar of 31-day months, to the microsecond.\<close>

definition sample_instant :: "string \<Rightarrow> int option" where
  "sample_instant s =
     (let num = (\<lambda>i j. digits_val (take (j - i) (drop i s)));
          frac = takeWhile is_digit (drop 20 s)
      in if length s < 20 \<or> last s \<noteq> CHR ''Z'' then None
         else if num 5 7 < 1 \<or> 12 < num 5 7 \<or> num 8 10 < 1 \<or> 31 < num 8 10 \<or> 23 < num 11 13 \<or> 59 < num 14 16 \<or> 60 < num 17 19
         then None
         else Some (1000 * (((((num 0 4 * 12 + num 5 7) * 31 + num 8 10) * 24 + num 11 13) * 60 + num 14 16) * 60 * 1000000
                    + num 17 19 * 1000000 + digits_val (take 6 (frac @ ''000000'')))))"

definition sample_ext :: ext where
  "sample_ext = \<lparr>
     unquote = (\<lambda>s. case s of c # s' \<Rightarrow> if c = CHR 0x22 then sample_unescape s' else None | [] \<Rightarrow> None),
     quote = (\<lambda>s. CHR 0x22 # sample_escape s @ [CHR 0x22]),
     show_f64 = sample_show,
     rfc3339 = sample_instant,
     re_compile = (\<lambda>p. Some (\<lambda>t. t = p))\<rparr>"

text \<open>A query: \<open>(brand=="a" | speed>=5); !owner{name}\<close>.\<close>

definition sample_brand :: qnode where
  "sample_brand = Cmp (dotted [''brand'']) Eq (QStr ''a'')"

definition sample_speed :: qnode where
  "sample_speed = Cmp (dotted [''speed'']) Ge (QNum (Fin 5))"

definition sample_owner :: qnode where
  "sample_owner = Exists \<lparr>links = [\<lparr>attr = ''owner'', types = []\<rparr>], path = [''name''], bracket = None\<rparr> True"

definition sample_query :: qnode where
  "sample_query = And [Or [sample_brand, sample_speed], sample_owner]"

lemma name_ok_sample: "name_ok ''brand''" "name_ok ''speed''" "name_ok ''owner''" "name_ok ''name''"
  by (rule name_ok_ascii; simp add: is_ascii_def ascii_ws_def name_delim_def)+

lemma show_5: "show_f64 sample_ext (Fin 5) = ''5''"
proof -
  have "digits_of 20 5 = ''5''" by code_simp
  moreover have "nat \<lfloor>\<bar>5 :: rat\<bar>\<rfloor> = 5" by simp
  ultimately show ?thesis by (simp add: sample_ext_def)
qed

lemma num_ok_sample: "num_ok sample_ext (Fin 5)"
proof -
  have "is_json_number ''5''" by code_simp
  moreover have "json_rat ''5'' = 5" by code_simp
  moreover have "round_f64 5 = Fin 5" using f64_of_int_exact [of 5] by (simp add: f64_of_int_def)
  ultimately show ?thesis by (simp add: num_ok_def show_5 parse_f64_def)
qed

lemma quote_ok_sample: "quote_ok sample_ext ''a''"
  by code_simp

lemma sample_query_wf: "wf_node sample_ext sample_query"
  using name_ok_sample num_ok_sample quote_ok_sample
  by (simp add: sample_query_def sample_brand_def sample_speed_def sample_owner_def path_ok_def dotted_def)

lemma sample_query_text:
  "render sample_ext sample_query =
     ''(brand=='' @ [CHR 0x22] @ ''a'' @ [CHR 0x22] @ ''|speed>=5);!owner{name}''"
proof -
  have "quote sample_ext ''a'' = [CHR 0x22] @ ''a'' @ [CHR 0x22]" by code_simp
  then show ?thesis
    by (simp add: sample_query_def sample_brand_def sample_speed_def sample_owner_def show_5
        parens_def show_path_def show_link_def show_operand_def dotted_def)
qed

lemma sample_query_limits: "within_limits sample_ext sample_query"
  unfolding within_limits_def sample_query_text
  by (simp add: MAX_Q_BYTES_def MAX_Q_DEPTH_def MAX_Q_NODES_def sample_query_def sample_brand_def
      sample_speed_def sample_owner_def max_or_0_def mk_and_def mk_or_def)

text \<open>A client query that uses every lookup up: \<open>!a{x}\<close> over 512 unknown linked entities.\<close>

definition spender :: qnode where
  "spender = Exists \<lparr>links = [\<lparr>attr = ''a'', types = []\<rparr>], path = [''x''], bracket = None\<rparr> True"

definition spend_store :: "string \<Rightarrow> json option" where
  "spend_store u = (if u = ''urn:s''
     then Some (JObj [(DEFAULT_VOCAB @ ''name'', JArr [JObj [(''value'', JBool True)]])]) else None)"

definition spend_entity :: json where
  "spend_entity = JObj
     [(DEFAULT_VOCAB @ ''a'', JArr [JObj [(''object'', JArr (replicate 512 (JStr ''urn:u'')))]]),
      (DEFAULT_VOCAB @ ''owner'', JArr [JObj [(''object'', JStr ''urn:s'')]])]"

lemma expand_empty: "CHR '':'' \<notin> set k \<Longrightarrow> expand_key empty_ctx k = DEFAULT_VOCAB @ k"
  by (simp add: expand_key_def empty_ctx_def bm_get_def prefix_expand_def split_once_None_iff [THEN iffD2]
      is_absolute_iri_def vocab_or_default_def)

lemma spend_uris: "concat (map instance_uris [JObj [(''object'', JArr (replicate 512 (JStr ''urn:u'')))]]) = replicate 512 ''urn:u''"
  by (simp add: instance_uris_def bm_get_def List.map_filter_def)

lemma eval_spender: "eval_node E empty_ctx spend_store spend_entity spender 512 = (True, 0)"
proof -
  have "hop_loop spend_store ok walk (replicate 512 ''urn:u'') 512 = ([], 0)" for ok walk
    by (subst hop_loop_unknown) (auto simp: spend_store_def)
  then show ?thesis
    using spend_uris
    by (simp add: spender_def eval_leaf_def resolve_qpath_def expand_empty spend_entity_def bm_get_def)
qed

lemma eval_owner: "eval_node E empty_ctx spend_store spend_entity sample_owner 512 = (False, 511)"
  by (simp add: sample_owner_def eval_leaf_def resolve_qpath_def expand_empty spend_entity_def bm_get_def
      instance_uris_def List.map_filter_def spend_store_def resolve_targets_def terminal_def
      comparable_value_def value_members_def type_hint_ok_def push_target_def
     
      eval_nat_numeral)
lemma eval_owner0: "eval_node E empty_ctx spend_store spend_entity sample_owner 0 = (True, 0)"
  by (simp add: sample_owner_def eval_leaf_def resolve_qpath_def expand_empty spend_entity_def bm_get_def
     instance_uris_def List.map_filter_def hop_loop_spent)

text \<open>A codec of one document and a short run of the store.\<close>

definition sample_doc :: json where
  "sample_doc = JObj [(''id'', JStr ''urn:car''), (''type'', JStr ''Car'')]"

definition sample_codec :: codec where
  "sample_codec = \<lparr>enc = (\<lambda>j. if j = sample_doc then Some ''car'' else None),
     dec = (\<lambda>b. if b = ''car'' then Some sample_doc else None)\<rparr>"

definition sample_ops :: "(string \<times> op) list" where
  "sample_ops = [(''now'', OCreate ''city'' Entity ''urn:car'' sample_doc),
     (''now'', OContextPut (Some ''default'') ''urn:ctx'' sample_doc), (''now'', OSweep)]"

lemma sample_codec_ok: "codec_ok sample_codec j \<longleftrightarrow> j = sample_doc"
  by (simp add: codec_ok_def sample_codec_def)

lemma sample_prune: "prune_expired_instances E now sample_doc = (sample_doc, False)"
  by (simp add: prune_expired_instances_def sample_doc_def bm_keys_def ENTITY_META_KEYS_def)

lemma sample_ops_ok: "list_all (op_ok E sample_codec) sample_ops"
proof -
  have t: "tenant_new_internal ''city'' = Ok ''city''" by code_simp
  have u: "utf8_ok ''urn:car''" "utf8_ok ''urn:ctx''" by (rule utf8_ascii; code_simp)+
  show ?thesis
    using tenant_key_ok [OF t u(1), of Entity] u(2)
    by (simp add: sample_ops_def sample_codec_ok prune_safe_def sample_prune)
qed

lemma sample_expired: "\<not> expired_at E now sample_doc"
  by (simp add: expired_at_def sample_doc_def bm_get_def)

lemma sample_store:
  "st_inner (fold (step E sample_codec) sample_ops fresh) =
     empty_inner\<lparr>entities := [(''city'', [(''urn:car'', sample_doc)])], contexts := [(''urn:ctx'', sample_doc)]\<rparr>"
proof -
  have c: "st_inner (step E sample_codec (''now'', OCreate ''city'' Entity ''urn:car'' sample_doc) fresh)
      = empty_inner\<lparr>entities := [(''city'', [(''urn:car'', sample_doc)])]\<rparr>"
    by (simp add: create_def fresh_def doc_at_def tenant_docs_def empty_inner_def put_doc_def)
  have v: "context_row_visible sample_doc (Some ''default'')"
    by (simp add: context_row_visible_def context_row_owner_def sample_doc_def jindex_def bm_get_def)
  have p: "st_inner (step E sample_codec (''now'', OContextPut (Some ''default'') ''urn:ctx'' sample_doc) st)
      = (st_inner st)\<lparr>contexts := [(''urn:ctx'', sample_doc)]\<rparr>" if "contexts (st_inner st) = []" for st
    using v that by (simp add: context_put_def Let_def MAX_CACHED_CONTEXTS_def)
  have w: "st_inner (step E sample_codec (''now'', OSweep) st) = st_inner st"
    if "entities (st_inner st) = [(''city'', [(''urn:car'', sample_doc)])]" "temporal (st_inner st) = []" for st
    using that by (simp add: sweep_expired_def Let_def all_docs_def sample_expired prune_doc_def sample_prune)
  define s1 where "s1 = step E sample_codec (''now'', OCreate ''city'' Entity ''urn:car'' sample_doc) fresh"
  define s2 where "s2 = step E sample_codec (''now'', OContextPut (Some ''default'') ''urn:ctx'' sample_doc) s1"
  have i1: "st_inner s1 = empty_inner\<lparr>entities := [(''city'', [(''urn:car'', sample_doc)])]\<rparr>"
    unfolding s1_def by (rule c)
  have "st_inner s2 = (st_inner s1)\<lparr>contexts := [(''urn:ctx'', sample_doc)]\<rparr>"
    unfolding s2_def by (rule p) (simp add: i1 empty_inner_def)
  then have i2: "st_inner s2 = empty_inner\<lparr>entities := [(''city'', [(''urn:car'', sample_doc)])], contexts := [(''urn:ctx'', sample_doc)]\<rparr>"
    by (simp add: i1)
  have "st_inner (step E sample_codec (''now'', OSweep) s2) = st_inner s2"
    by (rule w) (simp_all add: i2 empty_inner_def)
  moreover have "fold (step E sample_codec) sample_ops fresh = step E sample_codec (''now'', OSweep) s2"
    by (simp only: sample_ops_def fold_simps s1_def s2_def)
  ultimately show ?thesis using i2 by simp
qed

lemma sample_run: "get ''city'' Entity ''urn:car'' (fold (step E sample_codec) sample_ops fresh) = Some sample_doc"
  by (simp add: get_def doc_at_def tenant_docs_def sample_store empty_inner_def bm_get_def)

lemma sample_page: "page_entries E now ''city'' Entity (fold (step E sample_codec) sample_ops fresh) = [(''urn:car'', sample_doc)]"
proof -
  have "strip_expired E now sample_doc = Some sample_doc"
    using sample_expired [of E now] unfolding sample_doc_def strip_obj by (simp add: List.map_filter_def strip_entry_def)
  then show ?thesis
    by (simp add: page_entries_def tenant_docs_def sample_store empty_inner_def bm_get_def List.map_filter_def shown_def)
qed

lemma sample_context:
  "bm_get (contexts (st_inner (fold (step E sample_codec) sample_ops fresh))) ''urn:ctx'' = Some sample_doc"
  "\<not> context_row_visible sample_doc (Some ''b'')"
  by (simp add: sample_store bm_get_def,
      simp add: context_row_visible_def context_row_owner_def sample_doc_def jindex_def bm_get_def)

text \<open>A narrowed request: the client asks for \<open>speed>=5\<close>, the engine adds \<open>brand=="a"\<close>.\<close>

lemma sample_speed_text: "render sample_ext sample_speed = ''speed>=5''"
  by (simp add: sample_speed_def show_5 show_path_def show_operand_def dotted_def)

lemma sample_brand_text: "render sample_ext sample_brand = ''brand=='' @ [CHR 0x22] @ ''a'' @ [CHR 0x22]"
proof -
  have "quote sample_ext ''a'' = [CHR 0x22] @ ''a'' @ [CHR 0x22]" by code_simp
  then show ?thesis by (simp add: sample_brand_def show_path_def show_operand_def dotted_def)
qed

lemma sample_speed_parses: "parse_q sample_ext (render sample_ext sample_speed) = Ok sample_speed"
proof -
  have "wf_node sample_ext sample_speed"
    using name_ok_sample num_ok_sample by (simp add: sample_speed_def path_ok_def dotted_def)
  moreover have "within_limits sample_ext sample_speed"
    unfolding within_limits_def sample_speed_text
    by (simp add: MAX_Q_BYTES_def MAX_Q_DEPTH_def MAX_Q_NODES_def sample_speed_def)
  ultimately have "parse_q sample_ext (render sample_ext sample_speed) = Ok (canon sample_speed)" by (rule parse_render)
  then show ?thesis by (simp only: sample_speed_def canon.simps)
qed

lemma sample_both:
  "wf_node sample_ext (And [sample_speed, sample_brand])"
  "within_limits sample_ext (And [sample_speed, sample_brand])"
  "\<not> has_linked_paths sample_brand"
proof -
  show "wf_node sample_ext (And [sample_speed, sample_brand])"
    using name_ok_sample num_ok_sample quote_ok_sample
    by (simp add: sample_speed_def sample_brand_def path_ok_def dotted_def)
  have t: "render sample_ext (And [sample_speed, sample_brand]) = ''speed>=5;brand=='' @ [CHR 0x22] @ ''a'' @ [CHR 0x22]"
    using sample_speed_text sample_brand_text
    by (simp add: show_operand_def parens_def sample_speed_def sample_brand_def)
  show "within_limits sample_ext (And [sample_speed, sample_brand])"
    unfolding within_limits_def t
    by (simp add: MAX_Q_BYTES_def MAX_Q_DEPTH_def MAX_Q_NODES_def sample_brand_def
        sample_speed_def max_or_0_def mk_and_def)
  show "\<not> has_linked_paths sample_brand" by (simp add: sample_brand_def dotted_def)
qed

lemma sample_narrow:
  "\<exists>out. narrow_params sample_ext (default_filter\<lparr>f_q := Some sample_brand\<rparr>) [(''q'', render sample_ext sample_speed)] = Ok out"
  using sample_speed_parses by (simp add: narrow_params_def default_filter_def bm_get_def)

text \<open>A context with one term.\<close>

definition sample_ctx :: jctx where
  "sample_ctx = empty_ctx\<lparr>terms := [(''name'', \<lparr>iri = ''https://schema.org/name'', type_is_id = False,
     type_is_vocab = False, container_list = False, prefix_ok = False\<rparr>)]\<rparr>"

lemma sample_ctx_facts:
  "bm_ok (terms sample_ctx)" "plain_terms sample_ctx" "vocab_or_default (vocab sample_ctx) = DEFAULT_VOCAB"
  "unambiguous sample_ctx ''https://schema.org/name''"
  by code_simp+

text \<open>Two scope queries.\<close>

lemma sample_trims: "trim ''/a'' = ''/a''" "trim ''/b/#'' = ''/b/#''" "trim ''/c'' = ''/c''" "trim ''(/c)'' = ''(/c)''"
  by (rule trim_ascii; simp add: is_ascii_def ascii_ws_def)+

lemma sample_unparen: "unparen ''/a'' = ''/a''" "unparen ''/b/#'' = ''/b/#''" "unparen ''(/c)'' = ''/c''"
  by (simp_all add: unparen_def sample_trims trim_start_matches_def trim_end_matches_def)

lemma sample_scopes:
  "clean_scope_q ''/a,/b/#''" "clean_scope_q ''(/c)''" "intersect_scope_q ''/a,/b/#'' ''(/c)'' = Some ''(/a;/c),(/b/#;/c)''"
proof -
  have s: "split_on is_or_sep ''/a,/b/#'' = [''/a'', ''/b/#'']" "split_on is_or_sep ''(/c)'' = [''(/c)'']"
    by (simp_all add: is_or_sep_def)
  show "clean_scope_q ''/a,/b/#''" "clean_scope_q ''(/c)''"
    unfolding clean_scope_q_def s by (simp_all add: sample_unparen sample_trims)
  have "scope_groups ''/a,/b/#'' = [''/a'', ''/b/#'']" "scope_groups ''(/c)'' = [''/c'']"
    unfolding scope_groups_def s by (simp_all add: sample_unparen sample_trims)
  then show "intersect_scope_q ''/a,/b/#'' ''(/c)'' = Some ''(/a;/c),(/b/#;/c)''"
    by (simp add: intersect_scope_q_def Let_def pair_term_def ANY_SCOPE_def MAX_SCOPE_Q_BYTES_def)
qed

lemma spent_budget_defeats_narrowing:
  "eval_q E empty_ctx spend_store spend_entity (And [spender, sample_owner])
   \<and> \<not> eval_q E empty_ctx spend_store spend_entity sample_owner"
  using eval_spender eval_owner eval_owner0 by (simp add: eval_q_def MAX_Q_LINK_LOOKUPS_def)

end
