(* ===== verification/Geometry.thy ===== *)
theory Geometry
  imports DateTime
begin

text \<open>
  GeoJSON geometries: the shape and range check every geometry passes on the way in (\<open>check_geometry\<close>,
  \<open>validate_geojson\<close> of \<open>antares-jsonld/src/expand.rs\<close>).  Messages keep their fixed text; the echo of the
  offending value is left out.
\<close>

type_synonym 'a checked = "(string, 'a) result"

definition GEO_TYPES :: "string list" where
  "GEO_TYPES = [''Point'', ''MultiPoint'', ''LineString'', ''MultiLineString'', ''Polygon'', ''MultiPolygon'']"

definition finite_f64 :: "json \<Rightarrow> f64 option" where
  "finite_f64 c = (case as_f64 c of Some f \<Rightarrow> if is_finite f then Some f else None | None \<Rightarrow> None)"

definition in_degrees :: "rat \<Rightarrow> f64 \<Rightarrow> bool" where
  "in_degrees d x \<longleftrightarrow> Fin (- d) \<le> x \<and> x \<le> Fin d"

definition check_position :: "json \<Rightarrow> unit checked" where
  "check_position p = (case as_array p of
     None \<Rightarrow> Err ''position is not an array''
   | Some a \<Rightarrow>
       if length a < 2 then Err ''position has too few elements (minimum 2)''
       else (case (finite_f64 (a ! 0), finite_f64 (a ! 1)) of
          (Some lon, Some lat) \<Rightarrow>
            if list_ex (\<lambda>c. finite_f64 c = None) (drop 2 a) then Err ''position holds a value that is not a number''
            else if \<not> in_degrees 180 lon \<or> \<not> in_degrees 90 lat
            then Err ''position is outside the WGS84 range [-180 -90, 180 90]''
            else Ok ()
        | _ \<Rightarrow> Err ''position holds a value that is not a number''))"

definition check_line :: "json \<Rightarrow> unit checked" where
  "check_line v = (case as_array v of
     None \<Rightarrow> Err ''LineString is not an array''
   | Some a \<Rightarrow> if length a < 2 then Err ''LineString has too few positions (minimum 2)'' else try_each check_position a)"

definition check_ring :: "json \<Rightarrow> unit checked" where
  "check_ring v = (case as_array v of
     None \<Rightarrow> Err ''linear ring is not an array''
   | Some a \<Rightarrow>
       if length a < 4 then Err ''linear ring has too few positions (minimum 4)''
       else if hd a \<noteq> last a then Err ''linear ring is not closed (first != last position)''
       else try_each check_position a)"

definition each :: "string \<Rightarrow> (json \<Rightarrow> unit checked) \<Rightarrow> json \<Rightarrow> unit checked" where
  "each what f v = (case as_array v of None \<Rightarrow> Err (what @ '' is not an array'') | Some a \<Rightarrow> try_each f a)"

definition check_geometry :: "string \<Rightarrow> json \<Rightarrow> unit checked" where
  "check_geometry gtype coords =
     (if gtype = ''Point'' then check_position coords
      else if gtype = ''MultiPoint'' then each ''MultiPoint coordinates'' check_position coords
      else if gtype = ''LineString'' then check_line coords
      else if gtype = ''MultiLineString'' then each ''MultiLineString coordinates'' check_line coords
      else if gtype = ''Polygon'' then each ''Polygon coordinates'' check_ring coords
      else if gtype = ''MultiPolygon'' then each ''MultiPolygon coordinates'' (each ''MultiPolygon polygon'' check_ring) coords
      else Err (gtype @ '' is not a supported GeoJSON geometry type''))"

definition attr_error :: "string \<Rightarrow> string \<Rightarrow> ngsi_error" where
  "attr_error name m = BadRequestData (''attribute '' @ name @ '': '' @ m)"

definition validate_geojson :: "string \<Rightarrow> json \<Rightarrow> unit ngsi_result" where
  "validate_geojson name v =
     (case Option.bind (as_object v) (\<lambda>g. Option.bind (jget_str g ''type'') (\<lambda>t.
        if t \<in> set GEO_TYPES then map_option (Pair t) (bm_get g ''coordinates'') else None)) of
        None \<Rightarrow> Err (attr_error name ''value is not a valid GeoJSON geometry'')
      | Some (t, coords) \<Rightarrow> (case check_geometry t coords of
            Err e \<Rightarrow> Err (attr_error name e)
          | Ok _ \<Rightarrow> Ok ()))"

subsection \<open>What a checked geometry is\<close>

text \<open>The shapes of RFC 7946, written without the checker.\<close>

definition is_position :: "json \<Rightarrow> bool" where
  "is_position p \<longleftrightarrow> (\<exists>lon lat alt. p = JArr (lon # lat # alt) \<and>
     (\<forall>c\<in>set (lon # lat # alt). \<exists>n. c = JNum n \<and> is_finite (jnum_f64 n)) \<and>
     (\<exists>n. lon = JNum n \<and> Fin (- 180) \<le> jnum_f64 n \<and> jnum_f64 n \<le> Fin 180) \<and>
     (\<exists>n. lat = JNum n \<and> Fin (- 90) \<le> jnum_f64 n \<and> jnum_f64 n \<le> Fin 90))"

definition list_of :: "(json \<Rightarrow> bool) \<Rightarrow> json \<Rightarrow> bool" where
  "list_of P v \<longleftrightarrow> (\<exists>a. v = JArr a \<and> (\<forall>x\<in>set a. P x))"

definition is_line :: "json \<Rightarrow> bool" where
  "is_line v \<longleftrightarrow> list_of is_position v \<and> (\<forall>a. v = JArr a \<longrightarrow> 2 \<le> length a)"

definition is_ring :: "json \<Rightarrow> bool" where
  "is_ring v \<longleftrightarrow> list_of is_position v \<and> (\<forall>a. v = JArr a \<longrightarrow> 4 \<le> length a \<and> hd a = last a)"

definition geometry_shape :: "string \<Rightarrow> (json \<Rightarrow> bool) option" where
  "geometry_shape = map_of [(''Point'', is_position), (''MultiPoint'', list_of is_position), (''LineString'', is_line),
     (''MultiLineString'', list_of is_line), (''Polygon'', list_of is_ring), (''MultiPolygon'', list_of (list_of is_ring))]"

lemma finite_f64_Some: "finite_f64 c = Some f \<longleftrightarrow> (\<exists>n. c = JNum n \<and> f = jnum_f64 n \<and> is_finite f)"
  by (cases c) (auto simp: finite_f64_def)

lemma finite_f64_simps [simp]:
  "finite_f64 (JNum n) = (if is_finite (jnum_f64 n) then Some (jnum_f64 n) else None)"
  "finite_f64 JNull = None" "finite_f64 (JBool b) = None" "finite_f64 (JStr s) = None" "finite_f64 (JArr a) = None" "finite_f64 (JObj m) = None"
  by (simp_all add: finite_f64_def)

lemma check_position_ok: "check_position p = Inr u \<longleftrightarrow> is_position p"
proof (cases "\<exists>lon lat alt. p = JArr (lon # lat # alt)")
  case True
  then obtain lon lat alt where p: "p = JArr (lon # lat # alt)" by blast
  have ex: "list_ex (\<lambda>c. finite_f64 c = None) alt \<longleftrightarrow> \<not> (\<forall>c\<in>set alt. \<exists>n. c = JNum n \<and> is_finite (jnum_f64 n))"
    unfolding list_ex_iff using finite_f64_Some by (metis not_Some_eq)
  show ?thesis
    by (cases lon; cases lat)
       (auto simp: p check_position_def is_position_def ex in_degrees_def)
next
  case False
  have "as_array p = Some a \<Longrightarrow> length a < 2" for a
    using False by (cases a; cases "tl a") (auto simp: as_array_Some_iff)
  then have "check_position p \<noteq> Inr u" by (auto simp: check_position_def split: option.split)
  moreover have "\<not> is_position p" using False by (auto simp: is_position_def)
  ultimately show ?thesis by blast
qed

lemma each_ok: "each what f v = Inr u \<longleftrightarrow> list_of (\<lambda>x. f x = Inr ()) v"
  by (cases v) (auto simp: each_def list_of_def try_each_Inr)

lemma check_line_ok: "check_line v = Inr u \<longleftrightarrow> is_line v"
  by (cases v) (auto simp: check_line_def is_line_def list_of_def try_each_Inr check_position_ok)

lemma check_ring_ok: "check_ring v = Inr u \<longleftrightarrow> is_ring v"
  by (cases v) (auto simp: check_ring_def is_ring_def list_of_def try_each_Inr check_position_ok)

lemma check_geometry_ok:
  "check_geometry t v = Inr u \<longleftrightarrow> (case geometry_shape t of None \<Rightarrow> False | Some P \<Rightarrow> P v)"
  by (simp add: check_geometry_def geometry_shape_def each_ok check_position_ok check_line_ok check_ring_ok)

lemma validate_geojson_error: "validate_geojson name v = Inl e \<Longrightarrow> \<exists>m. e = BadRequestData m"
  by (auto simp: validate_geojson_def attr_error_def split: option.splits sum.splits)

lemma validate_geojson_ok:
  "validate_geojson name v = Inr u \<Longrightarrow> \<exists>g t c P. v = JObj g \<and> bm_get g ''type'' = Some (JStr t) \<and>
     bm_get g ''coordinates'' = Some c \<and> geometry_shape t = Some P \<and> P c"
  by (auto simp: validate_geojson_def json_simps jget_str_def bind_eq_Some_conv check_geometry_ok split: option.splits sum.splits if_splits)

end
