(* ===== verification/Expand.thy ===== *)
theory Expand
  imports Geometry JsonldContext
begin

text \<open>
  Expansion of an entity and its structural validation (\<open>antares-jsonld/src/expand.rs\<close>): compacted or
  concise input to the internal form, in which \<open>id\<close> is a URI, \<open>type\<close> an array of absolute IRIs and every
  other member an absolute IRI with an array of normalized instances.  The recursion into sub-attributes is
  bounded by the code's own depth check, so \<open>expand_attribute\<close> counts the levels left (\<open>9 - depth\<close>).
  Decoding a JSON text and the Unicode classes of non-ASCII letters and digits are parameters (\<open>lib\<close>).
  Messages keep their fixed text and the attribute name; the echo of an offending value is left out.
\<close>

record lib =
  base :: ext
  from_json :: "string \<Rightarrow> json option"   \<comment> \<open>\<open>serde_json::from_str::<Value>\<close>\<close>
  to_json :: "json \<Rightarrow> string"             \<comment> \<open>\<open>Display\<close> of \<open>serde_json::Value\<close>\<close>
  uni_alphabetic :: "int \<Rightarrow> bool"         \<comment> \<open>\<open>char::is_alphabetic\<close> beyond ASCII\<close>
  uni_numeric :: "int \<Rightarrow> bool"            \<comment> \<open>\<open>char::is_numeric\<close> beyond ASCII\<close>

subsection \<open>The vocabulary\<close>

definition NGSI_NULL :: string where "NGSI_NULL = ''urn:ngsi-ld:null''"

definition NGSI_LD_BASE :: string where "NGSI_LD_BASE = ''https://uri.etsi.org/ngsi-ld/''"

definition ATTR_TYPES :: "string list" where
  "ATTR_TYPES = [''Property'', ''Relationship'', ''GeoProperty'', ''LanguageProperty'', ''JsonProperty'',
     ''VocabProperty'', ''ListProperty'', ''ListRelationship'']"

definition NON_REIFIED_TERMS :: "string list" where
  "NON_REIFIED_TERMS = [''datasetId'', ''instanceId'', ''observedAt'', ''unitCode'', ''lang'', ''objectType'',
     ''previousValue'', ''previousObject'', ''previousLanguageMap'', ''createdAt'', ''modifiedAt'',
     ''deletedAt'', ''expiresAt'', ''scope'']"

definition OUTPUT_ONLY :: "string list" where
  "OUTPUT_ONLY = [''entity'', ''entityList'', ''previousValue'', ''previousObject'', ''previousLanguageMap'',
     ''previousJson'', ''previousVocab'', ''previousValueList'', ''previousObjectList'']"

definition RESERVED_MEMBERS :: "string list" where
  "RESERVED_MEMBERS = [''type'', ''value'', ''object'', ''objectType'', ''datasetId'', ''observedAt'',
     ''unitCode'', ''lang'', ''languageMap'', ''vocab'', ''json'', ''valueList'', ''objectList'', ''entity'',
     ''entityList'', ''entityIdSealed'', ''entityTypeSealed'', ''valueType'', ''createdAt'', ''modifiedAt'',
     ''deletedAt'', ''expiresAt'', ''instanceId'', ''previousValue'', ''previousObject'',
     ''previousLanguageMap'', ''previousJson'', ''previousVocab'', ''previousValueList'', ''previousObjectList'']"

definition GEO_ENTITY_MEMBERS :: "string list" where
  "GEO_ENTITY_MEMBERS = [''https://uri.etsi.org/ngsi-ld/location'',
     ''https://uri.etsi.org/ngsi-ld/observationSpace'', ''https://uri.etsi.org/ngsi-ld/operationSpace'']"

record expand_opts =
  opt_fragment :: bool
  opt_allow_null :: bool
  opt_merge :: bool
  opt_temporal :: bool
  opt_sys :: bool

subsection \<open>Null markers\<close>

definition is_ngsi_null :: "json \<Rightarrow> bool" where
  "is_ngsi_null v \<longleftrightarrow> v = JStr NGSI_NULL"

definition null_at :: "string \<Rightarrow> jobj \<Rightarrow> bool" where
  "null_at k m = (case bm_get m k of None \<Rightarrow> False | Some v \<Rightarrow> is_ngsi_null v)"

definition is_ngsi_null_langmap :: "json \<Rightarrow> bool" where
  "is_ngsi_null_langmap v =
     (is_ngsi_null v \<or> (case v of JObj m \<Rightarrow> length m = 1 \<and> null_at ''@none'' m | _ \<Rightarrow> False))"

definition is_ngsi_null_list :: "json \<Rightarrow> bool" where
  "is_ngsi_null_list v =
     (is_ngsi_null v \<or> (case v of JArr a \<Rightarrow> length a = 1 \<and> is_ngsi_null (hd a) | _ \<Rightarrow> False))"

definition opt_holds :: "('a \<Rightarrow> bool) \<Rightarrow> 'a option \<Rightarrow> bool" where
  "opt_holds P x = (case x of None \<Rightarrow> False | Some v \<Rightarrow> P v)"

definition is_deletion_instance :: "json \<Rightarrow> bool" where
  "is_deletion_instance inst =
     (is_ngsi_null inst \<or> (case inst of
        JObj m \<Rightarrow> null_at ''value'' m \<or> null_at ''object'' m
          \<or> opt_holds is_ngsi_null_langmap (bm_get m ''languageMap'')
          \<or> null_at ''json'' m \<or> null_at ''vocab'' m
          \<or> opt_holds is_ngsi_null_list (bm_get m ''valueList'')
          \<or> opt_holds is_ngsi_null_list (bm_get m ''objectList'')
      | _ \<Rightarrow> False))"

fun has_object_member_null :: "json \<Rightarrow> bool" where
  "has_object_member_null (JObj m) = list_ex (\<lambda>e. is_ngsi_null (snd e) \<or> has_object_member_null (snd e)) m"
| "has_object_member_null (JArr a) = list_ex has_object_member_null a"
| "has_object_member_null _ = False"

fun nullish :: "json \<Rightarrow> bool" where
  "nullish (JArr a) = list_ex is_ngsi_null a"
| "nullish v = is_ngsi_null v"

definition reject_first_level_nulls :: "jobj \<Rightarrow> unit ngsi_result" where
  "reject_first_level_nulls doc = try_each (\<lambda>(k, v).
     if is_ngsi_null v
     then Err (BadRequestData (''member '' @ k @ '': the NGSI-LD null is only allowed in partial update or merge fragments (5.5.4)''))
     else Ok ()) doc"

definition check_value_nulls :: "expand_opts \<Rightarrow> string \<Rightarrow> json \<Rightarrow> unit ngsi_result" where
  "check_value_nulls opts name v =
     (if \<not> opt_allow_null opts \<and> nullish v
      then Err (attr_error name ''the NGSI-LD Null is only allowed in partial update or merge inputs (5.2.1)'')
      else if \<not> opt_merge opts \<and> has_object_member_null v
      then Err (attr_error name ''an NGSI-LD Null inside a compound value is only allowed in merge fragments (5.5.4)'')
      else Ok ())"

subsection \<open>Names\<close>

definition alphabetic :: "lib \<Rightarrow> int \<Rightarrow> bool" where
  "alphabetic L c = (if c < 128 then 65 \<le> c \<and> c \<le> 90 \<or> 97 \<le> c \<and> c \<le> 122 else uni_alphabetic L c)"

definition numeric :: "lib \<Rightarrow> int \<Rightarrow> bool" where
  "numeric L c = (if c < 128 then 48 \<le> c \<and> c \<le> 57 else uni_numeric L c)"

definition name_level :: "lib \<Rightarrow> string \<Rightarrow> bool" where
  "name_level L s = (case chars s of
     [] \<Rightarrow> False
   | c # cs \<Rightarrow> alphabetic L c \<and> list_all (\<lambda>d. alphabetic L d \<or> numeric L d \<or> d = 95) cs)"

definition valid_scope_value :: "lib \<Rightarrow> string \<Rightarrow> bool" where
  "valid_scope_value L s =
     (let body = (case strip_char CHR ''/'' s of Some b \<Rightarrow> b | None \<Rightarrow> s)
      in body \<noteq> [] \<and> list_all (name_level L) (split_on (\<lambda>c. c = CHR ''/'') body))"

definition valid_name :: "lib \<Rightarrow> string \<Rightarrow> bool" where
  "valid_name L s = (CHR '':'' \<in> set s \<or> name_level L s)"

definition expand_attr_name :: "jctx \<Rightarrow> string \<Rightarrow> string ngsi_result" where
  "expand_attr_name c name = (let i = expand_key c name in
     if is_absolute_iri i then Ok i else Err (BadRequestData ''attribute name does not expand to an absolute IRI''))"

definition expand_type :: "lib \<Rightarrow> jctx \<Rightarrow> string \<Rightarrow> json ngsi_result" where
  "expand_type L c t =
     (if \<not> valid_name L t then Err (BadRequestData ''entity type violates the 4.6.2 name grammar'')
      else let i = expand_key c t in
        if is_absolute_iri i then Ok (JStr i) else Err (BadRequestData ''entity type does not expand to an IRI''))"

definition expand_types :: "lib \<Rightarrow> jctx \<Rightarrow> json \<Rightarrow> json list ngsi_result" where
  "expand_types L c v = (case v of
     JStr t \<Rightarrow> if t \<noteq> [] then and_then (expand_type L c t) (\<lambda>i. Ok [i])
               else Err (BadRequestData ''entity type must be a non-empty string or array'')
   | JArr a \<Rightarrow>
       if a = [] then Err (BadRequestData ''entity type must be a non-empty string or array'')
       else try_map (\<lambda>t. case t of
          JStr t \<Rightarrow> if t \<noteq> [] then expand_type L c t else Err (BadRequestData ''entity type entries must be non-empty strings'')
        | _ \<Rightarrow> Err (BadRequestData ''entity type entries must be non-empty strings'')) a
   | _ \<Rightarrow> Err (BadRequestData ''entity type must be a non-empty string or array''))"

definition expand_terms :: "jctx \<Rightarrow> string \<Rightarrow> string \<Rightarrow> json \<Rightarrow> json ngsi_result" where
  "expand_terms c name m v = (case v of
     JStr s \<Rightarrow> Ok (JStr (expand_key c s))
   | JArr a \<Rightarrow> and_then (try_map (\<lambda>s. case as_str s of
        Some s \<Rightarrow> Ok (JStr (expand_key c s))
      | None \<Rightarrow> Err (attr_error name (''invalid '' @ m))) a) (\<lambda>ys. Ok (JArr ys))
   | _ \<Rightarrow> Err (attr_error name (''invalid '' @ m)))"

definition dataset_id_member :: "json \<Rightarrow> json option ngsi_result" where
  "dataset_id_member d = (case as_str d of
     None \<Rightarrow> Err (BadRequestData ''datasetId must be a URI'')
   | Some s \<Rightarrow>
       if s = NGSI_NULL then Err (BadRequestData ''a datasetId cannot be set or deleted via the NGSI-LD null (5.5.8)'')
       else if s = ''@none'' then Ok None
       else (case entity_id_new s of
          Err _ \<Rightarrow> Err (BadRequestData ''datasetId must be a URI'')
        | Ok _ \<Rightarrow> Ok (Some d)))"

definition looks_like_instance :: "json \<Rightarrow> bool" where
  "looks_like_instance v = (case v of
     JObj m \<Rightarrow> opt_holds (\<lambda>t. t \<in> set ATTR_TYPES) (jget_str m ''type'')
       \<or> list_ex (bm_contains m) [''value'', ''object'', ''languageMap'', ''vocab'', ''json'', ''valueList'', ''objectList'']
   | _ \<Rightarrow> False)"

subsection \<open>The members of an instance\<close>

definition VALUE_OWNERS :: "(string \<times> string list) list" where
  "VALUE_OWNERS = [(''value'', [''Property'', ''GeoProperty'']), (''object'', [''Relationship'']),
     (''languageMap'', [''LanguageProperty'']), (''json'', [''JsonProperty'']), (''vocab'', [''VocabProperty'']),
     (''valueList'', [''ListProperty'']), (''objectList'', [''ListRelationship''])]"

definition UNITLESS :: "string list" where
  "UNITLESS = [''Relationship'', ''ListRelationship'', ''LanguageProperty'', ''VocabProperty'', ''JsonProperty'']"

text \<open>A step that rejects, or passes the members collected so far on.\<close>

abbreviation reject_if :: "bool \<Rightarrow> ngsi_error \<Rightarrow> jobj \<Rightarrow> jobj ngsi_result" where
  "reject_if b e out \<equiv> (if b then Err e else Ok out)"

definition str_member :: "string \<Rightarrow> jobj \<Rightarrow> ngsi_error \<Rightarrow> (string \<Rightarrow> string) \<Rightarrow> jobj \<Rightarrow> jobj ngsi_result" where
  "str_member k obj e f out = (case bm_get obj k of
     None \<Rightarrow> Ok out
   | Some v \<Rightarrow> (case as_str v of None \<Rightarrow> Err e | Some s \<Rightarrow> Ok (bm_insert k (JStr (f s)) out)))"

definition copy_sealed :: "jctx \<Rightarrow> expand_opts \<Rightarrow> string \<Rightarrow> jobj \<Rightarrow> jobj \<Rightarrow> jobj ngsi_result" where
  "copy_sealed c opts name obj out =
     and_then (str_member ''entityIdSealed'' obj (attr_error name ''entityIdSealed must be a string (4.5.2.2)'') (\<lambda>s. s) out) (\<lambda>out.
     and_then (str_member ''entityTypeSealed'' obj (attr_error name ''entityTypeSealed must be a string (4.5.2.2)'') (expand_key c) out) (\<lambda>out.
     reject_if (opt_holds (\<lambda>v. \<not> is_object v \<and> \<not> (opt_allow_null opts \<and> is_ngsi_null v)) (bm_get obj ''value''))
       (attr_error name ''ngsildproof value shall be an object containing the W3C proof structure (4.5.2.2)'') out))"

definition check_prohibited_members :: "jctx \<Rightarrow> expand_opts \<Rightarrow> string \<Rightarrow> jobj \<Rightarrow> string \<Rightarrow> jobj \<Rightarrow> jobj ngsi_result" where
  "check_prohibited_members c opts name obj attr_type out =
     and_then (try_each (\<lambda>(m, owners). if bm_contains obj m \<and> attr_type \<notin> set owners
        then Err (attr_error name (m @ '' is not allowed on a '' @ attr_type @ '' (4.5.2.2)'')) else Ok ()) VALUE_OWNERS) (\<lambda>_.
     case find (bm_contains obj) OUTPUT_ONLY of
       Some m \<Rightarrow> Err (attr_error name (m @ '' is output-only and not allowed in input (4.5.2.2)''))
     | None \<Rightarrow>
       let sealed_ok = (attr_type = ''Property'' \<and> name = ''ngsildproof'') in
       if \<not> sealed_ok \<and> (bm_contains obj ''entityIdSealed'' \<or> bm_contains obj ''entityTypeSealed'')
       then Err (attr_error name ''entityIdSealed/entityTypeSealed are only allowed on the ngsildproof Property (4.5.2.2, 4.5.3.2)'')
       else and_then (if sealed_ok then copy_sealed c opts name obj out else Ok out) (\<lambda>out.
         reject_if (bm_contains obj ''unitCode'' \<and> attr_type \<in> set UNITLESS)
           (attr_error name (''unitCode is not allowed on a '' @ attr_type)) out))"

definition datetime_member :: "lib \<Rightarrow> string \<Rightarrow> string \<Rightarrow> jobj \<Rightarrow> jobj \<Rightarrow> jobj ngsi_result" where
  "datetime_member L name k obj out = (case bm_get obj k of
     None \<Rightarrow> Ok out
   | Some v \<Rightarrow> (case as_str v of
        Some s \<Rightarrow> if parse_datetime (base L) s then Ok (bm_insert k (JStr s) out) else Err (attr_error name (''invalid '' @ k))
      | None \<Rightarrow> Err (attr_error name (''invalid '' @ k))))"

definition sys_member :: "lib \<Rightarrow> jobj \<Rightarrow> string \<Rightarrow> jobj \<Rightarrow> jobj" where
  "sys_member L obj k out = (case bm_get obj k of
     Some (JStr s) \<Rightarrow> if parse_datetime (base L) s then bm_insert k (JStr s) out else out
   | _ \<Rightarrow> out)"

definition SYS_MEMBERS :: "string list" where
  "SYS_MEMBERS = [''createdAt'', ''modifiedAt'', ''deletedAt'']"

definition value_type_member :: "jctx \<Rightarrow> string \<Rightarrow> string \<Rightarrow> jobj \<Rightarrow> jobj \<Rightarrow> jobj ngsi_result" where
  "value_type_member c name attr_type obj out = (case bm_get obj ''valueType'' of
     None \<Rightarrow> Ok out
   | Some vt \<Rightarrow> (case as_str vt of
        None \<Rightarrow> Err (attr_error name ''valueType must be a string'')
      | Some s \<Rightarrow>
          if attr_type = ''LanguageProperty''
          then (if s \<noteq> ''langString'' then Err (attr_error name ''valueType shall be langString on a LanguageProperty'')
                else Ok (bm_insert ''valueType'' vt out))
          else Ok (bm_insert ''valueType'' (JStr (expand_key c s)) out)))"

definition expand_common_members :: "lib \<Rightarrow> jctx \<Rightarrow> expand_opts \<Rightarrow> string \<Rightarrow> jobj \<Rightarrow> string \<Rightarrow> jobj \<Rightarrow> jobj ngsi_result" where
  "expand_common_members L c opts name obj attr_type out =
     and_then (case bm_get obj ''datasetId'' of
         None \<Rightarrow> Ok out
       | Some d \<Rightarrow> (case dataset_id_member d of
            Err e \<Rightarrow> Err (attr_error name (detail e))
          | Ok None \<Rightarrow> Ok out
          | Ok (Some d) \<Rightarrow> Ok (bm_insert ''datasetId'' d out))) (\<lambda>out.
     and_then (datetime_member L name ''observedAt'' obj out) (\<lambda>out.
     and_then (datetime_member L name ''expiresAt'' obj out) (\<lambda>out.
     let out = (if opt_sys opts then fold (sys_member L obj) SYS_MEMBERS out else out) in
     and_then (str_member ''unitCode'' obj (attr_error name ''unitCode must be a string'') (\<lambda>s. s) out) (\<lambda>out.
     and_then (value_type_member c name attr_type obj out) (\<lambda>out.
     and_then (str_member ''lang'' obj (attr_error name ''lang must be a language tag'') (\<lambda>s. s) out) (\<lambda>out.
     case bm_get obj ''objectType'' of
       None \<Rightarrow> Ok out
     | Some ot \<Rightarrow> and_then (expand_terms c name ''objectType'' ot) (\<lambda>v. Ok (bm_insert ''objectType'' v out))))))))"

subsection \<open>The value of each attribute type\<close>

definition need :: "jobj \<Rightarrow> string \<Rightarrow> ngsi_error \<Rightarrow> (json \<Rightarrow> json ngsi_result) \<Rightarrow> (string \<times> json) ngsi_result" where
  "need obj k e f = (case bm_get obj k of None \<Rightarrow> Err e | Some v \<Rightarrow> and_then (f v) (\<lambda>w. Ok (k, w)))"

definition geo_value :: "lib \<Rightarrow> expand_opts \<Rightarrow> string \<Rightarrow> json \<Rightarrow> json ngsi_result" where
  "geo_value L opts name v =
     and_then (case v of
         JStr s \<Rightarrow> if \<not> (opt_allow_null opts \<and> is_ngsi_null v)
           then (case from_json L s of Some w \<Rightarrow> Ok w | None \<Rightarrow> Err (attr_error name ''string-encoded geometry is not valid JSON''))
           else Ok v
       | _ \<Rightarrow> Ok v) (\<lambda>w.
     if opt_allow_null opts \<and> is_ngsi_null w then Ok w
     else and_then (validate_geojson name w) (\<lambda>_. Ok w))"

definition uri_or :: "ngsi_error \<Rightarrow> string \<Rightarrow> unit ngsi_result" where
  "uri_or e s = (case entity_id_new s of Ok _ \<Rightarrow> Ok () | Err _ \<Rightarrow> Err e)"

definition object_value :: "expand_opts \<Rightarrow> string \<Rightarrow> json \<Rightarrow> json ngsi_result" where
  "object_value opts name v = (case v of
     JStr s \<Rightarrow> if opt_allow_null opts \<and> s = NGSI_NULL then Ok v
       else and_then (uri_or (attr_error name ''object must be a URI'') s) (\<lambda>_. Ok v)
   | JArr items \<Rightarrow>
       if items = [] then Err (attr_error name ''invalid object'')
       else and_then (try_each (\<lambda>s. case as_str s of
            None \<Rightarrow> Err (attr_error name ''object entries must be URIs'')
          | Some s \<Rightarrow> uri_or (attr_error name ''object must be a URI'') s) items) (\<lambda>_. Ok v)
   | _ \<Rightarrow> Err (attr_error name ''invalid object''))"

fun lang_text :: "json \<Rightarrow> bool" where
  "lang_text (JArr a) = list_all is_string a"
| "lang_text v = is_string v"

definition lang_value :: "expand_opts \<Rightarrow> string \<Rightarrow> json \<Rightarrow> json ngsi_result" where
  "lang_value opts name lm =
     (if (if is_ngsi_null_langmap lm then opt_allow_null opts
          else (case lm of JObj m \<Rightarrow> list_all (\<lambda>k. k \<noteq> []) (bm_keys m) \<and> list_all lang_text (bm_values m) | _ \<Rightarrow> False))
      then Ok lm else Err (attr_error name ''invalid languageMap''))"

definition json_value :: "expand_opts \<Rightarrow> string \<Rightarrow> json \<Rightarrow> json ngsi_result" where
  "json_value opts name j =
     (if is_object j \<or> (case j of JArr a \<Rightarrow> list_all is_object a | _ \<Rightarrow> False) \<or> (opt_allow_null opts \<and> is_ngsi_null j)
      then Ok j else Err (attr_error name ''json must be an object or array of objects''))"

definition list_entry :: "string \<Rightarrow> json \<Rightarrow> json ngsi_result" where
  "list_entry name it =
     and_then (case it of
         JStr s \<Rightarrow> Ok s
       | JObj m \<Rightarrow> (case (length m = 1, jget_str m ''object'') of
            (True, Some s) \<Rightarrow> Ok s
          | _ \<Rightarrow> Err (attr_error name ''objectList entries must be URIs or objects with an object''))
       | _ \<Rightarrow> Err (attr_error name ''objectList entries must be URIs or objects with an object'')) (\<lambda>uri.
     and_then (uri_or (attr_error name ''objectList entry is not a URI'') uri) (\<lambda>_. Ok (JStr uri)))"

definition object_list_value :: "expand_opts \<Rightarrow> string \<Rightarrow> json \<Rightarrow> json ngsi_result" where
  "object_list_value opts name l =
     (if opt_allow_null opts \<and> is_ngsi_null_list l then Ok l
      else case l of
        JArr items \<Rightarrow> and_then (try_map (list_entry name) items) (\<lambda>us. Ok (JArr us))
      | _ \<Rightarrow> Err (attr_error name ''objectList must be an array''))"

definition required_member :: "lib \<Rightarrow> jctx \<Rightarrow> expand_opts \<Rightarrow> string \<Rightarrow> jobj \<Rightarrow> string \<Rightarrow> (string \<times> json) ngsi_result" where
  "required_member L c opts name obj t =
     (if t = ''Property'' then need obj ''value'' (attr_error name ''Property needs value'')
        (\<lambda>v. if v = JNull then Err (attr_error name ''JSON null is not a valid value (use the NGSI-LD null)'') else Ok v)
      else if t = ''GeoProperty'' then need obj ''value'' (attr_error name ''GeoProperty needs value'') (geo_value L opts name)
      else if t = ''Relationship'' then need obj ''object'' (attr_error name ''Relationship needs object'') (object_value opts name)
      else if t = ''LanguageProperty'' then need obj ''languageMap'' (attr_error name ''needs languageMap'') (lang_value opts name)
      else if t = ''JsonProperty'' then need obj ''json'' (attr_error name ''needs json'') (json_value opts name)
      else if t = ''VocabProperty'' then need obj ''vocab'' (attr_error name ''needs vocab'') (expand_terms c name ''vocab'')
      else if t = ''ListProperty'' then need obj ''valueList'' (attr_error name ''needs valueList'')
        (\<lambda>l. if \<not> is_array l \<and> \<not> (opt_allow_null opts \<and> is_ngsi_null l) then Err (attr_error name ''valueList must be an array'') else Ok l)
      else if t = ''ListRelationship'' then need obj ''objectList'' (attr_error name ''needs objectList'') (object_list_value opts name)
      else Err (InternalError (''attribute type '' @ t @ '' has no expansion arm'')))"

subsection \<open>Instances and attributes\<close>

text \<open>What the shape of an instance says it is: a finished concise instance, or an attribute type to expand.\<close>

datatype shape = Done json | Typed string

definition geo_like :: "jobj \<Rightarrow> bool" where
  "geo_like m = (opt_holds (\<lambda>t. t \<in> set GEO_TYPES) (jget_str m ''type'') \<and> bm_contains m ''coordinates'')"

definition inst_obj :: "string \<Rightarrow> json \<Rightarrow> json" where
  "inst_obj t v = mkobj [(''type'', JStr t), (''value'', v)]"

definition infer_type :: "expand_opts \<Rightarrow> string \<Rightarrow> jobj \<Rightarrow> shape ngsi_result" where
  "infer_type opts name obj =
     (if bm_contains obj ''object'' then Ok (Typed ''Relationship'')
      else if bm_contains obj ''languageMap'' then Ok (Typed ''LanguageProperty'')
      else if bm_contains obj ''vocab'' then Ok (Typed ''VocabProperty'')
      else if bm_contains obj ''json'' then Ok (Typed ''JsonProperty'')
      else if bm_contains obj ''valueList'' then Ok (Typed ''ListProperty'')
      else if bm_contains obj ''objectList'' then Ok (Typed ''ListRelationship'')
      else (case bm_get obj ''value'' of
         Some v \<Rightarrow> Ok (Typed (if (case v of JObj m \<Rightarrow> geo_like m | _ \<Rightarrow> False) then ''GeoProperty'' else ''Property''))
       | None \<Rightarrow> and_then (check_value_nulls opts name (JObj obj)) (\<lambda>_. Ok (Done (inst_obj ''Property'' (JObj obj))))))"

definition instance_shape :: "expand_opts \<Rightarrow> string \<Rightarrow> jobj \<Rightarrow> shape ngsi_result" where
  "instance_shape opts name obj = (case jget_str obj ''type'' of
     Some t \<Rightarrow>
       if t \<in> set ATTR_TYPES then Ok (Typed t)
       else if t \<in> set GEO_TYPES \<and> bm_contains obj ''coordinates''
       then and_then (check_value_nulls opts name (JObj obj)) (\<lambda>_.
            and_then (validate_geojson name (JObj obj)) (\<lambda>_. Ok (Done (inst_obj ''GeoProperty'' (JObj obj)))))
       else Err (attr_error name ''invalid attribute type'')
   | None \<Rightarrow> infer_type opts name obj)"

text \<open>The sub-attribute loop; \<open>sub\<close> expands one sub-attribute.\<close>

definition sub_step :: "jctx \<Rightarrow> (string \<Rightarrow> json \<Rightarrow> json list ngsi_result) \<Rightarrow> string \<Rightarrow> string \<times> json \<Rightarrow> jobj \<Rightarrow> jobj ngsi_result" where
  "sub_step c sub name e out = (case e of (k, v) \<Rightarrow>
     if k = ''@context'' then Err (attr_error name ''embedded @context is not allowed (4.5.1/5.5.7)'')
     else if k \<in> set RESERVED_MEMBERS then Ok out
     else if k = [] then Err (attr_error name ''empty sub-attribute name'')
     else and_then (expand_attr_name c k) (\<lambda>i. and_then (sub k v) (\<lambda>instances.
       if bm_contains out i
       then Err (attr_error name (''sub-attribute '' @ k @ '' expands to '' @ i @ '', which another member already defines (4.5.5.1)''))
       else Ok (bm_insert i (JArr instances) out))))"

definition check_nulls :: "expand_opts \<Rightarrow> string \<Rightarrow> jobj \<Rightarrow> jobj ngsi_result" where
  "check_nulls opts name out =
     (if \<not> opt_allow_null opts \<and>
         (list_ex (\<lambda>k. opt_holds nullish (bm_get out k)) [''value'', ''object'', ''vocab'', ''valueList'', ''objectList'']
          \<or> (case bm_get out ''languageMap'' of Some (JObj m) \<Rightarrow> list_ex nullish (bm_values m) | _ \<Rightarrow> False))
      then Err (attr_error name ''the NGSI-LD Null is only allowed in partial update or merge inputs (5.2.1)'')
      else reject_if (\<not> opt_merge opts \<and> opt_holds has_object_member_null (bm_get out ''value''))
        (attr_error name ''an NGSI-LD Null inside a compound value is only allowed in merge fragments (5.5.4)'') out)"

definition expand_typed :: "lib \<Rightarrow> jctx \<Rightarrow> expand_opts \<Rightarrow> (string \<Rightarrow> json \<Rightarrow> json list ngsi_result) \<Rightarrow> string \<Rightarrow> jobj \<Rightarrow> string \<Rightarrow> json ngsi_result" where
  "expand_typed L c opts sub name obj t =
     and_then (check_prohibited_members c opts name obj t [(''type'', JStr t)]) (\<lambda>out.
     and_then (required_member L c opts name obj t) (\<lambda>(k, v).
     and_then (expand_common_members L c opts name obj t (bm_insert k v out)) (\<lambda>out.
     and_then (try_fold (sub_step c sub name) obj out) (\<lambda>out.
     and_then (check_nulls opts name out) (\<lambda>out. Ok (JObj out))))))"

definition expand_instance :: "lib \<Rightarrow> jctx \<Rightarrow> expand_opts \<Rightarrow> (string \<Rightarrow> json \<Rightarrow> json list ngsi_result) \<Rightarrow> string \<Rightarrow> json \<Rightarrow> json ngsi_result" where
  "expand_instance L c opts sub name v =
     (if is_ngsi_null v
      then (if opt_allow_null opts then Ok (inst_obj ''Property'' (JStr NGSI_NULL))
            else Err (attr_error name ''null is not allowed here''))
      else case v of
        JObj obj \<Rightarrow> and_then (instance_shape opts name obj) (\<lambda>s. case s of
            Done inst \<Rightarrow> Ok inst
          | Typed t \<Rightarrow> expand_typed L c opts sub name obj t)
      | _ \<Rightarrow> and_then (check_value_nulls opts name v) (\<lambda>_. Ok (inst_obj ''Property'' v)))"

text \<open>\<open>expand_attribute\<close> at depth \<open>d\<close> has \<open>9 - d\<close> levels left.\<close>

primrec expand_attribute :: "nat \<Rightarrow> lib \<Rightarrow> jctx \<Rightarrow> expand_opts \<Rightarrow> string \<Rightarrow> json \<Rightarrow> json list ngsi_result" where
  "expand_attribute 0 L c opts name v = Err (attr_error name ''nesting too deep'')"
| "expand_attribute (Suc n) L c opts name v =
     (if \<not> valid_name L name then Err (BadRequestData ''attribute name violates the 4.6.2 name grammar'')
      else case v of
        JArr items \<Rightarrow>
          if list_all looks_like_instance items \<and> items \<noteq> []
          then try_map (expand_instance L c opts (expand_attribute n L c opts) name) items
          else and_then (expand_instance L c opts (expand_attribute n L c opts) name v) (\<lambda>i. Ok [i])
      | _ \<Rightarrow> and_then (expand_instance L c opts (expand_attribute n L c opts) name v) (\<lambda>i. Ok [i]))"

definition MAX_LEVELS :: nat where "MAX_LEVELS = 9"

definition seen_step :: "string \<Rightarrow> json \<Rightarrow> string list \<times> nat \<Rightarrow> (string list \<times> nat) ngsi_result" where
  "seen_step name inst st = (case Option.bind (jget inst ''datasetId'') as_str of
     Some d \<Rightarrow> if d \<in> set (fst st) then Err (attr_error name (''duplicate datasetId '' @ d)) else Ok (d # fst st, snd st)
   | None \<Rightarrow> Ok (fst st, Suc (snd st)))"

definition validate_dataset_ids :: "string \<Rightarrow> json list \<Rightarrow> unit ngsi_result" where
  "validate_dataset_ids name instances =
     and_then (try_fold (seen_step name) instances ([], 0)) (\<lambda>(seen, default_count).
       if 1 < default_count then Err (attr_error name ''more than one instance without datasetId'') else Ok ())"

subsection \<open>Fragments of an attribute\<close>

definition FRAGMENT_IGNORED :: "string list" where
  "FRAGMENT_IGNORED = [''@context'', ''createdAt'', ''modifiedAt'', ''deletedAt'', ''instanceId'', ''entityIdSealed'', ''entityTypeSealed'']"

definition FRAGMENT_OPTS :: expand_opts where
  "FRAGMENT_OPTS = \<lparr>opt_fragment = True, opt_allow_null = True, opt_merge = False, opt_temporal = False, opt_sys = False\<rparr>"

definition fragment_step :: "lib \<Rightarrow> jctx \<Rightarrow> string \<times> json \<Rightarrow> jobj \<Rightarrow> jobj ngsi_result" where
  "fragment_step L c e out = (case e of (k, v) \<Rightarrow>
     if k \<in> set FRAGMENT_IGNORED \<or> k \<in> set OUTPUT_ONLY then Ok out
     else if k = ''type'' then
       (case as_str v of
          Some t \<Rightarrow> if t \<in> set ATTR_TYPES then Ok (bm_insert ''type'' (JStr t) out) else Err (BadRequestData ''invalid attribute type in fragment'')
        | None \<Rightarrow> Err (BadRequestData ''invalid attribute type in fragment''))
     else if k = ''observedAt'' \<or> k = ''expiresAt'' then
       (case as_str v of
          Some s \<Rightarrow> if parse_datetime (base L) s then Ok (bm_insert k (JStr s) out) else Err (BadRequestData (''invalid '' @ k @ '' in fragment''))
        | None \<Rightarrow> Err (BadRequestData (''invalid '' @ k @ '' in fragment'')))
     else if k = ''value'' then
       (if v = JNull then Err (BadRequestData ''JSON null is not a valid value'')
        else if has_object_member_null v
        then Err (BadRequestData ''an NGSI-LD Null inside a compound value is only allowed in merge fragments (5.5.4)'')
        else Ok (bm_insert ''value'' v out))
     else if k = ''datasetId'' then
       and_then (dataset_id_member v) (\<lambda>d. case d of Some d \<Rightarrow> Ok (bm_insert ''datasetId'' d out) | None \<Rightarrow> Ok out)
     else if k \<in> set RESERVED_MEMBERS then Ok (bm_insert k v out)
     else and_then (expand_attr_name c k) (\<lambda>i.
       and_then (expand_attribute (MAX_LEVELS - 1) L c FRAGMENT_OPTS k v) (\<lambda>instances.
         if bm_contains out i
         then Err (BadRequestData (''sub-attribute '' @ k @ '' expands to '' @ i @ '', which another member of this fragment already defines (4.5.5.1)''))
         else Ok (bm_insert i (JArr instances) out))))"

definition expand_attr_fragment :: "lib \<Rightarrow> jctx \<Rightarrow> jobj \<Rightarrow> json ngsi_result" where
  "expand_attr_fragment L c obj = and_then (try_fold (fragment_step L c) obj []) (\<lambda>out. Ok (JObj out))"

subsection \<open>Entities\<close>

definition get_or :: "jobj \<Rightarrow> string \<Rightarrow> string \<Rightarrow> json option" where
  "get_or doc k k' = (case bm_get doc k of Some v \<Rightarrow> Some v | None \<Rightarrow> bm_get doc k')"

definition entity_id_step :: "expand_opts \<Rightarrow> jobj \<Rightarrow> jobj \<Rightarrow> jobj ngsi_result" where
  "entity_id_step opts doc out = (case get_or doc ''id'' ''@id'' of
     Some (JStr i) \<Rightarrow> and_then (entity_id_new i) (\<lambda>_. Ok (bm_insert ''id'' (JStr i) out))
   | Some _ \<Rightarrow> Err (BadRequestData ''entity id must be a string URI'')
   | None \<Rightarrow> reject_if (\<not> opt_fragment opts) (BadRequestData ''entity id is required'') out)"

definition entity_type_step :: "lib \<Rightarrow> jctx \<Rightarrow> expand_opts \<Rightarrow> jobj \<Rightarrow> jobj \<Rightarrow> jobj ngsi_result" where
  "entity_type_step L c opts doc out = (case get_or doc ''type'' ''@type'' of
     Some v \<Rightarrow> and_then (expand_types L c v) (\<lambda>ts. Ok (bm_insert ''type'' (JArr ts) out))
   | None \<Rightarrow> reject_if (\<not> opt_fragment opts) (BadRequestData ''entity type is required'') out)"

definition scope_ok :: "lib \<Rightarrow> expand_opts \<Rightarrow> string \<Rightarrow> bool" where
  "scope_ok L opts s = (if s = NGSI_NULL then opt_allow_null opts else valid_scope_value L s)"

definition bad_scope :: ngsi_error where
  "bad_scope = BadRequestData ''invalid scope (4.18 grammar)''"

definition scope_entry :: "lib \<Rightarrow> expand_opts \<Rightarrow> json \<Rightarrow> json ngsi_result" where
  "scope_entry L opts s = (case s of
     JStr _ \<Rightarrow> Ok s
   | JObj m \<Rightarrow>
       if \<not> opt_temporal opts then Err (BadRequestData ''scope entries must be strings'')
       else and_then (case bm_get m ''value'' of
            Some (JStr s) \<Rightarrow> Ok [s]
          | Some (JArr vs) \<Rightarrow> if list_all is_string vs then Ok (List.map_filter as_str vs)
                             else Err (BadRequestData ''scope instance needs a string value'')
          | _ \<Rightarrow> Err (BadRequestData ''scope instance needs a string value'')) (\<lambda>vals.
         if list_all (scope_ok L opts) vals then Ok s else Err bad_scope)
   | _ \<Rightarrow> Err (BadRequestData ''scope entries must be strings''))"

definition entity_scope_step :: "lib \<Rightarrow> expand_opts \<Rightarrow> jobj \<Rightarrow> jobj \<Rightarrow> jobj ngsi_result" where
  "entity_scope_step L opts doc out = (case bm_get doc ''scope'' of
     None \<Rightarrow> Ok out
   | Some v \<Rightarrow>
       and_then (case v of
           JStr s \<Rightarrow> Ok [v]
         | JArr a \<Rightarrow> try_map (scope_entry L opts) a
         | _ \<Rightarrow> Err (BadRequestData ''scope must be a string or array of strings'')) (\<lambda>scopes.
       if \<not> list_all (scope_ok L opts) (List.map_filter as_str scopes) then Err bad_scope
       else if 1 < length scopes \<and> list_ex is_ngsi_null scopes
       then Err (BadRequestData ''the NGSI-LD null is the whole scope or none of it (4.18, 5.5.12)'')
       else Ok (bm_insert ''scope'' (JArr scopes) out)))"

definition entity_expiry_step :: "lib \<Rightarrow> expand_opts \<Rightarrow> jobj \<Rightarrow> jobj \<Rightarrow> jobj ngsi_result" where
  "entity_expiry_step L opts doc out = (case bm_get doc ''expiresAt'' of
     None \<Rightarrow> Ok out
   | Some v \<Rightarrow>
       let removal = (opt_allow_null opts \<and> (opt_fragment opts \<or> opt_merge opts) \<and> is_ngsi_null v) in
       (case as_str v of
          Some s \<Rightarrow> if removal \<or> parse_datetime (base L) s then Ok (bm_insert ''expiresAt'' (JStr s) out)
                    else Err (BadRequestData ''expiresAt must be an ISO 8601 DateTime'')
        | None \<Rightarrow> Err (BadRequestData ''expiresAt must be an ISO 8601 DateTime'')))"

definition ENTITY_MEMBERS :: "string list" where
  "ENTITY_MEMBERS = [''id'', ''@id'', ''type'', ''@type'', ''@context'', ''scope'', ''expiresAt'', ''createdAt'', ''modifiedAt'', ''deletedAt'']"

definition geo_member_ok :: "expand_opts \<Rightarrow> json \<Rightarrow> bool" where
  "geo_member_ok opts inst \<longleftrightarrow>
     Option.bind (jget inst ''type'') as_str = Some ''GeoProperty''
     \<or> (opt_allow_null opts \<and> opt_holds is_ngsi_null (jget inst ''value''))"

definition entity_attr_step :: "lib \<Rightarrow> jctx \<Rightarrow> expand_opts \<Rightarrow> string \<times> json \<Rightarrow> jobj \<Rightarrow> jobj ngsi_result" where
  "entity_attr_step L c opts e out = (case e of (key, v) \<Rightarrow>
     if key \<in> set ENTITY_MEMBERS then Ok out
     else if key = [] then Err (BadRequestData ''empty attribute name'')
     else and_then (expand_attr_name c key) (\<lambda>i.
       if opt_holds (\<lambda>t. t \<in> set NON_REIFIED_TERMS) (strip_prefix NGSI_LD_BASE i)
       then Err (BadRequestData (key @ '' is a core non-reified term and cannot be used as an Attribute name (4.5.1)''))
       else and_then (expand_attribute MAX_LEVELS L c opts key v) (\<lambda>instances.
         if i \<in> set GEO_ENTITY_MEMBERS \<and> \<not> list_all (geo_member_ok opts) instances
         then Err (BadRequestData (key @ '' must be a GeoProperty''))
         else and_then (if opt_temporal opts then Ok () else validate_dataset_ids key instances) (\<lambda>_.
           if bm_contains out i
           then Err (BadRequestData (''attribute '' @ key @ '' expands to '' @ i @ '', which another member of this Entity already defines (4.5.5.1)''))
           else Ok (bm_insert i (JArr instances) out)))))"

definition expand_entity :: "lib \<Rightarrow> jctx \<Rightarrow> expand_opts \<Rightarrow> jobj \<Rightarrow> json ngsi_result" where
  "expand_entity L c opts doc =
     and_then (if opt_allow_null opts then Ok () else reject_first_level_nulls doc) (\<lambda>_.
     and_then (entity_id_step opts doc []) (\<lambda>out.
     and_then (entity_type_step L c opts doc out) (\<lambda>out.
     and_then (entity_scope_step L opts doc out) (\<lambda>out.
     and_then (entity_expiry_step L opts doc out) (\<lambda>out.
     let out = (if opt_sys opts then fold (sys_member L doc) SYS_MEMBERS out else out) in
     and_then (try_fold (entity_attr_step L c opts) doc out) (\<lambda>out. Ok (JObj out)))))))"

definition expanded_object :: "json \<Rightarrow> jobj ngsi_result" where
  "expanded_object v = (case as_object v of Some m \<Rightarrow> Ok m | None \<Rightarrow> Err (InternalError ''expanded document is not a JSON object''))"

definition expanded_id :: "json \<Rightarrow> string ngsi_result" where
  "expanded_id v = (case Option.bind (jget v ''id'') as_str of
     Some i \<Rightarrow> Ok i | None \<Rightarrow> Err (InternalError ''expanded entity carries no id''))"

end
