(* ===== verification/ExpandSpec.thy ===== *)
theory ExpandSpec
  imports Expand
begin

text \<open>
  What expansion guarantees: every error blames the client, and every accepted document is well formed at
  every level, carries no deletion marker where none is allowed and names each instance once.
\<close>

subsection \<open>Errors blame the client\<close>

definition client_error :: "ngsi_error \<Rightarrow> bool" where
  "client_error e \<longleftrightarrow> (\<exists>m. e = BadRequestData m)"

definition blames_client :: "'a ngsi_result \<Rightarrow> bool" where
  "blames_client r \<longleftrightarrow> (\<forall>e. r = Inl e \<longrightarrow> client_error e)"

named_theorems blame \<open>which operations only fail with \<open>BadRequestData\<close>\<close>

lemma blame_simps [simp]:
  "blames_client (Inr x)" "blames_client (Inl (BadRequestData m))" "blames_client (Inl (attr_error name m))"
  by (simp_all add: blames_client_def client_error_def attr_error_def)

lemma blame_and_then [blame]: "blames_client r \<Longrightarrow> (\<And>x. r = Inr x \<Longrightarrow> blames_client (f x)) \<Longrightarrow> blames_client (and_then r f)"
  by (cases r) (auto simp: blames_client_def)

lemma blame_if: "(b \<Longrightarrow> blames_client r) \<Longrightarrow> (\<not> b \<Longrightarrow> blames_client s) \<Longrightarrow> blames_client (if b then r else s)"
  by simp

lemma blame_try_map [blame]: "(\<And>x. x \<in> set xs \<Longrightarrow> blames_client (f x)) \<Longrightarrow> blames_client (try_map f xs)"
  unfolding blames_client_def using try_map_Inl by fast

lemma blame_try_each [blame]: "(\<And>x. x \<in> set xs \<Longrightarrow> blames_client (f x)) \<Longrightarrow> blames_client (try_each f xs)"
  unfolding blames_client_def using try_each_Inl by fast

lemma blame_try_fold [blame]: "(\<And>x s. x \<in> set xs \<Longrightarrow> blames_client (f x s)) \<Longrightarrow> blames_client (try_fold f xs s)"
  unfolding blames_client_def using try_fold_Inl by fast

lemma blame_entity_id [blame]: "blames_client (entity_id_new i)"
  by (simp add: entity_id_new_def Let_def)

lemma blame_geojson [blame]: "blames_client (validate_geojson name v)"
  unfolding blames_client_def client_error_def using validate_geojson_error by blast

lemma blame_names [blame]:
  "blames_client (expand_attr_name c k)" "blames_client (expand_type L c s)" "blames_client (check_value_nulls opts name v)"
  "blames_client (dataset_id_member v)" "blames_client (datetime_member L name k obj out)"
  "blames_client (value_type_member c name t obj out)" "blames_client (check_nulls opts name out)"
  "blames_client (lang_value opts name v)" "blames_client (json_value opts name v)"
  by (auto simp: expand_attr_name_def expand_type_def check_value_nulls_def dataset_id_member_def datetime_member_def
      value_type_member_def check_nulls_def lang_value_def json_value_def Let_def split: option.split sum.split)

lemma blame_str_member [blame]: "blames_client (Inl e :: 'a ngsi_result) \<Longrightarrow> blames_client (str_member k obj e f out)"
  by (auto simp: str_member_def blames_client_def split: option.split)

lemma blame_uri_or [blame]: "blames_client (Inl e :: 'a ngsi_result) \<Longrightarrow> blames_client (uri_or e s)"
  by (auto simp: uri_or_def blames_client_def split: sum.split)

lemma blame_need [blame]: "blames_client (Inl e :: 'a ngsi_result) \<Longrightarrow> (\<And>v. blames_client (f v)) \<Longrightarrow> blames_client (need obj k e f)"
  by (cases "bm_get obj k") (auto simp: need_def blames_client_def and_then_Inl_iff)

lemma blame_terms [blame]: "blames_client (expand_terms c name m v)"
  by (auto simp: expand_terms_def intro!: blame split: json.split option.split)

lemma blame_types [blame]: "blames_client (expand_types L c v)"
  by (auto simp: expand_types_def intro!: blame split: json.split)

lemma blame_object [blame]: "blames_client (object_value opts name v)"
  by (auto simp: object_value_def intro!: blame split: json.split option.split)

lemma blame_geo [blame]: "blames_client (geo_value L opts name v)"
  unfolding geo_value_def by (rule blame_and_then) (auto intro!: blame split: json.split option.split)

lemma blame_list_entry [blame]: "blames_client (list_entry name v)"
  unfolding list_entry_def by (rule blame_and_then) (auto intro!: blame split: json.split option.split bool.split)

lemma blame_object_list [blame]: "blames_client (object_list_value opts name v)"
  by (auto simp: object_list_value_def intro!: blame split: json.split)

lemma blame_required: "t \<in> set ATTR_TYPES \<Longrightarrow> blames_client (required_member L c opts name obj t)"
  unfolding required_member_def
  by (intro blame_if blame blame_simps; simp add: ATTR_TYPES_def; intro impI conjI; rule blame_simps)

lemma blame_sealed [blame]: "blames_client (copy_sealed c opts name obj out)"
  by (auto simp: copy_sealed_def intro!: blame)

lemma blame_prohibited [blame]: "blames_client (check_prohibited_members c opts name obj t out)"
  unfolding check_prohibited_members_def
  by (rule blame_and_then) (auto simp: Let_def intro!: blame split: option.split prod.split)

lemma blame_common [blame]: "blames_client (expand_common_members L c opts name obj t out)"
  unfolding expand_common_members_def Let_def
  by (intro blame) (auto intro!: blame split: option.split sum.split)

lemma infer_types: "infer_type opts name obj = Inr (Typed t) \<Longrightarrow> t \<in> set ATTR_TYPES"
  by (auto simp: infer_type_def and_then_Inr_iff ATTR_TYPES_def split: if_splits option.splits)

lemma shape_types: "instance_shape opts name obj = Inr (Typed t) \<Longrightarrow> t \<in> set ATTR_TYPES"
  by (auto simp: instance_shape_def and_then_Inr_iff infer_types split: if_splits option.splits)

lemma blame_shape [blame]: "blames_client (instance_shape opts name obj)"
  by (auto simp: instance_shape_def infer_type_def intro!: blame split: option.split)

lemma blame_sub_step: "(\<And>k v. blames_client (sub k v)) \<Longrightarrow> blames_client (sub_step c sub name e out)"
  by (auto simp: sub_step_def intro!: blame split: prod.split)

lemma blame_typed:
  "t \<in> set ATTR_TYPES \<Longrightarrow> (\<And>k v. blames_client (sub k v)) \<Longrightarrow> blames_client (expand_typed L c opts sub name obj t)"
  unfolding expand_typed_def
  by (intro blame blame_required) (auto intro!: blame blame_sub_step split: prod.split)

lemma blame_instance: "(\<And>k v. blames_client (sub k v)) \<Longrightarrow> blames_client (expand_instance L c opts sub name v)"
  by (auto simp: expand_instance_def intro!: blame blame_typed dest: shape_types split: json.split shape.split)

lemma blame_attribute [blame]: "blames_client (expand_attribute n L c opts name v)"
proof (induction n arbitrary: name v)
  case (Suc n)
  then show ?case by (auto intro!: blame blame_instance split: json.split)
qed simp

lemma blame_dataset_ids [blame]: "blames_client (validate_dataset_ids name xs)"
  unfolding validate_dataset_ids_def by (rule blame_and_then)
    (auto simp: seen_step_def intro!: blame split: option.split)

lemma blame_entity: "blames_client (expand_entity L c opts doc)"
  unfolding expand_entity_def Let_def
  by (intro blame)
     (auto simp: reject_first_level_nulls_def entity_id_step_def entity_type_step_def entity_scope_step_def scope_entry_def bad_scope_def
        entity_expiry_step_def entity_attr_step_def Let_def intro!: blame split: option.split json.split prod.split)

subsection \<open>Which members a step writes\<close>

definition adds :: "string set \<Rightarrow> jobj \<Rightarrow> jobj \<Rightarrow> bool" where
  "adds K out out' \<longleftrightarrow> (bm_ok out \<longrightarrow> bm_ok out') \<and> (\<forall>k. k \<notin> K \<longrightarrow> bm_get out' k = bm_get out k)"

named_theorems writes \<open>which members a step of the expansion writes\<close>

lemma adds_refl [writes]: "adds K out out"
  by (simp add: adds_def)

lemma adds_insert [writes]: "k \<in> K \<Longrightarrow> adds K out (bm_insert k v out)"
  by (auto simp: adds_def bm_insert_ok)

lemma adds_trans: "adds K out out' \<Longrightarrow> adds K out' out'' \<Longrightarrow> adds K out out''"
  by (simp add: adds_def)

lemma adds_mono: "adds K out out' \<Longrightarrow> K \<subseteq> K' \<Longrightarrow> adds K' out out'"
  by (auto simp: adds_def)

lemma adds_get: "adds K out out' \<Longrightarrow> k \<notin> K \<Longrightarrow> bm_get out' k = bm_get out k"
  by (simp add: adds_def)

definition COMMON :: "string set" where
  "COMMON = {''datasetId'', ''observedAt'', ''expiresAt'', ''createdAt'', ''modifiedAt'', ''deletedAt'', ''unitCode'',
     ''valueType'', ''lang'', ''objectType'', ''entityIdSealed'', ''entityTypeSealed''}"

lemma adds_str_member [writes]: "str_member k obj e f out = Inr out' \<Longrightarrow> k \<in> K \<Longrightarrow> adds K out out'"
  by (auto simp: str_member_def intro: writes split: option.splits)

lemma adds_datetime [writes]: "datetime_member L name k obj out = Inr out' \<Longrightarrow> k \<in> K \<Longrightarrow> adds K out out'"
  by (auto simp: datetime_member_def intro: writes split: option.splits if_splits)

lemma adds_sys: "set ks \<subseteq> K \<Longrightarrow> adds K out (fold (sys_member L obj) ks out)"
proof (induction ks arbitrary: out)
  case (Cons k ks)
  have "adds K out (sys_member L obj k out)"
    using Cons.prems by (auto simp: sys_member_def intro: writes split: option.split json.split)
  with Cons show ?case by (auto intro: adds_trans)
qed (simp add: writes)

lemma adds_value_type [writes]: "value_type_member c name t obj out = Inr out' \<Longrightarrow> ''valueType'' \<in> K \<Longrightarrow> adds K out out'"
  by (auto simp: value_type_member_def intro: writes split: option.splits if_splits)

lemma sys_common: "set SYS_MEMBERS \<subseteq> COMMON"
  by (simp add: SYS_MEMBERS_def COMMON_def)

definition SEALED :: "string set" where
  "SEALED = {''entityIdSealed'', ''entityTypeSealed''}"

lemma sealed_members: "''entityIdSealed'' \<in> SEALED" "''entityTypeSealed'' \<in> SEALED" "SEALED \<subseteq> COMMON" "''datasetId'' \<notin> SEALED"
  by (simp_all add: SEALED_def COMMON_def)

lemma adds_sealed:
  assumes "copy_sealed c opts name obj out = Inr out'"
  shows "adds SEALED out out'"
proof -
  obtain o1 o2 where s: "str_member ''entityIdSealed'' obj (attr_error name ''entityIdSealed must be a string (4.5.2.2)'') (\<lambda>s. s) out = Inr o1"
    "str_member ''entityTypeSealed'' obj (attr_error name ''entityTypeSealed must be a string (4.5.2.2)'') (expand_key c) o1 = Inr o2"
    and r: "reject_if (opt_holds (\<lambda>v. \<not> is_object v \<and> \<not> (opt_allow_null opts \<and> is_ngsi_null v)) (bm_get obj ''value''))
       (attr_error name ''ngsildproof value shall be an object containing the W3C proof structure (4.5.2.2)'') o2 = Inr out'"
    using assms unfolding copy_sealed_def and_then_Inr_iff by blast
  have "o2 = out'" using r by (simp split: if_split_asm)
  then show ?thesis
    using adds_trans [OF adds_str_member [OF s(1) sealed_members(1)] adds_str_member [OF s(2) sealed_members(2)]] by simp
qed

lemma adds_prohibited:
  assumes "check_prohibited_members c opts name obj t out = Inr out'"
  shows "adds SEALED out out'"
proof -
  define sealed where "sealed \<longleftrightarrow> t = ''Property'' \<and> name = ''ngsildproof''"
  have "(case find (bm_contains obj) OUTPUT_ONLY of
       Some m \<Rightarrow> Err (attr_error name (m @ '' is output-only and not allowed in input (4.5.2.2)''))
     | None \<Rightarrow>
       if \<not> sealed \<and> (bm_contains obj ''entityIdSealed'' \<or> bm_contains obj ''entityTypeSealed'')
       then Err (attr_error name ''entityIdSealed/entityTypeSealed are only allowed on the ngsildproof Property (4.5.2.2, 4.5.3.2)'')
       else and_then (if sealed then copy_sealed c opts name obj out else Ok out) (\<lambda>out.
         reject_if (bm_contains obj ''unitCode'' \<and> t \<in> set UNITLESS)
           (attr_error name (''unitCode is not allowed on a '' @ t)) out)) = Inr out'"
    using assms unfolding check_prohibited_members_def Let_def sealed_def and_then_Inr_iff by blast
  then have "(if sealed then copy_sealed c opts name obj out else Ok out) = Inr out'"
    by (cases "find (bm_contains obj) OUTPUT_ONLY") (auto simp: and_then_Inr_iff split: if_split_asm)
  then show ?thesis using adds_sealed by (cases sealed) (auto intro: writes)
qed

lemma adds_common:
  assumes "expand_common_members L c opts name obj t out = Inr out'"
  shows "adds COMMON out out'"
proof -
  have K: "''datasetId'' \<in> COMMON" "''observedAt'' \<in> COMMON" "''expiresAt'' \<in> COMMON" "''unitCode'' \<in> COMMON"
    "''valueType'' \<in> COMMON" "''lang'' \<in> COMMON" "''objectType'' \<in> COMMON" by (simp_all add: COMMON_def)
  have sys: "adds COMMON o1 (if opt_sys opts then fold (sys_member L obj) SYS_MEMBERS o1 else o1)" for o1
    using adds_sys [of SYS_MEMBERS COMMON] by (simp add: sys_common adds_refl)
  obtain o1 o2 o3 o4 o5 o6 where
    a: "(case bm_get obj ''datasetId'' of None \<Rightarrow> Ok out
       | Some d \<Rightarrow> (case dataset_id_member d of Err e \<Rightarrow> Err (attr_error name (detail e))
          | Ok None \<Rightarrow> Ok out | Ok (Some d) \<Rightarrow> Ok (bm_insert ''datasetId'' d out))) = Inr o1"
    and b: "datetime_member L name ''observedAt'' obj o1 = Inr o2" "datetime_member L name ''expiresAt'' obj o2 = Inr o3"
      "str_member ''unitCode'' obj (attr_error name ''unitCode must be a string'') (\<lambda>s. s)
         (if opt_sys opts then fold (sys_member L obj) SYS_MEMBERS o3 else o3) = Inr o4"
      "value_type_member c name t obj o4 = Inr o5"
      "str_member ''lang'' obj (attr_error name ''lang must be a language tag'') (\<lambda>s. s) o5 = Inr o6"
    and g: "(case bm_get obj ''objectType'' of None \<Rightarrow> Ok o6
       | Some ot \<Rightarrow> and_then (expand_terms c name ''objectType'' ot) (\<lambda>v. Ok (bm_insert ''objectType'' v o6))) = Inr out'"
    using assms unfolding expand_common_members_def Let_def and_then_Inr_iff by blast
  have d: "adds COMMON out o1" using a K(1) by (auto intro: writes split: option.splits sum.splits)
  have s: "adds COMMON o3 (if opt_sys opts then fold (sys_member L obj) SYS_MEMBERS o3 else o3)" by (rule sys)
  have e: "adds COMMON o6 out'"
    using g K(7) by (cases "bm_get obj ''objectType''") (auto simp: and_then_Inr_iff intro: writes)
  note adds_trans [OF d adds_datetime [OF b(1) K(2)]]
  note adds_trans [OF this adds_datetime [OF b(2) K(3)]]
  note adds_trans [OF adds_trans [OF this s] adds_str_member [OF b(3) K(4)]]
  note adds_trans [OF adds_trans [OF this adds_value_type [OF b(4) K(5)]] adds_str_member [OF b(5) K(6)]]
  then show ?thesis using e by (rule adds_trans)
qed

definition dataset_ok :: "json option \<Rightarrow> bool" where
  "dataset_ok d \<longleftrightarrow> (case d of None \<Rightarrow> True | Some v \<Rightarrow> \<exists>s. v = JStr s \<and> s \<noteq> NGSI_NULL \<and> entity_id_new s = Inr s)"

lemma entity_id_same: "entity_id_new i = Inr j \<Longrightarrow> j = i"
  by (simp add: entity_id_new_def Let_def split: if_split_asm)

lemma dataset_member_ok: "dataset_id_member d = Inr (Some v) \<Longrightarrow> dataset_ok (Some v)"
  by (auto simp: dataset_id_member_def dataset_ok_def as_str_Some_iff dest: entity_id_same split: option.splits if_splits sum.splits)

lemma common_dataset:
  assumes "expand_common_members L c opts name obj t out = Inr out'" "bm_get out ''datasetId'' = None"
  shows "dataset_ok (bm_get out' ''datasetId'')"
proof -
  let ?K = "COMMON - {''datasetId''}"
  have K: "''observedAt'' \<in> ?K" "''expiresAt'' \<in> ?K" "''unitCode'' \<in> ?K" "''valueType'' \<in> ?K" "''lang'' \<in> ?K"
    "''objectType'' \<in> ?K" by (simp_all add: COMMON_def)
  have sys: "adds ?K o1 (if opt_sys opts then fold (sys_member L obj) SYS_MEMBERS o1 else o1)" for o1
    using adds_sys [of SYS_MEMBERS ?K] by (simp add: SYS_MEMBERS_def COMMON_def adds_refl)
  obtain o1 o2 o3 o4 o5 o6 where
    a: "(case bm_get obj ''datasetId'' of None \<Rightarrow> Ok out
       | Some d \<Rightarrow> (case dataset_id_member d of Err e \<Rightarrow> Err (attr_error name (detail e))
          | Ok None \<Rightarrow> Ok out | Ok (Some d) \<Rightarrow> Ok (bm_insert ''datasetId'' d out))) = Inr o1"
    and b: "datetime_member L name ''observedAt'' obj o1 = Inr o2" "datetime_member L name ''expiresAt'' obj o2 = Inr o3"
      "str_member ''unitCode'' obj (attr_error name ''unitCode must be a string'') (\<lambda>s. s)
         (if opt_sys opts then fold (sys_member L obj) SYS_MEMBERS o3 else o3) = Inr o4"
      "value_type_member c name t obj o4 = Inr o5"
      "str_member ''lang'' obj (attr_error name ''lang must be a language tag'') (\<lambda>s. s) o5 = Inr o6"
    and g: "(case bm_get obj ''objectType'' of None \<Rightarrow> Ok o6
       | Some ot \<Rightarrow> and_then (expand_terms c name ''objectType'' ot) (\<lambda>v. Ok (bm_insert ''objectType'' v o6))) = Inr out'"
    using assms(1) unfolding expand_common_members_def Let_def and_then_Inr_iff by blast
  have d: "dataset_ok (bm_get o1 ''datasetId'')"
    using a assms(2) dataset_member_ok by (auto simp: dataset_ok_def split: option.splits sum.splits)
  have e: "adds ?K o6 out'"
    using g K(6) by (cases "bm_get obj ''objectType''") (auto simp: and_then_Inr_iff intro: writes)
  note adds_trans [OF adds_datetime [OF b(1) K(1)] adds_datetime [OF b(2) K(2)]]
  note adds_trans [OF adds_trans [OF this sys] adds_str_member [OF b(3) K(3)]]
  note adds_trans [OF adds_trans [OF this adds_value_type [OF b(4) K(4)]] adds_str_member [OF b(5) K(5)]]
  from adds_get [OF adds_trans [OF this e], of "''datasetId''"] d show ?thesis by simp
qed

subsection \<open>Well-formed instances\<close>

definition value_key :: "string \<Rightarrow> string" where
  "value_key t = (case find (\<lambda>mo. t \<in> set (snd mo)) VALUE_OWNERS of Some mo \<Rightarrow> fst mo | None \<Rightarrow> [])"

definition inst_ok :: "expand_opts \<Rightarrow> jobj \<Rightarrow> bool" where
  "inst_ok opts m \<longleftrightarrow> bm_ok m \<and> dataset_ok (bm_get m ''datasetId'')
     \<and> (\<exists>t\<in>set ATTR_TYPES. bm_get m ''type'' = Some (JStr t) \<and> bm_contains m (value_key t))
     \<and> (opt_allow_null opts \<or> \<not> is_deletion_instance (JObj m))"

text \<open>A non-empty list of instances whose other members are, \<open>n\<close> levels down, lists of instances again.\<close>

primrec instances :: "expand_opts \<Rightarrow> nat \<Rightarrow> json list \<Rightarrow> bool" where
  "instances opts 0 xs = False"
| "instances opts (Suc n) xs \<longleftrightarrow> xs \<noteq> [] \<and> (\<forall>x\<in>set xs. \<exists>m. x = JObj m \<and> inst_ok opts m \<and>
     (\<forall>(k, v)\<in>set m. k \<in> set RESERVED_MEMBERS \<or> is_absolute_iri k \<and> (\<exists>ys. v = JArr ys \<and> instances opts n ys)))"

lemma need_Inr: "need obj k e f = Inr (k', v) \<longleftrightarrow> k' = k \<and> (\<exists>u. bm_get obj k = Some u \<and> f u = Inr v)"
  by (auto simp: need_def and_then_Inr_iff split: option.splits)

lemma value_keys:
  "value_key ''Property'' = ''value''" "value_key ''GeoProperty'' = ''value''" "value_key ''Relationship'' = ''object''"
  "value_key ''LanguageProperty'' = ''languageMap''" "value_key ''JsonProperty'' = ''json''" "value_key ''VocabProperty'' = ''vocab''"
  "value_key ''ListProperty'' = ''valueList''" "value_key ''ListRelationship'' = ''objectList''"
  by (simp_all add: value_key_def VALUE_OWNERS_def)

lemma required_key: "required_member L c opts name obj t = Inr (k, v) \<Longrightarrow> k = value_key t"
  unfolding required_member_def by (simp only: value_keys need_Inr split: if_split_asm) simp_all

lemma required_json: "required_member L c opts name obj ''JsonProperty'' = Inr (k, v) \<Longrightarrow> \<not> opt_allow_null opts \<Longrightarrow> \<not> is_ngsi_null v"
  by (auto simp: required_member_def need_Inr json_value_def is_ngsi_null_def split: if_splits)

lemma required_lang: "required_member L c opts name obj ''LanguageProperty'' = Inr (k, v) \<Longrightarrow> \<not> opt_allow_null opts \<Longrightarrow> \<not> is_ngsi_null_langmap v"
  by (auto simp: required_member_def need_Inr lang_value_def split: if_splits)

lemma key_reserved: "t \<in> set ATTR_TYPES \<Longrightarrow> value_key t \<in> set RESERVED_MEMBERS \<and> value_key t \<noteq> ''type'' \<and> value_key t \<notin> COMMON"
  by (auto simp: ATTR_TYPES_def value_keys RESERVED_MEMBERS_def COMMON_def)

lemma common_reserved: "COMMON \<subseteq> set RESERVED_MEMBERS" "''type'' \<in> set RESERVED_MEMBERS" "''type'' \<notin> COMMON"
  by (simp_all add: COMMON_def RESERVED_MEMBERS_def)

lemma absolute_colon: "is_absolute_iri k \<Longrightarrow> CHR '':'' \<in> set k"
proof -
  assume "is_absolute_iri k"
  then have "split_once CHR '':'' k \<noteq> None" by (cases "split_once CHR '':'' k") (simp_all add: is_absolute_iri_def)
  then show ?thesis by (simp only: split_once_None_iff not_not)
qed

lemma reserved_plain: "k \<in> set RESERVED_MEMBERS \<Longrightarrow> CHR '':'' \<notin> set k"
  unfolding RESERVED_MEMBERS_def by (elim set_ConsD [elim_format] disjE) simp_all

lemma reserved_relative: "is_absolute_iri k \<Longrightarrow> k \<notin> set RESERVED_MEMBERS"
  using absolute_colon reserved_plain by blast


text \<open>A typed instance, before and after its sub-attributes.\<close>

lemma sub_step_adds:
  assumes "sub_step c sub name e out = Inr out'" "\<And>k v xs. sub k v = Inr xs \<Longrightarrow> Q xs"
  shows "out' = out \<or> (\<exists>i xs. is_absolute_iri i \<and> Q xs \<and> out' = bm_insert i (JArr xs) out)"
proof (cases e)
  case (Pair k v)
  show ?thesis
  proof (cases "k = ''@context'' \<or> k \<in> set RESERVED_MEMBERS \<or> k = []")
    case True
    then show ?thesis using assms(1) Pair by (auto simp: sub_step_def split: if_splits)
  next
    case False
    then obtain i xs where i: "expand_attr_name c k = Inr i" "sub k v = Inr xs" "\<not> bm_contains out i" "out' = bm_insert i (JArr xs) out"
      using assms(1) Pair by (auto simp: sub_step_def and_then_Inr_iff split: if_splits)
    moreover have "is_absolute_iri i" using i(1) by (auto simp: expand_attr_name_def Let_def split: if_splits)
    ultimately show ?thesis using assms(2) by blast
  qed
qed

definition sub_attrs :: "(json list \<Rightarrow> bool) \<Rightarrow> jobj \<Rightarrow> jobj \<Rightarrow> bool" where
  "sub_attrs Q out out' \<longleftrightarrow> bm_ok out' \<and>
     (\<forall>k. bm_get out' k = bm_get out k \<or> (is_absolute_iri k \<and> (\<exists>xs. bm_get out' k = Some (JArr xs) \<and> Q xs)))"

lemma sub_attrs_fold:
  assumes "try_fold (sub_step c sub name) obj out = Inr out'" "bm_ok out" "\<And>k v xs. sub k v = Inr xs \<Longrightarrow> Q xs"
  shows "sub_attrs Q out out'"
proof (rule try_fold_Inr_inv [OF assms(1)])
  show "sub_attrs Q out out" using assms(2) by (simp add: sub_attrs_def)
  show "sub_attrs Q out s'" if "sub_attrs Q out s" "sub_step c sub name x s = Inr s'" for x s s'
    using sub_step_adds [OF that(2), of Q] assms(3) that(1) by (auto simp: sub_attrs_def bm_insert_ok split: if_splits)
qed

lemma typed_members:
  assumes "check_prohibited_members c opts name obj t [(''type'', JStr t)] = Inr o1" "t \<in> set ATTR_TYPES"
    "expand_common_members L c opts name obj t (bm_insert (value_key t) v o1) = Inr o2"
  shows "bm_ok o2" "bm_get o2 ''type'' = Some (JStr t)" "bm_get o2 (value_key t) = Some v"
    "k \<notin> set RESERVED_MEMBERS \<Longrightarrow> bm_get o2 k = None"
    "k \<notin> insert (value_key t) (insert ''type'' COMMON) \<Longrightarrow> bm_get o2 k = None"
proof -
  note p = adds_mono [OF adds_prohibited [OF assms(1)] sealed_members(3)] and q = adds_common [OF assms(3)] and k = key_reserved [OF assms(2)]
  have ok: "bm_ok [(''type'', JStr t)]" by (simp add: bm_ok_Cons)
  then show "bm_ok o2" using p q by (simp add: adds_def bm_insert_ok)
  show "bm_get o2 ''type'' = Some (JStr t)" "bm_get o2 (value_key t) = Some v"
    using adds_get [OF q] adds_get [OF p, of "''type''"] common_reserved(3) k by auto
  have n: "bm_get o2 k = None" if "k \<notin> insert (value_key t) (insert ''type'' COMMON)" for k
    using adds_get [OF q, of k] adds_get [OF p, of k] that by simp
  then show "k \<notin> insert (value_key t) (insert ''type'' COMMON) \<Longrightarrow> bm_get o2 k = None" .
  show "k \<notin> set RESERVED_MEMBERS \<Longrightarrow> bm_get o2 k = None" using n [of k] k common_reserved by blast
qed


lemma check_nulls_Inr:
  "check_nulls opts name out = Inr out' \<Longrightarrow> out' = out \<and> (opt_allow_null opts \<or>
     (\<forall>k\<in>set [''value'', ''object'', ''vocab'', ''valueList'', ''objectList'']. \<not> opt_holds nullish (bm_get out k)))"
  by (auto simp: check_nulls_def split: if_splits)

lemma null_nullish: "is_ngsi_null v \<Longrightarrow> nullish v"
  by (simp add: is_ngsi_null_def)

lemma null_list_nullish: "is_ngsi_null_list v \<Longrightarrow> nullish v"
  by (cases v) (auto simp: is_ngsi_null_list_def is_ngsi_null_def length_Suc_conv)

lemma null_at_holds: "null_at k m \<longleftrightarrow> opt_holds is_ngsi_null (bm_get m k)"
  by (simp add: null_at_def opt_holds_def)

lemma opt_holds_mono: "opt_holds P x \<Longrightarrow> (\<And>v. P v \<Longrightarrow> Q v) \<Longrightarrow> opt_holds Q x"
  by (cases x) (auto simp: opt_holds_def)

lemma not_deletion:
  assumes "\<forall>k\<in>set [''value'', ''object'', ''vocab'', ''valueList'', ''objectList'']. \<not> opt_holds nullish (bm_get m k)"
    "\<not> opt_holds is_ngsi_null (bm_get m ''json'')" "\<not> opt_holds is_ngsi_null_langmap (bm_get m ''languageMap'')"
  shows "\<not> is_deletion_instance (JObj m)"
proof -
  have n: "\<not> opt_holds is_ngsi_null (bm_get m k)" "\<not> opt_holds is_ngsi_null_list (bm_get m k)"
    if "\<not> opt_holds nullish (bm_get m k)" for k
    using that opt_holds_mono null_nullish null_list_nullish by blast+
  have "\<not> is_ngsi_null (JObj m)" by (simp add: is_ngsi_null_def)
  moreover have "\<not> opt_holds nullish (bm_get m ''value'')" "\<not> opt_holds nullish (bm_get m ''object'')"
    "\<not> opt_holds nullish (bm_get m ''vocab'')" "\<not> opt_holds nullish (bm_get m ''valueList'')"
    "\<not> opt_holds nullish (bm_get m ''objectList'')"
    using assms(1) by simp_all
  ultimately show ?thesis using n assms(2,3) by (simp add: is_deletion_instance_def null_at_holds)
qed

lemma typed_ok:
  assumes "expand_typed L c opts sub name obj t = Inr inst" "t \<in> set ATTR_TYPES" "\<And>k v xs. sub k v = Inr xs \<Longrightarrow> Q xs"
  shows "\<exists>m. inst = JObj m \<and> inst_ok opts m \<and>
    (\<forall>(k, v)\<in>set m. k \<in> set RESERVED_MEMBERS \<or> is_absolute_iri k \<and> (\<exists>ys. v = JArr ys \<and> Q ys))"
proof -
  obtain o1 k v o2 o3 o4 where o: "check_prohibited_members c opts name obj t [(''type'', JStr t)] = Inr o1"
      "required_member L c opts name obj t = Inr (k, v)"
      "expand_common_members L c opts name obj t (bm_insert k v o1) = Inr o2"
      "try_fold (sub_step c sub name) obj o2 = Inr o3" "check_nulls opts name o3 = Inr o4" "JObj o4 = inst"
    using assms(1) unfolding expand_typed_def and_then_Inr_iff split_paired_Ex prod.case sum.inject by blast
  have k: "k = value_key t" by (rule required_key [OF o(2)])
  note o2 = typed_members [OF o(1) assms(2) o(3) [unfolded k]]
  have sub: "sub_attrs Q o2 o3" by (rule sub_attrs_fold [OF o(4) o2(1)]) (rule assms(3))
  have plain: "bm_get o3 j = bm_get o2 j" if "j \<in> set RESERVED_MEMBERS" for j
    using sub that reserved_relative by (auto simp: sub_attrs_def)
  have ok3: "bm_ok o3" using sub by (simp add: sub_attrs_def)
  have res: "''json'' \<in> set RESERVED_MEMBERS" "''languageMap'' \<in> set RESERVED_MEMBERS" by (simp_all add: RESERVED_MEMBERS_def)
  have none: "bm_get o2 j = None" if "j \<noteq> value_key t" "j = ''json'' \<or> j = ''languageMap''" for j
    using that by (intro o2(5)) (auto simp: COMMON_def)
  have "opt_allow_null opts \<or> \<not> is_deletion_instance (JObj o3)"
  proof (rule disjCI)
    assume "\<not> \<not> is_deletion_instance (JObj o3)"
    moreover have "\<not> is_deletion_instance (JObj o3)" if null: "\<not> opt_allow_null opts"
    proof (rule not_deletion)
      show "\<forall>k\<in>set [''value'', ''object'', ''vocab'', ''valueList'', ''objectList'']. \<not> opt_holds nullish (bm_get o3 k)"
        using check_nulls_Inr [OF o(5)] null by blast
      show "\<not> opt_holds is_ngsi_null (bm_get o3 ''json'')"
      proof (cases "value_key t = ''json''")
        case True
        then have "t = ''JsonProperty''" using assms(2) by (auto simp: ATTR_TYPES_def value_keys)
        then have "\<not> is_ngsi_null v" using required_json o(2) null by metis
        then show ?thesis using plain [OF res(1)] o2(3) True by (simp add: opt_holds_def)
      next
        case False
        then show ?thesis using plain [OF res(1)] none [of "''json''"] by (simp add: opt_holds_def)
      qed
      show "\<not> opt_holds is_ngsi_null_langmap (bm_get o3 ''languageMap'')"
      proof (cases "value_key t = ''languageMap''")
        case True
        then have "t = ''LanguageProperty''" using assms(2) by (auto simp: ATTR_TYPES_def value_keys)
        then have "\<not> is_ngsi_null_langmap v" using required_lang o(2) null by metis
        then show ?thesis using plain [OF res(2)] o2(3) True by (simp add: opt_holds_def)
      next
        case False
        then show ?thesis using plain [OF res(2)] none [of "''languageMap''"] by (simp add: opt_holds_def)
      qed
    qed
    ultimately show "opt_allow_null opts" by blast
  qed
  moreover have "dataset_ok (bm_get o3 ''datasetId'')"
  proof -
    have "bm_get o1 ''datasetId'' = None" using adds_get [OF adds_prohibited [OF o(1)] sealed_members(4)] by (simp add: bm_get_def)
    moreover have "''datasetId'' \<noteq> value_key t" using assms(2) by (auto simp: ATTR_TYPES_def value_keys)
    ultimately have "dataset_ok (bm_get o2 ''datasetId'')" using common_dataset [OF o(3)] k by simp
    moreover have "''datasetId'' \<in> set RESERVED_MEMBERS" by (simp add: RESERVED_MEMBERS_def)
    ultimately show ?thesis using plain by simp
  qed
  moreover have "bm_get o3 ''type'' = Some (JStr t)" "bm_contains o3 (value_key t)"
    using plain o2(2,3) common_reserved(2) key_reserved [OF assms(2)] by (simp_all add: bm_contains_def)
  moreover have "k \<in> set RESERVED_MEMBERS \<or> is_absolute_iri k \<and> (\<exists>ys. v = JArr ys \<and> Q ys)" if "(k, v) \<in> set o3" for k v
    using that sub o2(4) [of k] bm_get_iff [OF ok3] unfolding sub_attrs_def by (metis option.distinct(1) option.inject)
  ultimately show ?thesis
    using o(6) [symmetric] check_nulls_Inr [OF o(5)] ok3 assms(2) unfolding inst_ok_def by blast
qed


lemma value_nulls_ok: "check_value_nulls opts name v = Inr u \<Longrightarrow> opt_allow_null opts \<or> \<not> nullish v"
  by (auto simp: check_value_nulls_def split: if_splits)

lemma inst_obj_Cons: "inst_obj t v = JObj [(''type'', JStr t), (''value'', v)]"
  by (simp add: inst_obj_def mkobj_def bm_of_list_def)

lemma finished_ok:
  assumes "t = ''Property'' \<or> t = ''GeoProperty''" "opt_allow_null opts \<or> \<not> nullish v"
  shows "\<exists>m. inst_obj t v = JObj m \<and> inst_ok opts m \<and>
    (\<forall>(k, v)\<in>set m. k \<in> set RESERVED_MEMBERS \<or> is_absolute_iri k \<and> (\<exists>ys. v = JArr ys \<and> Q ys))"
proof -
  let ?m = "[(''type'', JStr t), (''value'', v)]"
  have ok: "bm_ok ?m" by (simp add: bm_ok_Cons)
  have get: "bm_get ?m ''type'' = Some (JStr t)" "bm_get ?m ''value'' = Some v"
    "bm_get ?m ''object'' = None" "bm_get ?m ''vocab'' = None" "bm_get ?m ''valueList'' = None" "bm_get ?m ''objectList'' = None"
    "bm_get ?m ''json'' = None" "bm_get ?m ''languageMap'' = None"
    by (simp_all add: bm_get_def)
  have "opt_allow_null opts \<or> \<not> is_deletion_instance (JObj ?m)"
    using assms(2) not_deletion [of ?m] get by (auto simp: opt_holds_def)
  moreover have "t \<in> set ATTR_TYPES" "bm_contains ?m (value_key t)"
    using assms(1) get by (auto simp: ATTR_TYPES_def value_keys bm_contains_def)
  moreover have "''type'' \<in> set RESERVED_MEMBERS" "''value'' \<in> set RESERVED_MEMBERS" by (simp_all add: RESERVED_MEMBERS_def)
  moreover have "dataset_ok (bm_get ?m ''datasetId'')" by (simp add: dataset_ok_def bm_get_def)
  ultimately show ?thesis using ok get(1) by (auto simp: inst_obj_Cons inst_ok_def)
qed

lemma done_shape:
  "instance_shape opts name obj = Inr (Done inst) \<Longrightarrow>
     \<exists>t v. inst = inst_obj t v \<and> (t = ''Property'' \<or> t = ''GeoProperty'') \<and> (opt_allow_null opts \<or> \<not> nullish v)"
  by (auto simp: instance_shape_def infer_type_def and_then_Inr_iff split: option.splits if_splits dest!: value_nulls_ok)

lemma instance_ok:
  assumes "expand_instance L c opts sub name v = Inr inst" "\<And>k v xs. sub k v = Inr xs \<Longrightarrow> Q xs"
  shows "\<exists>m. inst = JObj m \<and> inst_ok opts m \<and>
    (\<forall>(k, v)\<in>set m. k \<in> set RESERVED_MEMBERS \<or> is_absolute_iri k \<and> (\<exists>ys. v = JArr ys \<and> Q ys))"
proof (cases "is_ngsi_null v")
  case True
  then have "opt_allow_null opts" "inst = inst_obj ''Property'' (JStr NGSI_NULL)"
    using assms(1) by (auto simp: expand_instance_def split: if_splits)
  then show ?thesis using finished_ok [of "''Property''" opts] by blast
next
  case False
  show ?thesis
  proof (cases v)
    case (JObj obj)
    then obtain s where s: "instance_shape opts name obj = Inr s"
      "(case s of Done inst \<Rightarrow> Ok inst | Typed t \<Rightarrow> expand_typed L c opts sub name obj t) = Inr inst"
      using assms(1) False by (auto simp: expand_instance_def and_then_Inr_iff)
    show ?thesis
    proof (cases s)
      case (Done i)
      then obtain t w where tw: "inst = inst_obj t w" "t = ''Property'' \<or> t = ''GeoProperty''" "opt_allow_null opts \<or> \<not> nullish w"
        using done_shape [of opts name obj i] s by auto
      show ?thesis unfolding tw(1) by (rule finished_ok [OF tw(2,3)])
    next
      case (Typed t)
      then have "expand_typed L c opts sub name obj t = Inr inst" "t \<in> set ATTR_TYPES"
        using s shape_types [of opts name obj t] by simp_all
      then show ?thesis using typed_ok [of L c opts sub name obj t inst Q] assms(2) by blast
    qed
  qed (use assms(1) False finished_ok [of "''Property''" opts v] value_nulls_ok [of opts name v] in
    \<open>auto simp: expand_instance_def and_then_Inr_iff\<close>)
qed

lemma attribute_ok: "expand_attribute n L c opts name v = Inr xs \<Longrightarrow> instances opts n xs"
proof (induction n arbitrary: name v xs)
  case (Suc n)
  let ?P = "\<lambda>i. \<exists>m. i = JObj m \<and> inst_ok opts m \<and>
    (\<forall>(k, v)\<in>set m. k \<in> set RESERVED_MEMBERS \<or> is_absolute_iri k \<and> (\<exists>ys. v = JArr ys \<and> instances opts n ys))"
  have P: "?P i" if "expand_instance L c opts (expand_attribute n L c opts) name w = Inr i" for w i
    by (rule instance_ok [OF that]) (rule Suc.IH)
  have one: "instances opts (Suc n) xs" if "and_then (expand_instance L c opts (expand_attribute n L c opts) name v) (\<lambda>i. Ok [i]) = Inr xs"
    using that P by (auto simp: and_then_Inr_iff)
  show ?case
  proof (cases "\<exists>items. v = JArr items \<and> list_all looks_like_instance items \<and> items \<noteq> []")
    case True
    then obtain items where items: "v = JArr items" "items \<noteq> []"
      "try_map (expand_instance L c opts (expand_attribute n L c opts) name) items = Inr xs"
      using Suc.prems by (auto split: if_splits)
    have "\<forall>i\<in>set xs. ?P i" by (rule try_map_all [OF items(3)]) (rule P)
    moreover have "xs \<noteq> []" using try_map_length [OF items(3)] items(2) by auto
    ultimately show ?thesis by simp
  next
    case False
    then show ?thesis using Suc.prems by (intro one) (auto split: json.splits if_splits)
  qed
qed simp


subsection \<open>One instance for each dataset\<close>

definition dataset_of :: "json \<Rightarrow> string option" where
  "dataset_of inst = Option.bind (jget inst ''datasetId'') as_str"

definition distinct_datasets :: "json list \<Rightarrow> bool" where
  "distinct_datasets xs \<longleftrightarrow> (\<forall>i<length xs. \<forall>j<length xs. i \<noteq> j \<longrightarrow> dataset_of (xs ! i) \<noteq> dataset_of (xs ! j))"

lemma distinct_datasets_iff: "distinct_datasets xs \<longleftrightarrow> distinct (map dataset_of xs)"
  by (auto simp: distinct_datasets_def distinct_conv_nth)

lemma seen_step_dataset:
  "seen_step name x (seen, n) = (case dataset_of x of
     Some d \<Rightarrow> if d \<in> set seen then Err (attr_error name (''duplicate datasetId '' @ d)) else Ok (d # seen, n)
   | None \<Rightarrow> Ok (seen, Suc n))"
  by (simp add: seen_step_def dataset_of_def split: option.split)

lemma seen_fold:
  "try_fold (seen_step name) xs (seen, n) = Inr (seen', n') \<Longrightarrow> distinct seen \<Longrightarrow>
     n' = n + length (filter (\<lambda>x. dataset_of x = None) xs) \<and>
     distinct (List.map_filter dataset_of xs) \<and> set (List.map_filter dataset_of xs) \<inter> set seen = {}"
proof (induction xs arbitrary: seen n)
  case (Cons x xs)
  show ?case
  proof (cases "dataset_of x")
    case None
    then have "try_fold (seen_step name) xs (seen, Suc n) = Inr (seen', n')"
      using Cons.prems(1) by (simp add: seen_step_dataset)
    with Cons.IH [OF this] Cons.prems(2) None show ?thesis by (simp add: List.map_filter_simps)
  next
    case (Some d)
    then have "d \<notin> set seen" "try_fold (seen_step name) xs (d # seen, n) = Inr (seen', n')"
      using Cons.prems(1) by (simp_all add: seen_step_dataset split: if_splits)
    with Cons.IH [OF this(2)] Cons.prems(2) Some show ?thesis by (auto simp: List.map_filter_simps)
  qed
qed (simp add: List.map_filter_simps)

lemma distinct_options:
  "distinct (List.map_filter f xs) \<Longrightarrow> length (filter (\<lambda>x. f x = None) xs) \<le> 1 \<Longrightarrow> distinct (map f xs)"
proof (induction xs)
  case (Cons x xs)
  show ?case
  proof (cases "f x")
    case None
    then have "filter (\<lambda>x. f x = None) xs = []" using Cons.prems(2) by simp
    then have "None \<notin> f ` set xs" by (auto simp: filter_empty_conv)
    with Cons None show ?thesis by (simp add: List.map_filter_simps)
  next
    case (Some d)
    then have "d \<notin> set (List.map_filter f xs)" using Cons.prems(1) by (simp add: List.map_filter_simps)
    then have "Some d \<notin> f ` set xs" by (auto simp: set_map_filter)
    with Cons Some show ?thesis by (simp add: List.map_filter_simps)
  qed
qed simp

lemma datasets_ok: "validate_dataset_ids name xs = Inr u \<Longrightarrow> distinct_datasets xs"
  unfolding distinct_datasets_iff
  by (rule distinct_options)
     (auto simp: validate_dataset_ids_def and_then_Inr_iff split: if_splits dest!: seen_fold)

subsection \<open>Entities\<close>

definition attrs_ok :: "expand_opts \<Rightarrow> json list \<Rightarrow> bool" where
  "attrs_ok opts xs \<longleftrightarrow> instances opts MAX_LEVELS xs \<and> (opt_temporal opts \<or> distinct_datasets xs)"

definition type_ok :: "json \<Rightarrow> bool" where
  "type_ok v \<longleftrightarrow> (\<exists>ts. v = JArr ts \<and> ts \<noteq> [] \<and> (\<forall>t\<in>set ts. \<exists>s. t = JStr s \<and> is_absolute_iri s))"

definition id_ok :: "json \<Rightarrow> bool" where
  "id_ok v \<longleftrightarrow> (\<exists>i. v = JStr i \<and> entity_id_new i = Inr i)"

definition entity_ok :: "expand_opts \<Rightarrow> jobj \<Rightarrow> bool" where
  "entity_ok opts m \<longleftrightarrow> bm_ok m
     \<and> (case bm_get m ''id'' of None \<Rightarrow> opt_fragment opts | Some v \<Rightarrow> id_ok v)
     \<and> (case bm_get m ''type'' of None \<Rightarrow> opt_fragment opts | Some v \<Rightarrow> type_ok v)
     \<and> (\<forall>(k, v)\<in>set m. is_meta k \<or> is_absolute_iri k \<and> (\<exists>xs. v = JArr xs \<and> attrs_ok opts xs))"

lemma types_ok: "expand_types L c v = Inr ts \<Longrightarrow> type_ok (JArr ts)"
proof -
  have one: "expand_type L c s = Inr i \<Longrightarrow> \<exists>s. i = JStr s \<and> is_absolute_iri s" for s i
    by (auto simp: expand_type_def Let_def split: if_splits)
  assume t: "expand_types L c v = Inr ts"
  show ?thesis
  proof (cases v)
    case (JArr a)
    then obtain f where f: "try_map f a = Inr ts" "a \<noteq> []" and g: "f = (\<lambda>t. case t of
          JStr t \<Rightarrow> if t \<noteq> [] then expand_type L c t else Err (BadRequestData ''entity type entries must be non-empty strings'')
        | _ \<Rightarrow> Err (BadRequestData ''entity type entries must be non-empty strings''))"
      using t by (auto simp: expand_types_def split: if_splits)
    have "\<forall>i\<in>set ts. \<exists>s. i = JStr s \<and> is_absolute_iri s"
      by (rule try_map_all [OF f(1)]) (auto simp: g split: json.splits if_splits dest: one)
    then show ?thesis using f try_map_length [OF f(1)] by (auto simp: type_ok_def)
  qed (use t one in \<open>auto simp: expand_types_def and_then_Inr_iff type_ok_def split: if_splits\<close>)
qed

lemma entity_members_plain: "k \<in> set ENTITY_MEMBERS \<Longrightarrow> CHR '':'' \<notin> set k"
  unfolding ENTITY_MEMBERS_def by (elim set_ConsD [elim_format] disjE) simp_all


lemma members_relative: "is_absolute_iri k \<Longrightarrow> k \<notin> set ENTITY_MEMBERS"
  using absolute_colon entity_members_plain by blast

lemma attr_step_adds:
  assumes "entity_attr_step L c opts e out = Inr out'"
  shows "out' = out \<or> (\<exists>i xs. is_absolute_iri i \<and> attrs_ok opts xs \<and> out' = bm_insert i (JArr xs) out)"
proof (cases e)
  case (Pair k v)
  show ?thesis
  proof (cases "k \<in> set ENTITY_MEMBERS")
    case True
    then show ?thesis using assms Pair by (simp add: entity_attr_step_def)
  next
    case False
    then obtain i xs where i: "expand_attr_name c k = Inr i" "expand_attribute MAX_LEVELS L c opts k v = Inr xs"
      "(if opt_temporal opts then Ok () else validate_dataset_ids k xs) = Inr ()" "out' = bm_insert i (JArr xs) out"
      using assms Pair by (auto simp: entity_attr_step_def and_then_Inr_iff split: if_splits)
    have "is_absolute_iri i" using i(1) by (auto simp: expand_attr_name_def Let_def split: if_splits)
    moreover have "attrs_ok opts xs"
      using attribute_ok [OF i(2)] datasets_ok [of k xs "()"] i(3) by (auto simp: attrs_ok_def split: if_splits)
    ultimately show ?thesis using i(4) by blast
  qed
qed

lemma attr_fold:
  assumes "try_fold (entity_attr_step L c opts) doc out = Inr m" "bm_ok out"
  shows "sub_attrs (attrs_ok opts) out m"
proof (rule try_fold_Inr_inv [OF assms(1)])
  show "sub_attrs (attrs_ok opts) out out" using assms(2) by (simp add: sub_attrs_def)
  show "sub_attrs (attrs_ok opts) out s'" if "sub_attrs (attrs_ok opts) out s" "entity_attr_step L c opts x s = Inr s'" for x s s'
    using attr_step_adds [OF that(2)] that(1) by (auto simp: sub_attrs_def bm_insert_ok split: if_splits)
qed

lemma id_step:
  "entity_id_step opts doc [] = Inr o1 \<Longrightarrow> bm_ok o1 \<and> (\<forall>k. k \<noteq> ''id'' \<longrightarrow> bm_get o1 k = None) \<and>
     (case bm_get o1 ''id'' of None \<Rightarrow> opt_fragment opts | Some v \<Rightarrow> id_ok v)"
proof -
  assume a: "entity_id_step opts doc [] = Inr o1"
  show ?thesis
  proof (cases "get_or doc ''id'' ''@id''")
    case None
    with a show ?thesis by (simp add: entity_id_step_def split: if_split_asm)
  next
    case (Some v)
    then obtain i j where "v = JStr i" "entity_id_new i = Inr j" "o1 = bm_insert ''id'' (JStr i) []"
      using a by (cases v) (auto simp: entity_id_step_def and_then_Inr_iff)
    then show ?thesis by (auto simp: id_ok_def bm_ok_Cons dest: entity_id_same)
  qed
qed

lemma type_step:
  assumes "entity_type_step L c opts doc o1 = Inr o2" "bm_get o1 ''type'' = None"
  shows "adds {''type''} o1 o2" "case bm_get o2 ''type'' of None \<Rightarrow> opt_fragment opts | Some v \<Rightarrow> type_ok v"
proof -
  have "adds {''type''} o1 o2 \<and> (case bm_get o2 ''type'' of None \<Rightarrow> opt_fragment opts | Some v \<Rightarrow> type_ok v)"
  proof (cases "get_or doc ''type'' ''@type''")
    case None
    with assms show ?thesis by (simp add: entity_type_step_def adds_refl split: if_split_asm)
  next
    case (Some v)
    then obtain ts where "expand_types L c v = Inr ts" "o2 = bm_insert ''type'' (JArr ts) o1"
      using assms(1) by (auto simp: entity_type_step_def and_then_Inr_iff)
    then show ?thesis using types_ok [of L c v ts] by (simp add: adds_insert)
  qed
  then show "adds {''type''} o1 o2" "case bm_get o2 ''type'' of None \<Rightarrow> opt_fragment opts | Some v \<Rightarrow> type_ok v" by simp_all
qed

lemma scope_step: "entity_scope_step L opts doc o2 = Inr o3 \<Longrightarrow> adds {''scope''} o2 o3"
  by (auto simp: entity_scope_step_def and_then_Inr_iff adds_refl adds_insert split: option.splits if_splits)

lemma expiry_step: "entity_expiry_step L opts doc o3 = Inr o4 \<Longrightarrow> adds {''expiresAt''} o3 o4"
  by (auto simp: entity_expiry_step_def Let_def adds_refl adds_insert split: option.splits if_splits)

lemma entity_result:
  assumes "expand_entity L c opts doc = Inr e"
  shows "\<exists>m out. e = JObj m \<and> entity_ok opts m \<and> entity_id_step opts doc [] = Inr out \<and> bm_get m ''id'' = bm_get out ''id''"
proof -
  define sys where "sys out = (if opt_sys opts then fold (sys_member L doc) SYS_MEMBERS out else out)" for out
  obtain o1 o2 o3 o4 m where o: "entity_id_step opts doc [] = Inr o1" "entity_type_step L c opts doc o1 = Inr o2"
      "entity_scope_step L opts doc o2 = Inr o3" "entity_expiry_step L opts doc o3 = Inr o4"
      "try_fold (entity_attr_step L c opts) doc (sys o4) = Inr m" "JObj m = e"
    using assms unfolding expand_entity_def Let_def and_then_Inr_iff sum.inject sys_def by blast
  note i = id_step [OF o(1)]
  have "bm_get o1 ''type'' = None" using i by simp
  note t = type_step [OF o(2) this]
  let ?K = "{''type'', ''scope'', ''expiresAt'', ''createdAt'', ''modifiedAt'', ''deletedAt''}"
  have s: "adds (set SYS_MEMBERS) o4 (sys o4)" by (simp add: sys_def adds_sys adds_refl)
  have sub4: "{''type''} \<subseteq> ?K" "{''scope''} \<subseteq> ?K" "{''expiresAt''} \<subseteq> ?K" "set SYS_MEMBERS \<subseteq> ?K"
    by (simp_all add: SYS_MEMBERS_def)
  note adds_trans [OF adds_mono [OF t(1) sub4(1)] adds_mono [OF scope_step [OF o(3)] sub4(2)]]
  note adds_trans [OF this adds_mono [OF expiry_step [OF o(4)] sub4(3)]]
  note K = adds_trans [OF this adds_mono [OF s sub4(4)]]
  have sub: "sub_attrs (attrs_ok opts) (sys o4) m" using attr_fold [OF o(5)] K i by (simp add: adds_def)
  have plain: "bm_get m k = bm_get (sys o4) k" if "k \<in> set ENTITY_MEMBERS" for k
    using sub that members_relative by (auto simp: sub_attrs_def)
  have mem: "''id'' \<in> set ENTITY_MEMBERS" "''type'' \<in> set ENTITY_MEMBERS" by (simp_all add: ENTITY_MEMBERS_def)
  have gid: "bm_get m ''id'' = bm_get o1 ''id''" using adds_get [OF K] plain [OF mem(1)] by simp
  have gty: "bm_get m ''type'' = bm_get o2 ''type''"
    using adds_get [OF scope_step [OF o(3)]] adds_get [OF expiry_step [OF o(4)]] adds_get [OF s] plain [OF mem(2)]
    by (simp add: SYS_MEMBERS_def)
  have known: "is_meta k" if "bm_get (sys o4) k \<noteq> None" for k
  proof (rule ccontr)
    assume "\<not> is_meta k"
    then have "k \<notin> ?K" "k \<noteq> ''id''" by (auto simp: is_meta_def ENTITY_META_KEYS_def)
    then show False using that adds_get [OF K] i by simp
  qed
  have ok: "bm_ok m" using sub by (simp add: sub_attrs_def)
  have "is_meta k \<or> is_absolute_iri k \<and> (\<exists>xs. v = JArr xs \<and> attrs_ok opts xs)" if "(k, v) \<in> set m" for k v
  proof -
    have g: "bm_get m k = Some v" using that bm_get_iff [OF ok] by simp
    show ?thesis
    proof (cases "bm_get m k = bm_get (sys o4) k")
      case True
      then have "bm_get (sys o4) k \<noteq> None" using g by (metis option.distinct(1))
      then show ?thesis using known by blast
    next
      case False
      then have "is_absolute_iri k \<and> (\<exists>xs. bm_get m k = Some (JArr xs) \<and> attrs_ok opts xs)"
        using sub unfolding sub_attrs_def by blast
      then show ?thesis using g by auto
    qed
  qed
  then have "entity_ok opts m" using ok i t(2) by (auto simp: entity_ok_def gid gty)
  then show ?thesis using o(1,6) gid by blast
qed

lemma entity_result_ok: "expand_entity L c opts doc = Inr e \<Longrightarrow> \<exists>m. e = JObj m \<and> entity_ok opts m"
  using entity_result by blast

lemma entity_result_id:
  assumes "expand_entity L c opts doc = Inr e" "get_or doc ''id'' ''@id'' = Some (JStr i)"
  shows "jget e ''id'' = Some (JStr i)"
  using entity_result [OF assms(1)] assms(2) by (auto simp: entity_id_step_def and_then_Inr_iff)

end
