(* ===== verification/Compact.thy ===== *)
theory Compact
  imports Expand
begin

text \<open>
  Compaction (\<open>antares-jsonld/src/compact.rs\<close>): the internal form back to short names under the reader's
  context, normalized and simplified.
\<close>

definition VERBATIM :: "string list" where
  "VERBATIM = [''type'', ''value'', ''object'', ''datasetId'', ''observedAt'', ''unitCode'', ''lang'', ''languageMap'',
     ''json'', ''valueList'', ''objectList'', ''createdAt'', ''modifiedAt'', ''deletedAt'', ''instanceId'', ''expiresAt'',
     ''previousValue'', ''previousObject'', ''previousLanguageMap'', ''previousJson'']"

definition unwrap_single :: "json \<Rightarrow> json" where
  "unwrap_single v = (case v of JArr [x] \<Rightarrow> x | _ \<Rightarrow> v)"

fun compact_term :: "jctx \<Rightarrow> json \<Rightarrow> json" where
  "compact_term c (JStr i) = JStr (compact_iri c i)"
| "compact_term c v = v"

definition compact_types :: "jctx \<Rightarrow> json \<Rightarrow> json" where
  "compact_types c v = (case v of
     JArr items \<Rightarrow> unwrap_single (JArr (map (compact_term c) items))
   | _ \<Rightarrow> compact_term c v)"

definition compact_vocab :: "jctx \<Rightarrow> json \<Rightarrow> json" where
  "compact_vocab c v = (case v of JArr a \<Rightarrow> JArr (map (compact_term c) a) | _ \<Rightarrow> compact_term c v)"

fun wrap_object :: "json \<Rightarrow> json" where
  "wrap_object (JStr uri) = mkobj [(''object'', JStr uri)]"
| "wrap_object v = v"

definition wrap_list :: "json \<Rightarrow> json" where
  "wrap_list v = (case v of JArr a \<Rightarrow> JArr (map wrap_object a) | _ \<Rightarrow> v)"

text \<open>\<open>compact_instance\<close>, with \<open>compact_attr_value\<close> of a sub-attribute written out.\<close>

fun compact_instance :: "jctx \<Rightarrow> json \<Rightarrow> json" where
  "compact_instance c (JObj m) = JObj (bm_of_list (map (\<lambda>(k, v).
     if k = ''vocab'' \<or> k = ''previousVocab'' then (k, compact_vocab c v)
     else if k = ''objectType'' then (k, compact_types c v)
     else if k = ''entityTypeSealed'' then (k, compact_types c v)
     else if k = ''objectList'' \<or> k = ''previousObjectList'' then (k, wrap_list v)
     else if k \<in> set VERBATIM then (k, v)
     else (compact_iri c k, case v of
        JArr xs \<Rightarrow> unwrap_single (JArr (map (compact_instance c) xs))
      | _ \<Rightarrow> compact_instance c v)) m))"
| "compact_instance c v = v"

definition compact_attr_value :: "jctx \<Rightarrow> json \<Rightarrow> json" where
  "compact_attr_value c v = (case v of
     JArr xs \<Rightarrow> unwrap_single (JArr (map (compact_instance c) xs))
   | _ \<Rightarrow> compact_instance c v)"

definition STAMPS :: "string list" where
  "STAMPS = [''createdAt'', ''modifiedAt'', ''deletedAt'', ''expiresAt'']"

definition compact_member :: "jctx \<Rightarrow> string \<times> json \<Rightarrow> string \<times> json" where
  "compact_member c e = (case e of (k, v) \<Rightarrow>
     if k = ''id'' then (k, v)
     else if k = ''type'' then (k, compact_types c v)
     else if k = ''scope'' then (k, unwrap_single v)
     else if k \<in> set STAMPS then (k, v)
     else (compact_iri c k, compact_attr_value c v))"

definition compact_entity :: "jctx \<Rightarrow> json \<Rightarrow> json" where
  "compact_entity c v = (case v of JObj m \<Rightarrow> JObj (bm_of_list (map (compact_member c) m)) | _ \<Rightarrow> v)"

fun compact_simplified_value :: "jctx \<Rightarrow> json \<Rightarrow> json" where
  "compact_simplified_value c (JObj m) = (case m of
     [(k, w)] \<Rightarrow>
       if k = ''vocab'' then mkobj [(''vocab'', compact_vocab c w)]
       else if k = ''dataset'' then (case w of
            JObj d \<Rightarrow> mkobj [(''dataset'', JObj (bm_of_list (map (\<lambda>(j, iv). (j, compact_simplified_value c iv)) d)))]
          | _ \<Rightarrow> JObj m)
       else JObj m
   | _ \<Rightarrow> JObj m)"
| "compact_simplified_value c v = v"

definition compact_shallow_member :: "jctx \<Rightarrow> string \<times> json \<Rightarrow> string \<times> json" where
  "compact_shallow_member c e = (case e of (k, v) \<Rightarrow>
     if k = ''id'' \<or> k = ''scope'' \<or> k \<in> set STAMPS then (k, v)
     else if k = ''type'' then (k, compact_types c v)
     else (compact_iri c k, compact_simplified_value c v))"

definition compact_entity_shallow :: "jctx \<Rightarrow> json \<Rightarrow> json" where
  "compact_entity_shallow c v = (case v of JObj m \<Rightarrow> JObj (bm_of_list (map (compact_shallow_member c) m)) | _ \<Rightarrow> v)"

end
