(* ===== verification/Geo.thy ===== *)
theory Geo
  imports Expand
begin

text \<open>
  Geoqueries (\<open>antares-ql/src/geo.rs\<close>): parsing the query parameters, the vertex budget, and evaluation of a
  relation over GeoJSON values.  The geometry crates are outside the source: \<open>geo_lib\<close> gives the conversion
  of a checked GeoJSON object to a geometry, the DE-9IM relations, whether a geometry has a bounding box and
  the projected distance in metres.  Distances are compared as binary64 values.
\<close>

subsection \<open>Parsing a float\<close>

text \<open>\<open>str::parse::<f64>\<close>: a decimal with an optional sign, or one of the special names in any case.\<close>

datatype rust_float = BadFloat | NotANumber | Float f64

definition signed_float :: "bool \<Rightarrow> f64 \<Rightarrow> f64" where
  "signed_float neg x = (if neg then (case x of PInf \<Rightarrow> NInf | NInf \<Rightarrow> PInf | Fin r \<Rightarrow> Fin (- r)) else x)"

definition exponent :: "string \<Rightarrow> int option" where
  "exponent s = (case strip_any ''eE'' s of
     None \<Rightarrow> if s = [] then Some 0 else None
   | Some t \<Rightarrow>
       let neg = starts_with ''-'' t; ds = (case strip_any ''+-'' t of Some u \<Rightarrow> u | None \<Rightarrow> t) in
       if ds \<noteq> [] \<and> list_all is_digit ds then Some (if neg then - digits_val ds else digits_val ds) else None)"

definition decimal :: "string \<Rightarrow> rat option" where
  "decimal s =
     (let ip = takeWhile is_digit s; rest = dropWhile is_digit s;
          fp = (case strip_char CHR ''.'' rest of None \<Rightarrow> [] | Some t \<Rightarrow> takeWhile is_digit t);
          rest' = (case strip_char CHR ''.'' rest of None \<Rightarrow> rest | Some t \<Rightarrow> dropWhile is_digit t)
      in if ip @ fp = [] then None
         else map_option (\<lambda>e. of_int (digits_val (ip @ fp)) * power_int 10 (e - int (length fp))) (exponent rest'))"

definition rust_f64 :: "string \<Rightarrow> rust_float" where
  "rust_f64 s0 =
     (let neg = starts_with ''-'' s0; s = (case strip_any ''+-'' s0 of Some t \<Rightarrow> t | None \<Rightarrow> s0); low = to_ascii_lowercase s
      in if low = ''inf'' \<or> low = ''infinity'' then Float (signed_float neg PInf)
         else if low = ''nan'' then NotANumber
         else (case decimal s of None \<Rightarrow> BadFloat | Some r \<Rightarrow> Float (signed_float neg (round_f64 r))))"

subsection \<open>The query\<close>

definition LOCATION_IRI :: string where "LOCATION_IRI = ''https://uri.etsi.org/ngsi-ld/location''"
definition MAX_GEO_VERTICES :: nat where "MAX_GEO_VERTICES = 1024"

datatype rel = Near "f64 option" "f64 option" | Within | Contains | Intersects | Disjoint | Overlaps | Equals

record 'g geo_lib =
  to_geom :: "string \<Rightarrow> json \<Rightarrow> 'g option"   \<comment> \<open>\<open>geojson\<close> and \<open>geo_types\<close>: \<open>{type, coordinates}\<close> to a geometry\<close>
  rel_within :: "'g \<Rightarrow> 'g \<Rightarrow> bool"
  rel_contains :: "'g \<Rightarrow> 'g \<Rightarrow> bool"
  rel_intersects :: "'g \<Rightarrow> 'g \<Rightarrow> bool"
  rel_overlaps :: "'g \<Rightarrow> 'g \<Rightarrow> bool"
  rel_equal_topo :: "'g \<Rightarrow> 'g \<Rightarrow> bool"
  has_box :: "'g \<Rightarrow> bool"
  plane_distance :: "'g \<Rightarrow> 'g \<Rightarrow> f64"

record 'g geo_query_t =
  g_rel :: rel
  g_geometry :: string
  g_coordinates :: json
  g_geoproperty :: string
  g_query_geom :: 'g

fun count_positions :: "json \<Rightarrow> nat" where
  "count_positions (JArr a) = (if (case a of x # _ \<Rightarrow> is_array x | [] \<Rightarrow> False) then sum_list (map count_positions a) else 1)"
| "count_positions _ = 0"

definition check_vertex_budget :: "json \<Rightarrow> unit checked" where
  "check_vertex_budget coords =
     (if MAX_GEO_VERTICES < count_positions coords then Err ''geometry has too many coordinate positions (maximum 1024)'' else Ok ())"

definition parse_geometry :: "'g geo_lib \<Rightarrow> string \<Rightarrow> json \<Rightarrow> 'g checked" where
  "parse_geometry G t coords = and_then (check_geometry t coords) (\<lambda>_.
     case to_geom G t coords of Some g \<Rightarrow> Ok g | None \<Rightarrow> Err ''invalid geometry'')"

definition parse_ref_geometry :: "'g geo_lib \<Rightarrow> string \<Rightarrow> json \<Rightarrow> 'g checked" where
  "parse_ref_geometry G t coords = and_then (check_vertex_budget coords) (\<lambda>_. parse_geometry G t coords)"

definition min_distance_m :: "'g geo_lib \<Rightarrow> 'g \<Rightarrow> 'g \<Rightarrow> f64" where
  "min_distance_m G a b = (if has_box G a \<and> has_box G b then plane_distance G a b else PInf)"

definition geo_object :: "json \<Rightarrow> (string \<times> json) option" where
  "geo_object v = (case (Option.bind (jget v ''type'') as_str, jget v ''coordinates'') of
     (Some t, Some c) \<Rightarrow> Some (t, c) | _ \<Rightarrow> None)"

definition order_distance_m :: "'g geo_lib \<Rightarrow> 'g \<Rightarrow> json \<Rightarrow> f64 option" where
  "order_distance_m G refg v = Option.bind (geo_object v) (\<lambda>(t, c).
     case parse_geometry G t c of Ok g \<Rightarrow> Some (min_distance_m G refg g) | Err _ \<Rightarrow> None)"

definition positive :: "string \<Rightarrow> string \<Rightarrow> f64 ngsi_result" where
  "positive v name = (case rust_f64 v of
     BadFloat \<Rightarrow> Err (BadRequestData (''invalid '' @ name))
   | NotANumber \<Rightarrow> Err (BadRequestData (name @ '' must be a positive non-zero number''))
   | Float x \<Rightarrow> if is_finite x \<and> Fin 0 < x then Ok x else Err (BadRequestData (name @ '' must be a positive non-zero number'')))"

definition modifier_step :: "string \<Rightarrow> f64 option \<times> f64 option \<Rightarrow> (f64 option \<times> f64 option) ngsi_result" where
  "modifier_step p0 mm =
     (let p = trim p0 in
      if fst mm \<noteq> None \<or> snd mm \<noteq> None then Err (BadRequestData ''near takes a single distance modifier'')
      else (case strip_prefix ''maxDistance=='' p of
         Some v \<Rightarrow> and_then (positive v ''maxDistance'') (\<lambda>x. Ok (Some x, snd mm))
       | None \<Rightarrow> (case strip_prefix ''minDistance=='' p of
            Some v \<Rightarrow> and_then (positive v ''minDistance'') (\<lambda>x. Ok (fst mm, Some x))
          | None \<Rightarrow> Err (BadRequestData ''invalid georel modifier''))))"

definition base_rel :: "string \<Rightarrow> f64 option \<Rightarrow> f64 option \<Rightarrow> rel ngsi_result" where
  "base_rel b mx mn =
     (if b = ''near'' then
        (if mx = None \<and> mn = None then Err (BadRequestData ''near requires maxDistance or minDistance'') else Ok (Near mx mn))
      else if b = ''within'' then Ok Within
      else if b = ''contains'' then Ok Contains
      else if b = ''intersects'' then Ok Intersects
      else if b = ''equals'' then Ok Equals
      else if b = ''disjoint'' then Ok Disjoint
      else if b = ''overlaps'' then Ok Overlaps
      else Err (BadRequestData ''invalid georel''))"

definition parse_georel :: "string \<Rightarrow> rel ngsi_result" where
  "parse_georel s = (case split_on (\<lambda>c. c = CHR '';'') s of
     [] \<Rightarrow> base_rel [] None None
   | b # parts \<Rightarrow> and_then (try_fold modifier_step parts (None, None)) (\<lambda>(mx, mn). base_rel (trim b) mx mn))"

definition geometry_param :: "string bmap \<Rightarrow> string ngsi_result" where
  "geometry_param params = (case bm_get params ''geometry'' of
     None \<Rightarrow> Err (BadRequestData ''georel requires geometry'')
   | Some t \<Rightarrow> if t \<in> set GEO_TYPES then Ok t else Err (BadRequestData ''invalid geometry''))"

definition coordinates_param :: "lib \<Rightarrow> string bmap \<Rightarrow> json ngsi_result" where
  "coordinates_param L params = (case bm_get params ''coordinates'' of
     None \<Rightarrow> Err (BadRequestData ''georel requires coordinates'')
   | Some raw \<Rightarrow> (case from_json L raw of
        None \<Rightarrow> Err (BadRequestData ''invalid coordinates'')
      | Some coords \<Rightarrow> if is_array coords then Ok coords else Err (BadRequestData ''coordinates must be a JSON array'')))"

definition bad_geometry :: "'a checked \<Rightarrow> 'a ngsi_result" where
  "bad_geometry r = (case r of Ok g \<Rightarrow> Ok g | Err e \<Rightarrow> Err (BadRequestData e))"

definition from_params :: "lib \<Rightarrow> 'g geo_lib \<Rightarrow> string bmap \<Rightarrow> 'g geo_query_t option ngsi_result" where
  "from_params L G params = (case bm_get params ''georel'' of
     None \<Rightarrow>
       if bm_contains params ''geometry'' \<or> bm_contains params ''coordinates''
       then Err (BadRequestData ''geometry/coordinates given without georel'') else Ok None
   | Some georel \<Rightarrow>
       and_then (parse_georel georel) (\<lambda>r.
       and_then (geometry_param params) (\<lambda>t.
       and_then (coordinates_param L params) (\<lambda>coords.
       and_then (bad_geometry (parse_ref_geometry G t coords)) (\<lambda>g.
         Ok (Some \<lparr>g_rel = r, g_geometry = t, g_coordinates = coords,
            g_geoproperty = (case bm_get params ''geoproperty'' of Some p \<Rightarrow> p | None \<Rightarrow> []), g_query_geom = g\<rparr>))))))"

subsection \<open>Evaluation\<close>

definition at_most :: "f64 option \<Rightarrow> f64 \<Rightarrow> bool" where
  "at_most m d = (case m of None \<Rightarrow> True | Some x \<Rightarrow> d \<le> x)"

definition more_than :: "f64 option \<Rightarrow> f64 \<Rightarrow> bool" where
  "more_than m d = (case m of None \<Rightarrow> True | Some x \<Rightarrow> x < d)"

definition matches_geometry :: "'g geo_lib \<Rightarrow> 'g geo_query_t \<Rightarrow> json \<Rightarrow> bool" where
  "matches_geometry G gq v = (case geo_object v of
     None \<Rightarrow> False
   | Some (t, c) \<Rightarrow> (case parse_geometry G t c of
        Err _ \<Rightarrow> False
      | Ok target \<Rightarrow>
          let q = g_query_geom gq in
          (case g_rel gq of
             Near mx mn \<Rightarrow> (let d = min_distance_m G q target in at_most mx d \<and> more_than mn d)
           | Equals \<Rightarrow> (t = g_geometry gq \<and> c = g_coordinates gq) \<or> rel_equal_topo G target q
           | Within \<Rightarrow> rel_within G target q
           | Contains \<Rightarrow> rel_contains G target q
           | Intersects \<Rightarrow> rel_intersects G target q
           | Disjoint \<Rightarrow> \<not> rel_intersects G target q
           | Overlaps \<Rightarrow> rel_overlaps G target q)))"

definition geoproperty_iri :: "jctx \<Rightarrow> 'g geo_query_t \<Rightarrow> string" where
  "geoproperty_iri c gq = (if g_geoproperty gq = [] then LOCATION_IRI else expand_key c (g_geoproperty gq))"

definition geo_matches :: "'g geo_lib \<Rightarrow> jctx \<Rightarrow> 'g geo_query_t \<Rightarrow> json \<Rightarrow> bool" where
  "geo_matches G c gq doc = (case Option.bind (jget doc (geoproperty_iri c gq)) as_array of
     None \<Rightarrow> False
   | Some insts \<Rightarrow> list_ex (\<lambda>i. case jget i ''value'' of Some v \<Rightarrow> matches_geometry G gq v | None \<Rightarrow> False) insts)"

record geo_spec =
  spec_rel :: rel
  spec_geometry :: string
  spec_coordinates :: json
  spec_geoproperty_iri :: string

definition to_instance_spec :: "jctx \<Rightarrow> 'g geo_query_t \<Rightarrow> geo_spec \<times> string" where
  "to_instance_spec c gq =
     (\<lparr>spec_rel = g_rel gq, spec_geometry = g_geometry gq, spec_coordinates = g_coordinates gq, spec_geoproperty_iri = []\<rparr>,
      geoproperty_iri c gq)"

definition to_sql_spec :: "jctx \<Rightarrow> 'g geo_query_t \<Rightarrow> geo_spec option" where
  "to_sql_spec c gq = (case to_instance_spec c gq of (spec, i) \<Rightarrow> if i = LOCATION_IRI then Some spec else None)"

subsection \<open>What an accepted query is\<close>

definition one_distance :: "rel \<Rightarrow> bool" where
  "one_distance r \<longleftrightarrow> (\<forall>mx mn. r = Near mx mn \<longrightarrow> (\<exists>d > 0. (mx, mn) = (Some (Fin d), None) \<or> (mx, mn) = (None, Some (Fin d))))"

definition at_most_one :: "f64 option \<times> f64 option \<Rightarrow> bool" where
  "at_most_one mm \<longleftrightarrow> mm = (None, None) \<or> (\<exists>d > 0. mm = (Some (Fin d), None) \<or> mm = (None, Some (Fin d)))"

lemma positive_Inr: "positive v name = Inr x \<Longrightarrow> \<exists>d > 0. x = Fin d"
  by (cases x) (auto simp: positive_def split: rust_float.splits if_splits)

lemma modifier_one: "modifier_step p mm = Inr mm' \<Longrightarrow> at_most_one mm'"
  by (cases mm) (auto simp: modifier_step_def Let_def and_then_Inr_iff at_most_one_def split: if_splits option.splits dest!: positive_Inr)

lemma georel_one: "parse_georel s = Inr r \<Longrightarrow> one_distance r"
proof -
  assume p: "parse_georel s = Inr r"
  then obtain b mm where b: "base_rel b (fst mm) (snd mm) = Inr r" "at_most_one mm"
  proof (cases "split_on (\<lambda>c. c = CHR '';'') s")
    case Nil
    with p that [of "[]" "(None, None)"] show thesis by (simp add: parse_georel_def at_most_one_def)
  next
    case (Cons a parts)
    then obtain mm where mm: "try_fold modifier_step parts (None, None) = Inr mm" "base_rel (trim a) (fst mm) (snd mm) = Inr r"
      using p by (auto simp: parse_georel_def and_then_Inr_iff)
    have "at_most_one mm"
      by (rule try_fold_Inr_inv [OF mm(1)]) (auto simp: at_most_one_def [of "(None, None)"] dest: modifier_one)
    with mm(2) that show thesis by blast
  qed
  then show ?thesis by (cases mm) (auto simp: base_rel_def one_distance_def at_most_one_def split: if_splits)
qed

lemma accepted_geoquery:
  assumes "from_params L G params = Inr (Some gq)"
  shows "one_distance (g_rel gq)" "count_positions (g_coordinates gq) \<le> MAX_GEO_VERTICES"
    "\<exists>P. geometry_shape (g_geometry gq) = Some P \<and> P (g_coordinates gq)"
    "to_geom G (g_geometry gq) (g_coordinates gq) = Some (g_query_geom gq)"
proof -
  obtain s where "bm_get params ''georel'' = Some s"
    using assms by (cases "bm_get params ''georel''") (simp_all add: from_params_def split: if_split_asm)
  then obtain r t coords g where p: "parse_georel s = Inr r" "bad_geometry (parse_ref_geometry G t coords) = Inr g"
      and gq: "g_rel gq = r" "g_geometry gq = t" "g_coordinates gq = coords" "g_query_geom gq = g"
    using assms by (auto simp: from_params_def and_then_Inr_iff)
  have p3: "parse_ref_geometry G t coords = Inr g" using p(2) by (simp add: bad_geometry_def split: sum.splits)
  show "one_distance (g_rel gq)" using georel_one [OF p(1)] gq by simp
  show "count_positions (g_coordinates gq) \<le> MAX_GEO_VERTICES"
    using p3 gq by (auto simp: parse_ref_geometry_def check_vertex_budget_def and_then_Inr_iff split: if_splits)
  have "check_geometry t coords = Inr () \<and> to_geom G t coords = Some g"
    using p3 by (auto simp: parse_ref_geometry_def parse_geometry_def and_then_Inr_iff split: option.splits)
  then show "\<exists>P. geometry_shape (g_geometry gq) = Some P \<and> P (g_coordinates gq)"
    "to_geom G (g_geometry gq) (g_coordinates gq) = Some (g_query_geom gq)"
    using gq by (auto simp: check_geometry_ok split: option.splits)
qed

text \<open>The two distance modifiers split the targets between them, and so do intersects and disjoint.\<close>

definition geometry_target :: "'g geo_lib \<Rightarrow> json \<Rightarrow> bool" where
  "geometry_target G v \<longleftrightarrow> (\<exists>t c g. geo_object v = Some (t, c) \<and> parse_geometry G t c = Inr g)"

lemma no_target: "\<not> geometry_target G v \<Longrightarrow> \<not> matches_geometry G gq v"
  by (auto simp: geometry_target_def matches_geometry_def split: option.splits sum.splits)

lemma near_splits:
  "geometry_target G v \<Longrightarrow>
     matches_geometry G (gq\<lparr>g_rel := Near (Some d) None\<rparr>) v \<longleftrightarrow> \<not> matches_geometry G (gq\<lparr>g_rel := Near None (Some d)\<rparr>) v"
  by (auto simp: geometry_target_def matches_geometry_def at_most_def more_than_def Let_def)

lemma disjoint_splits:
  "geometry_target G v \<Longrightarrow>
     matches_geometry G (gq\<lparr>g_rel := Intersects\<rparr>) v \<longleftrightarrow> \<not> matches_geometry G (gq\<lparr>g_rel := Disjoint\<rparr>) v"
  by (auto simp: geometry_target_def matches_geometry_def Let_def)

end
