(* ===== verification/Repr.thy ===== *)
theory Repr
  imports Compact Policy Geo
begin

text \<open>
  Representation of a document (\<open>antares-api/src/repr.rs\<close>): the request's options, the projection language of
  4.21, the policy's own projection, the language filter, the simplified and concise forms, Linked Entity
  retrieval (inline and flattened) and GeoJSON.  The store is a function from an entity id to its document.
  Messages keep their fixed text; the echo of an offending value is left out.
\<close>

datatype proj_node = Proj (pn_raw: string) (pn_iri: string) (pn_children: "proj_node list option")

record repr =
  r_sys :: bool
  r_key_values :: bool
  r_concise :: bool
  r_attrs :: "string list option"
  r_pick :: "proj_node list option"
  r_omit :: "proj_node list option"
  r_policy_pick :: "proj_node list option"
  r_policy_omit :: "proj_node list option"
  r_lang :: "string option"
  r_dataset :: "string list option"

definition default_repr :: repr where
  "default_repr = \<lparr>r_sys = False, r_key_values = False, r_concise = False, r_attrs = None, r_pick = None, r_omit = None,
     r_policy_pick = None, r_policy_omit = None, r_lang = None, r_dataset = None\<rparr>"

subsection \<open>The projection language\<close>

definition MAX_JOIN_LEVEL :: nat where "MAX_JOIN_LEVEL = 10"

text \<open>\<open>bounds::json_depth\<close>: the scan keeps the depth, the maximum, and whether it is inside a string or after a
  backslash there.\<close>

fun depth_step :: "char \<Rightarrow> nat \<times> nat \<times> bool \<times> bool \<Rightarrow> nat \<times> nat \<times> bool \<times> bool" where
  "depth_step b (d, mx, True, esc) =
     (if esc then (d, mx, True, False)
      else if b = CHR 0x5C then (d, mx, True, True)
      else (d, mx, b \<noteq> CHR 0x22, False))"
| "depth_step b (d, mx, False, esc) =
     (if b = CHR 0x22 then (d, mx, True, esc)
      else if b = CHR 0x7B \<or> b = CHR 0x5B then (d + 1, max mx (d + 1), False, esc)
      else if b = CHR 0x7D \<or> b = CHR 0x5D then (d - 1, mx, False, esc)
      else (d, mx, False, esc))"

definition json_depth :: "string \<Rightarrow> nat" where
  "json_depth s = fst (snd (fold depth_step s (0, 0, False, False)))"

text \<open>\<open>split_top\<close>: \<open>d\<close> counts the open braces, \<open>w\<close> is the piece being read.\<close>

fun split_top :: "nat \<Rightarrow> string \<Rightarrow> string \<Rightarrow> string list option" where
  "split_top d w [] = Some [w]"
| "split_top d w (c # s) =
     (if c = CHR ''{'' then split_top (d + 1) (w @ [c]) s
      else if c = CHR ''}'' then (if d = 0 then None else split_top (d - 1) (w @ [c]) s)
      else if (c = CHR '','' \<or> c = CHR ''|'') \<and> d = 0 then map_option (\<lambda>ws. w # ws) (split_top d [] s)
      else split_top d (w @ [c]) s)"

lemma split_top_size: "split_top d w s = Some ws \<Longrightarrow> sum_list (map (\<lambda>t. length t + 1) ws) = length w + length s + 1"
proof (induction d w s arbitrary: ws rule: split_top.induct)
  case (2 d w c s)
  show ?case
  proof (cases "(c = CHR '','' \<or> c = CHR ''|'') \<and> d = 0")
    case True
    then have cc: "c \<noteq> CHR ''{''" "c \<noteq> CHR ''}''" by auto
    from True cc 2(5) obtain us where us: "split_top d [] s = Some us" "ws = w # us"
      by (auto simp: map_option_eq_Some)
    from 2(3) [OF cc True us(1)] us(2) show ?thesis by simp
  next
    case False
    with 2 show ?thesis by (auto split: if_split_asm)
  qed
qed simp

definition bad_projection :: "'a ngsi_result" where
  "bad_projection = Err (BadRequestData ''invalid attribute projection (4.21)'')"

definition bad_member :: "string \<Rightarrow> 'a ngsi_result" where
  "bad_member m = Err (BadRequestData (''invalid attribute projection: '' @ m))"

definition head_ok :: "string \<Rightarrow> unit ngsi_result" where
  "head_ok hp = (let segs = split_on (\<lambda>c. c = CHR ''.'') hp; h = hd segs in
     if h = [] \<or> [] \<in> set segs then bad_member ''empty path segment''
     else if \<not> (is_alnum (hd h) \<or> hd h \<in> set ''_:@#'') then bad_member ''projection member starts with a special character''
     else Ok ())"

lemma length_dropWhile_Cons: "dropWhile P t = x # r \<Longrightarrow> length r < length t"
  using length_dropWhile_le [of P t] by simp

lemma length_strip_suffix: "strip_suffix p s = Some r \<Longrightarrow> length s = length r + length p"
  by (simp add: strip_suffix_Some_iff)

function (sequential) parse_nodes :: "jctx \<Rightarrow> string \<Rightarrow> proj_node list ngsi_result"
  and parse_parts :: "jctx \<Rightarrow> string list \<Rightarrow> proj_node list \<Rightarrow> proj_node list ngsi_result" where
  "parse_nodes c s = (case split_top 0 [] s of
     None \<Rightarrow> bad_member ''unbalanced braces''
   | Some parts \<Rightarrow> parse_parts c parts [])"
| "parse_parts c [] out = Ok out"
| "parse_parts c (p # ps) out =
     (let t = trim p; hp = takeWhile (\<lambda>x. x \<noteq> CHR ''{'') t in
      if t = [] then bad_member ''empty projection member''
      else (case (case dropWhile (\<lambda>x. x \<noteq> CHR ''{'') t of
              [] \<Rightarrow> Ok None
            | _ # r \<Rightarrow> (case strip_suffix ''}'' r of
                None \<Rightarrow> bad_member ''unclosed brace''
              | Some inner \<Rightarrow> (case parse_nodes c inner of Err e \<Rightarrow> Err e | Ok ns \<Rightarrow> Ok (Some ns)))) of
          Err e \<Rightarrow> Err e
        | Ok ch \<Rightarrow> (case head_ok hp of
            Err e \<Rightarrow> Err e
          | Ok _ \<Rightarrow>
             (let h = hd (split_on (\<lambda>x. x = CHR ''.'') hp) in
              if h \<in> pn_raw ` set out then bad_member ''duplicate projection member''
              else parse_parts c ps (out @ [Proj h (expand_key c h) ch])))))"
  by pat_completeness auto
termination
proof (relation "measure (\<lambda>x. case x of Inl (c, s) \<Rightarrow> 2 * length s + 3
    | Inr (c, ps, out) \<Rightarrow> 2 * sum_list (map (\<lambda>t. length t + 1) ps))", goal_cases)
  case 1
  then show ?case by simp
next
  case (2 c s parts)
  from split_top_size [OF 2] show ?case by simp
next
  case (3 c p ps out t hp x r inner)
  have "length inner + 1 < length t"
    using length_dropWhile_Cons [OF 3(4)] length_strip_suffix [OF 3(5)] by simp
  moreover have "length t \<le> length p" using 3(1) by simp
  ultimately show ?case by simp
next
  case 4
  then show ?case by simp
qed

declare parse_nodes.simps [simp del] parse_parts.simps [simp del]

definition proj_char :: "char \<Rightarrow> bool" where
  "proj_char ch \<longleftrightarrow> is_alnum ch \<or> ch \<in> set ''_,.:{}#/%-+@|''"

definition parse_projection :: "jctx \<Rightarrow> string \<Rightarrow> proj_node list ngsi_result" where
  "parse_projection c s =
     (if s = [] \<or> count_list s (CHR ''{'') \<noteq> count_list s (CHR ''}'') \<or> MAX_JOIN_LEVEL < json_depth s
         \<or> \<not> list_all proj_char s
      then bad_projection else parse_nodes c s)"

fun node_depth :: "proj_node \<Rightarrow> nat" where
  "node_depth (Proj rw i None) = 0"
| "node_depth (Proj rw i (Some ns)) = 1 + fold max (map node_depth ns) 0"

definition proj_depth :: "proj_node list \<Rightarrow> nat" where
  "proj_depth ns = fold max (map node_depth ns) 0"

subsection \<open>The request's options\<close>

definition check_projection_exclusive :: "string bmap \<Rightarrow> unit ngsi_result" where
  "check_projection_exclusive ps =
     (if 1 < length (filter (bm_contains ps) [''pick'', ''omit'', ''attrs''])
      then Err (BadRequestData ''pick, omit and attrs are mutually exclusive (4.21)'') else Ok ())"

definition or_insert :: "'a \<Rightarrow> 'a option \<Rightarrow> 'a option" where
  "or_insert x o' = (case o' of None \<Rightarrow> Some x | Some y \<Rightarrow> Some y)"

definition option_step :: "string \<Rightarrow> bool \<times> string option \<Rightarrow> (bool \<times> string option) ngsi_result" where
  "option_step w st = (case st of (sys, fmt) \<Rightarrow>
     let t = trim w in
     if t = ''sysAttrs'' then Ok (True, fmt)
     else if t = ''keyValues'' \<or> t = ''simplified'' then Ok (sys, or_insert ''simplified'' fmt)
     else if t = ''concise'' then Ok (sys, or_insert ''concise'' fmt)
     else if t = ''normalized'' then Ok (sys, or_insert ''normalized'' fmt)
     else Err (InvalidRequest ''unsupported options value''))"

definition format_param :: "string bmap \<Rightarrow> string option \<Rightarrow> string option ngsi_result" where
  "format_param ps fmt = (case bm_get ps ''format'' of
     None \<Rightarrow> Ok fmt
   | Some f \<Rightarrow>
       if f = ''keyValues'' then Ok (Some ''simplified'')
       else if f \<in> {''normalized'', ''concise'', ''simplified''} then Ok (Some f)
       else Err (InvalidRequest ''unsupported format value''))"

definition attr_name :: "jctx \<Rightarrow> string \<Rightarrow> string ngsi_result" where
  "attr_name c w = (let t = trim w in
     if t = [] \<or> t \<in> set ENTITY_META_KEYS then Err (BadRequestData ''invalid attribute name in attrs'')
     else Ok (expand_key c t))"

definition opt_param :: "string bmap \<Rightarrow> string \<Rightarrow> (string \<Rightarrow> 'a ngsi_result) \<Rightarrow> 'a option ngsi_result" where
  "opt_param ps k f = (case bm_get ps k of None \<Rightarrow> Ok None | Some s \<Rightarrow> and_then (f s) (\<lambda>x. Ok (Some x)))"

definition comma :: "char \<Rightarrow> bool" where
  "comma ch \<longleftrightarrow> ch = CHR '',''"

definition parse_repr :: "string bmap \<Rightarrow> jctx \<Rightarrow> repr ngsi_result" where
  "parse_repr ps c =
     and_then (case bm_get ps ''options'' of None \<Rightarrow> Ok (False, None) | Some opts \<Rightarrow> try_fold option_step (split_on comma opts) (False, None)) (\<lambda>(sys, fmt0).
     and_then (format_param ps fmt0) (\<lambda>fmt.
     and_then (check_projection_exclusive ps) (\<lambda>_.
     and_then (opt_param ps ''attrs'' (\<lambda>a. try_map (attr_name c) (split_on comma a))) (\<lambda>attrs.
     and_then (opt_param ps ''pick'' (parse_projection c)) (\<lambda>pick.
     and_then (opt_param ps ''omit'' (parse_projection c)) (\<lambda>omit.
       Ok (default_repr\<lparr>r_sys := sys, r_key_values := (fmt = Some ''simplified''), r_concise := (fmt = Some ''concise''),
            r_attrs := attrs, r_pick := pick, r_omit := omit, r_lang := bm_get ps ''lang'',
            r_dataset := map_option (\<lambda>s. map trim (split_on comma s)) (bm_get ps ''datasetId'')\<rparr>)))))))"

definition target_dataset_id :: "string bmap \<Rightarrow> string option" where
  "target_dataset_id ps = (case bm_get ps ''datasetId'' of None \<Rightarrow> None | Some d \<Rightarrow> if d \<noteq> ''@none'' then Some d else None)"

subsection \<open>The policy's projection\<close>

text \<open>\<open>core\<close> is \<open>POLICY_CONTEXT\<close>, the core \<open>@context\<close>, in which a rule's names are read.\<close>

definition policy_nodes :: "jctx \<Rightarrow> string list \<Rightarrow> proj_node list" where
  "policy_nodes core names = map (\<lambda>n. Proj n (expand_key core n) None) names"

definition add_frame :: "proj_node list \<Rightarrow> proj_node list \<Rightarrow> proj_node list" where
  "add_frame frames kept = fold (\<lambda>f ks. if pn_raw f \<in> pn_raw ` set ks then ks else ks @ [f]) frames kept"

definition narrow_projection :: "jctx \<Rightarrow> jctx \<Rightarrow> pfilter \<Rightarrow> proj_node list option \<times> proj_node list option \<Rightarrow>
    (proj_node list option \<times> proj_node list option) ngsi_result" where
  "narrow_projection core c f po = (case po of (pick, omit) \<Rightarrow>
     let omit' = (if f_omit f = [] then omit
                  else (case omit of Some own \<Rightarrow> Some (own @ policy_nodes core (f_omit f)) | None \<Rightarrow> Some (policy_nodes core (f_omit f)))) in
     if f_pick f = [] then Ok (pick, omit')
     else (let allowed = policy_nodes core (f_pick f);
               kept = (case pick of None \<Rightarrow> allowed | Some own \<Rightarrow> filter (\<lambda>n. pn_iri n \<in> pn_iri ` set allowed) own) in
           and_then (parse_projection c ''id,type'') (\<lambda>frames. Ok (Some (add_frame frames kept), omit'))))"

definition narrow_repr :: "jctx \<Rightarrow> pfilter \<Rightarrow> repr \<Rightarrow> repr" where
  "narrow_repr core f r =
     (let r = (if f_omit f = [] then r else r\<lparr>r_policy_omit := Some (policy_nodes core (f_omit f))\<rparr>) in
      if f_pick f = [] then r else r\<lparr>r_policy_pick := Some (policy_nodes core (f_pick f))\<rparr>)"

definition compacted_filter :: "jctx \<Rightarrow> jctx \<Rightarrow> pfilter \<Rightarrow> pfilter" where
  "compacted_filter core c f =
     f\<lparr>f_pick := map (\<lambda>n. compact_iri c (pn_iri n)) (policy_nodes core (f_pick f)),
       f_omit := map (\<lambda>n. compact_iri c (pn_iri n)) (policy_nodes core (f_omit f))\<rparr>"

definition policy_projected :: "proj_node list option \<Rightarrow> proj_node list option \<Rightarrow> string \<Rightarrow> bool" where
  "policy_projected pick omit k =
     ((case pick of None \<Rightarrow> True | Some ns \<Rightarrow> list_ex (\<lambda>n. pn_iri n = k \<or> pn_raw n = k) ns) \<and>
      (case omit of None \<Rightarrow> True | Some ns \<Rightarrow> \<not> list_ex (\<lambda>n. pn_iri n = k \<or> pn_raw n = k) ns))"

definition meta_projected :: "proj_node list option \<Rightarrow> proj_node list option \<Rightarrow> string \<Rightarrow> bool" where
  "meta_projected pick omit k =
     ((case pick of None \<Rightarrow> True | Some ns \<Rightarrow> list_ex (\<lambda>n. pn_raw n = k) ns) \<and>
      (case omit of None \<Rightarrow> True | Some ns \<Rightarrow> \<not> list_ex (\<lambda>n. pn_raw n = k \<and> pn_children n = None) ns))"

subsection \<open>The language filter\<close>

text \<open>A range is its weight, its position and its tag.  The sort is an insertion sort from the left, as \<open>sort_by\<close>
  runs on up to twenty elements; when no weight is a NaN the ranges are strictly ordered and every sort agrees.\<close>

type_synonym lang_range = "rust_float \<times> nat \<times> string"

definition q_weight :: "string list \<Rightarrow> rust_float" where
  "q_weight ps = (case List.map_filter (\<lambda>p. case strip_prefix ''q='' (trim p) of
       None \<Rightarrow> None
     | Some v \<Rightarrow> (case rust_f64 v of BadFloat \<Rightarrow> None | x \<Rightarrow> Some x)) ps of
     [] \<Rightarrow> Float (Fin 1) | x # _ \<Rightarrow> x)"

definition lang_range :: "nat \<times> string \<Rightarrow> lang_range option" where
  "lang_range ip = (case ip of (i, part) \<Rightarrow>
     (case split_on (\<lambda>ch. ch = CHR '';'') (trim part) of
        [] \<Rightarrow> None
      | h # ps \<Rightarrow> if trim h = [] then None else Some (q_weight ps, i, trim h)))"

text \<open>\<open>range_less a b\<close>: the comparator orders \<open>a\<close> before \<open>b\<close>.\<close>

fun range_less :: "lang_range \<Rightarrow> lang_range \<Rightarrow> bool" where
  "range_less (qa, i, ta) (qb, j, tb) = (case (qa, qb) of
     (Float x, Float y) \<Rightarrow> (if x = y then i < j else y < x)
   | _ \<Rightarrow> i < j)"

fun insert_tail :: "lang_range \<Rightarrow> lang_range list \<Rightarrow> lang_range list" where
  "insert_tail x [] = [x]"
| "insert_tail x (y # ys) = (if range_less x y then y # insert_tail x ys else x # y # ys)"

definition lang_ranges :: "string \<Rightarrow> lang_range list" where
  "lang_ranges l = (let ps = split_on comma l in
     rev (fold insert_tail (List.map_filter lang_range (zip [0..<length ps] ps)) []))"

definition eq_ignore_case :: "string \<Rightarrow> string \<Rightarrow> bool" where
  "eq_ignore_case a b \<longleftrightarrow> to_ascii_lowercase a = to_ascii_lowercase b"

definition exact_tag :: "jobj \<Rightarrow> string \<Rightarrow> (string \<times> json) option" where
  "exact_tag lm want = find (\<lambda>e. eq_ignore_case (fst e) want) lm"

definition longer_tag :: "jobj \<Rightarrow> string \<Rightarrow> (string \<times> json) option" where
  "longer_tag lm want = find (\<lambda>(k, v). length want < length k \<and> k ! length want = CHR ''-'' \<and> eq_ignore_case (take (length want) k) want) lm"

definition cut_last :: "string \<Rightarrow> string option" where
  "cut_last w = (if CHR ''-'' \<in> set w then Some (rev (tl (dropWhile (\<lambda>ch. ch \<noteq> CHR ''-'') (rev w)))) else None)"

lemma length_cut_last: "cut_last w = Some u \<Longrightarrow> length u < length w"
proof -
  assume a: "cut_last w = Some u"
  then have "w \<noteq> []" and u: "u = rev (tl (dropWhile (\<lambda>ch. ch \<noteq> CHR ''-'') (rev w)))"
    by (auto simp: cut_last_def split: if_split_asm)
  moreover have "length (dropWhile (\<lambda>ch. ch \<noteq> CHR ''-'') (rev w)) \<le> length w"
    using length_dropWhile_le [of _ "rev w"] by simp
  ultimately show ?thesis by (cases w) auto
qed

function shorter_tag :: "jobj \<Rightarrow> string \<Rightarrow> (string \<times> json) option" where
  "shorter_tag lm w = (case cut_last w of
     None \<Rightarrow> None
   | Some u \<Rightarrow> (case exact_tag lm u of Some e \<Rightarrow> Some e | None \<Rightarrow> shorter_tag lm u))"
  by pat_completeness auto
termination
  by (relation "measure (\<lambda>(lm, w). length w)") (auto dest: length_cut_last)

declare shorter_tag.simps [simp del]

definition not_acceptable :: "rust_float \<Rightarrow> bool" where
  "not_acceptable q = (case q of Float x \<Rightarrow> x \<le> Fin 0 | _ \<Rightarrow> False)"

definition tag_match :: "jobj \<Rightarrow> string \<Rightarrow> (string \<times> json) option" where
  "tag_match lm want = (case exact_tag lm want of
     Some e \<Rightarrow> Some e
   | None \<Rightarrow> (case longer_tag lm want of Some e \<Rightarrow> Some e | None \<Rightarrow> shorter_tag lm want))"

fun first_range :: "jobj \<Rightarrow> lang_range list \<Rightarrow> (string \<times> json) option" where
  "first_range lm [] = None"
| "first_range lm ((q, i, want) # rs) =
     (if not_acceptable q \<or> want = ''*'' then first_range lm rs
      else (case tag_match lm want of Some e \<Rightarrow> Some e | None \<Rightarrow> first_range lm rs))"

definition select_lang :: "jobj \<Rightarrow> string \<Rightarrow> (string \<times> json) option" where
  "select_lang lm l = (case first_range lm (lang_ranges l) of
     Some e \<Rightarrow> Some e
   | None \<Rightarrow> (case bm_get lm ''@none'' of
        Some v \<Rightarrow> Some (''@none'', v)
      | None \<Rightarrow> (case lm of [] \<Rightarrow> None | e # _ \<Rightarrow> Some e)))"

definition apply_lang :: "string \<Rightarrow> jobj \<Rightarrow> jobj" where
  "apply_lang l m =
     (if jget_str m ''type'' \<noteq> Some ''LanguageProperty'' then m
      else (case Option.bind (bm_get m ''languageMap'') as_object of
        None \<Rightarrow> m
      | Some lm \<Rightarrow> (case select_lang lm l of
          None \<Rightarrow> m
        | Some (t, v) \<Rightarrow> bm_insert ''lang'' (JStr t) (bm_insert ''value'' v
            (bm_insert ''type'' (JStr ''Property'') (bm_remove ''languageMap'' m))))))"

subsection \<open>Applying a representation\<close>

definition REPR_RESERVED :: "string list" where
  "REPR_RESERVED = [''type'', ''value'', ''object'', ''objectType'', ''datasetId'', ''observedAt'', ''unitCode'', ''lang'',
     ''languageMap'', ''vocab'', ''json'', ''valueList'', ''objectList'', ''createdAt'', ''modifiedAt'', ''deletedAt'',
     ''instanceId'', ''previousValue'', ''previousObject'', ''previousLanguageMap'', ''previousJson'', ''previousVocab'']"

definition first_member :: "string list \<Rightarrow> jobj \<Rightarrow> (string \<times> json) option" where
  "first_member ks m = (case List.map_filter (\<lambda>k. map_option (\<lambda>v. (k, v)) (bm_get m k)) ks of [] \<Rightarrow> None | e # _ \<Rightarrow> Some e)"

definition simplified_value :: "jobj \<Rightarrow> json" where
  "simplified_value m = (case first_member [''value'', ''object'', ''valueList'', ''objectList''] m of
     Some (_, v) \<Rightarrow> v
   | None \<Rightarrow> (case first_member [''languageMap'', ''json'', ''vocab''] m of
        Some (k, v) \<Rightarrow> mkobj [(k, v)]
      | None \<Rightarrow> JObj m))"

definition in_language :: "repr \<Rightarrow> jobj \<Rightarrow> jobj" where
  "in_language r m = (case r_lang r of None \<Rightarrow> m | Some l \<Rightarrow> apply_lang l m)"

definition SYS_STAMPS :: "string list" where
  "SYS_STAMPS = [''createdAt'', ''modifiedAt'', ''expiresAt'']"

definition keeps_member :: "repr \<Rightarrow> string \<Rightarrow> bool" where
  "keeps_member r k \<longleftrightarrow> (k \<in> set SYS_STAMPS \<longrightarrow> r_sys r) \<and> (k = ''type'' \<longrightarrow> \<not> r_concise r)"

definition bare_value :: "repr \<Rightarrow> jobj \<Rightarrow> json" where
  "bare_value r out = (if r_concise r \<and> length out = 1 then (case bm_get out ''value'' of Some v \<Rightarrow> v | None \<Rightarrow> JObj out) else JObj out)"

lemma apply_lang_members: "(k, v) \<in> set (apply_lang l m) \<Longrightarrow> (k, v) \<in> set m \<or> k \<in> {''lang'', ''value'', ''type''}"
  unfolding apply_lang_def
  by (auto split: if_split_asm option.split_asm dest!: set_bm_insert simp: bm_remove_def)

lemma in_language_members: "(k, v) \<in> set (in_language r m) \<Longrightarrow> k \<notin> set REPR_RESERVED \<Longrightarrow> (k, v) \<in> set m"
proof -
  assume a: "(k, v) \<in> set (in_language r m)" "k \<notin> set REPR_RESERVED"
  have "''lang'' \<in> set REPR_RESERVED" "''value'' \<in> set REPR_RESERVED" "''type'' \<in> set REPR_RESERVED"
    by (simp_all add: REPR_RESERVED_def)
  with a(2) have n: "k \<notin> {''lang'', ''value'', ''type''}" by blast
  show ?thesis
  proof (cases "r_lang r")
    case None
    with a(1) show ?thesis by (simp add: in_language_def)
  next
    case (Some l)
    with a(1) have "(k, v) \<in> set (apply_lang l m)" by (simp add: in_language_def)
    from apply_lang_members [OF this] n show ?thesis by blast
  qed
qed

lemma size_json_member: "(k, JArr xs) \<in> set m \<Longrightarrow> x \<in> set xs \<Longrightarrow> size x < size (JObj m)"
proof -
  assume a: "(k, JArr xs) \<in> set m" "x \<in> set xs"
  have "size (JArr xs) \<le> size_list (\<lambda>e. size (snd e)) m"
    using size_list_estimation' [OF a(1), of "size (JArr xs)" "\<lambda>e. size (snd e)"] by simp
  moreover have "size x < size (JArr xs)"
    using size_list_estimation' [OF a(2), of "size x" size] by simp
  moreover have "size_list (\<lambda>e. size (snd e)) m \<le> size_list (size_prod (\<lambda>_. 0) size) m"
    by (intro size_list_pointwise) (auto split: prod.splits)
  ultimately show ?thesis by simp
qed

lemma size_json_sub:
  "(k, JArr xs) \<in> set (in_language r m) \<Longrightarrow> k \<notin> set REPR_RESERVED \<Longrightarrow> x \<in> set xs \<Longrightarrow> size x < size (JObj m)"
  using size_json_member in_language_members by blast

function transform_instance :: "repr \<Rightarrow> json \<Rightarrow> json" where
  "transform_instance r inst = (case inst of
     JObj m \<Rightarrow>
       if r_key_values r then simplified_value (in_language r m)
       else bare_value r (map (\<lambda>(k, v). (k, if k \<in> set REPR_RESERVED then v
              else (case v of JArr xs \<Rightarrow> JArr (map (transform_instance r) xs) | _ \<Rightarrow> v)))
            (filter (\<lambda>e. keeps_member r (fst e)) (in_language r m)))
   | _ \<Rightarrow> inst)"
  by pat_completeness auto
termination
proof (relation "measure (\<lambda>(r, inst). size inst)", goal_cases)
  case 1
  then show ?case by (rule wf_measure)
next
  case (2 r inst m e k v xs x)
  then have "(k, JArr xs) \<in> set (in_language r m)" by simp
  from size_json_sub [OF this 2(5) 2(7)] 2(1) show ?case by simp
qed

declare transform_instance.simps [simp del]

definition keeps_instance :: "repr \<Rightarrow> json \<Rightarrow> bool" where
  "keeps_instance r inst = (case r_dataset r of
     None \<Rightarrow> True
   | Some want \<Rightarrow> (case jget inst ''datasetId'' of
        Some (JStr have) \<Rightarrow> have \<in> set want
      | None \<Rightarrow> ''@none'' \<in> set want
      | _ \<Rightarrow> False))"

definition attr_projected :: "repr \<Rightarrow> string \<Rightarrow> bool" where
  "attr_projected r k =
     ((case r_attrs r of None \<Rightarrow> True | Some keep \<Rightarrow> k \<in> set keep) \<and>
      (case r_pick r of None \<Rightarrow> True | Some ns \<Rightarrow> list_ex (\<lambda>n. pn_iri n = k) ns) \<and>
      (case r_omit r of None \<Rightarrow> True | Some ns \<Rightarrow> \<not> list_ex (\<lambda>n. pn_iri n = k \<and> pn_children n = None) ns) \<and>
      policy_projected (r_policy_pick r) (r_policy_omit r) k)"

definition dataset_key :: "json \<Rightarrow> string" where
  "dataset_key inst = (case Option.bind (jget inst ''datasetId'') as_str of None \<Rightarrow> ''@none'' | Some d \<Rightarrow> d)"

definition shape_attr :: "repr \<Rightarrow> json \<Rightarrow> json option" where
  "shape_attr r v =
     (let kept = filter (keeps_instance r) (case v of JArr xs \<Rightarrow> xs | _ \<Rightarrow> [v]); instances = map (transform_instance r) kept in
      if instances = [] then None
      else if \<not> r_key_values r then Some (JArr instances)
      else (case instances of
          [one] \<Rightarrow> Some one
        | _ \<Rightarrow> Some (mkobj [(''dataset'', mkobj (zip (map dataset_key kept) instances))])))"

definition meta_kept :: "repr \<Rightarrow> string \<Rightarrow> bool" where
  "meta_kept r k \<longleftrightarrow> (k \<in> set SYS_STAMPS \<longrightarrow> r_sys r) \<and> meta_projected (r_pick r) (r_omit r) k \<and> meta_projected None (r_policy_omit r) k"

definition shape_member :: "repr \<Rightarrow> string \<times> json \<Rightarrow> (string \<times> json) option" where
  "shape_member r e = (case e of (k, v) \<Rightarrow>
     if k \<in> set ENTITY_META_KEYS then (if meta_kept r k then Some (k, v) else None)
     else if \<not> attr_projected r k then None
     else map_option (\<lambda>w. (k, w)) (shape_attr r v))"

text \<open>\<open>apply\<close>; the members keep their order, so the result's map is the filtered one.\<close>

definition apply_repr :: "json \<Rightarrow> repr \<Rightarrow> json" where
  "apply_repr doc r = (case doc of JObj m \<Rightarrow> JObj (List.map_filter (shape_member r) m) | _ \<Rightarrow> doc)"

definition compact_for :: "repr \<Rightarrow> json \<Rightarrow> jctx \<Rightarrow> json" where
  "compact_for r shaped c = (if r_key_values r then compact_entity_shallow c shaped else compact_entity c shaped)"

definition joined_repr :: "repr \<Rightarrow> string \<Rightarrow> string \<Rightarrow> repr" where
  "joined_repr p kc ki = default_repr\<lparr>r_sys := r_sys p, r_key_values := r_key_values p, r_concise := r_concise p, r_lang := r_lang p,
     r_policy_pick := r_policy_pick p, r_policy_omit := r_policy_omit p,
     r_pick := Option.bind (r_pick p) (\<lambda>ns. Option.bind (find (\<lambda>n. pn_raw n = kc \<or> pn_iri n = ki) ns) pn_children),
     r_omit := Option.bind (r_omit p) (\<lambda>ns. Option.bind (find (\<lambda>n. (pn_raw n = kc \<or> pn_iri n = ki) \<and> pn_children n \<noteq> None) ns) pn_children)\<rparr>"

subsection \<open>GeoJSON\<close>

definition default_instance :: "json \<Rightarrow> json option" where
  "default_instance av = (case av of
     JArr a \<Rightarrow> (case find (\<lambda>i. jget i ''datasetId'' = None) a of
        Some d \<Rightarrow> Some d
      | None \<Rightarrow> (case a of [one] \<Rightarrow> Some one | _ \<Rightarrow> None))
   | _ \<Rightarrow> Some av)"

definition geo_value_of :: "json \<Rightarrow> json" where
  "geo_value_of av = (case default_instance av of
     None \<Rightarrow> JNull
   | Some inst \<Rightarrow>
      (let v0 = (case jget inst ''value'' of Some v \<Rightarrow> v | None \<Rightarrow> inst);
           v = (case v0 of
              JObj [(k, d)] \<Rightarrow> if k = ''dataset'' then (case jget d ''@none'' of Some x \<Rightarrow> x | None \<Rightarrow> JNull) else v0
            | _ \<Rightarrow> v0)
       in case validate_geojson ''geometry'' v of Ok _ \<Rightarrow> v | Err _ \<Rightarrow> JNull))"

definition to_geojson_feature :: "json \<Rightarrow> string option \<Rightarrow> json" where
  "to_geojson_feature entity gp =
     (let g = (case gp of None \<Rightarrow> ''location'' | Some t \<Rightarrow> t);
          geometry = (case jget entity g of None \<Rightarrow> JNull | Some a \<Rightarrow> geo_value_of a);
          i = (case jget entity ''id'' of None \<Rightarrow> JNull | Some v \<Rightarrow> v);
          props = bm_remove ''id'' (case as_object entity of None \<Rightarrow> [] | Some m \<Rightarrow> m)
      in mkobj [(''id'', i), (''type'', JStr ''Feature''), (''geometry'', geometry), (''properties'', JObj props)])"

definition to_geojson_collection :: "json list \<Rightarrow> string option \<Rightarrow> json" where
  "to_geojson_collection es gp = mkobj [(''type'', JStr ''FeatureCollection''), (''features'', JArr (map (\<lambda>e. to_geojson_feature e gp) es))]"

end
