(* ===== verification/Joins.thy ===== *)
theory Joins
  imports Repr
begin

text \<open>
  Linked Entity retrieval (\<open>antares-api/src/repr.rs\<close>, 4.5.23): the inline form embeds each target in the compacted
  document, the flattened form collects the targets.  \<open>get\<close> is the tenant's store; a walk keeps the entities
  already resolved, the lookups left and whether it left anything out.
\<close>

definition MAX_JOIN_LOOKUPS :: nat where "MAX_JOIN_LOOKUPS = 1000"

record join_walk =
  jw_seen :: "string set"
  jw_budget :: nat
  jw_complete :: bool

definition rooted :: "string option \<Rightarrow> string list \<Rightarrow> nat \<Rightarrow> join_walk" where
  "rooted rid known budget =
     \<lparr>jw_seen = set known \<union> (case rid of None \<Rightarrow> {} | Some i \<Rightarrow> {i}), jw_budget = budget, jw_complete = True\<rparr>"

subsection \<open>Inline\<close>

text \<open>\<open>J child id w\<close> looks a target up at the level the walk is on.\<close>

type_synonym joiner = "repr \<Rightarrow> string \<Rightarrow> join_walk \<Rightarrow> json option \<times> join_walk"

definition join_all :: "joiner \<Rightarrow> repr \<Rightarrow> string list \<Rightarrow> join_walk \<Rightarrow> json list \<times> join_walk" where
  "join_all J child ids w = (case thread (J child) ids w of (rs, w') \<Rightarrow> (List.map_filter id rs, w'))"

definition list_targets :: "json list \<Rightarrow> string list" where
  "list_targets ol = List.map_filter (\<lambda>e. case e of
       JStr i \<Rightarrow> Some i
     | JObj m \<Rightarrow> jget_str m ''object''
     | _ \<Rightarrow> None) ol"

definition object_targets :: "json option \<Rightarrow> string list option" where
  "object_targets v = (case v of
       Some (JStr i) \<Rightarrow> Some [i]
     | Some (JArr a) \<Rightarrow> Some (List.map_filter as_str a)
     | _ \<Rightarrow> None)"

definition join_instance :: "joiner \<Rightarrow> repr \<Rightarrow> jobj \<Rightarrow> join_walk \<Rightarrow> jobj \<times> join_walk" where
  "join_instance J child m w = (case bm_get m ''objectList'' of
     Some (JArr ol) \<Rightarrow> (case join_all J child (list_targets ol) w of (joined, w') \<Rightarrow>
       (if joined = [] then m else bm_insert ''entityList'' (JArr joined) m, w'))
   | _ \<Rightarrow> (case object_targets (bm_get m ''object'') of
       None \<Rightarrow> (m, w)
     | Some ids \<Rightarrow> (case join_all J child ids w of (joined, w') \<Rightarrow>
         ((case joined of [] \<Rightarrow> m | [e] \<Rightarrow> bm_insert ''entity'' e m | _ \<Rightarrow> bm_insert ''entity'' (JArr joined) m), w'))))"

fun inline_value :: "joiner \<Rightarrow> repr \<Rightarrow> repr \<Rightarrow> json \<Rightarrow> join_walk \<Rightarrow> json \<times> join_walk" where
  "inline_value J r child (JArr items) w = (case thread (inline_value J r child) items w of (ys, w') \<Rightarrow> (JArr ys, w'))"
| "inline_value J r child (JObj m) w =
     (if r_key_values r then (JObj m, w) else (case join_instance J child m w of (m', w') \<Rightarrow> (JObj m', w')))"
| "inline_value J r child (JStr i) w =
     (if r_key_values r then (case J child i w of (Some j, w') \<Rightarrow> (j, w') | (None, w') \<Rightarrow> (JStr i, w')) else (JStr i, w))"
| "inline_value J r child v w = (v, w)"

definition JOIN_METAS :: "string list" where
  "JOIN_METAS = [''id'', ''type'', ''scope'', ''createdAt'', ''modifiedAt'', ''@context'']"

definition inline_walk :: "joiner \<Rightarrow> jctx \<Rightarrow> repr \<Rightarrow> json \<Rightarrow> join_walk \<Rightarrow> json \<times> join_walk" where
  "inline_walk J c r doc w = (case doc of
     JObj m \<Rightarrow> (case thread (\<lambda>(k, v) w.
         if k \<in> set JOIN_METAS then ((k, v), w)
         else (case inline_value J r (joined_repr r k (expand_key c k)) v w of (v', w') \<Rightarrow> ((k, v'), w'))) m w of
       (m', w') \<Rightarrow> (JObj m', w'))
   | _ \<Rightarrow> (doc, w))"

text \<open>\<open>lookup_joined\<close> with \<open>lv\<close> levels below the target's own (\<open>level - 1\<close>).\<close>

primrec lookup_joined :: "(string \<Rightarrow> json option) \<Rightarrow> jctx \<Rightarrow> nat \<Rightarrow> joiner" where
  "lookup_joined get c 0 child i w =
     (if jw_budget w = 0 then (None, w\<lparr>jw_complete := False\<rparr>)
      else (case get i of
        None \<Rightarrow> (None, w\<lparr>jw_budget := jw_budget w - 1\<rparr>)
      | Some t \<Rightarrow> (Some (compact_for child (apply_repr t child) c), w\<lparr>jw_budget := jw_budget w - 1\<rparr>)))"
| "lookup_joined get c (Suc lv) child i w =
     (if jw_budget w = 0 then (None, w\<lparr>jw_complete := False\<rparr>)
      else (let w = w\<lparr>jw_budget := jw_budget w - 1\<rparr> in case get i of
        None \<Rightarrow> (None, w)
      | Some t \<Rightarrow> (let d = compact_for child (apply_repr t child) c in
          if i \<notin> jw_seen w
          then (case inline_walk (lookup_joined get c lv) c child d (w\<lparr>jw_seen := insert i (jw_seen w)\<rparr>) of (d', w') \<Rightarrow> (Some d', w'))
          else (Some d, w\<lparr>jw_complete := False\<rparr>))))"

definition inline_join_beyond :: "(string \<Rightarrow> json option) \<Rightarrow> jctx \<Rightarrow> repr \<Rightarrow> json \<Rightarrow> nat \<Rightarrow> string list \<Rightarrow> nat \<Rightarrow> json \<times> nat \<times> bool" where
  "inline_join_beyond get c r doc level known budget =
     (case inline_walk (lookup_joined get c (level - 1)) c r doc (rooted (Option.bind (jget doc ''id'') as_str) known budget) of
        (doc', w) \<Rightarrow> (doc', jw_budget w, jw_complete w))"

definition inline_join :: "(string \<Rightarrow> json option) \<Rightarrow> jctx \<Rightarrow> repr \<Rightarrow> json \<Rightarrow> nat \<Rightarrow> json \<times> bool" where
  "inline_join get c r doc level = (case inline_join_beyond get c r doc level [] MAX_JOIN_LOOKUPS of (d, _, ok) \<Rightarrow> (d, ok))"

subsection \<open>Flattened\<close>

definition link_visible :: "repr \<Rightarrow> string \<Rightarrow> bool" where
  "link_visible r k \<longleftrightarrow>
     \<not> is_meta k \<and>
     (case r_pick r of None \<Rightarrow> True | Some ns \<Rightarrow> list_ex (\<lambda>n. pn_iri n = k \<or> pn_raw n = k) ns) \<and>
     (case r_omit r of None \<Rightarrow> True | Some ns \<Rightarrow> \<not> list_ex (\<lambda>n. (pn_iri n = k \<or> pn_raw n = k) \<and> pn_children n = None) ns) \<and>
     policy_projected (r_policy_pick r) (r_policy_omit r) k"

definition instance_targets :: "json \<Rightarrow> string list" where
  "instance_targets inst = (case (jget inst ''object'', jget inst ''objectList'') of
       (Some (JStr i), _) \<Rightarrow> [i]
     | (Some (JArr a), _) \<Rightarrow> List.map_filter as_str a
     | (None, Some (JArr a)) \<Rightarrow> List.map_filter as_str a
     | _ \<Rightarrow> [])"

definition member_links :: "repr \<Rightarrow> string \<Rightarrow> json \<Rightarrow> (repr \<times> string) list" where
  "member_links r k v = (case v of
     JArr insts \<Rightarrow> map (\<lambda>i. (joined_repr r k k, i)) (concat (map instance_targets insts))
   | _ \<Rightarrow> [])"

text \<open>The targets of one document in the order the loops reach them, each with its child representation.\<close>

definition flat_links :: "repr \<Rightarrow> json \<Rightarrow> (repr \<times> string) list" where
  "flat_links r doc = (case doc of
     JObj m \<Rightarrow> concat (map (\<lambda>(k, v).
         if link_visible r k then member_links r k v else []) m)
   | _ \<Rightarrow> [])"

type_synonym flat_out = "(json \<times> repr) bmap"

definition spend :: "join_walk \<Rightarrow> join_walk" where
  "spend w = w\<lparr>jw_budget := jw_budget w - 1\<rparr>"

definition collect_target :: "repr \<Rightarrow> string \<Rightarrow> json \<Rightarrow> flat_out \<times> join_walk \<Rightarrow> flat_out \<times> join_walk" where
  "collect_target child i t s = (case s of (out, w) \<Rightarrow> (bm_insert i (t, child) out, w\<lparr>jw_seen := insert i (jw_seen w)\<rparr>))"

function flat_walk :: "(string \<Rightarrow> json option) \<Rightarrow> nat \<Rightarrow> (repr \<times> string) list \<Rightarrow> flat_out \<times> join_walk \<Rightarrow> flat_out \<times> join_walk" where
  "flat_walk get level [] s = s"
| "flat_walk get level ((child, i) # ls) (out, w) =
     (if i \<in> jw_seen w then flat_walk get level ls (out, w)
      else if jw_budget w = 0 then (out, w\<lparr>jw_complete := False\<rparr>)
      else (case get i of
          None \<Rightarrow> flat_walk get level ls (out, spend w)
        | Some t \<Rightarrow> flat_walk get level ls
            (if 1 < level then flat_walk get (level - 1) (flat_links child t) (collect_target child i t (out, spend w))
             else collect_target child i t (out, spend w))))"
  by pat_completeness auto
termination
  by (relation "measures [\<lambda>(get, level, ls, s). level, \<lambda>(get, level, ls, s). length ls]") auto

declare flat_walk.simps [simp del]

definition collect_flat_beyond :: "(string \<Rightarrow> json option) \<Rightarrow> repr \<Rightarrow> json \<Rightarrow> nat \<Rightarrow> flat_out \<Rightarrow> string list \<Rightarrow> nat \<Rightarrow> flat_out \<times> nat \<times> bool" where
  "collect_flat_beyond get r doc level out known budget =
     (let w = rooted (Option.bind (jget doc ''id'') as_str) known budget in
      case flat_walk get level (flat_links r doc) (out, w\<lparr>jw_seen := jw_seen w \<union> fst ` set out\<rparr>) of
        (out', w') \<Rightarrow> (out', jw_budget w', jw_complete w'))"

definition collect_flat :: "(string \<Rightarrow> json option) \<Rightarrow> repr \<Rightarrow> json \<Rightarrow> nat \<Rightarrow> flat_out \<Rightarrow> flat_out \<times> bool" where
  "collect_flat get r doc level out = (case collect_flat_beyond get r doc level out [] MAX_JOIN_LOOKUPS of (o', _, ok) \<Rightarrow> (o', ok))"

subsection \<open>What a policy hides stays hidden\<close>

definition policy_hides :: "repr \<Rightarrow> string \<Rightarrow> bool" where
  "policy_hides r k \<longleftrightarrow> k \<notin> set ENTITY_META_KEYS \<and> \<not> policy_projected (r_policy_pick r) (r_policy_omit r) k"

definition same_policy :: "repr \<Rightarrow> repr \<Rightarrow> bool" where
  "same_policy r s \<longleftrightarrow> r_policy_pick s = r_policy_pick r \<and> r_policy_omit s = r_policy_omit r"

lemma same_policy_joined [simp]: "same_policy r (joined_repr s k i) = same_policy r s"
  by (simp add: same_policy_def joined_repr_def)

lemma same_policy_refl [simp]: "same_policy r r"
  by (simp add: same_policy_def)

lemma hidden_member: "policy_hides r k \<Longrightarrow> same_policy r s \<Longrightarrow> shape_member s (k, v) = None"
  by (simp add: policy_hides_def same_policy_def shape_member_def attr_projected_def)

lemma shape_member_key: "shape_member s e = Some e' \<Longrightarrow> fst e' = fst e"
  by (auto simp: shape_member_def split: prod.split_asm if_split_asm)

lemma apply_hides:
  assumes "policy_hides r k" "same_policy r s"
  shows "jget (apply_repr doc s) k = None"
proof (cases doc)
  case (JObj m)
  have "k \<notin> fst ` set (List.map_filter (shape_member s) m)"
  proof
    assume "k \<in> fst ` set (List.map_filter (shape_member s) m)"
    then obtain e e' where e: "e \<in> set m" "shape_member s e = Some e'" "fst e' = k" by (auto simp: set_map_filter)
    with shape_member_key have "fst e = k" by metis
    with e hidden_member [OF assms, of "snd e"] show False by (metis option.distinct(1) prod.collapse)
  qed
  with JObj show ?thesis by (simp add: apply_repr_def bm_get_None_iff)
qed (simp_all add: apply_repr_def)

text \<open>A hop over a member the policy shows, and the entities such hops reach through the store.\<close>

definition policy_hop :: "repr \<Rightarrow> json \<Rightarrow> string \<Rightarrow> bool" where
  "policy_hop r doc i \<longleftrightarrow> (\<exists>m k insts inst. doc = JObj m \<and> (k, JArr insts) \<in> set m \<and> inst \<in> set insts \<and>
     i \<in> set (instance_targets inst) \<and> \<not> is_meta k \<and> policy_projected (r_policy_pick r) (r_policy_omit r) k)"

inductive policy_path :: "(string \<Rightarrow> json option) \<Rightarrow> repr \<Rightarrow> json \<Rightarrow> string \<Rightarrow> bool" for get r doc where
  hop: "policy_hop r doc i \<Longrightarrow> policy_path get r doc i"
| more: "policy_path get r doc i \<Longrightarrow> get i = Some t \<Longrightarrow> policy_hop r t j \<Longrightarrow> policy_path get r doc j"

lemma flat_links_object: "l \<in> set (flat_links s doc) \<Longrightarrow> (\<And>m. doc = JObj m \<Longrightarrow> thesis) \<Longrightarrow> thesis"
  by (cases doc) (simp_all add: flat_links_def)

lemma link_is_hop:
  assumes "(child, i) \<in> set (flat_links s doc)" "same_policy r s"
  shows "same_policy r child \<and> policy_hop r doc i"
proof -
  from assms(1) obtain m where doc: "doc = JObj m" by (rule flat_links_object)
  from assms(1) obtain k v where k: "(k, v) \<in> set m" "link_visible s k" and l: "(child, i) \<in> set (member_links s k v)"
    unfolding doc flat_links_def by (auto split: if_split_asm)
  from l obtain insts where v: "v = JArr insts" and i: "i \<in> set (concat (map instance_targets insts))"
      and child: "child = joined_repr s k k"
    by (cases v) (auto simp: member_links_def)
  from k(2) assms(2) have "\<not> is_meta k" "policy_projected (r_policy_pick r) (r_policy_omit r) k"
    by (auto simp: link_visible_def same_policy_def)
  moreover from i obtain inst where "inst \<in> set insts" "i \<in> set (instance_targets inst)" by auto
  ultimately show ?thesis using doc k(1) v child assms(2) unfolding policy_hop_def by auto
qed

text \<open>The invariant of the walk: what is collected, and the links still ahead.\<close>

definition collected_ok :: "(string \<Rightarrow> json option) \<Rightarrow> repr \<Rightarrow> json \<Rightarrow> flat_out \<Rightarrow> bool" where
  "collected_ok get r doc out \<longleftrightarrow>
     (\<forall>i t child. bm_get out i = Some (t, child) \<longrightarrow> get i = Some t \<and> same_policy r child \<and> policy_path get r doc i)"

definition links_ok :: "(string \<Rightarrow> json option) \<Rightarrow> repr \<Rightarrow> json \<Rightarrow> (repr \<times> string) list \<Rightarrow> bool" where
  "links_ok get r doc ls \<longleftrightarrow> (\<forall>(child, i)\<in>set ls. same_policy r child \<and> policy_path get r doc i)"

lemma links_ok_below:
  "same_policy r child \<Longrightarrow> policy_path get r doc i \<Longrightarrow> get i = Some t \<Longrightarrow> links_ok get r doc (flat_links child t)"
  unfolding links_ok_def using link_is_hop policy_path.more by fast

lemma links_ok_root: "links_ok get r doc (flat_links r doc)"
  unfolding links_ok_def using link_is_hop policy_path.hop by fastforce

text \<open>An invariant \<open>P\<close> of the walk's state, given what the links ahead satisfy.\<close>

lemma flat_walk_rule:
  assumes miss: "\<And>out w. P (out, w) \<Longrightarrow> P (out, spend w)"
    and dry: "\<And>out w. P (out, w) \<Longrightarrow> P (out, w\<lparr>jw_complete := False\<rparr>)"
    and hit: "\<And>child i t out w. Q (child, i) \<Longrightarrow> P (out, w) \<Longrightarrow> i \<notin> jw_seen w \<Longrightarrow> jw_budget w \<noteq> 0 \<Longrightarrow> get i = Some t \<Longrightarrow>
      P (collect_target child i t (out, spend w)) \<and> (\<forall>l\<in>set (flat_links child t). Q l)"
  shows "P s \<Longrightarrow> \<forall>l\<in>set ls. Q l \<Longrightarrow> P (flat_walk get level ls s)"
proof -
  have "g = get \<longrightarrow> P s \<longrightarrow> (\<forall>l\<in>set ls. Q l) \<longrightarrow> P (flat_walk g level ls s)" for g
  proof (induction g level ls s rule: flat_walk.induct)
    case (1 g level s)
    then show ?case by (simp add: flat_walk.simps)
  next
    case (2 g level child i ls out w)
    note IH = 2
    show ?case
    proof (intro impI)
      assume g: "g = get" and P: "P (out, w)" and ls: "\<forall>l\<in>set ((child, i) # ls). Q l"
      then have rest: "\<forall>l\<in>set ls. Q l" by simp
      consider "i \<in> jw_seen w" | "i \<notin> jw_seen w" "jw_budget w = 0" | "i \<notin> jw_seen w" "jw_budget w \<noteq> 0" "g i = None"
        | t where "i \<notin> jw_seen w" "jw_budget w \<noteq> 0" "g i = Some t" by (cases "g i") auto
      then show "P (flat_walk g level ((child, i) # ls) (out, w))"
      proof cases
        case 1
        with IH(1) g P rest show ?thesis by (simp add: flat_walk.simps)
      next
        case 2
        with dry [OF P] show ?thesis by (simp add: flat_walk.simps)
      next
        case 3
        with IH(2) g miss [OF P] rest show ?thesis by (simp add: flat_walk.simps)
      next
        case (4 t)
        let ?s = "collect_target child i t (out, spend w)"
        from ls have "Q (child, i)" by simp
        from hit [OF this P 4(1,2)] 4(3) g have s: "P ?s" and below: "\<forall>l\<in>set (flat_links child t). Q l" by auto
        have "P (if 1 < level then flat_walk g (level - 1) (flat_links child t) ?s else ?s)"
          using IH(3) [OF 4] s below g by simp
        with IH(4) [OF 4] g rest have "P (flat_walk g level ls (if 1 < level then flat_walk g (level - 1) (flat_links child t) ?s else ?s))"
          by blast
        then show ?thesis by (simp only: flat_walk.simps 4 if_False option.case)
      qed
    qed
  qed
  then show "P s \<Longrightarrow> \<forall>l\<in>set ls. Q l \<Longrightarrow> P (flat_walk get level ls s)" by blast
qed

lemma flat_walk_ok:
  "collected_ok get r doc (fst s) \<Longrightarrow> links_ok get r doc ls \<Longrightarrow> collected_ok get r doc (fst (flat_walk get level ls s))"
proof (rule flat_walk_rule [where P = "\<lambda>s. collected_ok get r doc (fst s)"
    and Q = "\<lambda>(child, i). same_policy r child \<and> policy_path get r doc i"], goal_cases)
  case (3 child i t out w)
  then show ?case
    using links_ok_below [of r child get doc i t]
    by (auto simp: collect_target_def collected_ok_def links_ok_def)
qed (auto simp: links_ok_def)

lemma length_bm_insert: "length (bm_insert k v m) \<le> Suc (length m)"
  by (induction k v m rule: bm_insert.induct) auto

lemma flat_walk_bound:
  "length (fst s) + jw_budget (snd s) \<le> n \<Longrightarrow>
     length (fst (flat_walk get level ls s)) + jw_budget (snd (flat_walk get level ls s)) \<le> n"
proof (rule flat_walk_rule [where P = "\<lambda>s. length (fst s) + jw_budget (snd s) \<le> n" and Q = "\<lambda>_. True"], goal_cases)
  case (3 child i t out w)
  then show ?case
    using length_bm_insert [of i "(t, child)" out] by (simp add: collect_target_def spend_def)
qed (auto simp: spend_def)

lemma flat_walk_seen:
  "j \<in> jw_seen (snd s) \<and> bm_get (fst s) j = None \<Longrightarrow>
     j \<in> jw_seen (snd (flat_walk get level ls s)) \<and> bm_get (fst (flat_walk get level ls s)) j = None"
  by (rule flat_walk_rule [where P = "\<lambda>s. j \<in> jw_seen (snd s) \<and> bm_get (fst s) j = None" and Q = "\<lambda>_. True"])
    (auto simp: collect_target_def spend_def)

lemma collect_flat_walk:
  assumes "collect_flat get r doc level [] = (out, ok)"
  obtains w where "flat_walk get level (flat_links r doc) ([], rooted (Option.bind (jget doc ''id'') as_str) [] MAX_JOIN_LOOKUPS) = (out, w)"
    and "ok = jw_complete w"
  using assms unfolding collect_flat_def collect_flat_beyond_def by (auto simp: Let_def split: prod.split_asm)

lemma collected_sound:
  assumes "collect_flat get r doc level [] = (out, ok)" "bm_get out i = Some (t, child)"
  shows "get i = Some t \<and> policy_path get r doc i \<and> same_policy r child"
proof -
  from assms(1) obtain w where w: "flat_walk get level (flat_links r doc) ([], rooted (Option.bind (jget doc ''id'') as_str) [] MAX_JOIN_LOOKUPS) = (out, w)"
    by (rule collect_flat_walk)
  have "collected_ok get r doc []" by (simp add: collected_ok_def)
  with flat_walk_ok [of get r doc "([], _)", OF _ links_ok_root] w have "collected_ok get r doc out" by (metis fst_conv)
  with assms(2) show ?thesis by (auto simp: collected_ok_def)
qed

lemma collected_bounded:
  assumes "collect_flat get r doc level [] = (out, ok)"
  shows "length out \<le> MAX_JOIN_LOOKUPS"
proof -
  from assms obtain w where w: "flat_walk get level (flat_links r doc) ([], rooted (Option.bind (jget doc ''id'') as_str) [] MAX_JOIN_LOOKUPS) = (out, w)"
    by (rule collect_flat_walk)
  from flat_walk_bound [of "([], rooted (Option.bind (jget doc ''id'') as_str) [] MAX_JOIN_LOOKUPS)" MAX_JOIN_LOOKUPS get level "flat_links r doc"] w
  show ?thesis by (simp add: rooted_def)
qed

lemma collected_not_root:
  assumes "collect_flat get r doc level [] = (out, ok)" "jget doc ''id'' = Some (JStr i)"
  shows "bm_get out i = None"
proof -
  from assms(1) obtain w where w: "flat_walk get level (flat_links r doc) ([], rooted (Option.bind (jget doc ''id'') as_str) [] MAX_JOIN_LOOKUPS) = (out, w)"
    by (rule collect_flat_walk)
  from flat_walk_seen [of i "([], rooted (Option.bind (jget doc ''id'') as_str) [] MAX_JOIN_LOOKUPS)" get level "flat_links r doc"] w assms(2)
  show ?thesis by (simp add: rooted_def)
qed

end
