(* ===== verification/Caches.thy ===== *)
theory Caches
  imports BMap QParser
begin

text \<open>
  The bounded caches: the browser build's FIFO cache (\<open>antares-jsonld/src/minicache.rs\<close>) and the
  process-wide caches of compiled patterns and parsed queries (\<open>antares-ql/src/regex.rs\<close>).  The locale
  \<open>memo\<close> is what a client relies on: a cache of \<open>f\<close> only ever hands out values of \<open>f\<close>.  Compiling a pattern
  is outside the source: \<open>build p limit\<close> is the builder's answer.  The pattern cache is read under one lock
  and written under another, so a read and a write are separate steps and may interleave; the use stamps
  are naturals (the source's 64-bit counter would mis-order one eviction after \<open>2 ^ 64\<close> hand-outs).
\<close>

subsection \<open>The interface of a memo table\<close>

definition coherent :: "('c \<Rightarrow> string \<Rightarrow> 'v option) \<Rightarrow> (string \<Rightarrow> 'v option) \<Rightarrow> 'c \<Rightarrow> bool" where
  "coherent held f c \<longleftrightarrow> (\<forall>k v. held c k = Some v \<longrightarrow> f k = Some v)"

locale memo =
  fixes held :: "'c \<Rightarrow> string \<Rightarrow> 'v option"
    and used :: "string \<Rightarrow> 'c \<Rightarrow> 'c"
    and keep :: "string \<Rightarrow> 'v \<Rightarrow> 'c \<Rightarrow> 'c"
    and good :: "'c \<Rightarrow> bool"
  assumes good_used: "good c \<Longrightarrow> good (used k c)"
    and good_keep: "good c \<Longrightarrow> good (keep k v c)"
    and held_used: "good c \<Longrightarrow> held (used k c) j = Some v \<Longrightarrow> held c j = Some v"
    and held_keep: "good c \<Longrightarrow> held (keep k w c) j = Some v \<Longrightarrow> (j = k \<and> v = w) \<or> held c j = Some v"
begin

lemma coherent_used: "good c \<Longrightarrow> coherent held f c \<Longrightarrow> coherent held f (used k c)"
  unfolding coherent_def using held_used by blast

lemma coherent_keep: "good c \<Longrightarrow> coherent held f c \<Longrightarrow> f k = Some v \<Longrightarrow> coherent held f (keep k v c)"
  unfolding coherent_def using held_keep by metis

lemma coherent_hit: "coherent held f c \<Longrightarrow> held c k = Some v \<Longrightarrow> f k = Some v"
  by (simp add: coherent_def)

lemma coherent_miss: "coherent held f c \<Longrightarrow> f k = None \<Longrightarrow> held c k = None"
  by (metis coherent_def not_Some_eq)

end

subsection \<open>The FIFO cache\<close>

record 'v minicache =
  mc_cap :: nat
  mc_map :: "'v bmap"
  mc_order :: "string list"

definition mc_new :: "nat \<Rightarrow> 'v minicache" where
  "mc_new cap = \<lparr>mc_cap = cap, mc_map = [], mc_order = []\<rparr>"

definition mc_get :: "'v minicache \<Rightarrow> string \<Rightarrow> 'v option" where
  "mc_get c k = bm_get (mc_map c) k"

fun mc_space :: "nat \<Rightarrow> 'v bmap \<Rightarrow> string list \<Rightarrow> 'v bmap \<times> string list" where
  "mc_space cap m [] = (m, [])"
| "mc_space cap m (old # q) = (if cap \<le> length m then mc_space cap (bm_remove old m) q else (m, old # q))"

definition mc_insert :: "string \<Rightarrow> 'v \<Rightarrow> 'v minicache \<Rightarrow> 'v minicache" where
  "mc_insert k v c =
     (if mc_cap c = 0 then c
      else if bm_contains (mc_map c) k then c\<lparr>mc_map := bm_insert k v (mc_map c)\<rparr>
      else (case mc_space (mc_cap c) (mc_map c) (mc_order c) of
              (m, q) \<Rightarrow> c\<lparr>mc_map := bm_insert k v m, mc_order := q @ [k]\<rparr>))"

definition mc_invalidate :: "string \<Rightarrow> 'v minicache \<Rightarrow> 'v minicache" where
  "mc_invalidate k c = (let m = bm_remove k (mc_map c) in
     c\<lparr>mc_map := m, mc_order := filter (bm_contains m) (mc_order c)\<rparr>)"

definition mc_invalidate_all :: "'v minicache \<Rightarrow> 'v minicache" where
  "mc_invalidate_all c = c\<lparr>mc_map := [], mc_order := []\<rparr>"

definition mc_entries :: "'v minicache \<Rightarrow> (string \<times> 'v) list" where
  "mc_entries c = mc_map c"

definition mc_entry_count :: "'v minicache \<Rightarrow> nat" where
  "mc_entry_count c = length (mc_map c)"

text \<open>The queue holds each resident key once.\<close>

definition mc_ok :: "'v minicache \<Rightarrow> bool" where
  "mc_ok c \<longleftrightarrow> bm_ok (mc_map c) \<and> distinct (mc_order c) \<and> set (mc_order c) = fst ` set (mc_map c)
     \<and> length (mc_map c) \<le> mc_cap c"

lemma keys_bm_remove: "fst ` set (bm_remove k m) = fst ` set m - {k}"
  by (auto simp: bm_remove_def)

lemma length_keys: "bm_ok m \<Longrightarrow> length m = card (fst ` set m)"
  using distinct_card [of "map fst m"] by (simp add: bm_distinct)

lemma mc_space_ok:
  assumes "bm_ok m" "distinct q" "set q = fst ` set m" "0 < cap" "mc_space cap m q = (m', q')"
  shows "bm_ok m' \<and> distinct q' \<and> set q' = fst ` set m' \<and> length m' < cap \<and>
    (\<forall>k v. bm_get m' k = Some v \<longrightarrow> bm_get m k = Some v) \<and> (\<exists>p. q = p @ q')"
  using assms
proof (induction cap m q rule: mc_space.induct)
  case (1 cap m)
  then show ?case by simp
next
  case (2 cap m old q)
  show ?case
  proof (cases "cap \<le> length m")
    case True
    have "bm_ok (bm_remove old m)" "distinct q" "set q = fst ` set (bm_remove old m)"
      using "2.prems"(1-3) by (auto simp: bm_remove_ok keys_bm_remove)
    with 2 True have IH: "bm_ok m' \<and> distinct q' \<and> set q' = fst ` set m' \<and> length m' < cap \<and>
      (\<forall>k v. bm_get m' k = Some v \<longrightarrow> bm_get (bm_remove old m) k = Some v) \<and> (\<exists>p. q = p @ q')" by simp
    then have "\<exists>p. old # q = p @ q'" by (metis append_Cons)
    moreover have "\<forall>k v. bm_get m' k = Some v \<longrightarrow> bm_get m k = Some v" using IH by (metis bm_get_remove option.distinct(1))
    ultimately show ?thesis using IH by blast
  next
    case False
    then have "m' = m" "q' = old # q" using "2.prems"(5) by simp_all
    then show ?thesis using "2.prems"(1-3) False by (simp add: exI [of _ "[]"])
  qed
qed

lemma mc_insert_ok: "mc_ok c \<Longrightarrow> mc_ok (mc_insert k v c)"
proof -
  assume ok: "mc_ok c"
  consider "mc_cap c = 0" | "0 < mc_cap c" "bm_contains (mc_map c) k" | "0 < mc_cap c" "\<not> bm_contains (mc_map c) k" by blast
  then show ?thesis
  proof cases
    case 1
    with ok show ?thesis by (simp add: mc_insert_def)
  next
    case 2
    then have k: "k \<in> fst ` set (mc_map c)" by (metis bm_contains_def bm_get_None_iff)
    have "fst ` set (bm_insert k v (mc_map c)) = fst ` set (mc_map c)" using k by (auto simp: set_fst_bm_insert)
    moreover have "bm_ok (bm_insert k v (mc_map c))" using ok by (simp add: mc_ok_def bm_insert_ok)
    ultimately show ?thesis
      using 2 ok length_keys [of "mc_map c"] length_keys [of "bm_insert k v (mc_map c)"] by (simp add: mc_insert_def mc_ok_def)
  next
    case 3
    obtain m q where mq: "mc_space (mc_cap c) (mc_map c) (mc_order c) = (m, q)" by fastforce
    have s: "bm_ok m" "distinct q" "set q = fst ` set m" "length m < mc_cap c"
      "\<forall>k v. bm_get m k = Some v \<longrightarrow> bm_get (mc_map c) k = Some v"
      using mc_space_ok [OF _ _ _ 3(1) mq] ok by (auto simp: mc_ok_def)
    have k: "k \<notin> fst ` set m"
      using s(5) 3(2) by (metis bm_contains_def bm_get_None_iff not_None_eq)
    have "length (bm_insert k v m) = Suc (length m)"
      using length_keys [OF s(1)] length_keys [OF bm_insert_ok [OF s(1)], of k v] k by (simp add: set_fst_bm_insert)
    with s k 3 mq show ?thesis by (simp add: mc_insert_def mc_ok_def bm_insert_ok set_fst_bm_insert)
  qed
qed

lemma mc_invalidate_ok: "mc_ok c \<Longrightarrow> mc_ok (mc_invalidate k c)"
proof -
  assume ok: "mc_ok c"
  let ?m = "bm_remove k (mc_map c)"
  have in_m: "bm_contains ?m j \<longleftrightarrow> j \<in> fst ` set ?m" for j by (simp only: bm_contains_def bm_get_None_iff not_not)
  have "set (filter (bm_contains ?m) (mc_order c)) = fst ` set ?m"
    using ok by (auto simp: in_m keys_bm_remove mc_ok_def simp del: bm_get_remove)
  moreover have "length ?m \<le> length (mc_map c)" by (simp add: bm_remove_def)
  ultimately show ?thesis using ok by (simp add: mc_invalidate_def Let_def mc_ok_def bm_remove_ok)
qed

lemma mc_new_ok: "mc_ok (mc_new cap)"
  by (simp add: mc_ok_def mc_new_def)

lemma mc_get_insert: "mc_ok c \<Longrightarrow> 0 < mc_cap c \<Longrightarrow> mc_get (mc_insert k v c) k = Some v"
  by (simp add: mc_get_def mc_insert_def split: prod.split)

lemma mc_space_sub: "mc_space cap m q = (m', q') \<Longrightarrow> bm_get m' k = Some v \<Longrightarrow> bm_get m k = Some v"
  by (induction cap m q rule: mc_space.induct) (auto split: if_splits)

interpretation fifo: memo mc_get "\<lambda>k c. c" mc_insert mc_ok
proof (unfold_locales; (simp add: mc_insert_ok)?)
  show "mc_get (mc_insert k w c) j = Some v \<Longrightarrow> j = k \<and> v = w \<or> mc_get c j = Some v" for k w and c :: "'v minicache" and j v
    by (auto simp: mc_get_def mc_insert_def split: if_splits prod.splits dest: mc_space_sub)
qed


text \<open>What a client sees of a sequence of calls: the residents are the most recently first-inserted keys.\<close>

lemma mc_order_suffix: "\<exists>p q'. mc_order c = p @ q' \<and> (mc_order (mc_insert k v c) = q' @ [k] \<or> mc_order (mc_insert k v c) = q')"
proof -
  have "mc_space cap m q = (m', q') \<Longrightarrow> \<exists>p. q = p @ q'" for cap q q' and m m' :: "'a bmap"
  proof (induction cap m q rule: mc_space.induct)
    case (1 cap m)
    then show ?case by simp
  next
    case (2 cap m old q)
    then show ?case by (cases "cap \<le> length m") (simp_all, metis append_Cons)
  qed
  then show ?thesis by (auto simp: mc_insert_def split: prod.split) blast+
qed

subsection \<open>Entries with use stamps\<close>

definition MAX_REGEX_PROGRAM_BYTES :: nat where "MAX_REGEX_PROGRAM_BYTES = 256 * 1024"
definition MAX_REGEX_CACHE :: nat where "MAX_REGEX_CACHE = 1024"
definition MAX_REGEX_CACHE_BYTES :: nat where "MAX_REGEX_CACHE_BYTES = 64 * 1024 * 1024"
definition PROGRAM_TIER_BYTES :: nat where "PROGRAM_TIER_BYTES = 32 * 1024"

lemmas regex_limits = MAX_REGEX_PROGRAM_BYTES_def MAX_REGEX_CACHE_def MAX_REGEX_CACHE_BYTES_def PROGRAM_TIER_BYTES_def

text \<open>The three caches draw their stamps from one counter; only the order of the stamps inside one cache is
  ever read, so each cache carries its own.\<close>

record 'v lru =
  lru_map :: "('v \<times> nat) bmap"
  lru_clock :: nat

definition lru_new :: "'v lru" where
  "lru_new = \<lparr>lru_map = [], lru_clock = 0\<rparr>"

definition lru_held :: "'v lru \<Rightarrow> string \<Rightarrow> 'v option" where
  "lru_held c k = map_option fst (bm_get (lru_map c) k)"

definition touch :: "string \<Rightarrow> 'v lru \<Rightarrow> 'v lru" where
  "touch k c = (case bm_get (lru_map c) k of
     None \<Rightarrow> c
   | Some e \<Rightarrow> \<lparr>lru_map = bm_insert k (fst e, lru_clock c) (lru_map c), lru_clock = Suc (lru_clock c)\<rparr>)"

definition stamp :: "string \<Rightarrow> 'v \<Rightarrow> 'v lru \<Rightarrow> 'v lru" where
  "stamp k v c = \<lparr>lru_map = bm_insert k (v, lru_clock c) (lru_map c), lru_clock = Suc (lru_clock c)\<rparr>"

abbreviation stamps :: "('v \<times> nat) bmap \<Rightarrow> nat list" where
  "stamps m \<equiv> map (\<lambda>e. snd (snd e)) m"

definition evict_lru_half :: "('v \<times> nat) bmap \<Rightarrow> ('v \<times> nat) bmap" where
  "evict_lru_half m = (let keep = length m div 2 in
     if keep = 0 then []
     else let ss = sort (stamps m); cut = ss ! (length ss - keep) in
       filter (\<lambda>e. cut \<le> snd (snd e)) m)"

definition lru_evict :: "'v lru \<Rightarrow> 'v lru" where
  "lru_evict c = c\<lparr>lru_map := evict_lru_half (lru_map c)\<rparr>"

definition lru_keep :: "string \<Rightarrow> 'v \<Rightarrow> 'v lru \<Rightarrow> 'v lru" where
  "lru_keep k v c = stamp k v (if MAX_REGEX_CACHE \<le> length (lru_map c) then lru_evict c else c)"

lemma filter_from: "sorted xs \<Longrightarrow> distinct xs \<Longrightarrow> i < length xs \<Longrightarrow> filter (\<lambda>x. xs ! i \<le> x) xs = drop i (xs :: nat list)"
proof -
  assume xs: "sorted xs" "distinct xs" "i < length xs"
  have "filter (\<lambda>x. xs ! i \<le> x) (take i xs) = []"
    using xs by (auto simp: filter_empty_conv in_set_conv_nth not_le sorted_nth_mono order.strict_iff_order nth_eq_iff_index_eq)
  moreover have "filter (\<lambda>x. xs ! i \<le> x) (drop i xs) = drop i xs"
    using xs by (auto simp: filter_id_conv in_set_conv_nth sorted_nth_mono)
  ultimately show ?thesis by (metis append_Nil append_take_drop_id filter_append)
qed

text \<open>\<open>P\<close> selects entries handed out later than every entry it drops.\<close>

definition newest :: "(string \<times> 'v \<times> nat \<Rightarrow> bool) \<Rightarrow> ('v \<times> nat) bmap \<Rightarrow> bool" where
  "newest P m \<longleftrightarrow> (\<forall>x\<in>set m. \<forall>y\<in>set m. P x \<longrightarrow> \<not> P y \<longrightarrow> snd (snd y) < snd (snd x))"

lemma newest_all: "newest (\<lambda>_. True) m"
  by (simp add: newest_def)

lemma newest_both: "newest P m \<Longrightarrow> newest Q (filter P m) \<Longrightarrow> newest (\<lambda>e. P e \<and> Q e) m"
  unfolding newest_def by (metis (no_types, lifting) mem_Collect_eq set_filter)

lemma evict_is_filter: "\<exists>P. evict_lru_half m = filter P m \<and> newest P m"
proof (cases "length m div 2 = 0")
  case True
  then show ?thesis by (intro exI [of _ "\<lambda>_. False"]) (simp add: evict_lru_half_def newest_def)
next
  case False
  then show ?thesis
    by (intro exI [of _ "\<lambda>e. sort (stamps m) ! (length (sort (stamps m)) - length m div 2) \<le> snd (snd e)"])
       (simp add: evict_lru_half_def newest_def Let_def)
qed

lemma lru_half_length: "distinct (stamps m) \<Longrightarrow> length (evict_lru_half m) = length m div 2"
proof (cases "length m div 2 = 0")
  case True
  then show ?thesis by (simp add: evict_lru_half_def)
next
  case False
  assume d: "distinct (stamps m)"
  let ?ss = "sort (stamps m)" and ?i = "length m - length m div 2"
  have "length (evict_lru_half m) = length (filter (\<lambda>s. ?ss ! ?i \<le> s) (stamps m))"
    using False by (simp add: evict_lru_half_def Let_def filter_map comp_def)
  also have "\<dots> = length (filter (\<lambda>s. ?ss ! ?i \<le> s) ?ss)"
    by (simp add: filter_sort)
  also have "\<dots> = length (drop ?i ?ss)"
    using d False by (subst filter_from) auto
  finally show ?thesis by simp
qed

definition lru_ok :: "'v lru \<Rightarrow> bool" where
  "lru_ok c \<longleftrightarrow> bm_ok (lru_map c) \<and> distinct (stamps (lru_map c)) \<and> (\<forall>e\<in>set (lru_map c). snd (snd e) < lru_clock c)"


lemma distinct_stamps_insert:
  "bm_ok m \<Longrightarrow> distinct (stamps m) \<Longrightarrow> \<forall>e\<in>set m. snd (snd e) < n \<Longrightarrow> distinct (stamps (bm_insert k (v, n) m))"
proof (induction k "(v, n)" m rule: bm_insert.induct)
  case (1 k)
  then show ?case by simp
next
  case (2 k j u m)
  then show ?case by (auto simp: bm_ok_Cons dest!: set_bm_insert)
qed

lemma stamp_ok: "lru_ok c \<Longrightarrow> lru_ok (stamp k v c)"
  by (auto simp: lru_ok_def stamp_def bm_insert_ok distinct_stamps_insert dest!: set_bm_insert intro: less_SucI)

lemma touch_ok: "lru_ok c \<Longrightarrow> lru_ok (touch k c)"
  using stamp_ok by (auto simp: touch_def stamp_def split: option.split)

lemma lru_evict_ok: "lru_ok c \<Longrightarrow> lru_ok (lru_evict c)"
  using evict_is_filter [of "lru_map c"] by (auto simp: lru_ok_def lru_evict_def bm_filter_ok distinct_map_filter)

lemma lru_keep_ok: "lru_ok c \<Longrightarrow> lru_ok (lru_keep k v c)"
  by (simp add: lru_keep_def stamp_ok lru_evict_ok)

lemma lru_new_ok: "lru_ok lru_new"
  by (simp add: lru_ok_def lru_new_def)

lemma lru_held_stamp: "lru_held (stamp k v c) j = (if j = k then Some v else lru_held c j)"
  by (simp add: lru_held_def stamp_def)

lemma lru_held_touch: "lru_held (touch k c) j = lru_held c j"
  by (simp add: lru_held_def touch_def split: option.split)

lemma lru_held_evict: "lru_ok c \<Longrightarrow> lru_held (lru_evict c) j = Some v \<Longrightarrow> lru_held c j = Some v"
  using evict_is_filter [of "lru_map c"]
  by (auto simp: lru_held_def lru_evict_def lru_ok_def bm_get_filter split: if_splits option.splits)


interpretation recent: memo lru_held touch lru_keep lru_ok
proof (unfold_locales; (simp add: touch_ok lru_keep_ok lru_held_touch)?)
  show "lru_ok c \<Longrightarrow> lru_held (lru_keep k w c) j = Some v \<Longrightarrow> j = k \<and> v = w \<or> lru_held c j = Some v" for c :: "'v lru" and k w j v
    by (auto simp: lru_keep_def lru_held_stamp dest: lru_held_evict split: if_splits)
qed

subsection \<open>The caches of parsed queries\<close>

text \<open>A call on one of these caches: the look-up under the read lock and, on a miss, the parse and the
  retention of its success under the write lock.\<close>

definition memo_call :: "(string \<Rightarrow> 'v option) \<Rightarrow> string \<Rightarrow> 'v lru \<Rightarrow> 'v option \<times> 'v lru" where
  "memo_call f k c = (case lru_held c k of
     Some v \<Rightarrow> (Some v, touch k c)
   | None \<Rightarrow> (case f k of
        None \<Rightarrow> (None, c)
      | Some v \<Rightarrow> (Some v, lru_keep k v c)))"

definition q_node :: "ext \<Rightarrow> string \<Rightarrow> qnode lru \<Rightarrow> qnode option \<times> qnode lru" where
  "q_node E = memo_call (\<lambda>q. case parse_q E q of Ok n \<Rightarrow> Some n | Err e \<Rightarrow> None)"

definition geo_query :: "string \<Rightarrow> (string \<Rightarrow> 'g option) \<Rightarrow> 'g lru \<Rightarrow> 'g option \<times> 'g lru" where
  "geo_query key build c = memo_call build key c"

lemma memo_call_value: "coherent lru_held f c \<Longrightarrow> fst (memo_call f k c) = f k"
  by (auto simp: memo_call_def recent.coherent_miss split: option.split dest: recent.coherent_hit)

lemma memo_call_ok:
  assumes "lru_ok c" "coherent lru_held f c" "length (lru_map c) \<le> MAX_REGEX_CACHE" "c' = snd (memo_call f k c)"
  shows "lru_ok c' \<and> coherent lru_held f c' \<and> length (lru_map c') \<le> MAX_REGEX_CACHE"
proof -
  have len: "length (bm_insert k e m) \<le> Suc (length m)" for e :: "'a \<times> nat" and m
    by (induction k e m rule: bm_insert.induct) auto
  have "length (lru_map (touch k c)) \<le> length (lru_map c)" if "lru_held c k = Some v" for v
  proof -
    have "k \<in> fst ` set (lru_map c)" using that by (metis bm_get_None_iff lru_held_def option.distinct(1) option.simps(8))
    then have "fst ` set (lru_map (touch k c)) = fst ` set (lru_map c)"
      by (auto simp: touch_def set_fst_bm_insert split: option.split)
    then show ?thesis using length_keys assms(1) touch_ok [OF assms(1), of k] by (metis le_refl lru_ok_def)
  qed
  moreover have "length (lru_map (lru_keep k v c)) \<le> MAX_REGEX_CACHE" for v
    using len [of "(v, lru_clock c)"] lru_half_length [of "lru_map c"] assms(1,3) le_trans [OF len]
    by (auto simp: lru_keep_def stamp_def lru_evict_def lru_ok_def regex_limits)
  ultimately show ?thesis
    using assms recent.coherent_used recent.coherent_keep
    by (auto simp: memo_call_def touch_ok lru_keep_ok split: option.split intro: le_trans)
qed


subsection \<open>The cache of compiled patterns\<close>

type_synonym 're outcome = "string + 're"
type_synonym 're builder = "string \<Rightarrow> nat \<Rightarrow> 're outcome"

record 're regex_cache =
  rc_lru :: "('re outcome \<times> nat) lru"
  rc_compiles :: nat
  rc_bytes :: nat

definition rc_new :: "'re regex_cache" where
  "rc_new = \<lparr>rc_lru = lru_new, rc_compiles = 0, rc_bytes = 0\<rparr>"

definition usize_add :: "nat \<Rightarrow> nat \<Rightarrow> nat" where
  "usize_add a b = min (a + b) (2 ^ 64 - 1)"

definition built :: "'re builder \<Rightarrow> string \<Rightarrow> 're outcome \<times> nat" where
  "built build p = (case build p PROGRAM_TIER_BYTES of
     Inr re \<Rightarrow> (Inr re, PROGRAM_TIER_BYTES)
   | Inl e \<Rightarrow> (case build p MAX_REGEX_PROGRAM_BYTES of
        Inr re \<Rightarrow> (Inr re, MAX_REGEX_PROGRAM_BYTES)
      | Inl e' \<Rightarrow> (Inl e', 0)))"

definition charges :: "(('re outcome \<times> nat) \<times> nat) bmap \<Rightarrow> nat" where
  "charges m = sum_list (map (\<lambda>e. snd (fst (snd e))) m)"

text \<open>The eviction loop; it is not structural, so that not returning is the value \<open>None\<close>.\<close>

partial_function (option) trim_to ::
  "nat \<Rightarrow> nat \<Rightarrow> (('re outcome \<times> nat) \<times> nat) bmap \<Rightarrow> ((('re outcome \<times> nat) \<times> nat) bmap \<times> nat) option" where
  [code]: "trim_to charge bytes c =
     (if c \<noteq> [] \<and> (MAX_REGEX_CACHE \<le> length c \<or> MAX_REGEX_CACHE_BYTES < usize_add bytes charge)
      then (let c' = evict_lru_half c in trim_to charge (charges c') c')
      else Some (c, bytes))"

definition rc_look :: "string \<Rightarrow> 're regex_cache \<Rightarrow> 're outcome option \<times> 're regex_cache" where
  "rc_look p s = (map_option fst (lru_held (rc_lru s) p), s\<lparr>rc_lru := touch p (rc_lru s)\<rparr>)"

definition rc_miss :: "'re regex_cache \<Rightarrow> 're regex_cache" where
  "rc_miss s = s\<lparr>rc_compiles := Suc (rc_compiles s)\<rparr>"

definition rc_retain :: "string \<Rightarrow> 're outcome \<times> nat \<Rightarrow> 're regex_cache \<Rightarrow> 're regex_cache option" where
  "rc_retain p oc s = map_option (\<lambda>(c, bytes).
     s\<lparr>rc_bytes := usize_add bytes (snd oc), rc_lru := stamp p oc ((rc_lru s)\<lparr>lru_map := c\<rparr>)\<rparr>)
     (trim_to (snd oc) (rc_bytes s) (lru_map (rc_lru s)))"

definition rc_compile :: "'re builder \<Rightarrow> string \<Rightarrow> 're regex_cache \<Rightarrow> ('re outcome \<times> 're regex_cache) option" where
  "rc_compile build p s = (case rc_look p s of
     (Some hit, s') \<Rightarrow> Some (hit, s')
   | (None, s') \<Rightarrow> map_option (\<lambda>s''. (fst (built build p), s'')) (rc_retain p (built build p) (rc_miss s')))"

definition rc_cached :: "string \<Rightarrow> 're regex_cache \<Rightarrow> 're option \<times> 're regex_cache" where
  "rc_cached p s = (case rc_look p s of
     (Some (Inr re), s') \<Rightarrow> (Some re, s')
   | (_, s') \<Rightarrow> (None, s'))"

definition rc_len :: "'re regex_cache \<Rightarrow> nat" where
  "rc_len s = length (lru_map (rc_lru s))"

definition retained_bytes :: "'re regex_cache \<Rightarrow> nat" where
  "retained_bytes s = rc_bytes s"

text \<open>Every interleaving of calls: a configuration is the cache and the patterns compiled but not yet
  retained.\<close>

inductive rc_step :: "'re builder \<Rightarrow> 're regex_cache \<times> string list \<Rightarrow> 're regex_cache \<times> string list \<Rightarrow> bool" for build where
  step_hit: "rc_look p s = (Some out, s') \<Longrightarrow> rc_step build (s, w) (s', w)"
| step_miss: "rc_look p s = (None, s') \<Longrightarrow> rc_step build (s, w) (rc_miss s', p # w)"
| step_retain: "p \<in> set w \<Longrightarrow> rc_retain p (built build p) s = Some s' \<Longrightarrow> rc_step build (s, w) (s', remove1 p w)"
| step_cached: "rc_cached p s = (r, s') \<Longrightarrow> rc_step build (s, w) (s', w)"

definition rc_reaches :: "'re builder \<Rightarrow> 're regex_cache \<times> string list \<Rightarrow> bool" where
  "rc_reaches build = (rc_step build)\<^sup>*\<^sup>* (rc_new, [])"

lemma trim_to_returns:
  "bm_ok c \<Longrightarrow> distinct (stamps c) \<Longrightarrow> charge \<le> MAX_REGEX_CACHE_BYTES \<Longrightarrow> charges c \<le> bytes \<Longrightarrow> (c = [] \<longrightarrow> bytes = 0) \<Longrightarrow>
   \<exists>P bytes'. trim_to charge bytes c = Some (filter P c, bytes') \<and> charges (filter P c) \<le> bytes' \<and>
     length (filter P c) < MAX_REGEX_CACHE \<and> bytes' + charge \<le> MAX_REGEX_CACHE_BYTES \<and>
     newest P c"
proof (induction "length c" arbitrary: c bytes rule: less_induct)
  case less
  show ?case
  proof (cases "c \<noteq> [] \<and> (MAX_REGEX_CACHE \<le> length c \<or> MAX_REGEX_CACHE_BYTES < usize_add bytes charge)")
    case False
    moreover have "bytes + charge \<le> MAX_REGEX_CACHE_BYTES"
      using False less.prems(3,5) by (auto simp: usize_add_def regex_limits)
    moreover have "length c < MAX_REGEX_CACHE" using False by (auto simp: regex_limits)
    moreover have "trim_to charge bytes c = Some (c, bytes)" using False by (subst trim_to.simps) auto
    ultimately show ?thesis using less.prems(4) by (intro exI [of _ "\<lambda>_. True"] exI [of _ bytes]) (simp add: newest_all)
  next
    case True
    let ?c = "evict_lru_half c"
    obtain P where P: "?c = filter P c" "newest P c"
      using evict_is_filter by blast
    have "length ?c < length c" using True less.prems(2) by (simp add: lru_half_length)
    moreover have "distinct (stamps ?c)" "bm_ok ?c" using less.prems(1,2) by (simp_all add: P(1) distinct_map_filter bm_filter_ok)
    moreover have "?c = [] \<longrightarrow> charges ?c = 0" by (simp add: charges_def)
    ultimately obtain Q b where Q: "trim_to charge (charges ?c) ?c = Some (filter Q ?c, b)" "charges (filter Q ?c) \<le> b"
      "length (filter Q ?c) < MAX_REGEX_CACHE" "b + charge \<le> MAX_REGEX_CACHE_BYTES"
      "newest Q ?c"
      using less.hyps [of ?c "charges ?c"] less.prems(3) by blast
    have "trim_to charge bytes c = Some (filter (\<lambda>e. P e \<and> Q e) c, b)"
      using True Q(1) by (subst trim_to.simps) (simp add: Let_def P(1) conj_commute)
    moreover have "newest (\<lambda>e. P e \<and> Q e) c" using newest_both P(2) Q(5) by (simp add: P(1))
    ultimately show ?thesis using Q(2-4) by (intro exI [of _ "\<lambda>e. P e \<and> Q e"] exI [of _ b]) (simp add: P(1) conj_commute)
  qed
qed


definition rc_ok :: "'re builder \<Rightarrow> 're regex_cache \<Rightarrow> bool" where
  "rc_ok build s \<longleftrightarrow> lru_ok (rc_lru s) \<and> (\<forall>p oc. lru_held (rc_lru s) p = Some oc \<longrightarrow> oc = built build p) \<and>
     rc_len s \<le> MAX_REGEX_CACHE \<and> charges (lru_map (rc_lru s)) \<le> retained_bytes s \<and>
     retained_bytes s \<le> MAX_REGEX_CACHE_BYTES \<and> (rc_len s = 0 \<longrightarrow> retained_bytes s = 0)"

lemma built_charge: "snd (built build p) \<le> MAX_REGEX_CACHE_BYTES"
  by (auto simp: built_def regex_limits split: sum.split)

lemma touch_same: "lru_ok c \<Longrightarrow> length (lru_map (touch k c)) = length (lru_map c)"
proof (cases "bm_get (lru_map c) k")
  case (Some e)
  assume ok: "lru_ok c"
  have "k \<in> fst ` set (lru_map c)" using Some by (metis bm_get_None_iff option.distinct(1))
  then have "fst ` set (lru_map (touch k c)) = fst ` set (lru_map c)" using Some
    by (auto simp: touch_def set_fst_bm_insert)
  then show ?thesis using length_keys ok touch_ok [OF ok, of k] by (metis lru_ok_def)
qed (simp add: touch_def)

lemma charges_insert:
  "bm_ok m \<Longrightarrow> charges (bm_insert k e m) = charges m - (case bm_get m k of Some f \<Rightarrow> snd (fst f) | None \<Rightarrow> 0) + snd (fst e)
    \<and> (case bm_get m k of Some f \<Rightarrow> snd (fst f) | None \<Rightarrow> 0) \<le> charges m"
proof (induction k e m rule: bm_insert.induct)
  case (1 k e)
  then show ?case by (simp add: charges_def)
next
  case (2 k e j f m)
  consider "k < j" | "k = j" | "j < k" by force
  then show ?case
  proof cases
    case 1
    then have "bm_get ((j, f) # m) k = None" using "2.prems" by (auto simp: bm_get_None_iff bm_ok_Cons)
    with 1 show ?thesis by (simp add: charges_def)
  next
    case 2
    then show ?thesis by (simp add: charges_def bm_get_def)
  next
    case 3
    then have "bm_get ((j, f) # m) k = bm_get m k" by (auto simp: bm_get_def)
    with 3 2 show ?thesis by (auto simp: charges_def bm_ok_Cons)
  qed
qed

lemma touch_Nil: "lru_ok c \<Longrightarrow> lru_map (touch k c) = [] \<longleftrightarrow> lru_map c = []"
  by (metis touch_same length_0_conv)

lemma touch_charges: "lru_ok c \<Longrightarrow> charges (lru_map (touch k c)) = charges (lru_map c)"
  using charges_insert [of "lru_map c" k] by (auto simp: touch_def lru_ok_def split: option.split)

lemma rc_look_ok: "rc_ok build s \<Longrightarrow> rc_look p s = (r, s') \<Longrightarrow> rc_ok build s'"
  by (auto simp: rc_ok_def rc_look_def rc_len_def retained_bytes_def touch_ok touch_same touch_charges touch_Nil lru_held_touch)

lemma rc_cached_state: "snd (rc_cached p s) = snd (rc_look p s)"
  by (auto simp: rc_cached_def rc_look_def split: option.split sum.split)

lemma rc_miss_ok: "rc_ok build s \<Longrightarrow> rc_ok build (rc_miss s)"
  by (simp add: rc_ok_def rc_miss_def rc_len_def retained_bytes_def)


lemma lru_held_filter:
  "bm_ok (lru_map c) \<Longrightarrow> lru_held (c\<lparr>lru_map := filter P (lru_map c)\<rparr>) j =
     (if \<exists>e\<in>set (lru_map c). fst e = j \<and> P e then lru_held c j else None)"
proof (cases "bm_get (lru_map c) j")
  case None
  moreover assume "bm_ok (lru_map c)"
  ultimately show ?thesis by (simp add: lru_held_def bm_get_filter)
next
  case (Some v)
  assume ok: "bm_ok (lru_map c)"
  have "(\<exists>e\<in>set (lru_map c). fst e = j \<and> P e) \<longleftrightarrow> P (j, v)"
    using Some bm_get_iff [OF ok] by (metis fst_conv option.inject prod.collapse)
  then show ?thesis using ok Some by (simp add: lru_held_def bm_get_filter)
qed

lemma rc_retain_ok:
  assumes ok: "rc_ok build s"
  shows "\<exists>s' P. rc_retain p (built build p) s = Some s' \<and> rc_ok build s' \<and> rc_compiles s' = rc_compiles s \<and>
    newest P (lru_map (rc_lru s)) \<and>
    (\<forall>j. lru_held (rc_lru s') j = (if j = p then Some (built build p)
       else if \<exists>e\<in>set (lru_map (rc_lru s)). fst e = j \<and> P e then lru_held (rc_lru s) j else None))"
proof -
  let ?c = "lru_map (rc_lru s)" and ?oc = "built build p"
  have c: "bm_ok ?c" "distinct (stamps ?c)" "\<forall>e\<in>set ?c. snd (snd e) < lru_clock (rc_lru s)" using ok by (simp_all add: rc_ok_def lru_ok_def)
  have pre: "charges ?c \<le> rc_bytes s" "?c = [] \<longrightarrow> rc_bytes s = 0" using ok by (simp_all add: rc_ok_def rc_len_def retained_bytes_def)
  obtain P b where P: "trim_to (snd ?oc) (rc_bytes s) ?c = Some (filter P ?c, b)" "charges (filter P ?c) \<le> b"
    "length (filter P ?c) < MAX_REGEX_CACHE" "b + snd ?oc \<le> MAX_REGEX_CACHE_BYTES" "newest P ?c"
    using trim_to_returns [OF c(1,2) built_charge pre] by blast
  let ?l = "(rc_lru s)\<lparr>lru_map := filter P ?c\<rparr>"
  let ?s = "s\<lparr>rc_bytes := usize_add b (snd ?oc), rc_lru := stamp p ?oc ?l\<rparr>"
  have l: "lru_ok ?l" using c by (simp add: lru_ok_def bm_filter_ok distinct_map_filter)
  have held: "lru_held ?l j = (if \<exists>e\<in>set ?c. fst e = j \<and> P e then lru_held (rc_lru s) j else None)" for j
    using lru_held_filter [OF c(1)] by simp
  have len: "length (bm_insert p e m) \<le> Suc (length m)" "bm_insert p e m \<noteq> []" for e and m :: "(('a outcome \<times> nat) \<times> nat) bmap"
    by (induction p e m rule: bm_insert.induct) auto
  have add: "usize_add b (snd ?oc) = b + snd ?oc" using P(4) by (simp add: usize_add_def regex_limits)
  let ?e = "(?oc, lru_clock (rc_lru s))"
  have m: "lru_map (stamp p ?oc ?l) = bm_insert p ?e (filter P ?c)" by (simp add: stamp_def)
  have "charges (bm_insert p ?e (filter P ?c)) \<le> charges (filter P ?c) + snd ?oc"
    using charges_insert [of "filter P ?c" p ?e] by (simp add: bm_filter_ok [OF c(1)])
  moreover have "length (bm_insert p ?e (filter P ?c)) \<le> MAX_REGEX_CACHE" using len(1) [of ?e "filter P ?c"] P(3) by linarith
  moreover have "\<forall>j oc. lru_held (stamp p ?oc ?l) j = Some oc \<longrightarrow> oc = built build j"
    using ok by (simp add: lru_held_stamp held rc_ok_def)
  ultimately have "rc_ok build ?s"
    using P(2,4) stamp_ok [OF l, of p ?oc] len(2) [of ?e "filter P ?c"]
    by (simp add: rc_ok_def rc_len_def retained_bytes_def m add)
  then show ?thesis using P(1,5) held
    by (intro exI [of _ ?s] exI [of _ P]) (simp add: rc_retain_def lru_held_stamp)
qed


lemma rc_step_ok: "rc_step build x y \<Longrightarrow> rc_ok build (fst x) \<Longrightarrow> rc_ok build (fst y)"
proof (induction rule: rc_step.induct)
  case (step_hit p s out s' w)
  then show ?case using rc_look_ok by fastforce
next
  case (step_miss p s s' w)
  then show ?case using rc_look_ok rc_miss_ok by fastforce
next
  case (step_retain p w s s')
  then show ?case using rc_retain_ok [of build s p] by auto
next
  case (step_cached p s r s' w)
  then show ?case using rc_look_ok rc_cached_state by (metis fst_conv prod.collapse snd_conv)
qed

lemma rc_reaches_ok: "rc_reaches build x \<Longrightarrow> rc_ok build (fst x)"
  unfolding rc_reaches_def
proof (induction rule: rtranclp_induct)
  case base
  show ?case
    using lru_new_ok by (simp add: rc_ok_def rc_new_def charges_def lru_held_def lru_new_def rc_len_def retained_bytes_def)
next
  case (step y z)
  then show ?case using rc_step_ok by blast
qed

lemma rc_look_held: "fst (rc_look p s) = map_option fst (lru_held (rc_lru s) p)"
  by (simp add: rc_look_def)

text \<open>A call returns, its answer is that of compiling the pattern then and there, and the pattern is then
  retained, so that the next call compiles nothing.\<close>

lemma rc_compile_returns:
  assumes "rc_ok build s"
  shows "\<exists>s'. rc_compile build p s = Some (fst (built build p), s') \<and> rc_ok build s' \<and>
    lru_held (rc_lru s') p = Some (built build p) \<and>
    rc_compiles s' = (if lru_held (rc_lru s) p = None then Suc (rc_compiles s) else rc_compiles s)"
proof (cases "lru_held (rc_lru s) p")
  case None
  let ?s = "rc_miss (snd (rc_look p s))"
  have "rc_ok build ?s" using rc_look_ok [OF assms, of p] rc_miss_ok by (metis prod.collapse)
  then obtain s' where s': "rc_retain p (built build p) ?s = Some s'" "rc_ok build s'" "rc_compiles s' = rc_compiles ?s"
    "lru_held (rc_lru s') p = Some (built build p)"
    using rc_retain_ok [of build ?s p] by fastforce
  then show ?thesis using None by (auto simp: rc_compile_def rc_look_def rc_miss_def)
next
  case (Some oc)
  then have "oc = built build p" using assms unfolding rc_ok_def by metis
  then show ?thesis using Some rc_look_ok [OF assms, of p]
    by (auto simp: rc_compile_def rc_look_def lru_held_touch)
qed

end
