(* ===== verification/Matcher.thy ===== *)
theory Matcher
  imports Geo Caches QEval Scope
begin

text \<open>
  Would a change notify a subscription? (\<open>antares-matcher/src/lib.rs\<close>).  The predicates go through the
  process-wide caches, so they pass a cache state along; the clock is two arguments, the time as the ISO text
  and as an instant in nanoseconds (\<open>rfc3339\<close> reads a text to such an instant).
\<close>

record 'g mcaches =
  m_q :: "qnode lru"
  m_geo :: "'g geo_query_t lru"
  m_re :: "(string \<Rightarrow> bool) regex_cache"

definition sub_str :: "json \<Rightarrow> string \<Rightarrow> string option" where
  "sub_str sub k = Option.bind (jget sub k) as_str"

definition is_active :: "string \<Rightarrow> json \<Rightarrow> bool" where
  "is_active now sub =
     (if jget sub ''isActive'' = Some (JBool False) then False
      else (case sub_str sub ''expiresAt'' of None \<Rightarrow> True | Some e \<Rightarrow> \<not> dt_key e < dt_key now))"

subsection \<open>The entity selector\<close>

definition doc_types :: "json \<Rightarrow> string list" where
  "doc_types doc = (case Option.bind (jget doc ''type'') as_array of None \<Rightarrow> [] | Some a \<Rightarrow> List.map_filter as_str a)"

definition doc_id :: "json \<Rightarrow> string" where
  "doc_id doc = (case Option.bind (jget doc ''id'') as_str of None \<Rightarrow> [] | Some i \<Rightarrow> i)"

definition sel_type_ok :: "jctx \<Rightarrow> string list \<Rightarrow> json \<Rightarrow> bool" where
  "sel_type_ok c tys e = (case sub_str e ''type'' of
     None \<Rightarrow> True
   | Some t \<Rightarrow>
       if t = ''*'' then True
       else if list_ex (\<lambda>x. x \<in> set ''|,;('') t then type_selection_matches c t tys
       else t \<in> set tys)"

definition sel_id_ok :: "string \<Rightarrow> json \<Rightarrow> bool" where
  "sel_id_ok i e = (case jget e ''id'' of
     None \<Rightarrow> True
   | Some (JStr j) \<Rightarrow> j = i
   | Some (JArr a) \<Rightarrow> i \<in> set (List.map_filter as_str a)
   | Some _ \<Rightarrow> False)"

definition sel_pattern :: "json \<Rightarrow> string option" where
  "sel_pattern e = (if jget e ''id'' \<noteq> None then None else sub_str e ''idPattern'')"

definition pattern_step :: "(string \<Rightarrow> bool) builder \<Rightarrow> string \<Rightarrow> string \<Rightarrow> (string \<Rightarrow> bool) regex_cache \<Rightarrow> (bool \<times> (string \<Rightarrow> bool) regex_cache) option" where
  "pattern_step B p i s = map_option (\<lambda>(out, s'). ((case out of Inr re \<Rightarrow> re i | Inl _ \<Rightarrow> False), s')) (rc_compile B p s)"

fun sel_any :: "(string \<Rightarrow> bool) builder \<Rightarrow> jctx \<Rightarrow> string list \<Rightarrow> string \<Rightarrow> json list \<Rightarrow> (string \<Rightarrow> bool) regex_cache \<Rightarrow>
    (bool \<times> (string \<Rightarrow> bool) regex_cache) option" where
  "sel_any B c tys i [] s = Some (False, s)"
| "sel_any B c tys i (e # es) s =
     (case (case sel_pattern e of None \<Rightarrow> Some (True, s) | Some p \<Rightarrow> pattern_step B p i s) of
        None \<Rightarrow> None
      | Some (pat_ok, s') \<Rightarrow>
          if sel_type_ok c tys e \<and> sel_id_ok i e \<and> pat_ok then Some (True, s') else sel_any B c tys i es s')"

definition selector_match :: "(string \<Rightarrow> bool) builder \<Rightarrow> jctx \<Rightarrow> json \<Rightarrow> json \<Rightarrow> 'g mcaches \<Rightarrow> (bool \<times> 'g mcaches) option" where
  "selector_match B c sub doc cs = (case Option.bind (jget sub ''entities'') as_array of
     None \<Rightarrow> Some (True, cs)
   | Some sel \<Rightarrow> map_option (\<lambda>(r, s). (r, cs\<lparr>m_re := s\<rparr>)) (sel_any B c (doc_types doc) (doc_id doc) sel (m_re cs)))"

subsection \<open>The conditions\<close>

definition coordinates_text :: "lib \<Rightarrow> json \<Rightarrow> string" where
  "coordinates_text L v = (case v of JStr s \<Rightarrow> s | _ \<Rightarrow> to_json L v)"

definition geo_params :: "lib \<Rightarrow> jobj \<Rightarrow> string bmap" where
  "geo_params L g =
     (let ps = fold (\<lambda>k ps. case jget_str g k of Some s \<Rightarrow> bm_insert k s ps | None \<Rightarrow> ps) [''georel'', ''geometry'', ''geoproperty''] []
      in case bm_get g ''coordinates'' of None \<Rightarrow> ps | Some v \<Rightarrow> bm_insert ''coordinates'' (coordinates_text L v) ps)"

definition build_geo :: "lib \<Rightarrow> 'g geo_lib \<Rightarrow> jobj \<Rightarrow> 'g geo_query_t option" where
  "build_geo L G g = (case from_params L G (geo_params L g) of Ok q \<Rightarrow> q | Err _ \<Rightarrow> None)"

definition coerced :: "jctx \<Rightarrow> json \<Rightarrow> qnode \<Rightarrow> qnode" where
  "coerced c sub n = (case expansion_list (sub_str sub ''expandValues'') (sub_str sub ''jsonKeys'') of
     None \<Rightarrow> n | Some l \<Rightarrow> apply_expand_values c (Some l) n)"

definition q_condition :: "ext \<Rightarrow> jctx \<Rightarrow> (string \<Rightarrow> json option) \<Rightarrow> json \<Rightarrow> json \<Rightarrow> qnode lru \<Rightarrow> bool \<times> qnode lru" where
  "q_condition E c lookup sub doc m = (case sub_str sub ''q'' of
     None \<Rightarrow> (True, m)
   | Some q \<Rightarrow> (case q_node E (percent_decode q) m of
        (Some n, m') \<Rightarrow> (eval_q E c lookup doc (coerced c sub n), m')
      | (None, m') \<Rightarrow> (False, m')))"

definition scope_condition :: "json \<Rightarrow> json \<Rightarrow> bool" where
  "scope_condition sub doc = (case sub_str sub ''scopeQ'' of None \<Rightarrow> True | Some sq \<Rightarrow> scope_matches sq doc)"

definition geo_condition :: "lib \<Rightarrow> 'g geo_lib \<Rightarrow> jctx \<Rightarrow> json \<Rightarrow> json \<Rightarrow> 'g geo_query_t lru \<Rightarrow> bool \<times> 'g geo_query_t lru" where
  "geo_condition L G c sub doc m = (case Option.bind (jget sub ''geoQ'') as_object of
     None \<Rightarrow> (True, m)
   | Some g \<Rightarrow> (case geo_query (to_json L (JObj g)) (\<lambda>_. build_geo L G g) m of
        (Some gq, m') \<Rightarrow> (geo_matches G c gq doc, m')
      | (None, m') \<Rightarrow> (False, m')))"

definition conditions_match :: "lib \<Rightarrow> 'g geo_lib \<Rightarrow> jctx \<Rightarrow> (string \<Rightarrow> json option) \<Rightarrow> json \<Rightarrow> json \<Rightarrow> 'g mcaches \<Rightarrow> bool \<times> 'g mcaches" where
  "conditions_match L G c lookup sub doc cs =
     (case q_condition (base L) c lookup sub doc (m_q cs) of (ok, mq) \<Rightarrow>
        let cs = cs\<lparr>m_q := mq\<rparr> in
        if \<not> ok then (False, cs)
        else if \<not> scope_condition sub doc then (False, cs)
        else (case geo_condition L G c sub doc (m_geo cs) of (ok, mg) \<Rightarrow> (ok, cs\<lparr>m_geo := mg\<rparr>)))"

subsection \<open>Throttling\<close>

text \<open>\<open>as i64\<close> truncates toward zero and saturates; \<open>num_milliseconds\<close> truncates toward zero.\<close>

definition trunc :: "rat \<Rightarrow> int" where
  "trunc r = (if 0 \<le> r then \<lfloor>r\<rfloor> else \<lceil>r\<rceil>)"

fun as_i64 :: "f64 \<Rightarrow> int" where
  "as_i64 NInf = - (2 ^ 63)"
| "as_i64 PInf = 2 ^ 63 - 1"
| "as_i64 (Fin r) = max (- (2 ^ 63)) (min (2 ^ 63 - 1) (trunc r))"

fun times_1000 :: "f64 \<Rightarrow> f64" where
  "times_1000 (Fin r) = round_f64 (r * 1000)"
| "times_1000 x = x"

definition millis :: "int \<Rightarrow> int" where
  "millis ns = trunc (of_int ns / 1000000)"

definition throttled :: "ext \<Rightarrow> int \<Rightarrow> json \<Rightarrow> bool" where
  "throttled E now sub = (case Option.bind (jget sub ''throttling'') as_f64 of
     None \<Rightarrow> False
   | Some secs \<Rightarrow> (case Option.bind (Option.bind (jget sub ''notification'') (\<lambda>n. jget n ''lastNotification'')) as_str of
        None \<Rightarrow> False
      | Some l \<Rightarrow> (case rfc3339 E l of
            None \<Rightarrow> False
          | Some t \<Rightarrow> millis (now - t) < as_i64 (times_1000 secs))))"

record clock =
  now_iso :: string
  now_ns :: int

definition would_notify :: "lib \<Rightarrow> 'g geo_lib \<Rightarrow> (string \<Rightarrow> bool) builder \<Rightarrow> clock \<Rightarrow> jctx \<Rightarrow> (string \<Rightarrow> json option) \<Rightarrow>
    json \<Rightarrow> json \<Rightarrow> 'g mcaches \<Rightarrow> (bool \<times> 'g mcaches) option" where
  "would_notify L G B t c lookup sub doc cs =
     (if \<not> is_active (now_iso t) sub then Some (False, cs)
      else (case selector_match B c sub doc cs of
        None \<Rightarrow> None
      | Some (False, cs) \<Rightarrow> Some (False, cs)
      | Some (True, cs) \<Rightarrow> (case conditions_match L G c lookup sub doc cs of
          (False, cs) \<Rightarrow> Some (False, cs)
        | (True, cs) \<Rightarrow> Some (\<not> throttled (base L) (now_ns t) sub, cs))))"

subsection \<open>The caches change no answer\<close>

text \<open>The same predicates without caches.\<close>

definition pattern_ok :: "(string \<Rightarrow> bool) builder \<Rightarrow> string \<Rightarrow> string \<Rightarrow> bool" where
  "pattern_ok B i p = (case fst (built B p) of Inr re \<Rightarrow> re i | Inl _ \<Rightarrow> False)"

definition selected :: "(string \<Rightarrow> bool) builder \<Rightarrow> jctx \<Rightarrow> json \<Rightarrow> json \<Rightarrow> bool" where
  "selected B c sub doc = (case Option.bind (jget sub ''entities'') as_array of
     None \<Rightarrow> True
   | Some sel \<Rightarrow> \<exists>e\<in>set sel. sel_type_ok c (doc_types doc) e \<and> sel_id_ok (doc_id doc) e
       \<and> (\<forall>p. sel_pattern e = Some p \<longrightarrow> pattern_ok B (doc_id doc) p))"

definition parsed :: "ext \<Rightarrow> string \<Rightarrow> qnode option" where
  "parsed E q = (case parse_q E q of Ok n \<Rightarrow> Some n | Err e \<Rightarrow> None)"

definition conditions_hold :: "lib \<Rightarrow> 'g geo_lib \<Rightarrow> jctx \<Rightarrow> (string \<Rightarrow> json option) \<Rightarrow> json \<Rightarrow> json \<Rightarrow> bool" where
  "conditions_hold L G c lookup sub doc \<longleftrightarrow>
     (\<forall>q. sub_str sub ''q'' = Some q \<longrightarrow>
        (\<exists>n. parse_q (base L) (percent_decode q) = Inr n \<and> eval_q (base L) c lookup doc (coerced c sub n))) \<and>
     scope_condition sub doc \<and>
     (\<forall>g. Option.bind (jget sub ''geoQ'') as_object = Some g \<longrightarrow>
        (\<exists>gq. build_geo L G g = Some gq \<and> geo_matches G c gq doc))"

definition notifies :: "lib \<Rightarrow> 'g geo_lib \<Rightarrow> (string \<Rightarrow> bool) builder \<Rightarrow> clock \<Rightarrow> jctx \<Rightarrow> (string \<Rightarrow> json option) \<Rightarrow> json \<Rightarrow> json \<Rightarrow> bool" where
  "notifies L G B t c lookup sub doc \<longleftrightarrow> is_active (now_iso t) sub \<and> selected B c sub doc
     \<and> conditions_hold L G c lookup sub doc \<and> \<not> throttled (base L) (now_ns t) sub"

text \<open>What each cache holds: parses, geoqueries under the text of their object, and compiled patterns.\<close>

definition geo_by_text :: "lib \<Rightarrow> 'g geo_lib \<Rightarrow> string \<Rightarrow> 'g geo_query_t option" where
  "geo_by_text L G k = (if \<exists>g. k = to_json L (JObj g) then build_geo L G (SOME g. k = to_json L (JObj g)) else None)"

definition lru_fits :: "'v lru \<Rightarrow> bool" where
  "lru_fits m \<longleftrightarrow> lru_ok m \<and> length (lru_map m) \<le> MAX_REGEX_CACHE"

definition mcaches_ok :: "lib \<Rightarrow> 'g geo_lib \<Rightarrow> (string \<Rightarrow> bool) builder \<Rightarrow> 'g mcaches \<Rightarrow> bool" where
  "mcaches_ok L G B cs \<longleftrightarrow>
     lru_fits (m_q cs) \<and> coherent lru_held (parsed (base L)) (m_q cs) \<and>
     lru_fits (m_geo cs) \<and> coherent lru_held (geo_by_text L G) (m_geo cs) \<and> rc_ok B (m_re cs)"

lemma geo_by_text: "inj (to_json L) \<Longrightarrow> geo_by_text L G (to_json L (JObj g)) = build_geo L G g"
proof -
  assume "inj (to_json L)"
  then have "to_json L (JObj g) = to_json L (JObj g') \<longleftrightarrow> g' = g" for g' by (auto dest: injD)
  then show ?thesis by (simp add: geo_by_text_def)
qed

lemma memo_fits:
  assumes "lru_fits m" "coherent lru_held f m"
  shows "fst (memo_call f k m) = f k" "lru_fits (snd (memo_call f k m))" "coherent lru_held f (snd (memo_call f k m))"
  using memo_call_value [OF assms(2)] memo_call_ok [of m f "snd (memo_call f k m)" k] assms by (simp_all add: lru_fits_def)

lemma q_condition_ok:
  assumes "lru_fits m" "coherent lru_held (parsed E) m"
  shows "\<exists>m'. q_condition E c lookup sub doc m =
      ((\<forall>q. sub_str sub ''q'' = Some q \<longrightarrow> (\<exists>n. parse_q E (percent_decode q) = Inr n \<and> eval_q E c lookup doc (coerced c sub n))), m')
    \<and> lru_fits m' \<and> coherent lru_held (parsed E) m'"
proof (cases "sub_str sub ''q''")
  case None
  with assms show ?thesis by (simp add: q_condition_def)
next
  case (Some q)
  have e: "q_node E (percent_decode q) m = memo_call (parsed E) (percent_decode q) m"
    by (simp add: q_node_def parsed_def [abs_def])
  note f = memo_fits [OF assms, of "percent_decode q"]
  show ?thesis
    using f Some
    by (cases "memo_call (parsed E) (percent_decode q) m")
       (auto simp: q_condition_def e parsed_def split: option.splits sum.splits)
qed

lemma memo_call_at: "f k = h k \<Longrightarrow> memo_call f k m = memo_call h k m"
  by (simp add: memo_call_def split: option.split)

lemma geo_condition_ok:
  assumes "lru_fits m" "coherent lru_held (geo_by_text L G) m" "inj (to_json L)"
  shows "\<exists>m'. geo_condition L G c sub doc m =
      ((\<forall>g. Option.bind (jget sub ''geoQ'') as_object = Some g \<longrightarrow> (\<exists>gq. build_geo L G g = Some gq \<and> geo_matches G c gq doc)), m')
    \<and> lru_fits m' \<and> coherent lru_held (geo_by_text L G) m'"
proof (cases "Option.bind (jget sub ''geoQ'') as_object")
  case None
  with assms show ?thesis by (simp add: geo_condition_def)
next
  case (Some g)
  let ?k = "to_json L (JObj g)"
  have e: "geo_query ?k (\<lambda>_. build_geo L G g) m = memo_call (geo_by_text L G) ?k m"
    unfolding geo_query_def by (rule memo_call_at) (simp add: geo_by_text [OF assms(3)])
  note f = memo_fits [OF assms(1,2), of ?k]
  show ?thesis
    using f Some
    by (cases "memo_call (geo_by_text L G) ?k m")
       (auto simp: geo_condition_def e geo_by_text [OF assms(3)] split: option.splits)
qed


lemma conditions_match_ok:
  assumes "mcaches_ok L G B cs" "inj (to_json L)"
  shows "\<exists>cs'. conditions_match L G c lookup sub doc cs = (conditions_hold L G c lookup sub doc, cs') \<and> mcaches_ok L G B cs'"
proof -
  let ?Q = "\<forall>q. sub_str sub ''q'' = Some q \<longrightarrow>
      (\<exists>n. parse_q (base L) (percent_decode q) = Inr n \<and> eval_q (base L) c lookup doc (coerced c sub n))"
  let ?G = "\<forall>g. Option.bind (jget sub ''geoQ'') as_object = Some g \<longrightarrow> (\<exists>gq. build_geo L G g = Some gq \<and> geo_matches G c gq doc)"
  obtain mq where q: "q_condition (base L) c lookup sub doc (m_q cs) = (?Q, mq)" "lru_fits mq" "coherent lru_held (parsed (base L)) mq"
    using q_condition_ok [of "m_q cs" "base L" c lookup sub doc] assms(1) unfolding mcaches_ok_def by blast
  obtain mg where g: "geo_condition L G c sub doc (m_geo cs) = (?G, mg)" "lru_fits mg" "coherent lru_held (geo_by_text L G) mg"
    using geo_condition_ok [of "m_geo cs" L G c sub doc] assms unfolding mcaches_ok_def by blast
  have eq: "conditions_match L G c lookup sub doc cs =
     (let cs1 = cs\<lparr>m_q := mq\<rparr> in if \<not> ?Q then (False, cs1) else if \<not> scope_condition sub doc then (False, cs1)
      else (?G, cs1\<lparr>m_geo := mg\<rparr>))"
  proof -
    have "m_geo (cs\<lparr>m_q := mq\<rparr>) = m_geo cs" by simp
    then show ?thesis unfolding conditions_match_def q(1) prod.case by (simp only: Let_def g(1) prod.case)
  qed
  show ?thesis
  proof (cases "?Q \<and> scope_condition sub doc")
    case True
    then show ?thesis using q g assms(1) unfolding eq Let_def conditions_hold_def mcaches_ok_def by simp
  next
    case False
    then show ?thesis using q assms(1) unfolding eq Let_def conditions_hold_def mcaches_ok_def by auto
  qed
qed

lemma pattern_step_ok:
  "rc_ok B s \<Longrightarrow> \<exists>s'. pattern_step B p i s = Some (pattern_ok B i p, s') \<and> rc_ok B s'"
  using rc_compile_returns [of B s p] by (auto simp: pattern_step_def pattern_ok_def)

lemma sel_any_ok:
  "rc_ok B s \<Longrightarrow> \<exists>s'. sel_any B c tys i es s =
     Some (\<exists>e\<in>set es. sel_type_ok c tys e \<and> sel_id_ok i e \<and> (\<forall>p. sel_pattern e = Some p \<longrightarrow> pattern_ok B i p), s') \<and> rc_ok B s'"
proof (induction es arbitrary: s)
  case (Cons e es)
  define P where "P e \<longleftrightarrow> sel_type_ok c tys e \<and> sel_id_ok i e \<and> (\<forall>p. sel_pattern e = Some p \<longrightarrow> pattern_ok B i p)" for e
  obtain s' pat where s': "(case sel_pattern e of None \<Rightarrow> Some (True, s) | Some p \<Rightarrow> pattern_step B p i s) = Some (pat, s')"
    "rc_ok B s'" "pat \<longleftrightarrow> (\<forall>p. sel_pattern e = Some p \<longrightarrow> pattern_ok B i p)"
    using pattern_step_ok [OF Cons.prems] Cons.prems by (cases "sel_pattern e") fastforce+
  obtain s'' where s'': "sel_any B c tys i es s' = Some (\<exists>e\<in>set es. P e, s'')" "rc_ok B s''"
    using Cons.IH [OF s'(2)] unfolding P_def by blast
  have "sel_any B c tys i (e # es) s = (if P e then Some (True, s') else sel_any B c tys i es s')"
    using s' by (simp add: P_def)
  then show ?case using s'(2) s'' unfolding P_def [symmetric] by auto
qed simp

lemma selector_match_ok:
  assumes "mcaches_ok L G B cs"
  shows "\<exists>cs'. selector_match B c sub doc cs = Some (selected B c sub doc, cs') \<and> mcaches_ok L G B cs'"
proof (cases "Option.bind (jget sub ''entities'') as_array")
  case None
  with assms show ?thesis by (simp add: selector_match_def selected_def)
next
  case (Some sel)
  have "rc_ok B (m_re cs)" using assms by (simp add: mcaches_ok_def)
  from sel_any_ok [OF this, of c "doc_types doc" "doc_id doc" sel] obtain s' where
    "sel_any B c (doc_types doc) (doc_id doc) sel (m_re cs) = Some (selected B c sub doc, s')" "rc_ok B s'"
    using Some by (auto simp: selected_def)
  then show ?thesis using Some assms by (simp add: selector_match_def mcaches_ok_def)
qed

lemma would_notify_ok:
  assumes "mcaches_ok L G B cs" "inj (to_json L)"
  shows "\<exists>cs'. would_notify L G B t c lookup sub doc cs = Some (notifies L G B t c lookup sub doc, cs') \<and> mcaches_ok L G B cs'"
proof (cases "is_active (now_iso t) sub")
  case False
  then show ?thesis using assms(1) by (simp add: would_notify_def notifies_def)
next
  case True
  obtain c1 where c1: "selector_match B c sub doc cs = Some (selected B c sub doc, c1)" "mcaches_ok L G B c1"
    using selector_match_ok [OF assms(1)] by blast
  obtain c2 where c2: "conditions_match L G c lookup sub doc c1 = (conditions_hold L G c lookup sub doc, c2)" "mcaches_ok L G B c2"
    using conditions_match_ok [OF c1(2) assms(2)] by blast
  show ?thesis using True c1 c2
    by (cases "selected B c sub doc"; cases "conditions_hold L G c lookup sub doc") (simp_all add: would_notify_def notifies_def)
qed

definition new_mcaches :: "'g mcaches" where
  "new_mcaches = \<lparr>m_q = lru_new, m_geo = lru_new, m_re = rc_new\<rparr>"

lemma new_fits: "lru_fits lru_new"
  using lru_new_ok by (simp add: lru_fits_def lru_new_def)

lemma new_coherent: "coherent lru_held f lru_new"
  by (simp add: coherent_def lru_held_def lru_new_def)

lemma new_mcaches_ok: "mcaches_ok L G B new_mcaches"
  using rc_reaches_ok [of B "(rc_new, [])"]
  by (simp add: mcaches_ok_def new_mcaches_def new_fits new_coherent rc_reaches_def)

end
