(* ===== verification/Linked.thy ===== *)
theory Linked
  imports Matcher
begin

text \<open>
  Evaluating a query whose linked terms read other entities (\<open>linked_eval\<close> of \<open>antares-api/src/notify.rs\<close>).
  The evaluator is synchronous and the store is not, so a pass runs against a cache, records the URIs it asks
  for and misses, and the next pass runs with those fetched.  To say which URIs a pass asks for, the evaluator
  of \<open>eval.rs\<close> is given once more as a tree of its calls to \<open>lookup\<close>; running the tree is \<open>eval_node\<close>.
\<close>

subsection \<open>Asking\<close>

datatype 'a asking = Answer 'a | Ask string "json option \<Rightarrow> 'a asking"

primrec run_asks :: "(string \<Rightarrow> json option) \<Rightarrow> 'a asking \<Rightarrow> 'a \<times> string list" where
  "run_asks l (Answer x) = (x, [])"
| "run_asks l (Ask u k) = (case run_asks l (k (l u)) of (x, us) \<Rightarrow> (x, u # us))"

primrec and_ask :: "'a asking \<Rightarrow> ('a \<Rightarrow> 'b asking) \<Rightarrow> 'b asking" where
  "and_ask (Answer x) f = f x"
| "and_ask (Ask u k) f = Ask u (\<lambda>d. and_ask (k d) f)"

lemma run_and_ask [simp]:
  "run_asks l (and_ask T f) = (fst (run_asks l (f (fst (run_asks l T)))), snd (run_asks l T) @ snd (run_asks l (f (fst (run_asks l T)))))"
  by (induction T) (auto split: prod.split)

subsection \<open>The evaluator's calls\<close>

fun hop_asks :: "(json \<Rightarrow> bool) \<Rightarrow> (json \<Rightarrow> nat \<Rightarrow> (target list \<times> nat) asking) \<Rightarrow> string list \<Rightarrow> nat \<Rightarrow> (target list \<times> nat) asking" where
  "hop_asks ok walk [] b = Answer ([], b)"
| "hop_asks ok walk (u # us) 0 = Answer ([], 0)"
| "hop_asks ok walk (u # us) (Suc b) = Ask u (\<lambda>d. case d of
     None \<Rightarrow> hop_asks ok walk us b
   | Some e \<Rightarrow>
       (if \<not> ok e then hop_asks ok walk us b
        else and_ask (walk e b) (\<lambda>(ts, b'). and_ask (hop_asks ok walk us b') (\<lambda>(ts', b''). Answer (ts @ ts', b'')))))"

primrec link_asks :: "link list \<Rightarrow> jctx \<Rightarrow> string list \<Rightarrow> string list option \<Rightarrow> json \<Rightarrow> nat \<Rightarrow> (target list \<times> nat) asking" where
  "link_asks [] c p br entity b = Answer (resolve_targets c p br entity, b)"
| "link_asks (l # ls) c p br entity b =
     (case Option.bind (jget entity (expand_key c (attr l))) as_array of
        None \<Rightarrow> Answer ([], b)
      | Some insts \<Rightarrow> hop_asks (type_hint_ok c (types l)) (link_asks ls c p br) (concat (map instance_uris insts)) b)"

fun all_asks :: "('a \<Rightarrow> nat \<Rightarrow> (bool \<times> nat) asking) \<Rightarrow> 'a list \<Rightarrow> nat \<Rightarrow> (bool \<times> nat) asking" where
  "all_asks f [] b = Answer (True, b)"
| "all_asks f (x # xs) b = and_ask (f x b) (\<lambda>(r, b'). if r then all_asks f xs b' else Answer (False, b'))"

fun any_asks :: "('a \<Rightarrow> nat \<Rightarrow> (bool \<times> nat) asking) \<Rightarrow> 'a list \<Rightarrow> nat \<Rightarrow> (bool \<times> nat) asking" where
  "any_asks f [] b = Answer (False, b)"
| "any_asks f (x # xs) b = and_ask (f x b) (\<lambda>(r, b'). if r then Answer (True, b') else any_asks f xs b')"

lemma all_asks_cong [fundef_cong]:
  "xs = ys \<Longrightarrow> b = b' \<Longrightarrow> (\<And>x b. x \<in> set ys \<Longrightarrow> f x b = g x b) \<Longrightarrow> all_asks f xs b = all_asks g ys b'"
proof -
  assume e: "xs = ys" "b = b'" and fg: "\<And>x b. x \<in> set ys \<Longrightarrow> f x b = g x b"
  from fg have "all_asks f ys b' = all_asks g ys b'"
  proof (induction ys arbitrary: b')
    case (Cons y ys)
    then have e: "f y b' = g y b'" "all_asks f ys = all_asks g ys" by (simp_all add: fun_eq_iff)
    show ?case unfolding all_asks.simps e ..
  qed simp
  with e show ?thesis by simp
qed

lemma any_asks_cong [fundef_cong]:
  "xs = ys \<Longrightarrow> b = b' \<Longrightarrow> (\<And>x b. x \<in> set ys \<Longrightarrow> f x b = g x b) \<Longrightarrow> any_asks f xs b = any_asks g ys b'"
proof -
  assume e: "xs = ys" "b = b'" and fg: "\<And>x b. x \<in> set ys \<Longrightarrow> f x b = g x b"
  from fg have "any_asks f ys b' = any_asks g ys b'"
  proof (induction ys arbitrary: b')
    case (Cons y ys)
    then have e: "f y b' = g y b'" "any_asks f ys = any_asks g ys" by (simp_all add: fun_eq_iff)
    show ?case unfolding any_asks.simps e ..
  qed simp
  with e show ?thesis by simp
qed

definition leaf_asks :: "ext \<Rightarrow> jctx \<Rightarrow> json \<Rightarrow> qnode \<Rightarrow> nat \<Rightarrow> (bool \<times> nat) asking" where
  "leaf_asks E c entity n b = (case n of
      Exists p neg \<Rightarrow>
        and_ask (link_asks (links p) c (path p) (bracket p) entity b) (\<lambda>(ts, b'). Answer ((ts \<noteq> []) \<noteq> neg, b'))
    | Cmp p op v \<Rightarrow>
        and_ask (link_asks (links p) c (path p) (bracket p) entity b)
          (\<lambda>(ts, b'). Answer (list_ex (\<lambda>(k, t). kind_allows k op \<and> compare E (term_regex E op v) t op v) ts, b'))
    | _ \<Rightarrow> Answer (False, b))"

fun node_asks :: "ext \<Rightarrow> jctx \<Rightarrow> json \<Rightarrow> qnode \<Rightarrow> nat \<Rightarrow> (bool \<times> nat) asking" where
  "node_asks E c entity (And ns) b = all_asks (node_asks E c entity) ns b"
| "node_asks E c entity (Or ns) b = any_asks (node_asks E c entity) ns b"
| "node_asks E c entity n b = leaf_asks E c entity n b"

definition q_asks :: "ext \<Rightarrow> jctx \<Rightarrow> json \<Rightarrow> qnode \<Rightarrow> bool asking" where
  "q_asks E c entity n = and_ask (node_asks E c entity n MAX_Q_LINK_LOOKUPS) (\<lambda>(r, b). Answer r)"

text \<open>Running the calls is the evaluator, and they are no more than the budget they use up.\<close>

definition runs_to :: "(string \<Rightarrow> json option) \<Rightarrow> (nat \<Rightarrow> ('a \<times> nat) asking) \<Rightarrow> (nat \<Rightarrow> 'a \<times> nat) \<Rightarrow> bool" where
  "runs_to l T f \<longleftrightarrow> (\<forall>b. fst (run_asks l (T b)) = f b \<and> length (snd (run_asks l (T b))) + snd (f b) \<le> b)"

lemma runs_toD: "runs_to l T f \<Longrightarrow> fst (run_asks l (T b)) = f b" "runs_to l T f \<Longrightarrow> length (snd (run_asks l (T b))) + snd (f b) \<le> b"
  by (simp_all add: runs_to_def)

lemma hop_asks_run:
  assumes "\<And>e. runs_to l (walk e) (w e)"
  shows "runs_to l (hop_asks ok walk us) (hop_loop l ok w us)"
  unfolding runs_to_def
proof
  fix b
  show "fst (run_asks l (hop_asks ok walk us b)) = hop_loop l ok w us b \<and>
      length (snd (run_asks l (hop_asks ok walk us b))) + snd (hop_loop l ok w us b) \<le> b"
  proof (induction us arbitrary: b)
    case (Cons u us)
    show ?case
    proof (cases b)
      case (Suc n)
      show ?thesis
      proof (cases "\<exists>e. l u = Some e \<and> ok e")
        case False
        then show ?thesis using Cons [of n] Suc by (cases "l u") (auto split: prod.split)
      next
        case True
        then obtain e where e: "l u = Some e" "ok e" by blast
        obtain ts b' where w: "w e n = (ts, b')" by (cases "w e n")
        obtain ts' b'' where h: "hop_loop l ok w us b' = (ts', b'')" by (cases "hop_loop l ok w us b'")
        have "fst (run_asks l (walk e n)) = (ts, b')" "length (snd (run_asks l (walk e n))) + b' \<le> n"
          using runs_toD [OF assms, of e n] w by simp_all
        moreover have "fst (run_asks l (hop_asks ok walk us b')) = (ts', b'')"
          "length (snd (run_asks l (hop_asks ok walk us b'))) + b'' \<le> b'"
          using Cons [of b'] h by simp_all
        ultimately show ?thesis using Suc e w h by (auto split: prod.split)
      qed
    qed simp
  qed simp
qed

lemma link_asks_run: "runs_to l (link_asks ls c p br e) (resolve_links ls c l p br e)"
proof (induction ls arbitrary: e)
  case Nil
  show ?case by (simp add: runs_to_def)
next
  case (Cons k ls)
  show ?case
  proof (cases "Option.bind (jget e (expand_key c (attr k))) as_array")
    case None
    then show ?thesis by (simp add: runs_to_def)
  next
    case (Some insts)
    from hop_asks_run [of l "link_asks ls c p br" "resolve_links ls c l p br", OF Cons] Some
    show ?thesis by (simp add: runs_to_def)
  qed
qed

lemma all_asks_run:
  "(\<And>x. x \<in> set xs \<Longrightarrow> runs_to l (T x) (f x)) \<Longrightarrow> runs_to l (all_asks T xs) (all_b f xs)"
proof (induction xs)
  case (Cons x xs)
  have x: "runs_to l (T x) (f x)" and xs: "runs_to l (all_asks T xs) (all_b f xs)" using Cons by simp_all
  show ?case
    unfolding runs_to_def
  proof
    fix b
    obtain r b' where f: "f x b = (r, b')" by (cases "f x b")
    from runs_toD [OF x, of b] runs_toD [OF xs, of b'] f
    show "fst (run_asks l (all_asks T (x # xs) b)) = all_b f (x # xs) b \<and>
        length (snd (run_asks l (all_asks T (x # xs) b))) + snd (all_b f (x # xs) b) \<le> b"
      by (cases r) auto
  qed
qed (simp add: runs_to_def)

lemma any_asks_run:
  "(\<And>x. x \<in> set xs \<Longrightarrow> runs_to l (T x) (f x)) \<Longrightarrow> runs_to l (any_asks T xs) (any_b f xs)"
proof (induction xs)
  case (Cons x xs)
  have x: "runs_to l (T x) (f x)" and xs: "runs_to l (any_asks T xs) (any_b f xs)" using Cons by simp_all
  show ?case
    unfolding runs_to_def
  proof
    fix b
    obtain r b' where f: "f x b = (r, b')" by (cases "f x b")
    from runs_toD [OF x, of b] runs_toD [OF xs, of b'] f
    show "fst (run_asks l (any_asks T (x # xs) b)) = any_b f (x # xs) b \<and>
        length (snd (run_asks l (any_asks T (x # xs) b))) + snd (any_b f (x # xs) b) \<le> b"
      by (cases r) auto
  qed
qed (simp add: runs_to_def)

lemma leaf_asks_run: "runs_to l (leaf_asks E c e n) (eval_leaf E c l e n)"
  unfolding runs_to_def
proof
  fix b
  have r: "fst (run_asks l (link_asks (links p) c (path p) (bracket p) e b)) = resolve_qpath c l p e b"
    "length (snd (run_asks l (link_asks (links p) c (path p) (bracket p) e b))) + snd (resolve_qpath c l p e b) \<le> b" for p
    using runs_toD [OF link_asks_run, of l "links p" c "path p" "bracket p" e b] by (simp_all add: resolve_qpath_def)
  show "fst (run_asks l (leaf_asks E c e n b)) = eval_leaf E c l e n b \<and>
      length (snd (run_asks l (leaf_asks E c e n b))) + snd (eval_leaf E c l e n b) \<le> b"
  proof (cases n)
    case (Cmp p op v)
    with r [of p] show ?thesis by (cases "resolve_qpath c l p e b") (simp add: leaf_asks_def eval_leaf_def)
  next
    case (Exists p neg)
    with r [of p] show ?thesis by (cases "resolve_qpath c l p e b") (simp add: leaf_asks_def eval_leaf_def)
  qed (simp_all add: leaf_asks_def eval_leaf_def)
qed

lemma node_asks_run: "runs_to l (node_asks E c e n) (eval_node E c l e n)"
proof (induction n)
  case (And ns)
  from all_asks_run [of ns l "node_asks E c e" "eval_node E c l e"] And show ?case by (simp add: runs_to_def)
next
  case (Or ns)
  from any_asks_run [of ns l "node_asks E c e" "eval_node E c l e"] Or show ?case by (simp add: runs_to_def)
next
  case (Cmp p op v)
  from leaf_asks_run [of l E c e "Cmp p op v"] show ?case by (simp add: runs_to_def)
next
  case (Exists p neg)
  from leaf_asks_run [of l E c e "Exists p neg"] show ?case by (simp add: runs_to_def)
qed

lemma q_asks_run: "fst (run_asks l (q_asks E c e n)) = eval_q E c l e n" "length (snd (run_asks l (q_asks E c e n))) \<le> MAX_Q_LINK_LOOKUPS"
  using runs_toD [OF node_asks_run, of l E c e n MAX_Q_LINK_LOOKUPS]
  by (cases "eval_node E c l e n MAX_Q_LINK_LOOKUPS"; simp add: q_asks_def eval_q_def)+

subsection \<open>The passes\<close>

text \<open>One pass of the evaluation may keep state of its own (the caches of parsed queries and geometries): a pass
  takes what the lookups answer and that state, and gives the answer and the URIs asked for.\<close>

type_synonym 's pass = "(string \<Rightarrow> json option) \<Rightarrow> 's \<Rightarrow> (bool \<times> string list) \<times> 's"

definition fetched :: "json option bmap \<Rightarrow> string \<Rightarrow> json option" where
  "fetched cache u = Option.bind (bm_get cache u) id"

definition fetch_all :: "(string \<Rightarrow> json option) \<Rightarrow> string list \<Rightarrow> json option bmap \<Rightarrow> json option bmap" where
  "fetch_all get us cache = fold (\<lambda>u. bm_insert u (get u)) us cache"

primrec linked_passes :: "nat \<Rightarrow> (string \<Rightarrow> json option) \<Rightarrow> 's pass \<Rightarrow> json option bmap \<Rightarrow> 's \<Rightarrow> bool \<times> 's" where
  "linked_passes 0 get pass cache s = (case pass (fetched cache) s of ((out, asked), s') \<Rightarrow> (out, s'))"
| "linked_passes (Suc n) get pass cache s =
     (case pass (fetched cache) s of ((out, asked), s') \<Rightarrow>
        let missed = filter (\<lambda>u. bm_get cache u = None) asked in
        if missed = [] then (out, s') else linked_passes n get pass (fetch_all get missed cache) s')"

definition linked_eval :: "(string \<Rightarrow> json option) \<Rightarrow> 's pass \<Rightarrow> 's \<Rightarrow> bool \<times> 's" where
  "linked_eval get pass s = linked_passes MAX_Q_LINK_LOOKUPS get pass [] s"

subsection \<open>The passes answer as the store would\<close>

definition cache_true :: "(string \<Rightarrow> json option) \<Rightarrow> json option bmap \<Rightarrow> bool" where
  "cache_true get cache \<longleftrightarrow> (\<forall>u d. bm_get cache u = Some d \<longrightarrow> d = get u)"

definition pending :: "(string \<Rightarrow> json option) \<Rightarrow> json option bmap \<Rightarrow> bool asking \<Rightarrow> string list" where
  "pending get cache T = dropWhile (\<lambda>u. bm_get cache u \<noteq> None) (snd (run_asks get T))"

lemma fetched_true: "cache_true get cache \<Longrightarrow> bm_get cache u \<noteq> None \<Longrightarrow> fetched cache u = get u"
  by (auto simp: cache_true_def fetched_def)

lemma run_fetched: "cache_true get cache \<Longrightarrow> pending get cache T = [] \<Longrightarrow> run_asks (fetched cache) T = run_asks get T"
proof (induction T)
  case (Ask u k)
  then have "bm_get cache u \<noteq> None" "pending get cache (k (get u)) = []"
    by (auto simp: pending_def split: prod.split_asm if_split_asm)
  with Ask fetched_true [OF Ask.prems(1)] show ?case by simp
qed (simp add: pending_def)

lemma run_first_miss:
  "cache_true get cache \<Longrightarrow> pending get cache T = u # us \<Longrightarrow> u \<in> set (snd (run_asks (fetched cache) T)) \<and> bm_get cache u = None"
proof (induction T)
  case (Ask v k)
  show ?case
  proof (cases "bm_get cache v = None")
    case True
    with Ask.prems show ?thesis by (auto simp: pending_def split: prod.splits)
  next
    case False
    with Ask.prems(2) have "pending get cache (k (get v)) = u # us" by (auto simp: pending_def split: prod.splits)
    from Ask.IH [OF _ Ask.prems(1) this] fetched_true [OF Ask.prems(1) False] show ?thesis by (auto split: prod.splits)
  qed
qed (simp add: pending_def)

lemma fetch_all_get: "bm_get (fetch_all get us cache) u = (if u \<in> set us then Some (get u) else bm_get cache u)"
  unfolding fetch_all_def by (induction us arbitrary: cache) auto

lemma fetch_all_true: "cache_true get cache \<Longrightarrow> cache_true get (fetch_all get us cache)"
  by (simp add: cache_true_def fetch_all_get)

lemma dropWhile_twice: "(\<And>x. P x \<Longrightarrow> Q x) \<Longrightarrow> dropWhile Q (dropWhile P xs) = dropWhile Q xs"
  by (induction xs) auto

lemma pending_shrinks:
  assumes "pending get cache T = u # us" "u \<in> set ws"
  shows "length (pending get (fetch_all get ws cache) T) \<le> length us"
proof -
  let ?P = "\<lambda>v. bm_get cache v \<noteq> None" and ?Q = "\<lambda>v. bm_get (fetch_all get ws cache) v \<noteq> None"
  have le: "?Q v" if "?P v" for v using that by (simp add: fetch_all_get)
  have "dropWhile ?Q xs = dropWhile ?Q (dropWhile ?P xs)" for xs
    by (rule dropWhile_twice [OF le, symmetric])
  then have "pending get (fetch_all get ws cache) T = dropWhile ?Q (u # us)" using assms(1) by (metis pending_def)
  then show ?thesis using assms(2) by (simp add: fetch_all_get length_dropWhile_le)
qed

lemma linked_passes_exact:
  assumes pass: "\<And>l s. ok s \<Longrightarrow> fst (pass l s) = run_asks l T \<and> ok (snd (pass l s))"
  shows "cache_true get cache \<Longrightarrow> length (pending get cache T) \<le> n \<Longrightarrow> ok s \<Longrightarrow>
     fst (linked_passes n get pass cache s) = fst (run_asks get T) \<and> ok (snd (linked_passes n get pass cache s))"
proof (induction n arbitrary: cache s)
  case 0
  obtain out asked s' where p: "pass (fetched cache) s = ((out, asked), s')" by (cases "pass (fetched cache) s") auto
  from 0 run_fetched [of get cache T] have "run_asks (fetched cache) T = run_asks get T" by simp
  with pass [OF 0(3), of "fetched cache"] p have "fst (run_asks get T) = out" "ok s'" by (metis fst_conv, simp)
  then show ?case by (simp add: p)
next
  case (Suc n)
  obtain out asked s' where p: "pass (fetched cache) s = ((out, asked), s')" by (cases "pass (fetched cache) s") auto
  with pass [OF Suc.prems(3), of "fetched cache"] have r: "run_asks (fetched cache) T = (out, asked)" and s': "ok s'" by simp_all
  let ?missed = "filter (\<lambda>u. bm_get cache u = None) asked"
  show ?case
  proof (cases "pending get cache T")
    case Nil
    from run_fetched [OF Suc.prems(1) Nil] r have t: "run_asks get T = (out, asked)" by simp
    have "?missed = []" using Nil t by (auto simp: pending_def filter_empty_conv dropWhile_eq_Nil_conv)
    with p t s' show ?thesis by simp
  next
    case (Cons u us)
    from run_first_miss [OF Suc.prems(1) Cons] r have u: "u \<in> set ?missed" by simp
    then have "?missed \<noteq> []" by (metis empty_iff list.set(1))
    moreover have "length (pending get (fetch_all get ?missed cache) T) \<le> n"
      using pending_shrinks [OF Cons u] Cons Suc.prems(2) by simp
    ultimately show ?thesis
      using Suc.IH [OF fetch_all_true [OF Suc.prems(1)] _ s'] p by (simp add: Let_def)
  qed
qed

lemma linked_eval_exact:
  assumes "\<And>l s. ok s \<Longrightarrow> fst (pass l s) = run_asks l T \<and> ok (snd (pass l s))"
    and "length (snd (run_asks get T)) \<le> MAX_Q_LINK_LOOKUPS" "ok s"
  shows "fst (linked_eval get pass s) = fst (run_asks get T) \<and> ok (snd (linked_eval get pass s))"
  unfolding linked_eval_def
  by (rule linked_passes_exact [of ok pass T, OF assms(1)])
    (use assms(2,3) in \<open>auto simp: cache_true_def pending_def intro: order_trans [OF length_dropWhile_le]\<close>)

end
