(* ===== verification/Mirror.thy ===== *)
theory Mirror
  imports Matcher
begin

text \<open>
  The subscription mirror and its inverted candidate index (\<open>antares-api/src/mirror.rs\<close>).  A bucket map files
  document ids under keys; the locale \<open>doc_index\<close> is the contract between a document map and an index derived
  from it, which the registration mirror (theory \<open>Registry\<close>) fulfils as well.
\<close>

subsection \<open>Buckets\<close>

type_synonym buckets = "string set bmap"

definition bucket :: "buckets \<Rightarrow> string \<Rightarrow> string set" where
  "bucket bk k = (case bm_get bk k of None \<Rightarrow> {} | Some s \<Rightarrow> s)"

definition file_under :: "string \<Rightarrow> string \<Rightarrow> buckets \<Rightarrow> buckets" where
  "file_under i k bk = bm_insert k (insert i (bucket bk k)) bk"

definition unfile_from :: "string \<Rightarrow> string \<Rightarrow> buckets \<Rightarrow> buckets" where
  "unfile_from i k bk = (case bm_get bk k of
     None \<Rightarrow> bk
   | Some s \<Rightarrow> (let s' = s - {i} in if s' = {} then bm_remove k bk else bm_insert k s' bk))"

definition buckets_ok :: "buckets \<Rightarrow> bool" where
  "buckets_ok bk \<longleftrightarrow> bm_ok bk \<and> (\<forall>k. bm_get bk k \<noteq> Some {})"

lemma file_under_bucket: "buckets_ok bk \<Longrightarrow> bucket (file_under i k bk) j = (if j = k then insert i (bucket bk k) else bucket bk j)"
  by (simp add: file_under_def bucket_def)

lemma file_under_ok: "buckets_ok bk \<Longrightarrow> buckets_ok (file_under i k bk)"
  by (simp add: file_under_def buckets_ok_def bm_insert_ok)

lemma unfile_from_bucket: "buckets_ok bk \<Longrightarrow> bucket (unfile_from i k bk) j = (if j = k then bucket bk k - {i} else bucket bk j)"
  by (auto simp: unfile_from_def bucket_def Let_def split: option.splits)

lemma unfile_from_ok: "buckets_ok bk \<Longrightarrow> buckets_ok (unfile_from i k bk)"
  by (auto simp: unfile_from_def buckets_ok_def bm_insert_ok bm_remove_ok Let_def split: option.splits)

lemma fold_file:
  "buckets_ok bk \<Longrightarrow> buckets_ok (fold (file_under i) ks bk) \<and>
     bucket (fold (file_under i) ks bk) j = (if j \<in> set ks then insert i (bucket bk j) else bucket bk j)"
  by (induction ks arbitrary: bk) (auto simp: file_under_ok file_under_bucket)

lemma fold_unfile:
  "buckets_ok bk \<Longrightarrow> buckets_ok (fold (unfile_from i) ks bk) \<and>
     bucket (fold (unfile_from i) ks bk) j = (if j \<in> set ks then bucket bk j - {i} else bucket bk j)"
  by (induction ks arbitrary: bk) (auto simp: unfile_from_ok unfile_from_bucket)

subsection \<open>A document map and its index\<close>

text \<open>\<open>places d\<close> are the buckets a document belongs in, and \<open>filed ix p i\<close> says that \<open>i\<close> is in bucket \<open>p\<close>.\<close>

definition index_consistent :: "(json \<Rightarrow> 'p set) \<Rightarrow> ('ix \<Rightarrow> 'p \<Rightarrow> string \<Rightarrow> bool) \<Rightarrow> ('ix \<Rightarrow> bool) \<Rightarrow> json bmap \<Rightarrow> 'ix \<Rightarrow> bool" where
  "index_consistent places filed good docs ix \<longleftrightarrow>
     bm_ok docs \<and> good ix \<and> (\<forall>p i. filed ix p i \<longleftrightarrow> (\<exists>d. bm_get docs i = Some d \<and> p \<in> places d))"

locale doc_index =
  fixes places :: "json \<Rightarrow> 'p set"
    and put :: "string \<Rightarrow> json \<Rightarrow> 'ix \<Rightarrow> 'ix"
    and take_out :: "string \<Rightarrow> json \<Rightarrow> 'ix \<Rightarrow> 'ix"
    and filed :: "'ix \<Rightarrow> 'p \<Rightarrow> string \<Rightarrow> bool"
    and good :: "'ix \<Rightarrow> bool"
  assumes wf_file: "good ix \<Longrightarrow> good (put i d ix)"
    and wf_unfile: "good ix \<Longrightarrow> good (take_out i d ix)"
    and filed_file: "good ix \<Longrightarrow> filed (put i d ix) p j \<longleftrightarrow> filed ix p j \<or> j = i \<and> p \<in> places d"
    and filed_unfile: "good ix \<Longrightarrow> filed (take_out i d ix) p j \<longleftrightarrow> filed ix p j \<and> \<not> (j = i \<and> p \<in> places d)"
begin

lemma drop_absent:
  "index_consistent places filed good docs ix \<Longrightarrow> bm_get docs i = None \<Longrightarrow>
     index_consistent places filed good (bm_remove i docs) ix"
  by (simp add: index_consistent_def bm.del_absent)

lemma drop_present:
  "index_consistent places filed good docs ix \<Longrightarrow> bm_get docs i = Some d \<Longrightarrow>
     index_consistent places filed good (bm_remove i docs) (take_out i d ix)"
  by (auto simp: index_consistent_def bm_remove_ok wf_unfile filed_unfile)

lemma put_absent:
  "index_consistent places filed good docs ix \<Longrightarrow> bm_get docs i = None \<Longrightarrow>
     index_consistent places filed good (bm_insert i d docs) (put i d ix)"
  by (auto simp: index_consistent_def bm_insert_ok wf_file filed_file)

lemma filed_iff:
  "index_consistent places filed good docs ix \<Longrightarrow> filed ix p i \<longleftrightarrow> (\<exists>d. bm_get docs i = Some d \<and> p \<in> places d)"
  by (simp add: index_consistent_def)

end

subsection \<open>The subscription mirror\<close>

datatype keys = Types "string list" | Attrs "string list" | Broad

definition OPAQUE :: "string" where
  "OPAQUE = ''|,;()*''"

definition entry_type :: "json \<Rightarrow> string option" where
  "entry_type e = (case sub_str e ''type'' of
     None \<Rightarrow> None
   | Some t \<Rightarrow> if list_ex (\<lambda>ch. ch \<in> set OPAQUE) t then None else Some t)"

text \<open>The loop over the entries returns \<open>Broad\<close> at the first one whose type it cannot file.\<close>

fun entry_types :: "json list \<Rightarrow> string list option" where
  "entry_types [] = Some []"
| "entry_types (e # es) = (case entry_type e of
     None \<Rightarrow> None | Some t \<Rightarrow> map_option (\<lambda>ts. t # ts) (entry_types es))"

definition index_keys :: "json \<Rightarrow> keys" where
  "index_keys doc = (case Option.bind (jget doc ''entities'') as_array of
     Some es \<Rightarrow> (case entry_types es of
         None \<Rightarrow> Broad
       | Some ts \<Rightarrow> if ts = [] then Broad else Types ts)
   | None \<Rightarrow> (case Option.bind (jget doc ''watchedAttributes'') as_array of
         Some ws \<Rightarrow> (let as = List.map_filter as_str ws in
           if length as = length ws \<and> as \<noteq> [] then Attrs as else Broad)
       | None \<Rightarrow> Broad))"

record tenant_index =
  ti_docs :: "json bmap"
  ti_by_type :: buckets
  ti_by_attr :: buckets
  ti_broad :: "string set"

definition empty_index :: tenant_index where
  "empty_index = \<lparr>ti_docs = [], ti_by_type = [], ti_by_attr = [], ti_broad = {}\<rparr>"

record sub_mirror =
  sm_map :: "tenant_index bmap"
  sm_next_sub :: int
  sm_next_csub :: int

definition new_mirror :: sub_mirror where
  "new_mirror = \<lparr>sm_map = [], sm_next_sub = 0, sm_next_csub = 0\<rparr>"

definition index_unfile :: "string \<Rightarrow> json \<Rightarrow> tenant_index \<Rightarrow> tenant_index" where
  "index_unfile i d t = (case index_keys d of
     Types ts \<Rightarrow> t\<lparr>ti_by_type := fold (unfile_from i) ts (ti_by_type t)\<rparr>
   | Attrs as \<Rightarrow> t\<lparr>ti_by_attr := fold (unfile_from i) as (ti_by_attr t)\<rparr>
   | Broad \<Rightarrow> t\<lparr>ti_broad := ti_broad t - {i}\<rparr>)"

definition index_file :: "string \<Rightarrow> json \<Rightarrow> tenant_index \<Rightarrow> tenant_index" where
  "index_file i d t = (case index_keys d of
     Types ts \<Rightarrow> t\<lparr>ti_by_type := fold (file_under i) ts (ti_by_type t)\<rparr>
   | Attrs as \<Rightarrow> t\<lparr>ti_by_attr := fold (file_under i) as (ti_by_attr t)\<rparr>
   | Broad \<Rightarrow> t\<lparr>ti_broad := insert i (ti_broad t)\<rparr>)"

definition forget_sub :: "string \<Rightarrow> tenant_index \<Rightarrow> tenant_index" where
  "forget_sub i t = (case bm_get (ti_docs t) i of
     None \<Rightarrow> t
   | Some old \<Rightarrow> index_unfile i old (t\<lparr>ti_docs := bm_remove i (ti_docs t)\<rparr>))"

definition keep_sub :: "string \<Rightarrow> json option \<Rightarrow> tenant_index \<Rightarrow> tenant_index" where
  "keep_sub i doc t = (case doc of
     None \<Rightarrow> t
   | Some d \<Rightarrow> (let t = index_file i d t in t\<lparr>ti_docs := bm_insert i d (ti_docs t)\<rparr>))"

definition periodic :: "json \<Rightarrow> bool" where
  "periodic d \<longleftrightarrow> jget d ''timeInterval'' \<noteq> None"

definition mirror_apply :: "string \<Rightarrow> string \<Rightarrow> json option \<Rightarrow> sub_mirror \<Rightarrow> sub_mirror" where
  "mirror_apply tn i doc m =
     (let t0 = (case bm_get (sm_map m) tn of None \<Rightarrow> empty_index | Some t \<Rightarrow> t);
          t = keep_sub i doc (forget_sub i t0);
          clock = (case doc of None \<Rightarrow> sm_next_sub m | Some d \<Rightarrow> if periodic d then 0 else sm_next_sub m)
      in m\<lparr>sm_map := (if ti_docs t = [] then bm_remove tn (sm_map m) else bm_insert tn t (sm_map m)), sm_next_sub := clock\<rparr>)"

definition csub_written :: "sub_mirror \<Rightarrow> sub_mirror" where
  "csub_written m = m\<lparr>sm_next_csub := 0\<rparr>"

definition candidate_ids :: "tenant_index \<Rightarrow> string list \<Rightarrow> string list \<Rightarrow> string set" where
  "candidate_ids t tys changed =
     ti_broad t \<union> (\<Union>ty\<in>set tys. bucket (ti_by_type t) ty) \<union> (\<Union>a\<in>set changed. bucket (ti_by_attr t) a)"

definition sub_candidates :: "sub_mirror \<Rightarrow> string \<Rightarrow> string list \<Rightarrow> string list \<Rightarrow> json list" where
  "sub_candidates m tn tys changed = (case bm_get (sm_map m) tn of
     None \<Rightarrow> []
   | Some t \<Rightarrow> map snd (filter (\<lambda>e. fst e \<in> candidate_ids t tys changed) (ti_docs t)))"

definition mirror_docs :: "sub_mirror \<Rightarrow> string \<Rightarrow> json list" where
  "mirror_docs m tn = (case bm_get (sm_map m) tn of None \<Rightarrow> [] | Some t \<Rightarrow> bm_values (ti_docs t))"

definition periodic_docs :: "sub_mirror \<Rightarrow> string \<Rightarrow> json list" where
  "periodic_docs m tn = (case bm_get (sm_map m) tn of None \<Rightarrow> [] | Some t \<Rightarrow> filter periodic (bm_values (ti_docs t)))"

subsection \<open>The index is derived from the documents\<close>

datatype place = PType string | PAttr string | PBroad

definition sub_places :: "json \<Rightarrow> place set" where
  "sub_places d = (case index_keys d of Types ts \<Rightarrow> PType ` set ts | Attrs as \<Rightarrow> PAttr ` set as | Broad \<Rightarrow> {PBroad})"

fun sub_filed :: "tenant_index \<Rightarrow> place \<Rightarrow> string \<Rightarrow> bool" where
  "sub_filed t (PType k) i = (i \<in> bucket (ti_by_type t) k)"
| "sub_filed t (PAttr k) i = (i \<in> bucket (ti_by_attr t) k)"
| "sub_filed t PBroad i = (i \<in> ti_broad t)"

definition sub_index_ok :: "tenant_index \<Rightarrow> bool" where
  "sub_index_ok t \<longleftrightarrow> buckets_ok (ti_by_type t) \<and> buckets_ok (ti_by_attr t)"

interpretation sub_ix: doc_index sub_places index_file index_unfile sub_filed sub_index_ok
proof
  fix ix :: tenant_index and i d p j
  assume ok: "sub_index_ok ix"
  then show "sub_index_ok (index_file i d ix)" "sub_index_ok (index_unfile i d ix)"
    by (auto simp: sub_index_ok_def index_file_def index_unfile_def fold_file fold_unfile split: keys.split)
  from ok show "sub_filed (index_file i d ix) p j \<longleftrightarrow> sub_filed ix p j \<or> j = i \<and> p \<in> sub_places d"
    by (cases p) (auto simp: sub_index_ok_def index_file_def sub_places_def fold_file split: keys.split)
  from ok show "sub_filed (index_unfile i d ix) p j \<longleftrightarrow> sub_filed ix p j \<and> \<not> (j = i \<and> p \<in> sub_places d)"
    by (cases p) (auto simp: sub_index_ok_def index_unfile_def sub_places_def fold_unfile split: keys.split)
qed

definition tenant_index_ok :: "tenant_index \<Rightarrow> bool" where
  "tenant_index_ok t \<longleftrightarrow> index_consistent sub_places sub_filed sub_index_ok (ti_docs t) t"

lemma index_docs [simp]:
  "ti_docs (index_file i d t) = ti_docs t" "ti_docs (index_unfile i d t) = ti_docs t"
  "index_consistent sub_places sub_filed sub_index_ok ds (t\<lparr>ti_docs := es\<rparr>) = index_consistent sub_places sub_filed sub_index_ok ds t"
proof -
  have "sub_filed (t\<lparr>ti_docs := es\<rparr>) p i = sub_filed t p i" for p i by (cases p) simp_all
  then show "index_consistent sub_places sub_filed sub_index_ok ds (t\<lparr>ti_docs := es\<rparr>) = index_consistent sub_places sub_filed sub_index_ok ds t"
    by (simp add: index_consistent_def sub_index_ok_def)
qed (simp_all add: index_file_def index_unfile_def split: keys.split)

lemma index_file_update: "index_file i d (t\<lparr>ti_docs := es\<rparr>) = (index_file i d t)\<lparr>ti_docs := es\<rparr>"
  by (simp add: index_file_def split: keys.split)

lemma index_unfile_update: "index_unfile i d (t\<lparr>ti_docs := es\<rparr>) = (index_unfile i d t)\<lparr>ti_docs := es\<rparr>"
  by (simp add: index_unfile_def split: keys.split)

lemma forget_sub_ok:
  assumes "tenant_index_ok t"
  shows "tenant_index_ok (forget_sub i t)" "ti_docs (forget_sub i t) = bm_remove i (ti_docs t)"
proof -
  have c: "index_consistent sub_places sub_filed sub_index_ok (ti_docs t) t" using assms by (simp add: tenant_index_ok_def)
  have "tenant_index_ok (forget_sub i t) \<and> ti_docs (forget_sub i t) = bm_remove i (ti_docs t)"
  proof (cases "bm_get (ti_docs t) i")
    case None
    with c have "bm_remove i (ti_docs t) = ti_docs t" by (simp add: index_consistent_def bm.del_absent)
    with None assms show ?thesis by (simp add: forget_sub_def)
  next
    case (Some d)
    from sub_ix.drop_present [OF c Some] Some show ?thesis
      by (simp add: forget_sub_def tenant_index_ok_def index_unfile_update)
  qed
  then show "tenant_index_ok (forget_sub i t)" "ti_docs (forget_sub i t) = bm_remove i (ti_docs t)" by blast+
qed

lemma keep_sub_ok:
  assumes "tenant_index_ok t" "bm_get (ti_docs t) i = None"
  shows "tenant_index_ok (keep_sub i doc t)"
    "ti_docs (keep_sub i doc t) = (case doc of None \<Rightarrow> ti_docs t | Some d \<Rightarrow> bm_insert i d (ti_docs t))"
proof -
  have c: "index_consistent sub_places sub_filed sub_index_ok (ti_docs t) t" using assms by (simp add: tenant_index_ok_def)
  from sub_ix.put_absent [OF c assms(2)] assms(1)
  show "tenant_index_ok (keep_sub i doc t)"
    by (simp add: keep_sub_def tenant_index_ok_def Let_def split: option.split)
  show "ti_docs (keep_sub i doc t) = (case doc of None \<Rightarrow> ti_docs t | Some d \<Rightarrow> bm_insert i d (ti_docs t))"
    by (simp add: keep_sub_def Let_def split: option.split)
qed

lemma empty_index_ok: "tenant_index_ok empty_index"
proof -
  have "\<not> sub_filed empty_index p i" for p i by (cases p) (simp_all add: empty_index_def bucket_def)
  then show ?thesis by (simp add: tenant_index_ok_def index_consistent_def sub_index_ok_def buckets_ok_def empty_index_def)
qed

subsection \<open>The mirror is the last delta of every document\<close>

definition mirror_ok :: "sub_mirror \<Rightarrow> bool" where
  "mirror_ok m \<longleftrightarrow> bm_ok (sm_map m) \<and> (\<forall>tn t. bm_get (sm_map m) tn = Some t \<longrightarrow> tenant_index_ok t \<and> ti_docs t \<noteq> [])"

definition held :: "sub_mirror \<Rightarrow> string \<Rightarrow> string \<Rightarrow> json option" where
  "held m tn i = Option.bind (bm_get (sm_map m) tn) (\<lambda>t. bm_get (ti_docs t) i)"

type_synonym delta = "string \<times> string \<times> json option"

definition mirrored :: "delta list \<Rightarrow> sub_mirror" where
  "mirrored ds = fold (\<lambda>(tn, i, doc). mirror_apply tn i doc) ds new_mirror"

definition latest :: "delta list \<Rightarrow> string \<Rightarrow> string \<Rightarrow> json option" where
  "latest ds tn i = fold (\<lambda>(tn', i', doc) cur. if tn' = tn \<and> i' = i then doc else cur) ds None"

lemma mirror_apply_step:
  assumes "mirror_ok m"
  shows "mirror_ok (mirror_apply tn i doc m)"
    "held (mirror_apply tn i doc m) tn' j = (if tn = tn' \<and> i = j then doc else held m tn' j)"
proof -
  define t0 where "t0 = (case bm_get (sm_map m) tn of None \<Rightarrow> empty_index | Some t \<Rightarrow> t)"
  define t where "t = keep_sub i doc (forget_sub i t0)"
  have t0: "tenant_index_ok t0" "bm_ok (ti_docs t0)"
    using assms empty_index_ok
    by (auto simp: mirror_ok_def t0_def tenant_index_ok_def index_consistent_def split: option.split)
  have absent: "bm_get (ti_docs (forget_sub i t0)) i = None" by (simp add: forget_sub_ok [OF t0(1)])
  have t: "tenant_index_ok t" "\<And>k. bm_get (ti_docs t) k = (if k = i then doc else bm_get (ti_docs t0) k)"
    using keep_sub_ok [OF forget_sub_ok(1) [OF t0(1)] absent] forget_sub_ok(2) [OF t0(1)]
    by (auto simp: t_def split: option.split)
  have map: "sm_map (mirror_apply tn i doc m) = (if ti_docs t = [] then bm_remove tn (sm_map m) else bm_insert tn t (sm_map m))"
    by (simp add: mirror_apply_def Let_def t_def t0_def)
  show "mirror_ok (mirror_apply tn i doc m)"
    using assms t(1) by (auto simp: mirror_ok_def map bm_laws split: if_split_asm)
  have old: "held m tn j = bm_get (ti_docs t0) j" for j
    by (simp add: held_def t0_def empty_index_def split: option.split)
  have "held (mirror_apply tn i doc m) tn j = bm_get (ti_docs t) j" for j
    using assms t(2) [of j] by (auto simp: held_def map mirror_ok_def)
  moreover have "held (mirror_apply tn i doc m) tn' j = held m tn' j" if "tn' \<noteq> tn" for tn' j
    using that by (simp add: held_def map)
  ultimately show "held (mirror_apply tn i doc m) tn' j = (if tn = tn' \<and> i = j then doc else held m tn' j)"
    by (cases "tn' = tn") (auto simp: t(2) old)
qed

lemma mirrored_ok: "mirror_ok (mirrored ds) \<and> held (mirrored ds) tn i = latest ds tn i"
proof (induction ds rule: rev_induct)
  case Nil
  show ?case by (simp add: mirrored_def latest_def mirror_ok_def new_mirror_def held_def)
next
  case (snoc d ds)
  obtain tn' i' doc where "d = (tn', i', doc)" by (cases d)
  with snoc mirror_apply_step(1) [of "mirrored ds" tn' i' doc] mirror_apply_step(2) [of "mirrored ds" tn' i' doc tn i]
  show ?case by (simp add: mirrored_def latest_def)
qed

subsection \<open>The candidates\<close>

definition place_hit :: "string list \<Rightarrow> string list \<Rightarrow> json \<Rightarrow> bool" where
  "place_hit tys changed d = (case index_keys d of
     Types ts \<Rightarrow> set ts \<inter> set tys \<noteq> {} | Attrs as \<Rightarrow> set as \<inter> set changed \<noteq> {} | Broad \<Rightarrow> True)"

lemma candidate_iff:
  assumes "tenant_index_ok t" "bm_get (ti_docs t) i = Some d"
  shows "i \<in> candidate_ids t tys changed \<longleftrightarrow> place_hit tys changed d"
proof -
  have "sub_filed t p i \<longleftrightarrow> p \<in> sub_places d" for p
    using assms by (auto simp: tenant_index_ok_def sub_ix.filed_iff)
  from this [of PBroad] this [of "PType _"] this [of "PAttr _"]
  show ?thesis by (auto simp: candidate_ids_def place_hit_def sub_places_def split: keys.split)
qed

lemma candidates_filter:
  assumes "mirror_ok m" and hit: "\<And>d. d \<in> set (mirror_docs m tn) \<Longrightarrow> P d \<Longrightarrow> place_hit tys changed d"
  shows "filter P (sub_candidates m tn tys changed) = filter P (mirror_docs m tn)"
proof (cases "bm_get (sm_map m) tn")
  case (Some t)
  then have ok: "tenant_index_ok t" using assms(1) by (auto simp: mirror_ok_def)
  then have "bm_ok (ti_docs t)" by (auto simp: tenant_index_ok_def index_consistent_def)
  then have "fst e \<in> candidate_ids t tys changed" if "e \<in> set (ti_docs t)" "P (snd e)" for e
    using that candidate_iff [OF ok, of "fst e" "snd e" tys changed] hit [of "snd e"] Some
    by (auto simp: bm_get_iff mirror_docs_def bm_values_def)
  then show ?thesis
    by (auto simp: sub_candidates_def mirror_docs_def bm_values_def Some filter_map comp_def intro!: arg_cong [where f = "map snd"] filter_cong)
qed (simp add: sub_candidates_def mirror_docs_def)

end
