(* ===== verification/Changes.thy ===== *)
theory Changes
  imports Joins Linked Mirror
begin

text \<open>
  What a write changed (\<open>antares-api/src/notify.rs\<close>): the difference of two internal documents per attribute, the
  instances that are new, changed or gone, and the tombstones and previous values of a notification's payload.
\<close>

datatype change_class = Created | Updated | Deleted

lemma size_json_entry: "(k, v) \<in> set m \<Longrightarrow> size v < size (JObj m)"
proof -
  assume a: "(k, v) \<in> set m"
  have "size v \<le> size_list (\<lambda>e. size (snd e)) m"
    using size_list_estimation' [OF a, of "size v" "\<lambda>e. size (snd e)"] by simp
  moreover have "size_list (\<lambda>e. size (snd e)) m \<le> size_list (size_prod (\<lambda>_. 0) size) m"
    by (intro size_list_pointwise) (auto split: prod.splits)
  ultimately show ?thesis by simp
qed

lemma size_zip_left: "(x :: json, y :: json) \<in> set (zip xs ys) \<Longrightarrow> size x < Suc (size_list size xs)"
  using size_list_estimation' [OF set_zip_leftD, of x y xs ys "size x" size] by simp

subsection \<open>Comparing instances\<close>

definition VOLATILE :: "string list" where
  "VOLATILE = [''createdAt'', ''modifiedAt'', ''instanceId'']"

definition stable_members :: "jobj \<Rightarrow> jobj" where
  "stable_members m = filter (\<lambda>e. fst e \<notin> set VOLATILE) m"

function stable_eq :: "json \<Rightarrow> json \<Rightarrow> bool" where
  "stable_eq a b = (case (a, b) of
     (JObj oa, JObj ob) \<Rightarrow>
       length (stable_members oa) = length (stable_members ob) \<and>
       list_all (\<lambda>(k, va). case bm_get ob k of None \<Rightarrow> False | Some vb \<Rightarrow> stable_eq va vb) (stable_members oa)
   | (JArr aa, JArr ab) \<Rightarrow> length aa = length ab \<and> list_all (\<lambda>(x, y). stable_eq x y) (zip aa ab)
   | _ \<Rightarrow> a = b)"
  by pat_completeness auto
termination
proof (relation "measure (\<lambda>(a, b). size a)", goal_cases)
  case 1
  then show ?case by simp
next
  case 2
  then show ?case by (auto intro: size_zip_left)
next
  case 3
  then show ?case by (auto simp: stable_members_def dest!: size_json_entry)
qed

declare stable_eq.simps [simp del]

subsection \<open>The difference of two documents\<close>

definition attr_keys :: "json \<Rightarrow> string list" where
  "attr_keys doc = (case doc of JObj m \<Rightarrow> filter (\<lambda>k. k \<notin> set ENTITY_META_KEYS) (bm_keys m) | _ \<Rightarrow> [])"

definition instance_ds :: "json \<Rightarrow> string option" where
  "instance_ds inst = Option.bind (jget inst ''datasetId'') as_str"

definition array_or_empty :: "json option \<Rightarrow> json list" where
  "array_or_empty v = (case v of Some (JArr xs) \<Rightarrow> xs | _ \<Rightarrow> [])"

definition same_ds :: "json \<Rightarrow> json list \<Rightarrow> json option" where
  "same_ds i xs = find (\<lambda>x. instance_ds x = instance_ds i) xs"

definition changed_since :: "json list \<Rightarrow> json \<Rightarrow> bool" where
  "changed_since bs ai = (case same_ds ai bs of None \<Rightarrow> True | Some bi \<Rightarrow> \<not> stable_eq bi ai)"

definition diff_key :: "json \<Rightarrow> json \<Rightarrow> string \<Rightarrow> (string \<times> change_class) list" where
  "diff_key b a k = (case (jget b k, jget a k) of
     (None, Some _) \<Rightarrow> [(k, Created)]
   | (Some _, None) \<Rightarrow> [(k, Deleted)]
   | (Some x, Some y) \<Rightarrow>
       (let bx = array_or_empty (Some x); ay = array_or_empty (Some y) in
        if list_ex (\<lambda>bi. same_ds bi ay = None) bx
        then (k, Deleted) # (if list_ex (changed_since bx) ay then [(k, Updated)] else [])
        else if \<not> stable_eq x y then [(k, Updated)] else [])
   | (None, None) \<Rightarrow> [])"

definition opt_doc :: "json option \<Rightarrow> json" where
  "opt_doc d = (case d of None \<Rightarrow> JObj [] | Some v \<Rightarrow> v)"

definition diff :: "json option \<Rightarrow> json option \<Rightarrow> (string \<times> change_class) list" where
  "diff before after =
     (let b = opt_doc before; a = opt_doc after;
          ks = fold (\<lambda>k ks. if k \<in> set ks then ks else ks @ [k]) (attr_keys a) (attr_keys b)
      in concat (map (diff_key b a) ks))"

definition changed_instances :: "json option \<Rightarrow> json \<Rightarrow> json list" where
  "changed_instances before after = filter (changed_since (array_or_empty before)) (array_or_empty (Some after))"

definition deleted_instances :: "json \<Rightarrow> json option \<Rightarrow> string \<Rightarrow> json list" where
  "deleted_instances before after k =
     (let a = array_or_empty (Option.bind after (\<lambda>d. jget d k))
      in filter (\<lambda>bi. same_ds bi a = None) (array_or_empty (jget before k)))"

subsection \<open>Tombstones and previous values\<close>

definition null_members :: "string \<Rightarrow> string \<times> json \<times> string" where
  "null_members t =
     (let null = JStr NGSI_NULL in
      if t = ''Relationship'' then (''object'', null, ''previousObject'')
      else if t = ''LanguageProperty'' then (''languageMap'', mkobj [(''@none'', null)], ''previousLanguageMap'')
      else if t = ''JsonProperty'' then (''json'', null, ''previousJson'')
      else if t = ''VocabProperty'' then (''vocab'', null, ''previousVocab'')
      else (''value'', null, ''previousValue''))"

definition inst_type :: "json \<Rightarrow> string" where
  "inst_type inst = (case Option.bind (jget inst ''type'') as_str of None \<Rightarrow> ''Property'' | Some t \<Rightarrow> t)"

definition copy_member :: "json \<Rightarrow> string \<Rightarrow> string \<Rightarrow> jobj \<Rightarrow> jobj" where
  "copy_member src k k' m = (case jget src k of None \<Rightarrow> m | Some v \<Rightarrow> bm_insert k' v m)"

definition tombstone :: "bool \<Rightarrow> bool \<Rightarrow> string \<Rightarrow> json \<Rightarrow> jobj" where
  "tombstone sys sh now bi = (case null_members (inst_type bi) of (member, null, prev) \<Rightarrow>
     let m = copy_member bi ''datasetId'' ''datasetId'' (bm_insert member null [(''type'', JStr (inst_type bi))]);
         m = (if sys then bm_insert ''deletedAt'' (JStr now)
                (copy_member bi ''modifiedAt'' ''modifiedAt'' (copy_member bi ''createdAt'' ''createdAt'' m)) else m)
     in if sh then copy_member bi member prev m else m)"

definition decorate_instance :: "json \<Rightarrow> string \<Rightarrow> json \<Rightarrow> json" where
  "decorate_instance b k inst = (case same_ds inst (array_or_empty (jget b k)) of
     None \<Rightarrow> inst
   | Some bi \<Rightarrow> (case null_members (inst_type inst) of (member, _, prev) \<Rightarrow>
       if jget bi member = jget inst member then inst
       else (case (jget bi member, inst) of (Some pv, JObj m) \<Rightarrow> JObj (bm_insert prev pv m) | _ \<Rightarrow> inst)))"

definition decorate :: "json \<Rightarrow> json \<Rightarrow> json" where
  "decorate b doc = (case doc of
     JObj m \<Rightarrow> JObj (bm_map (\<lambda>k v. if k \<in> set ENTITY_META_KEYS then v
        else (case v of JArr xs \<Rightarrow> JArr (map (decorate_instance b k) xs) | _ \<Rightarrow> v)) m)
   | _ \<Rightarrow> doc)"

definition attr_tombstones :: "bool \<Rightarrow> bool \<Rightarrow> string \<Rightarrow> bool \<Rightarrow> json list \<Rightarrow> json list" where
  "attr_tombstones sys sh now absent gone =
     (if absent
      then (let d = (case find (\<lambda>i. instance_ds i = None) gone of Some i \<Rightarrow> i | None \<Rightarrow> hd gone)
            in [JObj (bm_remove ''datasetId'' (tombstone sys sh now d))])
      else map (\<lambda>i. JObj (tombstone sys sh now i)) gone)"

definition add_tombstones :: "bool \<Rightarrow> bool \<Rightarrow> string \<Rightarrow> json \<Rightarrow> string \<Rightarrow> json \<Rightarrow> json" where
  "add_tombstones sys sh now b k doc =
     (let gone = deleted_instances b (Some doc) k in
      if gone = [] then doc
      else (case doc of
        JObj m \<Rightarrow>
          (let tss = attr_tombstones sys sh now (bm_get m k = None) gone in
           case bm_get m k of
             None \<Rightarrow> JObj (bm_insert k (JArr tss) m)
           | Some (JArr xs) \<Rightarrow> JObj (bm_insert k (JArr (xs @ tss)) m)
           | Some _ \<Rightarrow> doc)
      | _ \<Rightarrow> doc))"

definition changed_doc :: "bool \<Rightarrow> bool \<Rightarrow> string \<Rightarrow> json option \<Rightarrow> json \<Rightarrow> string list \<Rightarrow> json" where
  "changed_doc sys sh now before after gone_attrs = (case before of
     None \<Rightarrow> after
   | Some b \<Rightarrow> fold (add_tombstones sys sh now b) gone_attrs (if sh then decorate b after else after))"

definition deleted_doc :: "bool \<Rightarrow> bool \<Rightarrow> string \<Rightarrow> json \<Rightarrow> string list \<Rightarrow> bool \<Rightarrow> json" where
  "deleted_doc sys sh now b gone_attrs fired =
     (let m = copy_member b ''type'' ''type'' (copy_member b ''id'' ''id'' []);
          m = (if sys then copy_member b ''modifiedAt'' ''modifiedAt'' (copy_member b ''createdAt'' ''createdAt'' m) else m);
          m = bm_insert ''deletedAt'' (JStr now) m;
          as = (if fired \<and> sh then attr_keys b else gone_attrs)
      in JObj (fold (\<lambda>k m. let is = map (\<lambda>i. JObj (tombstone sys sh now i)) (array_or_empty (jget b k))
                            in if is = [] then m else bm_insert k (JArr is) m) as m))"

subsection \<open>The comparison is equality without the volatile members\<close>

function strip_volatile :: "json \<Rightarrow> json" where
  "strip_volatile v = (case v of
     JObj m \<Rightarrow> JObj (map (\<lambda>(k, w). (k, strip_volatile w)) (stable_members m))
   | JArr xs \<Rightarrow> JArr (map strip_volatile xs)
   | _ \<Rightarrow> v)"
  by pat_completeness auto
termination
proof (relation "measure size", goal_cases)
  case (2 v xs x)
  then show ?case using size_list_estimation' [of x xs "size x" size] by simp
next
  case 3
  then show ?case by (auto simp: stable_members_def dest!: size_json_entry)
qed simp

declare strip_volatile.simps [simp del]

lemma strip_simps [simp]:
  "strip_volatile (JObj m) = JObj (bm_map (\<lambda>k. strip_volatile) (stable_members m))"
  "strip_volatile (JArr xs) = JArr (map strip_volatile xs)"
  "strip_volatile JNull = JNull" "strip_volatile (JBool b) = JBool b" "strip_volatile (JNum n) = JNum n" "strip_volatile (JStr s) = JStr s"
  by (subst strip_volatile.simps, simp add: bm_map_def split_beta)+

lemma stable_members_ok: "bm_ok m \<Longrightarrow> bm_ok (stable_members m)"
  by (simp add: stable_members_def bm_filter_ok)

lemma stable_members_get: "bm_ok m \<Longrightarrow> bm_get (stable_members m) k = (if k \<in> set VOLATILE then None else bm_get m k)"
  by (simp add: stable_members_def bm_get_filter split: option.split)

lemma keys_as_many:
  assumes "bm_ok a" "bm_ok b" "length a = length b" "\<And>k. bm_get a k \<noteq> None \<Longrightarrow> bm_get b k \<noteq> None"
  shows "bm_get b k \<noteq> None \<longleftrightarrow> bm_get a k \<noteq> None"
proof -
  have "fst ` set a \<subseteq> fst ` set b" using assms(4) by (auto simp: bm_get_None_iff)
  moreover have "card (fst ` set a) = card (fst ` set b)" using assms by (simp add: length_keys [symmetric])
  ultimately have "fst ` set a = fst ` set b" by (simp add: card_subset_eq)
  then show ?thesis by (simp add: bm_get_None_iff)
qed

lemma stable_eq_obj:
  assumes "bm_ok oa" "bm_ok ob"
  shows "stable_eq (JObj oa) (JObj ob) \<longleftrightarrow> length (stable_members oa) = length (stable_members ob) \<and>
    (\<forall>k va. bm_get (stable_members oa) k = Some va \<longrightarrow> (\<exists>vb. bm_get (stable_members ob) k = Some vb \<and> stable_eq va vb))"
proof -
  have v: "k \<notin> set VOLATILE" if "(k, va) \<in> set (stable_members oa)" for k va
    using that by (simp add: stable_members_def)
  have "list_all (\<lambda>(k, va). case bm_get ob k of None \<Rightarrow> False | Some vb \<Rightarrow> stable_eq va vb) (stable_members oa) \<longleftrightarrow>
      (\<forall>k va. (k, va) \<in> set (stable_members oa) \<longrightarrow> (\<exists>vb. bm_get ob k = Some vb \<and> stable_eq va vb))"
    by (fastforce simp: list_all_iff split: option.splits)
  also have "\<dots> \<longleftrightarrow> (\<forall>k va. bm_get (stable_members oa) k = Some va \<longrightarrow> (\<exists>vb. bm_get (stable_members ob) k = Some vb \<and> stable_eq va vb))"
    using v by (fastforce simp: bm_get_iff [OF stable_members_ok [OF assms(1)]] stable_members_get [OF assms(2)])
  finally show ?thesis by (subst stable_eq.simps) simp
qed

lemma stable_eq_arr: "stable_eq (JArr aa) (JArr ab) \<longleftrightarrow> list_all2 stable_eq aa ab"
  by (subst stable_eq.simps) (auto simp: list_all2_iff list_all_iff)

lemma stable_eq_other:
  "\<not> (is_object a \<and> is_object b) \<Longrightarrow> \<not> (is_array a \<and> is_array b) \<Longrightarrow> stable_eq a b \<longleftrightarrow> a = b"
  by (subst stable_eq.simps) (cases a; cases b; simp)

lemma stable_objects:
  assumes ok: "bm_ok oa" "bm_ok ob"
    and IH: "\<And>k va vb. bm_get (stable_members oa) k = Some va \<Longrightarrow> bm_get (stable_members ob) k = Some vb \<Longrightarrow>
      stable_eq va vb \<longleftrightarrow> strip_volatile va = strip_volatile vb"
  shows "stable_eq (JObj oa) (JObj ob) \<longleftrightarrow> strip_volatile (JObj oa) = strip_volatile (JObj ob)"
proof -
  let ?a = "stable_members oa" and ?b = "stable_members ob"
  note so = stable_members_ok [OF ok(1)] stable_members_ok [OF ok(2)]
  have eq: "stable_eq (JObj oa) (JObj ob) \<longleftrightarrow> length ?a = length ?b \<and>
      (\<forall>k va. bm_get ?a k = Some va \<longrightarrow> (\<exists>vb. bm_get ?b k = Some vb \<and> strip_volatile va = strip_volatile vb))"
    unfolding stable_eq_obj [OF ok] using IH by blast
  show ?thesis
  proof
    assume s: "stable_eq (JObj oa) (JObj ob)"
    have dom: "bm_get ?b k \<noteq> None \<longleftrightarrow> bm_get ?a k \<noteq> None" for k
      by (rule keys_as_many [OF so]) (use s eq in auto)
    have "bm_map (\<lambda>k. strip_volatile) ?a = bm_map (\<lambda>k. strip_volatile) ?b"
    proof (rule bm_ext)
      fix k
      from s eq dom [of k] show "bm_get (bm_map (\<lambda>k. strip_volatile) ?a) k = bm_get (bm_map (\<lambda>k. strip_volatile) ?b) k"
        by (cases "bm_get ?a k") fastforce+
    qed (use so in simp_all)
    then show "strip_volatile (JObj oa) = strip_volatile (JObj ob)" by simp
  next
    assume "strip_volatile (JObj oa) = strip_volatile (JObj ob)"
    then have m: "bm_map (\<lambda>k. strip_volatile) ?a = bm_map (\<lambda>k. strip_volatile) ?b" by simp
    then have "length ?a = length ?b" by (metis bm_map_def length_map)
    moreover have "\<exists>vb. bm_get ?b k = Some vb \<and> strip_volatile va = strip_volatile vb" if "bm_get ?a k = Some va" for k va
      using that arg_cong [OF m, of "\<lambda>m. bm_get m k"] by (cases "bm_get ?b k") simp_all
    ultimately show "stable_eq (JObj oa) (JObj ob)" unfolding eq by blast
  qed
qed

lemma stable_arrays:
  assumes "\<And>x y. x \<in> set aa \<Longrightarrow> y \<in> set ab \<Longrightarrow> stable_eq x y \<longleftrightarrow> strip_volatile x = strip_volatile y"
  shows "stable_eq (JArr aa) (JArr ab) \<longleftrightarrow> strip_volatile (JArr aa) = strip_volatile (JArr ab)"
proof -
  have "list_all2 stable_eq aa ab \<longleftrightarrow> list_all2 (\<lambda>x y. strip_volatile x = strip_volatile y) aa ab"
    by (rule list.rel_cong) (use assms in simp_all)
  then show ?thesis by (auto simp: stable_eq_arr list_eq_iff_nth_eq list_all2_conv_all_nth)
qed

lemma strip_scalar: "c = strip_volatile v \<Longrightarrow> \<not> is_object c \<Longrightarrow> \<not> is_array c \<Longrightarrow> v = c"
  by (cases v) auto

lemma stable_eq_strip: "json_ok a \<Longrightarrow> json_ok b \<Longrightarrow> stable_eq a b \<longleftrightarrow> strip_volatile a = strip_volatile b"
proof (induction a arbitrary: b)
  case (JArr aa)
  show ?case
  proof (cases b)
    case (JArr ab)
    with JArr.IH JArr.prems stable_arrays [of aa ab] show ?thesis by (simp add: list_all_iff)
  qed (simp_all add: stable_eq_other)
next
  case (JObj oa)
  show ?case
  proof (cases b)
    case (JObj ob)
    have ok: "bm_ok oa" "bm_ok ob" using JObj.prems JObj by simp_all
    show ?thesis
      unfolding JObj
    proof (rule stable_objects [OF ok])
      fix k va vb
      assume k: "bm_get (stable_members oa) k = Some va" "bm_get (stable_members ob) k = Some vb"
      then have a: "(k, va) \<in> set oa" and b: "(k, vb) \<in> set ob"
        using bm_get_SomeD [OF k(1)] bm_get_SomeD [OF k(2)] by (simp_all add: stable_members_def)
      have "json_ok va" "json_ok vb"
        using JObj.prems JObj a b by (auto simp: list_all_iff)
      then show "stable_eq va vb \<longleftrightarrow> strip_volatile va = strip_volatile vb"
        using JObj.IH [OF a, of va vb] by simp
    qed
  qed (simp_all add: stable_eq_other)
qed (auto simp: stable_eq_other dest!: strip_scalar)

subsection \<open>What a difference says\<close>

lemma datasetId_stable: "''datasetId'' \<notin> set VOLATILE"
  by (simp add: VOLATILE_def)

lemma strip_instance_ds: "json_ok i \<Longrightarrow> instance_ds (strip_volatile i) = instance_ds i"
proof (cases i)
  case (JObj m)
  assume "json_ok i"
  then have ok: "bm_ok m" using JObj by simp
  have "bm_get (stable_members m) ''datasetId'' = bm_get m ''datasetId''"
    using datasetId_stable by (simp add: stable_members_get [OF ok])
  moreover have "as_str (strip_volatile v) = as_str v" for v by (cases v) simp_all
  ultimately show ?thesis by (cases "bm_get m ''datasetId''") (simp_all add: JObj instance_ds_def)
qed (simp_all add: instance_ds_def)

lemma stable_same_ds: "json_ok a \<Longrightarrow> json_ok b \<Longrightarrow> stable_eq a b \<Longrightarrow> instance_ds a = instance_ds b"
  by (metis stable_eq_strip strip_instance_ds)

lemma same_ds_None: "same_ds i xs = None \<longleftrightarrow> (\<forall>x\<in>set xs. instance_ds x \<noteq> instance_ds i)"
  by (auto simp: same_ds_def find_None_iff)

lemma stable_no_deletion:
  assumes "json_ok x" "json_ok y" "stable_eq x y" "bi \<in> set (array_or_empty (Some x))"
  shows "same_ds bi (array_or_empty (Some y)) \<noteq> None"
proof -
  obtain bx where x: "x = JArr bx" "bi \<in> set bx" using assms(4) by (cases x) (simp_all add: array_or_empty_def)
  then obtain ay where y: "y = JArr ay"
    using assms(3) by (cases y) (simp_all add: stable_eq_other)
  from assms(3) x y have "list_all2 stable_eq bx ay" by (simp add: stable_eq_arr)
  with x(2) obtain ai where ai: "ai \<in> set ay" "stable_eq bi ai" by (metis in_set_conv_nth list_all2_conv_all_nth)
  then have "instance_ds bi = instance_ds ai"
    using assms(1,2) x y by (intro stable_same_ds) (auto simp: list_all_iff)
  with ai y show ?thesis by (auto simp: same_ds_None array_or_empty_def)
qed

lemma diff_key_None:
  assumes "json_ok b" "json_ok a"
  shows "diff_key b a k = [] \<longleftrightarrow> map_option strip_volatile (jget b k) = map_option strip_volatile (jget a k)"
proof (cases "jget b k"; cases "jget a k")
  fix x y
  assume j: "jget b k = Some x" "jget a k = Some y"
  have ok: "json_ok x" "json_ok y"
    using j assms json_ok_get by (cases b; cases a; auto)+
  have "\<not> list_ex (\<lambda>bi. same_ds bi (array_or_empty (Some y)) = None) (array_or_empty (Some x))" if "stable_eq x y"
    using stable_no_deletion [OF ok that] by (auto simp: list_ex_iff)
  then have "diff_key b a k = [] \<longleftrightarrow> stable_eq x y" by (auto simp: diff_key_def j Let_def)
  then show ?thesis using stable_eq_strip [OF ok] j by simp
qed (simp_all add: diff_key_def)

lemma diff_key_class:
  "(k', cls) \<in> set (diff_key b a k) \<Longrightarrow> k' = k"
  "(k, Created) \<in> set (diff_key b a k) \<longleftrightarrow> jget b k = None \<and> jget a k \<noteq> None"
  "(k, Deleted) \<in> set (diff_key b a k) \<longleftrightarrow> jget b k \<noteq> None \<and> (jget a k = None \<or> deleted_instances b (Some a) k \<noteq> [])"
  by (cases "jget b k"; cases "jget a k"; auto simp: diff_key_def deleted_instances_def filter_empty_conv list_ex_iff Let_def split: if_splits)+

lemma set_union_keys: "set (fold (\<lambda>k ks. if k \<in> set ks then ks else ks @ [k]) xs ys) = set ys \<union> set xs"
  by (induction xs arbitrary: ys) auto

lemma attr_keys_iff: "k \<in> set (attr_keys d) \<longleftrightarrow> k \<notin> set ENTITY_META_KEYS \<and> jget d k \<noteq> None"
  by (cases d) (auto simp: attr_keys_def bm_keys_def bm_get_None_iff)

lemma diff_set:
  "(k, cls) \<in> set (diff before after) \<longleftrightarrow> k \<notin> set ENTITY_META_KEYS \<and> (k, cls) \<in> set (diff_key (opt_doc before) (opt_doc after) k)"
proof -
  have "(k, cls) \<in> set (diff_key b a k) \<Longrightarrow> jget b k \<noteq> None \<or> jget a k \<noteq> None" for b a
    by (cases "jget b k"; cases "jget a k") (simp_all add: diff_key_def)
  then have in_keys: "k \<in> set (attr_keys b) \<union> set (attr_keys a) \<longleftrightarrow> k \<notin> set ENTITY_META_KEYS"
    if "(k, cls) \<in> set (diff_key b a k)" for b a using that by (auto simp: attr_keys_iff)
  have "(k, cls) \<in> set (diff before after) \<longleftrightarrow>
      k \<in> set (attr_keys (opt_doc before)) \<union> set (attr_keys (opt_doc after)) \<and> (k, cls) \<in> set (diff_key (opt_doc before) (opt_doc after) k)"
    unfolding diff_def Let_def using diff_key_class(1) by (fastforce simp: set_union_keys)
  with in_keys show ?thesis by blast
qed

lemma diff_None:
  assumes "json_ok (opt_doc before)" "json_ok (opt_doc after)"
  shows "diff before after = [] \<longleftrightarrow>
    (\<forall>k. k \<notin> set ENTITY_META_KEYS \<longrightarrow>
       map_option strip_volatile (jget (opt_doc before) k) = map_option strip_volatile (jget (opt_doc after) k))"
proof -
  have "diff before after = [] \<longleftrightarrow> (\<forall>k. k \<notin> set ENTITY_META_KEYS \<longrightarrow> diff_key (opt_doc before) (opt_doc after) k = [])"
  proof
    assume "diff before after = []"
    then have n: "(k, cls) \<notin> set (diff before after)" for k cls by simp
    show "\<forall>k. k \<notin> set ENTITY_META_KEYS \<longrightarrow> diff_key (opt_doc before) (opt_doc after) k = []"
    proof (intro allI impI)
      fix k
      assume "k \<notin> set ENTITY_META_KEYS"
      with n diff_set have "(k, cls) \<notin> set (diff_key (opt_doc before) (opt_doc after) k)" for cls by blast
      with diff_key_class(1) have "e \<notin> set (diff_key (opt_doc before) (opt_doc after) k)" for e by (metis prod.exhaust)
      then show "diff_key (opt_doc before) (opt_doc after) k = []" by (metis list.set_intros(1) neq_Nil_conv)
    qed
  next
    assume n: "\<forall>k. k \<notin> set ENTITY_META_KEYS \<longrightarrow> diff_key (opt_doc before) (opt_doc after) k = []"
    have "e \<notin> set (diff before after)" for e
      using n diff_set [of "fst e" "snd e" before after] by auto
    then show "diff before after = []" by (metis list.set_intros(1) neq_Nil_conv)
  qed
  then show ?thesis using diff_key_None [OF assms] by simp
qed

end
