(* ===== verification/Notify.thy ===== *)
theory Notify
  imports Changes
begin

text \<open>
  From a change to notifications (\<open>antares-api/src/notify.rs\<close>): which subscriptions a write fires, the payload of
  each, one group per subscription for a drain of the queue, the schedule of periodic subscriptions, and the
  delivery rules that need no network.  Resolving a subscription's \<open>@context\<close> is a parameter (the loader fetches
  it), as is the store's \<open>get\<close>; the per-drain memo of resolved contexts holds what the loader answers.
\<close>

record 'g env =
  e_lib :: lib
  e_geo :: "'g geo_lib"
  e_builder :: "(string \<Rightarrow> bool) builder"
  e_clock :: clock
  e_core :: jctx
  e_resolve :: "string \<Rightarrow> json \<Rightarrow> jctx option"      \<comment> \<open>the loader's \<open>resolve_quiet_for\<close>\<close>
  e_get :: "string \<Rightarrow> string \<Rightarrow> json option"          \<comment> \<open>the store's entity of a tenant\<close>

definition sub_context :: "'g env \<Rightarrow> string \<Rightarrow> json \<Rightarrow> jctx" where
  "sub_context V tn sub =
     (case (case jget sub ''jsonldContext'' of Some v \<Rightarrow> Some v | None \<Rightarrow> jget sub ''__context'') of
        Some v \<Rightarrow> if v = JNull then e_core V else (case e_resolve V tn v of Some c \<Rightarrow> c | None \<Rightarrow> e_core V)
      | None \<Rightarrow> e_core V)"

subsection \<open>The payload\<close>

fun as_u64 :: "json \<Rightarrow> nat option" where
  "as_u64 (JNum (JInt i)) = (if 0 \<le> i then Some (nat i) else None)"
| "as_u64 _ = None"

definition notif_member :: "json \<Rightarrow> string \<Rightarrow> json option" where
  "notif_member sub k = Option.bind (Option.bind (jget sub ''notification'') as_object) (\<lambda>n. bm_get n k)"

definition notif_names :: "json \<Rightarrow> string \<Rightarrow> string list option" where
  "notif_names sub k = map_option (List.map_filter as_str) (Option.bind (notif_member sub k) as_array)"

definition proj_terms :: "jctx \<Rightarrow> string list \<Rightarrow> proj_node list" where
  "proj_terms c ts = concat (List.map_filter (\<lambda>t. case parse_projection c t of Ok ns \<Rightarrow> Some ns | Err _ \<Rightarrow> None) ts)"

definition notif_flag :: "json \<Rightarrow> string \<Rightarrow> bool" where
  "notif_flag sub k = (Option.bind (notif_member sub k) as_bool = Some True)"

record notif_shape =
  ns_repr :: repr
  ns_show :: bool
  ns_join :: "(string \<times> nat) option"

definition notif_join :: "json \<Rightarrow> (string \<times> nat) option" where
  "notif_join sub = (case Option.bind (notif_member sub ''join'') as_str of
     None \<Rightarrow> None
   | Some j \<Rightarrow> if j = ''inline'' \<or> j = ''flat''
       then Some (j, min (case Option.bind (notif_member sub ''joinLevel'') as_u64 of None \<Rightarrow> 1 | Some n \<Rightarrow> n) MAX_JOIN_LEVEL)
       else None)"

definition notif_shape_of :: "json \<Rightarrow> jctx \<Rightarrow> notif_shape" where
  "notif_shape_of sub c =
     (let fmt = (case Option.bind (notif_member sub ''format'') as_str of None \<Rightarrow> ''normalized'' | Some f \<Rightarrow> f) in
      \<lparr>ns_repr = default_repr\<lparr>r_sys := notif_flag sub ''sysAttrs'',
          r_key_values := (fmt = ''keyValues'' \<or> fmt = ''simplified''), r_concise := (fmt = ''concise''),
          r_attrs := map_option (map (expand_key c)) (notif_names sub ''attributes''),
          r_pick := map_option (proj_terms c) (notif_names sub ''pick''),
          r_omit := map_option (proj_terms c) (notif_names sub ''omit''),
          r_dataset := map_option (List.map_filter as_str) (Option.bind (jget sub ''datasetId'') as_array)\<rparr>,
       ns_show = notif_flag sub ''showChanges'', ns_join = notif_join sub\<rparr>)"

definition payload_doc :: "notif_shape \<Rightarrow> json option \<Rightarrow> json option \<Rightarrow> string list \<Rightarrow> bool \<Rightarrow> string \<Rightarrow> json option" where
  "payload_doc sh before after gone fired now = (case after of
     Some a \<Rightarrow> Some (changed_doc (r_sys (ns_repr sh)) (ns_show sh) now before a gone)
   | None \<Rightarrow> map_option (\<lambda>b. deleted_doc (r_sys (ns_repr sh)) (ns_show sh) now b gone fired) before)"

definition flat_data :: "jctx \<Rightarrow> string \<Rightarrow> flat_out \<Rightarrow> json list" where
  "flat_data c main_id linked =
     List.map_filter (\<lambda>(i, ldoc, lrepr). if i \<noteq> main_id then Some (compact_for lrepr (apply_repr ldoc lrepr) c) else None) linked"

definition build_data :: "'g env \<Rightarrow> string \<Rightarrow> json \<Rightarrow> jctx \<Rightarrow> json option \<Rightarrow> json option \<Rightarrow> string list \<Rightarrow> bool \<Rightarrow> string \<Rightarrow> json list" where
  "build_data V tn sub c before after gone fired now =
     (let sh = notif_shape_of sub c; r = ns_repr sh in
      case payload_doc sh before after gone fired now of
        None \<Rightarrow> []
      | Some internal \<Rightarrow>
          (let main = compact_for r (apply_repr internal r) c in
           case ns_join sh of
             None \<Rightarrow> [main]
           | Some (mode, level) \<Rightarrow>
               if mode = ''inline'' then [fst (inline_join (e_get V tn) c r main level)]
               else if mode = ''flat''
               then main # flat_data c (doc_id internal) (fst (collect_flat (e_get V tn) r internal level []))
               else [main]))"

subsection \<open>Which subscriptions a change fires\<close>

definition DEFAULT_TRIGGERS :: "string list" where
  "DEFAULT_TRIGGERS = [''attributeCreated'', ''attributeUpdated'']"

definition triggers_of :: "json \<Rightarrow> string list" where
  "triggers_of sub =
     (let ts = (case Option.bind (jget sub ''notificationTrigger'') as_array of
                  None \<Rightarrow> DEFAULT_TRIGGERS | Some a \<Rightarrow> List.map_filter as_str a)
      in if ''entityUpdated'' \<in> set ts
         then fold (\<lambda>t ts. if t \<in> set ts then ts else ts @ [t]) (DEFAULT_TRIGGERS @ [''attributeDeleted'']) ts
         else ts)"

fun class_trigger :: "change_class \<Rightarrow> string" where
  "class_trigger Created = ''attributeCreated''"
| "class_trigger Updated = ''attributeUpdated''"
| "class_trigger Deleted = ''attributeDeleted''"

definition entity_trigger :: "json option \<Rightarrow> json option \<Rightarrow> string" where
  "entity_trigger before after = (case (before, after) of
     (None, Some _) \<Rightarrow> ''entityCreated''
   | (Some _, None) \<Rightarrow> ''entityDeleted''
   | _ \<Rightarrow> ''entityUpdated'')"

definition watched :: "json \<Rightarrow> string list option" where
  "watched sub = map_option (List.map_filter as_str) (Option.bind (jget sub ''watchedAttributes'') as_array)"

definition relevant :: "json \<Rightarrow> (string \<times> change_class) list \<Rightarrow> (string \<times> change_class) list" where
  "relevant sub changes = filter (\<lambda>(k, cls). case watched sub of None \<Rightarrow> True | Some w \<Rightarrow> k \<in> set w) changes"

definition triggered :: "json \<Rightarrow> (string \<times> change_class) list \<Rightarrow> string \<Rightarrow> bool" where
  "triggered sub changes et =
     (let ts = triggers_of sub; rel = relevant sub changes in
      list_ex (\<lambda>(k, cls). class_trigger cls \<in> set ts) rel \<or> (et \<in> set ts \<and> (watched sub = None \<or> rel \<noteq> [])))"

definition gone_attrs :: "json \<Rightarrow> (string \<times> change_class) list \<Rightarrow> string list" where
  "gone_attrs sub changes =
     (if ''attributeDeleted'' \<in> set (triggers_of sub)
      then List.map_filter (\<lambda>(k, cls). if cls = Deleted then Some k else None) (relevant sub changes) else [])"

text \<open>The conditions of a subscription with the URIs its query asks for, as one pass of \<open>linked_eval\<close>.\<close>

definition conditions_asked :: "ext \<Rightarrow> jctx \<Rightarrow> json \<Rightarrow> json \<Rightarrow> qnode lru \<Rightarrow> (string \<Rightarrow> json option) \<Rightarrow> string list" where
  "conditions_asked E c sub doc m lookup = (case sub_str sub ''q'' of
     None \<Rightarrow> []
   | Some q \<Rightarrow> (case fst (q_node E (percent_decode q) m) of
        None \<Rightarrow> []
      | Some n \<Rightarrow> snd (run_asks lookup (q_asks E c doc (coerced c sub n)))))"

definition conditions_pass :: "'g env \<Rightarrow> jctx \<Rightarrow> json \<Rightarrow> json \<Rightarrow> 'g mcaches pass" where
  "conditions_pass V c sub doc lookup cs =
     (case conditions_match (e_lib V) (e_geo V) c lookup sub doc cs of
        (ok, cs') \<Rightarrow> ((ok, conditions_asked (base (e_lib V)) c sub doc (m_q cs) lookup), cs'))"

record matched =
  mt_tenant :: string
  mt_sub :: json
  mt_ctx :: jctx
  mt_data :: "json list"

definition payload_of :: "'g env \<Rightarrow> string \<Rightarrow> json option \<Rightarrow> json option \<Rightarrow> json \<Rightarrow> matched" where
  "payload_of V tn before after sub =
     (let c = sub_context V tn sub in
      \<lparr>mt_tenant = tn, mt_sub = sub, mt_ctx = c,
       mt_data = build_data V tn sub c before after (gone_attrs sub (diff before after))
         (after = None \<and> ''entityDeleted'' \<in> set (triggers_of sub)) (now_iso (e_clock V))\<rparr>)"

definition match_sub :: "'g env \<Rightarrow> string \<Rightarrow> json option \<Rightarrow> json option \<Rightarrow> json \<Rightarrow> json \<Rightarrow> 'g mcaches \<Rightarrow> (matched option \<times> 'g mcaches) option" where
  "match_sub V tn before after doc sub cs =
     (if \<not> is_active (now_iso (e_clock V)) sub \<or> periodic sub then Some (None, cs)
      else if \<not> triggered sub (diff before after) (entity_trigger before after) then Some (None, cs)
      else (let c = sub_context V tn sub in
        case selector_match (e_builder V) c sub doc cs of
          None \<Rightarrow> None
        | Some (False, cs) \<Rightarrow> Some (None, cs)
        | Some (True, cs) \<Rightarrow> (case linked_eval (e_get V tn) (conditions_pass V c sub doc) cs of
            (False, cs) \<Rightarrow> Some (None, cs)
          | (True, cs) \<Rightarrow>
              if throttled (base (e_lib V)) (now_ns (e_clock V)) sub then Some (None, cs)
              else Some (Some (payload_of V tn before after sub), cs))))"

primrec match_subs :: "'g env \<Rightarrow> string \<Rightarrow> json option \<Rightarrow> json option \<Rightarrow> json \<Rightarrow> json list \<Rightarrow> 'g mcaches \<Rightarrow> (matched list \<times> 'g mcaches) option" where
  "match_subs V tn before after doc [] cs = Some ([], cs)"
| "match_subs V tn before after doc (sub # subs) cs = (case match_sub V tn before after doc sub cs of
     None \<Rightarrow> None
   | Some (r, cs) \<Rightarrow> map_option (\<lambda>(ms, cs'). (case r of None \<Rightarrow> ms | Some m \<Rightarrow> m # ms, cs')) (match_subs V tn before after doc subs cs))"

definition eval_doc :: "json option \<Rightarrow> json option \<Rightarrow> json option" where
  "eval_doc before after = (case after of Some a \<Rightarrow> Some a | None \<Rightarrow> before)"

definition matches_for :: "'g env \<Rightarrow> sub_mirror \<Rightarrow> string \<Rightarrow> json option \<Rightarrow> json option \<Rightarrow> 'g mcaches \<Rightarrow> (matched list \<times> 'g mcaches) option" where
  "matches_for V mir tn before after cs = (case tenant_new_internal tn of
     Err _ \<Rightarrow> Some ([], cs)
   | Ok tenant \<Rightarrow> (case eval_doc before after of
        None \<Rightarrow> Some ([], cs)
      | Some doc \<Rightarrow> match_subs V tenant before after doc
          (sub_candidates mir tenant (doc_types doc) (map fst (diff before after))) cs))"

subsection \<open>One notification per subscription\<close>

type_synonym change = "string \<times> json option \<times> json option"

type_synonym groups = "matched list \<times> (string \<times> string \<Rightarrow> nat option)"

definition group_key :: "matched \<Rightarrow> string \<times> string" where
  "group_key m = (mt_tenant m, case sub_str (mt_sub m) ''id'' of None \<Rightarrow> [] | Some i \<Rightarrow> i)"

definition add_match :: "matched \<Rightarrow> groups \<Rightarrow> groups" where
  "add_match m st = (case st of (gs, ix) \<Rightarrow> (case ix (group_key m) of
     Some i \<Rightarrow> (gs[i := (gs ! i)\<lparr>mt_data := mt_data (gs ! i) @ mt_data m\<rparr>], ix)
   | None \<Rightarrow> (gs @ [m], ix(group_key m \<mapsto> length gs))))"

primrec process_changes :: "'g env \<Rightarrow> sub_mirror \<Rightarrow> change list \<Rightarrow> groups \<Rightarrow> 'g mcaches \<Rightarrow> (groups \<times> 'g mcaches) option" where
  "process_changes V mir [] st cs = Some (st, cs)"
| "process_changes V mir (ch # chs) st cs = (case ch of (tn, before, after) \<Rightarrow>
     (case matches_for V mir tn before after cs of
        None \<Rightarrow> None
      | Some (ms, cs) \<Rightarrow> process_changes V mir chs (fold add_match ms st) cs))"

subsection \<open>Periodic subscriptions\<close>

definition saturating_add :: "int \<Rightarrow> int \<Rightarrow> int" where
  "saturating_add a b = max (- (2 ^ 63)) (min (2 ^ 63 - 1) (a + b))"

definition interval_offset_ms :: "f64 \<Rightarrow> int" where
  "interval_offset_ms s = as_i64 (times_1000 s)"

text \<open>\<open>timestamp_millis\<close> rounds down.\<close>

definition due_at_ms :: "ext \<Rightarrow> json \<Rightarrow> f64 \<Rightarrow> int" where
  "due_at_ms E sub interval =
     (case Option.bind (case Option.bind (Option.bind (jget sub ''notification'') (\<lambda>n. jget n ''lastNotification'')) as_str of
          Some l \<Rightarrow> Some l | None \<Rightarrow> sub_str sub ''createdAt'') (rfc3339 E) of
        None \<Rightarrow> - (2 ^ 63)
      | Some t \<Rightarrow> saturating_add (t div 1000000) (interval_offset_ms interval))"

text \<open>The \<open>?\<close> in the loop returns on the first entry without exact ids.\<close>

definition entry_ids :: "json \<Rightarrow> string list option" where
  "entry_ids e = (case jget e ''id'' of
     Some (JStr i) \<Rightarrow> Some [i]
   | Some (JArr a) \<Rightarrow> (if list_all is_string a then Some (List.map_filter as_str a) else None)
   | _ \<Rightarrow> None)"

fun all_ids :: "json list \<Rightarrow> string list option" where
  "all_ids [] = Some []"
| "all_ids (e # es) = (case entry_ids e of None \<Rightarrow> None | Some is \<Rightarrow> map_option (\<lambda>js. is @ js) (all_ids es))"

definition selector_ids :: "json \<Rightarrow> string list option" where
  "selector_ids sub = (case Option.bind (jget sub ''entities'') as_array of
     None \<Rightarrow> None
   | Some es \<Rightarrow> (case all_ids es of None \<Rightarrow> None | Some is \<Rightarrow> if is = [] then None else Some is))"

subsection \<open>Delivery\<close>

text \<open>\<open>chunk_by_bytes\<close>; \<open>bytes\<close> is the length of an item's serialization.  The last run is kept apart.\<close>

fun chunk_loop :: "(json \<Rightarrow> nat) \<Rightarrow> nat \<Rightarrow> json list list \<Rightarrow> json list \<Rightarrow> nat \<Rightarrow> json list \<Rightarrow> json list list" where
  "chunk_loop bytes cap out cur n [] = out @ [cur]"
| "chunk_loop bytes cap out cur n (x # xs) =
     (if n + bytes x \<le> cap then chunk_loop bytes cap out (cur @ [x]) (n + bytes x) xs
      else chunk_loop bytes cap (out @ [cur]) [x] (bytes x) xs)"

definition chunk_by_bytes :: "lib \<Rightarrow> json list \<Rightarrow> nat \<Rightarrow> json list list" where
  "chunk_by_bytes L data cap = (let bytes = (\<lambda>v. length (to_json L v)) in
     case data of [] \<Rightarrow> [] | x # xs \<Rightarrow> chunk_loop bytes cap [] [x] (bytes x) xs)"

definition arrayify_entry :: "json \<Rightarrow> json" where
  "arrayify_entry e = (case (e, jget e ''type'') of
     (JObj m, Some (JStr t)) \<Rightarrow> JObj (bm_insert ''type'' (JArr [JStr t]) m) | _ \<Rightarrow> e)"

definition map_array_member :: "string \<Rightarrow> (json \<Rightarrow> json) \<Rightarrow> json \<Rightarrow> json" where
  "map_array_member k f v = (case (v, jget v k) of (JObj m, Some (JArr xs)) \<Rightarrow> JObj (bm_insert k (JArr (map f xs)) m) | _ \<Rightarrow> v)"

definition arrayify_entity_types :: "json \<Rightarrow> json" where
  "arrayify_entity_types reg = map_array_member ''information'' (map_array_member ''entities'' arrayify_entry) reg"

text \<open>\<open>as u32\<close> saturates and drops the fraction.\<close>

fun as_u32 :: "f64 \<Rightarrow> nat" where
  "as_u32 NInf = 0"
| "as_u32 PInf = 2 ^ 32 - 1"
| "as_u32 (Fin r) = nat (max 0 (min (2 ^ 32 - 1) (trunc r)))"

definition positive_member :: "json option \<Rightarrow> f64 option" where
  "positive_member v = (case Option.bind v as_f64 of None \<Rightarrow> None | Some t \<Rightarrow> if Fin 0 < t then Some t else None)"

definition endpoint_timeout_ms :: "jobj \<Rightarrow> nat" where
  "endpoint_timeout_ms ep = (case positive_member (bm_get ep ''timeout'') of
     None \<Rightarrow> 5000 | Some t \<Rightarrow> max 100 (min 30000 (as_u32 t)))"

definition in_cooldown :: "ext \<Rightarrow> int \<Rightarrow> json \<Rightarrow> bool" where
  "in_cooldown E now sub =
     (let n = jget sub ''notification'' in
      case positive_member (Option.bind (Option.bind n (\<lambda>n. jget n ''endpoint'')) (\<lambda>e. jget e ''cooldown'')) of
        None \<Rightarrow> False
      | Some cd \<Rightarrow>
          if Option.bind (Option.bind n (\<lambda>n. jget n ''status'')) as_str \<noteq> Some ''failed'' then False
          else (case Option.bind (Option.bind (Option.bind n (\<lambda>n. jget n ''lastFailure'')) as_str) (rfc3339 E) of
            None \<Rightarrow> False
          | Some t \<Rightarrow> f64_of_int (millis (now - t)) < cd))"

subsection \<open>A candidate missed by the index could not have fired\<close>

definition sub_fires :: "'g env \<Rightarrow> string \<Rightarrow> json option \<Rightarrow> json option \<Rightarrow> json \<Rightarrow> json \<Rightarrow> bool" where
  "sub_fires V tn before after doc sub \<longleftrightarrow>
     is_active (now_iso (e_clock V)) sub \<and> \<not> periodic sub \<and>
     triggered sub (diff before after) (entity_trigger before after) \<and>
     selected (e_builder V) (sub_context V tn sub) sub doc \<and>
     conditions_hold (e_lib V) (e_geo V) (sub_context V tn sub) (e_get V tn) sub doc \<and>
     \<not> throttled (base (e_lib V)) (now_ns (e_clock V)) sub"

lemma entry_types_typed:
  "entry_types es = Some ts \<Longrightarrow> e \<in> set es \<Longrightarrow> \<exists>t. sub_str e ''type'' = Some t \<and> t \<in> set ts \<and> \<not> list_ex (\<lambda>ch. ch \<in> set OPAQUE) t"
  by (induction es arbitrary: ts) (auto simp: entry_type_def split: option.split_asm if_split_asm)

lemma plain_type_match:
  "sub_str e ''type'' = Some t \<Longrightarrow> \<not> list_ex (\<lambda>ch. ch \<in> set OPAQUE) t \<Longrightarrow> sel_type_ok c tys e \<Longrightarrow> t \<in> set tys"
proof -
  assume t: "sub_str e ''type'' = Some t" "\<not> list_ex (\<lambda>ch. ch \<in> set OPAQUE) t" and ok: "sel_type_ok c tys e"
  have "CHR ''*'' \<in> set OPAQUE" "set ''|,;('' \<subseteq> set OPAQUE" by (simp_all add: OPAQUE_def)
  with t(2) have "t \<noteq> ''*''" "\<not> list_ex (\<lambda>x. x \<in> set ''|,;('') t" by (auto simp: list_ex_iff)
  with t(1) ok show "t \<in> set tys" by (simp add: sel_type_ok_def)
qed

lemma selected_hits:
  assumes "selected B c sub doc" "triggered sub changes et"
  shows "place_hit (doc_types doc) (map fst changes) sub"
proof (cases "Option.bind (jget sub ''entities'') as_array")
  case (Some es)
  show ?thesis
  proof (cases "entry_types es")
    case None
    with Some show ?thesis by (simp add: place_hit_def index_keys_def)
  next
    case ts: (Some ts)
    show ?thesis
    proof (cases "ts = []")
      case True
      with Some ts show ?thesis by (simp add: place_hit_def index_keys_def)
    next
      case False
      from assms(1) Some obtain e where e: "e \<in> set es" "sel_type_ok c (doc_types doc) e" by (auto simp: selected_def)
      from entry_types_typed [OF ts e(1)] plain_type_match e(2) have "set ts \<inter> set (doc_types doc) \<noteq> {}" by blast
      with Some ts False show ?thesis by (simp add: place_hit_def index_keys_def)
    qed
  qed
next
  case None
  note no_sel = None
  show ?thesis
  proof (cases "Option.bind (jget sub ''watchedAttributes'') as_array")
    case None
    with no_sel show ?thesis by (simp add: place_hit_def index_keys_def)
  next
    case (Some ws)
    let ?as = "List.map_filter as_str ws"
    have "relevant sub changes \<noteq> []"
      using assms(2) Some by (auto simp: triggered_def watched_def Let_def)
    then obtain k cls where "(k, cls) \<in> set changes" "k \<in> set ?as"
      using Some by (auto simp: relevant_def watched_def filter_empty_conv)
    then have "set ?as \<inter> fst ` set changes \<noteq> {}" by force
    with no_sel Some show ?thesis by (simp add: place_hit_def index_keys_def Let_def)
  qed
qed

subsection \<open>Matching over the mirror, the caches and the passes\<close>

lemma conditions_pass_runs:
  assumes "inj (to_json (e_lib V))"
  obtains T where
    "\<And>l cs. mcaches_ok (e_lib V) (e_geo V) B cs \<Longrightarrow> fst (conditions_pass V c sub doc l cs) = run_asks l T \<and>
      mcaches_ok (e_lib V) (e_geo V) B (snd (conditions_pass V c sub doc l cs))"
    and "\<And>l. fst (run_asks l T) = conditions_hold (e_lib V) (e_geo V) c l sub doc"
    and "\<And>l. length (snd (run_asks l T)) \<le> MAX_Q_LINK_LOOKUPS"
proof -
  let ?L = "e_lib V" and ?G = "e_geo V"
  define rest where "rest \<longleftrightarrow> scope_condition sub doc \<and>
     (\<forall>g. Option.bind (jget sub ''geoQ'') as_object = Some g \<longrightarrow> (\<exists>gq. build_geo ?L ?G g = Some gq \<and> geo_matches ?G c gq doc))"
  define T where "T = (case sub_str sub ''q'' of
      None \<Rightarrow> Answer rest
    | Some q \<Rightarrow> (case parse_q (base ?L) (percent_decode q) of
        Inl _ \<Rightarrow> Answer False
      | Inr n \<Rightarrow> and_ask (q_asks (base ?L) c doc (coerced c sub n)) (\<lambda>r. Answer (r \<and> rest))))"
  have hold: "fst (run_asks l T) = conditions_hold ?L ?G c l sub doc" for l
    by (auto simp: T_def conditions_hold_def rest_def q_asks_run split: option.split sum.split)
  have len: "length (snd (run_asks l T)) \<le> MAX_Q_LINK_LOOKUPS" for l
    using q_asks_run(2) by (auto simp: T_def split: option.split sum.split)
  have asked: "conditions_asked (base ?L) c sub doc (m_q cs) l = snd (run_asks l T)" if "mcaches_ok ?L ?G B cs" for cs l
  proof (cases "sub_str sub ''q''")
    case None
    then show ?thesis by (simp add: conditions_asked_def T_def)
  next
    case (Some q)
    have "fst (q_node (base ?L) (percent_decode q) (m_q cs)) = parsed (base ?L) (percent_decode q)"
      using that memo_fits(1) [of "m_q cs" "parsed (base ?L)"] by (simp add: q_node_def parsed_def [abs_def] mcaches_ok_def)
    with Some show ?thesis by (simp add: conditions_asked_def T_def parsed_def split: sum.split)
  qed
  have pass: "fst (conditions_pass V c sub doc l cs) = run_asks l T \<and> mcaches_ok ?L ?G B (snd (conditions_pass V c sub doc l cs))"
    if ok: "mcaches_ok ?L ?G B cs" for cs l
  proof -
    obtain cs' where cs': "conditions_match ?L ?G c l sub doc cs = (conditions_hold ?L ?G c l sub doc, cs')" "mcaches_ok ?L ?G B cs'"
      using conditions_match_ok [OF ok assms] by blast
    have "conditions_pass V c sub doc l cs = ((conditions_hold ?L ?G c l sub doc, snd (run_asks l T)), cs')"
      by (simp only: conditions_pass_def cs'(1) prod.case asked [OF ok])
    moreover have "run_asks l T = (conditions_hold ?L ?G c l sub doc, snd (run_asks l T))" using hold [of l] by (cases "run_asks l T") simp
    ultimately show ?thesis using cs'(2) by (metis fst_conv snd_conv)
  qed
  show ?thesis by (rule that [OF pass hold len])
qed

lemma linked_conditions:
  assumes "mcaches_ok (e_lib V) (e_geo V) B cs" "inj (to_json (e_lib V))"
  shows "\<exists>cs'. linked_eval get (conditions_pass V c sub doc) cs = (conditions_hold (e_lib V) (e_geo V) c get sub doc, cs') \<and>
    mcaches_ok (e_lib V) (e_geo V) B cs'"
proof -
  obtain T where
    pass: "\<And>l cs. mcaches_ok (e_lib V) (e_geo V) B cs \<Longrightarrow> fst (conditions_pass V c sub doc l cs) = run_asks l T \<and>
      mcaches_ok (e_lib V) (e_geo V) B (snd (conditions_pass V c sub doc l cs))"
    and T: "\<And>l. fst (run_asks l T) = conditions_hold (e_lib V) (e_geo V) c l sub doc" "\<And>l. length (snd (run_asks l T)) \<le> MAX_Q_LINK_LOOKUPS"
    by (rule conditions_pass_runs [OF assms(2), where B = B and c = c and sub = sub and doc = doc]; rule that; assumption)
  from linked_eval_exact [of "mcaches_ok (e_lib V) (e_geo V) B" "conditions_pass V c sub doc" T get cs, OF pass T(2) assms(1)]
  have "fst (linked_eval get (conditions_pass V c sub doc) cs) = conditions_hold (e_lib V) (e_geo V) c get sub doc"
    "mcaches_ok (e_lib V) (e_geo V) B (snd (linked_eval get (conditions_pass V c sub doc) cs))"
    using T(1) by simp_all
  then show ?thesis by (cases "linked_eval get (conditions_pass V c sub doc) cs") auto
qed

lemma match_sub_ok:
  assumes "mcaches_ok (e_lib V) (e_geo V) (e_builder V) cs" "inj (to_json (e_lib V))"
  shows "\<exists>cs'. match_sub V tn before after doc sub cs =
      Some (if sub_fires V tn before after doc sub then Some (payload_of V tn before after sub) else None, cs') \<and>
    mcaches_ok (e_lib V) (e_geo V) (e_builder V) cs'"
proof (cases "is_active (now_iso (e_clock V)) sub \<and> \<not> periodic sub \<and> triggered sub (diff before after) (entity_trigger before after)")
  case False
  then show ?thesis using assms(1) by (auto simp: match_sub_def sub_fires_def)
next
  case True
  let ?c = "sub_context V tn sub"
  obtain c1 where c1: "selector_match (e_builder V) ?c sub doc cs = Some (selected (e_builder V) ?c sub doc, c1)"
    "mcaches_ok (e_lib V) (e_geo V) (e_builder V) c1"
    using selector_match_ok [OF assms(1)] by blast
  obtain c2 where c2: "linked_eval (e_get V tn) (conditions_pass V ?c sub doc) c1 =
      (conditions_hold (e_lib V) (e_geo V) ?c (e_get V tn) sub doc, c2)" "mcaches_ok (e_lib V) (e_geo V) (e_builder V) c2"
    using linked_conditions [OF c1(2) assms(2)] by blast
  show ?thesis using True c1 c2
    by (cases "selected (e_builder V) ?c sub doc"; cases "conditions_hold (e_lib V) (e_geo V) ?c (e_get V tn) sub doc")
      (simp_all add: match_sub_def sub_fires_def Let_def)
qed

lemma match_subs_ok:
  assumes "inj (to_json (e_lib V))"
  shows "mcaches_ok (e_lib V) (e_geo V) (e_builder V) cs \<Longrightarrow>
    \<exists>cs'. match_subs V tn before after doc subs cs =
      Some (map (payload_of V tn before after) (filter (sub_fires V tn before after doc) subs), cs') \<and>
    mcaches_ok (e_lib V) (e_geo V) (e_builder V) cs'"
proof (induction subs arbitrary: cs)
  case (Cons sub subs)
  obtain c1 where c1: "match_sub V tn before after doc sub cs =
      Some (if sub_fires V tn before after doc sub then Some (payload_of V tn before after sub) else None, c1)"
    "mcaches_ok (e_lib V) (e_geo V) (e_builder V) c1"
    using match_sub_ok [OF Cons.prems assms] by blast
  from Cons.IH [OF c1(2)] c1(1) show ?case by auto
qed simp

lemma matches_for_ok:
  assumes "inj (to_json (e_lib V))" "mcaches_ok (e_lib V) (e_geo V) (e_builder V) cs" "mirror_ok mir"
    and "tenant_new_internal tn = Ok tenant" "eval_doc before after = Some doc"
  shows "\<exists>cs'. matches_for V mir tn before after cs =
      Some (map (payload_of V tenant before after) (filter (sub_fires V tenant before after doc) (mirror_docs mir tenant)), cs') \<and>
    mcaches_ok (e_lib V) (e_geo V) (e_builder V) cs'"
proof -
  have "place_hit (doc_types doc) (map fst (diff before after)) d" if "sub_fires V tenant before after doc d" for d
    using that selected_hits by (auto simp: sub_fires_def)
  then have "filter (sub_fires V tenant before after doc) (sub_candidates mir tenant (doc_types doc) (map fst (diff before after))) =
      filter (sub_fires V tenant before after doc) (mirror_docs mir tenant)"
    by (intro candidates_filter [OF assms(3)]) blast
  with match_subs_ok [OF assms(1,2)] show ?thesis by (simp add: matches_for_def assms(4,5)) metis
qed

subsection \<open>Grouping\<close>

definition data_for :: "matched list \<Rightarrow> string \<times> string \<Rightarrow> json list" where
  "data_for ms k = concat (map mt_data (filter (\<lambda>m. group_key m = k) ms))"

definition grouped :: "matched list \<Rightarrow> groups \<Rightarrow> bool" where
  "grouped ms st \<longleftrightarrow> (case st of (gs, ix) \<Rightarrow>
     distinct (map group_key gs) \<and> set (map group_key gs) = group_key ` set ms \<and>
     (\<forall>g\<in>set gs. mt_data g = data_for ms (group_key g)) \<and>
     (\<forall>k i. ix k = Some i \<longleftrightarrow> i < length gs \<and> group_key (gs ! i) = k))"

lemma groupedI:
  "distinct (map group_key gs) \<Longrightarrow> set (map group_key gs) = group_key ` set ms \<Longrightarrow>
     \<forall>g\<in>set gs. mt_data g = data_for ms (group_key g) \<Longrightarrow>
     (\<And>k i. ix k = Some i \<longleftrightarrow> i < length gs \<and> group_key (gs ! i) = k) \<Longrightarrow> grouped ms (gs, ix)"
  by (simp add: grouped_def)

definition no_groups :: groups where
  "no_groups = ([], \<lambda>_. None)"

lemma no_groups_ok: "grouped [] no_groups"
  by (simp add: grouped_def no_groups_def)

lemma data_for_snoc: "data_for (ms @ [m]) k = data_for ms k @ (if group_key m = k then mt_data m else [])"
  by (simp add: data_for_def)

lemma group_key_data [simp]: "group_key (g\<lparr>mt_data := d\<rparr>) = group_key g"
  by (simp add: group_key_def)

lemma add_match_ok:
  assumes "grouped ms (gs, ix)"
  shows "grouped (ms @ [m]) (add_match m (gs, ix))"
proof -
  let ?k = "group_key m"
  have dist: "distinct (map group_key gs)" and keys: "set (map group_key gs) = group_key ` set ms"
    and data: "\<And>g. g \<in> set gs \<Longrightarrow> mt_data g = data_for ms (group_key g)"
    and ix: "\<And>k i. ix k = Some i \<longleftrightarrow> i < length gs \<and> group_key (gs ! i) = k"
    using assms by (auto simp: grouped_def)
  show ?thesis
  proof (cases "ix ?k")
    case None
    have new: "?k \<notin> set (map group_key gs)"
    proof
      assume "?k \<in> set (map group_key gs)"
      then obtain i where "i < length gs" "group_key (gs ! i) = ?k" by (auto simp: in_set_conv_nth)
      with ix None show False by (metis option.distinct(1))
    qed
    have "group_key x \<noteq> ?k" if "x \<in> set ms" for x using that keys new by (metis image_eqI)
    then have "data_for ms ?k = []" by (simp add: data_for_def filter_empty_conv)
    then have d: "mt_data g = data_for (ms @ [m]) (group_key g)" if "g \<in> set (gs @ [m])" for g
      using that new data by (auto simp: data_for_snoc)
    have "(ix(?k \<mapsto> length gs)) k = Some i \<longleftrightarrow> i < length (gs @ [m]) \<and> group_key ((gs @ [m]) ! i) = k" for k i
    proof -
      consider "i < length gs" | "i = length gs" | "length gs < i" by linarith
      then show ?thesis
      proof cases
        case 1
        then have "group_key (gs ! i) \<noteq> ?k" using new by (metis image_eqI nth_mem set_map)
        with 1 ix [of k i] show ?thesis by (auto simp: nth_append)
      next
        case 2
        with ix [of k i] show ?thesis by (auto simp: nth_append)
      next
        case 3
        with ix [of k i] show ?thesis by auto
      qed
    qed
    moreover have "distinct (map group_key (gs @ [m]))" using dist new by simp
    moreover have "set (map group_key (gs @ [m])) = group_key ` set (ms @ [m])" using keys by simp
    ultimately show ?thesis unfolding grouped_def add_match_def using None d by simp
  next
    case (Some i)
    then have i: "i < length gs" "group_key (gs ! i) = ?k" using ix by simp_all
    let ?g = "(gs ! i)\<lparr>mt_data := mt_data (gs ! i) @ mt_data m\<rparr>"
    have ks: "map group_key (gs[i := ?g]) = map group_key gs"
      by (rule nth_equalityI) (simp_all add: nth_list_update [OF i(1)])
    have d: "mt_data g = data_for (ms @ [m]) (group_key g)" if "g \<in> set (gs[i := ?g])" for g
    proof -
      from that obtain j where j: "j < length gs" "g = gs[i := ?g] ! j" by (auto simp: in_set_conv_nth)
      show ?thesis
      proof (cases "j = i")
        case True
        with j i data [of "gs ! i"] show ?thesis by (simp add: data_for_snoc)
      next
        case False
        with j have "g = gs ! j" by simp
        moreover have "group_key (gs ! j) \<noteq> ?k"
          using False j(1) i dist by (metis length_map nth_eq_iff_index_eq nth_map)
        ultimately show ?thesis using j data [of "gs ! j"] by (simp add: data_for_snoc)
      qed
    qed
    have "?k \<in> group_key ` set ms" using i keys by (metis image_eqI nth_mem set_map)
    then have k': "set (map group_key (gs[i := ?g])) = group_key ` set (ms @ [m])" unfolding ks keys by auto
    have ix': "ix k = Some j \<longleftrightarrow> j < length (gs[i := ?g]) \<and> group_key (gs[i := ?g] ! j) = k" for k j
    proof -
      have "j < length gs \<Longrightarrow> group_key (gs[i := ?g] ! j) = group_key (gs ! j)"
        using arg_cong [OF ks, of "\<lambda>xs. xs ! j"] by simp
      with ix [of k j] show ?thesis by auto
    qed
    have st: "add_match m (gs, ix) = (gs[i := ?g], ix)" by (simp add: add_match_def Some)
    have "distinct (map group_key (gs[i := ?g]))" unfolding ks by (rule dist)
    moreover have "\<forall>g\<in>set (gs[i := ?g]). mt_data g = data_for (ms @ [m]) (group_key g)" using d by blast
    ultimately show ?thesis unfolding st by (rule groupedI [OF _ k' _ ix'])
  qed
qed

lemma add_matches_ok: "grouped ms st \<Longrightarrow> grouped (ms @ ms') (fold add_match ms' st)"
proof (induction ms' arbitrary: ms st)
  case (Cons m ms')
  obtain gs ix where "st = (gs, ix)" by (cases st)
  with Cons add_match_ok have "grouped (ms @ [m]) (add_match m st)" by simp
  from Cons.IH [OF this] show ?case by simp
qed simp

subsection \<open>Chunks\<close>

lemma concat_chunk_loop: "concat (chunk_loop bytes cap out cur n xs) = concat out @ cur @ xs"
  by (induction bytes cap out cur n xs rule: chunk_loop.induct) auto

definition run_ok :: "(json \<Rightarrow> nat) \<Rightarrow> nat \<Rightarrow> json list \<Rightarrow> bool" where
  "run_ok bytes cap r \<longleftrightarrow> r \<noteq> [] \<and> (sum_list (map bytes r) \<le> cap \<or> length r = 1)"

lemma chunk_loop_runs:
  "\<forall>r\<in>set out. run_ok bytes cap r \<Longrightarrow> run_ok bytes cap cur \<Longrightarrow> n = sum_list (map bytes cur) \<Longrightarrow>
     \<forall>r\<in>set (chunk_loop bytes cap out cur n xs). run_ok bytes cap r"
proof (induction xs arbitrary: out cur n)
  case (Cons x xs)
  show ?case
  proof (cases "n + bytes x \<le> cap")
    case True
    have "run_ok bytes cap (cur @ [x])" using True Cons.prems(3) by (simp add: run_ok_def)
    moreover have "n + bytes x = sum_list (map bytes (cur @ [x]))" using Cons.prems(3) by simp
    ultimately have "\<forall>r\<in>set (chunk_loop bytes cap out (cur @ [x]) (n + bytes x) xs). run_ok bytes cap r"
      by (rule Cons.IH [OF Cons.prems(1)])
    with True show ?thesis by simp
  next
    case False
    have "\<forall>r\<in>set (out @ [cur]). run_ok bytes cap r" using Cons.prems by auto
    moreover have "run_ok bytes cap [x]" by (simp add: run_ok_def)
    moreover have "bytes x = sum_list (map bytes [x])" by simp
    ultimately have "\<forall>r\<in>set (chunk_loop bytes cap (out @ [cur]) [x] (bytes x) xs). run_ok bytes cap r"
      by (rule Cons.IH)
    with False show ?thesis by simp
  qed
qed auto

lemma chunks_ok:
  "concat (chunk_by_bytes L data cap) = data"
  "r \<in> set (chunk_by_bytes L data cap) \<Longrightarrow> run_ok (\<lambda>v. length (to_json L v)) cap r"
proof -
  show "concat (chunk_by_bytes L data cap) = data"
    by (cases data) (simp_all add: chunk_by_bytes_def concat_chunk_loop)
  show "run_ok (\<lambda>v. length (to_json L v)) cap r" if "r \<in> set (chunk_by_bytes L data cap)"
  proof (cases data)
    case (Cons x xs)
    let ?b = "\<lambda>v. length (to_json L v)"
    have "\<forall>r\<in>set (chunk_loop ?b cap [] [x] (?b x) xs). run_ok ?b cap r"
      by (rule chunk_loop_runs) (simp_all add: run_ok_def)
    with that Cons show ?thesis by (simp add: chunk_by_bytes_def)
  qed (use that in \<open>simp add: chunk_by_bytes_def\<close>)
qed

subsection \<open>Two observations\<close>

text \<open>A write that changes no attribute fires a subscription that asks for \<open>entityUpdated\<close> and watches nothing,
  and no subscription that asks for the three attribute triggers that the comment calls equivalent to it.\<close>

lemma unchanged_write_triggers:
  assumes "watched sub = None" "''entityUpdated'' \<in> set (triggers_of sub)"
  shows "triggered sub [] ''entityUpdated''"
  using assms by (simp add: triggered_def Let_def)

lemma attribute_triggers_need_a_change:
  assumes "set (triggers_of sub) \<subseteq> {''attributeCreated'', ''attributeUpdated'', ''attributeDeleted''}"
  shows "\<not> triggered sub [] ''entityUpdated''"
  using assms by (auto simp: triggered_def Let_def relevant_def)

text \<open>The tombstone of a list attribute carries \<open>value\<close>, a member that expansion refuses on its type.\<close>

lemma list_tombstone_member:
  "null_members ''ListProperty'' = (''value'', JStr NGSI_NULL, ''previousValue'')"
  "null_members ''ListRelationship'' = (''value'', JStr NGSI_NULL, ''previousValue'')"
  by (simp_all add: null_members_def)

lemma chunks_fit:
  "concat (chunk_by_bytes L data cap) = data
    \<and> list_all (\<lambda>r. r \<noteq> [] \<and> \<not> (cap < sum_list (map (\<lambda>v. length (to_json L v)) r) \<and> 1 < length r)) (chunk_by_bytes L data cap)"
  using chunks_ok by (fastforce simp: run_ok_def list_all_iff)

end
