(* ===== verification/Registry.thy ===== *)
theory Registry
  imports Notify
begin

text \<open>
  Context source registrations: matching a registration document (\<open>antares-api/src/registry.rs\<close>), the temporal
  query of a request (\<open>temporalq.rs\<close>), the registration mirror with its type and id buckets (\<open>mirror.rs\<close>), and
  the candidate filter of federation (\<open>federation.rs\<close>).  A pattern is compiled through the regex cache, which
  theory \<open>Caches\<close> shows to return what compiling afresh would (\<open>pattern_ok\<close>).
\<close>

subsection \<open>Temporal queries\<close>

record temporal_q =
  tq_timerel :: string
  tq_time_at :: string
  tq_end :: "string option"
  tq_timeproperty :: string

definition TIMEPROPERTIES :: "string list" where
  "TIMEPROPERTIES = [''observedAt'', ''createdAt'', ''modifiedAt'', ''deletedAt'']"

definition tq_bad :: "string \<Rightarrow> 'a ngsi_result" where
  "tq_bad m = Err (BadRequestData m)"

definition tq_bare :: "string bmap \<Rightarrow> bool \<Rightarrow> temporal_q option ngsi_result" where
  "tq_bare ps required =
     (if required then tq_bad ''temporal query requires timerel (5.7.4)''
      else if bm_contains ps ''timeAt'' \<or> bm_contains ps ''endTimeAt'' then tq_bad ''timeAt given without timerel''
      else (case bm_get ps ''timeproperty'' of
        None \<Rightarrow> Ok None
      | Some tp \<Rightarrow>
          if tp \<notin> set TIMEPROPERTIES then tq_bad ''invalid timeproperty''
          else Ok (Some \<lparr>tq_timerel = ''any'', tq_time_at = [], tq_end = None, tq_timeproperty = tp\<rparr>)))"

definition tq_from_params :: "ext \<Rightarrow> string bmap \<Rightarrow> bool \<Rightarrow> temporal_q option ngsi_result" where
  "tq_from_params E ps required = (case bm_get ps ''timerel'' of
     None \<Rightarrow> tq_bare ps required
   | Some rel \<Rightarrow>
       if rel \<notin> {''before'', ''after'', ''between''} then tq_bad ''invalid timerel''
       else and_then (case bm_get ps ''timeAt'' of
           Some s \<Rightarrow> if parse_datetime E s then Ok s else tq_bad ''timeAt must be a valid ISO 8601 DateTime (4.11)''
         | None \<Rightarrow> tq_bad ''timeAt must be a valid ISO 8601 DateTime (4.11)'') (\<lambda>ta.
       and_then (case bm_get ps ''endTimeAt'' of
           Some s \<Rightarrow> if parse_datetime E s then Ok (Some s) else tq_bad ''endTimeAt must be a valid ISO 8601 DateTime''
         | None \<Rightarrow> Ok None) (\<lambda>en.
       if rel = ''between'' \<and> en = None then tq_bad ''timerel=between requires endTimeAt (4.11)''
       else (let tp = (case bm_get ps ''timeproperty'' of None \<Rightarrow> ''observedAt'' | Some t \<Rightarrow> t) in
         if tp \<notin> set TIMEPROPERTIES then tq_bad ''invalid timeproperty''
         else Ok (Some \<lparr>tq_timerel = rel, tq_time_at = ta, tq_end = en, tq_timeproperty = tp\<rparr>)))))"

definition instance_matches :: "temporal_q \<Rightarrow> json \<Rightarrow> bool" where
  "instance_matches tq inst = (case Option.bind (jget inst (tq_timeproperty tq)) as_str of
     None \<Rightarrow> False
   | Some s \<Rightarrow> (let t = dt_key s in
       if tq_timerel tq = ''any'' then True
       else if tq_timerel tq = ''before'' then t < dt_key (tq_time_at tq)
       else if tq_timerel tq = ''after'' then dt_key (tq_time_at tq) \<le> t
       else if tq_timerel tq = ''between''
       then dt_key (tq_time_at tq) \<le> t \<and> (case tq_end tq of None \<Rightarrow> False | Some e \<Rightarrow> t < dt_key e)
       else False))"

subsection \<open>Registrations\<close>

definition reg_expired :: "string \<Rightarrow> json \<Rightarrow> bool" where
  "reg_expired now doc = (case sub_str doc ''expiresAt'' of None \<Rightarrow> False | Some e \<Rightarrow> dt_key e < dt_key now)"

definition temporal_interval_matches :: "json \<Rightarrow> temporal_q \<Rightarrow> bool" where
  "temporal_interval_matches doc tq =
     (let key = (if tq_timeproperty tq = ''observedAt'' then ''observationInterval'' else ''managementInterval'') in
      case Option.bind (jget doc key) as_object of
        None \<Rightarrow> False
      | Some iv \<Rightarrow>
         (let start = dt_key (case jget_str iv ''startAt'' of None \<Rightarrow> [] | Some s \<Rightarrow> s); en = map_option dt_key (jget_str iv ''endAt'') in
          if tq_timerel tq = ''before'' then start < dt_key (tq_time_at tq)
          else if tq_timerel tq = ''after'' then (case en of None \<Rightarrow> True | Some e \<Rightarrow> dt_key (tq_time_at tq) < e)
          else if tq_timerel tq = ''between''
          then dt_key (tq_time_at tq) \<le> (case en of None \<Rightarrow> ''9999'' | Some e \<Rightarrow> e) \<and>
               start \<le> dt_key (case tq_end tq of None \<Rightarrow> tq_time_at tq | Some e \<Rightarrow> e)
          else True))"

record 'g csr_spec =
  cs_types :: "string list option"
  cs_ids :: "string list option"
  cs_id_pattern :: "string option"
  cs_attrs :: "string list option"
  cs_dataset_ids :: "string list option"
  cs_csf :: "qnode option"
  cs_geo :: "'g geo_query_t option"
  cs_temporal :: "temporal_q option"

definition default_spec :: "'g csr_spec" where
  "default_spec = \<lparr>cs_types = None, cs_ids = None, cs_id_pattern = None, cs_attrs = None, cs_dataset_ids = None,
     cs_csf = None, cs_geo = None, cs_temporal = None\<rparr>"

definition ei_types :: "json \<Rightarrow> string list" where
  "ei_types ei = (case jget ei ''type'' of
     Some (JStr s) \<Rightarrow> [s] | Some (JArr a) \<Rightarrow> List.map_filter as_str a | _ \<Rightarrow> [])"

definition ei_type_ok :: "jctx \<Rightarrow> string list option \<Rightarrow> json \<Rightarrow> bool" where
  "ei_type_ok c tys ei = (case tys of
     None \<Rightarrow> True
   | Some ts \<Rightarrow> (let its = ei_types ei in
       its = [] \<or> list_ex (\<lambda>t. t \<in> set its \<or> type_selection_matches c t its) ts))"

definition ei_id_ok :: "(string \<Rightarrow> bool) builder \<Rightarrow> 'g csr_spec \<Rightarrow> json \<Rightarrow> bool" where
  "ei_id_ok B spec ei =
     (let rid = sub_str ei ''id''; pat = sub_str ei ''idPattern'' in
      if rid = None \<and> pat = None then True
      else (case cs_ids spec of
              None \<Rightarrow> False
            | Some ids \<Rightarrow> (case rid of None \<Rightarrow> False | Some i \<Rightarrow> i \<in> set ids)
                \<or> (case pat of None \<Rightarrow> False | Some p \<Rightarrow> list_ex (\<lambda>i. pattern_ok B i p) ids))
        \<or> (case cs_id_pattern spec of
              None \<Rightarrow> False
            | Some qp \<Rightarrow> (case rid of None \<Rightarrow> False | Some i \<Rightarrow> pattern_ok B i qp) \<or> pat \<noteq> None)
        \<or> (cs_ids spec = None \<and> cs_id_pattern spec = None))"

definition entity_info_matches :: "(string \<Rightarrow> bool) builder \<Rightarrow> jctx \<Rightarrow> 'g csr_spec \<Rightarrow> json \<Rightarrow> bool" where
  "entity_info_matches B c spec ei = (ei_type_ok c (cs_types spec) ei \<and> ei_id_ok B spec ei)"

definition attrs_match_info :: "string list option \<Rightarrow> json \<Rightarrow> bool" where
  "attrs_match_info attrs info = (case attrs of
     None \<Rightarrow> True
   | Some as \<Rightarrow>
      (let props = Option.bind (jget info ''propertyNames'') as_array; rels = Option.bind (jget info ''relationshipNames'') as_array;
           has = (\<lambda>l. case l of None \<Rightarrow> False | Some xs \<Rightarrow> list_ex (\<lambda>n. n \<in> set as) (List.map_filter as_str xs))
       in as = [] \<or> (props = None \<and> rels = None) \<or> has props \<or> has rels))"

definition info_matches :: "(string \<Rightarrow> bool) builder \<Rightarrow> jctx \<Rightarrow> 'g csr_spec \<Rightarrow> json \<Rightarrow> bool" where
  "info_matches B c spec info =
     ((case Option.bind (jget info ''entities'') as_array of
         None \<Rightarrow> True | Some es \<Rightarrow> list_ex (entity_info_matches B c spec) es) \<and> attrs_match_info (cs_attrs spec) info)"

definition matching_infos :: "(string \<Rightarrow> bool) builder \<Rightarrow> jctx \<Rightarrow> 'g csr_spec \<Rightarrow> json \<Rightarrow> json list" where
  "matching_infos B c spec doc = (case Option.bind (jget doc ''information'') as_array of
     None \<Rightarrow> [] | Some infos \<Rightarrow> filter (info_matches B c spec) infos)"

definition csr_matches :: "(string \<Rightarrow> bool) builder \<Rightarrow> jctx \<Rightarrow> 'g csr_spec \<Rightarrow> json \<Rightarrow> bool" where
  "csr_matches B c spec doc \<longleftrightarrow> matching_infos B c spec doc \<noteq> []"

definition csf_instance :: "json \<Rightarrow> json" where
  "csf_instance v = (case v of
     JArr _ \<Rightarrow> v
   | JObj m \<Rightarrow> if bm_contains m ''value'' \<or> bm_contains m ''object'' then JArr [v]
       else JArr [mkobj [(''type'', JStr ''Property''), (''value'', v)]]
   | _ \<Rightarrow> JArr [mkobj [(''type'', JStr ''Property''), (''value'', v)]])"

definition csf_skipped :: "string list" where
  "csf_skipped = [''id'', ''type'', ''information'', ''createdAt'', ''modifiedAt'']"

definition csf_matches :: "ext \<Rightarrow> jctx \<Rightarrow> qnode \<Rightarrow> json \<Rightarrow> bool" where
  "csf_matches E c csf reg = (case reg of
     JObj m \<Rightarrow>
       (let p0 = bm_insert ''type'' (JArr [JStr ''ContextSourceRegistration''])
                   (bm_insert ''id'' (case bm_get m ''id'' of None \<Rightarrow> JNull | Some i \<Rightarrow> i) []);
            pseudo = fold (\<lambda>(k, v) p. if k \<in> set csf_skipped then p else bm_insert (expand_key c k) (csf_instance v) p) m p0
        in eval_q E c (\<lambda>_. None) (JObj pseudo) csf)
   | _ \<Rightarrow> False)"

subsection \<open>A subscription to registrations\<close>

definition some_if :: "'a list \<Rightarrow> 'a list option" where
  "some_if xs = (if xs = [] then None else Some xs)"

definition spec_for_subscription :: "json \<Rightarrow> 'g csr_spec" where
  "spec_for_subscription sub =
     (let es = (case Option.bind (jget sub ''entities'') as_array of None \<Rightarrow> [] | Some es \<Rightarrow> es);
          strs = (\<lambda>v. case Option.bind v as_array of None \<Rightarrow> [] | Some a \<Rightarrow> List.map_filter as_str a)
      in default_spec\<lparr>cs_types := some_if (List.map_filter (\<lambda>e. sub_str e ''type'') es),
           cs_ids := some_if (List.map_filter (\<lambda>e. sub_str e ''id'') es),
           cs_id_pattern := (case List.map_filter (\<lambda>e. sub_str e ''idPattern'') es of [] \<Rightarrow> None | p # _ \<Rightarrow> Some p),
           cs_attrs := some_if (strs (jget sub ''watchedAttributes'') @
             strs (Option.bind (jget sub ''notification'') (\<lambda>n. jget n ''attributes'')))\<rparr>)"

definition temporal_condition :: "ext \<Rightarrow> json \<Rightarrow> json \<Rightarrow> bool" where
  "temporal_condition E sub reg = (case Option.bind (jget sub ''temporalQ'') as_object of
     None \<Rightarrow> jget reg ''observationInterval'' = None \<and> jget reg ''managementInterval'' = None
   | Some m \<Rightarrow>
      (let ps = fold (\<lambda>k ps. case jget_str m k of None \<Rightarrow> ps | Some s \<Rightarrow> bm_insert k s ps)
                  [''timerel'', ''timeAt'', ''endTimeAt'', ''timeproperty''] []
       in case tq_from_params E ps False of
            Ok (Some t) \<Rightarrow> tq_timerel t = ''any'' \<or> temporal_interval_matches reg t
          | _ \<Rightarrow> True))"

definition reg_geo_condition :: "lib \<Rightarrow> 'g geo_lib \<Rightarrow> json \<Rightarrow> json \<Rightarrow> bool" where
  "reg_geo_condition L G sub reg = (case Option.bind (jget sub ''geoQ'') as_object of
     None \<Rightarrow> True
   | Some g \<Rightarrow> (case build_geo L G g of
        None \<Rightarrow> True
      | Some gq \<Rightarrow> (case jget reg ''location'' of None \<Rightarrow> False | Some geom \<Rightarrow> matches_geometry G gq geom)))"

definition csf_condition :: "ext \<Rightarrow> jctx \<Rightarrow> json \<Rightarrow> json \<Rightarrow> bool" where
  "csf_condition E c sub reg = (case sub_str sub ''csf'' of
     None \<Rightarrow> True
   | Some q \<Rightarrow> (case parse_q E q of Ok n \<Rightarrow> csf_matches E c n reg | Err _ \<Rightarrow> False))"

definition csr_matches_subscription :: "'g env \<Rightarrow> jctx \<Rightarrow> json \<Rightarrow> json \<Rightarrow> bool" where
  "csr_matches_subscription V c sub reg \<longleftrightarrow>
     \<not> reg_expired (now_iso (e_clock V)) reg \<and>
     csr_matches (e_builder V) c (spec_for_subscription sub :: 'g csr_spec) reg \<and>
     temporal_condition (base (e_lib V)) sub reg \<and> reg_geo_condition (e_lib V) (e_geo V) sub reg \<and>
     csf_condition (base (e_lib V)) c sub reg \<and> scope_condition sub reg"

definition csource_trigger :: "'g env \<Rightarrow> jctx \<Rightarrow> json \<Rightarrow> json option \<Rightarrow> json option \<Rightarrow> string option" where
  "csource_trigger V c sub before after =
     (let m = (\<lambda>d. case d of None \<Rightarrow> False | Some d \<Rightarrow> csr_matches_subscription V c sub d) in
      case (m before, m after) of
        (False, True) \<Rightarrow> Some ''newlyMatching''
      | (True, True) \<Rightarrow> Some ''updated''
      | (True, False) \<Rightarrow> Some ''noLongerMatching''
      | (False, False) \<Rightarrow> None)"

subsection \<open>Presentation\<close>

definition compact_names :: "jctx \<Rightarrow> json list \<Rightarrow> json" where
  "compact_names c xs = JArr (map (\<lambda>n. JStr (compact_iri c n)) (List.map_filter as_str xs))"

definition obj_or_empty :: "json \<Rightarrow> jobj" where
  "obj_or_empty v = (case v of JObj m \<Rightarrow> m | _ \<Rightarrow> [])"

definition present_entity_info :: "jctx \<Rightarrow> json \<Rightarrow> json" where
  "present_entity_info c e = (let m = obj_or_empty e in
     JObj (case bm_get m ''type'' of
         Some (JStr t) \<Rightarrow> bm_insert ''type'' (JStr (compact_iri c t)) m
       | Some (JArr ts) \<Rightarrow> bm_insert ''type'' (compact_names c ts) m
       | _ \<Rightarrow> m))"

definition present_names :: "jctx \<Rightarrow> string \<Rightarrow> jobj \<Rightarrow> jobj" where
  "present_names c k m = (case bm_get m k of Some (JArr ns) \<Rightarrow> bm_insert k (compact_names c ns) m | _ \<Rightarrow> m)"

definition present_info :: "jctx \<Rightarrow> json \<Rightarrow> json" where
  "present_info c info =
     (let m = obj_or_empty info;
          m = (case bm_get m ''entities'' of Some (JArr es) \<Rightarrow> bm_insert ''entities'' (JArr (map (present_entity_info c) es)) m | _ \<Rightarrow> m)
      in JObj (present_names c ''relationshipNames'' (present_names c ''propertyNames'' m)))"

definition present_registration :: "jctx \<Rightarrow> bool \<Rightarrow> json \<Rightarrow> json" where
  "present_registration c sys doc = (case doc of
     JObj m \<Rightarrow> JObj (List.map_filter (\<lambda>(k, v).
        if (k = ''createdAt'' \<or> k = ''modifiedAt'') \<and> \<not> sys then None
        else if k = ''information'' then Some (k, JArr (map (present_info c) (array_or_empty (Some v))))
        else Some (k, v)) m)
   | _ \<Rightarrow> doc)"

subsection \<open>The registration mirror\<close>

text \<open>The keys of one registration, \<open>None\<close> where no key of the dimension can exclude it.  The loops return early
  on an information element without entities.\<close>

definition reg_entities :: "json \<Rightarrow> json list option" where
  "reg_entities info = (case Option.bind (jget info ''entities'') as_array of
     None \<Rightarrow> None | Some es \<Rightarrow> some_if es)"

fun all_entities :: "json list \<Rightarrow> json list option" where
  "all_entities [] = Some []"
| "all_entities (i # is) = (case reg_entities i of
     None \<Rightarrow> None | Some es \<Rightarrow> map_option (\<lambda>fs. es @ fs) (all_entities is))"

definition exact_id :: "json \<Rightarrow> string option" where
  "exact_id ei = (if jget ei ''idPattern'' \<noteq> None then None else sub_str ei ''id'')"

definition reg_keys :: "json \<Rightarrow> string list option \<times> string list option" where
  "reg_keys doc = (case Option.bind (jget doc ''information'') as_array of
     None \<Rightarrow> (None, None)
   | Some infos \<Rightarrow> (case (if infos = [] then None else all_entities infos) of
        None \<Rightarrow> (None, None)
      | Some es \<Rightarrow>
         (if list_ex (\<lambda>ei. ei_types ei = []) es then None else Some (concat (map ei_types es)),
          if list_ex (\<lambda>ei. exact_id ei = None) es then None else Some (List.map_filter exact_id es))))"

record reg_index =
  ri_docs :: "json bmap"
  ri_by_type :: buckets
  ri_by_id :: buckets
  ri_any_type :: "string set"
  ri_any_id :: "string set"

definition empty_reg_index :: reg_index where
  "empty_reg_index = \<lparr>ri_docs = [], ri_by_type = [], ri_by_id = [], ri_any_type = {}, ri_any_id = {}\<rparr>"

definition unfile_keys :: "string \<Rightarrow> string list option \<Rightarrow> buckets \<times> string set \<Rightarrow> buckets \<times> string set" where
  "unfile_keys i ks b = (case b of (bk, any) \<Rightarrow> (case ks of
     None \<Rightarrow> (bk, any - {i}) | Some ks \<Rightarrow> (fold (unfile_from i) ks bk, any)))"

definition file_keys :: "string \<Rightarrow> string list option \<Rightarrow> buckets \<times> string set \<Rightarrow> buckets \<times> string set" where
  "file_keys i ks b = (case b of (bk, any) \<Rightarrow> (case ks of
     None \<Rightarrow> (bk, insert i any) | Some ks \<Rightarrow> (fold (file_under i) ks bk, any)))"

definition reg_unfile :: "string \<Rightarrow> json \<Rightarrow> reg_index \<Rightarrow> reg_index" where
  "reg_unfile i d t = (case reg_keys d of (tks, iks) \<Rightarrow>
     (case (unfile_keys i tks (ri_by_type t, ri_any_type t), unfile_keys i iks (ri_by_id t, ri_any_id t)) of
        ((bt, ft), (bi, fi)) \<Rightarrow> t\<lparr>ri_by_type := bt, ri_any_type := ft, ri_by_id := bi, ri_any_id := fi\<rparr>))"

definition reg_file :: "string \<Rightarrow> json \<Rightarrow> reg_index \<Rightarrow> reg_index" where
  "reg_file i d t = (case reg_keys d of (tks, iks) \<Rightarrow>
     (case (file_keys i tks (ri_by_type t, ri_any_type t), file_keys i iks (ri_by_id t, ri_any_id t)) of
        ((bt, ft), (bi, fi)) \<Rightarrow> t\<lparr>ri_by_type := bt, ri_any_type := ft, ri_by_id := bi, ri_any_id := fi\<rparr>))"

definition reg_remove :: "string \<Rightarrow> reg_index \<Rightarrow> reg_index" where
  "reg_remove i t = (case bm_get (ri_docs t) i of
     None \<Rightarrow> t | Some old \<Rightarrow> reg_unfile i old (t\<lparr>ri_docs := bm_remove i (ri_docs t)\<rparr>))"

definition reg_insert :: "string \<Rightarrow> json \<Rightarrow> reg_index \<Rightarrow> reg_index" where
  "reg_insert i d t = (let t = reg_file i d (reg_remove i t) in t\<lparr>ri_docs := bm_insert i d (ri_docs t)\<rparr>)"

type_synonym doc_mirror = "reg_index bmap"

definition doc_mirror_apply :: "string \<Rightarrow> string \<Rightarrow> json option \<Rightarrow> doc_mirror \<Rightarrow> doc_mirror" where
  "doc_mirror_apply tn i doc m = (case doc of
     Some d \<Rightarrow> bm_insert tn (reg_insert i d (case bm_get m tn of None \<Rightarrow> empty_reg_index | Some t \<Rightarrow> t)) m
   | None \<Rightarrow> (case bm_get m tn of
       None \<Rightarrow> m
     | Some t \<Rightarrow> (let t = reg_remove i t in if ri_docs t = [] then bm_remove tn m else bm_insert tn t m)))"

definition bucketed :: "string list option \<Rightarrow> buckets \<Rightarrow> string set \<Rightarrow> string set option" where
  "bucketed ks bk any = map_option (\<lambda>ks. any \<union> (\<Union>k\<in>set ks. bucket bk k)) ks"

definition allowed_by :: "string set option \<Rightarrow> string \<Rightarrow> bool" where
  "allowed_by s i = (case s of None \<Rightarrow> True | Some s \<Rightarrow> i \<in> s)"

definition reg_matching :: "doc_mirror \<Rightarrow> string \<Rightarrow> string list option \<Rightarrow> string list option \<Rightarrow> json list" where
  "reg_matching m tn iks tks = (case bm_get m tn of
     None \<Rightarrow> []
   | Some t \<Rightarrow>
      (let bt = bucketed tks (ri_by_type t) (ri_any_type t); bi = bucketed iks (ri_by_id t) (ri_any_id t)
       in map snd (filter (\<lambda>e. allowed_by bt (fst e) \<and> allowed_by bi (fst e)) (ri_docs t))))"

subsection \<open>Candidates of a distributed operation\<close>

definition reg_candidate :: "'g env \<Rightarrow> jctx \<Rightarrow> 'g csr_spec \<Rightarrow> string list \<Rightarrow> json \<Rightarrow> json list option" where
  "reg_candidate V c spec seen doc =
     (if reg_expired (now_iso (e_clock V)) doc then None
      else if \<not> (case cs_csf spec of None \<Rightarrow> True | Some n \<Rightarrow> csf_matches (base (e_lib V)) c n doc) then None
      else if \<not> (case (cs_dataset_ids spec, Option.bind (jget doc ''datasetId'') as_array) of
          (Some ds, Some rds) \<Rightarrow> list_ex (\<lambda>d. d \<in> set ds) (List.map_filter as_str rds) | _ \<Rightarrow> True) then None
      else if \<not> (case (cs_geo spec, jget doc ''location'') of
          (Some gq, Some geom) \<Rightarrow> matches_geometry (e_geo V) gq geom | _ \<Rightarrow> True) then None
      else if \<not> (case cs_temporal spec of
          None \<Rightarrow> True
        | Some tq \<Rightarrow> (jget doc ''observationInterval'' = None \<and> jget doc ''managementInterval'' = None) \<or> temporal_interval_matches doc tq) then None
      else if (case sub_str doc ''contextSourceAlias'' of None \<Rightarrow> False | Some a \<Rightarrow> a \<in> set seen) then None
      else some_if (matching_infos (e_builder V) c spec doc))"

definition SELECTION_CHARS :: string where
  "SELECTION_CHARS = '',;|()*''"

definition prefilter_types :: "jctx \<Rightarrow> 'g csr_spec \<Rightarrow> string list option" where
  "prefilter_types c spec = (case cs_types spec of
     None \<Rightarrow> None
   | Some ts \<Rightarrow> if list_ex (list_ex (\<lambda>ch. ch \<in> set SELECTION_CHARS)) ts then None else Some (map (expand_key c) ts))"

definition prefilter_ids :: "'g csr_spec \<Rightarrow> string list option" where
  "prefilter_ids spec = (if cs_id_pattern spec = None then cs_ids spec else None)"

definition reg_docs :: "doc_mirror \<Rightarrow> string \<Rightarrow> jctx \<Rightarrow> 'g csr_spec \<Rightarrow> json list" where
  "reg_docs m tn c spec = reg_matching m tn (prefilter_ids spec) (prefilter_types c spec)"

subsection \<open>The registration index is derived from the documents\<close>

datatype reg_place = RType string | RAnyType | RId string | RAnyId

definition reg_places :: "json \<Rightarrow> reg_place set" where
  "reg_places d = (case fst (reg_keys d) of None \<Rightarrow> {RAnyType} | Some ts \<Rightarrow> RType ` set ts) \<union>
     (case snd (reg_keys d) of None \<Rightarrow> {RAnyId} | Some is \<Rightarrow> RId ` set is)"

fun reg_filed :: "reg_index \<Rightarrow> reg_place \<Rightarrow> string \<Rightarrow> bool" where
  "reg_filed t (RType k) i = (i \<in> bucket (ri_by_type t) k)"
| "reg_filed t RAnyType i = (i \<in> ri_any_type t)"
| "reg_filed t (RId k) i = (i \<in> bucket (ri_by_id t) k)"
| "reg_filed t RAnyId i = (i \<in> ri_any_id t)"

definition reg_buckets_ok :: "reg_index \<Rightarrow> bool" where
  "reg_buckets_ok t \<longleftrightarrow> buckets_ok (ri_by_type t) \<and> buckets_ok (ri_by_id t)"

lemmas reg_filing = reg_file_def reg_unfile_def file_keys_def unfile_keys_def fold_file fold_unfile

interpretation reg_ix: doc_index reg_places reg_file reg_unfile reg_filed reg_buckets_ok
proof
  fix ix :: reg_index and i d p j
  assume ok: "reg_buckets_ok ix"
  then show "reg_buckets_ok (reg_file i d ix)" "reg_buckets_ok (reg_unfile i d ix)"
    by (auto simp: reg_buckets_ok_def reg_filing split: prod.split option.split)
  from ok show "reg_filed (reg_file i d ix) p j \<longleftrightarrow> reg_filed ix p j \<or> j = i \<and> p \<in> reg_places d"
    by (cases p; cases "reg_keys d") (auto simp: reg_buckets_ok_def reg_filing reg_places_def split: option.splits)
  from ok show "reg_filed (reg_unfile i d ix) p j \<longleftrightarrow> reg_filed ix p j \<and> \<not> (j = i \<and> p \<in> reg_places d)"
    by (cases p; cases "reg_keys d") (auto simp: reg_buckets_ok_def reg_filing reg_places_def split: option.splits)
qed

definition reg_index_ok :: "reg_index \<Rightarrow> bool" where
  "reg_index_ok t \<longleftrightarrow> index_consistent reg_places reg_filed reg_buckets_ok (ri_docs t) t"

lemma reg_index_docs [simp]:
  "ri_docs (reg_file i d t) = ri_docs t" "ri_docs (reg_unfile i d t) = ri_docs t"
  "index_consistent reg_places reg_filed reg_buckets_ok ds (t\<lparr>ri_docs := es\<rparr>) = index_consistent reg_places reg_filed reg_buckets_ok ds t"
proof -
  have "reg_filed (t\<lparr>ri_docs := es\<rparr>) p i = reg_filed t p i" for p i by (cases p) simp_all
  then show "index_consistent reg_places reg_filed reg_buckets_ok ds (t\<lparr>ri_docs := es\<rparr>) = index_consistent reg_places reg_filed reg_buckets_ok ds t"
    by (simp add: index_consistent_def reg_buckets_ok_def)
qed (simp_all add: reg_file_def reg_unfile_def split: prod.split)

lemma reg_unfile_update: "reg_unfile i d (t\<lparr>ri_docs := es\<rparr>) = (reg_unfile i d t)\<lparr>ri_docs := es\<rparr>"
  by (simp add: reg_unfile_def split: prod.split)

lemma reg_remove_ok:
  assumes "reg_index_ok t"
  shows "reg_index_ok (reg_remove i t) \<and> ri_docs (reg_remove i t) = bm_remove i (ri_docs t)"
proof -
  have c: "index_consistent reg_places reg_filed reg_buckets_ok (ri_docs t) t" using assms by (simp add: reg_index_ok_def)
  show ?thesis
  proof (cases "bm_get (ri_docs t) i")
    case None
    with c have "bm_remove i (ri_docs t) = ri_docs t" by (simp add: index_consistent_def bm.del_absent)
    with None assms show ?thesis by (simp add: reg_remove_def)
  next
    case (Some d)
    from reg_ix.drop_present [OF c Some] Some show ?thesis
      by (simp add: reg_remove_def reg_index_ok_def reg_unfile_update)
  qed
qed

lemma reg_insert_ok:
  assumes "reg_index_ok t"
  shows "reg_index_ok (reg_insert i d t) \<and> ri_docs (reg_insert i d t) = bm_insert i d (bm_remove i (ri_docs t))"
proof -
  from reg_remove_ok [OF assms] have ok: "reg_index_ok (reg_remove i t)" and ds: "ri_docs (reg_remove i t) = bm_remove i (ri_docs t)"
    by blast+
  have bm: "bm_ok (ri_docs t)" using assms by (simp add: reg_index_ok_def index_consistent_def)
  have c: "index_consistent reg_places reg_filed reg_buckets_ok (bm_remove i (ri_docs t)) (reg_remove i t)"
    using ok ds by (simp add: reg_index_ok_def)
  have "bm_get (bm_remove i (ri_docs t)) i = None" using bm by simp
  from reg_ix.put_absent [OF c this] show ?thesis
    by (simp add: reg_insert_def Let_def reg_index_ok_def ds)
qed

lemma empty_reg_index_ok: "reg_index_ok empty_reg_index"
proof -
  have "\<not> reg_filed empty_reg_index p i" for p i by (cases p) (simp_all add: empty_reg_index_def bucket_def)
  then show ?thesis
    by (simp add: reg_index_ok_def index_consistent_def reg_buckets_ok_def buckets_ok_def empty_reg_index_def)
qed

subsection \<open>The mirror is the last delta of every registration\<close>

definition doc_mirror_ok :: "doc_mirror \<Rightarrow> bool" where
  "doc_mirror_ok m \<longleftrightarrow> bm_ok m \<and> (\<forall>tn t. bm_get m tn = Some t \<longrightarrow> reg_index_ok t \<and> ri_docs t \<noteq> [])"

definition reg_held :: "doc_mirror \<Rightarrow> string \<Rightarrow> string \<Rightarrow> json option" where
  "reg_held m tn i = Option.bind (bm_get m tn) (\<lambda>t. bm_get (ri_docs t) i)"

definition registered :: "delta list \<Rightarrow> doc_mirror" where
  "registered ds = fold (\<lambda>(tn, i, doc). doc_mirror_apply tn i doc) ds []"

lemma bm_insert_nonempty [simp]: "bm_insert k v m \<noteq> []"
  by (induction m) (auto split: if_splits)

lemma doc_mirror_step:
  assumes "doc_mirror_ok m"
  shows "doc_mirror_ok (doc_mirror_apply tn i doc m)"
    "reg_held (doc_mirror_apply tn i doc m) tn' j = (if tn = tn' \<and> i = j then doc else reg_held m tn' j)"
proof -
  define t0 where "t0 = (case bm_get m tn of None \<Rightarrow> empty_reg_index | Some t \<Rightarrow> t)"
  have t0: "reg_index_ok t0" "bm_ok (ri_docs t0)"
    using assms empty_reg_index_ok
    by (auto simp: doc_mirror_ok_def t0_def reg_index_ok_def index_consistent_def split: option.split)
  have ok: "bm_ok m" using assms by (simp add: doc_mirror_ok_def)
  note removed = reg_remove_ok [OF t0(1), of i] and inserted = reg_insert_ok [OF t0(1), of i]
  show "doc_mirror_ok (doc_mirror_apply tn i doc m)"
    using assms t0 removed inserted
    by (auto simp: doc_mirror_ok_def doc_mirror_apply_def Let_def t0_def bm_laws split: option.splits if_split_asm)
  have gone: "bm_get (ri_docs t0) j = None" if "bm_remove i (ri_docs t0) = []" "i \<noteq> j"
    using t0(2) that bm.get_del [of "ri_docs t0" i j] by simp
  show "reg_held (doc_mirror_apply tn i doc m) tn' j = (if tn = tn' \<and> i = j then doc else reg_held m tn' j)"
    using ok t0 gone removed inserted
    by (auto simp: reg_held_def doc_mirror_apply_def Let_def t0_def empty_reg_index_def bm_laws split: option.splits)
qed

lemma registered_ok: "doc_mirror_ok (registered ds) \<and> reg_held (registered ds) tn i = latest ds tn i"
proof (induction ds rule: rev_induct)
  case Nil
  show ?case by (simp add: registered_def latest_def doc_mirror_ok_def reg_held_def)
next
  case (snoc d ds)
  obtain tn' i' doc where "d = (tn', i', doc)" by (cases d)
  with snoc doc_mirror_step(1) [of "registered ds" tn' i' doc] doc_mirror_step(2) [of "registered ds" tn' i' doc tn i]
  show ?case by (simp add: registered_def latest_def)
qed

subsection \<open>The prefilter loses no registration\<close>

definition registrations :: "doc_mirror \<Rightarrow> string \<Rightarrow> json list" where
  "registrations m tn = (case bm_get m tn of None \<Rightarrow> [] | Some t \<Rightarrow> bm_values (ri_docs t))"

definition reg_hit :: "string list option \<Rightarrow> string list option \<Rightarrow> json \<Rightarrow> bool" where
  "reg_hit iks tks d \<longleftrightarrow>
     (case (tks, fst (reg_keys d)) of (Some ks, Some ts) \<Rightarrow> set ks \<inter> set ts \<noteq> {} | _ \<Rightarrow> True) \<and>
     (case (iks, snd (reg_keys d)) of (Some ks, Some is) \<Rightarrow> set ks \<inter> set is \<noteq> {} | _ \<Rightarrow> True)"

lemma reg_matching_iff:
  assumes "reg_index_ok t" "bm_get (ri_docs t) i = Some d"
  shows "allowed_by (bucketed tks (ri_by_type t) (ri_any_type t)) i \<and> allowed_by (bucketed iks (ri_by_id t) (ri_any_id t)) i
    \<longleftrightarrow> reg_hit iks tks d"
proof -
  have filed: "reg_filed t p i \<longleftrightarrow> p \<in> reg_places d" for p
    using assms by (auto simp: reg_index_ok_def reg_ix.filed_iff)
  have "i \<in> ri_any_type t \<longleftrightarrow> fst (reg_keys d) = None" "i \<in> ri_any_id t \<longleftrightarrow> snd (reg_keys d) = None"
    "i \<in> bucket (ri_by_type t) k \<longleftrightarrow> (\<exists>ts. fst (reg_keys d) = Some ts \<and> k \<in> set ts)"
    "i \<in> bucket (ri_by_id t) k \<longleftrightarrow> (\<exists>is. snd (reg_keys d) = Some is \<and> k \<in> set is)" for k
    using filed [of RAnyType] filed [of RAnyId] filed [of "RType k"] filed [of "RId k"]
    by (auto simp: reg_places_def split: option.splits)
  then show ?thesis
    by (cases tks; cases iks) (auto simp: allowed_by_def bucketed_def reg_hit_def split: option.splits)
qed

lemma reg_matching_filter:
  assumes "doc_mirror_ok m" and hit: "\<And>d. d \<in> set (registrations m tn) \<Longrightarrow> P d \<Longrightarrow> reg_hit iks tks d"
  shows "filter P (reg_matching m tn iks tks) = filter P (registrations m tn)"
proof (cases "bm_get m tn")
  case (Some t)
  then have ok: "reg_index_ok t" using assms(1) by (auto simp: doc_mirror_ok_def)
  then have "bm_ok (ri_docs t)" by (auto simp: reg_index_ok_def index_consistent_def)
  then have "allowed_by (bucketed tks (ri_by_type t) (ri_any_type t)) (fst e) \<and>
      allowed_by (bucketed iks (ri_by_id t) (ri_any_id t)) (fst e)" if "e \<in> set (ri_docs t)" "P (snd e)" for e
    using that reg_matching_iff [OF ok, of "fst e" "snd e" tks iks] hit [of "snd e"] Some
    by (auto simp: bm_get_iff registrations_def bm_values_def)
  then show ?thesis
    by (auto simp: reg_matching_def registrations_def bm_values_def Some Let_def filter_map comp_def
        intro!: arg_cong [where f = "map snd"] filter_cong)
qed (simp add: reg_matching_def registrations_def)

lemma all_entities_mem:
  "all_entities is = Some es \<Longrightarrow> i \<in> set is \<Longrightarrow>
     \<exists>fs. Option.bind (jget i ''entities'') as_array = Some fs \<and> set fs \<subseteq> set es"
proof (induction "is" arbitrary: es)
  case (Cons j js)
  from Cons.prems(1) obtain fs gs where fg: "reg_entities j = Some fs" "all_entities js = Some gs" "es = fs @ gs"
    by (auto split: option.splits)
  from fg(1) have "Option.bind (jget j ''entities'') as_array = Some fs"
    by (auto simp: reg_entities_def some_if_def split: option.splits if_split_asm)
  with Cons.IH [OF fg(2)] Cons.prems(2) fg(3) show ?case by auto
qed simp

lemma reg_keys_of:
  assumes "Option.bind (jget d ''information'') as_array = Some infos" "info \<in> set infos" "infos \<noteq> []"
  shows "fst (reg_keys d) = Some ts \<Longrightarrow> \<exists>fs. Option.bind (jget info ''entities'') as_array = Some fs \<and>
      (\<forall>ei\<in>set fs. ei_types ei \<noteq> [] \<and> set (ei_types ei) \<subseteq> set ts)"
    and "snd (reg_keys d) = Some is \<Longrightarrow> \<exists>fs. Option.bind (jget info ''entities'') as_array = Some fs \<and>
      (\<forall>ei\<in>set fs. \<exists>k. jget ei ''idPattern'' = None \<and> sub_str ei ''id'' = Some k \<and> k \<in> set is)"
proof -
  show "\<exists>fs. Option.bind (jget info ''entities'') as_array = Some fs \<and>
      (\<forall>ei\<in>set fs. ei_types ei \<noteq> [] \<and> set (ei_types ei) \<subseteq> set ts)" if k: "fst (reg_keys d) = Some ts"
  proof -
    from k assms obtain es where "all_entities infos = Some es" "list_all (\<lambda>ei. ei_types ei \<noteq> []) es" "ts = concat (map ei_types es)"
      by (auto simp: reg_keys_def list_ex_iff list_all_iff split: option.splits if_split_asm)
    with all_entities_mem [OF _ assms(2)] show ?thesis by (fastforce simp: list_all_iff)
  qed
  show "\<exists>fs. Option.bind (jget info ''entities'') as_array = Some fs \<and>
      (\<forall>ei\<in>set fs. \<exists>k. jget ei ''idPattern'' = None \<and> sub_str ei ''id'' = Some k \<and> k \<in> set is)" if k: "snd (reg_keys d) = Some is"
  proof -
    from k assms obtain es where es: "all_entities infos = Some es" "list_all (\<lambda>ei. exact_id ei \<noteq> None) es" "is = List.map_filter exact_id es"
      by (auto simp: reg_keys_def list_ex_iff list_all_iff split: option.splits if_split_asm)
    from all_entities_mem [OF es(1) assms(2)] obtain fs where fs: "Option.bind (jget info ''entities'') as_array = Some fs" "set fs \<subseteq> set es"
      by blast
    have "\<exists>k. jget ei ''idPattern'' = None \<and> sub_str ei ''id'' = Some k \<and> k \<in> set is" if "ei \<in> set fs" for ei
    proof -
      from that fs(2) es(2) have "ei \<in> set es" "exact_id ei \<noteq> None" by (auto simp: list_all_iff)
      then obtain k where k: "exact_id ei = Some k" by blast
      with \<open>ei \<in> set es\<close> have "k \<in> set is" by (force simp: es(3) List.map_filter_def)
      with k show ?thesis by (auto simp: exact_id_def split: if_split_asm)
    qed
    with fs(1) show ?thesis by blast
  qed
qed

text \<open>A plain entry of the specification: written without surrounding blanks, and naming a registered type either by
  its IRI alone or by a term that expands to it.\<close>

definition plain_type :: "jctx \<Rightarrow> json \<Rightarrow> string \<Rightarrow> bool" where
  "plain_type c d t \<longleftrightarrow> trim t = t \<and>
     (expand_key c t = t \<or> (case fst (reg_keys d) of None \<Rightarrow> True | Some ts \<Rightarrow> t \<notin> set ts))"

lemma dropWhile_absent: "ch \<notin> set t \<Longrightarrow> dropWhile (\<lambda>x. x = ch) t = t"
  by (cases t) auto

lemma plain_selection:
  assumes "\<forall>ch\<in>set t. ch \<notin> set SELECTION_CHARS" "trim t = t"
  shows "type_selection_matches c t tys \<longleftrightarrow> expand_key c t \<in> set tys"
proof -
  have "CHR '','' \<notin> set t" "CHR ''|'' \<notin> set t" "CHR '';'' \<notin> set t"
    using assms(1) by (auto simp: SELECTION_CHARS_def)
  then have "split_on (\<lambda>c. c = CHR '','' \<or> c = CHR ''|'') t = [t]" "split_on (\<lambda>c. c = CHR '';'') t = [t]"
    by (intro split_on_no_sep; blast)+
  moreover have "CHR ''('' \<notin> set t" "CHR '')'' \<notin> set t" using assms(1) by (auto simp: SELECTION_CHARS_def)
  then have "trim_start_matches CHR ''('' t = t" "trim_end_matches CHR '')'' t = t"
    by (simp_all add: trim_start_matches_def trim_end_matches_def dropWhile_absent)
  ultimately show ?thesis by (simp add: type_selection_matches_def assms(2))
qed

lemma type_kept:
  assumes pre: "prefilter_types c spec = Some ks" and ts: "fst (reg_keys d) = Some ts"
    and plain: "\<forall>t\<in>set (case cs_types spec of None \<Rightarrow> [] | Some ts \<Rightarrow> ts). plain_type c d t"
    and ok: "ei_type_ok c (cs_types spec) ei" and its: "ei_types ei \<noteq> []" "set (ei_types ei) \<subseteq> set ts"
  shows "set ks \<inter> set ts \<noteq> {}"
proof -
  from pre obtain sel where sel: "cs_types spec = Some sel" "\<forall>t\<in>set sel. \<forall>ch\<in>set t. ch \<notin> set SELECTION_CHARS"
    "ks = map (expand_key c) sel"
    by (auto simp: prefilter_types_def list_ex_iff split: option.splits if_split_asm)
  from ok its(1) sel(1) obtain t where t: "t \<in> set sel" "t \<in> set (ei_types ei) \<or> type_selection_matches c t (ei_types ei)"
    by (auto simp: ei_type_ok_def Let_def list_ex_iff)
  from plain sel(1) t(1) have "trim t = t" "expand_key c t = t \<or> t \<notin> set ts" by (auto simp: plain_type_def ts)
  with t sel(2) its(2) plain_selection [of t c "ei_types ei"] have "expand_key c t \<in> set ts" by auto
  with t(1) sel(3) show ?thesis by auto
qed

lemma id_kept:
  assumes pre: "prefilter_ids spec = Some ks" and ok: "ei_id_ok B spec ei"
    and ei: "jget ei ''idPattern'' = None" "sub_str ei ''id'' = Some k" "k \<in> set is"
  shows "set ks \<inter> set is \<noteq> {}"
proof -
  from pre have "cs_id_pattern spec = None" "cs_ids spec = Some ks" by (auto simp: prefilter_ids_def split: if_split_asm)
  moreover from ei(1) have "sub_str ei ''idPattern'' = None" by (simp add: sub_str_def)
  ultimately have "k \<in> set ks" using ok ei(2) by (simp add: ei_id_ok_def Let_def)
  with ei(3) show ?thesis by blast
qed

lemma candidate_infos:
  "reg_candidate V c spec seen d \<noteq> None \<Longrightarrow> matching_infos (e_builder V) c spec d \<noteq> []"
  by (auto simp: reg_candidate_def some_if_def split: if_split_asm)

lemma candidate_hit:
  assumes cand: "reg_candidate V c spec seen d \<noteq> None"
    and plain: "\<forall>t\<in>set (case cs_types spec of None \<Rightarrow> [] | Some ts \<Rightarrow> ts). plain_type c d t"
  shows "reg_hit (prefilter_ids spec) (prefilter_types c spec) d"
proof -
  from candidate_infos [OF cand] obtain infos info where i: "Option.bind (jget d ''information'') as_array = Some infos"
    "info \<in> set infos" "infos \<noteq> []" and match: "info_matches (e_builder V) c spec info"
    by (fastforce simp: matching_infos_def filter_empty_conv split: option.splits)
  have "\<exists>ei\<in>set fs. entity_info_matches (e_builder V) c spec ei"
    if "Option.bind (jget info ''entities'') as_array = Some fs" for fs
    using match that by (simp add: info_matches_def list_ex_iff)
  note found = this and keys = reg_keys_of [OF i]
  have "set ks \<inter> set ts \<noteq> {}" if k: "prefilter_types c spec = Some ks" and t: "fst (reg_keys d) = Some ts" for ks ts
  proof -
    from keys(1) [OF t] obtain fs where fs: "Option.bind (jget info ''entities'') as_array = Some fs"
      "\<forall>ei\<in>set fs. ei_types ei \<noteq> [] \<and> set (ei_types ei) \<subseteq> set ts" by blast
    from found [OF fs(1)] obtain ei where "ei \<in> set fs" "ei_type_ok c (cs_types spec) ei" by (auto simp: entity_info_matches_def)
    then show ?thesis using fs(2) by (intro type_kept [OF k t plain, of ei]) auto
  qed
  moreover have "set ks \<inter> set is \<noteq> {}" if k: "prefilter_ids spec = Some ks" and t: "snd (reg_keys d) = Some is" for ks "is"
  proof -
    from keys(2) [OF t] obtain fs where fs: "Option.bind (jget info ''entities'') as_array = Some fs"
      "\<forall>ei\<in>set fs. \<exists>k. jget ei ''idPattern'' = None \<and> sub_str ei ''id'' = Some k \<and> k \<in> set is" by blast
    from found [OF fs(1)] obtain ei where "ei \<in> set fs" "ei_id_ok (e_builder V) spec ei" by (auto simp: entity_info_matches_def)
    with fs(2) id_kept [OF k] show ?thesis by blast
  qed
  ultimately show ?thesis unfolding reg_hit_def by (auto split: option.split)
qed

text \<open>An untrimmed type loses its registrations: the candidate filter trims what the prefilter expands as written.\<close>

lemma blank_type_is_lost:
  "type_selection_matches empty_ctx '' Car'' [expand_key empty_ctx ''Car''] \<and>
   expand_key empty_ctx '' Car'' \<noteq> expand_key empty_ctx ''Car''"
  by code_simp

end
