(* ===== verification/Egress.thy ===== *)
theory Egress
  imports BMap "HOL-Library.Word"
begin

text \<open>
  Outbound safety (\<open>antares-api/src/egress.rs\<close>): the circuit breaker per destination and tenant, and the
  cooldown per registration.  The failure counter is a 32-bit word and wraps as the release build does.  A clock reading is a number of milliseconds passed in; \<open>elapsed\<close> saturates
  at zero, as the difference of naturals does.  The maps are hash maps, so which of several entries with
  the same oldest stamp is evicted is not determined there; here it is the first in key order.  Reading a
  URL and the host policy are outside the source: \<open>dest\<close> gives the \<open>scheme://host:port\<close> of a URL that
  parses.
\<close>

record breaker =
  failures :: "32 word"
  tripped_at :: "nat option"
  touched_at :: "nat option"

record egress =
  breakers :: "breaker bmap"
  reg_failures :: "nat bmap"

definition MAX_TRACKED_DESTINATIONS :: nat where "MAX_TRACKED_DESTINATIONS = 4096"
definition TRIP_AFTER :: "32 word" where "TRIP_AFTER = 5"
definition COOLDOWN :: nat where "COOLDOWN = 30000"

definition new_egress :: egress where
  "new_egress = \<lparr>breakers = [], reg_failures = []\<rparr>"

definition unit_sep :: char where "unit_sep = CHR 0x1F"

definition reg_key :: "string \<Rightarrow> string \<Rightarrow> string" where
  "reg_key tenant reg_id = tenant @ unit_sep # reg_id"

definition breaker_key :: "(string \<Rightarrow> string option) \<Rightarrow> string \<Rightarrow> string \<Rightarrow> string" where
  "breaker_key dest tenant url =
     tenant @ unit_sep # (case dest url of Some d \<Rightarrow> d | None \<Rightarrow> url)"

subsection \<open>Eviction\<close>

text \<open>\<open>Option<Instant>\<close> orders \<open>None\<close> first; \<open>min_by_key\<close> returns the first smallest.\<close>

fun stamp_before :: "nat option \<Rightarrow> nat option \<Rightarrow> bool" where
  "stamp_before None y = True"
| "stamp_before (Some x) None = False"
| "stamp_before (Some x) (Some y) = (x \<le> y)"

fun oldest_by :: "('v \<Rightarrow> nat option) \<Rightarrow> (string \<times> 'v) list \<Rightarrow> string option" where
  "oldest_by stamp [] = None"
| "oldest_by stamp (e # es) =
     (case oldest_by stamp es of
        None \<Rightarrow> Some (fst e)
      | Some k \<Rightarrow> (case map_of es k of
            Some v \<Rightarrow> if stamp_before (stamp (snd e)) (stamp v) then Some (fst e) else Some k
          | None \<Rightarrow> Some (fst e)))"

definition tenant_prefix :: "string \<Rightarrow> string" where
  "tenant_prefix key = takeWhile (\<lambda>c. c \<noteq> unit_sep) key @ [unit_sep]"

definition victim :: "('v \<Rightarrow> nat option) \<Rightarrow> string \<Rightarrow> 'v bmap \<Rightarrow> string option" where
  "victim stamp key m =
     (let mine = (\<lambda>e. starts_with (tenant_prefix key) (fst e)) in
      case oldest_by stamp (filter mine m) of
        Some k \<Rightarrow> Some k
      | None \<Rightarrow> oldest_by stamp (filter (\<lambda>e. \<not> mine e) m))"

lemma oldest_by_mem: "oldest_by stamp m = Some k \<Longrightarrow> k \<in> fst ` set m"
  by (induction m) (auto split: option.splits if_splits)

lemma oldest_by_None: "oldest_by stamp m = None \<longleftrightarrow> m = []"
  by (cases m) (auto split: option.splits)

lemma victim_mem: "victim stamp key m = Some k \<Longrightarrow> k \<in> fst ` set m"
  by (auto simp: victim_def Let_def dest!: oldest_by_mem split: option.splits)

lemma length_remove_mem:
  assumes "k \<in> fst ` set m"
  shows "length (bm_remove k m) < length m"
proof -
  obtain v where "(k, v) \<in> set m" using assms by auto
  then show ?thesis unfolding bm_remove_def by (rule length_filter_less) simp
qed

function evict_oldest :: "('v \<Rightarrow> nat option) \<Rightarrow> string \<Rightarrow> 'v bmap \<Rightarrow> 'v bmap" where
  "evict_oldest stamp key m =
     (if length m < MAX_TRACKED_DESTINATIONS then m
      else (case victim stamp key m of
              None \<Rightarrow> m
            | Some k \<Rightarrow> evict_oldest stamp key (bm_remove k m)))"
  by pat_completeness auto
termination
  by (relation "measure (\<lambda>(stamp, key, m). length m)") (auto dest: victim_mem intro: length_remove_mem)

declare evict_oldest.simps [simp del]

text \<open>Both writers make room only for a key the map does not hold.\<close>

definition make_room :: "('v \<Rightarrow> nat option) \<Rightarrow> string \<Rightarrow> 'v bmap \<Rightarrow> 'v bmap" where
  "make_room stamp key m = (if bm_contains m key then m else evict_oldest stamp key m)"

subsection \<open>Cooldown of a registration\<close>

definition reg_in_cooldown :: "nat \<Rightarrow> string \<Rightarrow> nat \<Rightarrow> egress \<Rightarrow> bool" where
  "reg_in_cooldown now key cooldown_ms e =
     (case bm_get (reg_failures e) key of None \<Rightarrow> False | Some t \<Rightarrow> now - t < cooldown_ms)"

definition reg_record :: "nat \<Rightarrow> string \<Rightarrow> bool \<Rightarrow> egress \<Rightarrow> egress" where
  "reg_record now key ok e =
     (if ok then e\<lparr>reg_failures := bm_remove key (reg_failures e)\<rparr>
      else e\<lparr>reg_failures := bm_insert key now (make_room Some key (reg_failures e))\<rparr>)"

subsection \<open>The breaker\<close>

definition is_open :: "nat \<Rightarrow> string \<Rightarrow> egress \<Rightarrow> bool \<times> egress" where
  "is_open now key e =
     (case bm_get (breakers e) key of
        None \<Rightarrow> (False, e)
      | Some b \<Rightarrow> (case tripped_at b of
            None \<Rightarrow> (False, e)
          | Some t \<Rightarrow>
              if COOLDOWN \<le> now - t
              then (False, e\<lparr>breakers := bm_insert key (b\<lparr>tripped_at := Some now\<rparr>) (breakers e)\<rparr>)
              else (True, e)))"

definition record_success :: "string \<Rightarrow> egress \<Rightarrow> egress" where
  "record_success key e = e\<lparr>breakers := bm_remove key (breakers e)\<rparr>"

definition record_failure :: "nat \<Rightarrow> string \<Rightarrow> egress \<Rightarrow> egress" where
  "record_failure now key e =
     (let m = make_room touched_at key (breakers e);
          b = (case bm_get m key of Some b \<Rightarrow> b | None \<Rightarrow> \<lparr>failures = 0, tripped_at = None, touched_at = None\<rparr>);
          n = failures b + 1
      in e\<lparr>breakers := bm_insert key
             \<lparr>failures = n, tripped_at = (if TRIP_AFTER \<le> n then Some now else tripped_at b), touched_at = Some now\<rparr> m\<rparr>)"

subsection \<open>The step relation\<close>

datatype egress_event =
    Asked nat string bool          \<comment> \<open>\<open>is_open\<close> at a time for a key, and the answer\<close>
  | Succeeded string
  | Failed nat string
  | RegRecorded nat string bool

inductive egress_step :: "egress \<Rightarrow> egress_event \<Rightarrow> egress \<Rightarrow> bool" where
  asked: "is_open now key e = (r, e') \<Longrightarrow> egress_step e (Asked now key r) e'"
| succeeded: "egress_step e (Succeeded key) (record_success key e)"
| failed: "egress_step e (Failed now key) (record_failure now key e)"
| reg_recorded: "egress_step e (RegRecorded now key ok) (reg_record now key ok e)"

inductive_cases egress_stepE: "egress_step e x e'"

inductive reaches :: "egress_event list \<Rightarrow> egress \<Rightarrow> bool" where
  start: "reaches [] new_egress"
| step: "reaches tr e \<Longrightarrow> egress_step e x e' \<Longrightarrow> reaches (tr @ [x]) e'"

subsection \<open>Bounds\<close>

lemma evict_length:
  "length (evict_oldest stamp key m) < MAX_TRACKED_DESTINATIONS"
proof (induction stamp key m rule: evict_oldest.induct)
  case (1 stamp key m)
  show ?case
  proof (cases "victim stamp key m")
    case None
    then have "filter (\<lambda>e. starts_with (tenant_prefix key) (fst e)) m = []" "filter (\<lambda>e. \<not> starts_with (tenant_prefix key) (fst e)) m = []"
      by (auto simp: victim_def Let_def oldest_by_None split: option.splits)
    then have "m = []" by (cases m) (auto split: if_splits)
    then show ?thesis by (simp add: evict_oldest.simps MAX_TRACKED_DESTINATIONS_def)
  next
    case (Some k)
    with 1 show ?thesis by (simp add: evict_oldest.simps [of stamp key m])
  qed
qed

lemma evict_ok: "bm_ok m \<Longrightarrow> bm_ok (evict_oldest stamp key m)"
proof (induction stamp key m rule: evict_oldest.induct)
  case (1 stamp key m)
  then show ?case by (subst evict_oldest.simps) (simp split: option.split add: bm_remove_ok)
qed

lemma length_insert: "length (bm_insert k v m) \<le> Suc (length m)"
  by (induction k v m rule: bm_insert.induct) auto

lemma length_insert_held: "bm_ok m \<Longrightarrow> bm_contains m k \<Longrightarrow> length (bm_insert k v m) = length m"
  by (induction k v m rule: bm_insert.induct)
     (auto simp: bm_contains_def bm_ok_Cons bm_get_def split: if_splits dest: less_trans dest!: map_of_SomeD)

definition egress_ok :: "egress \<Rightarrow> bool" where
  "egress_ok e \<longleftrightarrow> bm_ok (breakers e) \<and> bm_ok (reg_failures e) \<and>
     length (breakers e) \<le> MAX_TRACKED_DESTINATIONS \<and> length (reg_failures e) \<le> MAX_TRACKED_DESTINATIONS"

lemma tracked_insert:
  assumes "bm_ok m" "length m \<le> MAX_TRACKED_DESTINATIONS"
  shows "bm_ok (bm_insert k v (make_room stamp k m))
     \<and> length (bm_insert k v (make_room stamp k m)) \<le> MAX_TRACKED_DESTINATIONS"
proof (cases "bm_contains m k")
  case True
  with assms show ?thesis by (simp add: make_room_def bm_insert_ok length_insert_held)
next
  case False
  have "length (bm_insert k v (evict_oldest stamp k m)) \<le> Suc (length (evict_oldest stamp k m))" by (rule length_insert)
  with evict_length [of stamp k m] False show ?thesis by (simp add: make_room_def bm_insert_ok evict_ok assms(1))
qed

lemma egress_step_ok: "egress_step e x e' \<Longrightarrow> egress_ok e \<Longrightarrow> egress_ok e'"
proof (induction rule: egress_step.induct)
  case (asked now key e r e')
  then show ?case
    by (auto simp: is_open_def egress_ok_def bm_insert_ok length_insert_held bm_contains_def split: option.splits if_splits)
next
  case (succeeded e key)
  then show ?case
    by (auto simp: record_success_def egress_ok_def bm_remove_ok) (auto simp: bm_remove_def intro: order_trans [OF length_filter_le])
next
  case (failed e now key)
  then show ?case by (simp add: record_failure_def egress_ok_def Let_def tracked_insert)
next
  case (reg_recorded e now key ok)
  then show ?case
    by (auto simp: reg_record_def egress_ok_def tracked_insert bm_remove_ok)
       (auto simp: bm_remove_def intro: order_trans [OF length_filter_le])
qed

lemma reaches_ok: "reaches tr e \<Longrightarrow> egress_ok e"
proof (induction rule: reaches.induct)
  case start
  show ?case by (simp add: egress_ok_def new_egress_def)
next
  case (step tr e x e')
  then show ?case by (blast intro: egress_step_ok)
qed

subsection \<open>What an open breaker means\<close>

text \<open>The failures of a key since its last success, along a run.\<close>

definition fails_since :: "egress_event list \<Rightarrow> string \<Rightarrow> nat" where
  "fails_since tr key = length (filter (\<lambda>x. \<exists>t. x = Failed t key) (takeWhile (\<lambda>x. x \<noteq> Succeeded key) (rev tr)))"

text \<open>The times at which a key failed or was let through as a probe.\<close>

definition stamped :: "egress_event list \<Rightarrow> string \<Rightarrow> nat \<Rightarrow> bool" where
  "stamped tr key t \<longleftrightarrow> Failed t key \<in> set tr \<or> Asked t key False \<in> set tr"

definition breaker_true :: "egress_event list \<Rightarrow> string \<Rightarrow> breaker \<Rightarrow> bool" where
  "breaker_true tr key b \<longleftrightarrow> unat (failures b) \<le> fails_since tr key \<and>
     (case tripped_at b of None \<Rightarrow> True | Some t \<Rightarrow> unat TRIP_AFTER \<le> fails_since tr key \<and> stamped tr key t)"

lemma unat_succ_le: "unat (w + 1 :: 32 word) \<le> Suc (unat w)"
  by (simp add: unat_word_ariths)

lemma fails_since_snoc:
  "fails_since (tr @ [x]) key = (if x = Succeeded key then 0 else (if \<exists>t. x = Failed t key then 1 else 0) + fails_since tr key)"
  by (cases "x = Succeeded key") (auto simp: fails_since_def)

lemma breaker_true_snoc: "x \<noteq> Succeeded key \<Longrightarrow> breaker_true tr key b \<Longrightarrow> breaker_true (tr @ [x]) key b"
  by (auto simp: breaker_true_def fails_since_snoc stamped_def split: option.splits)

lemma evict_get: "bm_get (evict_oldest stamp key m) k = Some v \<Longrightarrow> bm_get m k = Some v"
proof (induction stamp key m rule: evict_oldest.induct)
  case (1 stamp key m)
  then show ?case
    by (simp add: evict_oldest.simps [of stamp key m] split: if_splits option.splits)
qed

lemma make_room_get: "bm_get (make_room stamp key m) k = Some v \<Longrightarrow> bm_get m k = Some v"
  by (auto simp: make_room_def dest: evict_get split: if_splits)

lemma is_open_cases:
  assumes "is_open now k e = (r, e')"
  obtains (idle) "e' = e"
  | (probe) b t where "bm_get (breakers e) k = Some b" "tripped_at b = Some t" "r = False"
      "e' = e\<lparr>breakers := bm_insert k (b\<lparr>tripped_at := Some now\<rparr>) (breakers e)\<rparr>"
proof (cases "bm_get (breakers e) k")
  case None
  with assms idle show thesis by (simp add: is_open_def)
next
  case (Some b)
  show thesis
  proof (cases "tripped_at b")
    case None
    with Some assms idle show thesis by (simp add: is_open_def)
  next
    case (Some t)
    with \<open>bm_get (breakers e) k = Some b\<close> assms idle probe [of b t] show thesis
      by (simp add: is_open_def split: if_splits)
  qed
qed

lemma reaches_breakers: "reaches tr e \<Longrightarrow> bm_get (breakers e) key = Some b \<Longrightarrow> breaker_true tr key b"
proof (induction arbitrary: b rule: reaches.induct)
  case start
  then show ?case by (simp add: new_egress_def)
next
  case (step tr e x e')
  from step.hyps(2) show ?case
  proof cases
    case (asked now k r)
    from asked(2) show ?thesis
    proof (cases rule: is_open_cases)
      case idle
      with step.IH step.prems show ?thesis by (simp add: asked(1) breaker_true_snoc)
    next
      case (probe b0 t)
      show ?thesis
      proof (cases "k = key")
        case False
        with step.prems probe(4) step.IH show ?thesis by (simp add: asked(1) breaker_true_snoc)
      next
        case True
        have "breaker_true tr key b0" using step.IH probe(1) True by blast
        then have "breaker_true (tr @ [Asked now key False]) key (b0\<lparr>tripped_at := Some now\<rparr>)"
          using probe(2) by (simp add: breaker_true_def fails_since_snoc stamped_def)
        moreover have "b = b0\<lparr>tripped_at := Some now\<rparr>" using step.prems probe(4) True by simp
        ultimately show ?thesis using asked(1) probe(3) True by simp
      qed
    qed
  next
    case (succeeded k)
    with step.prems have "k \<noteq> key" "bm_get (breakers e) key = Some b" by (auto simp: record_success_def split: if_splits)
    with step.IH show ?thesis by (auto simp: succeeded intro: breaker_true_snoc)
  next
    case (failed now k)
    show ?thesis
    proof (cases "k = key")
      case False
      with step.prems failed have "bm_get (breakers e) key = Some b"
        by (auto simp: record_failure_def Let_def dest: make_room_get)
      with step.IH show ?thesis by (auto simp: failed intro: breaker_true_snoc)
    next
      case True
      define b0 where "b0 = (case bm_get (make_room touched_at key (breakers e)) key of
          Some b \<Rightarrow> b | None \<Rightarrow> \<lparr>failures = 0, tripped_at = None, touched_at = None\<rparr>)"
      have "unat (failures b0) \<le> fails_since tr key" "tripped_at b0 = None \<or> (\<exists>t. tripped_at b0 = Some t \<and> unat TRIP_AFTER \<le> fails_since tr key)"
        "\<And>t. tripped_at b0 = Some t \<Longrightarrow> stamped tr key t"
        using step.IH make_room_get [of touched_at key "breakers e" key]
        by (auto simp: b0_def breaker_true_def split: option.splits)
      moreover have "b = \<lparr>failures = failures b0 + 1,
          tripped_at = (if TRIP_AFTER \<le> failures b0 + 1 then Some now else tripped_at b0), touched_at = Some now\<rparr>"
      proof -
        have "record_failure now key e = e\<lparr>breakers := bm_insert key \<lparr>failures = failures b0 + 1,
            tripped_at = (if TRIP_AFTER \<le> failures b0 + 1 then Some now else tripped_at b0), touched_at = Some now\<rparr>
            (make_room touched_at key (breakers e))\<rparr>"
          by (simp only: record_failure_def Let_def b0_def)
        then show ?thesis using step.prems True by (simp add: failed(2) split del: if_split)
      qed
      moreover have "unat (failures b0 + 1) \<le> Suc (unat (failures b0))" by (rule unat_succ_le)
      ultimately show ?thesis
        unfolding failed(1) True by (auto simp: breaker_true_def fails_since_snoc stamped_def word_le_nat_alt)
    qed
  next
    case (reg_recorded now k ok)
    with step.prems have "bm_get (breakers e) key = Some b" by (auto simp: reg_record_def split: if_splits)
    with step.IH show ?thesis by (auto simp: reg_recorded intro: breaker_true_snoc)
  qed
qed

lemma open_means_failing:
  assumes "reaches tr e" "is_open now key e = (True, e')"
  shows "unat TRIP_AFTER \<le> fails_since tr key \<and> (\<exists>t. stamped tr key t \<and> now - t < COOLDOWN)"
proof -
  obtain b t where b: "bm_get (breakers e) key = Some b" "tripped_at b = Some t" "now - t < COOLDOWN"
    using assms(2) by (auto simp: is_open_def not_le split: option.splits if_splits)
  have "breaker_true tr key b" by (rule reaches_breakers [OF assms(1) b(1)])
  with b(2,3) show ?thesis by (auto simp: breaker_true_def)
qed

text \<open>Half open: one ask after the cooldown passes, and the next within it do not.\<close>

lemma one_probe:
  assumes "bm_get (breakers e) key = Some b" "tripped_at b = Some t" "COOLDOWN \<le> now - t" "now' - now < COOLDOWN"
  shows "fst (is_open now key e) = False \<and> fst (is_open now' key (snd (is_open now key e))) = True"
  using assms by (simp add: is_open_def)

lemma success_closes: "fst (is_open now key (record_success key e)) = False"
  by (simp add: is_open_def record_success_def)

subsection \<open>Tenants do not crowd each other out\<close>

lemma evict_own:
  assumes "length m \<le> MAX_TRACKED_DESTINATIONS" "\<exists>k\<in>fst ` set m. starts_with (tenant_prefix key) k"
    "\<not> starts_with (tenant_prefix key) k'"
  shows "bm_get (evict_oldest stamp key m) k' = bm_get m k'"
proof (cases "length m < MAX_TRACKED_DESTINATIONS")
  case True
  then show ?thesis by (simp add: evict_oldest.simps)
next
  case False
  let ?own = "filter (\<lambda>e. starts_with (tenant_prefix key) (fst e)) m"
  have "?own \<noteq> []" using assms(2) by (auto simp: filter_empty_conv)
  then obtain k where k: "oldest_by stamp ?own = Some k" by (metis oldest_by_None not_Some_eq)
  then have v: "victim stamp key m = Some k" by (simp add: victim_def Let_def)
  have own: "starts_with (tenant_prefix key) k" using oldest_by_mem [OF k] by auto
  have "length (bm_remove k m) < length m" by (rule length_remove_mem [OF victim_mem [OF v]])
  with assms(1) have "evict_oldest stamp key (bm_remove k m) = bm_remove k m"
    by (subst evict_oldest.simps) simp
  with False v have "evict_oldest stamp key m = bm_remove k m" by (simp add: evict_oldest.simps [of stamp key m])
  then show ?thesis using own assms(3) by auto
qed

lemma prefix_of_key: "unit_sep \<notin> set t \<Longrightarrow> tenant_prefix (t @ unit_sep # r) = t @ [unit_sep]"
  by (induction t) (auto simp: tenant_prefix_def)

lemma starts_with_key: "starts_with (t @ [unit_sep]) (t @ unit_sep # r)"
  using starts_with_append [of "t @ [unit_sep]" r] by simp

lemma failure_stays_in_tenant:
  assumes "egress_ok e" "unit_sep \<notin> set t" "bm_get (breakers e) (t @ unit_sep # r0) \<noteq> None"
    "\<not> starts_with (t @ [unit_sep]) k"
  shows "bm_get (breakers (record_failure now (t @ unit_sep # r) e)) k = bm_get (breakers e) k"
proof -
  let ?key = "t @ unit_sep # r"
  have pre: "tenant_prefix ?key = t @ [unit_sep]" by (rule prefix_of_key [OF assms(2)])
  have ne: "k \<noteq> ?key" using assms(4) starts_with_key [of t r] by metis
  have "t @ unit_sep # r0 \<in> fst ` set (breakers e)" using assms(3) by (simp add: bm_get_None_iff)
  then have "\<exists>k\<in>fst ` set (breakers e). starts_with (tenant_prefix ?key) k"
    unfolding pre using starts_with_key by blast
  then have "bm_get (make_room touched_at ?key (breakers e)) k = bm_get (breakers e) k"
    using evict_own [of "breakers e" ?key k touched_at] assms(1,4) by (simp add: make_room_def egress_ok_def pre)
  with ne show ?thesis by (simp add: record_failure_def Let_def)
qed

end
