(* ===== verification/SamplesApi.thy ===== *)
theory SamplesApi
  imports Samples ExpandSpec Registry Egress "HOL-Library.Countable"
begin

text \<open>
  More concrete stand-ins, for the witnesses about documents and subscriptions: a one-to-one text of every
  JSON value (a unary numeral of its number in an enumeration), points for geometries, literal patterns.
\<close>

instance f64 :: countable by countable_datatype
instance jnum :: countable by countable_datatype
instance json :: countable by countable_datatype

definition sample_json :: "json \<Rightarrow> string" where
  "sample_json v = replicate (to_nat v) CHR ''x''"

lemma sample_json_inj: "inj sample_json"
  unfolding sample_json_def by (rule injI) (metis length_replicate to_nat_split inj_to_nat injD)

definition sample_point :: json where
  "sample_point = JArr [jint 17, jint 48]"

definition sample_lib :: lib where
  "sample_lib = \<lparr>base = sample_ext, from_json = (\<lambda>s. if s = ''[17,48]'' then Some sample_point else None),
     to_json = sample_json, uni_alphabetic = (\<lambda>_. False), uni_numeric = (\<lambda>_. False)\<rparr>"

text \<open>Points of the plane, related by equality.\<close>

definition sample_geo :: "json geo_lib" where
  "sample_geo = \<lparr>to_geom = (\<lambda>t c. if t = ''Point'' then Some c else None), rel_within = (=), rel_contains = (=),
     rel_intersects = (=), rel_overlaps = (\<lambda>_ _. False), rel_equal_topo = (=), has_box = (\<lambda>_. True),
     plane_distance = (\<lambda>a b. if a = b then Fin 0 else PInf)\<rparr>"

definition sample_builder :: "(string \<Rightarrow> bool) builder" where
  "sample_builder p n = (if p = [] then Inl ''empty pattern'' else Inr (\<lambda>t. t = p))"

definition plain_opts :: expand_opts where
  "plain_opts = \<lparr>opt_fragment = False, opt_allow_null = False, opt_merge = False, opt_temporal = False, opt_sys = False\<rparr>"

definition sample_entity :: jobj where
  "sample_entity = [(''id'', JStr ''urn:car''), (''speed'', jint 5), (''type'', JStr ''Car'')]"

definition sample_expanded :: json where
  "sample_expanded = JObj [(''https://uri.etsi.org/ngsi-ld/default-context/speed'', JArr [inst_obj ''Property'' (jint 5)]),
     (''id'', JStr ''urn:car''), (''type'', JArr [JStr ''https://uri.etsi.org/ngsi-ld/default-context/Car''])]"

lemma sample_expansion: "expand_entity sample_lib empty_ctx plain_opts sample_entity = Inr sample_expanded"
  by code_simp

lemma sample_refused: "\<exists>m. expand_entity sample_lib empty_ctx plain_opts (tl sample_entity) = Inl (BadRequestData m)"
proof -
  have "expand_entity sample_lib empty_ctx plain_opts (tl sample_entity) = Inl (BadRequestData ''entity id is required'')" by code_simp
  then show ?thesis by blast
qed

definition sample_geo_params :: "string bmap" where
  "sample_geo_params = [(''coordinates'', ''[17,48]''), (''geometry'', ''Point''), (''georel'', ''within'')]"

definition sample_geoquery :: "json geo_query_t" where
  "sample_geoquery = \<lparr>g_rel = Within, g_geometry = ''Point'', g_coordinates = sample_point, g_geoproperty = [], g_query_geom = sample_point\<rparr>"


text \<open>A destination that failed five times, and a tenant beside it.\<close>

definition sample_key :: string where
  "sample_key = ''city'' @ unit_sep # ''http://h:80''"

definition sample_run_events :: "egress_event list" where
  "sample_run_events = replicate 5 (Failed 100 sample_key)"

definition sample_egress :: egress where
  "sample_egress = fold (\<lambda>_. record_failure 100 sample_key) [0..<5] new_egress"

lemma reaches_failed: "reaches tr e \<Longrightarrow> reaches (tr @ [Failed now k]) (record_failure now k e)"
  by (rule reaches.step [OF _ egress_step.failed])

lemma sample_reaches: "reaches sample_run_events sample_egress"
proof -
  let ?f = "record_failure 100 sample_key" and ?x = "Failed 100 sample_key"
  have r: "reaches ((((([] @ [?x]) @ [?x]) @ [?x]) @ [?x]) @ [?x]) (?f (?f (?f (?f (?f new_egress)))))"
    by (intro reaches_failed reaches.start)
  have e: "[0..<5] = [0, 1, 2, 3, 4 :: nat]" by (simp add: upt_rec)
  show ?thesis using r by (simp add: sample_run_events_def sample_egress_def e numeral_eq_Suc)
qed

lemma sample_open: "is_open 200 sample_key sample_egress = (True, sample_egress)"
  by code_simp

lemma sample_entry: "bm_get (breakers sample_egress) sample_key = Some \<lparr>failures = 5, tripped_at = Some 100, touched_at = Some 100\<rparr>"
  by code_simp

subsection \<open>Linked entities\<close>

definition link_doc :: "string \<Rightarrow> (string \<times> string) list \<Rightarrow> json" where
  "link_doc i ts = mkobj ((''id'', JStr i) # map (\<lambda>(k, t). (k, JArr [mkobj [(''type'', JStr ''Relationship''), (''object'', JStr t)]])) ts)"

definition linked :: "(string \<times> string) list" where
  "linked = [(''x:1'', ''urn:a''), (''x:2'', ''urn:b'')]"

definition sample_store :: "string \<Rightarrow> json option" where
  "sample_store i = (if i = ''urn:a'' then Some (link_doc i [(''x:1'', ''urn:b'')])
     else if i = ''urn:b'' then Some (link_doc i [(''x:1'', ''urn:c'')])
     else if i = ''urn:c'' then Some (link_doc i []) else None)"

definition linking :: json where
  "linking = link_doc ''urn:r'' linked"

text \<open>Two hops lead from \<open>urn:r\<close> over \<open>urn:b\<close> to \<open>urn:c\<close>.  The walk meets \<open>urn:b\<close> first below \<open>urn:a\<close>, at its last
  level, marks it as seen, and does not follow its links when it meets it again on the first level; the walk
  reports itself complete.\<close>

lemma depth_first_join_misses:
  "map fst (fst (collect_flat sample_store default_repr linking 2 [])) = [''urn:a'', ''urn:b'']"
  "snd (collect_flat sample_store default_repr linking 2 [])"
  "snd ` set (flat_links default_repr linking) = {''urn:a'', ''urn:b''}"
  "map_option (\<lambda>d. snd ` set (flat_links default_repr d)) (sample_store ''urn:b'') = Some {''urn:c''}"
  by code_simp+

subsection \<open>Subscriptions and registrations\<close>

definition sample_env :: "json env" where
  "sample_env = \<lparr>e_lib = sample_lib, e_geo = sample_geo, e_builder = sample_builder,
     e_clock = \<lparr>now_iso = ''2026-01-01T00:00:00Z'', now_ns = 0\<rparr>, e_core = empty_ctx, e_resolve = (\<lambda>_ _. None),
     e_get = (\<lambda>_. sample_store)\<rparr>"

definition sample_sub :: json where
  "sample_sub = mkobj [(''entities'', JArr [mkobj [(''type'', JStr ''https://uri.etsi.org/ngsi-ld/default-context/Car'')]]),
     (''id'', JStr ''urn:sub''), (''notification'', mkobj []), (''type'', JStr ''Subscription'')]"

definition sample_deltas :: "delta list" where
  "sample_deltas = [(''city'', ''urn:sub'', Some sample_sub), (''city'', ''urn:gone'', Some sample_sub), (''city'', ''urn:gone'', None)]"

lemma sample_env_inj: "inj (to_json (e_lib sample_env))"
  using sample_json_inj by (simp add: sample_env_def sample_lib_def)

definition sample_reg :: json where
  "sample_reg = mkobj [(''id'', JStr ''urn:reg''), (''information'', JArr [mkobj [(''entities'',
     JArr [mkobj [(''type'', JStr ''https://uri.etsi.org/ngsi-ld/default-context/Car'')]])]])]"

definition sample_registered :: "delta list" where
  "sample_registered = [(''city'', ''urn:reg'', Some sample_reg)]"

definition sample_spec :: "json csr_spec" where
  "sample_spec = default_spec\<lparr>cs_types := Some [''Car'']\<rparr>"

lemma sample_spec_plain:
  "\<forall>d\<in>set (registrations (registered sample_registered) ''city''). \<forall>t\<in>set (case cs_types sample_spec of None \<Rightarrow> [] | Some ts \<Rightarrow> ts).
     plain_type empty_ctx d t"
  by code_simp

lemma sample_tenant: "tenant_new_internal ''city'' = Inr ''city''"
  by code_simp

end
