(* ===== verification/Fed.thy ===== *)
theory Fed
  imports Registry Expand
begin

text \<open>
  Federation (\<open>antares-api/src/federation.rs\<close>), without the exchange itself: registrations compiled for forwarding, the
  chain of brokers a request came through, folding registrations of one source, importing what a peer answered,
  and merging documents.  Request headers are pairs of a lower-case name and its value, \<open>None\<close> where \<open>to_str\<close>
  refuses it.
\<close>

type_synonym http_headers = "(string \<times> string option) list"

record fed_reg =
  fr_id :: string
  fr_endpoint :: string
  fr_mode :: string
  fr_ops :: "string list"
  fr_attrs :: "string list option"
  fr_ids :: "string list"
  fr_types :: "string list"
  fr_patterns :: "string list"
  fr_unrestricted :: bool
  fr_tenant :: "string option"
  fr_alias :: "string option"
  fr_csi :: "(string \<times> string) list"
  fr_local_only :: bool
  fr_timeout :: "nat option"
  fr_cooldown :: "nat option"

definition supports :: "fed_reg \<Rightarrow> string \<Rightarrow> bool" where
  "supports r oper = list_ex (\<lambda>g. g = oper \<or> (case group_members g of None \<Rightarrow> False | Some ms \<Rightarrow> oper \<in> set ms)) (fr_ops r)"

definition is_proxy :: "fed_reg \<Rightarrow> bool" where
  "is_proxy r \<longleftrightarrow> fr_mode r = ''exclusive'' \<or> fr_mode r = ''redirect''"

definition can_match_id :: "(string \<Rightarrow> bool) builder \<Rightarrow> fed_reg \<Rightarrow> string \<Rightarrow> bool" where
  "can_match_id B r i \<longleftrightarrow> fr_unrestricted r \<or> i \<in> set (fr_ids r) \<or> list_ex (pattern_ok B i) (fr_patterns r)"

definition covers_attr :: "fed_reg \<Rightarrow> string \<Rightarrow> bool" where
  "covers_attr r a \<longleftrightarrow> (case fr_attrs r of None \<Rightarrow> True | Some as \<Rightarrow> a \<in> set as)"

definition read_op :: "fed_reg \<Rightarrow> string option" where
  "read_op r = List.find (supports r) [''retrieveEntity'', ''queryEntity'', ''queryBatch'']"

definition query_op :: "fed_reg \<Rightarrow> string option" where
  "query_op r = List.find (supports r) [''queryEntity'', ''queryBatch'']"

definition item_types :: "jctx \<Rightarrow> jobj \<Rightarrow> string list" where
  "item_types c m = (case bm_get m ''type'' of
     Some (JStr t) \<Rightarrow> [expand_key c t]
   | Some (JArr ts) \<Rightarrow> map (expand_key c) (List.map_filter as_str ts)
   | _ \<Rightarrow> [])"

definition covers_item :: "(string \<Rightarrow> bool) builder \<Rightarrow> jctx \<Rightarrow> fed_reg \<Rightarrow> jobj \<Rightarrow> bool" where
  "covers_item B c r m =
     (if (fr_ids r \<noteq> [] \<or> fr_patterns r \<noteq> []) \<and>
         (case jget_str m ''id'' of None \<Rightarrow> False | Some i \<Rightarrow> \<not> can_match_id B r i) then False
      else fr_types r = [] \<or> item_types c m = [] \<or> list_ex (\<lambda>t. t \<in> set (fr_types r)) (item_types c m))"

subsection \<open>The chain of brokers\<close>

definition fed_active :: "string bmap \<Rightarrow> bool" where
  "fed_active ps \<longleftrightarrow> bm_get ps ''type'' \<noteq> Some ''*'' \<and> bm_get ps ''local'' \<noteq> Some ''true''"

definition via_fields :: "http_headers \<Rightarrow> string list" where
  "via_fields hs = List.map_filter (\<lambda>(k, v). if k = ''via'' then v else None) hs"

definition inbound_via :: "http_headers \<Rightarrow> string option" where
  "inbound_via hs = (case via_fields hs of [] \<Rightarrow> None | fs \<Rightarrow> Some (join '', '' fs))"

definition alias_for :: "string \<Rightarrow> string \<Rightarrow> string" where
  "alias_for host tenant = (if tenant = ''default'' then host else host @ ''~'' @ tenant)"

text \<open>\<open>split_whitespace\<close> on a field value, which is visible ASCII.\<close>

definition ascii_words :: "string \<Rightarrow> string list" where
  "ascii_words s = filter (\<lambda>w. w \<noteq> []) (split_on (\<lambda>c. c = CHR '' '' \<or> c = CHR 0x09) s)"

definition received_by :: "string \<Rightarrow> string option" where
  "received_by t = (case ascii_words t of [] \<Rightarrow> None | [w] \<Rightarrow> Some w | _ # w # _ \<Rightarrow> Some w)"

definition via_tokens :: "http_headers \<Rightarrow> string list" where
  "via_tokens hs = (case inbound_via hs of
     None \<Rightarrow> [] | Some v \<Rightarrow> List.map_filter received_by (split_on (\<lambda>c. c = CHR '','') v))"

definition MAX_VIA_HOPS :: nat where "MAX_VIA_HOPS = 32"

definition via_hops :: "http_headers \<Rightarrow> nat" where
  "via_hops hs = sum_list (map (\<lambda>f. length (split_on (\<lambda>c. c = CHR '','') f)) (via_fields hs))"

definition via_loop :: "http_headers \<Rightarrow> string \<Rightarrow> bool" where
  "via_loop hs al \<longleftrightarrow> MAX_VIA_HOPS < via_hops hs \<or> al \<in> set (via_tokens hs)"

text \<open>\<open>True\<close>: answer 508; with it the registrations that remain.\<close>

definition handle_via_loop :: "http_headers \<Rightarrow> string \<Rightarrow> fed_reg list \<Rightarrow> bool \<times> fed_reg list" where
  "handle_via_loop hs al regs =
     (if MAX_VIA_HOPS < via_hops hs then (True, [])
      else if regs = [] \<or> \<not> via_loop hs al then (False, regs)
      else if length regs = 1 \<and> is_proxy (hd regs) then (True, regs)
      else (False, []))"

definition outbound_via :: "http_headers \<Rightarrow> string \<Rightarrow> string" where
  "outbound_via hs al = (case inbound_via hs of Some v \<Rightarrow> v @ '', 1.1 '' @ al | None \<Rightarrow> ''1.1 '' @ al)"

subsection \<open>Registrations compiled for forwarding\<close>

definition json_flag :: "json \<Rightarrow> string \<Rightarrow> bool option" where
  "json_flag v k = Option.bind (jget v k) as_bool"

definition local_only_of :: "json \<Rightarrow> bool" where
  "local_only_of d = (case json_flag d ''localOnly'' of
     Some b \<Rightarrow> b
   | None \<Rightarrow> (case Option.bind (jget d ''management'') (\<lambda>m. json_flag m ''localOnly'') of Some b \<Rightarrow> b | None \<Rightarrow> False))"

definition csi_of :: "json \<Rightarrow> (string \<times> string) list" where
  "csi_of d = (case Option.bind (jget d ''contextSourceInfo'') as_array of
     None \<Rightarrow> []
   | Some a \<Rightarrow> List.map_filter (\<lambda>kv. case (sub_str kv ''key'', sub_str kv ''value'') of (Some k, Some v) \<Rightarrow> Some (k, v) | _ \<Rightarrow> None) a)"

definition api_root :: "string \<Rightarrow> string" where
  "api_root e = (let e = trim_end_matches CHR ''/'' e in
     case strip_suffix ''/ngsi-ld/v1'' e of Some r \<Rightarrow> r | None \<Rightarrow> e)"

definition management :: "json \<Rightarrow> string \<Rightarrow> nat option" where
  "management d k = Option.bind (Option.bind (jget d ''management'') (\<lambda>m. jget m k)) as_u64"

definition reg_ops :: "json \<Rightarrow> string list" where
  "reg_ops d = (case Option.bind (jget d ''operations'') as_array of
     Some a \<Rightarrow> List.map_filter as_str a | None \<Rightarrow> [DEFAULT_OPERATION_GROUP])"

definition fed_reg_of :: "string \<Rightarrow> json \<Rightarrow> fed_reg" where
  "fed_reg_of rid d =
     \<lparr>fr_id = rid, fr_endpoint = (case sub_str d ''endpoint'' of Some e \<Rightarrow> api_root e | None \<Rightarrow> []),
      fr_mode = (case sub_str d ''mode'' of Some m \<Rightarrow> m | None \<Rightarrow> ''inclusive''), fr_ops = reg_ops d, fr_attrs = None,
      fr_ids = [], fr_types = [], fr_patterns = [], fr_unrestricted = True, fr_tenant = sub_str d ''tenant'',
      fr_alias = sub_str d ''contextSourceAlias'', fr_csi = csi_of d, fr_local_only = local_only_of d,
      fr_timeout = management d ''timeout'', fr_cooldown = management d ''cooldown''\<rparr>"

definition doc_supports :: "json \<Rightarrow> string \<Rightarrow> bool" where
  "doc_supports d oper = supports (fed_reg_of (case sub_str d ''id'' of Some i \<Rightarrow> i | None \<Rightarrow> []) d) oper"

definition name_list :: "json \<Rightarrow> string \<Rightarrow> json list option" where
  "name_list info k = Option.bind (jget info k) as_array"

definition add_attrs :: "json \<Rightarrow> string list option \<Rightarrow> string list option" where
  "add_attrs info as = (case (name_list info ''propertyNames'', name_list info ''relationshipNames'') of
     (None, None) \<Rightarrow> None
   | (ps, rs) \<Rightarrow> map_option (\<lambda>as. as @ List.map_filter as_str (array_or_empty (map_option JArr ps))
                                     @ List.map_filter as_str (array_or_empty (map_option JArr rs))) as)"

definition info_entities :: "json \<Rightarrow> json list" where
  "info_entities info = (case name_list info ''entities'' of None \<Rightarrow> [] | Some es \<Rightarrow> es)"

definition info_unrestricted :: "json \<Rightarrow> bool" where
  "info_unrestricted info = (case name_list info ''entities'' of
     None \<Rightarrow> True | Some es \<Rightarrow> list_ex (\<lambda>e. jget e ''id'' = None \<and> jget e ''idPattern'' = None) es)"

definition compiled :: "json \<Rightarrow> json list \<Rightarrow> fed_reg" where
  "compiled d infos = (let es = concat (map info_entities infos) in
     (fed_reg_of (case sub_str d ''id'' of Some i \<Rightarrow> i | None \<Rightarrow> []) d)
       \<lparr>fr_attrs := fold add_attrs infos (Some []),
        fr_ids := List.map_filter (\<lambda>e. sub_str e ''id'') es,
        fr_types := concat (map ei_types es),
        fr_patterns := List.map_filter (\<lambda>e. sub_str e ''idPattern'') es,
        fr_unrestricted := list_ex info_unrestricted infos\<rparr>)"

subsection \<open>One request per source\<close>

definition op_set :: "fed_reg \<Rightarrow> string set" where
  "op_set r = set (filter (supports r) OPERATION_NAMES)"

definition same_source :: "fed_reg \<Rightarrow> fed_reg \<Rightarrow> bool" where
  "same_source p r \<longleftrightarrow> fr_endpoint p = fr_endpoint r \<and> fr_mode p = fr_mode r \<and> fr_tenant p = fr_tenant r \<and>
     fr_alias p = fr_alias r \<and> fr_csi p = fr_csi r \<and> fr_local_only p = fr_local_only r \<and> op_set p = op_set r"

definition union_attrs :: "string list option \<Rightarrow> string list option \<Rightarrow> string list option" where
  "union_attrs a b = (case (a, b) of
     (Some xs, Some ys) \<Rightarrow> Some (fold (\<lambda>y xs. if y \<in> set xs then xs else xs @ [y]) ys xs) | _ \<Rightarrow> None)"

definition absorb :: "fed_reg \<Rightarrow> fed_reg \<Rightarrow> fed_reg" where
  "absorb p r = p\<lparr>fr_attrs := union_attrs (fr_attrs p) (fr_attrs r), fr_ids := fr_ids p @ fr_ids r,
     fr_types := fr_types p @ fr_types r, fr_patterns := fr_patterns p @ fr_patterns r,
     fr_unrestricted := fr_unrestricted p \<or> fr_unrestricted r\<rparr>"

fun fold_in :: "fed_reg \<Rightarrow> fed_reg list \<Rightarrow> fed_reg list" where
  "fold_in r [] = [r]"
| "fold_in r (p # ps) = (if same_source p r then absorb p r # ps else p # fold_in r ps)"

definition merge_same_source :: "fed_reg list \<Rightarrow> fed_reg list" where
  "merge_same_source regs = fold fold_in regs []"

definition matching_regs :: "'g env \<Rightarrow> doc_mirror \<Rightarrow> string \<Rightarrow> 'g csr_spec \<Rightarrow> jctx \<Rightarrow> http_headers \<Rightarrow> fed_reg list" where
  "matching_regs V m tn spec c hs =
     (if MAX_VIA_HOPS < via_hops hs then []
      else merge_same_source (List.map_filter
        (\<lambda>d. case reg_candidate V c spec (via_tokens hs) d of
               None \<Rightarrow> None
             | Some infos \<Rightarrow> if sub_str d ''endpoint'' = None then None else Some (compiled d infos))
        (reg_docs m tn c spec)))"

definition map_gate :: "json option \<Rightarrow> string \<Rightarrow> fed_reg \<Rightarrow> fed_reg option" where
  "map_gate emap i r = (case emap of
     None \<Rightarrow> Some r
   | Some m \<Rightarrow>
      (if \<not> (case Option.bind (Option.bind (jget m ''entityMap'') (\<lambda>e. jget e i)) as_array of
             None \<Rightarrow> False | Some a \<Rightarrow> list_ex (\<lambda>v. as_str v = Some (fr_id r)) a) then None
       else Some (case Option.bind (Option.bind (jget m ''linkedMaps'') (\<lambda>l. jget l (fr_id r))) as_str of
             None \<Rightarrow> r | Some mid \<Rightarrow> r\<lparr>fr_csi := fr_csi r @ [(''NGSILD-EntityMap'', mid)]\<rparr>)))"

subsection \<open>What a peer answered\<close>

definition read_warning :: "nat \<Rightarrow> json \<Rightarrow> (nat \<times> string) option" where
  "read_warning st body =
     (if st = 404 then None
      else if st = 503 \<or> st = 504
      then Some (199, ''no response was received from the registration endpoint within the timeout period'')
      else if 400 \<le> st then Some (299, ''an error response was received from the registration endpoint'')
      else if 200 \<le> st \<and> st < 300 \<and> body = JNull then Some (111, ''the payload of the response was invalid'')
      else None)"

fun decimal :: "nat \<Rightarrow> string" where
  "decimal n = (if n < 10 then [char_of (48 + n)] else decimal (n div 10) @ [char_of (48 + n mod 10)])"

declare decimal.simps [simp del]

definition warning :: "nat \<Rightarrow> string \<Rightarrow> string \<Rightarrow> string" where
  "warning code al txt = decimal code @ '' '' @ al @ '' '' @ [CHR 0x22] @ txt @ [CHR 0x22]"

text \<open>\<open>usable_payload\<close>: whether the body may be used, with the warnings it adds.\<close>

definition usable_payload :: "string \<Rightarrow> nat \<Rightarrow> json \<Rightarrow> string list \<Rightarrow> bool \<times> string list" where
  "usable_payload al st body peer =
     (200 \<le> st \<and> st < 300,
      peer @ (case read_warning st body of None \<Rightarrow> [] | Some (code, txt) \<Rightarrow> [warning code al txt]))"

definition scope_attrs :: "jctx \<Rightarrow> fed_reg \<Rightarrow> (string \<times> string) list" where
  "scope_attrs c r = (case fr_attrs r of None \<Rightarrow> [] | Some as \<Rightarrow> [(''attrs'', join '','' (map (compact_iri c) as))])"

definition narrow_to_scope :: "fed_reg \<Rightarrow> json \<Rightarrow> json option" where
  "narrow_to_scope r doc = (case fr_attrs r of
     None \<Rightarrow> Some doc
   | Some as \<Rightarrow> map_option (\<lambda>m. JObj (filter (\<lambda>e. fst e \<in> set ENTITY_META_KEYS \<or> fst e \<in> set as) m)) (as_object doc))"

definition import_opts :: expand_opts where
  "import_opts = \<lparr>opt_fragment = False, opt_allow_null = False, opt_merge = False, opt_temporal = False, opt_sys = True\<rparr>"

definition import_with :: "expand_opts \<Rightarrow> lib \<Rightarrow> jctx \<Rightarrow> fed_reg \<Rightarrow> json \<Rightarrow> json option" where
  "import_with opts L c r remote = (case as_object remote of
     None \<Rightarrow> None
   | Some m \<Rightarrow> (case expand_entity L c opts (bm_remove ''@context'' m) of
        Err _ \<Rightarrow> None | Ok doc \<Rightarrow> narrow_to_scope r doc))"

definition import_entity :: "lib \<Rightarrow> jctx \<Rightarrow> fed_reg \<Rightarrow> json \<Rightarrow> json option" where
  "import_entity = import_with import_opts"

definition import_temporal :: "lib \<Rightarrow> jctx \<Rightarrow> fed_reg \<Rightarrow> json \<Rightarrow> json option" where
  "import_temporal = import_with (import_opts\<lparr>opt_temporal := True, opt_allow_null := True\<rparr>)"

definition temporal_window :: "string bmap \<Rightarrow> (string \<times> string) list" where
  "temporal_window ps = (''options'', ''sysAttrs'') #
     List.map_filter (\<lambda>k. map_option (Pair k) (bm_get ps k)) [''timerel'', ''timeAt'', ''endTimeAt'', ''timeproperty'', ''lastN'']"

definition admits_import :: "(string \<Rightarrow> bool) builder \<Rightarrow> fed_reg \<Rightarrow> 'g csr_spec \<Rightarrow> string \<Rightarrow> bool" where
  "admits_import B r spec i \<longleftrightarrow> can_match_id B r i \<or>
     (case cs_ids spec of None \<Rightarrow> False | Some ids \<Rightarrow> i \<in> set ids) \<or>
     (case cs_id_pattern spec of None \<Rightarrow> False | Some p \<Rightarrow> pattern_ok B i p)"

definition csv_param :: "string bmap \<Rightarrow> string \<Rightarrow> string list option" where
  "csv_param ps k = map_option (split_on (\<lambda>c. c = CHR '','')) (bm_get ps k)"

definition query_spec :: "lib \<Rightarrow> 'g geo_lib \<Rightarrow> jctx \<Rightarrow> string bmap \<Rightarrow> 'g csr_spec" where
  "query_spec L G c ps = default_spec\<lparr>cs_types := map_option (\<lambda>t. [t]) (bm_get ps ''type''), cs_ids := csv_param ps ''id'',
     cs_id_pattern := bm_get ps ''idPattern'', cs_attrs := map_option (map (\<lambda>a. expand_key c (trim a))) (csv_param ps ''attrs''),
     cs_dataset_ids := map_option (map trim) (csv_param ps ''datasetId''),
     cs_csf := Option.bind (bm_get ps ''csf'') (\<lambda>q. case parse_q (base L) q of Ok n \<Rightarrow> Some n | Err _ \<Rightarrow> None),
     cs_geo := (case from_params L G ps of Ok g \<Rightarrow> g | Err _ \<Rightarrow> None)\<rparr>"

definition would_federate :: "'g env \<Rightarrow> doc_mirror \<Rightarrow> string \<Rightarrow> jctx \<Rightarrow> string bmap \<Rightarrow> http_headers \<Rightarrow> bool" where
  "would_federate V m tn c ps hs =
     (if \<not> fed_active ps \<or> MAX_VIA_HOPS < via_hops hs then False
      else (let spec = query_spec (e_lib V) (e_geo V) c ps in
        list_ex (\<lambda>d. reg_candidate V c spec (via_tokens hs) d \<noteq> None) (reg_docs m tn c spec)))"

subsection \<open>Merging documents\<close>

definition inst_str :: "json \<Rightarrow> string \<Rightarrow> string option" where
  "inst_str i k = Option.bind (jget i k) as_str"

text \<open>\<open>or_else\<close> is on the member, \<open>as_str\<close> after it: a non-string \<open>observedAt\<close> hides \<open>modifiedAt\<close>.\<close>

definition recency :: "json \<Rightarrow> string" where
  "recency i = dt_key (case Option.bind (case jget i ''observedAt'' of Some v \<Rightarrow> Some v | None \<Rightarrow> jget i ''modifiedAt'') as_str of
     None \<Rightarrow> [] | Some s \<Rightarrow> s)"

definition inst_expired :: "string \<Rightarrow> json \<Rightarrow> bool" where
  "inst_expired now i = (case inst_str i ''expiresAt'' of None \<Rightarrow> False | Some e \<Rightarrow> dt_key e < dt_key now)"

definition PUSH_SKIPPED :: "string list" where
  "PUSH_SKIPPED = [''id'', ''type'', ''scope'', ''expiresAt'', ''createdAt'', ''modifiedAt'', ''deletedAt'']"

definition cap_expiry :: "string \<Rightarrow> json \<Rightarrow> json" where
  "cap_expiry e i = (case i of
     JObj m \<Rightarrow> (case jget_str m ''expiresAt'' of
         Some ae \<Rightarrow> if dt_key ae \<le> dt_key e then i else JObj (bm_insert ''expiresAt'' (JStr e) m)
       | None \<Rightarrow> JObj (bm_insert ''expiresAt'' (JStr e) m))
   | _ \<Rightarrow> i)"

definition push_down_expires :: "json \<Rightarrow> json" where
  "push_down_expires doc = (case doc of
     JObj m \<Rightarrow> (case jget_str m ''expiresAt'' of
         None \<Rightarrow> doc
       | Some e \<Rightarrow> JObj (bm_map (\<lambda>k v. if k \<in> set PUSH_SKIPPED then v
            else (case v of JArr xs \<Rightarrow> JArr (map (cap_expiry e) xs) | _ \<Rightarrow> v)) m))
   | _ \<Rightarrow> doc)"

fun merge_instance :: "string \<Rightarrow> json \<Rightarrow> json list \<Rightarrow> json list" where
  "merge_instance now a [] = [a]"
| "merge_instance now a (x # xs) =
     (if inst_str x ''datasetId'' = inst_str a ''datasetId''
      then (if inst_expired now x \<or> recency x < recency a then a else x) # xs
      else x # merge_instance now a xs)"

definition merge_instances :: "string \<Rightarrow> json list \<Rightarrow> json list \<Rightarrow> json list" where
  "merge_instances now as cs = fold (\<lambda>a cs. if inst_expired now a then cs else merge_instance now a cs) as cs"

definition merge_expiry :: "jobj \<Rightarrow> jobj \<Rightarrow> jobj" where
  "merge_expiry b a = (case (jget_str b ''expiresAt'', jget_str a ''expiresAt'') of
     (Some eb, Some ea) \<Rightarrow> if dt_key eb < dt_key ea then bm_insert ''expiresAt'' (JStr ea) b else b
   | _ \<Rightarrow> bm_remove ''expiresAt'' b)"

definition merge_member :: "string \<Rightarrow> bool \<Rightarrow> string \<times> json \<Rightarrow> jobj \<Rightarrow> jobj" where
  "merge_member now aux e b = (case e of (k, v) \<Rightarrow>
     if k = ''expiresAt'' then b
     else (case bm_get b k of
        None \<Rightarrow> bm_insert k v b
      | Some cur \<Rightarrow>
          if \<not> aux \<and> k \<notin> {''id'', ''type'', ''scope''}
          then (case (cur, v) of
              (JArr cs, JArr as) \<Rightarrow> bm_insert k (JArr (merge_instances now as cs)) b
            | _ \<Rightarrow> b)
          else b))"

definition merge_docs :: "string \<Rightarrow> bool \<Rightarrow> json \<Rightarrow> json \<Rightarrow> json" where
  "merge_docs now aux add doc = (case (doc, push_down_expires add) of
     (JObj b, JObj a) \<Rightarrow> JObj (fold (merge_member now aux) a (if aux then b else merge_expiry b a))
   | _ \<Rightarrow> doc)"

subsection \<open>Folding keeps what the registrations cover\<close>

definition source_key :: "fed_reg \<Rightarrow> string \<times> string \<times> string option \<times> string option \<times> (string \<times> string) list \<times> bool \<times> string set" where
  "source_key r = (fr_endpoint r, fr_mode r, fr_tenant r, fr_alias r, fr_csi r, fr_local_only r, op_set r)"

lemma same_source_key: "same_source p r \<longleftrightarrow> source_key p = source_key r"
  by (auto simp: same_source_def source_key_def)

lemma absorb_key [simp]: "source_key (absorb p r) = source_key p"
  by (simp add: source_key_def absorb_def op_set_def supports_def)

lemma set_union_list: "set (fold (\<lambda>y xs. if y \<in> set xs then xs else xs @ [y]) ys xs) = set xs \<union> set ys"
  by (induction ys arbitrary: xs) auto

lemma absorb_covers: "covers_attr (absorb p r) a \<longleftrightarrow> covers_attr p a \<or> covers_attr r a"
  by (auto simp: covers_attr_def absorb_def union_attrs_def set_union_list split: option.split)

lemma absorb_matches: "can_match_id B (absorb p r) i \<longleftrightarrow> can_match_id B p i \<or> can_match_id B r i"
  by (auto simp: can_match_id_def absorb_def)

definition folded :: "fed_reg list \<Rightarrow> fed_reg list \<Rightarrow> bool" where
  "folded regs out \<longleftrightarrow> distinct (map source_key out) \<and> source_key ` set out = source_key ` set regs \<and>
     (\<forall>p\<in>set out. (\<forall>a. covers_attr p a \<longleftrightarrow> (\<exists>r\<in>set regs. source_key r = source_key p \<and> covers_attr r a)) \<and>
        (\<forall>B i. can_match_id B p i \<longleftrightarrow> (\<exists>r\<in>set regs. source_key r = source_key p \<and> can_match_id B r i)))"

lemma fold_in_keys: "source_key ` set (fold_in r ps) = insert (source_key r) (source_key ` set ps)"
  by (induction r ps rule: fold_in.induct) (auto simp: same_source_key)

lemma fold_in_distinct: "distinct (map source_key ps) \<Longrightarrow> distinct (map source_key (fold_in r ps))"
proof (induction r ps rule: fold_in.induct)
  case (2 r p ps)
  with fold_in_keys [of r ps] show ?case by (auto simp: same_source_key)
qed simp

lemma fold_in_member:
  assumes "distinct (map source_key ps)" "q \<in> set (fold_in r ps)"
  shows "(q \<in> set ps \<and> source_key q \<noteq> source_key r) \<or> (q = r \<and> source_key r \<notin> source_key ` set ps) \<or>
    (\<exists>p\<in>set ps. q = absorb p r \<and> source_key p = source_key r)"
  using assms
proof (induction r ps rule: fold_in.induct)
  case (2 r p ps)
  show ?case
  proof (cases "same_source p r")
    case True
    with 2(2,3) show ?thesis by (auto simp: same_source_key image_iff)
  next
    case False
    with 2(3) consider (here) "q = p" | (there) "q \<in> set (fold_in r ps)" by auto
    then show ?thesis
    proof cases
      case there
      with 2(1) [OF False] 2(2) False show ?thesis by (auto simp: same_source_key)
    qed (use False in \<open>simp add: same_source_key\<close>)
  qed
qed simp

lemma folded_snoc:
  assumes "folded regs out"
  shows "folded (regs @ [r]) (fold_in r out)"
proof -
  from assms have d: "distinct (map source_key out)" and keys: "source_key ` set out = source_key ` set regs"
    and cov: "\<And>p a. p \<in> set out \<Longrightarrow> covers_attr p a \<longleftrightarrow> (\<exists>r\<in>set regs. source_key r = source_key p \<and> covers_attr r a)"
    and mat: "\<And>p B i. p \<in> set out \<Longrightarrow> can_match_id B p i \<longleftrightarrow> (\<exists>r\<in>set regs. source_key r = source_key p \<and> can_match_id B r i)"
    unfolding folded_def by blast+
  have "(\<forall>a. covers_attr q a \<longleftrightarrow> (\<exists>s\<in>set (regs @ [r]). source_key s = source_key q \<and> covers_attr s a)) \<and>
      (\<forall>B i. can_match_id B q i \<longleftrightarrow> (\<exists>s\<in>set (regs @ [r]). source_key s = source_key q \<and> can_match_id B s i))"
    if "q \<in> set (fold_in r out)" for q
    using fold_in_member [OF d that]
  proof (elim disjE conjE bexE)
    assume "q \<in> set out" "source_key q \<noteq> source_key r"
    with cov mat show ?thesis by auto
  next
    assume q: "q = r" "source_key r \<notin> source_key ` set out"
    then have "source_key s \<noteq> source_key r" if "s \<in> set regs" for s using that keys by (metis image_eqI)
    with q(1) show ?thesis by auto
  next
    fix p
    assume "p \<in> set out" "q = absorb p r" "source_key p = source_key r"
    with cov [of p] mat [of p] show ?thesis by (auto simp: absorb_covers absorb_matches)
  qed
  with fold_in_keys [of r out] fold_in_distinct [OF d, of r] keys show ?thesis by (simp add: folded_def)
qed

lemma merge_same_source_folded: "folded regs (merge_same_source regs)"
proof (induction regs rule: rev_induct)
  case Nil
  show ?case by (simp add: folded_def merge_same_source_def)
next
  case (snoc r regs)
  then show ?case using folded_snoc [of regs "fold fold_in regs []" r] by (simp add: merge_same_source_def)
qed

text \<open>The fold unions attributes and ids apart: it covers pairs neither registration covers.\<close>

definition apart :: "string \<Rightarrow> string \<Rightarrow> fed_reg" where
  "apart i a = (compiled JNull [])\<lparr>fr_attrs := Some [a], fr_ids := [i], fr_unrestricted := False\<rparr>"

lemma folding_widens:
  "merge_same_source [apart ''urn:1'' ''urn:x'', apart ''urn:2'' ''urn:y''] = [absorb (apart ''urn:1'' ''urn:x'') (apart ''urn:2'' ''urn:y'')]"
  "covers_attr (absorb (apart ''urn:1'' ''urn:x'') (apart ''urn:2'' ''urn:y'')) ''urn:y''"
  "can_match_id B (absorb (apart ''urn:1'' ''urn:x'') (apart ''urn:2'' ''urn:y'')) ''urn:1''"
proof -
  have "op_set (apart ''urn:1'' ''urn:x'') = op_set (apart ''urn:2'' ''urn:y'')" by (simp add: op_set_def supports_def apart_def)
  then show "merge_same_source [apart ''urn:1'' ''urn:x'', apart ''urn:2'' ''urn:y''] = [absorb (apart ''urn:1'' ''urn:x'') (apart ''urn:2'' ''urn:y'')]"
    by (simp add: merge_same_source_def same_source_def apart_def)
qed (simp_all add: absorb_covers absorb_matches, simp_all add: covers_attr_def can_match_id_def apart_def)

subsection \<open>Merging keeps the most recent instance\<close>

definition insts_of :: "json \<Rightarrow> string \<Rightarrow> json list" where
  "insts_of d k = array_or_empty (jget d k)"

definition in_dataset :: "string option \<Rightarrow> json list \<Rightarrow> json option" where
  "in_dataset ds xs = List.find (\<lambda>i. inst_str i ''datasetId'' = ds) xs"

definition one_each :: "json list \<Rightarrow> bool" where
  "one_each xs \<longleftrightarrow> distinct (map (\<lambda>i. inst_str i ''datasetId'') xs)"

definition beats :: "string \<Rightarrow> json \<Rightarrow> json \<Rightarrow> bool" where
  "beats now a x \<longleftrightarrow> inst_expired now x \<or> recency x < recency a"

text \<open>The best instance of a set: no live one is more recent, and it is live if any is.\<close>

definition best_of :: "string \<Rightarrow> json set \<Rightarrow> json \<Rightarrow> bool" where
  "best_of now I w \<longleftrightarrow> w \<in> I \<and> (\<forall>i\<in>I. \<not> inst_expired now i \<longrightarrow> \<not> inst_expired now w \<and> recency i \<le> recency w)"

lemma best_of_insert:
  assumes "best_of now I w"
  shows "best_of now (insert a I) (if \<not> inst_expired now a \<and> beats now a w then a else w)"
  using assms by (auto simp: best_of_def beats_def intro: order_trans less_imp_le)

lemma merge_instance_ds:
  "map (\<lambda>i. inst_str i ''datasetId'') (merge_instance now a xs) =
     (if inst_str a ''datasetId'' \<in> (\<lambda>i. inst_str i ''datasetId'') ` set xs then map (\<lambda>i. inst_str i ''datasetId'') xs
      else map (\<lambda>i. inst_str i ''datasetId'') xs @ [inst_str a ''datasetId''])"
  by (induction now a xs rule: merge_instance.induct) (auto simp: image_iff)

lemma merge_instance_one: "one_each xs \<Longrightarrow> one_each (merge_instance now a xs)"
  by (simp add: one_each_def merge_instance_ds)

lemma merge_instance_find:
  "in_dataset ds (merge_instance now a xs) = (if inst_str a ''datasetId'' \<noteq> ds then in_dataset ds xs
     else Some (case in_dataset ds xs of None \<Rightarrow> a | Some x \<Rightarrow> if beats now a x then a else x))"
  by (induction now a xs rule: merge_instance.induct) (auto simp: in_dataset_def beats_def)

definition best_in :: "string \<Rightarrow> string option \<Rightarrow> json set \<Rightarrow> json list \<Rightarrow> bool" where
  "best_in now ds I xs \<longleftrightarrow> (case in_dataset ds xs of
     None \<Rightarrow> {i \<in> I. inst_str i ''datasetId'' = ds \<and> \<not> inst_expired now i} = {}
   | Some w \<Rightarrow> best_of now {i \<in> I. inst_str i ''datasetId'' = ds} w)"

lemma in_dataset_None: "in_dataset ds xs = None \<longleftrightarrow> (\<forall>x\<in>set xs. inst_str x ''datasetId'' \<noteq> ds)"
  by (auto simp: in_dataset_def find_None_iff)

lemma in_dataset_only: "one_each xs \<Longrightarrow> in_dataset ds xs = Some w \<longleftrightarrow> w \<in> set xs \<and> inst_str w ''datasetId'' = ds"
  by (induction xs) (auto simp: in_dataset_def one_each_def image_iff)

lemma best_in_self: "one_each xs \<Longrightarrow> best_in now ds (set xs) xs"
proof (cases "in_dataset ds xs")
  case (Some w)
  assume one: "one_each xs"
  with Some have "{i \<in> set xs. inst_str i ''datasetId'' = ds} = {w}"
    using in_dataset_only [OF one, of ds] by (auto simp del: in_dataset_def) (metis option.inject)+
  with Some show ?thesis by (simp add: best_in_def best_of_def)
next
  case None
  then have "\<forall>x\<in>set xs. inst_str x ''datasetId'' \<noteq> ds" by (simp add: in_dataset_None)
  with None show ?thesis by (auto simp: best_in_def)
qed

lemma best_in_merge:
  assumes "best_in now ds I xs" "\<not> inst_expired now a"
  shows "best_in now ds (insert a I) (merge_instance now a xs)"
proof (cases "inst_str a ''datasetId'' = ds")
  case True
  let ?J = "{i \<in> I. inst_str i ''datasetId'' = ds}"
  have J: "{i \<in> insert a I. inst_str i ''datasetId'' = ds} = insert a ?J" using True by auto
  show ?thesis
  proof (cases "in_dataset ds xs")
    case None
    with assms have "best_of now (insert a ?J) a" by (auto simp: best_in_def best_of_def)
    with None True show ?thesis unfolding best_in_def J by (simp add: merge_instance_find)
  next
    case (Some w)
    with assms(1) have "best_of now ?J w" by (simp add: best_in_def)
    from best_of_insert [OF this, of a] assms(2) Some True show ?thesis
      unfolding best_in_def J by (simp add: merge_instance_find)
  qed
next
  case False
  then have J: "{i \<in> insert a I. inst_str i ''datasetId'' = ds} = {i \<in> I. inst_str i ''datasetId'' = ds}"
    "{i \<in> insert a I. inst_str i ''datasetId'' = ds \<and> \<not> inst_expired now i} = {i \<in> I. inst_str i ''datasetId'' = ds \<and> \<not> inst_expired now i}"
    by auto
  from assms(1) False show ?thesis unfolding best_in_def merge_instance_find J by simp
qed

lemma best_in_skip:
  assumes "best_in now ds I xs" "inst_expired now a"
  shows "best_in now ds (insert a I) xs"
proof (cases "in_dataset ds xs")
  case None
  with assms show ?thesis by (auto simp: best_in_def)
next
  case (Some w)
  with assms show ?thesis by (auto simp: best_in_def best_of_def)
qed

lemma merge_instances_best:
  "best_in now ds I cs \<Longrightarrow> one_each cs \<Longrightarrow>
     best_in now ds (I \<union> set as) (merge_instances now as cs) \<and> one_each (merge_instances now as cs)"
proof (induction as arbitrary: I cs)
  case (Cons a as)
  let ?cs = "if inst_expired now a then cs else merge_instance now a cs"
  have "best_in now ds (insert a I) ?cs \<and> one_each ?cs"
    using Cons.prems best_in_skip best_in_merge merge_instance_one by simp
  with Cons.IH [of "insert a I" ?cs] show ?case by (simp add: merge_instances_def)
qed (simp add: merge_instances_def)

text \<open>One member at a time.\<close>

lemma merge_member_other: "k \<noteq> fst e \<Longrightarrow> bm_get (merge_member now aux e b) k = bm_get b k"
  by (cases e) (auto simp: merge_member_def split: option.split json.split)

definition merged_value :: "string \<Rightarrow> bool \<Rightarrow> string \<Rightarrow> json option \<Rightarrow> json option \<Rightarrow> json option" where
  "merged_value now aux k cur v = (case v of
     None \<Rightarrow> cur
   | Some v \<Rightarrow> if k = ''expiresAt'' then cur
       else (case cur of
           None \<Rightarrow> Some v
         | Some (JArr cs) \<Rightarrow> (case v of
             JArr as \<Rightarrow> if \<not> aux \<and> k \<notin> {''id'', ''type'', ''scope''} then Some (JArr (merge_instances now as cs)) else cur
           | _ \<Rightarrow> cur)
         | _ \<Rightarrow> cur))"

lemma merge_member_same: "bm_get (merge_member now aux (k, v) b) k = merged_value now aux k (bm_get b k) (Some v)"
  by (auto simp: merge_member_def merged_value_def split: option.split json.split)

lemma merge_members_get:
  "distinct (map fst a) \<Longrightarrow> bm_get (fold (merge_member now aux) a b) k = merged_value now aux k (bm_get b k) (bm_get a k)"
proof (induction a arbitrary: b)
  case Nil
  show ?case by (simp add: merged_value_def)
next
  case (Cons e a)
  obtain j v where e: "e = (j, v)" by (cases e)
  have IH: "bm_get (fold (merge_member now aux) a (merge_member now aux e b)) k =
      merged_value now aux k (bm_get (merge_member now aux e b) k) (bm_get a k)" using Cons by simp
  show ?case
  proof (cases "k = j")
    case True
    with Cons.prems e have "bm_get a k = None" by (force simp: bm_get_None_iff)
    moreover have "bm_get (e # a) k = Some v" using e True by (simp add: bm_get_def)
    ultimately show ?thesis using IH True e by (simp add: merge_member_same merged_value_def [of _ _ _ _ None])
  next
    case False
    with e have "bm_get (e # a) k = bm_get a k" by (simp add: bm_get_def)
    with IH merge_member_other [of k e now aux b] False e show ?thesis by simp
  qed
qed

lemma push_down_obj: "push_down_expires (JObj a) = JObj a' \<Longrightarrow> map fst a' = map fst a"
  by (auto simp: push_down_expires_def bm_map_def split: option.splits)

lemma push_down_shape: "(\<exists>a'. push_down_expires v = JObj a') \<longleftrightarrow> (\<exists>a. v = JObj a)"
  by (cases v) (auto simp: push_down_expires_def split: option.split)

lemma bm_ok_distinct: "bm_ok m \<Longrightarrow> distinct (map fst m)"
  unfolding bm_ok_def by (induction m) auto

lemma merge_docs_get:
  assumes "json_ok add" "k \<noteq> ''expiresAt''"
  shows "jget (merge_docs now aux add (JObj b)) k =
     merged_value now aux k (bm_get b k) (jget (push_down_expires add) k)"
proof (cases "push_down_expires add")
  case (JObj a)
  with push_down_shape [of add] obtain m where m: "add = JObj m" by blast
  with assms push_down_obj JObj have "distinct (map fst a)" using bm_ok_distinct by (metis json_ok.simps(6))
  from merge_members_get [OF this, of now aux] assms(2) show ?thesis
    by (auto simp: merge_docs_def JObj merge_expiry_def split: option.split)
qed (simp_all add: merge_docs_def merged_value_def)

text \<open>Only the added version is pushed down: an expiry the base alone had is dropped and its instances keep none.\<close>

lemma base_expiry_is_lost:
  assumes "json_ok (JObj a)" "bm_get a ''expiresAt'' = None" "bm_get a k = None" "k \<noteq> ''expiresAt''"
  shows "jget (merge_docs now False (JObj a) (JObj b)) ''expiresAt'' = None
    \<and> jget (merge_docs now False (JObj a) (JObj b)) k = bm_get b k"
proof -
  have push: "push_down_expires (JObj a) = JObj a" using assms(2) by (simp add: push_down_expires_def jget_str_def)
  have keep: "bm_get (fold (merge_member now False) xs m) ''expiresAt'' = bm_get m ''expiresAt''" for xs m
    by (induction xs arbitrary: m) (auto simp: merge_member_def split: option.split json.split)
  have "merge_expiry b a = bm_remove ''expiresAt'' b"
    using assms(2) by (simp add: merge_expiry_def jget_str_def split: option.split)
  then have "jget (merge_docs now False (JObj a) (JObj b)) ''expiresAt'' = None"
    by (simp add: merge_docs_def push keep)
  moreover have "jget (merge_docs now False (JObj a) (JObj b)) k = merged_value now False k (bm_get b k) None"
    using merge_docs_get [OF assms(1,4)] assms(3) by (simp add: push)
  ultimately show ?thesis by (simp add: merged_value_def)
qed

lemma merge_docs_obj: "\<exists>m. merge_docs now aux add (JObj b) = JObj m"
  by (auto simp: merge_docs_def split: json.split)

text \<open>An auxiliary source adds, and never changes.\<close>

lemma auxiliary_adds:
  assumes "json_ok add" "bm_get b k = Some v"
  shows "jget (merge_docs now True add (JObj b)) k = Some v"
proof (cases "k = ''expiresAt''")
  case False
  from merge_docs_get [OF assms(1) False, of now True b] assms(2) show ?thesis
    by (auto simp: merged_value_def split: option.split json.split)
next
  case True
  have "bm_get (fold (merge_member now True) a c) ''expiresAt'' = bm_get c ''expiresAt''" for a c
    by (induction a arbitrary: c) (auto simp: merge_member_def split: prod.split option.split)
  with True assms(2) show ?thesis by (auto simp: merge_docs_def split: json.split)
qed

text \<open>All versions of an entity, in turn.\<close>

definition holds_list :: "json \<Rightarrow> string \<Rightarrow> bool" where
  "holds_list d k \<longleftrightarrow> jget d k = None \<or> (\<exists>xs. jget d k = Some (JArr xs) \<and> one_each xs)"

lemma cap_expiry_ds: "inst_str (cap_expiry e i) ''datasetId'' = inst_str i ''datasetId''"
  by (cases i) (auto simp: cap_expiry_def inst_str_def split: option.split)

lemma push_down_get:
  "jget (push_down_expires d) k = jget d k \<or>
     (\<exists>e xs. jget d k = Some (JArr xs) \<and> jget (push_down_expires d) k = Some (JArr (map (cap_expiry e) xs)))"
proof (cases d)
  case (JObj m)
  show ?thesis
  proof (cases "jget_str m ''expiresAt''")
    case (Some e)
    show ?thesis
    proof (cases "bm_get m k")
      case (Some v)
      with JObj \<open>jget_str m ''expiresAt'' = Some e\<close> show ?thesis
        by (cases v) (simp_all add: push_down_expires_def, blast)
    qed (use JObj Some in \<open>simp add: push_down_expires_def\<close>)
  qed (simp add: JObj push_down_expires_def)
qed (simp_all add: push_down_expires_def)

lemma push_down_holds: "holds_list d k \<Longrightarrow> holds_list (push_down_expires d) k"
  using push_down_get [of d k] by (auto simp: holds_list_def one_each_def cap_expiry_ds comp_def)

lemma merge_step_best:
  assumes "json_ok add" "holds_list add k" "k \<notin> {''id'', ''type'', ''scope'', ''expiresAt''}"
    and "holds_list (JObj b) k" "\<And>ds. best_in now ds I (insts_of (JObj b) k)" "bm_get b k = None \<Longrightarrow> I = {}"
    and "merge_docs now False add (JObj b) = JObj m"
  shows "holds_list (JObj m) k" "\<And>ds. best_in now ds (I \<union> set (insts_of (push_down_expires add) k)) (insts_of (JObj m) k)"
    "bm_get m k = None \<Longrightarrow> I \<union> set (insts_of (push_down_expires add) k) = {}"
proof -
  let ?v = "jget (push_down_expires add) k"
  have k: "k \<noteq> ''expiresAt''" "k \<notin> {''id'', ''type'', ''scope''}" using assms(3) by auto
  have get: "bm_get m k = merged_value now False k (bm_get b k) ?v"
    using merge_docs_get [OF assms(1) k(1), of now False b] assms(7) by simp
  consider "?v = None" | as where "?v = Some (JArr as)" "one_each as"
    using push_down_holds [OF assms(2)] by (auto simp: holds_list_def)
  then have "holds_list (JObj m) k \<and> (\<forall>ds. best_in now ds (I \<union> set (insts_of (push_down_expires add) k)) (insts_of (JObj m) k))
    \<and> (bm_get m k = None \<longrightarrow> I \<union> set (insts_of (push_down_expires add) k) = {})"
  proof cases
    case 1
    then have "bm_get m k = bm_get b k" using get by (simp add: merged_value_def)
    with 1 assms(4-6) show ?thesis by (simp add: holds_list_def insts_of_def array_or_empty_def)
  next
    case 2
    show ?thesis
    proof (cases "bm_get b k")
      case None
      with 2 get k(1) have "bm_get m k = Some (JArr as)" by (simp add: merged_value_def)
      with 2 None assms(6) best_in_self show ?thesis by (simp add: holds_list_def insts_of_def array_or_empty_def)
    next
      case (Some c)
      with assms(4) obtain cs where cs: "c = JArr cs" "one_each cs" by (auto simp: holds_list_def)
      with Some 2 get k have m: "bm_get m k = Some (JArr (merge_instances now as cs))" by (simp add: merged_value_def)
      have "best_in now ds I cs" for ds using assms(5) [of ds] Some cs by (simp add: insts_of_def array_or_empty_def)
      note merged = merge_instances_best [OF this cs(2), of _ as]
      from merged m 2 show ?thesis by (simp add: holds_list_def insts_of_def array_or_empty_def)
    qed
  qed
  then show "holds_list (JObj m) k" "\<And>ds. best_in now ds (I \<union> set (insts_of (push_down_expires add) k)) (insts_of (JObj m) k)"
    "bm_get m k = None \<Longrightarrow> I \<union> set (insts_of (push_down_expires add) k) = {}" by blast+
qed

lemma merge_all_best:
  assumes "\<forall>d\<in>set adds. json_ok d \<and> holds_list d k" "k \<notin> {''id'', ''type'', ''scope'', ''expiresAt''}" "holds_list (JObj b) k"
  shows "\<exists>m. fold (merge_docs now False) adds (JObj b) = JObj m \<and>
    best_in now ds (set (insts_of (JObj b) k) \<union> (\<Union>d\<in>set adds. set (insts_of (push_down_expires d) k))) (insts_of (JObj m) k)"
proof -
  have all: "holds_list (JObj b) k \<Longrightarrow> (\<And>ds. best_in now ds I (insts_of (JObj b) k)) \<Longrightarrow> (bm_get b k = None \<Longrightarrow> I = {}) \<Longrightarrow>
      \<exists>m. fold (merge_docs now False) adds (JObj b) = JObj m \<and>
        best_in now ds (I \<union> (\<Union>d\<in>set adds. set (insts_of (push_down_expires d) k))) (insts_of (JObj m) k)" for I
    using assms(1)
  proof (induction adds arbitrary: b I)
    case (Cons d adds)
    from merge_docs_obj [of now False d b] obtain m where m: "merge_docs now False d (JObj b) = JObj m" by blast
    have d: "json_ok d" "holds_list d k" using Cons.prems(4) by simp_all
    note step = merge_step_best [OF d assms(2) Cons.prems(1-3) m]
    from Cons.IH [OF step(1,2,3)] Cons.prems(4) show ?case by (simp add: m Un_assoc)
  qed simp
  have "best_in now ds (set (insts_of (JObj b) k)) (insts_of (JObj b) k)" for ds
    using assms(3) best_in_self [of "insts_of (JObj b) k" now ds] best_in_self [of "[]" now ds]
    by (auto simp: holds_list_def insts_of_def array_or_empty_def one_each_def)
  then show ?thesis by (rule all [OF assms(3)]) (simp add: insts_of_def array_or_empty_def)
qed

subsection \<open>The \<open>Via\<close> chain\<close>

definition via_name :: "string \<Rightarrow> bool" where
  "via_name a \<longleftrightarrow> a \<noteq> [] \<and> (\<forall>c\<in>set a. c \<noteq> CHR '','' \<and> c \<noteq> CHR '' '' \<and> c \<noteq> CHR 0x09)"

definition sent_via :: "http_headers \<Rightarrow> string \<Rightarrow> http_headers" where
  "sent_via hs a = [(''via'', Some (outbound_via hs a))]"

lemma received_by_elem: "via_name a \<Longrightarrow> received_by (''1.1 '' @ a) = Some a" "via_name a \<Longrightarrow> received_by ('' 1.1 '' @ a) = Some a"
  by (simp_all add: received_by_def ascii_words_def via_name_def split_on_no_sep)

lemma via_elem_alone: "via_name a \<Longrightarrow> split_on (\<lambda>c. c = CHR '','') (''1.1 '' @ a) = [''1.1 '' @ a]"
  by (rule split_on_no_sep) (auto simp: via_name_def)

lemma via_elem_next:
  assumes "via_name a"
  shows "split_on (\<lambda>c. c = CHR '','') (v @ '', 1.1 '' @ a) = split_on (\<lambda>c. c = CHR '','') v @ ['' 1.1 '' @ a]"
proof -
  have "split_on (\<lambda>c. c = CHR '','') ('' 1.1 '' @ a) = ['' 1.1 '' @ a]"
    by (rule split_on_no_sep) (use assms in \<open>auto simp: via_name_def\<close>)
  then show ?thesis using split_on_append_any [of "\<lambda>c. c = CHR '',''" "CHR '',''" v "'' 1.1 '' @ a"] by simp
qed

lemma inbound_sent [simp]: "inbound_via (sent_via hs a) = Some (outbound_via hs a)"
  by (simp add: sent_via_def inbound_via_def via_fields_def List.map_filter_def)

lemma tokens_sent:
  assumes "via_name a"
  shows "via_tokens (sent_via hs a) = via_tokens hs @ [a]"
  using received_by_elem [OF assms] via_elem_alone [OF assms] via_elem_next [OF assms]
  by (simp add: via_tokens_def outbound_via_def map_filter_simps(1) List.map_filter_def split: option.split del: append_Cons)

lemma split_joined: "xs \<noteq> [] \<Longrightarrow> length (split_on (\<lambda>c. c = CHR '','') (join '', '' xs)) =
    sum_list (map (\<lambda>f. length (split_on (\<lambda>c. c = CHR '','') f)) xs)"
proof (induction xs)
  case (Cons x xs)
  have "length (split_on (\<lambda>c. c = CHR '','') (CHR '' '' # s)) = length (split_on (\<lambda>c. c = CHR '','') s)" for s
    by (simp split: list.split)
  with Cons split_on_append_any [of "\<lambda>c. c = CHR '',''" "CHR '',''" x "CHR '' '' # join '', '' xs"]
  show ?case by (simp add: join_Cons del: split_on.simps)
qed simp

lemma hops_sent:
  assumes "via_name a"
  shows "via_hops (sent_via hs a) = Suc (via_hops hs)"
proof -
  have one: "via_hops (sent_via hs a) = length (split_on (\<lambda>c. c = CHR '','') (outbound_via hs a))"
    by (simp add: sent_via_def via_hops_def via_fields_def List.map_filter_def)
  show ?thesis
  proof (cases "via_fields hs")
    case Nil
    then show ?thesis unfolding one using via_elem_alone [OF assms] by (simp add: outbound_via_def inbound_via_def via_hops_def del: append_Cons)
  next
    case (Cons f fs)
    then have "inbound_via hs = Some (join '', '' (via_fields hs))" by (simp add: inbound_via_def)
    then show ?thesis unfolding one using via_elem_next [OF assms] split_joined [of "via_fields hs"] Cons
      by (simp add: outbound_via_def via_hops_def del: append_Cons)
  qed
qed

text \<open>The headers after the brokers \<open>as\<close> each forwarded the request once.\<close>

definition cascade :: "string list \<Rightarrow> http_headers" where
  "cascade as = fold (\<lambda>a hs. sent_via hs a) as []"

lemma cascade_snoc: "cascade (as @ [a]) = sent_via (cascade as) a"
  by (simp add: cascade_def)

lemma cascade_via:
  assumes "list_all via_name as"
  shows "via_tokens (cascade as) = as \<and> via_hops (cascade as) = length as"
  using assms
proof (induction as rule: rev_induct)
  case Nil
  then show ?case by (simp add: cascade_def via_tokens_def via_hops_def inbound_via_def via_fields_def List.map_filter_def)
qed (simp add: cascade_snoc tokens_sent hops_sent)

lemma one_request_per_source:
  "distinct (map source_key (merge_same_source regs))
    \<and> source_key ` set (merge_same_source regs) = source_key ` set regs
    \<and> (\<forall>p\<in>set (merge_same_source regs).
        (\<forall>a. covers_attr p a \<longleftrightarrow> (\<exists>r\<in>set regs. source_key r = source_key p \<and> covers_attr r a)) \<and>
        (\<forall>B i. can_match_id B p i \<longleftrightarrow> (\<exists>r\<in>set regs. source_key r = source_key p \<and> can_match_id B r i)))"
  using merge_same_source_folded [of regs] unfolding folded_def by blast

end
