(* ===== verification/Conformance.thy ===== *)
theory Conformance
  imports Changes Repr
begin

text \<open>
  Amending a payload to an earlier version of the interface (\<open>antares-api/src/conformance.rs\<close>).  The code amends in
  place and answers whether anything changed; here an operation returns the amended value with that answer.
\<close>

subsection \<open>Versions\<close>

type_synonym version = "nat \<times> nat"

fun ver_lt :: "version \<Rightarrow> version \<Rightarrow> bool" where
  "ver_lt (a, b) (c, d) \<longleftrightarrow> a < c \<or> a = c \<and> b < d"

definition parse_u32 :: "string \<Rightarrow> nat option" where
  "parse_u32 s = (let ds = (case strip_char CHR ''+'' s of Some r \<Rightarrow> r | None \<Rightarrow> s);
       n = foldl (\<lambda>n c. n * 10 + (of_char c - 48)) 0 ds in
     if ds \<noteq> [] \<and> list_all is_digit ds \<and> n < 2 ^ 32 then Some n else None)"

definition parse_version :: "string \<Rightarrow> version option" where
  "parse_version s = (case split_on (\<lambda>c. c = CHR ''.'') (trim s) of
     a # b # _ \<Rightarrow> (case (parse_u32 a, parse_u32 b) of (Some x, Some y) \<Rightarrow> Some (x, y) | _ \<Rightarrow> None)
   | _ \<Rightarrow> None)"

definition NATIVE :: version where
  "NATIVE = (1, 9)"

fun prefer_ngsi :: "string list \<Rightarrow> version option" where
  "prefer_ngsi [] = None"
| "prefer_ngsi (p # ps) =
     (case (case split_once CHR ''='' p of
         None \<Rightarrow> None
       | Some (k, v) \<Rightarrow>
           if \<not> eq_ignore_case (trim k) ''ngsi-ld'' then None
           else parse_version (trim_end_matches CHR 0x22 (trim_start_matches CHR 0x22
             (trim (hd (split_on (\<lambda>c. c = CHR '';'') v)))))) of
        Some w \<Rightarrow> Some w | None \<Rightarrow> prefer_ngsi ps)"

definition preferred_version :: "string \<Rightarrow> version option" where
  "preferred_version prefer = prefer_ngsi (split_on (\<lambda>c. c = CHR '','') prefer)"

subsection \<open>Attributes\<close>

text \<open>A fallback of an attribute type: the older type, the member it had, the member it becomes.\<close>

definition fallback :: "version \<Rightarrow> string \<Rightarrow> (string \<times> string \<times> string) option" where
  "fallback ver ty =
     (if ty = ''LanguageProperty'' \<and> ver_lt ver (1, 4) then Some (''Property'', ''languageMap'', ''value'')
      else if ty = ''JsonProperty'' \<and> ver_lt ver (1, 8) then Some (''Property'', ''json'', ''value'')
      else if ty = ''VocabProperty'' \<and> ver_lt ver (1, 8) then Some (''Property'', ''vocab'', ''value'')
      else if ty = ''ListProperty'' \<and> ver_lt ver (1, 8) then Some (''Property'', ''valueList'', ''value'')
      else if ty = ''ListRelationship'' \<and> ver_lt ver (1, 8) then Some (''Relationship'', ''objectList'', ''object'')
      else None)"

definition type_name :: "jobj \<Rightarrow> string" where
  "type_name m = (case jget_str m ''type'' of None \<Rightarrow> [] | Some t \<Rightarrow> t)"

definition retype :: "version \<Rightarrow> jobj \<Rightarrow> jobj \<times> bool" where
  "retype ver m = (case fallback ver (type_name m) of
     None \<Rightarrow> (m, False)
   | Some (ty, old, new) \<Rightarrow> (let m = bm_insert ''type'' (JStr ty) m in
       (case bm_get m old of None \<Rightarrow> m | Some v \<Rightarrow> bm_insert new v (bm_remove old m), True)))"

definition newer_members :: "version \<Rightarrow> string list" where
  "newer_members ver =
     (if ver_lt ver (1, 3) then [''datasetId'', ''observedAt'', ''unitCode''] else []) @
     (if ver_lt ver (1, 8) then [''objectType''] else []) @
     (if ver_lt ver (1, 9) then [''valueType'', ''expiresAt''] else [])"

definition drop_members :: "string list \<Rightarrow> jobj \<Rightarrow> jobj \<times> bool" where
  "drop_members ks m = (filter (\<lambda>e. fst e \<notin> set ks) m, list_ex (\<lambda>k. bm_contains m k) ks)"

definition ATTR_MEMBERS :: "string list" where
  "ATTR_MEMBERS = [''type'', ''value'', ''object'', ''languageMap'', ''json'', ''vocab'', ''valueList'', ''objectList'',
     ''previousValue'', ''previousObject'', ''previousLanguageMap'', ''previousJson'', ''previousVocab'',
     ''previousValueList'', ''previousObjectList'', ''datasetId'', ''observedAt'', ''unitCode'', ''objectType'',
     ''valueType'', ''expiresAt'', ''createdAt'', ''modifiedAt'', ''instanceId'']"

definition own_members :: "version \<Rightarrow> jobj \<Rightarrow> jobj \<times> bool" where
  "own_members ver m = (case retype ver m of (m1, c1) \<Rightarrow>
     (case drop_members (newer_members ver) m1 of (m2, c2) \<Rightarrow> (m2, c1 \<or> c2)))"

definition sub_node :: "string \<Rightarrow> json \<Rightarrow> bool" where
  "sub_node k v \<longleftrightarrow> k \<notin> set ATTR_MEMBERS \<and> (is_object v \<or> is_array v)"

text \<open>Of several instances an old version keeps the default one, unless they are a temporal evolution.\<close>

definition collapses :: "version \<Rightarrow> json list \<Rightarrow> bool" where
  "collapses ver xs \<longleftrightarrow> ver_lt ver (1, 3) \<and> \<not> list_ex (\<lambda>i. jget i ''instanceId'' \<noteq> None) xs \<and> xs \<noteq> []"

definition kept_one :: "json list \<Rightarrow> json" where
  "kept_one xs = (case List.find (\<lambda>i. jget i ''datasetId'' = None) xs of Some i \<Rightarrow> i | None \<Rightarrow> hd xs)"

lemma retype_members: "e \<in> set (fst (retype ver m)) \<Longrightarrow> e \<in> set m \<or> fst e \<in> set ATTR_MEMBERS"
proof -
  assume e: "e \<in> set (fst (retype ver m))"
  have "ty \<in> {''Property'', ''Relationship''} \<and> new \<in> {''value'', ''object''}" if "fallback ver t = Some (ty, old, new)" for t ty old new
    using that by (auto simp: fallback_def split: if_split_asm)
  moreover have "''type'' \<in> set ATTR_MEMBERS" "''value'' \<in> set ATTR_MEMBERS" "''object'' \<in> set ATTR_MEMBERS"
    by (simp_all add: ATTR_MEMBERS_def)
  ultimately show ?thesis using e
    by (fastforce simp: retype_def Let_def bm_remove_def split: option.splits dest!: set_bm_insert)
qed

lemma own_members_sub: "(k, v) \<in> set (fst (own_members ver m)) \<Longrightarrow> sub_node k v \<Longrightarrow> (k, v) \<in> set m"
  using retype_members [of "(k, v)" ver m] by (auto simp: own_members_def drop_members_def sub_node_def split: prod.splits)

lemma kept_one_in: "xs \<noteq> [] \<Longrightarrow> kept_one xs \<in> set xs"
  by (auto simp: kept_one_def find_Some_iff split: option.split)

function amend_attr :: "version \<Rightarrow> json \<Rightarrow> json \<times> bool" where
  "amend_attr ver (JArr xs) =
     (if collapses ver xs then (fst (amend_attr ver (kept_one xs)), True)
      else (JArr (map (\<lambda>i. fst (amend_attr ver i)) xs), list_ex (\<lambda>i. snd (amend_attr ver i)) xs))"
| "amend_attr ver (JObj m) =
     (JObj (map (\<lambda>(k, v). (k, if sub_node k v then fst (amend_attr ver v) else v)) (fst (own_members ver m))),
      snd (own_members ver m) \<or> list_ex (\<lambda>(k, v). if sub_node k v then snd (amend_attr ver v) else False) (fst (own_members ver m)))"
| "amend_attr ver JNull = (JNull, False)"
| "amend_attr ver (JBool b) = (JBool b, False)"
| "amend_attr ver (JNum n) = (JNum n, False)"
| "amend_attr ver (JStr s) = (JStr s, False)"
  by pat_completeness auto
termination
proof (relation "measure (\<lambda>(ver, v). size v)", goal_cases)
  case (2 ver xs)
  then have "kept_one xs \<in> set xs" by (simp add: collapses_def kept_one_in)
  from size_list_estimation' [OF this, of "size (kept_one xs)" size] show ?case by simp
next
  case (3 ver xs x)
  from size_list_estimation' [OF 3(2), of "size x" size] show ?case by simp
next
  case (4 ver xs x)
  from size_list_estimation' [OF 4(2), of "size x" size] show ?case by simp
next
  case (5 ver m e k v)
  then have "(k, v) \<in> set m" using own_members_sub [of k v ver m] by auto
  from size_json_entry [OF this] show ?case by simp
next
  case (6 ver m e k v)
  then have "(k, v) \<in> set m" using own_members_sub [of k v ver m] by auto
  from size_json_entry [OF this] show ?case by simp
qed simp_all

subsection \<open>Entities and payloads\<close>

definition amend_members :: "version \<Rightarrow> jobj \<Rightarrow> jobj \<times> bool" where
  "amend_members ver m =
     (map (\<lambda>(k, v). (k, if k \<in> set ENTITY_META_KEYS then v else fst (amend_attr ver v))) m,
      list_ex (\<lambda>(k, v). k \<notin> set ENTITY_META_KEYS \<and> snd (amend_attr ver v)) m)"

definition first_type :: "version \<Rightarrow> jobj \<Rightarrow> jobj \<times> bool" where
  "first_type ver m = (if \<not> ver_lt ver (1, 3) then (m, False)
     else (case bm_get m ''type'' of Some (JArr (t # _)) \<Rightarrow> (bm_insert ''type'' t m, True) | _ \<Rightarrow> (m, False)))"

definition entity_newer :: "version \<Rightarrow> string list" where
  "entity_newer ver = (if ver_lt ver (1, 9) then [''expiresAt''] else []) @ (if ver_lt ver (1, 4) then [''scope''] else [])"

definition amend_entity :: "version \<Rightarrow> json \<Rightarrow> json \<times> bool" where
  "amend_entity ver doc = (case doc of
     JObj m \<Rightarrow>
       if \<not> ver_lt ver NATIVE then (doc, False)
       else (case drop_members (entity_newer ver) m of (m1, c1) \<Rightarrow>
         (case first_type ver m1 of (m2, c2) \<Rightarrow>
         (case amend_members ver m2 of (m3, c3) \<Rightarrow> (JObj m3, c1 \<or> c2 \<or> c3))))
   | _ \<Rightarrow> (doc, False))"

definition RESERVED_RESOURCES :: "string list" where
  "RESERVED_RESOURCES = [''Subscription'', ''ContextSourceRegistration'', ''CSourceRegistration'', ''Notification'', ''EntityMap'', ''Snapshot'']"

definition is_reserved_resource :: "jobj \<Rightarrow> bool" where
  "is_reserved_resource m \<longleftrightarrow> (case jget_str m ''type'' of None \<Rightarrow> False | Some t \<Rightarrow> t \<in> set RESERVED_RESOURCES)"

function amend_payload :: "version \<Rightarrow> json \<Rightarrow> json \<times> bool" where
  "amend_payload ver doc = (case doc of
     JArr xs \<Rightarrow> (JArr (map (\<lambda>i. fst (amend_payload ver i)) xs), list_ex (\<lambda>i. snd (amend_payload ver i)) xs)
   | JObj m \<Rightarrow>
       if jget_str m ''type'' = Some ''Notification''
       then (case bm_get m ''data'' of
           Some d \<Rightarrow> (JObj (bm_insert ''data'' (fst (amend_payload ver d)) m), snd (amend_payload ver d))
         | None \<Rightarrow> (doc, False))
       else if bm_contains m ''id'' \<and> bm_contains m ''type'' \<and> \<not> is_reserved_resource m then amend_entity ver doc
       else (doc, False)
   | _ \<Rightarrow> (doc, False))"
  by pat_completeness auto
termination
proof (relation "measure (\<lambda>(ver, v). size v)", goal_cases)
  case (2 ver doc xs x)
  from size_list_estimation' [OF 2(2), of "size x" size] 2(1) show ?case by simp
next
  case (3 ver doc xs x)
  from size_list_estimation' [OF 3(2), of "size x" size] 3(1) show ?case by simp
next
  case (4 ver doc m d)
  from size_json_entry [OF bm_get_SomeD [OF 4(3)]] 4(1) show ?case by simp
next
  case (5 ver doc m d)
  from size_json_entry [OF bm_get_SomeD [OF 5(3)]] 5(1) show ?case by simp
qed simp_all

declare amend_payload.simps [simp del] amend_attr.simps [simp del]

subsection \<open>The answer says whether the value changed\<close>

lemma newer_members_own: "set (newer_members ver) \<subseteq> {''datasetId'', ''observedAt'', ''unitCode'', ''objectType'', ''valueType'', ''expiresAt''}"
  by (auto simp: newer_members_def)

lemma fallback_result:
  "fallback ver t = Some (ty, old, new) \<Longrightarrow>
     ty \<noteq> t \<and> ty \<in> {''Property'', ''Relationship''} \<and> new \<in> {''value'', ''object''} \<and> old \<in> {''languageMap'', ''json'', ''vocab'', ''valueList'', ''objectList''}"
  by (auto simp: fallback_def split: if_split_asm)

lemma retype_get:
  "snd (retype ver m) \<Longrightarrow> bm_get (fst (retype ver m)) ''type'' \<noteq> bm_get m ''type''"
  "fallback ver (type_name (fst (retype ver m))) = None"
  "\<not> snd (retype ver m) \<Longrightarrow> fst (retype ver m) = m"
  "k \<notin> {''type'', ''value'', ''object'', ''languageMap'', ''json'', ''vocab'', ''valueList'', ''objectList''} \<Longrightarrow>
     bm_get (fst (retype ver m)) k = bm_get m k"
proof -
  have "(snd (retype ver m) \<longrightarrow> bm_get (fst (retype ver m)) ''type'' \<noteq> bm_get m ''type'') \<and>
    fallback ver (type_name (fst (retype ver m))) = None \<and> (\<not> snd (retype ver m) \<longrightarrow> fst (retype ver m) = m) \<and>
    (k \<notin> {''type'', ''value'', ''object'', ''languageMap'', ''json'', ''vocab'', ''valueList'', ''objectList''} \<longrightarrow>
       bm_get (fst (retype ver m)) k = bm_get m k)"
  proof (cases "fallback ver (type_name m)")
    case None
    then show ?thesis by (simp add: retype_def)
  next
    case (Some f)
    obtain ty old new where f: "f = (ty, old, new)" by (cases f)
    note r = fallback_result [OF Some [unfolded f]]
    define m1 where "m1 = bm_insert ''type'' (JStr ty) m"
    define m2 where "m2 = (case bm_get m1 old of None \<Rightarrow> m1 | Some v \<Rightarrow> bm_insert new v (bm_remove old m1))"
    have m2: "retype ver m = (m2, True)" unfolding retype_def Some f m2_def m1_def Let_def by simp
    have t: "bm_get m2 ''type'' = Some (JStr ty)"
      using r by (auto simp: m2_def m1_def split: option.split)
    then have "type_name m2 = ty" by (simp add: type_name_def jget_str_def)
    moreover have "fallback ver ty = None" using r by (auto simp: fallback_def)
    moreover have "bm_get m ''type'' \<noteq> Some (JStr ty)" using r by (auto simp: type_name_def jget_str_def)
    moreover have "bm_get m2 k = bm_get m k"
      if "k \<notin> {''type'', ''value'', ''object'', ''languageMap'', ''json'', ''vocab'', ''valueList'', ''objectList''}"
      using that r by (auto simp: m2_def m1_def split: option.split)
    ultimately show ?thesis using t by (simp add: m2)
  qed
  note h = this
  show "snd (retype ver m) \<Longrightarrow> bm_get (fst (retype ver m)) ''type'' \<noteq> bm_get m ''type''"
    by (rule mp [OF h [THEN conjunct1]])
  show "fallback ver (type_name (fst (retype ver m))) = None" by (rule h [THEN conjunct2, THEN conjunct1])
  show "\<not> snd (retype ver m) \<Longrightarrow> fst (retype ver m) = m" by (rule mp [OF h [THEN conjunct2, THEN conjunct2, THEN conjunct1]])
  show "k \<notin> {''type'', ''value'', ''object'', ''languageMap'', ''json'', ''vocab'', ''valueList'', ''objectList''} \<Longrightarrow>
       bm_get (fst (retype ver m)) k = bm_get m k" by (rule mp [OF h [THEN conjunct2, THEN conjunct2, THEN conjunct2]])
qed

lemma retype_ok: "bm_ok m \<Longrightarrow> bm_ok (fst (retype ver m))"
  unfolding retype_def Let_def by (simp add: bm_insert_ok bm_remove_ok split: option.split)

lemma bm_get_dropped: "bm_get (filter (\<lambda>e. fst e \<notin> set ks) m) k = (if k \<in> set ks then None else bm_get m k)"
  by (induction m) (auto simp: bm_get_def)

lemma drop_members_facts:
  "snd (drop_members ks m) \<Longrightarrow> \<exists>k\<in>set ks. bm_get m k \<noteq> None"
  "\<not> snd (drop_members ks m) \<Longrightarrow> fst (drop_members ks m) = m"
  "bm_get (fst (drop_members ks m)) k = (if k \<in> set ks then None else bm_get m k)"
  by (auto simp: drop_members_def list_ex_iff bm_contains_def bm_get_dropped bm_get_None_iff filter_id_conv image_iff)

lemma own_members_eq: "own_members ver m = (fst (drop_members (newer_members ver) (fst (retype ver m))),
    snd (retype ver m) \<or> snd (drop_members (newer_members ver) (fst (retype ver m))))"
  by (simp add: own_members_def split: prod.split)

lemma own_members_facts:
  assumes "bm_ok m"
  shows "bm_ok (fst (own_members ver m))"
    and "\<not> snd (own_members ver m) \<Longrightarrow> fst (own_members ver m) = m"
    and "snd (own_members ver m) \<Longrightarrow> \<exists>k\<in>set ATTR_MEMBERS. bm_get (fst (own_members ver m)) k \<noteq> bm_get m k"
    and "k \<notin> set ATTR_MEMBERS \<Longrightarrow> bm_get (fst (own_members ver m)) k = bm_get m k"
    and "\<not> snd (own_members ver (fst (own_members ver m)))"
proof -
  define m1 where "m1 = fst (retype ver m)"
  define ks where "ks = newer_members ver"
  define m2 where "m2 = fst (drop_members ks m1)"
  have own: "own_members ver m = (m2, snd (retype ver m) \<or> snd (drop_members ks m1))"
    by (simp add: own_members_eq m1_def m2_def ks_def)
  have ks: "set ks \<subseteq> set ATTR_MEMBERS" "''type'' \<notin> set ks" "\<And>k. k \<in> set ks \<Longrightarrow> bm_get m1 k = bm_get m k"
  proof -
    define six where "six = {''datasetId'', ''observedAt'', ''unitCode'', ''objectType'', ''valueType'', ''expiresAt''}"
    define eight where "eight = {''type'', ''value'', ''object'', ''languageMap'', ''json'', ''vocab'', ''valueList'', ''objectList''}"
    have six: "set ks \<subseteq> six" unfolding ks_def six_def by (rule newer_members_own)
    have "six \<subseteq> set ATTR_MEMBERS" by (simp add: ATTR_MEMBERS_def six_def)
    with six show "set ks \<subseteq> set ATTR_MEMBERS" by (rule order_trans)
    have "''type'' \<notin> six" by (simp add: six_def)
    with six show "''type'' \<notin> set ks" by blast
    have "six \<inter> eight = {}" by (simp add: six_def eight_def)
    with six have no: "k \<notin> eight" if "k \<in> set ks" for k using that by blast
    show "bm_get m1 k = bm_get m k" if "k \<in> set ks" for k
      unfolding m1_def by (rule retype_get(4)) (use no [OF that] in \<open>simp only: eight_def not_False_eq_True\<close>)
  qed
  have m2: "bm_get m2 k = (if k \<in> set ks then None else bm_get m1 k)" for k
    by (simp add: m2_def drop_members_facts)
  show "bm_ok (fst (own_members ver m))"
    using retype_ok [OF assms, of ver] bm_filter_ok by (simp add: own m2_def drop_members_def m1_def)
  show "fst (own_members ver m) = m" if "\<not> snd (own_members ver m)"
    using that retype_get(3) [of ver m] drop_members_facts(2) [of ks m1] by (auto simp: own m2_def m1_def)
  show "\<exists>k\<in>set ATTR_MEMBERS. bm_get (fst (own_members ver m)) k \<noteq> bm_get m k" if "snd (own_members ver m)"
  proof (cases "snd (retype ver m)")
    case True
    from retype_get(1) [OF this] m2 [of "''type''"] ks(2) show ?thesis
      by (intro bexI [of _ "''type''"]) (simp_all add: own m1_def ATTR_MEMBERS_def)
  next
    case False
    with that own have "snd (drop_members ks m1)" by simp
    from drop_members_facts(1) [OF this] obtain k where "k \<in> set ks" "bm_get m1 k \<noteq> None" by blast
    with ks m2 [of k] show ?thesis by (intro bexI [of _ k]) (auto simp: own)
  qed
  show "bm_get (fst (own_members ver m)) k = bm_get m k" if "k \<notin> set ATTR_MEMBERS"
  proof -
    from that have "bm_get m1 k = bm_get m k" unfolding m1_def by (intro retype_get(4)) (auto simp: ATTR_MEMBERS_def)
    with that ks(1) m2 [of k] show ?thesis by (auto simp: own)
  qed
  have "type_name m2 = type_name m1" using m2 [of "''type''"] ks(2) by (simp add: type_name_def jget_str_def)
  then have "retype ver m2 = (m2, False)" using retype_get(2) [of ver m] by (simp add: retype_def m1_def)
  moreover have "\<not> snd (drop_members ks m2)"
    using drop_members_facts(1) [of ks m2] m2 by auto
  ultimately show "\<not> snd (own_members ver (fst (own_members ver m)))"
    by (simp add: own own_members_eq [of ver m2] ks_def)
qed

text \<open>Arrays within arrays only get shallower.\<close>

fun nested :: "json \<Rightarrow> nat" where
  "nested (JArr xs) = Suc (sum_list (map nested xs))"
| "nested v = 0"

lemma nested_amend: "nested (fst (amend_attr ver v)) \<le> nested v"
proof (induction ver v rule: amend_attr.induct)
  case (1 ver xs)
  show ?case
  proof (cases "collapses ver xs")
    case True
    then have "kept_one xs \<in> set xs" by (simp add: collapses_def kept_one_in)
    then have "nested (kept_one xs) \<le> sum_list (map nested xs)" by (simp add: member_le_sum_list)
    with 1(1) [OF True] True show ?thesis by (simp add: amend_attr.simps)
  next
    case False
    with 1(2) show ?thesis by (simp add: amend_attr.simps comp_def sum_list_mono)
  qed
qed (simp_all add: amend_attr.simps)

lemma collapsed_differs: "collapses ver xs \<Longrightarrow> fst (amend_attr ver (kept_one xs)) \<noteq> JArr xs"
proof
  assume c: "collapses ver xs" and e: "fst (amend_attr ver (kept_one xs)) = JArr xs"
  then have "nested (kept_one xs) \<le> sum_list (map nested xs)" by (simp add: collapses_def kept_one_in member_le_sum_list)
  with nested_amend [of ver "kept_one xs"] e show False by simp
qed

definition amended_subs :: "version \<Rightarrow> jobj \<Rightarrow> jobj" where
  "amended_subs ver m = map (\<lambda>(k, v). (k, if sub_node k v then fst (amend_attr ver v) else v)) m"

lemma amended_subs_get: "bm_get (amended_subs ver m) k = map_option (\<lambda>v. if sub_node k v then fst (amend_attr ver v) else v) (bm_get m k)"
  by (induction m) (auto simp: amended_subs_def bm_get_def)

lemma amend_attr_obj: "fst (amend_attr ver (JObj m)) = JObj (amended_subs ver (fst (own_members ver m)))"
  by (simp add: amend_attr.simps amended_subs_def)

lemma map_same_iff: "map f xs = xs \<longleftrightarrow> (\<forall>x\<in>set xs. f x = x)"
  by (induction xs) auto

lemma amend_exact: "json_ok v \<Longrightarrow> snd (amend_attr ver v) \<longleftrightarrow> fst (amend_attr ver v) \<noteq> v"
proof (induction ver v rule: amend_attr.induct)
  case (1 ver xs)
  show ?case
  proof (cases "collapses ver xs")
    case True
    with collapsed_differs show ?thesis by (simp add: amend_attr.simps)
  next
    case False
    from 1(2,3) [OF False] 1(4) have "snd (amend_attr ver x) \<longleftrightarrow> fst (amend_attr ver x) \<noteq> x" if "x \<in> set xs" for x
      using that by (simp add: list_all_iff)
    with False show ?thesis by (auto simp: amend_attr.simps list_ex_iff map_same_iff)
  qed
next
  case (2 ver m)
  let ?own = "fst (own_members ver m)"
  have ok: "bm_ok m" using 2(3) by simp
  note own = own_members_facts [OF ok, where ver = ver]
  have ih: "snd (amend_attr ver v) \<longleftrightarrow> fst (amend_attr ver v) \<noteq> v" if "(k, v) \<in> set ?own" "sub_node k v" for k v
  proof -
    from own_members_sub [OF that] 2(3) have "json_ok v" by (auto simp: list_all_iff)
    with 2(1) [OF that(1) refl that(2)] show ?thesis by simp
  qed
  show ?case
  proof (cases "snd (own_members ver m)")
    case True
    from own(3) [OF True] obtain k where k: "k \<in> set ATTR_MEMBERS" "bm_get ?own k \<noteq> bm_get m k" by blast
    then have "bm_get (amended_subs ver ?own) k \<noteq> bm_get m k"
      by (cases "bm_get ?own k") (auto simp: amended_subs_get sub_node_def)
    then have "amended_subs ver ?own \<noteq> m" by auto
    with True show ?thesis by (simp add: amend_attr.simps amended_subs_def)
  next
    case False
    with own(2) have m: "?own = m" by simp
    have "amended_subs ver m \<noteq> m \<longleftrightarrow> list_ex (\<lambda>(k, v). if sub_node k v then snd (amend_attr ver v) else False) m"
    proof -
      have "(case e of (k, v) \<Rightarrow> (k, if sub_node k v then fst (amend_attr ver v) else v)) = e \<longleftrightarrow>
          \<not> (case e of (k, v) \<Rightarrow> if sub_node k v then snd (amend_attr ver v) else False)" if "e \<in> set m" for e
      proof -
        obtain k v where e: "e = (k, v)" by (cases e)
        with that m have "(k, v) \<in> set ?own" by simp
        from ih [OF this] show ?thesis by (auto simp: e)
      qed
      then show ?thesis unfolding amended_subs_def list_ex_iff map_same_iff by blast
    qed
    with False m show ?thesis by (simp add: amend_attr.simps amended_subs_def)
  qed
qed (simp_all add: amend_attr.simps)

subsection \<open>Amending twice\<close>

lemma instance_id_kept:
  assumes "json_ok v" "jget v ''instanceId'' \<noteq> None"
  shows "jget (fst (amend_attr ver v)) ''instanceId'' \<noteq> None"
proof (cases v)
  case (JObj m)
  have "''instanceId'' \<in> set ATTR_MEMBERS" by (simp add: ATTR_MEMBERS_def)
  moreover have "bm_get (fst (own_members ver m)) ''instanceId'' = bm_get m ''instanceId''"
    unfolding own_members_eq fst_conv drop_members_facts(3)
    using retype_get(4) [of "''instanceId''" ver m] by (auto simp: newer_members_def)
  ultimately show ?thesis using assms JObj by (simp add: amend_attr_obj amended_subs_get)
qed (use assms in simp_all)

lemma own_members_subs:
  assumes "bm_ok m" "\<not> snd (own_members ver m)"
  shows "own_members ver (amended_subs ver m) = (amended_subs ver m, False)"
proof -
  have same: "bm_get (amended_subs ver m) k = bm_get m k" if "k \<in> set ATTR_MEMBERS" for k
    using that by (cases "bm_get m k") (auto simp: amended_subs_get sub_node_def)
  have r: "\<not> snd (retype ver m)" and d: "\<not> snd (drop_members (newer_members ver) m)"
    using assms(2) retype_get(3) [of ver m] by (auto simp: own_members_eq)
  have "''type'' \<in> set ATTR_MEMBERS" by (simp add: ATTR_MEMBERS_def)
  with same have "type_name (amended_subs ver m) = type_name m" by (simp add: type_name_def jget_str_def)
  with r have "retype ver (amended_subs ver m) = (amended_subs ver m, False)"
    by (auto simp: retype_def Let_def split: option.splits)
  moreover have "set (newer_members ver) \<subseteq> set ATTR_MEMBERS"
    by (rule order_trans [OF newer_members_own]) (simp add: ATTR_MEMBERS_def)
  with same have "\<And>k. k \<in> set (newer_members ver) \<Longrightarrow> bm_get (amended_subs ver m) k = bm_get m k" by blast
  with d have "\<not> snd (drop_members (newer_members ver) (amended_subs ver m))"
    by (auto simp: drop_members_def list_ex_iff bm_contains_def)
  ultimately show ?thesis using drop_members_facts(2) by (simp add: own_members_eq)
qed

lemma amend_twice: "json_ok v \<Longrightarrow> fst (amend_attr ver (fst (amend_attr ver v))) = fst (amend_attr ver v)"
proof (induction ver v rule: amend_attr.induct)
  case (1 ver xs)
  show ?case
  proof (cases "collapses ver xs")
    case True
    then have "json_ok (kept_one xs)" using 1(4) kept_one_in [of xs] by (auto simp: collapses_def list_all_iff)
    with 1(1) True show ?thesis by (simp add: amend_attr.simps)
  next
    case False
    have ok: "\<And>x. x \<in> set xs \<Longrightarrow> json_ok x" using 1(4) by (simp add: list_all_iff)
    have "list_ex (\<lambda>i. jget i ''instanceId'' \<noteq> None) (map (\<lambda>i. fst (amend_attr ver i)) xs)"
      if "list_ex (\<lambda>i. jget i ''instanceId'' \<noteq> None) xs"
      using that instance_id_kept [OF ok] unfolding list_ex_iff by fastforce
    with False have "\<not> collapses ver (map (\<lambda>i. fst (amend_attr ver i)) xs)"
      unfolding collapses_def by auto
    with False 1(2) [OF False] ok show ?thesis by (simp add: amend_attr.simps)
  qed
next
  case (2 ver m)
  let ?own = "fst (own_members ver m)"
  have ok: "bm_ok m" using 2(3) by simp
  note own = own_members_facts [OF ok, where ver = ver]
  have ih: "fst (amend_attr ver (fst (amend_attr ver v))) = fst (amend_attr ver v)" if "(k, v) \<in> set ?own" "sub_node k v" for k v
  proof -
    from own_members_sub [OF that] 2(3) have "json_ok v" by (auto simp: list_all_iff)
    with 2(1) [OF that(1) refl that(2)] show ?thesis by simp
  qed
  have "amended_subs ver (amended_subs ver ?own) = amended_subs ver ?own"
    using ih unfolding amended_subs_def by (auto simp: sub_node_def)
  with own_members_subs [OF own(1,5)] show ?case by (simp add: amend_attr_obj)
qed (simp_all add: amend_attr.simps)

subsection \<open>Entities\<close>

text \<open>The type of an entity as compaction leaves it: a name, or an array of names.\<close>

definition flat_type :: "json \<Rightarrow> bool" where
  "flat_type doc \<longleftrightarrow> (case jget doc ''type'' of Some (JArr ts) \<Rightarrow> list_all is_string ts | _ \<Rightarrow> True)"

definition amended_attrs :: "version \<Rightarrow> jobj \<Rightarrow> jobj" where
  "amended_attrs ver m = fst (amend_members ver m)"

lemma amended_attrs_get:
  "bm_get (amended_attrs ver m) k = map_option (\<lambda>v. if k \<in> set ENTITY_META_KEYS then v else fst (amend_attr ver v)) (bm_get m k)"
  by (induction m) (auto simp: amended_attrs_def amend_members_def bm_get_def)

lemma retype_values_ok: "list_all (\<lambda>e. json_ok (snd e)) m \<Longrightarrow> list_all (\<lambda>e. json_ok (snd e)) (fst (retype ver m))"
proof (cases "fallback ver (type_name m)")
  case (Some f)
  assume ok: "list_all (\<lambda>e. json_ok (snd e)) m"
  obtain ty old new where f: "f = (ty, old, new)" by (cases f)
  let ?m = "bm_insert ''type'' (JStr ty) m"
  have m: "json_ok (snd e)" if "e \<in> set ?m" for e using set_bm_insert [OF that] ok by (auto simp: list_all_iff)
  show ?thesis
  proof (cases "bm_get ?m old")
    case None
    with m show ?thesis unfolding retype_def Some f Let_def by (simp add: list_all_iff)
  next
    case (Some v)
    have "json_ok v" using m [OF bm_get_SomeD [OF Some]] by simp
    with m have "json_ok (snd e)" if "e \<in> set (bm_insert new v (bm_remove old ?m))" for e
      using set_bm_insert [OF that] by (cases e) (auto simp: bm_remove_def)
    then show ?thesis unfolding retype_def \<open>fallback ver (type_name m) = Some f\<close> f Let_def using Some by (simp add: list_all_iff)
  qed
qed (simp add: retype_def)

lemma amend_attr_ok: "json_ok v \<Longrightarrow> json_ok (fst (amend_attr ver v))"
proof (induction ver v rule: amend_attr.induct)
  case (1 ver xs)
  show ?case
  proof (cases "collapses ver xs")
    case True
    then have "json_ok (kept_one xs)" using 1(4) kept_one_in [of xs] by (auto simp: collapses_def list_all_iff)
    with 1(1) True show ?thesis by (simp add: amend_attr.simps)
  next
    case False
    with 1(2) [OF False] 1(4) show ?thesis by (simp add: amend_attr.simps list_all_iff)
  qed
next
  case (2 ver m)
  let ?own = "fst (own_members ver m)"
  have ok: "bm_ok m" "list_all (\<lambda>e. json_ok (snd e)) m" using 2(3) by simp_all
  have own: "list_all (\<lambda>e. json_ok (snd e)) ?own"
    using retype_values_ok [OF ok(2), of ver] by (auto simp: own_members_eq drop_members_def list_all_iff)
  have "json_ok (if sub_node k v then fst (amend_attr ver v) else v)" if "(k, v) \<in> set ?own" for k v
    using 2(1) [OF that refl] that own by (auto simp: list_all_iff)
  moreover have "bm_ok (amended_subs ver ?own)"
    using own_members_facts(1) [OF ok(1), of ver] by (simp add: bm_ok_def amended_subs_def comp_def case_prod_beta)
  ultimately show ?case by (auto simp: amend_attr_obj amended_subs_def list_all_iff)
qed (simp_all add: amend_attr.simps)

lemma amended_attrs_ok: "list_all (\<lambda>e. json_ok (snd e)) m \<Longrightarrow> list_all (\<lambda>e. json_ok (snd e)) (amended_attrs ver m)"
  by (auto simp: amended_attrs_def amend_members_def list_all_iff amend_attr_ok)

lemma amend_members_exact:
  assumes "list_all (\<lambda>e. json_ok (snd e)) m"
  shows "snd (amend_members ver m) \<longleftrightarrow> fst (amend_members ver m) \<noteq> m"
proof -
  have "(case e of (k, v) \<Rightarrow> (k, if k \<in> set ENTITY_META_KEYS then v else fst (amend_attr ver v))) = e \<longleftrightarrow>
      \<not> (case e of (k, v) \<Rightarrow> k \<notin> set ENTITY_META_KEYS \<and> snd (amend_attr ver v))" if "e \<in> set m" for e
  proof -
    obtain k v where e: "e = (k, v)" by (cases e)
    with that assms have "json_ok v" by (auto simp: list_all_iff)
    from amend_exact [OF this, of ver] show ?thesis by (auto simp: e)
  qed
  then show ?thesis unfolding amend_members_def fst_conv snd_conv list_ex_iff map_same_iff by blast
qed

lemma amend_members_twice:
  assumes "list_all (\<lambda>e. json_ok (snd e)) m"
  shows "amended_attrs ver (amended_attrs ver m) = amended_attrs ver m"
  using assms by (auto simp: amended_attrs_def amend_members_def list_all_iff amend_twice)

lemma amend_entity_obj:
  "amend_entity ver (JObj m) = (if \<not> ver_lt ver NATIVE then (JObj m, False)
     else (let d = drop_members (entity_newer ver) m; t = first_type ver (fst d); a = amend_members ver (fst t)
           in (JObj (fst a), snd d \<or> snd t \<or> snd a)))"
  by (simp add: amend_entity_def Let_def split: prod.split)

lemma first_type_facts:
  assumes "list_all (\<lambda>e. json_ok (snd e)) m"
  shows "\<not> snd (first_type ver m) \<Longrightarrow> fst (first_type ver m) = m"
    and "snd (first_type ver m) \<Longrightarrow> bm_get (fst (first_type ver m)) ''type'' \<noteq> bm_get m ''type''"
    and "k \<noteq> ''type'' \<Longrightarrow> bm_get (fst (first_type ver m)) k = bm_get m k"
    and "list_all (\<lambda>e. json_ok (snd e)) (fst (first_type ver m))"
    and "flat_type (JObj m) \<Longrightarrow> bm_get m' ''type'' = bm_get (fst (first_type ver m)) ''type'' \<Longrightarrow> \<not> snd (first_type ver m')"
proof -
  have "list_all (\<lambda>e. json_ok (snd e)) (bm_insert ''type'' t m)" if "bm_get m ''type'' = Some (JArr (t # ts))" for t ts
  proof -
    from bm_get_SomeD [OF that] assms have "json_ok t" by (auto simp: list_all_iff)
    with assms show ?thesis by (auto simp: list_all_iff dest: set_bm_insert)
  qed
  then show "list_all (\<lambda>e. json_ok (snd e)) (fst (first_type ver m))"
    using assms by (auto simp: first_type_def split: option.split json.split list.split)
  have ne: "JArr (t # ts) \<noteq> t" for t ts
  proof
    assume "JArr (t # ts) = t"
    then have "size (JArr (t # ts)) = size t" by simp
    then show False by simp
  qed
  show "\<not> snd (first_type ver m) \<Longrightarrow> fst (first_type ver m) = m"
    by (auto simp: first_type_def split: option.splits json.splits list.splits)
  show "snd (first_type ver m) \<Longrightarrow> bm_get (fst (first_type ver m)) ''type'' \<noteq> bm_get m ''type''"
    using ne ne [symmetric] by (auto simp: first_type_def split: option.splits json.splits list.splits if_split_asm)
  show "k \<noteq> ''type'' \<Longrightarrow> bm_get (fst (first_type ver m)) k = bm_get m k"
    by (auto simp: first_type_def split: option.split json.split list.split)
  show "\<not> snd (first_type ver m')" if "flat_type (JObj m)" "bm_get m' ''type'' = bm_get (fst (first_type ver m)) ''type''"
  proof (rule ccontr)
    assume "\<not> \<not> snd (first_type ver m')"
    then obtain t ts where t: "ver_lt ver (1, 3)" "bm_get m' ''type'' = Some (JArr (t # ts))"
      by (auto simp: first_type_def split: option.splits json.splits list.splits if_split_asm)
    show False
    proof (cases "snd (first_type ver m)")
      case True
      then obtain u us where u: "bm_get m ''type'' = Some (JArr (u # us))" "fst (first_type ver m) = bm_insert ''type'' u m"
        by (auto simp: first_type_def split: option.splits json.splits list.splits if_split_asm)
      with that(1) have "is_string u" by (simp add: flat_type_def)
      moreover have "u = JArr (t # ts)" using u(2) that(2) t(2) by simp
      ultimately show False by simp
    next
      case False
      with t that(2) show False by (auto simp: first_type_def split: option.splits json.splits list.splits if_split_asm)
    qed
  qed
qed

lemma entity_newer_no_type: "''type'' \<notin> set (entity_newer ver)"
  by (simp add: entity_newer_def)

lemma dropped_members_ok: "list_all (\<lambda>e. json_ok (snd e)) m \<Longrightarrow> list_all (\<lambda>e. json_ok (snd e)) (fst (drop_members ks m))"
  by (auto simp: drop_members_def list_all_iff)

lemma entity_newer_meta: "k \<in> set (entity_newer ver) \<Longrightarrow> k \<in> set ENTITY_META_KEYS"
proof -
  have "''expiresAt'' \<in> set ENTITY_META_KEYS" "''scope'' \<in> set ENTITY_META_KEYS" by (simp_all add: ENTITY_META_KEYS_def)
  then show "k \<in> set (entity_newer ver) \<Longrightarrow> k \<in> set ENTITY_META_KEYS" by (auto simp: entity_newer_def split: if_split_asm)
qed

lemma type_meta: "''type'' \<in> set ENTITY_META_KEYS"
  by (simp add: ENTITY_META_KEYS_def)

lemma amended_attrs_meta: "k \<in> set ENTITY_META_KEYS \<Longrightarrow> bm_get (amended_attrs ver m) k = bm_get m k"
  by (cases "bm_get m k") (simp_all add: amended_attrs_get)

lemma amend_entity_exact:
  assumes "json_ok doc"
  shows "snd (amend_entity ver doc) \<longleftrightarrow> fst (amend_entity ver doc) \<noteq> doc"
proof (cases "\<exists>m. doc = JObj m \<and> ver_lt ver NATIVE")
  case True
  then obtain m where doc: "doc = JObj m" "ver_lt ver NATIVE" by blast
  define d where "d = drop_members (entity_newer ver) m"
  define t where "t = first_type ver (fst d)"
  have e: "amend_entity ver doc = (JObj (amended_attrs ver (fst t)), snd d \<or> snd t \<or> snd (amend_members ver (fst t)))"
    using doc by (simp add: amend_entity_obj Let_def d_def t_def amended_attrs_def)
  have ok: "list_all (\<lambda>e. json_ok (snd e)) m" using assms doc by simp
  then have okd: "list_all (\<lambda>e. json_ok (snd e)) (fst d)" by (simp add: d_def dropped_members_ok)
  note ft = first_type_facts [OF okd, where ver = ver, folded t_def]
  show ?thesis
  proof (cases "snd d \<or> snd t")
    case False
    with drop_members_facts(2) ft(1) have "fst t = m" by (auto simp: d_def)
    with False e amend_members_exact [OF ok, of ver] show ?thesis by (simp add: doc(1) amended_attrs_def)
  next
    case True
    have "amended_attrs ver (fst t) \<noteq> m"
    proof (cases "snd t")
      case True
      have "bm_get (fst d) ''type'' = bm_get m ''type''"
        using entity_newer_no_type by (simp add: d_def drop_members_facts(3))
      with ft(2) [OF True] have "bm_get (amended_attrs ver (fst t)) ''type'' \<noteq> bm_get m ''type''"
        by (simp only: amended_attrs_meta [OF type_meta] not_False_eq_True)
      then show ?thesis by metis
    next
      case False
      with \<open>snd d \<or> snd t\<close> have "snd d" by simp
      from drop_members_facts(1) [OF this [unfolded d_def]] obtain k where k: "k \<in> set (entity_newer ver)" "bm_get m k \<noteq> None" by blast
      then have "bm_get (fst t) k = None" using ft(1) [OF False] by (simp add: d_def drop_members_facts(3))
      with k(2) have "bm_get (amended_attrs ver (fst t)) k \<noteq> bm_get m k"
        unfolding amended_attrs_meta [OF entity_newer_meta [OF k(1)]] by (simp add: eq_commute)
      then show ?thesis by metis
    qed
    with True e doc(1) show ?thesis by auto
  qed
qed (cases doc; simp add: amend_entity_def)

lemma amend_entity_twice:
  assumes "json_ok doc" "flat_type doc"
  shows "amend_entity ver (fst (amend_entity ver doc)) = (fst (amend_entity ver doc), False)"
proof (cases "\<exists>m. doc = JObj m \<and> ver_lt ver NATIVE")
  case True
  then obtain m where doc: "doc = JObj m" "ver_lt ver NATIVE" by blast
  define d where "d = drop_members (entity_newer ver) m"
  define t where "t = first_type ver (fst d)"
  define r where "r = amended_attrs ver (fst t)"
  have e: "fst (amend_entity ver doc) = JObj r"
    using doc by (simp add: amend_entity_obj Let_def d_def t_def r_def amended_attrs_def)
  have ok: "list_all (\<lambda>e. json_ok (snd e)) m" using assms doc by simp
  then have okd: "list_all (\<lambda>e. json_ok (snd e)) (fst d)" by (simp add: d_def dropped_members_ok)
  note ft = first_type_facts [OF okd, where ver = ver, folded t_def]
  have meta: "bm_get r k = bm_get (fst t) k" if "k \<in> set ENTITY_META_KEYS" for k
    using that by (simp add: r_def amended_attrs_meta)
  have "bm_get r k = None" if k: "k \<in> set (entity_newer ver)" for k
  proof -
    from k entity_newer_no_type have "k \<noteq> ''type''" by metis
    with k meta [OF entity_newer_meta [OF k]] ft(3) show ?thesis by (simp add: d_def drop_members_facts(3))
  qed
  with drop_members_facts(1) [of "entity_newer ver" r] have d2: "\<not> snd (drop_members (entity_newer ver) r)" by metis
  have "flat_type (JObj (fst d))"
    using assms(2) entity_newer_no_type by (simp add: doc(1) flat_type_def d_def drop_members_facts(3))
  from ft(5) [OF this meta [OF type_meta]] have t2: "\<not> snd (first_type ver r)" .
  have tw: "amended_attrs ver r = r" unfolding r_def by (rule amend_members_twice [OF ft(4)])
  moreover have "list_all (\<lambda>e. json_ok (snd e)) r" unfolding r_def by (rule amended_attrs_ok [OF ft(4)])
  ultimately have a2: "\<not> snd (amend_members ver r)" "fst (amend_members ver r) = r"
    using amend_members_exact [of r ver] by (simp_all add: amended_attrs_def)
  have "fst (drop_members (entity_newer ver) r) = r" by (rule drop_members_facts(2) [OF d2])
  moreover have "fst (first_type ver r) = r" using t2 by (auto simp: first_type_def split: option.splits json.splits list.splits)
  ultimately show ?thesis using e d2 t2 a2 doc(2) by (simp add: amend_entity_obj Let_def)
qed (use assms in \<open>cases doc; simp add: amend_entity_def\<close>)

end
