(* ===== verification/Forward.thy ===== *)
theory Forward
  imports Fed Conformance Compact ExpandSpec Egress
begin

text \<open>
  Forwarding one request to a registered source (\<open>forward\<close> of \<open>antares-api/src/federation.rs\<close>) and the distributed
  reads over it.  The network is the parameter \<open>fe_send\<close>; what it gets is the whole request, so what leaves the
  broker can be stated.
\<close>

record http_req =
  rq_method :: string
  rq_url :: string
  rq_query :: "(string \<times> string) list"
  rq_headers :: "(string \<times> string) list"
  rq_body :: "json option"
  rq_deadline :: nat

datatype outcome =
    TimedOut
  | Unreachable
  | Responded nat json "string list"  \<comment> \<open>status, body after \<open>read_body_capped\<close>, \<open>NGSILD-Warning\<close> values\<close>

record 'g fed_env =
  fe_env :: "'g env"
  fe_host_alias :: string
  fe_subjects :: "string list"
  fe_allowed :: "string \<Rightarrow> bool"                  \<comment> \<open>the egress policy's \<open>check_url\<close>\<close>
  fe_dest :: "string \<Rightarrow> string option"            \<comment> \<open>host and port of a URL\<close>
  fe_send :: "http_req \<Rightarrow> outcome"
  fe_ceiling :: nat
  fe_now :: nat

subsection \<open>URLs\<close>

definition hex_upper :: "nat \<Rightarrow> char" where
  "hex_upper n = (if n < 10 then char_of (48 + n) else char_of (55 + n))"

definition pct_encode :: "(char \<Rightarrow> bool) \<Rightarrow> string \<Rightarrow> string" where
  "pct_encode keep s = concat (map (\<lambda>c. if is_alnum c \<or> keep c then [c]
     else [CHR ''%'', hex_upper (of_char c div 16), hex_upper (of_char c mod 16)]) s)"

definition path_segment :: "string \<Rightarrow> string" where
  "path_segment s = pct_encode (\<lambda>c. c \<in> set (''-._~!$&()*+,;=:@'' @ [CHR 0x27])) s"

fun split_at_str :: "string \<Rightarrow> string \<Rightarrow> (string \<times> string) option" where
  "split_at_str p [] = (if p = [] then Some ([], []) else None)"
| "split_at_str p (x # xs) = (case strip_prefix p (x # xs) of
     Some r \<Rightarrow> Some ([], r) | None \<Rightarrow> map_option (\<lambda>(a, b). (x # a, b)) (split_at_str p xs))"

text \<open>The URL before the attribute's segment, the segment, and the URL after it.\<close>

definition path_attr_segment :: "string \<Rightarrow> (string \<times> string \<times> string) option" where
  "path_attr_segment url =
     (let path = takeWhile (\<lambda>c. c \<noteq> CHR ''?'') url; tail = dropWhile (\<lambda>c. c \<noteq> CHR ''?'') url in
      case split_at_str ''/attrs/'' path of
        None \<Rightarrow> None
      | Some (a, rest) \<Rightarrow>
         (let seg = takeWhile (\<lambda>c. c \<noteq> CHR ''/'') rest in
          if seg = [] then None else Some (a @ ''/attrs/'', seg, dropWhile (\<lambda>c. c \<noteq> CHR ''/'') rest @ tail)))"

subsection \<open>The registered context\<close>

definition csi_get :: "fed_reg \<Rightarrow> string \<Rightarrow> string option" where
  "csi_get r k = map_option snd (List.find (\<lambda>e. eq_ignore_case (fst e) k) (fr_csi r))"

definition has_reg_context :: "fed_reg \<Rightarrow> bool" where
  "has_reg_context r \<longleftrightarrow> list_ex (\<lambda>e. eq_ignore_case (fst e) ''jsonldContext'') (fr_csi r)"

text \<open>The URL with its attribute translated; \<open>None\<close> when the request cannot be put in the registered context.
  \<open>True\<close> says that the path names an attribute.\<close>

definition swap_path :: "jctx \<Rightarrow> jctx \<Rightarrow> string \<Rightarrow> (bool \<times> string) option" where
  "swap_path orig target url = (case path_attr_segment url of
     None \<Rightarrow> Some (False, url)
   | Some (pre, seg, post) \<Rightarrow> (case expand_attr_name orig (percent_decode seg) of
        Err _ \<Rightarrow> None
      | Ok i \<Rightarrow> (let t = compact_iri target i in
          if has_dot_segment t then None else Some (True, pre @ path_segment t @ post))))"

definition without_context :: "json \<Rightarrow> json" where
  "without_context v = (case v of JObj m \<Rightarrow> JObj (bm_remove ''@context'' m) | _ \<Rightarrow> v)"

definition forward_opts :: "jobj \<Rightarrow> expand_opts" where
  "forward_opts m = \<lparr>opt_fragment = (bm_get m ''id'' = None), opt_allow_null = True, opt_merge = True, opt_temporal = True, opt_sys = True\<rparr>"

text \<open>The body in the registered context; \<open>None\<close> when it cannot be put there.\<close>

definition translate_body :: "lib \<Rightarrow> jctx \<Rightarrow> jctx \<Rightarrow> bool \<Rightarrow> json option \<Rightarrow> json option option" where
  "translate_body L orig target attr_path body = (case body of
     None \<Rightarrow> Some None
   | Some v \<Rightarrow> (case as_object v of
        None \<Rightarrow> None
      | Some m \<Rightarrow>
          if attr_path then (case expand_attr_fragment L orig m of
              Err _ \<Rightarrow> None | Ok e \<Rightarrow> Some (Some (without_context (compact_instance target e))))
          else if jget_str m ''type'' = Some ''Query'' then Some (Some v)
          else (case expand_entity L orig (forward_opts m) m of
              Err _ \<Rightarrow> None | Ok e \<Rightarrow> Some (Some (without_context (compact_entity target e))))))"

definition translate_query :: "jctx \<Rightarrow> jctx \<Rightarrow> string \<times> string \<Rightarrow> string \<times> string" where
  "translate_query orig target e = (case e of (k, v) \<Rightarrow>
     (k, if k = ''attrs'' \<or> k = ''type'' \<or> k = ''geoproperty''
         then join '','' (map (\<lambda>t. compact_iri target (expand_key orig (trim t))) (split_on (\<lambda>c. c = CHR '','') v)) else v))"

record fwd_parts =
  fp_url :: string
  fp_query :: "(string \<times> string) list"
  fp_body :: "json option"
  fp_link :: string

definition switch_context :: "lib \<Rightarrow> jctx \<Rightarrow> jctx \<Rightarrow> string \<Rightarrow> fwd_parts \<Rightarrow> fwd_parts" where
  "switch_context L orig target reg_ctx p = (case swap_path orig target (fp_url p) of
     None \<Rightarrow> p
   | Some (attr_path, url) \<Rightarrow> (case translate_body L orig target attr_path (fp_body p) of
        None \<Rightarrow> p
      | Some body \<Rightarrow> \<lparr>fp_url = url, fp_query = map (translate_query orig target) (fp_query p), fp_body = body, fp_link = reg_ctx\<rparr>))"

definition local_query :: "fed_reg \<Rightarrow> (string \<times> string) list \<Rightarrow> (string \<times> string) list" where
  "local_query r q = (if fr_local_only r \<and> ''local'' \<notin> fst ` set q then q @ [(''local'', ''true'')] else q)"

definition conforming_body :: "fed_reg \<Rightarrow> json option \<Rightarrow> json option" where
  "conforming_body r body = (case Option.bind (csi_get r ''ngsildConformance'') parse_version of
     None \<Rightarrow> body | Some ver \<Rightarrow> map_option (\<lambda>b. fst (amend_payload ver b)) body)"

definition in_reg_context :: "'g env \<Rightarrow> string \<Rightarrow> fed_reg \<Rightarrow> string \<Rightarrow> fwd_parts \<Rightarrow> fwd_parts" where
  "in_reg_context V tn r ctx_url p = (case csi_get r ''jsonldContext'' of
     None \<Rightarrow> p
   | Some u \<Rightarrow> (case (e_resolve V tn (JStr ctx_url), e_resolve V tn (JStr u)) of
        (Some orig, Some target) \<Rightarrow> switch_context (e_lib V) orig target u p
      | _ \<Rightarrow> p))"

subsection \<open>Headers\<close>

definition CSI_SKIP :: "string list" where
  "CSI_SKIP = [''ngsild-tenant'', ''content-length'', ''content-type'', ''host'', ''via'', ''link'', ''connection'',
     ''accept'', ''contenttype'', ''jsonldcontext'', ''ngsildconformance'']"

definition csi_header :: "string list \<Rightarrow> http_headers \<Rightarrow> string \<times> string \<Rightarrow> (string \<times> string) option" where
  "csi_header subjects hs e = (case e of (k, v) \<Rightarrow>
     (let l = to_ascii_lowercase k in
      if l \<in> set CSI_SKIP \<or> l \<in> set subjects then None
      else if v = ''urn:ngsi-ld:request''
      then map_option (Pair k) (Option.bind (map_option snd (List.find (\<lambda>h. fst h = l) hs)) (\<lambda>x. x))
      else Some (k, v)))"

definition link_header :: "string \<Rightarrow> string" where
  "link_header u = ''<'' @ u @ ''>; rel='' @ [CHR 0x22] @ ''http://www.w3.org/ns/json-ld#context'' @ [CHR 0x22] @ ''; type='' @
     [CHR 0x22] @ ''application/ld+json'' @ [CHR 0x22]"

definition inline_context :: "lib \<Rightarrow> string \<Rightarrow> json option" where
  "inline_context L u = (if starts_with ''['' u \<or> starts_with ''{'' u then from_json L u else None)"

definition with_context :: "json \<Rightarrow> json \<Rightarrow> json" where
  "with_context v b = (case b of JObj m \<Rightarrow> JObj (bm_insert ''@context'' v m) | _ \<Rightarrow> b)"

definition body_part :: "fed_reg \<Rightarrow> json option \<Rightarrow> string \<Rightarrow> json \<Rightarrow> json \<times> string" where
  "body_part r inl link_ctx b = (case inl of
     Some ic \<Rightarrow> (with_context ic b, ''application/ld+json'')
   | None \<Rightarrow>
       if csi_get r ''contentType'' = Some ''application/ld+json'' \<and> csi_get r ''jsonldContext'' = None
       then (with_context (JStr link_ctx) b, ''application/ld+json'')
       else (b, ''application/json''))"

definition tenant_header :: "fed_reg \<Rightarrow> (string \<times> string) list" where
  "tenant_header r = (case fr_tenant r of
     None \<Rightarrow> [] | Some t \<Rightarrow> if t = ''default'' then [] else [(''NGSILD-Tenant'', t)])"

definition compose :: "'g fed_env \<Rightarrow> string \<Rightarrow> http_headers \<Rightarrow> fed_reg \<Rightarrow> string \<Rightarrow> string \<Rightarrow> string \<Rightarrow> (string \<times> string) list \<Rightarrow> json option \<Rightarrow> http_req" where
  "compose F tn hs r ctx_url method url query body =
     (let p = in_reg_context (fe_env F) tn r ctx_url
            \<lparr>fp_url = url, fp_query = local_query r query, fp_body = conforming_body r body, fp_link = ctx_url\<rparr>;
          inl = inline_context (e_lib (fe_env F)) (fp_link p);
          b = map_option (body_part r inl (fp_link p)) (fp_body p)
      in \<lparr>rq_method = method, rq_url = fp_url p, rq_query = fp_query p,
          rq_headers =
            [(''Accept'', case csi_get r ''accept'' of None \<Rightarrow> ''application/json'' | Some a \<Rightarrow> a),
             (''Via'', outbound_via hs (alias_for (fe_host_alias F) tn))] @
            (if inl = None then [(''Link'', link_header (fp_link p))] else []) @
            tenant_header r @ List.map_filter (csi_header (fe_subjects F) hs) (fr_csi r) @
            (case b of None \<Rightarrow> [] | Some (_, ty) \<Rightarrow> [(''Content-Type'', ty)]),
          rq_body = map_option fst b,
          rq_deadline = (case fr_timeout r of None \<Rightarrow> fe_ceiling F | Some t \<Rightarrow> min t (fe_ceiling F))\<rparr>)"

subsection \<open>The exchange\<close>

definition MAX_PEER_WARNINGS :: nat where "MAX_PEER_WARNINGS = 8"

text \<open>\<open>note_forward\<close>: the cooldown of the registration.  The counters it writes to the store are left out.\<close>

definition note_forward :: "nat \<Rightarrow> string \<Rightarrow> fed_reg \<Rightarrow> bool \<Rightarrow> egress \<Rightarrow> egress" where
  "note_forward now tn r ok e = (if fr_cooldown r \<noteq> None then reg_record now (reg_key tn (fr_id r)) ok e else e)"

definition settle :: "'g fed_env \<Rightarrow> string \<Rightarrow> fed_reg \<Rightarrow> string \<Rightarrow> outcome \<Rightarrow> egress \<Rightarrow> (nat \<times> json \<times> string list) \<times> egress" where
  "settle F tn r url res e = (let key = breaker_key (fe_dest F) tn url; now = fe_now F in case res of
     TimedOut \<Rightarrow> ((504, JNull, []), note_forward now tn r False (record_failure now key e))
   | Unreachable \<Rightarrow> ((503, JNull, []), note_forward now tn r False (record_success key e))
   | Responded st body warns \<Rightarrow>
       ((st, body, take MAX_PEER_WARNINGS warns), note_forward now tn r (200 \<le> st \<and> st < 300) (record_success key e)))"

definition forward :: "'g fed_env \<Rightarrow> string \<Rightarrow> http_headers \<Rightarrow> fed_reg \<Rightarrow> string \<Rightarrow> string \<Rightarrow> string \<Rightarrow> (string \<times> string) list \<Rightarrow> json option
    \<Rightarrow> egress \<Rightarrow> (nat \<times> json \<times> string list) \<times> egress" where
  "forward F tn hs r ctx_url method url query body e =
     (if \<not> fe_allowed F url then ((502, JNull, []), e)
      else (case is_open (fe_now F) (breaker_key (fe_dest F) tn url) e of
        (True, e) \<Rightarrow> ((503, JNull, []), e)
      | (False, e) \<Rightarrow>
          if (case fr_cooldown r of None \<Rightarrow> False | Some cd \<Rightarrow> reg_in_cooldown (fe_now F) (reg_key tn (fr_id r)) cd e)
          then ((504, JNull, []), e)
          else (let q = compose F tn hs r ctx_url method url query body in settle F tn r (rq_url q) (fe_send F q) e)))"

subsection \<open>Distributed reads\<close>

text \<open>The forwards run side by side in the code and their results come back in the order of the registrations; here
  they run one after the other.\<close>

primrec fan_out :: "('r \<Rightarrow> egress \<Rightarrow> 'a \<times> egress) \<Rightarrow> 'r list \<Rightarrow> egress \<Rightarrow> ('r \<times> 'a) list \<times> egress" where
  "fan_out f [] e = ([], e)"
| "fan_out f (r # rs) e = (case f r e of (a, e) \<Rightarrow> (case fan_out f rs e of (as, e) \<Rightarrow> ((r, a) # as, e)))"

definition sys_query :: "(string \<times> string) list" where
  "sys_query = [(''options'', ''sysAttrs'')]"

definition split_entities :: "string bmap \<Rightarrow> bool" where
  "split_entities ps \<longleftrightarrow> bm_get ps ''splitEntities'' = Some ''true''"

definition entity_url :: "fed_reg \<Rightarrow> string \<Rightarrow> string" where
  "entity_url r i = fr_endpoint r @ ''/ngsi-ld/v1/entities/'' @ path_segment i"

definition scope_type :: "jctx \<Rightarrow> fed_reg \<Rightarrow> string option" where
  "scope_type c r = (case fr_types r of [] \<Rightarrow> None | t # _ \<Rightarrow> Some (compact_iri c t))"

definition retrieve_one :: "'g fed_env \<Rightarrow> string \<Rightarrow> http_headers \<Rightarrow> jctx \<Rightarrow> string \<Rightarrow> string \<Rightarrow> fed_reg \<Rightarrow> egress \<Rightarrow> (nat \<times> json \<times> string list) \<times> egress" where
  "retrieve_one F tn hs c ctx_url i r e =
     (let query = sys_query @ scope_attrs c r in case read_op r of
        None \<Rightarrow> ((0, JNull, []), e)
      | Some oper \<Rightarrow>
          if oper = ''retrieveEntity'' then forward F tn hs r ctx_url ''GET'' (entity_url r i) query None e
          else if oper = ''queryEntity''
          then forward F tn hs r ctx_url ''GET'' (fr_endpoint r @ ''/ngsi-ld/v1/entities'')
                 (query @ [(''type'', case scope_type c r of None \<Rightarrow> ''*'' | Some t \<Rightarrow> t), (''id'', i)]) None e
          else forward F tn hs r ctx_url ''POST'' (fr_endpoint r @ ''/ngsi-ld/v1/entityOperations/query'') query
                 (Some (mkobj [(''entities'', JArr [mkobj ((case scope_type c r of None \<Rightarrow> [] | Some t \<Rightarrow> [(''type'', JStr t)]) @ [(''id'', JStr i)])]),
                    (''type'', JStr ''Query'')])) e)"

definition invalid_payload :: "string \<Rightarrow> string" where
  "invalid_payload al = warning 111 al ''the payload of the response was invalid''"

text \<open>Of one answer: the documents kept, with whether the source is auxiliary, and the warnings raised.\<close>

definition import_each :: "'g fed_env \<Rightarrow> string \<Rightarrow> jctx \<Rightarrow> fed_reg \<Rightarrow> json list \<Rightarrow> (bool \<times> json) list \<times> string list" where
  "import_each F al c r items =
     (List.map_filter (\<lambda>v. map_option (Pair (fr_mode r = ''auxiliary'')) (import_entity (e_lib (fe_env F)) c r v)) items,
      map (\<lambda>v. invalid_payload al) (filter (\<lambda>v. import_entity (e_lib (fe_env F)) c r v = None) items))"

definition answer_items :: "(json \<Rightarrow> bool) \<Rightarrow> json \<Rightarrow> bool \<Rightarrow> json list" where
  "answer_items keep body single = (case body of
     JArr xs \<Rightarrow> filter keep xs
   | JObj _ \<Rightarrow> if single \<and> keep body then [body] else []
   | _ \<Rightarrow> [])"

definition read_answer :: "'g fed_env \<Rightarrow> string \<Rightarrow> jctx \<Rightarrow> (fed_reg \<Rightarrow> json \<Rightarrow> bool) \<Rightarrow> bool \<Rightarrow> fed_reg \<times> nat \<times> json \<times> string list
    \<Rightarrow> (bool \<times> json) list \<times> string list" where
  "read_answer F al c keep single a = (case a of (r, st, body, peer) \<Rightarrow>
     (case usable_payload al st body peer of (usable, ws) \<Rightarrow>
        if \<not> usable then ([], ws)
        else (case import_each F al c r (answer_items (keep r) body single) of (docs, ws') \<Rightarrow> (docs, ws @ ws'))))"

definition collect_answers :: "((bool \<times> json) list \<times> string list) list \<Rightarrow> (bool \<times> json) list \<times> string list" where
  "collect_answers as = (concat (map fst as), concat (map snd as))"

definition fed_retrieve :: "'g fed_env \<Rightarrow> doc_mirror \<Rightarrow> string \<Rightarrow> http_headers \<Rightarrow> jctx \<Rightarrow> string \<Rightarrow> string \<Rightarrow> json option \<Rightarrow> string option
    \<Rightarrow> egress \<Rightarrow> ((bool \<times> json) list \<times> string list) \<times> egress" where
  "fed_retrieve F m tn hs c ctx_url i emap except e =
     (let regs = filter (\<lambda>r. read_op r \<noteq> None) (List.map_filter (map_gate emap i)
            (filter (\<lambda>r. except \<noteq> Some (fr_id r)) (matching_regs (fe_env F) m tn (default_spec\<lparr>cs_ids := Some [i]\<rparr>) c hs)))
      in case fan_out (retrieve_one F tn hs c ctx_url i) regs e of (as, e) \<Rightarrow>
        (collect_answers (map (read_answer F (alias_for (fe_host_alias F) tn) c (\<lambda>r v. sub_str v ''id'' = Some i) True) as), e))"

definition forwarded_ids :: "(string \<Rightarrow> bool) builder \<Rightarrow> fed_reg \<Rightarrow> string bmap \<Rightarrow> string option" where
  "forwarded_ids B r ps = (case bm_get ps ''id'' of
     Some ids \<Rightarrow> (let keep = filter (\<lambda>i. can_match_id B r (trim i)) (split_on (\<lambda>c. c = CHR '','') ids)
                  in if keep = [] then None else Some (join '','' keep))
   | None \<Rightarrow> if \<not> fr_unrestricted r \<and> fr_patterns r = [] \<and> fr_ids r \<noteq> [] then Some (join '','' (fr_ids r)) else None)"

definition forwarded_attrs :: "jctx \<Rightarrow> fed_reg \<Rightarrow> string bmap \<Rightarrow> string option" where
  "forwarded_attrs c r ps = (case fr_attrs r of
     Some as \<Rightarrow> Some (join '','' (map (compact_iri c) as)) | None \<Rightarrow> bm_get ps ''attrs'')"

definition pushed :: "fed_reg \<Rightarrow> string bmap \<Rightarrow> string \<Rightarrow> string option" where
  "pushed r ps k = (if split_entities ps \<or> has_reg_context r then None else bm_get ps k)"

definition opt_pair :: "string \<Rightarrow> 'a option \<Rightarrow> (string \<times> 'a) list" where
  "opt_pair k v = (case v of None \<Rightarrow> [] | Some x \<Rightarrow> [(k, x)])"

definition batch_selector :: "string bmap \<Rightarrow> string option \<Rightarrow> jobj" where
  "batch_selector ps ids = bm_of_list (opt_pair ''type'' (map_option JStr (bm_get ps ''type'')) @
     (case ids of
        Some l \<Rightarrow> [(''id'', if CHR '','' \<in> set l then JArr (map JStr (split_on (\<lambda>c. c = CHR '','') l)) else JStr l)]
      | None \<Rightarrow> opt_pair ''idPattern'' (map_option JStr (bm_get ps ''idPattern''))))"

definition geo_member :: "lib \<Rightarrow> string \<Rightarrow> string \<Rightarrow> json" where
  "geo_member L k v = (if k = ''coordinates'' then (case from_json L v of Some x \<Rightarrow> x | None \<Rightarrow> JStr v) else JStr v)"

definition batch_body :: "lib \<Rightarrow> fed_reg \<Rightarrow> string bmap \<Rightarrow> string option \<Rightarrow> string option \<Rightarrow> json" where
  "batch_body L r ps ids as =
     (let sel = batch_selector ps ids;
          geo = bm_of_list (concat (map (\<lambda>k. opt_pair k (map_option (geo_member L k) (pushed r ps k)))
                  [''georel'', ''geometry'', ''coordinates'', ''geoproperty'']))
      in mkobj ([(''type'', JStr ''Query'')] @ (if sel = [] then [] else [(''entities'', JArr [JObj sel])]) @
           opt_pair ''attrs'' (map_option (\<lambda>a. JArr (map JStr (split_on (\<lambda>c. c = CHR '','') a))) as) @
           opt_pair ''q'' (map_option JStr (pushed r ps ''q'')) @ opt_pair ''scopeQ'' (map_option JStr (pushed r ps ''scopeQ'')) @
           (if geo = [] then [] else [(''geoQ'', JObj geo)])))"

definition entity_query :: "fed_reg \<Rightarrow> string bmap \<Rightarrow> string option \<Rightarrow> string option \<Rightarrow> (string \<times> string) list" where
  "entity_query r ps ids as = sys_query @ opt_pair ''type'' (bm_get ps ''type'') @
     (case ids of Some l \<Rightarrow> [(''id'', l)] | None \<Rightarrow> opt_pair ''idPattern'' (bm_get ps ''idPattern'')) @ opt_pair ''attrs'' as @
     concat (map (\<lambda>k. opt_pair k (pushed r ps k)) [''q'', ''georel'', ''geometry'', ''coordinates'', ''geoproperty'', ''scopeQ''])"

definition query_one :: "'g fed_env \<Rightarrow> string \<Rightarrow> http_headers \<Rightarrow> jctx \<Rightarrow> string \<Rightarrow> string bmap \<Rightarrow> fed_reg \<Rightarrow> egress \<Rightarrow> (nat \<times> json \<times> string list) \<times> egress" where
  "query_one F tn hs c ctx_url ps r e =
     (let ids = forwarded_ids (e_builder (fe_env F)) r ps; as = forwarded_attrs c r ps in case query_op r of
        None \<Rightarrow> ((0, JNull, []), e)
      | Some oper \<Rightarrow>
          if oper = ''queryBatch''
          then forward F tn hs r ctx_url ''POST'' (fr_endpoint r @ ''/ngsi-ld/v1/entityOperations/query'') sys_query
                 (Some (batch_body (e_lib (fe_env F)) r ps ids as)) e
          else forward F tn hs r ctx_url ''GET'' (fr_endpoint r @ ''/ngsi-ld/v1/entities'') (entity_query r ps ids as) None e)"

definition fed_query :: "'g fed_env \<Rightarrow> doc_mirror \<Rightarrow> string \<Rightarrow> http_headers \<Rightarrow> jctx \<Rightarrow> string \<Rightarrow> string bmap \<Rightarrow> egress
    \<Rightarrow> ((bool \<times> json) list \<times> string list) \<times> egress" where
  "fed_query F m tn hs c ctx_url ps e =
     (let V = fe_env F; spec = query_spec (e_lib V) (e_geo V) c ps;
          regs = filter (\<lambda>r. query_op r \<noteq> None) (matching_regs V m tn spec c hs)
      in case fan_out (query_one F tn hs c ctx_url ps) regs e of (as, e) \<Rightarrow>
        (collect_answers (map (read_answer F (alias_for (fe_host_alias F) tn) c
           (\<lambda>r v. case sub_str v ''id'' of None \<Rightarrow> False | Some i \<Rightarrow> admits_import (e_builder V) r spec i) False) as), e))"

subsection \<open>A peer's answer stays within its registration\<close>

definition within_reg :: "fed_reg \<Rightarrow> string \<Rightarrow> json \<Rightarrow> bool" where
  "within_reg r i d \<longleftrightarrow> (\<exists>m. d = JObj m \<and> bm_get m ''id'' = Some (JStr i) \<and>
     (\<forall>e\<in>set m. fst e \<in> set ENTITY_META_KEYS \<or> covers_attr r (fst e)))"

lemma narrow_within:
  assumes "narrow_to_scope r (JObj m) = Some d" "bm_get m ''id'' = Some (JStr i)"
  shows "within_reg r i d"
proof (cases "fr_attrs r")
  case None
  then show ?thesis using assms by (auto simp: within_reg_def narrow_to_scope_def covers_attr_def)
next
  case (Some as)
  have "''id'' \<in> set ENTITY_META_KEYS" by (simp add: ENTITY_META_KEYS_def)
  then have "bm_get (filter (\<lambda>e. fst e \<in> set ENTITY_META_KEYS \<or> fst e \<in> set as) m) ''id'' = bm_get m ''id''"
    by (induction m) (auto simp: bm_get_def)
  with Some assms show ?thesis by (auto simp: within_reg_def narrow_to_scope_def covers_attr_def)
qed

lemma import_within:
  assumes "import_entity L c r v = Some d" "sub_str v ''id'' = Some i"
  shows "within_reg r i d"
proof -
  obtain m where v: "v = JObj m" using assms(2) by (cases v) (auto simp: sub_str_def)
  then obtain e where e: "expand_entity L c import_opts (bm_remove ''@context'' m) = Inr e" "narrow_to_scope r e = Some d"
    using assms(1) by (auto simp: import_entity_def import_with_def split: sum.splits)
  have "get_or (bm_remove ''@context'' m) ''id'' ''@id'' = Some (JStr i)"
    using assms(2) by (simp add: v get_or_def sub_str_def json_simps split: Option.bind_split_asm)
  from entity_result_id [OF e(1) this] obtain x where "e = JObj x" "bm_get x ''id'' = Some (JStr i)" by (cases e) auto
  then show ?thesis using e(2) narrow_within by blast
qed

lemma items_kept: "v \<in> set (answer_items keep body single) \<Longrightarrow> keep v"
  by (auto simp: answer_items_def split: json.splits if_splits)

lemma answer_within:
  assumes "(aux, d) \<in> set (fst (read_answer F al c keep single (r, st, body, peer)))"
    and "\<And>v. keep r v \<Longrightarrow> \<exists>i. sub_str v ''id'' = Some i \<and> P i"
  shows "aux = (fr_mode r = ''auxiliary'') \<and> (\<exists>i. P i \<and> within_reg r i d)"
proof -
  have "(aux, d) \<in> set (fst (import_each F al c r (answer_items (keep r) body single)))"
    using assms(1) by (auto simp: read_answer_def split: prod.splits if_splits)
  then obtain v where v: "v \<in> set (answer_items (keep r) body single)" "import_entity (e_lib (fe_env F)) c r v = Some d"
    "aux = (fr_mode r = ''auxiliary'')"
    by (auto simp: import_each_def set_map_filter)
  with assms(2) [OF items_kept [OF v(1)]] import_within [OF v(2)] show ?thesis by blast
qed

lemma fan_out_Cons:
  "fst (fan_out f (q # qs) e) = (q, fst (f q e)) # fst (fan_out f qs (snd (f q e)))"
  by (simp split: prod.split)

lemma fan_out_regs: "(r, a) \<in> set (fst (fan_out f rs e)) \<Longrightarrow> r \<in> set rs"
  by (induction rs arbitrary: e) (auto simp: fan_out_Cons simp del: fan_out.simps(2))

lemma collected: "x \<in> set (fst (collect_answers as)) \<longleftrightarrow> (\<exists>a\<in>set as. x \<in> set (fst a))"
  by (auto simp: collect_answers_def)

lemma query_within:
  assumes "(aux, d) \<in> set (fst (fst (fed_query F m tn hs c ctx_url ps e)))"
    and spec: "spec = query_spec (e_lib (fe_env F)) (e_geo (fe_env F)) c ps"
  shows "\<exists>r\<in>set (matching_regs (fe_env F) m tn spec c hs). query_op r \<noteq> None \<and> aux = (fr_mode r = ''auxiliary'') \<and>
    (\<exists>i. admits_import (e_builder (fe_env F)) r spec i \<and> within_reg r i d)"
proof -
  obtain r st body peer where a: "(r, st, body, peer) \<in> set (fst (fan_out (query_one F tn hs c ctx_url ps)
        (filter (\<lambda>r. query_op r \<noteq> None) (matching_regs (fe_env F) m tn spec c hs)) e))"
    "(aux, d) \<in> set (fst (read_answer F (alias_for (fe_host_alias F) tn) c
       (\<lambda>r v. case sub_str v ''id'' of None \<Rightarrow> False | Some i \<Rightarrow> admits_import (e_builder (fe_env F)) r spec i) False (r, st, body, peer)))"
    using assms(1) unfolding fed_query_def Let_def spec [symmetric] by (auto simp: collected split: prod.splits)
  from fan_out_regs [OF a(1)] have r: "r \<in> set (matching_regs (fe_env F) m tn spec c hs)" "query_op r \<noteq> None" by auto
  have "aux = (fr_mode r = ''auxiliary'') \<and> (\<exists>i. admits_import (e_builder (fe_env F)) r spec i \<and> within_reg r i d)"
    by (rule answer_within [OF a(2)]) (simp split: option.splits)
  with r show ?thesis by blast
qed

lemma retrieve_within:
  assumes "(aux, d) \<in> set (fst (fst (fed_retrieve F m tn hs c ctx_url i emap except e)))"
  shows "\<exists>r. \<exists>q\<in>set (matching_regs (fe_env F) m tn (default_spec\<lparr>cs_ids := Some [i]\<rparr>) c hs). map_gate emap i q = Some r \<and>
    except \<noteq> Some (fr_id q) \<and> read_op r \<noteq> None \<and> aux = (fr_mode r = ''auxiliary'') \<and> within_reg r i d"
proof -
  obtain r st body peer where a: "(r, st, body, peer) \<in> set (fst (fan_out (retrieve_one F tn hs c ctx_url i)
        (filter (\<lambda>r. read_op r \<noteq> None) (List.map_filter (map_gate emap i)
            (filter (\<lambda>r. except \<noteq> Some (fr_id r)) (matching_regs (fe_env F) m tn (default_spec\<lparr>cs_ids := Some [i]\<rparr>) c hs)))) e))"
    "(aux, d) \<in> set (fst (read_answer F (alias_for (fe_host_alias F) tn) c (\<lambda>r v. sub_str v ''id'' = Some i) True (r, st, body, peer)))"
    using assms by (auto simp: fed_retrieve_def Let_def collected split: prod.splits)
  have "aux = (fr_mode r = ''auxiliary'') \<and> (\<exists>j. j = i \<and> within_reg r j d)"
    by (rule answer_within [OF a(2)]) simp
  with fan_out_regs [OF a(1)] show ?thesis by (auto simp: set_map_filter)
qed

subsection \<open>What leaves the broker\<close>

definition OWN_HEADERS :: "string list" where
  "OWN_HEADERS = [''Accept'', ''Via'', ''Link'', ''NGSILD-Tenant'', ''Content-Type'']"

lemma csi_header_kept:
  "csi_header subjects hs e = Some (k, v) \<Longrightarrow> k = fst e \<and> to_ascii_lowercase k \<notin> set CSI_SKIP \<and> to_ascii_lowercase k \<notin> set subjects"
  by (cases e) (auto simp: csi_header_def Let_def split: if_splits)

lemma composed_header:
  assumes "(k, v) \<in> set (rq_headers (compose F tn hs r ctx_url method url query body))"
  shows "k \<in> set OWN_HEADERS \<or> (k \<in> fst ` set (fr_csi r) \<and> to_ascii_lowercase k \<notin> set CSI_SKIP \<and> to_ascii_lowercase k \<notin> set (fe_subjects F))"
  using assms
  by (auto simp: compose_def Let_def OWN_HEADERS_def tenant_header_def set_map_filter dest!: csi_header_kept split: option.splits if_splits)

lemma composed_tenant:
  assumes "(k, v) \<in> set (rq_headers (compose F tn hs r ctx_url method url query body))" "to_ascii_lowercase k = ''ngsild-tenant''"
  shows "fr_tenant r = Some v \<and> v \<noteq> ''default''"
  using assms
  by (auto simp: compose_def Let_def CSI_SKIP_def tenant_header_def set_map_filter to_ascii_lowercase_def
      dest!: csi_header_kept split: option.splits if_splits)

lemma composed_via:
  "map_of (rq_headers (compose F tn hs r ctx_url method url query body)) ''Via'' = Some (outbound_via hs (alias_for (fe_host_alias F) tn))"
  by (simp add: compose_def Let_def)

text \<open>A Query body keeps its terms while the request moves to the registered context, which then expands them.\<close>

lemma batch_body_is_query: "\<exists>m. batch_body L r ps ids as = JObj m \<and> jget_str m ''type'' = Some ''Query''"
proof -
  have later: "bm_get (fold (\<lambda>e. bm_insert (fst e) (snd e)) ys m) k = bm_get m k" if "k \<notin> fst ` set ys" for ys m and k :: string
    using that by (induction ys arbitrary: m) (auto simp: bm_get_insert)
  show ?thesis
    by (simp add: batch_body_def Let_def mkobj_def bm_of_list_def jget_str_def)
       (subst later, auto simp: opt_pair_def bm_get_def split: option.split if_splits)
qed

lemma query_body_untranslated:
  assumes "path_attr_segment (fp_url p) = None" "fp_body p = Some (batch_body L' r ps ids as)"
  shows "fp_body (switch_context L orig target u p) = fp_body p \<and> fp_link (switch_context L orig target u p) = u"
  using batch_body_is_query [of L' r ps ids as] assms
  by (auto simp: switch_context_def swap_path_def translate_body_def)

end
