(* ===== verification/SamplesFed.thy ===== *)
theory SamplesFed
  imports SamplesApi Forward
begin

text \<open>A registered peer and its answers, and documents of several versions, for the witnesses about federation.\<close>

definition sample_peer_entity :: json where
  "sample_peer_entity = JObj [(''id'', JStr ''urn:car''), (''type'', JStr ''x:C''), (''x:s'', jint 5)]"

definition peer_lib :: lib where
  "peer_lib = \<lparr>base = sample_ext, from_json = (\<lambda>_. None), to_json = (\<lambda>_. []), uni_alphabetic = (\<lambda>_. False), uni_numeric = (\<lambda>_. False)\<rparr>"

definition peer_env :: "json env" where
  "peer_env = \<lparr>e_lib = peer_lib, e_geo = sample_geo, e_builder = sample_builder,
     e_clock = \<lparr>now_iso = ''2026-01-01T00:00:00Z'', now_ns = 0\<rparr>, e_core = empty_ctx, e_resolve = (\<lambda>_ _. None), e_get = (\<lambda>_ _. None)\<rparr>"

definition sample_fed :: "json fed_env" where
  "sample_fed = \<lparr>fe_env = peer_env, fe_host_alias = ''antares'', fe_subjects = [''x-user''], fe_allowed = (\<lambda>_. True),
     fe_dest = Some, fe_send = (\<lambda>_. Responded 200 (JArr [sample_peer_entity]) []), fe_ceiling = 8000, fe_now = 0\<rparr>"

definition sample_peer_reg :: json where
  "sample_peer_reg = mkobj [(''endpoint'', JStr ''http://peer''), (''id'', JStr ''urn:peer''), (''information'', JArr [mkobj [(''entities'',
     JArr [mkobj [(''type'', JStr ''x:C'')]])]])]"

definition sample_peers :: doc_mirror where
  "sample_peers = registered [(''city'', ''urn:peer'', Some sample_peer_reg)]"


definition peer_compiled :: fed_reg where
  "peer_compiled = \<lparr>fr_id = ''urn:peer'', fr_endpoint = ''http://peer'', fr_mode = ''inclusive'', fr_ops = [''federationOps''],
     fr_attrs = None, fr_ids = [], fr_types = [''x:C''], fr_patterns = [],
     fr_unrestricted = True, fr_tenant = None, fr_alias = None, fr_csi = [], fr_local_only = False, fr_timeout = None, fr_cooldown = None\<rparr>"

definition peer_spec :: "json csr_spec" where
  "peer_spec = query_spec peer_lib sample_geo empty_ctx [(''type'', ''x:C'')]"

lemma peer_docs: "reg_docs sample_peers ''city'' empty_ctx peer_spec = [sample_peer_reg]"
  by code_simp

lemma peer_candidate:
  "reg_candidate peer_env empty_ctx peer_spec [] sample_peer_reg = Some (array_or_empty (jget sample_peer_reg ''information''))"
  by code_simp

lemma peer_is_compiled: "compiled sample_peer_reg (array_or_empty (jget sample_peer_reg ''information'')) = peer_compiled"
  by code_simp

lemma no_via: "via_hops [] = 0" "via_tokens [] = []"
  by (simp_all add: via_hops_def via_tokens_def inbound_via_def via_fields_def List.map_filter_def)

lemma peer_matching: "matching_regs peer_env sample_peers ''city'' peer_spec empty_ctx [] = [peer_compiled]"
proof -
  have "sub_str sample_peer_reg ''endpoint'' \<noteq> None" by code_simp
  then show ?thesis
    by (simp add: matching_regs_def no_via peer_docs peer_candidate peer_is_compiled List.map_filter_def merge_same_source_def)
qed

lemma peer_queryop: "query_op peer_compiled = Some ''queryEntity''"
  by code_simp

lemma peer_import:
  "import_entity peer_lib empty_ctx peer_compiled sample_peer_entity = Some (JObj
     [(''id'', JStr ''urn:car''), (''type'', JArr [JStr ''x:C'']), (''x:s'', JArr [inst_obj ''Property'' (jint 5)])])"
  by code_simp

lemma new_closed: "is_open 0 k new_egress = (False, new_egress)"
  by (simp add: is_open_def new_egress_def bm_get_def)

lemma peer_answer:
  "fst (query_one sample_fed ''city'' [] empty_ctx ctx_url [(''type'', ''x:C'')] peer_compiled new_egress) = (200, JArr [sample_peer_entity], [])"
proof -
  have "fe_allowed sample_fed u" "fe_send sample_fed q = Responded 200 (JArr [sample_peer_entity]) []" "fe_now sample_fed = 0" for u q
    by (simp_all add: sample_fed_def)
  moreover have "fr_cooldown peer_compiled = None" by (simp add: peer_compiled_def)
  ultimately show ?thesis
    by (simp add: query_one_def peer_queryop Let_def forward_def new_closed settle_def note_forward_def)
qed

lemma peer_read:
  "\<exists>d. (False, d) \<in> set (fst (fst (fed_query sample_fed sample_peers ''city'' [] empty_ctx ctx_url [(''type'', ''x:C'')] new_egress)))"
proof -
  have F: "fe_env sample_fed = peer_env" "e_lib peer_env = peer_lib" "e_geo peer_env = sample_geo" "e_builder peer_env = sample_builder"
    by (simp_all add: sample_fed_def peer_env_def)
  have id: "sub_str sample_peer_entity ''id'' = Some ''urn:car''" by code_simp
  have adm: "admits_import sample_builder peer_compiled peer_spec ''urn:car''"
    by (simp add: admits_import_def can_match_id_def peer_compiled_def)
  have mode: "fr_mode peer_compiled \<noteq> ''auxiliary''" by (simp add: peer_compiled_def)
  obtain e where one: "query_one sample_fed ''city'' [] empty_ctx ctx_url [(''type'', ''x:C'')] peer_compiled new_egress =
      ((200, JArr [sample_peer_entity], []), e)"
    using peer_answer [of ctx_url] by (cases "query_one sample_fed ''city'' [] empty_ctx ctx_url [(''type'', ''x:C'')] peer_compiled new_egress") auto
  show ?thesis
    by (simp add: fed_query_def Let_def F peer_spec_def [symmetric] peer_matching peer_queryop one collect_answers_def read_answer_def
        usable_payload_def answer_items_def id adm import_each_def peer_import List.map_filter_def mode)
qed

subsection \<open>Versions of a document\<close>

definition dated :: "string \<Rightarrow> json" where
  "dated t = JObj [(''modifiedAt'', JStr t)]"

definition one_version :: "string \<Rightarrow> json" where
  "one_version t = JObj [(''x:s'', JArr [dated t])]"

lemma version_ok:
  "json_ok (one_version t)" "holds_list (one_version t) ''x:s''" "holds_list (JObj [(''x:s'', JArr [dated t])]) ''x:s''"
  by (simp_all add: one_version_def dated_def bm_ok_def holds_list_def one_each_def bm_get_def)

lemma version_insts:
  "insts_of (JObj [(''x:s'', JArr [dated t])]) ''x:s'' = [dated t]" "push_down_expires (one_version t) = one_version t"
  "insts_of (one_version t) ''x:s'' = [dated t]"
  by (simp_all add: one_version_def insts_of_def array_or_empty_def push_down_expires_def jget_str_def bm_get_def)

definition newer_doc :: json where
  "newer_doc = JObj [(''expiresAt'', JStr ''2030-01-01T00:00:00Z''), (''id'', JStr ''urn:car''), (''type'', JArr [JStr ''x:C'', JStr ''x:D''])]"

lemma newer_doc_ok: "json_ok newer_doc" "flat_type newer_doc"
  by (simp_all add: newer_doc_def bm_ok_def flat_type_def bm_get_def)

end
