(* ===== verification/Patch.thy ===== *)
theory Patch
  imports Fed MemStore
begin

text \<open>
  The writes on a stored entity: the stamps of a write (\<open>antares-api/src/stamp.rs\<close>), the merge patch of an entity
  (\<open>entities.rs\<close>) and the attribute operations (\<open>attrs.rs\<close>), as functions of the stored document.
\<close>

subsection \<open>Stamps\<close>

definition stamp_members :: "string \<Rightarrow> jobj \<Rightarrow> jobj" where
  "stamp_members ts m = bm_insert ''modifiedAt'' (JStr ts) (bm_insert ''createdAt'' (JStr ts) m)"

lemma stamp_members_sub: "(k, v) \<in> set (stamp_members ts m) \<Longrightarrow> is_array v \<Longrightarrow> (k, v) \<in> set m"
  by (auto simp: stamp_members_def dest!: set_bm_insert)

function stamp_instances :: "string \<Rightarrow> json \<Rightarrow> json" where
  "stamp_instances ts (JArr xs) = JArr (map (\<lambda>i. case i of
     JObj m \<Rightarrow> JObj (map (\<lambda>e. (fst e, if is_array (snd e) \<and> fst e \<notin> set RESERVED_MEMBERS then stamp_instances ts (snd e) else snd e))
                 (stamp_members ts m))
   | _ \<Rightarrow> i) xs)"
| "stamp_instances ts JNull = JNull"
| "stamp_instances ts (JBool b) = JBool b"
| "stamp_instances ts (JNum n) = JNum n"
| "stamp_instances ts (JStr s) = JStr s"
| "stamp_instances ts (JObj m) = JObj m"
  by pat_completeness auto
termination
proof (relation "measure (\<lambda>(ts, v). size v)", goal_cases)
  case (2 ts xs i m e)
  then have "(fst e, snd e) \<in> set m" using stamp_members_sub [of "fst e" "snd e" ts m] by simp
  from size_json_entry [OF this] size_list_estimation' [OF 2(1), of "size i" size] 2(2) show ?case by simp
qed simp

definition stamp_new :: "string \<Rightarrow> json \<Rightarrow> json" where
  "stamp_new ts doc = (case doc of
     JObj m \<Rightarrow> JObj (bm_map (\<lambda>k v. if is_meta k then v else stamp_instances ts v) (stamp_members ts m))
   | _ \<Rightarrow> doc)"

subsection \<open>Merge patch\<close>

definition common_observed_at :: "string \<Rightarrow> json \<Rightarrow> json" where
  "common_observed_at ts i =
     (if is_deletion_instance i then i
      else (case i of JObj m \<Rightarrow> if bm_get m ''observedAt'' = None then JObj (bm_insert ''observedAt'' (JStr ts) m) else i | _ \<Rightarrow> i))"

definition on_instances :: "(string \<Rightarrow> bool) \<Rightarrow> (json \<Rightarrow> json) \<Rightarrow> json \<Rightarrow> json" where
  "on_instances P f doc = (case doc of
     JObj m \<Rightarrow> JObj (bm_map (\<lambda>k v. if is_meta k \<or> \<not> P k then v else (case v of JArr xs \<Rightarrow> JArr (map f xs) | _ \<Rightarrow> v)) m)
   | _ \<Rightarrow> doc)"

definition apply_common_observed_at :: "string option \<Rightarrow> json \<Rightarrow> json" where
  "apply_common_observed_at obs frag = (case obs of None \<Rightarrow> frag | Some ts \<Rightarrow> on_instances (\<lambda>_. True) (common_observed_at ts) frag)"

definition common_lang :: "string \<Rightarrow> json \<Rightarrow> json" where
  "common_lang l i =
     (if is_deletion_instance i then i
      else (case i of
         JObj m \<Rightarrow> (case jget_str m ''value'' of
             None \<Rightarrow> i
           | Some s \<Rightarrow> JObj (bm_insert ''languageMap'' (JObj [(l, JStr s)])
                (bm_insert ''type'' (JStr ''LanguageProperty'') (bm_remove ''value'' m))))
       | _ \<Rightarrow> i))"

definition has_langmap :: "json \<Rightarrow> string \<Rightarrow> bool" where
  "has_langmap doc k = list_ex (\<lambda>i. jget i ''languageMap'' \<noteq> None) (insts_of doc k)"

definition apply_common_lang :: "json \<Rightarrow> string option \<Rightarrow> json \<Rightarrow> json" where
  "apply_common_lang target l frag = (case l of None \<Rightarrow> frag | Some l \<Rightarrow> on_instances (has_langmap target) (common_lang l) frag)"

definition removal :: "json \<Rightarrow> bool" where
  "removal v \<longleftrightarrow> v = JNull \<or> is_ngsi_null v"

function merge_value_object :: "jobj \<Rightarrow> jobj \<Rightarrow> jobj" where
  "merge_value_object t p = fold (\<lambda>e t. case e of (k, v) \<Rightarrow>
     if removal v then bm_remove k t
     else (case (bm_get t k, v) of
        (Some (JObj cur), JObj po) \<Rightarrow> bm_insert k (JObj (merge_value_object cur po)) t
      | _ \<Rightarrow> bm_insert k v t)) p t"
  by pat_completeness auto
termination
proof (relation "measure (\<lambda>(t, p). size (JObj p))", goal_cases)
  case (2 t p e t' k v)
  then have "(k, v) \<in> set p" by simp
  from size_json_entry [OF this] 2 show ?case by auto
qed simp

declare merge_value_object.simps [simp del]

text \<open>The instance of a dataset in a list of instances.\<close>

fun ds_pos :: "string option \<Rightarrow> json list \<Rightarrow> nat option" where
  "ds_pos ds [] = None"
| "ds_pos ds (x # xs) = (if inst_str x ''datasetId'' = ds then Some 0 else map_option Suc (ds_pos ds xs))"

definition remove_at :: "nat \<Rightarrow> 'a list \<Rightarrow> 'a list" where
  "remove_at p xs = take p xs @ drop (Suc p) xs"

definition patch_instance :: "string \<Rightarrow> json \<Rightarrow> json \<Rightarrow> json" where
  "patch_instance ts frag target = (case (target, frag) of
     (JObj t, JObj f) \<Rightarrow> JObj (bm_insert ''modifiedAt'' (JStr ts) (fold (\<lambda>(k, v) t.
       if k = ''createdAt'' \<or> k = ''modifiedAt'' then t
       else if removal v then bm_remove k t
       else (case (bm_get t k, v) of
          (Some (JObj cur), JObj patch) \<Rightarrow> bm_insert k (JObj (merge_value_object cur patch)) t
        | _ \<Rightarrow> bm_insert k v t)) f t))
   | _ \<Rightarrow> target)"

definition stamped_instance :: "string \<Rightarrow> json \<Rightarrow> json" where
  "stamped_instance ts i = (case i of JObj m \<Rightarrow> JObj (stamp_members ts m) | _ \<Rightarrow> i)"

definition merge_one :: "string \<Rightarrow> json \<Rightarrow> json list \<Rightarrow> json list" where
  "merge_one ts fi cur = (case ds_pos (inst_str fi ''datasetId'') cur of
     Some p \<Rightarrow> if is_deletion_instance fi then remove_at p cur else cur[p := patch_instance ts fi (cur ! p)]
   | None \<Rightarrow> if is_deletion_instance fi then cur else cur @ [stamped_instance ts fi])"

definition union_values :: "json list \<Rightarrow> json list \<Rightarrow> json list" where
  "union_values new cur = fold (\<lambda>t cur. if t \<in> set cur then cur else cur @ [t]) new cur"

definition merge_entry :: "string \<Rightarrow> string \<times> json \<Rightarrow> jobj \<Rightarrow> jobj" where
  "merge_entry ts e target = (case e of (k, v) \<Rightarrow>
     if k \<in> {''id'', ''createdAt'', ''modifiedAt''} then target
     else if k = ''type'' then bm_insert ''type'' (JArr (union_values (array_or_empty (Some v)) (array_or_empty (bm_get target ''type'')))) target
     else if k = ''scope'' then (if is_ngsi_null_list v then bm_remove ''scope'' target else bm_insert ''scope'' v target)
     else if k = ''expiresAt'' then (if is_ngsi_null v then bm_remove ''expiresAt'' target else bm_insert ''expiresAt'' v target)
     else (let cur = fold (merge_one ts) (array_or_empty (Some v)) (array_or_empty (bm_get target k)) in
           if cur = [] then bm_remove k target else bm_insert k (JArr cur) target))"

definition merge_into :: "string \<Rightarrow> json \<Rightarrow> json \<Rightarrow> json" where
  "merge_into ts frag doc = (case (doc, frag) of
     (JObj target, JObj f) \<Rightarrow> JObj (bm_insert ''modifiedAt'' (JStr ts) (fold (merge_entry ts) f target))
   | _ \<Rightarrow> doc)"

subsection \<open>Attribute operations\<close>

definition replaced_instance :: "json \<Rightarrow> json \<Rightarrow> json" where
  "replaced_instance old new = (case (jget old ''createdAt'', new) of
     (Some c, JObj m) \<Rightarrow> JObj (bm_insert ''createdAt'' c m) | _ \<Rightarrow> new)"

definition set_one :: "bool \<Rightarrow> json \<Rightarrow> json list \<times> bool \<Rightarrow> json list \<times> bool" where
  "set_one no_overwrite ni s = (case s of (cur, done) \<Rightarrow> (case ds_pos (inst_str ni ''datasetId'') cur of
     Some p \<Rightarrow>
       if is_deletion_instance ni then (remove_at p cur, True)
       else if no_overwrite then s
       else (cur[p := replaced_instance (cur ! p) ni], True)
   | None \<Rightarrow> if is_deletion_instance ni then s else (cur @ [ni], True)))"

definition merge_instance_sets :: "bool \<Rightarrow> json \<Rightarrow> json \<Rightarrow> json \<times> bool" where
  "merge_instance_sets no_overwrite incoming existing = (case (existing, incoming) of
     (JArr cur, JArr inc) \<Rightarrow> map_prod JArr id (fold (set_one no_overwrite) inc (cur, False))
   | _ \<Rightarrow> (existing, False))"

definition is_fragment_meta :: "string \<Rightarrow> bool" where
  "is_fragment_meta k \<longleftrightarrow> k \<in> {''id'', ''type'', ''scope'', ''createdAt'', ''modifiedAt''}"

text \<open>What a write has done: the document, the names updated, and those not updated with the reason.\<close>

type_synonym write_state = "jobj \<times> string list \<times> (string \<times> string) list"

definition add_types :: "jobj \<Rightarrow> write_state \<Rightarrow> write_state" where
  "add_types frag s = (case s of (target, up, no) \<Rightarrow> (case Option.bind (bm_get frag ''type'') as_array of
     None \<Rightarrow> s
   | Some new \<Rightarrow> (let cur = array_or_empty (bm_get target ''type''); all = union_values new cur in
       if length cur < length all then (bm_insert ''type'' (JArr all) target, up @ [''type''], no) else s)))"

definition append_scope :: "bool \<Rightarrow> jobj \<Rightarrow> write_state \<Rightarrow> write_state" where
  "append_scope no_overwrite frag s = (case s of (target, up, no) \<Rightarrow> (case bm_get frag ''scope'' of
     None \<Rightarrow> s
   | Some new \<Rightarrow>
       if bm_get target ''scope'' \<noteq> None \<and> no_overwrite
       then (let cur = array_or_empty (bm_get target ''scope''); all = union_values (array_or_empty (Some new)) cur in
             if length cur < length all then (bm_insert ''scope'' (JArr all) target, up @ [''scope''], no) else s)
       else (bm_insert ''scope'' new target, up @ [''scope''], no)))"

definition append_attr :: "bool \<Rightarrow> string \<Rightarrow> string \<times> json \<Rightarrow> write_state \<Rightarrow> write_state" where
  "append_attr no_overwrite ts e s = (case (e, s) of ((k, v), (target, up, no)) \<Rightarrow>
     if is_fragment_meta k then s
     else (let incoming = stamp_instances ts v in (case bm_get target k of
         None \<Rightarrow> (bm_insert k incoming target, up @ [k], no)
       | Some existing \<Rightarrow> (case merge_instance_sets no_overwrite incoming existing of (merged, done) \<Rightarrow>
           if done then (bm_insert k merged target, up @ [k], no)
           else (bm_insert k merged target, up, no @ [(k, ''attribute already exists (noOverwrite)'')])))))"

definition append_fragment :: "bool \<Rightarrow> string \<Rightarrow> jobj \<Rightarrow> write_state \<Rightarrow> write_state" where
  "append_fragment no_overwrite ts frag s = fold (append_attr no_overwrite ts) frag (append_scope no_overwrite frag s)"

definition update_scope :: "jobj \<Rightarrow> write_state \<Rightarrow> write_state" where
  "update_scope frag s = (case s of (target, up, no) \<Rightarrow> (case bm_get frag ''scope'' of
     None \<Rightarrow> s
   | Some new \<Rightarrow> if bm_get target ''scope'' \<noteq> None then (bm_insert ''scope'' new target, up @ [''scope''], no)
                 else (target, up, no @ [(''scope'', ''entity has no scope'')])))"

definition update_attr :: "string \<Rightarrow> string \<times> json \<Rightarrow> write_state \<Rightarrow> write_state" where
  "update_attr ts e s = (case (e, s) of ((k, v), (target, up, no)) \<Rightarrow>
     if is_fragment_meta k then s
     else (let incoming = stamp_instances ts v in (case bm_get target k of
         None \<Rightarrow> (let live = filter (\<lambda>i. \<not> is_deletion_instance i) (array_or_empty (Some incoming)) in
                   (if live = [] then target else bm_insert k (JArr live) target, up @ [k], no))
       | Some existing \<Rightarrow> (let merged = fst (merge_instance_sets False incoming existing) in
           (if merged = JArr [] then bm_remove k target else bm_insert k merged target, up @ [k], no)))))"

definition update_fragment :: "string \<Rightarrow> jobj \<Rightarrow> write_state \<Rightarrow> write_state" where
  "update_fragment ts frag s = fold (update_attr ts) frag (update_scope frag s)"

subsection \<open>One attribute\<close>

definition not_an_object :: ngsi_error where
  "not_an_object = InternalError ''stored document is not a JSON object''"

definition matches_type_param :: "jctx \<Rightarrow> string bmap \<Rightarrow> json \<Rightarrow> bool" where
  "matches_type_param c ps doc = (case bm_get ps ''type'' of
     None \<Rightarrow> True
   | Some sel \<Rightarrow> sel = ''*'' \<or> type_selection_matches c sel (List.map_filter as_str (array_or_empty (jget doc ''type''))))"

definition type_refused :: "string \<Rightarrow> ngsi_error" where
  "type_refused i = ResourceNotFound (''entity '' @ i @ '' does not match the type selector'')"

text \<open>A closure of \<open>mutate\<close>: what it reports and the document it leaves.\<close>

definition on_target :: "jctx \<Rightarrow> string bmap \<Rightarrow> string \<Rightarrow> (jobj \<Rightarrow> ('a \<times> jobj) ngsi_result) \<Rightarrow> json \<Rightarrow> ('a \<times> json) ngsi_result" where
  "on_target c ps i f doc =
     (if \<not> matches_type_param c ps doc then Err (type_refused i)
      else (case doc of JObj m \<Rightarrow> map_sum id (map_prod id JObj) (f m) | _ \<Rightarrow> Err not_an_object))"

definition touch_entity :: "string \<Rightarrow> jobj \<Rightarrow> jobj" where
  "touch_entity ts m = bm_insert ''modifiedAt'' (JStr ts) m"

definition type_differs :: "json \<Rightarrow> json \<Rightarrow> bool" where
  "type_differs f e \<longleftrightarrow> (case (inst_str f ''type'', inst_str e ''type'') of (Some a, Some b) \<Rightarrow> a \<noteq> b | _ \<Rightarrow> False)"

definition type_text :: "json \<Rightarrow> string" where
  "type_text i = (case inst_str i ''type'' of None \<Rightarrow> [] | Some t \<Rightarrow> t)"

definition partial_instance :: "string \<Rightarrow> json \<Rightarrow> json \<Rightarrow> json ngsi_result" where
  "partial_instance ts frag old =
     (if type_differs frag old
      then Err (BadRequestData (''attribute type mismatch: '' @ type_text frag @ '' != '' @ type_text old @ '' (5.6.4)''))
      else (case (old, frag) of
         (JObj t, JObj f) \<Rightarrow> Ok (JObj (touch_entity ts (fold (\<lambda>(k, v) t.
             if k = ''createdAt'' \<or> k = ''modifiedAt'' then t
             else if removal v then bm_remove k t else bm_insert k v t) f t)))
       | (JObj _, _) \<Rightarrow> Err (InternalError ''expanded document is not a JSON object'')
       | _ \<Rightarrow> Err not_an_object))"

text \<open>An attribute set to a list of instances, or gone when the list is empty.\<close>

definition put_instances :: "string \<Rightarrow> json list \<Rightarrow> jobj \<Rightarrow> jobj" where
  "put_instances k xs m = (if xs = [] then bm_remove k m else bm_insert k (JArr xs) m)"

definition partial_update :: "string \<Rightarrow> string \<Rightarrow> json \<Rightarrow> jobj \<Rightarrow> (bool \<times> jobj) ngsi_result" where
  "partial_update ts a frag target = (case bm_get target a of
     Some (JArr xs) \<Rightarrow> (case ds_pos (inst_str frag ''datasetId'') xs of
         None \<Rightarrow> Ok (False, put_instances a xs target)
       | Some p \<Rightarrow>
           if is_deletion_instance frag then Ok (True, touch_entity ts (put_instances a (remove_at p xs) target))
           else and_then (partial_instance ts frag (xs ! p)) (\<lambda>i.
                  Ok (True, touch_entity ts (put_instances a (xs[p := i]) target))))
   | _ \<Rightarrow> Ok (False, target))"

definition replacing :: "string \<Rightarrow> json \<Rightarrow> json \<Rightarrow> json" where
  "replacing ts new old = (case new of
     JObj m \<Rightarrow> JObj (bm_insert ''modifiedAt'' (JStr ts)
       (bm_insert ''createdAt'' (case jget old ''createdAt'' of Some c \<Rightarrow> c | None \<Rightarrow> JStr ts) m))
   | _ \<Rightarrow> new)"

definition replace_attribute :: "string \<Rightarrow> string \<Rightarrow> json \<Rightarrow> jobj \<Rightarrow> (bool \<times> jobj) ngsi_result" where
  "replace_attribute ts a new target = (case bm_get target a of
     Some (JArr xs) \<Rightarrow> (case ds_pos (inst_str new ''datasetId'') xs of
         None \<Rightarrow> Ok (False, target)
       | Some p \<Rightarrow> Ok (True, touch_entity ts (bm_insert a (JArr (xs[p := replacing ts new (xs ! p)])) target)))
   | _ \<Rightarrow> Ok (False, target))"

definition delete_attribute :: "string \<Rightarrow> string \<Rightarrow> bool \<Rightarrow> string option \<Rightarrow> jobj \<Rightarrow> (bool \<times> jobj) ngsi_result" where
  "delete_attribute ts a all ds target =
     (if a = ''scope'' then
        (if bm_get target ''scope'' \<noteq> None then Ok (True, touch_entity ts (bm_remove ''scope'' target)) else Ok (False, target))
      else (case bm_get target a of
         Some (JArr xs) \<Rightarrow>
           (let r = (if all then (xs \<noteq> [], [])
                     else (case ds_pos ds xs of Some p \<Rightarrow> (True, remove_at p xs) | None \<Rightarrow> (False, xs)));
                m = put_instances a (snd r) target
            in Ok (fst r, if fst r then touch_entity ts m else m))
       | _ \<Rightarrow> Ok (False, target)))"

definition replace_document :: "json \<Rightarrow> json \<Rightarrow> json" where
  "replace_document new old = (case (new, jget old ''createdAt'') of
     (JObj m, Some created) \<Rightarrow> JObj (bm_insert ''createdAt'' created m) | _ \<Rightarrow> new)"

text \<open>\<open>Untouched\<close> carries the names not updated, which the code keeps outside the closure.\<close>

datatype unwritten = WFailed ngsi_error | WUntouched "(string \<times> string) list"

text \<open>The closure of \<open>write_attrs\<close>; \<open>merge\<close> is the algorithm of the clause.\<close>

definition write_fragment :: "jctx \<Rightarrow> string bmap \<Rightarrow> string \<Rightarrow> string \<Rightarrow> (jobj \<Rightarrow> write_state \<Rightarrow> write_state) \<Rightarrow> json \<Rightarrow> json
    \<Rightarrow> (unwritten, (string list \<times> (string \<times> string) list) \<times> json) result" where
  "write_fragment c ps i ts merge fragment doc =
     (if \<not> matches_type_param c ps doc then Inl (WFailed (type_refused i))
      else (case doc of
         JObj target \<Rightarrow> (case fragment of
             JObj frag \<Rightarrow> (case merge frag (add_types frag (target, [], [])) of (m, up, no) \<Rightarrow>
                 if up = [] then Inl (WUntouched no) else Inr ((up, no), JObj (touch_entity ts m)))
           | _ \<Rightarrow> Inl (WFailed (InternalError ''expanded document is not a JSON object'')))
       | _ \<Rightarrow> Inl (WFailed not_an_object)))"

end
