(* ===== verification/Writes.thy ===== *)
theory Writes
  imports Patch Forward
begin

text \<open>
  The distributed writes: which part of a document stays and which is forwarded (\<open>antares-api/src/federation.rs\<close>), and
  the handlers that create, merge, replace and delete an entity (\<open>entities.rs\<close>) or write its attributes
  (\<open>attrs.rs\<close>), from the parsed request to the answer.  The policy engine's verdict is the parameter \<open>nd_gate\<close>; the
  temporal history these handlers keep beside the entity is left out.
\<close>

record 'g broker_node =
  nd_fed :: "'g fed_env"
  nd_codec :: codec
  nd_mirror :: doc_mirror
  nd_gate :: "string \<Rightarrow> json \<Rightarrow> bool"

text \<open>A request after its body and \<open>@context\<close> are parsed.\<close>

record call_info =
  ca_tenant :: string
  ca_headers :: http_headers
  ca_params :: "string bmap"
  ca_ctx :: jctx
  ca_url :: string

record world =
  w_store :: store
  w_egress :: egress

datatype reply =
    Done nat
  | Problem nat string string      \<comment> \<open>status, error type, detail\<close>
  | Listed nat "string list"       \<comment> \<open>status, the ids\<close>
  | Multi json
  | Refused ngsi_error
  | Forbidden

abbreviation nd_env :: "'g broker_node \<Rightarrow> 'g env" where "nd_env N \<equiv> fe_env (nd_fed N)"
abbreviation nd_lib :: "'g broker_node \<Rightarrow> lib" where "nd_lib N \<equiv> e_lib (nd_env N)"
abbreviation nd_ext :: "'g broker_node \<Rightarrow> ext" where "nd_ext N \<equiv> base (nd_lib N)"
abbreviation nd_now :: "'g broker_node \<Rightarrow> string" where "nd_now N \<equiv> now_iso (e_clock (nd_env N))"
abbreviation nd_build :: "'g broker_node \<Rightarrow> (string \<Rightarrow> bool) builder" where "nd_build N \<equiv> e_builder (nd_env N)"

subsection \<open>Parts of a distributed write\<close>

record write_part =
  pt_status :: nat
  pt_detail :: string

definition part_ok :: "write_part \<Rightarrow> bool" where
  "part_ok p \<longleftrightarrow> 200 \<le> pt_status p \<and> pt_status p < 300 \<and> pt_status p \<noteq> 207"

definition contains_text :: "string \<Rightarrow> string \<Rightarrow> bool" where
  "contains_text p s \<longleftrightarrow> split_at_str p s \<noteq> None"

definition part_error :: "write_part \<Rightarrow> string" where
  "part_error p = (if pt_status p = 409 then (if contains_text ''does not accept'' (pt_detail p) then ''Conflict'' else ''AlreadyExists'')
     else if pt_status p = 404 then ''ResourceNotFound'' else ''InternalError'')"

text \<open>\<open>StatusCode::from_u16\<close> takes 100 to 999; anything else is answered as 502.\<close>

definition combine :: "write_part list \<Rightarrow> reply \<Rightarrow> reply" where
  "combine parts ok =
     (if list_all part_ok parts then ok
      else (case parts of
         [p] \<Rightarrow> Problem (if 100 \<le> pt_status p \<and> pt_status p < 1000 then pt_status p else 502) (part_error p) (pt_detail p)
       | _ \<Rightarrow> Multi (mkobj [(''success'', JArr (map (\<lambda>p. JStr (pt_detail p)) (filter part_ok parts))),
           (''errors'', JArr (map (\<lambda>p. mkobj [(''error'', mkobj [(''status'', jint (int (pt_status p))),
              (''type'', JStr ''https://uri.etsi.org/ngsi-ld/errors/InternalError''),
              (''title'', JStr ''distributed operation failed''), (''detail'', JStr (pt_detail p))])])
            (filter (\<lambda>p. \<not> part_ok p) parts)))])))"

definition loop_508 :: reply where
  "loop_508 = Problem 508 ''InternalError'' ''the Via chain already contains this broker''"

definition conflict_part :: "string \<Rightarrow> write_part" where
  "conflict_part oper = \<lparr>pt_status = 409, pt_detail = ''exclusive registration does not accept '' @ oper\<rparr>"

definition frame_member :: "string \<Rightarrow> bool" where
  "frame_member k \<longleftrightarrow> k \<in> {''id'', ''type'', ''scope''}"

definition reduce_to_scope :: "(string \<Rightarrow> bool) builder \<Rightarrow> jctx \<Rightarrow> fed_reg \<Rightarrow> jobj \<Rightarrow> json option" where
  "reduce_to_scope B c r obj =
     (if \<not> covers_item B c r obj then None
      else if fr_attrs r = None then Some (JObj (bm_remove ''@context'' obj))
      else (let covered = (\<lambda>e. fst e \<noteq> ''@context'' \<and> \<not> frame_member (fst e) \<and> covers_attr r (expand_key c (fst e))) in
        if list_ex covered obj
        then Some (JObj (filter (\<lambda>e. (fst e \<noteq> ''@context'' \<and> frame_member (fst e)) \<or> covered e) obj)) else None))"

definition proxied :: "(string \<Rightarrow> bool) builder \<Rightarrow> jctx \<Rightarrow> fed_reg list \<Rightarrow> jobj \<Rightarrow> string \<Rightarrow> bool" where
  "proxied B c proxies obj k \<longleftrightarrow> list_ex (\<lambda>r. covers_item B c r obj \<and> covers_attr r (expand_key c k)) proxies"

definition strip_proxied :: "(string \<Rightarrow> bool) builder \<Rightarrow> jctx \<Rightarrow> fed_reg list \<Rightarrow> jobj \<Rightarrow> jobj \<times> bool" where
  "strip_proxied B c proxies obj =
     (let kept = (\<lambda>e. fst e \<noteq> ''@context'' \<and> \<not> frame_member (fst e) \<and> \<not> proxied B c proxies obj (fst e)) in
      (filter (\<lambda>e. (fst e \<noteq> ''@context'' \<and> frame_member (fst e)) \<or> kept e) obj, list_ex kept obj))"

definition strip_covered_expanded :: "fed_reg list \<Rightarrow> json \<Rightarrow> json" where
  "strip_covered_expanded regs f = (case f of
     JObj m \<Rightarrow> JObj (filter (\<lambda>e. is_fragment_meta (fst e) \<or> \<not> list_ex (\<lambda>r. is_proxy r \<and> covers_attr r (fst e)) regs) m)
   | _ \<Rightarrow> f)"

definition write_regs :: "'g broker_node \<Rightarrow> call_info \<Rightarrow> 'g csr_spec \<Rightarrow> fed_reg list" where
  "write_regs N a spec =
     (if \<not> fed_active (ca_params a) then []
      else filter (\<lambda>r. fr_mode r \<noteq> ''auxiliary'')
             (matching_regs (nd_env N) (nd_mirror N) (ca_tenant a) spec (ca_ctx a) (ca_headers a)))"

text \<open>\<open>None\<close>: the loop is the answer.\<close>

definition write_plan :: "'g broker_node \<Rightarrow> call_info \<Rightarrow> 'g csr_spec \<Rightarrow> fed_reg list option" where
  "write_plan N a spec =
     (case handle_via_loop (ca_headers a) (alias_for (fe_host_alias (nd_fed N)) (ca_tenant a)) (write_regs N a spec) of
        (True, _) \<Rightarrow> None | (False, regs) \<Rightarrow> Some regs)"

definition PASSED_STATUS :: "nat list" where
  "PASSED_STATUS = [207, 404, 409, 504, 508]"

definition forward_part :: "'g broker_node \<Rightarrow> call_info \<Rightarrow> fed_reg \<Rightarrow> string \<Rightarrow> string \<Rightarrow> (string \<times> string) list \<Rightarrow> json option
    \<Rightarrow> egress \<Rightarrow> write_part \<times> egress" where
  "forward_part N a r method url query body e =
     (case forward (nd_fed N) (ca_tenant a) (ca_headers a) r (ca_url a) method url query body e of
        ((st, _, _), e) \<Rightarrow>
          (\<lparr>pt_status = (if is_proxy r \<and> \<not> (200 \<le> st \<and> st < 300) \<and> st \<notin> set PASSED_STATUS then 502 else st),
            pt_detail = ''distributed operation to registration '' @ fr_id r @ '' returned '' @ decimal st\<rparr>, e))"

text \<open>The loop over the registrations of an entity operation; \<open>send\<close> forwards to one of them.\<close>

primrec entity_parts :: "string \<Rightarrow> (fed_reg \<Rightarrow> egress \<Rightarrow> write_part list \<times> egress) \<Rightarrow> fed_reg list \<Rightarrow> egress \<Rightarrow> write_part list \<times> egress" where
  "entity_parts oper send [] e = ([], e)"
| "entity_parts oper send (r # rs) e =
     (case (if supports r oper then send r e else ((if is_proxy r then [conflict_part oper] else []), e)) of
        (ps, e) \<Rightarrow> (case entity_parts oper send rs e of (qs, e) \<Rightarrow> (ps @ qs, e)))"

definition entities_url :: "fed_reg \<Rightarrow> string" where
  "entities_url r = fr_endpoint r @ ''/ngsi-ld/v1/entities''"

definition send_reduced :: "'g broker_node \<Rightarrow> call_info \<Rightarrow> string \<Rightarrow> (fed_reg \<Rightarrow> string) \<Rightarrow> (string \<times> string) list \<Rightarrow> jobj
    \<Rightarrow> fed_reg \<Rightarrow> egress \<Rightarrow> write_part list \<times> egress" where
  "send_reduced N a method url query obj r e = (case reduce_to_scope (nd_build N) (ca_ctx a) r obj of
     None \<Rightarrow> ([], e)
   | Some frag \<Rightarrow> map_prod (\<lambda>p. [p]) id (forward_part N a r method (url r) query (Some frag) e))"

subsection \<open>Entities\<close>

definition default_opts :: expand_opts where
  "default_opts = \<lparr>opt_fragment = False, opt_allow_null = False, opt_merge = False, opt_temporal = False, opt_sys = False\<rparr>"

definition merge_opts :: expand_opts where
  "merge_opts = \<lparr>opt_fragment = True, opt_allow_null = True, opt_merge = True, opt_temporal = False, opt_sys = False\<rparr>"

definition get_live :: "'g broker_node \<Rightarrow> call_info \<Rightarrow> string \<Rightarrow> world \<Rightarrow> json option" where
  "get_live N a i w = Option.bind (get (ca_tenant a) Entity i (w_store w)) (strip_expired (nd_ext N) (nd_now N))"

definition store_entity :: "'g broker_node \<Rightarrow> call_info \<Rightarrow> string \<Rightarrow> json \<Rightarrow> world \<Rightarrow> bool \<times> world" where
  "store_entity N a i doc w = map_prod id (\<lambda>st. w\<lparr>w_store := st\<rparr>)
     (create (nd_ext N) (nd_codec N) (nd_now N) (ca_tenant a) Entity i doc (w_store w))"

definition change_entity :: "'g broker_node \<Rightarrow> call_info \<Rightarrow> string \<Rightarrow> (json \<Rightarrow> ('e, 'a \<times> json) result) \<Rightarrow> world
    \<Rightarrow> ('e, 'a) result option \<times> world" where
  "change_entity N a i f w = map_prod id (\<lambda>st. w\<lparr>w_store := st\<rparr>)
     (mutate (nd_ext N) (nd_codec N) (nd_now N) (ca_tenant a) Entity i f (w_store w))"

text \<open>\<open>AnyStore::delete_entity_if\<close>: the guard judges the document without what has expired in it.\<close>

definition delete_entity_if :: "'g broker_node \<Rightarrow> call_info \<Rightarrow> string \<Rightarrow> (json \<Rightarrow> bool) \<Rightarrow> world \<Rightarrow> bool \<times> world" where
  "delete_entity_if N a i keep w = map_prod (\<lambda>d. d \<noteq> None) (\<lambda>st. w\<lparr>w_store := st\<rparr>)
     (delete_if (nd_ext N) (nd_codec N) (nd_now N) (ca_tenant a) i
        (\<lambda>d. case strip_expired (nd_ext N) (nd_now N) d of None \<Rightarrow> False | Some d \<Rightarrow> keep d) (w_store w))"

definition not_found :: "string \<Rightarrow> ngsi_error" where
  "not_found i = ResourceNotFound (''entity '' @ i @ '' not found'')"

definition already_exists :: "string \<Rightarrow> string" where
  "already_exists i = ''entity '' @ i @ '' already exists''"

definition gone_locally :: "string \<Rightarrow> write_part" where
  "gone_locally i = \<lparr>pt_status = 404, pt_detail = ''entity '' @ i @ '' not found locally''\<rparr>"

definition expanded_types :: "json \<Rightarrow> string list option" where
  "expanded_types v = map_option (List.map_filter as_str) (Option.bind (jget v ''type'') as_array)"

definition expanded_attrs :: "json \<Rightarrow> string list" where
  "expanded_attrs v = (case v of JObj m \<Rightarrow> filter (\<lambda>k. \<not> is_meta k) (bm_keys m) | _ \<Rightarrow> [])"

definition some_list :: "'a list \<Rightarrow> 'a list option" where
  "some_list xs = (if xs = [] then None else Some xs)"

definition send_created :: "'g broker_node \<Rightarrow> call_info \<Rightarrow> jobj \<Rightarrow> fed_reg list \<Rightarrow> egress \<Rightarrow> write_part list \<times> egress" where
  "send_created N a obj regs e =
     fold (\<lambda>r (ps, e). case send_reduced N a ''POST'' entities_url [] obj r e of (qs, e) \<Rightarrow> (ps @ qs, e))
       (filter (\<lambda>r. supports r ''createEntity'') regs) ([], e)"

definition create_locally :: "'g broker_node \<Rightarrow> call_info \<Rightarrow> string \<Rightarrow> jobj \<Rightarrow> world \<Rightarrow> write_part list ngsi_result \<times> world" where
  "create_locally N a i rest w = (case expand_entity (nd_lib N) (ca_ctx a) default_opts rest of
     Err e \<Rightarrow> (Err e, w)
   | Ok v \<Rightarrow> (case store_entity N a i (stamp_new (nd_now N) v) w of
       (True, w) \<Rightarrow> (Ok [\<lparr>pt_status = 201, pt_detail = ''created locally''\<rparr>], w)
     | (False, w) \<Rightarrow> (Ok [\<lparr>pt_status = 409, pt_detail = already_exists i\<rparr>], w)))"

definition create_distributed :: "'g broker_node \<Rightarrow> call_info \<Rightarrow> string \<Rightarrow> jobj \<Rightarrow> fed_reg list \<Rightarrow> world \<Rightarrow> reply \<times> world" where
  "create_distributed N a i obj regs w =
     (let conflicts = map (\<lambda>r. conflict_part ''createEntity'') (filter (\<lambda>r. \<not> supports r ''createEntity'' \<and> is_proxy r) regs);
          proxies = filter is_proxy regs
      in case strip_proxied (nd_build N) (ca_ctx a) proxies obj of (rest, has_attrs) \<Rightarrow>
        (case (if has_attrs \<or> proxies = [] then create_locally N a i rest w else (Ok [], w)) of
           (Err e, w) \<Rightarrow> (Refused e, w)
         | (Ok here, w) \<Rightarrow> (case send_created N a obj regs (w_egress w) of (there, e) \<Rightarrow>
             (combine (here @ conflicts @ there) (Done 201), w\<lparr>w_egress := e\<rparr>))))"

definition create_entity :: "'g broker_node \<Rightarrow> call_info \<Rightarrow> jobj \<Rightarrow> world \<Rightarrow> reply \<times> world" where
  "create_entity N a obj w = (case expand_entity (nd_lib N) (ca_ctx a) default_opts obj of
     Err e \<Rightarrow> (Refused e, w)
   | Ok v \<Rightarrow> (case expanded_id v of
       Err e \<Rightarrow> (Refused e, w)
     | Ok i \<Rightarrow>
        if \<not> nd_gate N ''5.6.1'' v then (Forbidden, w)
        else (case write_plan N a (default_spec\<lparr>cs_ids := Some [i], cs_types := expanded_types v, cs_attrs := some_list (expanded_attrs v)\<rparr>) of
          None \<Rightarrow> (loop_508, w)
        | Some regs \<Rightarrow>
            if regs \<noteq> [] then create_distributed N a i obj regs w
            else (case store_entity N a i (stamp_new (nd_now N) v) w of
               (True, w) \<Rightarrow> (Done 201, w)
             | (False, w) \<Rightarrow> (Refused (AlreadyExists (already_exists i)), w)))))"

definition type_selector_query :: "string bmap \<Rightarrow> (string \<times> string) list" where
  "type_selector_query ps = opt_pair ''type'' (bm_get ps ''type'')"

text \<open>The closure of a merge, on a document that matches the type selector.\<close>

definition merge_document :: "'g broker_node \<Rightarrow> call_info \<Rightarrow> string \<Rightarrow> json \<Rightarrow> json \<Rightarrow> (unit \<times> json) ngsi_result" where
  "merge_document N a i frag doc =
     (if \<not> matches_type_param (ca_ctx a) (ca_params a) doc then Err (type_refused i)
      else Ok ((), merge_into (nd_now N) (apply_common_lang doc (bm_get (ca_params a) ''lang'') frag) doc))"

definition merge_distributed :: "'g broker_node \<Rightarrow> call_info \<Rightarrow> string \<Rightarrow> jobj \<Rightarrow> fed_reg list \<Rightarrow> world \<Rightarrow> reply \<times> world" where
  "merge_distributed N a i obj regs w =
     (let proxies = filter is_proxy regs;
          here_known = (case get_live N a i w of None \<Rightarrow> False | Some d \<Rightarrow> matches_type_param (ca_ctx a) (ca_params a) d)
      in case strip_proxied (nd_build N) (ca_ctx a) proxies obj of (rest, has_attrs) \<Rightarrow>
        (case (if (here_known \<or> proxies = []) \<and> has_attrs
               then (case expand_entity (nd_lib N) (ca_ctx a) merge_opts rest of
                   Err e \<Rightarrow> (Err e, w)
                 | Ok v \<Rightarrow> (case change_entity N a i (merge_document N a i (apply_common_observed_at (bm_get (ca_params a) ''observedAt'') v)) w of
                     (Some (Ok _), w) \<Rightarrow> (Ok [\<lparr>pt_status = 204, pt_detail = ''merged locally''\<rparr>], w)
                   | (_, w) \<Rightarrow> (Ok [gone_locally i], w)))
               else (Ok [], w)) of
           (Err e, w) \<Rightarrow> (Refused e, w)
         | (Ok here, w) \<Rightarrow> (case entity_parts ''mergeEntity''
               (send_reduced N a ''PATCH'' (\<lambda>r. entity_url r i) (type_selector_query (ca_params a)) obj) regs (w_egress w) of
             (there, e) \<Rightarrow> (combine (here @ there) (Done 204), w\<lparr>w_egress := e\<rparr>))))"

definition other_id :: "jobj \<Rightarrow> string \<Rightarrow> bool" where
  "other_id obj i \<longleftrightarrow> (case jget_str obj ''id'' of None \<Rightarrow> False | Some b \<Rightarrow> b \<noteq> i)"

definition merge_entity :: "'g broker_node \<Rightarrow> call_info \<Rightarrow> string \<Rightarrow> jobj \<Rightarrow> world \<Rightarrow> reply \<times> world" where
  "merge_entity N a i obj w = (case entity_id_new i of
     Err e \<Rightarrow> (Refused e, w)
   | Ok _ \<Rightarrow>
     if other_id obj i then (Refused (BadRequestData ''fragment id mismatch''), w)
     else (case expand_entity (nd_lib N) (ca_ctx a) merge_opts obj of
       Err e \<Rightarrow> (Refused e, w)
     | Ok v \<Rightarrow>
        if \<not> nd_gate N ''5.6.17'' v then (Forbidden, w)
        else if (case bm_get (ca_params a) ''observedAt'' of None \<Rightarrow> False | Some t \<Rightarrow> \<not> parse_datetime (nd_ext N) t)
        then (Refused (BadRequestData ''observedAt must be a DateTime (4.8)''), w)
        else (case write_plan N a (default_spec\<lparr>cs_ids := Some [i]\<rparr>) of
          None \<Rightarrow> (loop_508, w)
        | Some regs \<Rightarrow>
            if regs \<noteq> [] then merge_distributed N a i obj regs w
            else (case change_entity N a i (merge_document N a i (apply_common_observed_at (bm_get (ca_params a) ''observedAt'') v)) w of
               (None, w) \<Rightarrow> (Refused (not_found i), w)
             | (Some (Err e), w) \<Rightarrow> (Refused e, w)
             | (Some (Ok _), w) \<Rightarrow> (Done 204, w)))))"

definition replace_closure :: "'g broker_node \<Rightarrow> call_info \<Rightarrow> string \<Rightarrow> json \<Rightarrow> json \<Rightarrow> (unit \<times> json) ngsi_result" where
  "replace_closure N a i new doc =
     (if \<not> matches_type_param (ca_ctx a) (ca_params a) doc then Err (type_refused i) else Ok ((), replace_document new doc))"

definition replace_distributed :: "'g broker_node \<Rightarrow> call_info \<Rightarrow> string \<Rightarrow> jobj \<Rightarrow> bool \<Rightarrow> fed_reg list \<Rightarrow> world \<Rightarrow> reply \<times> world" where
  "replace_distributed N a i obj known regs w =
     (let proxies = filter is_proxy regs in
        (case (if \<not> known then (Ok (if proxies = [] then [gone_locally i] else []), w)
               else (case expand_entity (nd_lib N) (ca_ctx a) default_opts (fst (strip_proxied (nd_build N) (ca_ctx a) proxies obj)) of
                   Err e \<Rightarrow> (Err e, w)
                 | Ok v \<Rightarrow> (case change_entity N a i (replace_closure N a i (stamp_new (nd_now N) v)) w of
                     (Some (Ok _), w) \<Rightarrow> (Ok [\<lparr>pt_status = 204, pt_detail = ''replaced locally''\<rparr>], w)
                   | (_, w) \<Rightarrow> (Ok [gone_locally i], w)))) of
           (Err e, w) \<Rightarrow> (Refused e, w)
         | (Ok here, w) \<Rightarrow> (case entity_parts ''replaceEntity''
               (send_reduced N a ''PUT'' (\<lambda>r. entity_url r i) (type_selector_query (ca_params a)) obj) regs (w_egress w) of
             (there, e) \<Rightarrow> (combine (here @ there) (Done 204), w\<lparr>w_egress := e\<rparr>))))"

definition replace_entity :: "'g broker_node \<Rightarrow> call_info \<Rightarrow> string \<Rightarrow> jobj \<Rightarrow> world \<Rightarrow> reply \<times> world" where
  "replace_entity N a i obj w = (case entity_id_new i of
     Err e \<Rightarrow> (Refused e, w)
   | Ok _ \<Rightarrow>
     if \<not> nd_gate N ''5.6.18'' JNull then (Forbidden, w)
     else (let known = (case get_live N a i w of None \<Rightarrow> False | Some d \<Rightarrow> matches_type_param (ca_ctx a) (ca_params a) d) in
       (case write_plan N a (default_spec\<lparr>cs_ids := Some [i]\<rparr>) of
          None \<Rightarrow> (loop_508, w)
        | Some regs \<Rightarrow>
            if regs = [] \<and> \<not> known then (Refused (not_found i), w)
            else (case expand_entity (nd_lib N) (ca_ctx a) default_opts obj of
               Err e \<Rightarrow> (Refused e, w)
             | Ok v \<Rightarrow>
                if Option.bind (jget v ''id'') as_str \<noteq> Some i then (Refused (BadRequestData ''entity id mismatch''), w)
                else if regs \<noteq> [] then replace_distributed N a i obj known regs w
                else (case change_entity N a i (replace_closure N a i (stamp_new (nd_now N) v)) w of
                   (None, w) \<Rightarrow> (Refused (not_found i), w)
                 | (Some (Err e), w) \<Rightarrow> (Refused e, w)
                 | (Some (Ok _), w) \<Rightarrow> (Done 204, w))))))"

definition delete_entity :: "'g broker_node \<Rightarrow> call_info \<Rightarrow> string \<Rightarrow> world \<Rightarrow> reply \<times> world" where
  "delete_entity N a i w = (case entity_id_new i of
     Err e \<Rightarrow> (Refused e, w)
   | Ok _ \<Rightarrow>
     if \<not> nd_gate N ''5.6.6'' JNull then (Forbidden, w)
     else (let spec = default_spec\<lparr>cs_ids := Some [i],
             cs_types := map_option (map (\<lambda>t. expand_key (ca_ctx a) (trim t))) (csv_param (ca_params a) ''type'')\<rparr> in
       (case write_plan N a spec of
          None \<Rightarrow> (loop_508, w)
        | Some regs \<Rightarrow> (case delete_entity_if N a i (matches_type_param (ca_ctx a) (ca_params a)) w of (hit, w) \<Rightarrow>
            if regs = [] then (if hit then Done 204 else Refused (not_found i), w)
            else (let here = (if hit then [\<lparr>pt_status = 204, pt_detail = ''deleted locally''\<rparr>]
                              else if list_ex is_proxy regs then [] else [gone_locally i]) in
              (case entity_parts ''deleteEntity'' (\<lambda>r e. map_prod (\<lambda>p. [p]) id
                   (forward_part N a r ''DELETE'' (entity_url r i) (type_selector_query (ca_params a)) None e)) regs (w_egress w) of
                 (there, e) \<Rightarrow> (combine (here @ there) (Done 204), w\<lparr>w_egress := e\<rparr>)))))))"

subsection \<open>Attributes\<close>

datatype local_outcome = Skipped | LNotFound string | LFailed string | LOk

definition problem_detail :: "ngsi_error \<Rightarrow> string" where
  "problem_detail e = pd_detail (to_problem_details e)"

definition classify_local :: "(ngsi_error, reply) result option \<Rightarrow> local_outcome" where
  "classify_local resp = (case resp of
     None \<Rightarrow> Skipped
   | Some (Ok _) \<Rightarrow> LOk
   | Some (Err e) \<Rightarrow> if pd_status (to_problem_details e) = 404 then LNotFound (problem_detail e) else LFailed (problem_detail e))"

text \<open>The status 0 stands for a registration that was not asked.\<close>

fun attr_parts :: "'g broker_node \<Rightarrow> call_info \<Rightarrow> string \<Rightarrow> string \<Rightarrow> string \<Rightarrow> (string \<times> string) list \<Rightarrow> json option
    \<Rightarrow> fed_reg list \<Rightarrow> egress \<Rightarrow> write_part list \<times> egress" where
  "attr_parts N a oper method sub query body [] e = ([], e)"
| "attr_parts N a oper method sub query body (r # rs) e =
     (case (if \<not> supports r oper
            then ((if is_proxy r then conflict_part oper
                   else \<lparr>pt_status = 0, pt_detail = ''not forwarded: '' @ oper @ '' not supported''\<rparr>), e)
            else forward_part N a r method (fr_endpoint r @ ''/ngsi-ld/v1'' @ sub) query body e) of
        (p, e) \<Rightarrow> (case attr_parts N a oper method sub query body rs e of (ps, e) \<Rightarrow> (p # ps, e)))"

type_synonym not_updated = "(string \<times> string \<times> string option) list"

definition add_updated :: "string list \<Rightarrow> string list \<Rightarrow> string list" where
  "add_updated covered up = fold (\<lambda>k up. if k \<in> set up then up else up @ [k]) covered up"

definition add_part :: "string list \<Rightarrow> fed_reg \<times> write_part \<Rightarrow> string list \<times> not_updated \<times> bool \<Rightarrow> string list \<times> not_updated \<times> bool" where
  "add_part iris rp s = (case (rp, s) of ((r, p), (up, no, fed_ok)) \<Rightarrow>
     (let covered = filter (covers_attr r) iris in
      if pt_status p = 0 then s
      else if part_ok p then (add_updated covered up, no, True)
      else (up, no @ map (\<lambda>k. (k, pt_detail p, Some (fr_id r))) covered, fed_ok)))"

definition not_updated_json :: "string \<times> string \<times> string option \<Rightarrow> json" where
  "not_updated_json x = (case x of (k, why, reg) \<Rightarrow>
     mkobj ([(''attributeName'', JStr k), (''reason'', JStr why)] @
       (case reg of None \<Rightarrow> [] | Some r \<Rightarrow> if r = [] then [] else [(''registrationId'', JStr r)])))"

definition update_reply :: "string list \<Rightarrow> not_updated \<Rightarrow> reply" where
  "update_reply up no = (if no = [] then Done 204
     else Multi (mkobj [(''updated'', JArr (map JStr up)), (''notUpdated'', JArr (map not_updated_json no))]))"

definition combine_attr_parts :: "string list \<Rightarrow> string list \<Rightarrow> local_outcome \<Rightarrow> string list \<Rightarrow> not_updated \<Rightarrow> fed_reg list \<Rightarrow> write_part list \<Rightarrow> reply" where
  "combine_attr_parts iris local_iris here up no regs parts =
     (let no = no @ (case here of LNotFound d \<Rightarrow> map (\<lambda>k. (k, d, None)) local_iris
                    | LFailed d \<Rightarrow> map (\<lambda>k. (k, d, None)) local_iris | _ \<Rightarrow> [])
      in case fold (add_part iris) (zip regs parts) (up, no, False) of (up, no, fed_ok) \<Rightarrow>
        if up = [] \<and> \<not> fed_ok \<and> here \<noteq> LOk \<and> list_ex (\<lambda>(r, p). is_proxy r \<and> pt_status p = 508) (zip regs parts) then loop_508
        else if \<not> fed_ok \<and> up = [] \<and> (case here of LNotFound _ \<Rightarrow> True | _ \<Rightarrow> False)
        then Refused (ResourceNotFound (case here of LNotFound d \<Rightarrow> d | _ \<Rightarrow> []))
        else if up = [] \<and> here \<noteq> LOk \<and> \<not> fed_ok \<and> list_ex (\<lambda>p. contains_text ''does not accept'' (pt_detail p)) parts
        then Problem 409 ''Conflict'' ''registration does not accept the operation''
        else (case (regs, parts) of
            ([r], [p]) \<Rightarrow> if is_proxy r \<and> \<not> part_ok p \<and> here = Skipped then combine [p] (Done 204) else update_reply up no
          | _ \<Rightarrow> update_reply up no))"

definition SCOPE_IRI :: string where "SCOPE_IRI = ''https://uri.etsi.org/ngsi-ld/scope''"

definition attr_iris_of :: "json \<Rightarrow> string list" where
  "attr_iris_of f = (case f of JObj m \<Rightarrow> filter (\<lambda>k. \<not> is_fragment_meta k) (bm_keys m) | _ \<Rightarrow> [])"

definition attr_plan :: "'g broker_node \<Rightarrow> call_info \<Rightarrow> string \<Rightarrow> string list \<Rightarrow> fed_reg list option" where
  "attr_plan N a i iris = write_plan N a (default_spec\<lparr>cs_ids := Some [i], cs_attrs := some_list iris\<rparr>)"

definition proxies_cover_all :: "fed_reg list \<Rightarrow> string list \<Rightarrow> bool" where
  "proxies_cover_all regs iris \<longleftrightarrow> regs \<noteq> [] \<and> iris \<noteq> [] \<and> list_all (\<lambda>k. list_ex (\<lambda>r. is_proxy r \<and> covers_attr r k) regs) iris"

definition fwd_query :: "string bmap \<Rightarrow> string list \<Rightarrow> (string \<times> string) list" where
  "fwd_query ps keys = concat (map (\<lambda>k. opt_pair k (bm_get ps k)) keys)"

record attr_write =
  aw_null :: bool
  aw_op :: string
  aw_method :: string
  aw_clause :: string

definition APPEND :: attr_write where
  "APPEND = \<lparr>aw_null = False, aw_op = ''appendAttrs'', aw_method = ''POST'', aw_clause = ''5.6.3''\<rparr>"

definition UPDATE :: attr_write where
  "UPDATE = \<lparr>aw_null = True, aw_op = ''updateEntity'', aw_method = ''PATCH'', aw_clause = ''5.6.2''\<rparr>"

definition no_overwrite :: "string bmap \<Rightarrow> bool" where
  "no_overwrite ps \<longleftrightarrow> (case csv_param ps ''options'' of None \<Rightarrow> False | Some os \<Rightarrow> list_ex (\<lambda>s. trim s = ''noOverwrite'') os)"

definition untold :: "(string \<times> string) list \<Rightarrow> not_updated" where
  "untold no = map (\<lambda>(k, why). (k, why, None)) no"

text \<open>The local half of \<open>write_attrs\<close>: its answer, with the names updated and not updated.\<close>

definition write_here :: "'g broker_node \<Rightarrow> call_info \<Rightarrow> string \<Rightarrow> (jobj \<Rightarrow> write_state \<Rightarrow> write_state) \<Rightarrow> json \<Rightarrow> world
    \<Rightarrow> ((ngsi_error, reply) result \<times> string list \<times> (string \<times> string) list) \<times> world" where
  "write_here N a i merge frag w =
     (case change_entity N a i (write_fragment (ca_ctx a) (ca_params a) i (nd_now N) merge frag) w of
        (None, w) \<Rightarrow> ((Err (not_found i), [], []), w)
      | (Some (Inl (WFailed e)), w) \<Rightarrow> ((Err e, [], []), w)
      | (Some (Inl (WUntouched no)), w) \<Rightarrow> ((Ok (update_reply [] (untold no)), [], no), w)
      | (Some (Inr (up, no)), w) \<Rightarrow> ((Ok (update_reply up (untold no)), up, no), w))"

definition attrs_url :: "string \<Rightarrow> string" where
  "attrs_url i = ''/entities/'' @ path_segment i @ ''/attrs/''"

definition fragment_opts :: "bool \<Rightarrow> expand_opts" where
  "fragment_opts null = \<lparr>opt_fragment = True, opt_allow_null = null, opt_merge = False, opt_temporal = False, opt_sys = False\<rparr>"

definition write_attrs :: "'g broker_node \<Rightarrow> call_info \<Rightarrow> attr_write \<Rightarrow> (jobj \<Rightarrow> write_state \<Rightarrow> write_state) \<Rightarrow> string \<Rightarrow> jobj \<Rightarrow> world \<Rightarrow> reply \<times> world" where
  "write_attrs N a mode merge i obj w = (case entity_id_new i of
     Err e \<Rightarrow> (Refused e, w)
   | Ok _ \<Rightarrow>
     if \<not> nd_gate N (aw_clause mode) JNull then (Forbidden, w)
     else (case expand_entity (nd_lib N) (ca_ctx a) (fragment_opts (aw_null mode)) obj of
       Err e \<Rightarrow> (Refused e, w)
     | Ok v \<Rightarrow> (let iris = attr_iris_of v in case attr_plan N a i iris of
          None \<Rightarrow> (loop_508, w)
        | Some regs \<Rightarrow>
            (let frag = strip_covered_expanded regs v in
             case (if proxies_cover_all regs iris then ((None, [], []), w)
                   else (case write_here N a i merge frag w of ((resp, up, no), w) \<Rightarrow> ((Some resp, up, no), w))) of
               ((resp, up, no), w) \<Rightarrow>
                 if regs = [] then ((case resp of Some (Ok r) \<Rightarrow> r | Some (Err e) \<Rightarrow> Refused e
                                    | None \<Rightarrow> Refused (InternalError ''no local result'')), w)
                 else (case attr_parts N a (aw_op mode) (aw_method mode) (attrs_url i) (fwd_query (ca_params a) [''options'', ''type''])
                          (Some (without_context (JObj obj))) regs (w_egress w) of
                   (parts, e) \<Rightarrow> (combine_attr_parts iris (attr_iris_of frag) (classify_local resp) up (untold no) regs parts,
                      w\<lparr>w_egress := e\<rparr>))))))"

definition append_attrs :: "'g broker_node \<Rightarrow> call_info \<Rightarrow> string \<Rightarrow> jobj \<Rightarrow> world \<Rightarrow> reply \<times> world" where
  "append_attrs N a = write_attrs N a APPEND (append_fragment (no_overwrite (ca_params a)) (nd_now N))"

definition update_attrs :: "'g broker_node \<Rightarrow> call_info \<Rightarrow> string \<Rightarrow> jobj \<Rightarrow> world \<Rightarrow> reply \<times> world" where
  "update_attrs N a = write_attrs N a UPDATE (update_fragment (nd_now N))"

subsection \<open>One attribute\<close>

definition single_attr_local :: "(ngsi_error, bool) result option \<Rightarrow> bool \<Rightarrow> string \<Rightarrow> string \<Rightarrow> (ngsi_error, reply) result" where
  "single_attr_local res had i name = (case res of
     None \<Rightarrow> Err (not_found i)
   | Some (Err e) \<Rightarrow> Err e
   | Some (Ok found) \<Rightarrow> if found \<or> had then Ok (Done 204) else Err (ResourceNotFound (''attribute '' @ name @ '' not found'')))"

definition combine_single_attr :: "string \<Rightarrow> bool \<Rightarrow> (ngsi_error, reply) result option \<Rightarrow> fed_reg list \<Rightarrow> write_part list \<Rightarrow> reply" where
  "combine_single_attr target covered resp regs parts =
     (let here = classify_local resp in
      combine_attr_parts [target] (if covered then [] else [target]) here (if here = LOk then [target] else []) [] regs parts)"

text \<open>The frame the three operations share; \<open>edit\<close> is the closure on the stored document, \<open>had\<close> what the temporal
  history answers to a deletion.\<close>

definition single_attr :: "'g broker_node \<Rightarrow> call_info \<Rightarrow> string \<Rightarrow> string \<Rightarrow> string \<Rightarrow> (jobj \<Rightarrow> (bool \<times> jobj) ngsi_result) \<Rightarrow> bool
    \<Rightarrow> (fed_reg list \<Rightarrow> egress \<Rightarrow> write_part list \<times> egress) \<Rightarrow> world \<Rightarrow> reply \<times> world" where
  "single_attr N a i name target edit had send w = (case attr_plan N a i [target] of
     None \<Rightarrow> (loop_508, w)
   | Some regs \<Rightarrow>
       (let covered = proxies_cover_all regs [target] in
        case (if covered then (None, w)
              else (case change_entity N a i (on_target (ca_ctx a) (ca_params a) i edit) w of (res, w) \<Rightarrow>
                (Some (if res = None \<and> had then Ok (Done 204) else single_attr_local res had i name), w))) of
          (resp, w) \<Rightarrow>
            if regs = [] then ((case resp of Some (Ok r) \<Rightarrow> r | Some (Err e) \<Rightarrow> Refused e
                               | None \<Rightarrow> Refused (InternalError ''no local result'')), w)
            else (case send regs (w_egress w) of
              (parts, e) \<Rightarrow> (combine_single_attr target covered resp regs parts, w\<lparr>w_egress := e\<rparr>))))"

definition attr_url :: "string \<Rightarrow> string \<Rightarrow> string" where
  "attr_url i name = ''/entities/'' @ path_segment i @ ''/attrs/'' @ path_segment name"

definition partial_update_attr :: "'g broker_node \<Rightarrow> call_info \<Rightarrow> string \<Rightarrow> string \<Rightarrow> jobj \<Rightarrow> world \<Rightarrow> reply \<times> world" where
  "partial_update_attr N a i name obj w = (case and_then (entity_id_new i) (\<lambda>_. check_attr_name name) of
     Err e \<Rightarrow> (Refused e, w)
   | Ok _ \<Rightarrow>
     if \<not> nd_gate N ''5.6.4'' JNull then (Forbidden, w)
     else (case expand_attr_fragment (nd_lib N) (ca_ctx a) obj of
       Err e \<Rightarrow> (Refused e, w)
     | Ok frag \<Rightarrow> (case expand_attr_name (ca_ctx a) name of
         Err e \<Rightarrow> (Refused e, w)
       | Ok target \<Rightarrow>
           if name = ''scope'' \<or> target = SCOPE_IRI
           then (Refused (BadRequestData ''scope cannot be the target of a partial attribute update (5.6.4)''), w)
           else single_attr N a i name target (partial_update (nd_now N) target frag) False
                  (attr_parts N a ''updateAttrs'' ''PATCH'' (attr_url i name) (fwd_query (ca_params a) [''type'']) (Some (without_context (JObj obj)))) w)))"

definition bad_fragment :: ngsi_error where
  "bad_fragment = BadRequestData ''invalid attribute fragment''"

definition replace_attr :: "'g broker_node \<Rightarrow> call_info \<Rightarrow> string \<Rightarrow> string \<Rightarrow> jobj \<Rightarrow> world \<Rightarrow> reply \<times> world" where
  "replace_attr N a i name obj w = (case and_then (entity_id_new i) (\<lambda>_. check_attr_name name) of
     Err e \<Rightarrow> (Refused e, w)
   | Ok _ \<Rightarrow>
     if \<not> nd_gate N ''5.6.19'' JNull then (Forbidden, w)
     else (case expand_attr_name (ca_ctx a) name of
       Err e \<Rightarrow> (Refused e, w)
     | Ok target \<Rightarrow>
         if name = ''scope'' \<or> target = SCOPE_IRI
         then (Refused (BadRequestData ''scope cannot be the target of a replace attribute (5.6.19)''), w)
         else (case expand_entity (nd_lib N) (ca_ctx a) (fragment_opts False) [(name, without_context (JObj obj))] of
           Err e \<Rightarrow> (Refused e, w)
         | Ok v \<Rightarrow> (case Option.bind (jget v target) as_array of
             Some (new # _) \<Rightarrow> single_attr N a i name target (replace_attribute (nd_now N) target new) False
                  (attr_parts N a ''replaceAttrs'' ''PUT'' (attr_url i name) (fwd_query (ca_params a) [''type'']) (Some (without_context (JObj obj)))) w
           | _ \<Rightarrow> (Refused bad_fragment, w)))))"

definition delete_attr :: "'g broker_node \<Rightarrow> call_info \<Rightarrow> bool \<Rightarrow> string \<Rightarrow> string \<Rightarrow> world \<Rightarrow> reply \<times> world" where
  "delete_attr N a had i name w = (case and_then (entity_id_new i) (\<lambda>_. check_attr_name name) of
     Err e \<Rightarrow> (Refused e, w)
   | Ok _ \<Rightarrow>
     if \<not> nd_gate N ''5.6.5'' JNull then (Forbidden, w)
     else (case (if name = ''scope'' then Ok ''scope''
                 else map_sum id (\<lambda>target. if target = SCOPE_IRI then ''scope'' else target) (expand_attr_name (ca_ctx a) name)) of
       Err e \<Rightarrow> (Refused e, w)
     | Ok target \<Rightarrow> single_attr N a i name target
         (delete_attribute (nd_now N) target (bm_get (ca_params a) ''deleteAll'' = Some ''true'') (target_dataset_id (ca_params a))) had
         (attr_parts N a ''deleteAttrs'' ''DELETE'' (attr_url i name) (fwd_query (ca_params a) [''datasetId'', ''deleteAll'', ''type'']) None) w))"

end
