(* ===== verification/Batch.thy ===== *)
theory Batch
  imports Writes
begin

text \<open>
  The batch operations on entities (\<open>antares-api/src/batch.rs\<close>): the array and its contexts, the rounds in which repeated
  entities are written, the local writes, the forwards with their fallbacks, and the lists of successes and errors of
  the answer.  The temporal history of a batch delete is left out.
\<close>

type_synonym batch_item = "json \<times> jctx ngsi_result"
type_synonym fwd_item = "jobj \<times> jctx"

definition MAX_CONTEXT_FETCHES :: nat where "MAX_CONTEXT_FETCHES = 32"

subsection \<open>The array\<close>

definition count_context :: "lib \<Rightarrow> json \<Rightarrow> string list \<Rightarrow> string list ngsi_result" where
  "count_context L c named =
     (if is_object c \<or> c = JNull then Ok named
      else if to_json L c \<in> set named then Ok named
      else if MAX_CONTEXT_FETCHES \<le> length named
      then Err (BadRequestData (''batch names more than '' @ decimal MAX_CONTEXT_FETCHES @ '' distinct @contexts''))
      else Ok (named @ [to_json L c]))"

text \<open>\<open>load\<close> is the loader for the tenant; a refused context is an error of its item alone.\<close>

definition item_context :: "lib \<Rightarrow> (json \<Rightarrow> jctx ngsi_result) \<Rightarrow> jctx \<Rightarrow> bool \<Rightarrow> string option \<Rightarrow> json \<Rightarrow> string list \<Rightarrow> jctx ngsi_result \<times> string list" where
  "item_context L load core ld link item named =
     (if ld then (case jget item ''@context'' of
           None \<Rightarrow> (Err (BadRequestData ''ld+json batch entity without @context''), named)
         | Some c \<Rightarrow> (case count_context L c named of Err e \<Rightarrow> (Err e, named) | Ok named \<Rightarrow> (load c, named)))
      else if jget item ''@context'' \<noteq> None then (Err (BadRequestData ''application/json entity carries @context''), named)
      else (case link of Some url \<Rightarrow> (load (JStr url), named) | None \<Rightarrow> (Ok core, named)))"

primrec item_contexts :: "lib \<Rightarrow> (json \<Rightarrow> jctx ngsi_result) \<Rightarrow> jctx \<Rightarrow> bool \<Rightarrow> string option \<Rightarrow> json list \<Rightarrow> string list \<Rightarrow> batch_item list" where
  "item_contexts L load core ld link [] named = []"
| "item_contexts L load core ld link (x # xs) named =
     (case item_context L load core ld link x named of (c, named) \<Rightarrow> (x, c) # item_contexts L load core ld link xs named)"

definition null_items :: ngsi_error where
  "null_items = BadRequestData ''batch array must not contain null items''"

definition too_many_items :: "nat \<Rightarrow> nat \<Rightarrow> ngsi_error" where
  "too_many_items n cap = BadRequestData (''batch of '' @ decimal n @ '' exceeds the '' @ decimal cap @ ''-entity limit'')"

definition parse_batch :: "lib \<Rightarrow> (json \<Rightarrow> jctx ngsi_result) \<Rightarrow> jctx \<Rightarrow> nat \<Rightarrow> bool \<Rightarrow> string option \<Rightarrow> json \<Rightarrow> batch_item list ngsi_result" where
  "parse_batch L load core cap ld link v = (case v of
     JArr (x # xs) \<Rightarrow>
       if JNull \<in> set (x # xs) then Err null_items
       else if cap < length (x # xs) then Err (too_many_items (length (x # xs)) cap)
       else if ld \<and> link \<noteq> None then Err (BadRequestData ''application/ld+json batch must not also carry a Link @context (6.3.5)'')
       else Ok (item_contexts L load core ld link (x # xs) [])
   | _ \<Rightarrow> Err (BadRequestData ''batch body must be a non-empty JSON array''))"

subsection \<open>The answer\<close>

record batch_outcome =
  bo_success :: "string list"
  bo_errors :: "json list"

definition respond :: "nat \<Rightarrow> bool \<Rightarrow> batch_outcome \<Rightarrow> reply" where
  "respond all_ok body_on_ok out =
     (if bo_errors out = [] then (if body_on_ok then Listed all_ok (bo_success out) else Done all_ok)
      else Multi (mkobj [(''success'', JArr (map JStr (bo_success out))), (''errors'', JArr (bo_errors out))]))"

definition problem_value :: "ngsi_error \<Rightarrow> json" where
  "problem_value e = (let pd = to_problem_details e in
     mkobj [(''type'', JStr (pd_type pd)), (''title'', JStr (pd_title pd)), (''status'', jint (pd_status pd)), (''detail'', JStr (pd_detail pd))])"

definition entity_error :: "string option \<Rightarrow> json \<Rightarrow> json" where
  "entity_error i e = mkobj [(''entityId'', JStr (case i of Some i \<Rightarrow> i | None \<Rightarrow> ''unknown'')), (''error'', e)]"

definition err_entry :: "string option \<Rightarrow> ngsi_error \<Rightarrow> json" where
  "err_entry i e = entity_error i (problem_value e)"

definition remote_kind :: "nat \<Rightarrow> string" where
  "remote_kind st = (if st = 400 then ''BadRequestData'' else if st = 404 then ''ResourceNotFound''
     else if st = 409 then ''AlreadyExists'' else if st = 422 then ''OperationNotSupported'' else ''InternalError'')"

definition err_remote :: "string option \<Rightarrow> nat \<Rightarrow> string \<Rightarrow> json" where
  "err_remote i st d = entity_error i (mkobj [(''type'', JStr (''https://uri.etsi.org/ngsi-ld/errors/'' @ remote_kind st)),
     (''title'', JStr ''distributed operation failed''), (''status'', jint (int st)), (''detail'', JStr d)])"

definition add_error :: "json \<Rightarrow> batch_outcome \<Rightarrow> batch_outcome" where
  "add_error e out = out\<lparr>bo_errors := bo_errors out @ [e]\<rparr>"

definition add_success :: "string \<Rightarrow> batch_outcome \<Rightarrow> batch_outcome" where
  "add_success i out = (if i \<in> set (bo_success out) then out else out\<lparr>bo_success := bo_success out @ [i]\<rparr>)"

text \<open>What the peers report: ids with whether they were created, and errors.\<close>

type_synonym remote = "(string \<times> bool) list \<times> json list"

definition u16 :: "nat \<Rightarrow> nat" where "u16 n = n mod 2 ^ 16"

definition merge_remote_batch :: "nat \<Rightarrow> json \<Rightarrow> string list \<Rightarrow> bool \<Rightarrow> remote \<Rightarrow> remote" where
  "merge_remote_batch st body sent created s = (case s of (ok, err) \<Rightarrow>
     (let mine = (\<lambda>vs. filter (\<lambda>i. i \<in> set sent) (List.map_filter as_str vs));
          named = (\<lambda>ids. map (\<lambda>i. (i, created)) ids)
      in if 200 \<le> st \<and> st \<le> 206 then (case body of JArr a \<Rightarrow> (ok @ named (mine a), err) | _ \<Rightarrow> (ok @ named sent, err))
         else if st = 207 \<and> is_object body then
           (ok @ (case jget body ''success'' of Some (JArr a) \<Rightarrow> named (mine a) | _ \<Rightarrow> []),
            err @ (case jget body ''errors'' of
               Some (JArr a) \<Rightarrow> List.map_filter (\<lambda>e. case Option.bind (jget e ''entityId'') as_str of
                   None \<Rightarrow> None
                 | Some i \<Rightarrow> if i \<notin> set sent then None
                     else Some (err_remote (Some i) (u16 (case Option.bind (Option.bind (jget e ''error'') (\<lambda>p. jget p ''status'')) as_u64 of Some n \<Rightarrow> n | None \<Rightarrow> st))
                       ''forwarded batch operation reported an error for this entity'')) a
             | _ \<Rightarrow> []))
         else (ok, err @ map (\<lambda>i. err_remote (Some i) st (''forwarded batch operation returned '' @ decimal st)) sent)))"

subsection \<open>Modes\<close>

datatype batch_mode = BCreate | BUpsert | BUpdate | BMerge

definition clause_of :: "batch_mode \<Rightarrow> string" where
  "clause_of m = (case m of BCreate \<Rightarrow> ''5.6.7'' | BUpsert \<Rightarrow> ''5.6.8'' | BUpdate \<Rightarrow> ''5.6.9'' | BMerge \<Rightarrow> ''5.6.20'')"

definition has_option :: "string bmap \<Rightarrow> string \<Rightarrow> bool" where
  "has_option ps n \<longleftrightarrow> (case bm_get ps ''options'' of None \<Rightarrow> False
     | Some s \<Rightarrow> list_ex (\<lambda>x. trim x = n) (split_on (\<lambda>c. c = CHR '','') s))"

definition item_type_iris :: "jctx \<Rightarrow> jobj \<Rightarrow> string list" where
  "item_type_iris c m = (case bm_get m ''type'' of
     Some (JStr t) \<Rightarrow> [expand_key c t]
   | Some (JArr a) \<Rightarrow> map (expand_key c) (List.map_filter as_str a)
   | _ \<Rightarrow> [])"

definition item_attr_iris :: "jctx \<Rightarrow> jobj \<Rightarrow> string list" where
  "item_attr_iris c m = map (expand_key c) (filter (\<lambda>k. k \<notin> {''id'', ''type'', ''scope'', ''@context''}) (bm_keys m))"

definition fwd_items :: "batch_item list \<Rightarrow> fwd_item list" where
  "fwd_items items = List.map_filter (\<lambda>(v, c). case (v, c) of (JObj m, Inr c) \<Rightarrow> Some (m, c) | _ \<Rightarrow> None) items"

definition batch_spec :: "batch_item list \<Rightarrow> 'g csr_spec \<times> fwd_item list" where
  "batch_spec items = (let fs = fwd_items items in
     (default_spec\<lparr>cs_types := some_list (concat (map (\<lambda>(m, c). item_type_iris c m) fs)),
        cs_ids := some_list (List.map_filter (\<lambda>(m, c). jget_str m ''id'') fs),
        cs_attrs := some_list (concat (map (\<lambda>(m, c). item_attr_iris c m) fs))\<rparr>, fs))"

subsection \<open>Forwards\<close>

datatype fwd_path = ToCollection | ToEntity | ToAttrs

record batch_fwd =
  bf_path :: fwd_path
  bf_method :: string
  bf_query :: "(string \<times> string) list"
  bf_created :: bool

definition fwd_create :: batch_fwd where
  "fwd_create = \<lparr>bf_path = ToCollection, bf_method = ''POST'', bf_query = [], bf_created = True\<rparr>"

definition fwd_replace :: batch_fwd where
  "fwd_replace = \<lparr>bf_path = ToEntity, bf_method = ''PUT'', bf_query = [], bf_created = False\<rparr>"

definition fwd_update :: batch_fwd where
  "fwd_update = \<lparr>bf_path = ToAttrs, bf_method = ''PATCH'', bf_query = [], bf_created = False\<rparr>"

definition fwd_merge :: batch_fwd where
  "fwd_merge = \<lparr>bf_path = ToEntity, bf_method = ''PATCH'', bf_query = [], bf_created = False\<rparr>"

definition fwd_append :: batch_fwd where
  "fwd_append = \<lparr>bf_path = ToAttrs, bf_method = ''POST'', bf_query = [(''options'', ''noOverwrite'')], bf_created = False\<rparr>"

definition forward_one :: "'g broker_node \<Rightarrow> call_info \<Rightarrow> fed_reg \<Rightarrow> batch_fwd \<Rightarrow> json \<Rightarrow> egress \<Rightarrow> (string \<times> nat) \<times> egress" where
  "forward_one N a r call ent e =
     (let i = (case Option.bind (jget ent ''id'') as_str of Some i \<Rightarrow> i | None \<Rightarrow> []);
          url = (case bf_path call of ToCollection \<Rightarrow> entities_url r | ToEntity \<Rightarrow> entity_url r i | ToAttrs \<Rightarrow> entity_url r i @ ''/attrs'')
      in case forward (nd_fed N) (ca_tenant a) (ca_headers a) r (ca_url a) (bf_method call) url (bf_query call) (Some ent) e of
           ((st, _, _), e) \<Rightarrow> ((i, st), e))"

definition one_outcome :: "string \<Rightarrow> nat \<Rightarrow> bool \<Rightarrow> remote \<Rightarrow> remote" where
  "one_outcome i st created s = (case s of (ok, err) \<Rightarrow>
     if 200 \<le> st \<and> st < 300 \<and> st \<noteq> 207 then (ok @ [(i, created \<and> st = 201)], err)
     else (ok, err @ [err_remote (Some i) st (''forwarded operation returned '' @ decimal st)]))"

definition send_one :: "'g broker_node \<Rightarrow> call_info \<Rightarrow> fed_reg \<Rightarrow> batch_fwd \<Rightarrow> json \<Rightarrow> remote \<times> egress \<Rightarrow> remote \<times> egress" where
  "send_one N a r call ent s = (case s of (rem, e) \<Rightarrow> (case forward_one N a r call ent e of
     ((i, st), e) \<Rightarrow> (one_outcome i st (bf_created call) rem, e)))"

text \<open>An entity the peer already holds falls through to the operation that updates it.\<close>

definition send_upsert :: "'g broker_node \<Rightarrow> call_info \<Rightarrow> bool \<Rightarrow> fed_reg \<Rightarrow> json \<Rightarrow> remote \<times> egress \<Rightarrow> remote \<times> egress" where
  "send_upsert N a replace r ent s = (case s of (rem, e) \<Rightarrow> (case forward_one N a r fwd_create ent e of
     ((i, st), e) \<Rightarrow>
       if st \<noteq> 409 then (one_outcome i st True rem, e)
       else if replace \<and> supports r ''replaceEntity'' then send_one N a r fwd_replace ent (rem, e)
       else if \<not> replace \<and> supports r ''updateEntity'' then send_one N a r fwd_update ent (rem, e)
       else (map_prod id (\<lambda>err. err @ [err_remote (Some i) 422 (''OperationNotSupported: no upsert path for '' @ i)]) rem, e)))"

definition batch_op :: "batch_mode \<Rightarrow> string \<times> string" where
  "batch_op m = (case m of BCreate \<Rightarrow> (''createBatch'', ''create'') | BUpsert \<Rightarrow> (''upsertBatch'', ''upsert'')
     | BUpdate \<Rightarrow> (''updateBatch'', ''update'') | BMerge \<Rightarrow> (''mergeBatch'', ''merge''))"

text \<open>The single operation that stands in for a batch operation the peer does not support.\<close>

definition fallback_one :: "'g broker_node \<Rightarrow> call_info \<Rightarrow> batch_mode \<Rightarrow> bool \<Rightarrow> bool \<Rightarrow> fed_reg \<Rightarrow> (json \<Rightarrow> remote \<times> egress \<Rightarrow> remote \<times> egress) option" where
  "fallback_one N a m replace no_over r = (case m of
     BCreate \<Rightarrow> if supports r ''createEntity'' then Some (send_one N a r fwd_create) else None
   | BUpsert \<Rightarrow> if supports r ''createEntity'' then Some (send_upsert N a replace r)
       else if replace \<and> supports r ''replaceEntity'' then Some (send_one N a r fwd_replace)
       else if \<not> replace \<and> supports r ''updateEntity'' then Some (send_one N a r fwd_update) else None
   | BUpdate \<Rightarrow> if \<not> no_over \<and> supports r ''updateEntity'' then Some (send_one N a r fwd_update)
       else if no_over \<and> supports r ''appendAttrs'' then Some (send_one N a r fwd_append) else None
   | BMerge \<Rightarrow> if supports r ''mergeEntity'' then Some (send_one N a r fwd_merge) else None)"

definition sent_ids_of :: "json list \<Rightarrow> string list" where
  "sent_ids_of arr = List.map_filter (\<lambda>e. Option.bind (jget e ''id'') as_str) arr"

definition conflicts_for :: "string \<Rightarrow> string list \<Rightarrow> remote \<Rightarrow> remote" where
  "conflicts_for oper ids rem = map_prod id (\<lambda>err. err @
     map (\<lambda>i. err_entry (Some i) (Conflict (''registration does not accept the operation '' @ oper))) ids) rem"

definition forward_reg :: "'g broker_node \<Rightarrow> call_info \<Rightarrow> batch_mode \<Rightarrow> bool \<Rightarrow> bool \<Rightarrow> fwd_item list \<Rightarrow> fed_reg \<Rightarrow> remote \<times> egress \<Rightarrow> remote \<times> egress" where
  "forward_reg N a m replace no_over fs r s = (case s of (rem, e) \<Rightarrow>
     (let arr = List.map_filter (\<lambda>(o1, c). reduce_to_scope (nd_build N) c r o1) fs;
          ids = sent_ids_of arr
      in if arr = [] then s
         else if supports r (fst (batch_op m)) then
           (case forward (nd_fed N) (ca_tenant a) (ca_headers a) r (ca_url a) ''POST''
                (fr_endpoint r @ ''/ngsi-ld/v1/entityOperations/'' @ snd (batch_op m)) (opt_pair ''options'' (bm_get (ca_params a) ''options''))
                (Some (JArr arr)) e of
              ((st, body, _), e) \<Rightarrow> (merge_remote_batch st body ids (m = BCreate \<or> m = BUpsert \<and> st = 201) rem, e))
         else (case fallback_one N a m replace no_over r of
              Some send \<Rightarrow> fold send arr s
            | None \<Rightarrow> if is_proxy r then (conflicts_for (fst (batch_op m)) ids rem, e) else s)))"

text \<open>The outcome of the local arm, with the ids created.\<close>

type_synonym batch_state = "batch_outcome \<times> string list"

definition merge_remote :: "remote \<Rightarrow> batch_state \<Rightarrow> batch_state" where
  "merge_remote rem s = (case rem of (ok, err) \<Rightarrow>
     (case fold (\<lambda>(i, was_created) (out, created). (add_success i out, if was_created then created @ [i] else created)) ok s of
        (out, created) \<Rightarrow> (out\<lparr>bo_errors := bo_errors out @ err\<rparr>, created)))"

definition forward_batch :: "'g broker_node \<Rightarrow> call_info \<Rightarrow> batch_mode \<Rightarrow> bool \<Rightarrow> bool \<Rightarrow> fed_reg list \<Rightarrow> fwd_item list
    \<Rightarrow> batch_state \<times> egress \<Rightarrow> batch_state \<times> egress" where
  "forward_batch N a m update no_over regs fs s = (case s of (b, e) \<Rightarrow>
     (case fold (forward_reg N a m (\<not> update) no_over fs) regs (([], []), e) of
        (rem, e) \<Rightarrow> (merge_remote rem b, e)))"

subsection \<open>The local arm\<close>

datatype prepared = PSkip | PBad json | PGood string json

definition batch_opts :: "batch_mode \<Rightarrow> expand_opts" where
  "batch_opts m = default_opts\<lparr>opt_allow_null := (m = BMerge), opt_merge := (m = BMerge)\<rparr>"

definition local_item :: "(string \<Rightarrow> bool) builder \<Rightarrow> fed_reg list \<Rightarrow> jctx \<Rightarrow> json \<Rightarrow> json option" where
  "local_item B proxies c v = (case v of
     JObj obj \<Rightarrow> if proxies = [] then Some v
       else (case strip_proxied B c proxies obj of (rest, has_attrs) \<Rightarrow> if has_attrs then Some (JObj rest) else None)
   | _ \<Rightarrow> Some v)"

definition prepare :: "'g broker_node \<Rightarrow> batch_mode \<Rightarrow> fed_reg list \<Rightarrow> batch_item \<Rightarrow> prepared" where
  "prepare N m proxies item = (case item of (v, ctx) \<Rightarrow>
     (let bad = (\<lambda>e. PBad (err_entry (Option.bind (jget v ''id'') as_str) e)) in
      case ctx of
        Err e \<Rightarrow> bad e
      | Ok c \<Rightarrow> (case local_item (nd_build N) proxies c v of
          None \<Rightarrow> PSkip
        | Some (JObj obj) \<Rightarrow> (case and_then (expand_entity (nd_lib N) c (batch_opts m) obj) (\<lambda>d. and_then (expanded_id d) (\<lambda>i. Ok (i, d))) of
            Err e \<Rightarrow> bad e | Ok (i, d) \<Rightarrow> PGood i d)
        | Some _ \<Rightarrow> bad (BadRequestData ''entity must be an object''))))"

type_synonym batch_docs = "(string \<times> json) list"

definition good_docs :: "prepared list \<Rightarrow> batch_docs" where
  "good_docs ps = List.map_filter (\<lambda>p. case p of PGood i d \<Rightarrow> Some (i, d) | _ \<Rightarrow> None) ps"

definition bad_docs :: "prepared list \<Rightarrow> json list" where
  "bad_docs ps = List.map_filter (\<lambda>p. case p of PBad e \<Rightarrow> Some e | _ \<Rightarrow> None) ps"

text \<open>The n-th occurrence of an id goes to round n.\<close>

definition into_round :: "string \<times> json \<Rightarrow> batch_docs list \<times> nat bmap \<Rightarrow> batch_docs list \<times> nat bmap" where
  "into_round x s = (case s of (rs, occ) \<Rightarrow>
     (let n = (case bm_get occ (fst x) of Some n \<Rightarrow> n | None \<Rightarrow> 0);
          rs = (if length rs \<le> n then rs @ [[]] else rs)
      in (rs[n := rs ! n @ [x]], bm_insert (fst x) (Suc n) occ)))"

definition rounds_of :: "batch_docs \<Rightarrow> batch_docs list" where
  "rounds_of xs = fst (fold into_round xs ([], []))"

primrec batch_mutate :: "'g broker_node \<Rightarrow> call_info \<Rightarrow> (json \<Rightarrow> json \<Rightarrow> ('a \<times> json) ngsi_result) \<Rightarrow> batch_docs \<Rightarrow> world
    \<Rightarrow> 'a ngsi_result option list \<times> world" where
  "batch_mutate N a f [] w = ([], w)"
| "batch_mutate N a f (x # xs) w = (case change_entity N a (fst x) (f (snd x)) w of
     (r, w) \<Rightarrow> (case batch_mutate N a f xs w of (rs, w) \<Rightarrow> (r # rs, w)))"

definition upsert_entity :: "'g broker_node \<Rightarrow> call_info \<Rightarrow> string \<Rightarrow> json \<Rightarrow> world \<Rightarrow> bool \<times> world" where
  "upsert_entity N a i d w = map_prod id (\<lambda>st. w\<lparr>w_store := st\<rparr>)
     (upsert (nd_ext N) (nd_codec N) (nd_now N) (ca_tenant a) Entity i d (w_store w))"

definition note_created :: "string \<Rightarrow> string list \<Rightarrow> string list" where
  "note_created i created = (if i \<in> set created then created else created @ [i])"

definition replace_one :: "'g broker_node \<Rightarrow> call_info \<Rightarrow> string \<times> json \<Rightarrow> batch_state \<times> world \<Rightarrow> batch_state \<times> world" where
  "replace_one N a x s = (case s of ((out, created), w) \<Rightarrow> (case upsert_entity N a (fst x) (stamp_new (nd_now N) (snd x)) w of
     (existed, w) \<Rightarrow> ((add_success (fst x) out, if existed then created else note_created (fst x) created), w)))"

definition merge_closure :: "string \<Rightarrow> json \<Rightarrow> json \<Rightarrow> (bool \<times> json) ngsi_result" where
  "merge_closure ts d doc = Ok (False, merge_into ts d doc)"

definition note_result :: "(string \<Rightarrow> bool ngsi_result \<Rightarrow> batch_outcome \<Rightarrow> batch_outcome) \<Rightarrow> (string \<times> json) \<times> bool ngsi_result option
    \<Rightarrow> batch_outcome \<Rightarrow> batch_outcome" where
  "note_result seen xr out = (case xr of (x, r) \<Rightarrow> (case r of None \<Rightarrow> out | Some r \<Rightarrow> seen (fst x) r out))"

definition seen_merge :: "string \<Rightarrow> bool ngsi_result \<Rightarrow> batch_outcome \<Rightarrow> batch_outcome" where
  "seen_merge i r out = (case r of Err e \<Rightarrow> add_error (err_entry (Some i) e) out | Ok _ \<Rightarrow> add_success i out)"

definition absent_docs :: "batch_docs \<Rightarrow> bool ngsi_result option list \<Rightarrow> batch_docs" where
  "absent_docs xs rs = map fst (filter (\<lambda>xr. snd xr = None) (zip xs rs))"

definition upsert_round :: "'g broker_node \<Rightarrow> call_info \<Rightarrow> bool \<Rightarrow> batch_docs \<Rightarrow> batch_state \<times> world \<Rightarrow> batch_state \<times> world" where
  "upsert_round N a update xs s =
     (if \<not> update then fold (replace_one N a) xs s
      else (case s of ((out, created), w) \<Rightarrow> (case batch_mutate N a (merge_closure (nd_now N)) xs w of
        (rs, w) \<Rightarrow> fold (replace_one N a) (absent_docs xs rs) ((fold (note_result seen_merge) (zip xs rs) out, created), w))))"

text \<open>With \<open>noOverwrite\<close> an instance is added where the dataset has none; the flag is set when one was in the way.\<close>

definition add_missing :: "json \<Rightarrow> json list \<times> bool \<Rightarrow> json list \<times> bool" where
  "add_missing ni s = (case s of (cur, skipped) \<Rightarrow>
     if ds_pos (inst_str ni ''datasetId'') cur \<noteq> None then (cur, True) else (cur @ [ni], skipped))"

definition missing_attr :: "string \<times> json \<Rightarrow> jobj \<times> bool \<Rightarrow> jobj \<times> bool" where
  "missing_attr e s = (case (e, s) of ((k, v), (target, skipped)) \<Rightarrow>
     if is_fragment_meta k then s
     else (case Option.bind (bm_get target k) as_array of
         None \<Rightarrow> (bm_insert k (JArr (array_or_empty (Some v))) target, skipped)
       | Some cur \<Rightarrow> (case fold add_missing (array_or_empty (Some v)) (cur, skipped) of
           (cur, skipped) \<Rightarrow> (bm_insert k (JArr cur) target, skipped))))"

definition append_missing :: "string \<Rightarrow> json \<Rightarrow> json \<Rightarrow> (bool \<times> json) ngsi_result" where
  "append_missing ts d doc = (case (doc, d) of
     (JObj target, JObj frag) \<Rightarrow> (case fold missing_attr frag (target, False) of (m, skipped) \<Rightarrow> Ok (skipped, JObj (touch_entity ts m)))
   | (JObj target, _) \<Rightarrow> Err (InternalError ''expanded document is not a JSON object'')
   | _ \<Rightarrow> Err not_an_object)"

definition seen_update :: "string \<times> json \<Rightarrow> bool ngsi_result option \<Rightarrow> batch_outcome \<Rightarrow> batch_outcome" where
  "seen_update x r out = (case r of
     None \<Rightarrow> add_error (err_entry (Some (fst x)) (not_found (fst x))) out
   | Some (Err e) \<Rightarrow> add_error (err_entry (Some (fst x)) e) out
   | Some (Ok skipped) \<Rightarrow> if skipped then add_error (err_entry (Some (fst x)) (BadRequestData ''some attributes already existed (noOverwrite)'')) out
       else add_success (fst x) out)"

definition update_round :: "'g broker_node \<Rightarrow> call_info \<Rightarrow> bool \<Rightarrow> batch_docs \<Rightarrow> batch_state \<times> world \<Rightarrow> batch_state \<times> world" where
  "update_round N a missing_only xs s = (case s of ((out, created), w) \<Rightarrow>
     (case batch_mutate N a ((if missing_only then append_missing else merge_closure) (nd_now N)) xs w of
        (rs, w) \<Rightarrow> ((fold (\<lambda>(x, r). seen_update x r) (zip xs rs) out, created), w)))"

definition create_one :: "'g broker_node \<Rightarrow> call_info \<Rightarrow> string \<times> json \<Rightarrow> batch_state \<times> world \<Rightarrow> batch_state \<times> world" where
  "create_one N a x s = (case s of ((out, created), w) \<Rightarrow> (case store_entity N a (fst x) (stamp_new (nd_now N) (snd x)) w of
     (True, w) \<Rightarrow> ((add_success (fst x) out, note_created (fst x) created), w)
   | (False, w) \<Rightarrow> ((add_error (err_entry (Some (fst x)) (AlreadyExists (already_exists (fst x)))) out, created), w)))"

definition local_arm :: "'g broker_node \<Rightarrow> call_info \<Rightarrow> batch_mode \<Rightarrow> prepared list \<Rightarrow> world \<Rightarrow> batch_state \<times> world" where
  "local_arm N a m ps w =
     (let update = has_option (ca_params a) ''update''; no_over = has_option (ca_params a) ''noOverwrite'';
          s = ((\<lparr>bo_success = [], bo_errors = bad_docs ps\<rparr>, []), w); xs = good_docs ps
      in (case m of
            BCreate \<Rightarrow> fold (create_one N a) xs s
          | BUpsert \<Rightarrow> fold (upsert_round N a update) (rounds_of xs) s
          | BUpdate \<Rightarrow> fold (update_round N a no_over) (rounds_of xs) s
          | BMerge \<Rightarrow> fold (update_round N a False) (rounds_of xs) s))"

definition batch_reply :: "batch_mode \<Rightarrow> batch_state \<Rightarrow> reply" where
  "batch_reply m s = (case s of (out, created) \<Rightarrow>
     (let out = (if m = BUpsert \<and> created \<noteq> [] \<and> bo_errors out = [] then out\<lparr>bo_success := created\<rparr> else out)
      in (case m of
            BCreate \<Rightarrow> respond 201 True out
          | BUpsert \<Rightarrow> if created \<noteq> [] then respond 201 True out else respond 204 False out
          | _ \<Rightarrow> respond 204 False out)))"

definition batch_write :: "'g broker_node \<Rightarrow> call_info \<Rightarrow> batch_mode \<Rightarrow> batch_item list \<Rightarrow> world \<Rightarrow> reply \<times> world" where
  "batch_write N a m items w =
     (if \<not> nd_gate N (clause_of m) JNull then (Forbidden, w)
      else (case batch_spec items of (spec, fs) \<Rightarrow>
        (case write_plan N (a\<lparr>ca_ctx := e_core (nd_env N)\<rparr>) spec of
           None \<Rightarrow> (loop_508, w)
         | Some regs \<Rightarrow> (case local_arm N a m (map (prepare N m (filter is_proxy regs)) items) w of
             (s, w) \<Rightarrow>
               if regs = [] then (batch_reply m s, w)
               else (case forward_batch N a m (has_option (ca_params a) ''update'') (has_option (ca_params a) ''noOverwrite'') regs fs
                       (s, w_egress w) of
                 (s, e) \<Rightarrow> (batch_reply m s, w\<lparr>w_egress := e\<rparr>))))))"

definition batch_entities :: "'g broker_node \<Rightarrow> call_info \<Rightarrow> batch_mode \<Rightarrow> (json \<Rightarrow> jctx ngsi_result) \<Rightarrow> nat \<Rightarrow> bool \<Rightarrow> string option \<Rightarrow> json
    \<Rightarrow> world \<Rightarrow> reply \<times> world" where
  "batch_entities N a m load cap ld link v w = (case parse_batch (nd_lib N) load (e_core (nd_env N)) cap ld link v of
     Err e \<Rightarrow> (Refused e, w) | Ok items \<Rightarrow> batch_write N a m items w)"

subsection \<open>Deleting\<close>

definition drop_entity :: "'g broker_node \<Rightarrow> call_info \<Rightarrow> string \<Rightarrow> world \<Rightarrow> bool \<times> world" where
  "drop_entity N a i w = map_prod id (\<lambda>st. w\<lparr>w_store := st\<rparr>)
     (delete (nd_ext N) (nd_codec N) (nd_now N) (ca_tenant a) Entity i (w_store w))"

primrec batch_drop :: "'g broker_node \<Rightarrow> call_info \<Rightarrow> string list \<Rightarrow> world \<Rightarrow> (string \<times> bool) list \<times> world" where
  "batch_drop N a [] w = ([], w)"
| "batch_drop N a (i # is) w = (case drop_entity N a i w of
     (hit, w) \<Rightarrow> (case batch_drop N a is w of (hs, w) \<Rightarrow> ((i, hit) # hs, w)))"

definition send_delete :: "'g broker_node \<Rightarrow> call_info \<Rightarrow> fed_reg \<Rightarrow> string \<Rightarrow> remote \<times> egress \<Rightarrow> remote \<times> egress" where
  "send_delete N a r i s = (case s of ((ok, err), e) \<Rightarrow>
     (case forward (nd_fed N) (ca_tenant a) (ca_headers a) r (ca_url a) ''DELETE'' (entity_url r i) [] None e of
        ((st, _, _), e) \<Rightarrow>
          if 200 \<le> st \<and> st < 300 \<and> st \<noteq> 207 then ((ok @ [(i, False)], err), e)
          else ((ok, err @ [err_remote (Some i) st (''forwarded delete returned '' @ decimal st)]), e)))"

definition delete_reg :: "'g broker_node \<Rightarrow> call_info \<Rightarrow> string list \<Rightarrow> fed_reg \<Rightarrow> remote \<times> egress \<Rightarrow> remote \<times> egress" where
  "delete_reg N a ids r s = (case s of (rem, e) \<Rightarrow>
     (let sent = filter (can_match_id (nd_build N) r) ids in
      if sent = [] then s
      else if supports r ''deleteBatch'' then
        (case forward (nd_fed N) (ca_tenant a) (ca_headers a) r (ca_url a) ''POST'' (fr_endpoint r @ ''/ngsi-ld/v1/entityOperations/delete'') []
            (Some (JArr (map JStr sent))) e of
           ((st, body, _), e) \<Rightarrow> (merge_remote_batch st body sent False rem, e))
      else if supports r ''deleteEntity'' then fold (send_delete N a r) sent s
      else if is_proxy r then (conflicts_for ''deleteBatch'' sent rem, e)
      else s))"

definition delete_outcome :: "string list \<Rightarrow> nat \<Rightarrow> (string \<times> bool) list \<Rightarrow> remote \<Rightarrow> batch_outcome" where
  "delete_outcome ids not_strings hits rem = (case rem of (ok, err) \<Rightarrow>
     (let local_ok = map fst (filter snd hits);
          missed = map fst (filter (\<lambda>h. \<not> snd h) hits);
          erred = List.map_filter (\<lambda>e. Option.bind (jget e ''entityId'') as_str) err;
          out = \<lparr>bo_success = [], bo_errors = replicate not_strings (err_entry None (BadRequestData ''entity id must be a string''))\<rparr>;
          out = fold (\<lambda>i out. if i \<in> set local_ok then add_success i out else out) ids out;
          out = fold (\<lambda>(i, _). add_success i) ok out;
          out = out\<lparr>bo_errors := bo_errors out @ err\<rparr>
      in fold (\<lambda>i out. if i \<notin> fst ` set ok \<and> i \<notin> set erred then add_error (err_entry (Some i) (not_found i)) out else out) missed out))"

definition batch_delete :: "'g broker_node \<Rightarrow> call_info \<Rightarrow> nat \<Rightarrow> json \<Rightarrow> world \<Rightarrow> reply \<times> world" where
  "batch_delete N a cap v w = (case v of
     JArr (x # xs) \<Rightarrow>
       if JNull \<in> set (x # xs) then (Refused null_items, w)
       else if cap < length (x # xs) then (Refused (too_many_items (length (x # xs)) cap), w)
       else if \<not> nd_gate N ''5.6.10'' JNull then (Forbidden, w)
       else (let ids = List.map_filter as_str (x # xs) in
         case write_plan N (a\<lparr>ca_ctx := e_core (nd_env N)\<rparr>) (default_spec\<lparr>cs_ids := Some ids\<rparr>) of
           None \<Rightarrow> (loop_508, w)
         | Some regs \<Rightarrow> (case batch_drop N a ids w of (hits, w) \<Rightarrow>
             (case fold (delete_reg N a ids) regs (([], []), w_egress w) of
               (rem, e) \<Rightarrow> (respond 204 False (delete_outcome ids (length (filter (\<lambda>v. \<not> is_string v) (x # xs))) hits rem), w\<lparr>w_egress := e\<rparr>))))
   | _ \<Rightarrow> (Refused (BadRequestData ''batch delete body must be a non-empty array''), w))"

subsection \<open>Routes\<close>

datatype request =
    CreateEntity jobj
  | MergeEntity string jobj
  | ReplaceEntity string jobj
  | DeleteEntity string
  | AppendAttrs string jobj
  | UpdateAttrs string jobj
  | PartialUpdate string string jobj
  | ReplaceAttr string string jobj
  | DeleteAttr bool string string
  | BatchWrite batch_mode "json \<Rightarrow> jctx ngsi_result" nat bool "string option" json
  | BatchDelete nat json

definition serve :: "'g broker_node \<Rightarrow> call_info \<Rightarrow> request \<Rightarrow> world \<Rightarrow> reply \<times> world" where
  "serve N a req w = (case req of
     CreateEntity obj \<Rightarrow> create_entity N a obj w
   | MergeEntity i obj \<Rightarrow> merge_entity N a i obj w
   | ReplaceEntity i obj \<Rightarrow> replace_entity N a i obj w
   | DeleteEntity i \<Rightarrow> delete_entity N a i w
   | AppendAttrs i obj \<Rightarrow> append_attrs N a i obj w
   | UpdateAttrs i obj \<Rightarrow> update_attrs N a i obj w
   | PartialUpdate i n obj \<Rightarrow> partial_update_attr N a i n obj w
   | ReplaceAttr i n obj \<Rightarrow> replace_attr N a i n obj w
   | DeleteAttr had i n \<Rightarrow> delete_attr N a had i n w
   | BatchWrite m load cap ld link v \<Rightarrow> batch_entities N a m load cap ld link v w
   | BatchDelete cap v \<Rightarrow> batch_delete N a cap v w)"

text \<open>What changes the stored entities: a request, and the sweep of what has expired.\<close>

datatype 'g world_event = Served "'g broker_node" call_info request | Swept ext codec string

definition world_step :: "'g world_event \<Rightarrow> world \<Rightarrow> world" where
  "world_step ev w = (case ev of
     Served N a req \<Rightarrow> snd (serve N a req w)
   | Swept E C now \<Rightarrow> w\<lparr>w_store := snd (sweep_expired E C now (w_store w))\<rparr>)"

end
