(* ===== verification/PatchSpec.thy ===== *)
theory PatchSpec
  imports Patch
begin

text \<open>What the writes of \<open>Patch\<close> do, dataset by dataset; the shape of a stored entity, which every write keeps; the
  patch of a value against the JSON merge patch.\<close>

subsection \<open>Instances by dataset\<close>

abbreviation ds_of :: "json \<Rightarrow> string option" where
  "ds_of i \<equiv> inst_str i ''datasetId''"

lemma in_dataset_map: "in_dataset ds xs = map_of (map (\<lambda>i. (ds_of i, i)) xs) ds"
  by (induction xs) (auto simp: in_dataset_def)

lemma in_dataset_Some: "one_each xs \<Longrightarrow> in_dataset ds xs = Some x \<longleftrightarrow> x \<in> set xs \<and> ds_of x = ds"
  by (auto simp: in_dataset_map one_each_def map_of_eq_Some_iff comp_def)

lemma ds_pos_None: "ds_pos ds xs = None \<longleftrightarrow> in_dataset ds xs = None"
  by (induction xs) (auto simp: in_dataset_def)

lemma ds_pos_Some: "ds_pos ds xs = Some p \<Longrightarrow> p < length xs \<and> in_dataset ds xs = Some (xs ! p) \<and> ds_of (xs ! p) = ds"
  by (induction xs arbitrary: p) (auto simp: in_dataset_def split: if_splits)

lemma in_dataset_snoc:
  "in_dataset d (xs @ [x]) = (case in_dataset d xs of Some y \<Rightarrow> Some y | None \<Rightarrow> if ds_of x = d then Some x else None)"
  by (induction xs) (auto simp: in_dataset_def)

lemma map_update_same: "p < length xs \<Longrightarrow> f x = f (xs ! p) \<Longrightarrow> map f (xs[p := x]) = map f xs"
  by (induction xs arbitrary: p) (auto split: nat.splits)

lemma one_each_update: "one_each xs \<Longrightarrow> p < length xs \<Longrightarrow> ds_of x = ds_of (xs ! p) \<Longrightarrow> one_each (xs[p := x])"
  by (simp add: one_each_def map_update_same)

lemma in_dataset_update:
  assumes "one_each xs" "p < length xs" "ds_of x = ds_of (xs ! p)"
  shows "in_dataset d (xs[p := x]) = (if d = ds_of x then Some x else in_dataset d xs)"
  using assms
proof (induction xs arbitrary: p)
  case (Cons y ys)
  then show ?case
    by (cases p) (auto simp: in_dataset_def one_each_def)
qed simp

lemma remove_at_Cons [simp]: "remove_at 0 (x # xs) = xs" "remove_at (Suc p) (x # xs) = x # remove_at p xs"
  by (simp_all add: remove_at_def)

lemma set_remove_at: "x \<in> set (remove_at p xs) \<Longrightarrow> x \<in> set xs"
  by (auto simp: remove_at_def dest: in_set_takeD in_set_dropD)

lemma one_each_remove: "one_each xs \<Longrightarrow> one_each (remove_at p xs)"
proof (induction xs arbitrary: p)
  case (Cons x xs)
  then show ?case by (cases p) (auto simp: one_each_def dest: set_remove_at)
qed (simp add: remove_at_def)

lemma in_dataset_remove:
  assumes "one_each xs" "p < length xs"
  shows "in_dataset d (remove_at p xs) = (if d = ds_of (xs ! p) then None else in_dataset d xs)"
  using assms
proof (induction xs arbitrary: p)
  case (Cons y ys)
  then show ?case
  proof (cases p)
    case 0
    have "in_dataset (ds_of y) ys = None" using Cons.prems(1) by (auto simp: in_dataset_None one_each_def image_iff)
    with 0 show ?thesis by (auto simp: in_dataset_def)
  next
    case (Suc q)
    then have "ys ! q \<in> set ys" using Cons.prems(2) by simp
    then have "ds_of (ys ! q) \<in> ds_of ` set ys" by (rule imageI)
    then have "ds_of (ys ! q) \<noteq> ds_of y" using Cons.prems(1) by (auto simp only: one_each_def list.map distinct.simps set_map)
    then show ?thesis using Cons Suc by (auto simp: in_dataset_def one_each_def)
  qed
qed simp

subsection \<open>Folds that work key by key\<close>

text \<open>A step that changes only the member it is given, and looks at no other.\<close>

definition keywise :: "(string \<times> 'a \<Rightarrow> 'v bmap \<Rightarrow> 'v bmap) \<Rightarrow> bool" where
  "keywise f \<longleftrightarrow> (\<forall>e t k. k \<noteq> fst e \<longrightarrow> bm_get (f e t) k = bm_get t k) \<and>
     (\<forall>e t t'. bm_get t (fst e) = bm_get t' (fst e) \<longrightarrow> bm_get (f e t) (fst e) = bm_get (f e t') (fst e))"

lemma keywise_frame: "keywise f \<Longrightarrow> k \<noteq> fst e \<Longrightarrow> bm_get (f e t) k = bm_get t k"
  and keywise_local: "keywise f \<Longrightarrow> bm_get t (fst e) = bm_get t' (fst e) \<Longrightarrow> bm_get (f e t) (fst e) = bm_get (f e t') (fst e)"
  unfolding keywise_def by blast+

lemma keywise_if: "keywise f \<Longrightarrow> keywise (\<lambda>e t. if P (fst e) then t else f e t)"
proof -
  assume f: "keywise f"
  have "bm_get (if P (fst e) then t else f e t) k = bm_get t k" if "k \<noteq> fst e" for e t k
    using keywise_frame [OF f that] by simp
  moreover have "bm_get (if P (fst e) then t else f e t) (fst e) = bm_get (if P (fst e) then t' else f e t') (fst e)"
    if "bm_get t (fst e) = bm_get t' (fst e)" for e t t'
    using keywise_local [OF f that] that by simp
  ultimately show ?thesis unfolding keywise_def by blast
qed

lemma keywise_fold:
  assumes "keywise f" "distinct (map fst p)"
  shows "bm_get (fold f p t) k = (case map_of p k of None \<Rightarrow> bm_get t k | Some v \<Rightarrow> bm_get (f (k, v) t) k)"
  using assms(2)
proof (induction p arbitrary: t)
  case (Cons e p)
  have frame: "\<And>e t k. k \<noteq> fst e \<Longrightarrow> bm_get (f e t) k = bm_get t k"
    and loc: "\<And>e t t'. bm_get t (fst e) = bm_get t' (fst e) \<Longrightarrow> bm_get (f e t) (fst e) = bm_get (f e t') (fst e)"
    using assms(1) unfolding keywise_def by blast+
  obtain j v where e: "e = (j, v)" by (cases e)
  show ?case
  proof (cases "k = j")
    case True
    then have "map_of p k = None" using Cons.prems e by (auto simp: map_of_eq_None_iff)
    then show ?thesis using Cons e True by simp
  next
    case False
    then have same: "bm_get (f e t) k = bm_get t k" using frame [of k e t] e by simp
    then have "bm_get (f (k, v) (f e t)) k = bm_get (f (k, v) t) k" for v using loc [of "f e t" "(k, v)" t] by simp
    moreover have "bm_get (fold f p (f e t)) k =
        (case map_of p k of None \<Rightarrow> bm_get (f e t) k | Some v \<Rightarrow> bm_get (f (k, v) (f e t)) k)"
      using Cons by simp
    ultimately show ?thesis using same False e by (simp cong: option.case_cong)
  qed
qed simp

lemma bm_ok_map_of: "bm_ok m \<Longrightarrow> map_of m k = bm_get m k"
  by (simp add: bm_get_def)

definition patch_member :: "string \<times> json \<Rightarrow> jobj \<Rightarrow> jobj" where
  "patch_member e t = (case e of (k, v) \<Rightarrow>
     if removal v then bm_remove k t
     else (case (bm_get t k, v) of
        (Some (JObj cur), JObj po) \<Rightarrow> bm_insert k (JObj (merge_value_object cur po)) t
      | _ \<Rightarrow> bm_insert k v t))"

lemma patch_member_get:
  "bm_get (patch_member (k, v) t) j = (if j \<noteq> k then bm_get t j else if removal v then None
     else Some (case (bm_get t k, v) of (Some (JObj cur), JObj po) \<Rightarrow> JObj (merge_value_object cur po) | _ \<Rightarrow> v))"
  by (auto simp: patch_member_def split: option.split json.split)

lemma keywise_patch: "keywise patch_member"
  unfolding keywise_def by (auto simp: patch_member_get split_paired_all)

lemma merge_value_object_fold: "merge_value_object t p = fold patch_member p t"
  by (subst merge_value_object.simps) (simp add: patch_member_def [abs_def])

definition patch_inst_member :: "string \<times> json \<Rightarrow> jobj \<Rightarrow> jobj" where
  "patch_inst_member e t = (if fst e = ''createdAt'' \<or> fst e = ''modifiedAt'' then t else patch_member e t)"

lemma keywise_patch_inst: "keywise patch_inst_member"
  unfolding patch_inst_member_def [abs_def] by (rule keywise_if [OF keywise_patch])

lemma patch_instance_fold:
  "patch_instance ts (JObj f) (JObj t) = JObj (bm_insert ''modifiedAt'' (JStr ts) (fold patch_inst_member f t))"
proof -
  have "(\<lambda>(k, v) t. if k = ''createdAt'' \<or> k = ''modifiedAt'' then t
       else if removal v then bm_remove k t
       else (case (bm_get t k, v) of
          (Some (JObj cur), JObj patch) \<Rightarrow> bm_insert k (JObj (merge_value_object cur patch)) t
        | _ \<Rightarrow> bm_insert k v t)) = patch_inst_member"
    by (rule ext, rule ext) (simp add: patch_inst_member_def patch_member_def split_beta)
  then show ?thesis by (simp add: patch_instance_def)
qed

lemma patch_instance_get:
  assumes "bm_ok f"
  shows "jget (patch_instance ts (JObj f) (JObj t)) k =
    (if k = ''modifiedAt'' then Some (JStr ts)
     else case (if k = ''createdAt'' then None else bm_get f k) of
       None \<Rightarrow> bm_get t k
     | Some v \<Rightarrow> bm_get (patch_member (k, v) t) k)"
  using keywise_fold [OF keywise_patch_inst bm_ok_distinct [OF assms]] 
  by (auto simp: patch_instance_fold bm_get_def [symmetric] patch_inst_member_def split: option.split)

text \<open>The dataset of an instance survives a patch that addresses it.\<close>

definition sound_ds :: "json \<Rightarrow> bool" where
  "sound_ds i \<longleftrightarrow> (\<forall>m. i = JObj m \<longrightarrow> bm_ok m) \<and> ds_of i \<noteq> Some NGSI_NULL"

lemma patch_instance_ds:
  assumes "sound_ds fi" "ds_of x = ds_of fi"
  shows "ds_of (patch_instance ts fi x) = ds_of fi"
proof (cases "\<exists>f t. fi = JObj f \<and> x = JObj t")
  case True
  then obtain f t where ft: "fi = JObj f" "x = JObj t" by blast
  then have "bm_ok f" using assms(1) by (simp add: sound_ds_def)
  from patch_instance_get [OF this, of ts t "''datasetId''"] ft assms show ?thesis
    by (auto simp: inst_str_def sound_ds_def patch_member_get removal_def is_ngsi_null_def as_str_Some_iff
        split: option.splits json.splits)
qed (use assms(2) in \<open>auto simp: patch_instance_def split: json.split\<close>)

lemma stamped_ds [simp]: "ds_of (stamped_instance ts i) = ds_of i"
  by (auto simp: stamped_instance_def inst_str_def stamp_members_def split: json.split)

lemma merge_one_one: "one_each cur \<Longrightarrow> sound_ds fi \<Longrightarrow> one_each (merge_one ts fi cur)"
proof (cases "ds_pos (ds_of fi) cur")
  case None
  assume a: "one_each cur"
  have "one_each (cur @ [stamped_instance ts fi])"
    using None a by (auto simp: one_each_def ds_pos_None in_dataset_None)
  with None a show ?thesis by (simp add: merge_one_def)
next
  case (Some p)
  assume "one_each cur" "sound_ds fi"
  with ds_pos_Some [OF Some] Some patch_instance_ds [of fi "cur ! p" ts] show ?thesis
    by (simp add: merge_one_def one_each_remove one_each_update)
qed

lemma merge_one_get:
  assumes "one_each cur" "sound_ds fi"
  shows "in_dataset d (merge_one ts fi cur) =
    (if d \<noteq> ds_of fi then in_dataset d cur
     else if is_deletion_instance fi then None
     else Some (case in_dataset d cur of Some x \<Rightarrow> patch_instance ts fi x | None \<Rightarrow> stamped_instance ts fi))"
proof (cases "ds_pos (ds_of fi) cur")
  case None
  then have "in_dataset (ds_of fi) cur = None" by (simp add: ds_pos_None)
  with None show ?thesis by (auto simp: merge_one_def in_dataset_snoc split: option.split)
next
  case (Some p)
  note p = ds_pos_Some [OF this]
  then have "ds_of (patch_instance ts fi (cur ! p)) = ds_of (cur ! p)" using patch_instance_ds [OF assms(2)] by simp
  with Some p assms(1) show ?thesis
    by (auto simp: merge_one_def in_dataset_remove in_dataset_update)
qed

lemma merge_all_get:
  assumes "one_each cur" "one_each fis" "\<forall>fi\<in>set fis. sound_ds fi"
  shows "one_each (fold (merge_one ts) fis cur) \<and> in_dataset d (fold (merge_one ts) fis cur) =
    (case in_dataset d fis of
       None \<Rightarrow> in_dataset d cur
     | Some fi \<Rightarrow> if is_deletion_instance fi then None
         else Some (case in_dataset d cur of Some x \<Rightarrow> patch_instance ts fi x | None \<Rightarrow> stamped_instance ts fi))"
  using assms
proof (induction fis arbitrary: cur)
  case (Cons fi fis)
  then have f: "sound_ds fi" "one_each fis" by (simp_all add: one_each_def)
  have fresh: "in_dataset (ds_of fi) fis = None" using Cons.prems(2) by (auto simp: in_dataset_None one_each_def image_iff)
  have "in_dataset d (fi # fis) = (if d = ds_of fi then Some fi else in_dataset d fis)" by (simp add: in_dataset_def)
  with Cons.IH [OF merge_one_one [OF Cons.prems(1) f(1), of ts] f(2)] Cons.prems(3) fresh
    merge_one_get [OF Cons.prems(1) f(1), of d ts]
  show ?case by (auto split: option.split if_splits)
qed (simp add: in_dataset_def)

subsection \<open>The merge patch of an entity\<close>

definition merged_member :: "string \<Rightarrow> string \<Rightarrow> json \<Rightarrow> json option \<Rightarrow> json option" where
  "merged_member ts k v old =
     (if k \<in> {''id'', ''createdAt'', ''modifiedAt''} then old
      else if k = ''type'' then Some (JArr (union_values (array_or_empty (Some v)) (array_or_empty old)))
      else if k = ''scope'' then (if is_ngsi_null_list v then None else Some v)
      else if k = ''expiresAt'' then (if is_ngsi_null v then None else Some v)
      else (let cur = fold (merge_one ts) (array_or_empty (Some v)) (array_or_empty old) in if cur = [] then None else Some (JArr cur)))"

lemma merge_entry_get: "bm_get (merge_entry ts (k, v) t) j = (if j = k then merged_member ts k v (bm_get t k) else bm_get t j)"
  by (simp add: merge_entry_def merged_member_def Let_def)

lemma keywise_entry: "keywise (merge_entry ts)"
  unfolding keywise_def split_paired_all by (simp add: merge_entry_get)

lemma merge_into_get:
  assumes "bm_ok f"
  shows "jget (merge_into ts (JObj f) (JObj t)) k = (if k = ''modifiedAt'' then Some (JStr ts)
    else case bm_get f k of None \<Rightarrow> bm_get t k | Some v \<Rightarrow> merged_member ts k v (bm_get t k))"
  using keywise_fold [OF keywise_entry bm_ok_distinct [OF assms]]
  by (simp add: merge_into_def merge_entry_get bm_get_def [symmetric] cong: option.case_cong)

lemma merge_into_obj: "\<exists>m. merge_into ts frag (JObj t) = JObj m"
  by (simp add: merge_into_def split: json.split)

lemma keywise_ok: "(\<And>e t. bm_ok t \<Longrightarrow> bm_ok (f e t)) \<Longrightarrow> bm_ok t \<Longrightarrow> bm_ok (fold f p t)"
  by (induction p arbitrary: t) simp_all

text \<open>A stored entity: a map whose attributes are non-empty lists with one instance per dataset.  A fragment may also
  hold empty lists; its instances name their dataset.\<close>

definition attr_list :: "bool \<Rightarrow> json \<Rightarrow> bool" where
  "attr_list full v \<longleftrightarrow> (\<exists>xs. v = JArr xs \<and> one_each xs \<and> (full \<longrightarrow> xs \<noteq> []))"

definition entity_inv :: "jobj \<Rightarrow> bool" where
  "entity_inv m \<longleftrightarrow> bm_ok m \<and> (\<forall>k v. bm_get m k = Some v \<longrightarrow> \<not> is_meta k \<longrightarrow> attr_list True v)"

definition fragment_inv :: "jobj \<Rightarrow> bool" where
  "fragment_inv m \<longleftrightarrow> bm_ok m \<and> (\<forall>k v. bm_get m k = Some v \<longrightarrow> \<not> is_meta k \<longrightarrow>
     attr_list False v \<and> (\<forall>i\<in>set (array_or_empty (Some v)). sound_ds i))"

lemma entity_attr: "entity_inv m \<Longrightarrow> \<not> is_meta k \<Longrightarrow> one_each (array_or_empty (bm_get m k))"
  by (cases "bm_get m k") (fastforce simp: entity_inv_def attr_list_def array_or_empty_def one_each_def)+

lemma fragment_attr:
  "fragment_inv f \<Longrightarrow> bm_get f k = Some v \<Longrightarrow> \<not> is_meta k \<Longrightarrow> \<exists>xs. v = JArr xs \<and> one_each xs \<and> (\<forall>i\<in>set xs. sound_ds i)"
  by (fastforce simp: fragment_inv_def attr_list_def array_or_empty_def)

lemma meta_keys: "is_meta ''id''" "is_meta ''type''" "is_meta ''scope''" "is_meta ''expiresAt''" "is_meta ''createdAt''" "is_meta ''modifiedAt''"
  by (simp_all add: is_meta_def ENTITY_META_KEYS_def)

lemma merged_attr:
  assumes "\<not> is_meta k"
  shows "merged_member ts k (JArr xs) old =
    (let cur = fold (merge_one ts) xs (array_or_empty old) in if cur = [] then None else Some (JArr cur))"
proof -
  have "k \<notin> {''id'', ''createdAt'', ''modifiedAt''}" "k \<noteq> ''type''" "k \<noteq> ''scope''" "k \<noteq> ''expiresAt''"
    using assms meta_keys by auto
  then show ?thesis by (simp add: merged_member_def array_or_empty_def)
qed

lemma merge_into_inv:
  assumes "entity_inv t" "fragment_inv f" "merge_into ts (JObj f) (JObj t) = JObj m"
  shows "entity_inv m"
proof -
  have ok: "bm_ok f" "bm_ok t" using assms by (simp_all add: fragment_inv_def entity_inv_def)
  have "bm_ok (merge_entry ts e t')" if "bm_ok t'" for e t'
    using that by (auto simp: merge_entry_def Let_def bm_insert_ok bm_remove_ok split: prod.split)
  then have "bm_ok m" using keywise_ok [of "merge_entry ts" t f] ok assms(3) by (simp add: merge_into_def) (metis bm_insert_ok)
  moreover have "attr_list True v" if k: "bm_get m k = Some v" "\<not> is_meta k" for k v
  proof (cases "bm_get f k")
    case None
    with merge_into_get [OF ok(1), of ts t k] k assms(1,3) show ?thesis
      using meta_keys by (auto simp: entity_inv_def split: if_splits)
  next
    case (Some w)
    from fragment_attr [OF assms(2) Some k(2)] obtain xs where w: "w = JArr xs" "one_each xs" "\<forall>i\<in>set xs. sound_ds i" by blast
    from merge_all_get [OF entity_attr [OF assms(1) k(2)] w(2,3)]
    have "one_each (fold (merge_one ts) xs (array_or_empty (bm_get t k)))" by blast
    moreover have "k \<noteq> ''modifiedAt''" using k(2) meta_keys by blast
    ultimately show ?thesis
      using merge_into_get [OF ok(1), of ts t k] merged_attr [OF k(2), of ts xs "bm_get t k"] k(1) assms(3) Some w(1)
      by (auto simp: attr_list_def Let_def split: if_splits)
  qed
  ultimately show ?thesis unfolding entity_inv_def by blast
qed

lemma merge_into_dataset:
  assumes "entity_inv t" "fragment_inv f" "\<not> is_meta k"
  shows "in_dataset d (insts_of (merge_into ts (JObj f) (JObj t)) k) =
    (case in_dataset d (insts_of (JObj f) k) of
       None \<Rightarrow> in_dataset d (insts_of (JObj t) k)
     | Some fi \<Rightarrow> if is_deletion_instance fi then None
         else Some (case in_dataset d (insts_of (JObj t) k) of Some x \<Rightarrow> patch_instance ts fi x | None \<Rightarrow> stamped_instance ts fi))"
proof -
  have ok: "bm_ok f" using assms by (simp add: fragment_inv_def)
  have m: "k \<noteq> ''modifiedAt''" using assms(3) meta_keys by blast
  show ?thesis
  proof (cases "bm_get f k")
    case None
    with merge_into_get [OF ok, of ts t k] m show ?thesis by (simp add: insts_of_def array_or_empty_def in_dataset_def)
  next
    case (Some w)
    from fragment_attr [OF assms(2) Some assms(3)] obtain xs where w: "w = JArr xs" "one_each xs" "\<forall>i\<in>set xs. sound_ds i" by blast
    have arr: "array_or_empty (if cur = [] then None else Some (JArr cur)) = cur" "array_or_empty (Some (JArr cur)) = cur" for cur
      by (simp_all add: array_or_empty_def)
    then have "insts_of (merge_into ts (JObj f) (JObj t)) k = fold (merge_one ts) xs (array_or_empty (bm_get t k))"
      using merge_into_get [OF ok, of ts t k] merged_attr [OF assms(3)] m Some w(1) by (simp add: insts_of_def Let_def)
    with merge_all_get [OF entity_attr [OF assms(1,3)] w(2,3), of ts d] Some w(1)
    show ?thesis by (simp add: insts_of_def arr cong: option.case_cong if_cong)
  qed
qed

subsection \<open>The merge of values is the JSON merge patch\<close>

text \<open>RFC 7396, with the NGSI-LD null beside \<open>null\<close> as the marker of a removal.\<close>

function rfc_merge :: "json \<Rightarrow> json \<Rightarrow> json" where
  "rfc_merge target (JObj p) = JObj (fold (\<lambda>e t. case e of (k, v) \<Rightarrow>
     if removal v then bm_remove k t
     else bm_insert k (rfc_merge (case bm_get t k of Some x \<Rightarrow> x | None \<Rightarrow> JNull) v) t) p (case target of JObj t \<Rightarrow> t | _ \<Rightarrow> []))"
| "rfc_merge target JNull = JNull"
| "rfc_merge target (JBool b) = JBool b"
| "rfc_merge target (JNum n) = JNum n"
| "rfc_merge target (JStr s) = JStr s"
| "rfc_merge target (JArr xs) = JArr xs"
  by pat_completeness auto
termination
proof (relation "measure (\<lambda>(t, p). size p)", goal_cases)
  case (2 target p e t k v)
  then have "(k, v) \<in> set p" by simp
  from size_json_entry [OF this] show ?case by simp
qed simp

text \<open>A value without removals; a patch whose removals lie only where the target has an object to patch.\<close>

fun no_removal :: "json \<Rightarrow> bool" where
  "no_removal (JObj m) = (bm_ok m \<and> list_all (\<lambda>e. \<not> removal (snd e) \<and> no_removal (snd e)) m)"
| "no_removal v = True"

function fits :: "jobj \<Rightarrow> jobj \<Rightarrow> bool" where
  "fits t p \<longleftrightarrow> bm_ok p \<and> (\<forall>e\<in>set p. case (bm_get t (fst e), snd e) of
     (Some (JObj cur), JObj po) \<Rightarrow> fits cur po
   | _ \<Rightarrow> no_removal (snd e))"
  by pat_completeness auto
termination
proof (relation "measure (\<lambda>(t, p). size (JObj p))", goal_cases)
  case (2 t p e)
  then have "(fst e, snd e) \<in> set p" by simp
  from size_json_entry [OF this] 2 show ?case by (cases "snd e") auto
qed simp

declare fits.simps [simp del] rfc_merge.simps(1) [simp del]

lemma keywise_fold_cong:
  assumes "keywise f" "distinct (map fst p)" "\<And>e t'. e \<in> set p \<Longrightarrow> bm_get t' (fst e) = bm_get t (fst e) \<Longrightarrow> f e t' = g e t'"
  shows "fold f p t = fold g p t"
  using assms(2,3)
proof (induction p arbitrary: t)
  case (Cons e p)
  have "f e t = g e t" using Cons.prems(2) by simp
  moreover have "bm_get (f e t) (fst d) = bm_get t (fst d)" if "d \<in> set p" for d
  proof -
    have "fst d \<in> fst ` set p" using that by (rule imageI)
    then have "fst d \<noteq> fst e" using Cons.prems(1) by (auto simp only: list.map distinct.simps set_map)
    then show ?thesis by (rule keywise_frame [OF assms(1)])
  qed
  then have "fold f p (f e t) = fold g p (f e t)" using Cons by simp
  ultimately show ?case by simp
qed simp

definition rfc_member :: "string \<times> json \<Rightarrow> jobj \<Rightarrow> jobj" where
  "rfc_member e t = (case e of (k, v) \<Rightarrow>
     if removal v then bm_remove k t
     else bm_insert k (rfc_merge (case bm_get t k of Some x \<Rightarrow> x | None \<Rightarrow> JNull) v) t)"

lemma rfc_merge_fold: "rfc_merge target (JObj p) = JObj (fold rfc_member p (case target of JObj t \<Rightarrow> t | _ \<Rightarrow> []))"
  by (simp add: rfc_merge.simps(1) rfc_member_def [abs_def])

lemma rfc_member_get:
  "bm_get (rfc_member (k, v) t) j = (if j \<noteq> k then bm_get t j else if removal v then None
     else Some (rfc_merge (case bm_get t k of Some x \<Rightarrow> x | None \<Rightarrow> JNull) v))"
  by (simp add: rfc_member_def)

lemma keywise_rfc: "keywise rfc_member"
  unfolding keywise_def split_paired_all by (simp add: rfc_member_get)

lemma rfc_fresh: "no_removal v \<Longrightarrow> (\<And>t. x \<noteq> JObj t) \<Longrightarrow> rfc_merge x v = v"
proof (induction v arbitrary: x rule: no_removal.induct)
  case (1 m)
  have ok: "bm_ok m" using 1(2) by simp
  have "fold rfc_member m [] = fold (\<lambda>e. bm_insert (fst e) (snd e)) m []"
  proof (rule keywise_fold_cong [OF keywise_rfc bm_ok_distinct [OF ok]])
    fix e and t' :: jobj
    assume e: "e \<in> set m" "bm_get t' (fst e) = bm_get [] (fst e)"
    then have "\<not> removal (snd e)" "no_removal (snd e)" using 1(2) by (auto simp: list_all_iff)
    with e 1(1) [OF e(1) this(2), of JNull] show "rfc_member e t' = bm_insert (fst e) (snd e) t'"
      by (simp add: rfc_member_def bm_get_def split_beta)
  qed
  also have "\<dots> = m" using bm_of_list_id [OF ok] by (simp add: bm_of_list_def)
  finally have "fold rfc_member m [] = m" .
  moreover have "(case x of JObj t \<Rightarrow> t | _ \<Rightarrow> []) = []" using 1(3) by (auto split: json.split)
  ultimately show ?case by (simp add: rfc_merge_fold)
qed simp_all

lemma merge_value_is_rfc: "fits t p \<Longrightarrow> rfc_merge (JObj t) (JObj p) = JObj (merge_value_object t p)"
proof (induction t p rule: fits.induct)
  case (1 t p)
  have ok: "bm_ok p" and fit: "\<And>e. e \<in> set p \<Longrightarrow> case (bm_get t (fst e), snd e) of
     (Some (JObj cur), JObj po) \<Rightarrow> fits cur po | _ \<Rightarrow> no_removal (snd e)"
    using 1(2) by (auto simp: fits.simps [of t p])
  have "fold rfc_member p t = fold patch_member p t"
  proof (rule keywise_fold_cong [OF keywise_rfc bm_ok_distinct [OF ok]])
    fix e t'
    assume e: "e \<in> set p" "bm_get t' (fst e) = bm_get t (fst e)"
    obtain k v where kv: "e = (k, v)" by (cases e)
    show "rfc_member e t' = patch_member e t'"
    proof (cases "\<exists>cur po. bm_get t k = Some (JObj cur) \<and> v = JObj po")
      case True
      then obtain cur po where c: "bm_get t k = Some (JObj cur)" "v = JObj po" by blast
      with 1(1) [OF e(1)] fit [OF e(1)] kv have "rfc_merge (JObj cur) (JObj po) = JObj (merge_value_object cur po)" by simp
      with c e(2) kv show ?thesis by (simp add: rfc_member_def patch_member_def)
    next
      case False
      have "rfc_merge x v = v" if "bm_get t k = Some x \<or> x = JNull" for x
      proof (cases "is_object v")
        case True
        then obtain po where "v = JObj po" by (cases v) auto
        with False that fit [OF e(1)] kv show ?thesis
          by (intro rfc_fresh) (auto split: option.splits json.splits)
      qed (cases v; simp)
      with False e(2) kv show ?thesis by (auto simp: rfc_member_def patch_member_def split: option.split json.split)
    qed
  qed
  then show ?case by (simp add: rfc_merge_fold merge_value_object_fold)
qed

text \<open>Outside that condition the code stores the marker: the patch of a member the target does not have is kept as it
  is, so a second application of the same patch changes the value again.\<close>

lemma marker_is_stored:
  "merge_value_object [] [(''a'', JObj [(''b'', JStr NGSI_NULL)])] = [(''a'', JObj [(''b'', JStr NGSI_NULL)])]"
  "merge_value_object [(''a'', JObj [(''b'', JStr NGSI_NULL)])] [(''a'', JObj [(''b'', JStr NGSI_NULL)])] = [(''a'', JObj [])]"
  "rfc_merge (JObj []) (JObj [(''a'', JObj [(''b'', JStr NGSI_NULL)])]) = JObj [(''a'', JObj [])]"
  by (simp_all add: merge_value_object.simps removal_def is_ngsi_null_def bm_get_def bm_remove_def rfc_merge.simps(1))

subsection \<open>Appending and updating attributes\<close>

definition stamped_deep :: "string \<Rightarrow> json \<Rightarrow> json" where
  "stamped_deep ts i = (case i of
     JObj m \<Rightarrow> JObj (bm_map (\<lambda>k v. if is_array v \<and> k \<notin> set RESERVED_MEMBERS then stamp_instances ts v else v) (stamp_members ts m))
   | _ \<Rightarrow> i)"

lemma stamp_instances_map: "stamp_instances ts (JArr xs) = JArr (map (stamped_deep ts) xs)"
  by (auto simp: stamped_deep_def bm_map_def split: json.split)

lemma stamped_deep_get:
  assumes "k \<in> set RESERVED_MEMBERS" "k \<noteq> ''createdAt''" "k \<noteq> ''modifiedAt''"
  shows "jget (stamped_deep ts i) k = jget i k"
  using assms by (cases i) (simp_all add: stamped_deep_def stamp_members_def option.map_id [unfolded id_def])

lemma stamped_deep_ds [simp]: "ds_of (stamped_deep ts i) = ds_of i"
  unfolding inst_str_def by (subst stamped_deep_get) (simp_all add: RESERVED_MEMBERS_def)

lemma in_dataset_stamped: "in_dataset d (map (stamped_deep ts) xs) = map_option (stamped_deep ts) (in_dataset d xs)"
  by (induction xs) (auto simp: in_dataset_def)

lemma one_each_stamped: "one_each (map (stamped_deep ts) xs) = one_each xs"
  by (simp add: one_each_def comp_def)

lemma replaced_ds: "ds_of (replaced_instance old new) = ds_of new"
  by (auto simp: replaced_instance_def inst_str_def split: option.split json.split)

lemma set_one_get:
  assumes "one_each cur"
  shows "one_each (fst (set_one nov ni (cur, done))) \<and> in_dataset d (fst (set_one nov ni (cur, done))) =
    (if d \<noteq> ds_of ni then in_dataset d cur
     else if is_deletion_instance ni then None
     else (case in_dataset d cur of
         Some x \<Rightarrow> Some (if nov then x else replaced_instance x ni) | None \<Rightarrow> Some ni))"
proof (cases "ds_pos (ds_of ni) cur")
  case None
  then have n: "in_dataset (ds_of ni) cur = None" by (simp add: ds_pos_None)
  then have "one_each (cur @ [ni])" using assms by (auto simp: one_each_def in_dataset_None)
  with None n assms show ?thesis by (auto simp: set_one_def in_dataset_snoc split: option.split)
next
  case (Some p)
  note p = ds_pos_Some [OF this]
  then have "ds_of (replaced_instance (cur ! p) ni) = ds_of (cur ! p)" by (simp add: replaced_ds)
  with Some p assms show ?thesis
    by (auto simp: set_one_def in_dataset_remove in_dataset_update one_each_remove one_each_update)
qed

lemma set_all_get:
  assumes "one_each cur" "one_each inc"
  shows "one_each (fst (fold (set_one nov) inc (cur, done))) \<and> in_dataset d (fst (fold (set_one nov) inc (cur, done))) =
    (case in_dataset d inc of
       None \<Rightarrow> in_dataset d cur
     | Some ni \<Rightarrow> if is_deletion_instance ni then None
         else (case in_dataset d cur of
             Some x \<Rightarrow> Some (if nov then x else replaced_instance x ni) | None \<Rightarrow> Some ni))"
  using assms
proof (induction inc arbitrary: cur "done")
  case (Cons ni inc)
  obtain c' b' where s: "set_one nov ni (cur, done) = (c', b')" by (cases "set_one nov ni (cur, done)")
  note one = set_one_get [OF Cons.prems(1), of nov ni "done" d, unfolded s fst_conv]
  have inc: "one_each inc" "in_dataset (ds_of ni) inc = None"
    using Cons.prems(2) by (auto simp: in_dataset_None one_each_def image_iff)
  have "in_dataset d (ni # inc) = (if d = ds_of ni then Some ni else in_dataset d inc)" by (simp add: in_dataset_def)
  with Cons.IH [of c' b'] one inc s show ?case by (auto split: option.split if_splits)
qed (simp add: in_dataset_def)

lemma set_one_done: "set_one nov ni (cur, done) = (c', b') \<Longrightarrow> done \<Longrightarrow> b'"
  by (auto simp: set_one_def split: option.splits if_splits)

lemma set_all_idle:
  "snd (fold (set_one nov) inc (cur, done)) = False \<Longrightarrow> fst (fold (set_one nov) inc (cur, done)) = cur"
proof (induction inc arbitrary: cur "done")
  case (Cons ni inc)
  obtain c' b' where s: "set_one nov ni (cur, done) = (c', b')" by (cases "set_one nov ni (cur, done)")
  have keep: "b \<Longrightarrow> snd (fold (set_one nov) inc (c, b))" for b c
  proof (induction inc arbitrary: b c)
    case (Cons ni inc)
    then show ?case using set_one_done [of nov ni c b] by (cases "set_one nov ni (c, b)") auto
  qed simp
  with Cons.prems s have "\<not> b'" by auto
  with s have "c' = cur" by (auto simp: set_one_def split: option.splits if_splits)
  with Cons s show ?case by simp
qed simp

lemma set_all_nonempty:
  "\<forall>i\<in>set inc. \<not> is_deletion_instance i \<Longrightarrow> cur \<noteq> [] \<Longrightarrow> fst (fold (set_one nov) inc (cur, done)) \<noteq> []"
proof (induction inc arbitrary: cur "done")
  case (Cons ni inc)
  obtain c' b' where s: "set_one nov ni (cur, done) = (c', b')" by (cases "set_one nov ni (cur, done)")
  with Cons.prems have "c' \<noteq> []" by (auto simp: set_one_def split: option.splits if_splits)
  with Cons s show ?case by simp
qed simp

definition append_target :: "bool \<Rightarrow> string \<Rightarrow> string \<times> json \<Rightarrow> jobj \<Rightarrow> jobj" where
  "append_target nov ts e t = (if is_fragment_meta (fst e) then t
     else bm_insert (fst e) (case bm_get t (fst e) of
         None \<Rightarrow> stamp_instances ts (snd e)
       | Some x \<Rightarrow> fst (merge_instance_sets nov (stamp_instances ts (snd e)) x)) t)"

lemma append_attr_target: "fst (append_attr nov ts e s) = append_target nov ts e (fst s)"
  by (auto simp: append_attr_def append_target_def Let_def split: prod.split option.split)

lemma append_fold_target: "fst (fold (append_attr nov ts) f s) = fold (append_target nov ts) f (fst s)"
  by (induction f arbitrary: s) (simp_all add: append_attr_target)

lemma keywise_append: "keywise (append_target nov ts)"
  unfolding keywise_def append_target_def by auto

definition update_target :: "string \<Rightarrow> string \<times> json \<Rightarrow> jobj \<Rightarrow> jobj" where
  "update_target ts e t = (if is_fragment_meta (fst e) then t
     else (case bm_get t (fst e) of
         None \<Rightarrow> (let live = filter (\<lambda>i. \<not> is_deletion_instance i) (array_or_empty (Some (stamp_instances ts (snd e)))) in
                  if live = [] then t else bm_insert (fst e) (JArr live) t)
       | Some x \<Rightarrow> (let merged = fst (merge_instance_sets False (stamp_instances ts (snd e)) x) in
                  if merged = JArr [] then bm_remove (fst e) t else bm_insert (fst e) merged t)))"

lemma update_attr_target: "fst (update_attr ts e s) = update_target ts e (fst s)"
  by (auto simp: update_attr_def update_target_def Let_def split: prod.split option.split)

lemma update_fold_target: "fst (fold (update_attr ts) f s) = fold (update_target ts) f (fst s)"
  by (induction f arbitrary: s) (simp_all add: update_attr_target)

lemma merge_sets_arr:
  "merge_instance_sets nov (JArr inc) (JArr cur) = (JArr (fst (fold (set_one nov) inc (cur, False))), snd (fold (set_one nov) inc (cur, False)))"
  by (simp add: merge_instance_sets_def map_prod_def split_beta)

text \<open>What both operations do to one attribute, by dataset.\<close>

lemma keywise_inv:
  assumes "\<And>e t. e \<in> set f \<Longrightarrow> entity_inv t \<Longrightarrow> entity_inv (g e t)" "entity_inv t"
  shows "entity_inv (fold g f t)"
  using assms by (induction f arbitrary: t) simp_all

lemma entity_inv_insert:
  "entity_inv t \<Longrightarrow> is_meta k \<or> attr_list True v \<Longrightarrow> entity_inv (bm_insert k v t)"
  by (auto simp: entity_inv_def bm_insert_ok)

lemma entity_inv_remove: "entity_inv t \<Longrightarrow> entity_inv (bm_remove k t)"
  by (auto simp: entity_inv_def bm_remove_ok split: if_splits)

lemma entity_inv_touch: "entity_inv t \<Longrightarrow> entity_inv (touch_entity ts t)"
  by (simp add: touch_entity_def entity_inv_insert meta_keys)

lemma entity_list:
  "entity_inv t \<Longrightarrow> \<not> is_meta k \<Longrightarrow> bm_get t k = Some v \<Longrightarrow> \<exists>xs. v = JArr xs \<and> one_each xs \<and> xs \<noteq> []"
  by (auto simp: entity_inv_def attr_list_def)

definition new_attrs_inv :: "bool \<Rightarrow> jobj \<Rightarrow> bool" where
  "new_attrs_inv full f \<longleftrightarrow> (\<forall>e\<in>set f. is_meta (fst e) \<or> (\<exists>xs. snd e = JArr xs \<and> one_each xs \<and>
     (full \<longrightarrow> xs \<noteq> [] \<and> (\<forall>i\<in>set xs. \<not> is_deletion_instance i))))"

lemma stamped_deletion [simp]: "is_deletion_instance (stamped_deep ts i) = is_deletion_instance i"
proof (cases i)
  case (JObj m)
  have "bm_get (stamp_members ts m) k = bm_get m k" if "k \<in> {''value'', ''object'', ''languageMap'', ''json'', ''vocab'', ''valueList'', ''objectList''}" for k
    using that by (auto simp: stamp_members_def)
  moreover have "set [''value'', ''object'', ''languageMap'', ''json'', ''vocab'', ''valueList'', ''objectList''] \<subseteq> set RESERVED_MEMBERS"
    by code_simp
  ultimately show ?thesis
    by (simp add: JObj stamped_deep_def is_deletion_instance_def null_at_def is_ngsi_null_def [of "JObj _"] option.map_id [unfolded id_def])
qed (simp_all add: stamped_deep_def)

lemma append_target_inv:
  assumes "entity_inv t" "is_meta (fst e) \<or> (\<exists>xs. snd e = JArr xs \<and> one_each xs \<and> xs \<noteq> [] \<and> (\<forall>i\<in>set xs. \<not> is_deletion_instance i))"
  shows "entity_inv (append_target nov ts e t)"
proof (cases "is_meta (fst e)")
  case True
  then show ?thesis using assms(1) by (simp add: append_target_def entity_inv_insert)
next
  case False
  then obtain xs where xs: "snd e = JArr xs" "one_each xs" "xs \<noteq> []" "\<forall>i\<in>set xs. \<not> is_deletion_instance i" using assms(2) by blast
  let ?ys = "map (stamped_deep ts) xs"
  have ys: "one_each ?ys" "?ys \<noteq> []" "\<forall>i\<in>set ?ys. \<not> is_deletion_instance i" using xs by (simp_all add: one_each_stamped)
  show ?thesis
  proof (cases "bm_get t (fst e)")
    case None
    then show ?thesis using assms(1) ys xs(1)
      by (simp add: append_target_def stamp_instances_map entity_inv_insert attr_list_def del: stamp_instances.simps)
  next
    case (Some v)
    from entity_list [OF assms(1) False Some] obtain cur where c: "v = JArr cur" "one_each cur" "cur \<noteq> []" by blast
    from set_all_get [OF c(2) ys(1)] set_all_nonempty [OF ys(3) c(3)]
    have "attr_list True (JArr (fst (fold (set_one nov) ?ys (cur, False))))" by (simp add: attr_list_def)
    then show ?thesis using assms(1) xs(1) Some c(1)
      by (simp add: append_target_def stamp_instances_map merge_sets_arr entity_inv_insert del: stamp_instances.simps)
  qed
qed

lemma update_target_inv:
  assumes "entity_inv t" "is_meta (fst e) \<or> (\<exists>xs. snd e = JArr xs \<and> one_each xs)"
  shows "entity_inv (update_target ts e t)"
proof (cases "is_meta (fst e)")
  case True
  then show ?thesis using assms(1)
    by (auto simp: update_target_def Let_def entity_inv_insert entity_inv_remove split: option.split)
next
  case False
  then obtain xs where xs: "snd e = JArr xs" "one_each xs" using assms(2) by blast
  let ?ys = "map (stamped_deep ts) xs"
  have ys: "one_each ?ys" using xs by (simp add: one_each_stamped)
  then have live: "one_each (filter (\<lambda>i. \<not> is_deletion_instance i) ?ys)" by (simp add: one_each_def distinct_map_filter)
  show ?thesis
  proof (cases "bm_get t (fst e)")
    case None
    then show ?thesis using assms(1) live xs(1)
      by (auto simp: update_target_def Let_def stamp_instances_map array_or_empty_def entity_inv_insert attr_list_def simp del: stamp_instances.simps)
  next
    case (Some v)
    from entity_list [OF assms(1) False Some] obtain cur where c: "v = JArr cur" "one_each cur" "cur \<noteq> []" by blast
    from set_all_get [OF c(2) ys] have "one_each (fst (fold (set_one False) ?ys (cur, False)))" by blast
    then show ?thesis using assms(1) xs(1) Some c(1)
      by (auto simp: update_target_def Let_def stamp_instances_map merge_sets_arr entity_inv_insert entity_inv_remove attr_list_def
          simp del: stamp_instances.simps)
  qed
qed

lemma append_fragment_inv:
  assumes "entity_inv t" "new_attrs_inv True f"
  shows "entity_inv (fst (append_fragment nov ts f (t, up, no)))"
proof -
  have "entity_inv (fst (append_scope nov f (t, up, no)))"
    using assms(1) by (auto simp: append_scope_def Let_def entity_inv_insert meta_keys split: option.split)
  then show ?thesis unfolding append_fragment_def append_fold_target
    by (rule keywise_inv [rotated]) (use assms(2) in \<open>auto simp: new_attrs_inv_def intro!: append_target_inv\<close>)
qed

lemma update_fragment_inv:
  assumes "entity_inv t" "new_attrs_inv False f"
  shows "entity_inv (fst (update_fragment ts f (t, up, no)))"
proof -
  have "entity_inv (fst (update_scope f (t, up, no)))"
    using assms(1) by (auto simp: update_scope_def entity_inv_insert meta_keys split: option.split)
  then show ?thesis unfolding update_fragment_def update_fold_target
    by (rule keywise_inv [rotated]) (use assms(2) in \<open>auto simp: new_attrs_inv_def intro!: update_target_inv\<close>)
qed

lemma put_instances_inv: "entity_inv t \<Longrightarrow> one_each xs \<Longrightarrow> entity_inv (put_instances k xs t)"
  by (simp add: put_instances_def entity_inv_insert entity_inv_remove attr_list_def)

lemma partial_instance_ds:
  assumes "partial_instance ts frag old = Inr i" "ds_of frag = ds_of old" "sound_ds frag"
  shows "ds_of i = ds_of frag"
proof -
  obtain t f where o: "old = JObj t" "frag = JObj f"
    using assms(1) by (cases old; cases frag) (auto simp: partial_instance_def split: if_splits)
  let ?g = "\<lambda>e t. if fst e = ''createdAt'' \<or> fst e = ''modifiedAt'' then t
             else if removal (snd e) then bm_remove (fst e) t else bm_insert (fst e) (snd e) t"
  have k: "keywise ?g" unfolding keywise_def by auto
  have ok: "bm_ok f" using assms(3) o by (simp add: sound_ds_def)
  have g: "(\<lambda>(k, v) t. if k = ''createdAt'' \<or> k = ''modifiedAt'' then t
       else if removal v then bm_remove k t else bm_insert k v t) = ?g"
    by (rule ext, rule ext) (simp add: split_beta)
  have "i = JObj (touch_entity ts (fold ?g f t))"
    using assms(1) o by (simp add: partial_instance_def g split: if_splits)
  then have "jget i ''datasetId'' = (case bm_get f ''datasetId'' of None \<Rightarrow> bm_get t ''datasetId''
      | Some v \<Rightarrow> if removal v then None else Some v)"
    using keywise_fold [OF k bm_ok_distinct [OF ok], of t "''datasetId''"]
    by (auto simp: touch_entity_def bm_get_def [symmetric] split: option.split)
  then show ?thesis using assms(2,3) o
    by (auto simp: inst_str_def sound_ds_def removal_def is_ngsi_null_def as_str_Some_iff split: option.splits if_splits)
qed

lemma partial_update_inv:
  assumes "entity_inv t" "sound_ds frag" "\<not> is_meta a" "partial_update ts a frag t = Inr (found, m)"
  shows "entity_inv m"
proof (cases "bm_get t a")
  case (Some v)
  from entity_list [OF assms(1,3) Some] obtain xs where xs: "v = JArr xs" "one_each xs" by blast
  show ?thesis
  proof (cases "ds_pos (ds_of frag) xs")
    case None
    then show ?thesis using assms xs Some by (auto simp: partial_update_def put_instances_inv)
  next
    case (Some p)
    note p = ds_pos_Some [OF this]
    have "one_each (xs[p := i])" if "partial_instance ts frag (xs ! p) = Inr i" for i
      using partial_instance_ds [OF that] p assms(2) by (simp add: one_each_update xs)
    then show ?thesis using assms xs Some \<open>bm_get t a = Some v\<close>
      by (auto simp: partial_update_def and_then_Inr_iff put_instances_inv entity_inv_touch one_each_remove split: if_splits)
  qed
qed (use assms in \<open>simp add: partial_update_def\<close>)

lemma replace_attribute_inv:
  assumes "entity_inv t" "\<not> is_meta a" "replace_attribute ts a new t = Inr (found, m)"
  shows "entity_inv m"
proof (cases "bm_get t a")
  case (Some v)
  from entity_list [OF assms(1,2) Some] obtain xs where xs: "v = JArr xs" "one_each xs" "xs \<noteq> []" by blast
  have ds: "ds_of (replacing ts new old) = ds_of new" for old
    by (auto simp: replacing_def inst_str_def split: json.split)
  have "attr_list True (JArr (xs[p := replacing ts new (xs ! p)]))" if "ds_pos (ds_of new) xs = Some p" for p
    using ds_pos_Some [OF that] xs by (simp add: attr_list_def one_each_update ds)
  then show ?thesis using assms xs(1) Some
    by (auto simp: replace_attribute_def entity_inv_touch entity_inv_insert split: option.splits)
qed (use assms in \<open>simp add: replace_attribute_def\<close>)

lemma delete_attribute_inv:
  assumes "entity_inv t" "\<not> is_meta a \<or> a = ''scope''" "delete_attribute ts a all ds t = Inr (found, m)"
  shows "entity_inv m"
proof (cases "a = ''scope''")
  case True
  then show ?thesis using assms(1,3)
    by (auto simp: delete_attribute_def entity_inv_touch entity_inv_remove split: if_splits)
next
  case False
  show ?thesis
  proof (cases "bm_get t a")
    case (Some v)
    from entity_list [OF assms(1) _ Some] False assms(2) obtain xs where xs: "v = JArr xs" "one_each xs" by blast
    have "one_each []" by (simp add: one_each_def)
    then show ?thesis using assms(1,3) False xs Some
      by (auto simp: delete_attribute_def Let_def entity_inv_touch put_instances_inv one_each_remove split: if_splits option.splits)
  qed (use assms False in \<open>simp add: delete_attribute_def\<close>)
qed

lemma write_fragment_inv:
  assumes "entity_inv t" "write_fragment c ps i ts merge (JObj f) (JObj t) = Inr (r, doc)"
    and "\<And>s. entity_inv (fst s) \<Longrightarrow> entity_inv (fst (merge f s))"
  shows "\<exists>m. doc = JObj m \<and> entity_inv m"
proof -
  have "entity_inv (fst (add_types f (t, [], [])))"
    using assms(1) by (auto simp: add_types_def Let_def entity_inv_insert meta_keys split: option.split)
  then have "entity_inv (fst (merge f (add_types f (t, [], []))))" by (rule assms(3))
  then show ?thesis using assms(2)
    by (auto simp: write_fragment_def entity_inv_touch split: if_splits prod.splits)
qed

text \<open>An \<open>expiresAt\<close> in an update is reported as updated and has no effect.\<close>

lemma update_drops_expiry:
  assumes "\<forall>xs. bm_get t ''expiresAt'' \<noteq> Some (JArr xs)"
  shows "\<exists>m. update_fragment ts [(''expiresAt'', JStr e)] (t, [], []) = (m, [''expiresAt''], []) \<and> (\<forall>k. bm_get m k = bm_get t k)"
  using assms
  by (cases "bm_get t ''expiresAt''")
     (auto simp: update_fragment_def update_scope_def update_attr_def is_fragment_meta_def bm_get_def [of "[_]"] array_or_empty_def
        merge_instance_sets_def split: json.splits)

end
