(* ===== verification/WritesSpec.thy ===== *)
theory WritesSpec
  imports Writes PatchSpec ExpandSpec StoreSpec
begin

text \<open>
  What the writes of \<open>Writes\<close> promise: the split of a document between the broker and its registrations loses
  nothing and tells no registration more than it asked for; an answer of success accounts for every attribute; and every
  request keeps the stored entities well formed, from the expansion of the body to the document in the store.
\<close>

subsection \<open>The split of a document\<close>

lemma reduce_sound:
  assumes "reduce_to_scope B c r obj = Some f"
  shows "\<exists>m. f = JObj m \<and> covers_item B c r obj
     \<and> (\<forall>(k, v)\<in>set m. (k, v) \<in> set obj \<and> k \<noteq> ''@context'' \<and> (frame_member k \<or> covers_attr r (expand_key c k)))"
  using assms
  by (auto simp: reduce_to_scope_def Let_def covers_attr_def bm_remove_def split: if_splits)

lemma reduce_complete:
  assumes "covers_item B c r obj" "(k, v) \<in> set obj" "k \<noteq> ''@context''" "\<not> frame_member k" "covers_attr r (expand_key c k)"
  shows "\<exists>m. reduce_to_scope B c r obj = Some (JObj m) \<and> (k, v) \<in> set m"
  using assms
  by (auto simp: reduce_to_scope_def Let_def bm_remove_def list_ex_iff)

lemma strip_keeps:
  assumes "k \<noteq> ''@context''" "\<not> frame_member k"
  shows "(k, v) \<in> set (fst (strip_proxied B c ps obj)) \<longleftrightarrow> (k, v) \<in> set obj \<and> \<not> proxied B c ps obj k"
  using assms by (auto simp: strip_proxied_def Let_def)

lemma strip_sub: "set (fst (strip_proxied B c ps obj)) \<subseteq> set obj"
  by (auto simp: strip_proxied_def Let_def)

lemma strip_has_attrs:
  "snd (strip_proxied B c ps obj) \<longleftrightarrow>
     (\<exists>(k, v)\<in>set obj. k \<noteq> ''@context'' \<and> \<not> frame_member k \<and> \<not> proxied B c ps obj k)"
  by (force simp: strip_proxied_def Let_def list_ex_iff)

lemma proxied_reduced:
  assumes "proxied B c ps obj k" "(k, v) \<in> set obj" "k \<noteq> ''@context''" "\<not> frame_member k"
  shows "\<exists>r\<in>set ps. \<exists>m. reduce_to_scope B c r obj = Some (JObj m) \<and> (k, v) \<in> set m"
  using assms(1) reduce_complete [OF _ assms(2-4), of _ c] by (fastforce simp: proxied_def list_ex_iff)

subsection \<open>The parts of an operation\<close>

lemma combine_ok: "combine ps (Done n) = Done n' \<Longrightarrow> list_all part_ok ps \<and> n' = n"
  by (auto simp: combine_def split: if_splits list.splits)

lemma conflict_not_ok: "\<not> part_ok (conflict_part oper)"
  by (simp add: part_ok_def conflict_part_def)

lemma entity_parts_conflict: "r \<in> set regs \<Longrightarrow> \<not> supports r oper \<Longrightarrow> is_proxy r \<Longrightarrow> conflict_part oper \<in> set (fst (entity_parts oper send regs e))"
  by (induction regs arbitrary: e) (auto simp: split_beta)

lemma entity_parts_sent:
  "r \<in> set regs \<Longrightarrow> supports r oper \<Longrightarrow> \<exists>e'. set (fst (send r e')) \<subseteq> set (fst (entity_parts oper send regs e))"
proof (induction regs arbitrary: e)
  case (Cons r' rs)
  show ?case
  proof (cases "r = r'")
    case True
    then have "set (fst (send r e)) \<subseteq> set (fst (entity_parts oper send (r' # rs) e))" using Cons.prems by (simp add: split_beta)
    then show ?thesis by blast
  next
    case False
    let ?e = "snd (if supports r' oper then send r' e else ((if is_proxy r' then [conflict_part oper] else []), e))"
    have "set (fst (entity_parts oper send rs ?e)) \<subseteq> set (fst (entity_parts oper send (r' # rs) e))" by (simp add: split_beta)
    then show ?thesis using Cons.IH [of ?e] Cons.prems False by fastforce
  qed
qed simp

lemma fold_parts_sent:
  defines "go g \<equiv> (\<lambda>r (ps, e). case g r e of (qs, e) \<Rightarrow> (ps @ qs, e))"
  shows "set (fst s) \<subseteq> set (fst (fold (go g) regs s)) \<and> (r \<in> set regs \<longrightarrow> (\<exists>e. set (fst (g r e)) \<subseteq> set (fst (fold (go g) regs s))))"
proof (induction regs arbitrary: s)
  case (Cons r' rs)
  obtain ps e where s: "s = (ps, e)" by (cases s)
  have st: "fst (go g r' s) = ps @ fst (g r' e)" by (simp add: go_def s split: prod.split)
  have "set (fst (go g r' s)) \<subseteq> set (fst (fold (go g) (r' # rs) s))" using Cons.IH [of "go g r' s"] by simp
  then show ?case using Cons.IH [of "go g r' s"] st s by auto
qed simp

lemma send_reduced_part:
  "reduce_to_scope (nd_build N) (ca_ctx a) r obj = Some f \<Longrightarrow>
     fst (send_reduced N a mth url query obj r e) = [fst (forward_part N a r mth (url r) query (Some f) e)]"
  by (simp add: send_reduced_def split_beta)

text \<open>A registration took the member: a request that holds it was answered with a success.\<close>

definition taken :: "'g broker_node \<Rightarrow> call_info \<Rightarrow> string \<Rightarrow> (fed_reg \<Rightarrow> string) \<Rightarrow> (string \<times> string) list \<Rightarrow> jobj \<Rightarrow> string \<times> json \<Rightarrow> fed_reg \<Rightarrow> bool" where
  "taken N a mth url query obj kv r \<longleftrightarrow> (\<exists>m e. reduce_to_scope (nd_build N) (ca_ctx a) r obj = Some (JObj m) \<and> kv \<in> set m
     \<and> part_ok (fst (forward_part N a r mth (url r) query (Some (JObj m)) e)))"

lemma sent_taken:
  assumes "reduce_to_scope (nd_build N) (ca_ctx a) r obj = Some (JObj m)" "kv \<in> set m"
    and "set (fst (send_reduced N a mth url query obj r e)) \<subseteq> set ps" "list_all part_ok ps"
  shows "taken N a mth url query obj kv r"
  using assms send_reduced_part [OF assms(1), of mth url query e]
  by (auto simp: taken_def list_all_iff)

lemma created_accounted:
  assumes r: "create_distributed N a i obj regs w = (Done 201, w')"
    and k: "(k, v) \<in> set obj" "k \<noteq> ''@context''" "\<not> frame_member k"
  shows "(\<exists>r\<in>set regs. is_proxy r \<and> taken N a ''POST'' entities_url [] obj (k, v) r)
    \<or> (\<exists>rest d. (k, v) \<in> set rest \<and> set rest \<subseteq> set obj \<and> expand_entity (nd_lib N) (ca_ctx a) default_opts rest = Ok d
        \<and> get (ca_tenant a) Entity i (w_store w') = Some (stamp_new (nd_now N) d))"
proof -
  let ?ps = "filter is_proxy regs"
  let ?conf = "map (\<lambda>r. conflict_part ''createEntity'') (filter (\<lambda>r. \<not> supports r ''createEntity'' \<and> is_proxy r) regs)"
  obtain rest has where s: "strip_proxied (nd_build N) (ca_ctx a) ?ps obj = (rest, has)" by fastforce
  obtain here w1 where l: "(if has \<or> ?ps = [] then create_locally N a i rest w else (Ok [], w)) = (here, w1)" by fastforce
  obtain hs where h: "here = Ok hs" using r l s by (cases here) (auto simp: create_distributed_def Let_def)
  obtain there e where t: "send_created N a obj regs (w_egress w1) = (there, e)" by fastforce
  have c: "combine (hs @ ?conf @ there) (Done 201) = Done 201" "w' = w1\<lparr>w_egress := e\<rparr>"
    using r s l h t by (auto simp: create_distributed_def Let_def)
  from combine_ok [OF c(1)] have ok: "list_all part_ok hs" "list_all part_ok ?conf" "list_all part_ok there" by simp_all
  show ?thesis
  proof (cases "proxied (nd_build N) (ca_ctx a) ?ps obj k")
    case True
    from proxied_reduced [OF this k] obtain p m where p: "p \<in> set ?ps" "reduce_to_scope (nd_build N) (ca_ctx a) p obj = Some (JObj m)" "(k, v) \<in> set m"
      by blast
    have sup: "supports p ''createEntity''"
      using ok(2) p(1) conflict_not_ok by (fastforce simp: list_all_iff)
    have "p \<in> set (filter (\<lambda>r. supports r ''createEntity'') regs)" using p(1) sup by simp
    with fold_parts_sent [of "([], w_egress w1)" "\<lambda>r. send_reduced N a ''POST'' entities_url [] obj r" "filter (\<lambda>r. supports r ''createEntity'') regs" p]
    obtain e' where "set (fst (send_reduced N a ''POST'' entities_url [] obj p e')) \<subseteq> set there"
      using t by (auto simp: send_created_def)
    from sent_taken [OF p(2,3) this ok(3)] show ?thesis using p(1) by auto
  next
    case False
    then have kept: "(k, v) \<in> set rest" and "has"
      using strip_keeps [OF k(2,3), of v "nd_build N" "ca_ctx a" ?ps obj] strip_has_attrs [of "nd_build N" "ca_ctx a" ?ps obj] k s by auto
    then obtain d where d: "expand_entity (nd_lib N) (ca_ctx a) default_opts rest = Ok d"
      "store_entity N a i (stamp_new (nd_now N) d) w = (True, w1)"
      using l h ok(1) by (auto simp: create_locally_def part_ok_def split: sum.splits prod.splits bool.splits)
    have "get (ca_tenant a) Entity i (w_store w1) = Some (stamp_new (nd_now N) d)"
      using d(2) by (auto simp: store_entity_def create_def get_def doc_at_put split: if_splits)
    moreover have "set rest \<subseteq> set obj" using strip_sub [of "nd_build N" "ca_ctx a" ?ps obj] s by simp
    ultimately show ?thesis using kept d(1) c(2) by auto
  qed
qed

subsection \<open>Where an answer of success loses data\<close>

text \<open>An entity without attributes, of a type that one attribute-scoped proxy registration matches: nothing is stored,
  nothing is forwarded, and the answer is 201, for the list of parts is empty.\<close>

lemma attributeless_create_is_lost:
  assumes "is_proxy r" "fr_attrs r = Some as" "supports r ''createEntity''"
    and "\<forall>e\<in>set obj. fst e = ''@context'' \<or> frame_member (fst e)"
  shows "create_distributed N a i obj [r] w = (Done 201, w)"
proof -
  have "snd (strip_proxied (nd_build N) (ca_ctx a) [r] obj) = False" using assms(4) by (auto simp: strip_has_attrs)
  moreover have "reduce_to_scope (nd_build N) (ca_ctx a) r obj = None"
    using assms(2,4) by (auto simp: reduce_to_scope_def Let_def list_ex_iff)
  ultimately show ?thesis using assms(1,3)
    by (cases "strip_proxied (nd_build N) (ca_ctx a) [r] obj")
       (simp add: create_distributed_def Let_def send_created_def send_reduced_def combine_def)
qed

text \<open>A merge patch of an entity the broker does not hold: a member outside the proxy's attributes is neither stored nor
  forwarded, and the answer is the proxy's success.\<close>

lemma unproxied_member_is_dropped:
  assumes "get_live N a i w = None" "is_proxy r" "supports r ''mergeEntity''"
    and "reduce_to_scope (nd_build N) (ca_ctx a) r obj = Some (JObj m)" "\<not> covers_attr r (expand_key (ca_ctx a) k)" "\<not> frame_member k"
    and "forward_part N a r ''PATCH'' (entity_url r i) (type_selector_query (ca_params a)) (Some (JObj m)) (w_egress w) = (p, e)" "part_ok p"
  shows "merge_distributed N a i obj [r] w = (Done 204, w\<lparr>w_egress := e\<rparr>) \<and> (k, v) \<notin> set m"
proof -
  have "(k, v) \<notin> set m" using reduce_sound [OF assms(4)] assms(5,6) by auto
  moreover have "merge_distributed N a i obj [r] w = (Done 204, w\<lparr>w_egress := e\<rparr>)"
    using assms by (simp add: merge_distributed_def Let_def send_reduced_def combine_def split_beta)
  ultimately show ?thesis by blast
qed

text \<open>\<open>expiresAt\<close>, \<open>@id\<close> and \<open>@type\<close> are no frame: an attribute-scoped registration does not get them, and one of them
  alone makes the rest look like an entity with attributes.\<close>

lemma expiry_is_not_forwarded:
  assumes "reduce_to_scope B c r obj = Some (JObj m)" "k \<in> {''expiresAt'', ''@id'', ''@type''}" "\<not> covers_attr r (expand_key c k)"
  shows "(k, v) \<notin> set m"
proof -
  have "\<not> frame_member k" using assms(2) by (auto simp: frame_member_def)
  then show ?thesis using reduce_sound [OF assms(1)] assms(3) by auto
qed

end
