(* ===== verification/Stored.thy ===== *)
theory Stored
  imports WritesSpec StoreLists
begin

text \<open>
  From the body of a request to the document in the store: every request, and the sweep of what has expired, keeps each
  stored entity well formed and under its own id.
\<close>

subsection \<open>Expanded documents\<close>

lemma instance_sound: "inst_ok opts m \<Longrightarrow> sound_ds (JObj m)"
  by (auto simp: inst_ok_def sound_ds_def dataset_ok_def inst_str_def split: option.splits)

lemma instances_sound:
  assumes "instances opts n xs"
  shows "xs \<noteq> []" "\<forall>i\<in>set xs. sound_ds i \<and> (opt_allow_null opts \<or> \<not> is_deletion_instance i)"
proof -
  obtain n' where n: "n = Suc n'" using assms by (cases n) simp_all
  show "xs \<noteq> []" using assms n by simp
  have "sound_ds i \<and> (opt_allow_null opts \<or> \<not> is_deletion_instance i)" if "i \<in> set xs" for i
  proof -
    obtain m where "i = JObj m" "inst_ok opts m" using assms n \<open>i \<in> set xs\<close> by auto
    then show ?thesis using instance_sound by (auto simp: inst_ok_def)
  qed
  then show "\<forall>i\<in>set xs. sound_ds i \<and> (opt_allow_null opts \<or> \<not> is_deletion_instance i)" by blast
qed

lemma one_each_datasets: "one_each xs = distinct_datasets xs"
proof -
  have "ds_of = dataset_of" by (rule ext) (simp add: dataset_of_def inst_str_def)
  then show ?thesis by (simp add: one_each_def distinct_datasets_iff)
qed

lemma expanded_attr:
  assumes "entity_ok opts m" "\<not> opt_temporal opts" "(k, v) \<in> set m" "\<not> is_meta k"
  shows "\<exists>xs. v = JArr xs \<and> xs \<noteq> [] \<and> one_each xs \<and> (\<forall>i\<in>set xs. sound_ds i \<and> (opt_allow_null opts \<or> \<not> is_deletion_instance i))"
proof -
  obtain xs where x: "v = JArr xs" "attrs_ok opts xs" using assms by (auto simp: entity_ok_def)
  then show ?thesis using instances_sound [of opts MAX_LEVELS xs] assms(2) by (auto simp: attrs_ok_def one_each_datasets)
qed

lemma expanded_fragment:
  assumes "entity_ok opts m" "\<not> opt_temporal opts"
  shows "fragment_inv m"
proof -
  have "bm_ok m" using assms by (simp add: entity_ok_def)
  with expanded_attr [OF assms] show ?thesis
    by (fastforce simp: fragment_inv_def attr_list_def array_or_empty_def bm_get_iff)
qed

lemma expanded_entity:
  assumes "entity_ok opts m" "\<not> opt_temporal opts"
  shows "entity_inv m"
proof -
  have "bm_ok m" using assms by (simp add: entity_ok_def)
  with expanded_attr [OF assms] show ?thesis
    by (fastforce simp: entity_inv_def attr_list_def bm_get_iff)
qed

lemma expanded_new_attrs: "entity_ok opts m \<Longrightarrow> \<not> opt_temporal opts \<Longrightarrow> new_attrs_inv (\<not> opt_allow_null opts) m"
  unfolding new_attrs_inv_def using expanded_attr by fastforce

lemma stamped_entity: "entity_inv m \<Longrightarrow> \<exists>m'. stamp_new ts (JObj m) = JObj m' \<and> entity_inv m'"
proof -
  assume m: "entity_inv m"
  have s: "entity_inv (stamp_members ts m)" using m by (simp add: stamp_members_def entity_inv_insert meta_keys)
  have "attr_list True (stamp_instances ts v)" if "attr_list True v" for v
    using that by (auto simp: attr_list_def stamp_instances_map one_each_stamped simp del: stamp_instances.simps)
  then have "entity_inv (bm_map (\<lambda>k v. if is_meta k then v else stamp_instances ts v) (stamp_members ts m))"
    using s by (auto simp: entity_inv_def)
  then show ?thesis by (simp add: stamp_new_def)
qed

subsection \<open>The common members of a merge\<close>

lemma on_instances_inv:
  assumes "fragment_inv m" "\<And>i. sound_ds i \<Longrightarrow> sound_ds (f i) \<and> ds_of (f i) = ds_of i"
  shows "\<exists>m'. on_instances P f (JObj m) = JObj m' \<and> fragment_inv m'"
proof -
  define g where "g = (\<lambda>k v. if is_meta k \<or> \<not> P k then v else (case v of JArr xs \<Rightarrow> JArr (map f xs) | _ \<Rightarrow> v))"
  have one: "one_each (map f xs)" if "one_each xs" "\<forall>i\<in>set xs. sound_ds i" for xs
  proof -
    have "map ds_of (map f xs) = map ds_of xs" using that assms(2) by simp
    then show ?thesis using that(1) by (simp only: one_each_def)
  qed
  have "attr_list False (g k v) \<and> (\<forall>i\<in>set (array_or_empty (Some (g k v))). sound_ds i)"
    if "bm_get m k = Some v" "\<not> is_meta k" for k v
    using fragment_attr [OF assms(1) that] assms(2) one by (auto simp: g_def attr_list_def array_or_empty_def)
  then have "fragment_inv (bm_map g m)" using assms(1) by (auto simp: fragment_inv_def)
  then show ?thesis by (simp add: on_instances_def g_def)
qed

lemma sound_insert:
  "sound_ds (JObj m) \<Longrightarrow> k \<noteq> ''datasetId'' \<Longrightarrow> sound_ds (JObj (bm_insert k v m)) \<and> ds_of (JObj (bm_insert k v m)) = ds_of (JObj m)"
  by (simp add: sound_ds_def inst_str_def bm_insert_ok)

lemma sound_remove:
  "sound_ds (JObj m) \<Longrightarrow> k \<noteq> ''datasetId'' \<Longrightarrow> sound_ds (JObj (bm_remove k m)) \<and> ds_of (JObj (bm_remove k m)) = ds_of (JObj m)"
  by (simp add: sound_ds_def inst_str_def bm_remove_ok)

lemma observed_inv:
  assumes "fragment_inv m"
  shows "\<exists>m'. apply_common_observed_at obs (JObj m) = JObj m' \<and> fragment_inv m'"
proof -
  have "sound_ds (common_observed_at ts i) \<and> ds_of (common_observed_at ts i) = ds_of i" if "sound_ds i" for ts i
    using that sound_insert [of _ "''observedAt''"] by (auto simp: common_observed_at_def split: json.split)
  then show ?thesis using assms on_instances_inv [OF assms]
    by (cases obs) (simp_all add: apply_common_observed_at_def)
qed

lemma lang_inv:
  assumes "fragment_inv m"
  shows "\<exists>m'. apply_common_lang target l (JObj m) = JObj m' \<and> fragment_inv m'"
proof -
  have "sound_ds (common_lang t i) \<and> ds_of (common_lang t i) = ds_of i" if i: "sound_ds i" for t i
  proof (cases i)
    case (JObj m)
    note r = sound_remove [of m "''value''"]
    note u = sound_insert [of "bm_remove ''value'' m" "''type''" "JStr ''LanguageProperty''"]
    note v = sound_insert [of "bm_insert ''type'' (JStr ''LanguageProperty'') (bm_remove ''value'' m)" "''languageMap''"]
    show ?thesis using i JObj r u v by (simp add: common_lang_def split: option.split)
  qed (use i in \<open>simp_all add: common_lang_def\<close>)
  then show ?thesis using assms on_instances_inv [OF assms]
    by (cases l) (simp_all add: apply_common_lang_def)
qed

subsection \<open>The id\<close>

lemma fold_keeps: "(\<And>e s. g (f e s) = g s) \<Longrightarrow> g (fold f es s) = g s"
  by (induction es arbitrary: s) simp_all

lemma fragment_meta_id: "is_fragment_meta ''id''"
  by (simp add: is_fragment_meta_def)

lemma append_fragment_id: "bm_get (fst (append_fragment nov ts f s)) ''id'' = bm_get (fst s) ''id''"
proof -
  have "bm_get (fst (append_attr nov ts e s)) ''id'' = bm_get (fst s) ''id''" for e s
    using fragment_meta_id by (auto simp: append_attr_def Let_def split: prod.split option.split)
  then have "bm_get (fst (fold (append_attr nov ts) es s)) ''id'' = bm_get (fst s) ''id''" for es s by (rule fold_keeps)
  moreover have "bm_get (fst (append_scope nov f s)) ''id'' = bm_get (fst s) ''id''"
    by (auto simp: append_scope_def Let_def split: prod.split option.split)
  ultimately show ?thesis by (simp only: append_fragment_def)
qed

lemma update_fragment_id: "bm_get (fst (update_fragment ts f s)) ''id'' = bm_get (fst s) ''id''"
proof -
  have "bm_get (fst (update_attr ts e s)) ''id'' = bm_get (fst s) ''id''" for e s
    using fragment_meta_id by (auto simp: update_attr_def Let_def split: prod.split option.split)
  then have "bm_get (fst (fold (update_attr ts) es s)) ''id'' = bm_get (fst s) ''id''" for es s by (rule fold_keeps)
  moreover have "bm_get (fst (update_scope f s)) ''id'' = bm_get (fst s) ''id''"
    by (auto simp: update_scope_def split: prod.split option.split)
  ultimately show ?thesis by (simp only: update_fragment_def)
qed

lemma write_fragment_id:
  assumes "write_fragment c ps i ts merge (JObj f) (JObj t) = Inr (r, JObj m)"
    and "\<And>s. bm_get (fst (merge f s)) ''id'' = bm_get (fst s) ''id''"
  shows "bm_get m ''id'' = bm_get t ''id''"
proof -
  have "bm_get (fst (add_types f (t, [], []))) ''id'' = bm_get t ''id''"
    by (auto simp: add_types_def Let_def split: option.split)
  then show ?thesis using assms(1) assms(2) [of "add_types f (t, [], [])"]
    by (auto simp: write_fragment_def touch_entity_def split: if_splits prod.splits)
qed

lemma put_instances_get: "k \<noteq> a \<Longrightarrow> bm_get (put_instances a xs m) k = bm_get m k"
  by (simp add: put_instances_def)

lemma attr_ops_id:
  assumes "a \<noteq> ''id''"
  shows "partial_update ts a frag t = Inr (x, m) \<Longrightarrow> bm_get m ''id'' = bm_get t ''id''"
    and "replace_attribute ts a new t = Inr (x, m) \<Longrightarrow> bm_get m ''id'' = bm_get t ''id''"
    and "delete_attribute ts a all ds t = Inr (x, m) \<Longrightarrow> bm_get m ''id'' = bm_get t ''id''"
  using assms
  by (auto simp: partial_update_def replace_attribute_def delete_attribute_def Let_def and_then_Inr_iff touch_entity_def
      put_instances_get split: option.splits json.splits if_splits)

subsection \<open>The store\<close>

definition named_inv :: "string \<Rightarrow> jobj \<Rightarrow> bool" where
  "named_inv i m \<longleftrightarrow> entity_inv m \<and> bm_get m ''id'' = Some (JStr i)"

definition doc_inv :: "string \<Rightarrow> json \<Rightarrow> bool" where
  "doc_inv i j \<longleftrightarrow> (\<exists>m. j = JObj m \<and> named_inv i m)"

definition docs_inv :: "store \<Rightarrow> bool" where
  "docs_inv st \<longleftrightarrow> wf_inner (st_inner st) \<and> (\<forall>t d j. get t Entity d st = Some j \<longrightarrow> doc_inv d j)"

lemma docs_put: "docs_inv st \<Longrightarrow> doc_inv d j \<Longrightarrow> st_inner st' = put_doc Entity t d j (st_inner st) \<Longrightarrow> docs_inv st'"
  by (auto simp: docs_inv_def get_def doc_at_put wf_put_doc split: if_splits)

lemma docs_del: "docs_inv st \<Longrightarrow> st_inner st' = del_doc Entity t d (st_inner st) \<Longrightarrow> docs_inv st'"
  by (auto simp: docs_inv_def get_def doc_at_del wf_del_doc split: if_splits)

lemma docs_create: "docs_inv st \<Longrightarrow> doc_inv d j \<Longrightarrow> docs_inv (snd (create E C now t Entity d j st))"
  by (auto simp: create_def intro: docs_put)

lemma docs_delete_if: "docs_inv st \<Longrightarrow> docs_inv (snd (delete_if E C now t d keep st))"
  by (auto simp: delete_if_def emit_is_emit_if intro: docs_del split: option.split)

lemma docs_mutate:
  assumes "docs_inv st" "\<And>x b j. doc_inv d b \<Longrightarrow> f b = Inr (x, j) \<Longrightarrow> doc_inv d j"
  shows "docs_inv (snd (mutate E C now t Entity d f st))"
proof (cases "doc_at (st_inner st) Entity t d")
  case (Some b)
  have b: "doc_inv d b" using assms(1) Some by (auto simp: docs_inv_def get_def)
  show ?thesis
  proof (cases "f b")
    case (Inr r)
    then show ?thesis using assms Some b
      by (cases r) (auto simp: mutate_def Let_def intro!: docs_put [OF assms(1), of d "snd r"])
  qed (use assms Some in \<open>simp add: mutate_def\<close>)
qed (use assms in \<open>simp add: mutate_def\<close>)

lemma pruned_attr_list: "attr_list True (JArr xs) \<Longrightarrow> filter P xs \<noteq> [] \<Longrightarrow> attr_list True (JArr (filter P xs))"
  by (auto simp: attr_list_def one_each_def distinct_map_filter)

lemma prune_attr_inv:
  assumes "entity_inv (fst s)" "\<not> is_meta k"
  shows "entity_inv (fst (prune_attr E now k s))"
proof -
  obtain m c where s: "s = (m, c)" by (cases s)
  have m: "entity_inv m" using assms(1) s by simp
  have "attr_list True (JArr xs)" if "bm_get m k = Some (JArr xs)" for xs using m assms(2) that by (auto simp: entity_inv_def)
  then show ?thesis using m s
    by (auto simp: prune_attr_def Let_def bind_eq_Some_conv as_array_Some_iff entity_inv_remove pruned_attr_list
        intro!: entity_inv_insert split: option.split)
qed

lemma prune_inv:
  assumes "doc_inv i j"
  shows "doc_inv i (fst (prune_expired_instances E now j))"
proof -
  have f: "entity_inv (fst (fold (prune_attr E now) ks s)) \<and> bm_get (fst (fold (prune_attr E now) ks s)) ''id'' = bm_get (fst s) ''id''"
    if "entity_inv (fst s)" "\<forall>k\<in>set ks. \<not> List.member ENTITY_META_KEYS k" for ks s
    using that
  proof (induction ks arbitrary: s)
    case (Cons k ks)
    have "\<not> is_meta k" using Cons.prems(2) by (simp add: is_meta_def)
    moreover have "List.member ENTITY_META_KEYS ''id''" by (simp add: ENTITY_META_KEYS_def)
    ultimately show ?case using Cons prune_attr_inv [of s k] prune_attr_get [of k "''id''"] by simp
  qed simp
  obtain m where m: "j = JObj m" "named_inv i m" using assms by (auto simp: doc_inv_def)
  let ?ks = "filter (\<lambda>k. \<not> List.member ENTITY_META_KEYS k) (bm_keys m)"
  have "named_inv i (fst (fold (prune_attr E now) ?ks (m, False)))" using f [of "(m, False)" ?ks] m(2) by (simp add: named_inv_def)
  then show ?thesis by (simp add: m(1) doc_inv_def prune_expired_instances_def split_beta)
qed

lemma docs_sweep:
  assumes "docs_inv st"
  shows "docs_inv (snd (sweep_expired E C now st))"
proof -
  have w: "wf_inner (st_inner st)" using assms by (simp add: docs_inv_def)
  have "wf_inner (st_inner (snd (sweep_expired E C now st)))"
    by (simp only: sweep_expired_def Let_def) (intro prunes_wf; simp add: reaps_wf w)
  moreover have "doc_inv d j" if "get t Entity d (snd (sweep_expired E C now st)) = Some j" for t d j
  proof -
    have "map_option (\<lambda>j. fst (prune_expired_instances E now j)) (live E now st (Entity, t, d)) = Some j"
      using that by (simp only: get_def sweep_docs [OF w] Let_def simp_thms if_True)
    then obtain b where b: "live E now st (Entity, t, d) = Some b" "j = fst (prune_expired_instances E now b)" by auto
    then have "doc_inv d b" using assms by (auto simp: live_Some docs_inv_def get_def)
    then show ?thesis using b(2) prune_inv by simp
  qed
  ultimately show ?thesis by (simp add: docs_inv_def)
qed

lemma store_inv: "docs_inv (w_store w) \<Longrightarrow> doc_inv i j \<Longrightarrow> store_entity N a i j w = (b, w') \<Longrightarrow> docs_inv (w_store w')"
  using docs_create [of "w_store w" i j] by (auto simp: store_entity_def map_prod_def split_beta)

lemma change_inv:
  assumes "docs_inv (w_store w)" "change_entity N a i f w = (r, w')" "\<And>x b j. doc_inv i b \<Longrightarrow> f b = Inr (x, j) \<Longrightarrow> doc_inv i j"
  shows "docs_inv (w_store w')"
proof -
  have "docs_inv (snd (mutate (nd_ext N) (nd_codec N) (nd_now N) (ca_tenant a) Entity i f (w_store w)))"
    by (rule docs_mutate [OF assms(1,3)])
  then show ?thesis using assms(2) by (auto simp: change_entity_def map_prod_def split_beta)
qed

lemma removed_inv: "docs_inv (w_store w) \<Longrightarrow> delete_entity_if N a i keep w = (b, w') \<Longrightarrow> docs_inv (w_store w')"
  using docs_delete_if [of "w_store w"] by (auto simp: delete_entity_if_def map_prod_def split_beta)

subsection \<open>Entities\<close>

lemma no_temporal: "\<not> opt_temporal default_opts" "\<not> opt_temporal merge_opts" "\<not> opt_temporal (fragment_opts b)"
  "\<not> opt_allow_null default_opts" "opt_allow_null (fragment_opts b) = b"
  by (simp_all add: default_opts_def merge_opts_def fragment_opts_def)

text \<open>A body that names the entity \<open>i\<close>, or none.\<close>

definition names :: "jobj \<Rightarrow> string \<Rightarrow> bool" where
  "names obj i \<longleftrightarrow> get_or obj ''id'' ''@id'' \<in> {None, Some (JStr i)}"

lemma expanded_names:
  assumes "expand_entity L c opts obj = Inr v" "Option.bind (jget v ''id'') as_str = Some i"
  shows "names obj i"
proof -
  obtain m out where m: "v = JObj m" "entity_id_step opts obj [] = Inr out" "bm_get m ''id'' = bm_get out ''id''"
    using entity_result [OF assms(1)] by blast
  then show ?thesis using assms(2)
    by (cases "get_or obj ''id'' ''@id''")
       (auto simp: names_def entity_id_step_def and_then_Inr_iff bm_get_def [of "[]"] split: json.splits if_splits)
qed

lemma new_document:
  assumes "expand_entity L c default_opts obj = Inr v" "names obj i"
  shows "doc_inv i (stamp_new ts v)"
proof -
  obtain m out where m: "v = JObj m" "entity_ok default_opts m" "entity_id_step default_opts obj [] = Inr out"
      "bm_get m ''id'' = bm_get out ''id''"
    using entity_result [OF assms(1)] by blast
  have n: "bm_get m ''id'' = Some (JStr i)"
    using assms(2) m(3,4) by (auto simp: names_def entity_id_step_def and_then_Inr_iff default_opts_def split: if_splits)
  obtain m' where m': "stamp_new ts v = JObj m'" "entity_inv m'"
    using stamped_entity [OF expanded_entity [OF m(2)]] no_temporal m(1) by blast
  then have "bm_get m' ''id'' = Some (JStr i)" using n m(1) meta_keys by (auto simp: stamp_new_def stamp_members_def)
  then show ?thesis using m' by (simp add: doc_inv_def named_inv_def)
qed

lemma bm_get_filter_key: "bm_get (filter (\<lambda>e. P (fst e)) m) k = (if P k then bm_get m k else None)"
  by (induction m) (auto simp: bm_get_def)

lemma strip_names:
  assumes "names obj i"
  shows "names (fst (strip_proxied B c ps obj)) i"
proof -
  let ?P = "\<lambda>k. (k \<noteq> ''@context'' \<and> frame_member k) \<or> (k \<noteq> ''@context'' \<and> \<not> frame_member k \<and> \<not> proxied B c ps obj k)"
  note g = bm_get_filter_key [of ?P obj]
  have "fst (strip_proxied B c ps obj) = filter (\<lambda>e. ?P (fst e)) obj" by (simp add: strip_proxied_def Let_def)
  then show ?thesis using assms g [of "''id''"] g [of "''@id''"]
    by (auto simp: names_def get_or_def frame_member_def split: option.splits if_splits)
qed

lemma create_locally_inv:
  assumes "docs_inv (w_store w)" "create_locally N a i rest w = (r, w')" "names rest i"
  shows "docs_inv (w_store w')"
  using assms by (auto simp: create_locally_def split: sum.splits prod.splits bool.splits dest: store_inv [OF _ new_document])

lemma create_distributed_inv:
  assumes "docs_inv (w_store w)" "create_distributed N a i obj regs w = (r, w')" "names obj i"
  shows "docs_inv (w_store w')"
proof -
  have "names rest i" if "strip_proxied (nd_build N) (ca_ctx a) (filter is_proxy regs) obj = (rest, h)" for rest h
    using strip_names [OF assms(3)] that by (metis fst_conv)
  then show ?thesis using assms(1,2)
    by (auto simp: create_distributed_def Let_def split: prod.splits if_splits sum.splits dest: create_locally_inv)
qed

lemma create_entity_inv:
  assumes "docs_inv (w_store w)" "create_entity N a obj w = (r, w')"
  shows "docs_inv (w_store w')"
proof (cases "expand_entity (nd_lib N) (ca_ctx a) default_opts obj")
  case (Inr v)
  then show ?thesis
  proof (cases "expanded_id v")
    case (Inr i)
    then have n: "names obj i"
      using expanded_names [OF \<open>expand_entity (nd_lib N) (ca_ctx a) default_opts obj = Inr v\<close>, of i]
      by (simp add: expanded_id_def split: option.splits)
    show ?thesis using assms create_distributed_inv [OF assms(1) _ n] store_inv [OF assms(1) new_document [OF \<open>expand_entity _ _ _ _ = Inr v\<close> n]]
        Inr \<open>expand_entity _ _ _ _ = Inr v\<close>
      by (auto simp: create_entity_def split: option.splits if_splits prod.splits bool.splits)
  qed (use assms in \<open>simp add: create_entity_def\<close>)
qed (use assms in \<open>simp add: create_entity_def\<close>)

lemma merge_document_inv:
  assumes "doc_inv i doc" "fragment_inv m" "merge_document N a i' (JObj m) doc = Inr (x, j)"
  shows "doc_inv i j"
proof -
  obtain t where t: "doc = JObj t" "entity_inv t" "bm_get t ''id'' = Some (JStr i)" using assms(1) by (auto simp: doc_inv_def named_inv_def)
  obtain f where f: "apply_common_lang doc (bm_get (ca_params a) ''lang'') (JObj m) = JObj f" "fragment_inv f"
    using lang_inv [OF assms(2)] by blast
  obtain m' where m': "merge_into (nd_now N) (JObj f) (JObj t) = JObj m'" using merge_into_obj by blast
  have "bm_get m' ''id'' = Some (JStr i)"
    using merge_into_get [of f "nd_now N" t "''id''"] f(2) t(3) m' by (auto simp: fragment_inv_def merged_member_def split: option.splits)
  then show ?thesis using merge_into_inv [OF t(2) f(2) m'] assms(3) t(1) f(1)
    by (auto simp: merge_document_def doc_inv_def named_inv_def m' split: if_split_asm)
qed

lemma merge_change_inv:
  assumes "docs_inv (w_store w)" "expand_entity L c merge_opts obj = Inr v"
    and "change_entity N a i (merge_document N a i (apply_common_observed_at obs v)) w = (r, w')"
  shows "docs_inv (w_store w')"
proof -
  obtain m where "v = JObj m" "entity_ok merge_opts m" using entity_result_ok [OF assms(2)] by blast
  then obtain m' where "apply_common_observed_at obs v = JObj m'" "fragment_inv m'"
    using observed_inv [OF expanded_fragment] no_temporal by blast
  then show ?thesis using change_inv [OF assms(1,3)] merge_document_inv [of i _ m' N a i] by simp
qed

lemma merge_distributed_inv:
  "docs_inv (w_store w) \<Longrightarrow> merge_distributed N a i obj regs w = (r, w') \<Longrightarrow> docs_inv (w_store w')"
  by (auto simp: merge_distributed_def Let_def split: prod.splits if_splits sum.splits option.splits dest: merge_change_inv)

lemma merge_entity_inv:
  assumes "docs_inv (w_store w)" "merge_entity N a i obj w = (r, w')"
  shows "docs_inv (w_store w')"
  using assms merge_distributed_inv [OF assms(1)] merge_change_inv [OF assms(1)]
  by (auto simp: merge_entity_def split: sum.splits option.splits if_splits prod.splits)

lemma replace_change_inv:
  assumes "docs_inv (w_store w)" "expand_entity L c default_opts obj = Inr v" "names obj i"
    and "change_entity N a i (replace_closure N a i (stamp_new ts v)) w = (r, w')"
  shows "docs_inv (w_store w')"
proof (rule change_inv [OF assms(1,4)])
  fix x b j assume r: "replace_closure N a i (stamp_new ts v) b = Inr (x, j)"
  obtain m where m: "stamp_new ts v = JObj m" "named_inv i m" using new_document [OF assms(2,3)] by (auto simp: doc_inv_def)
  show "doc_inv i j" using r m(2) entity_inv_insert meta_keys unfolding m(1)
    by (auto simp: replace_closure_def replace_document_def doc_inv_def named_inv_def split: if_splits option.splits)
qed

lemma replace_distributed_inv:
  assumes "docs_inv (w_store w)" "replace_distributed N a i obj known regs w = (r, w')" "names obj i"
  shows "docs_inv (w_store w')"
  using assms replace_change_inv [OF assms(1) _ strip_names [OF assms(3)]]
  by (auto simp: replace_distributed_def Let_def split: prod.splits if_splits sum.splits option.splits)

lemma replace_entity_inv:
  assumes "docs_inv (w_store w)" "replace_entity N a i obj w = (r, w')"
  shows "docs_inv (w_store w')"
proof -
  have d: "docs_inv (w_store w1)"
    if "expand_entity (nd_lib N) (ca_ctx a) default_opts obj = Inr v" "Option.bind (jget v ''id'') as_str = Some i"
      "replace_distributed N a i obj known regs w = (q, w1)" for v known regs q w1
    by (rule replace_distributed_inv [OF assms(1) that(3) expanded_names [OF that(1,2)]])
  have l: "docs_inv (w_store w1)"
    if "expand_entity (nd_lib N) (ca_ctx a) default_opts obj = Inr v" "Option.bind (jget v ''id'') as_str = Some i"
      "change_entity N a i (replace_closure N a i (stamp_new (nd_now N) v)) w = (q, w1)" for v q w1
    by (rule replace_change_inv [OF assms(1) that(1) expanded_names [OF that(1,2)] that(3)])
  show ?thesis using assms
    by (auto simp: replace_entity_def Let_def split: sum.splits option.splits if_splits prod.splits) (blast intro: d l)+
qed

lemma delete_entity_inv:
  assumes "docs_inv (w_store w)" "delete_entity N a i w = (r, w')"
  shows "docs_inv (w_store w')"
  using assms removed_inv [OF assms(1)]
  by (auto simp: delete_entity_def Let_def split: sum.splits option.splits if_splits prod.splits)


subsection \<open>Attributes\<close>

lemma iri_not_meta: "is_absolute_iri k \<Longrightarrow> \<not> is_meta k"
proof
  assume k: "is_absolute_iri k" "is_meta k"
  then have "CHR '':'' \<in> set k" using absolute_colon by blast
  moreover have "list_all (\<lambda>k. CHR '':'' \<notin> set k) ENTITY_META_KEYS" by (simp add: ENTITY_META_KEYS_def)
  ultimately show False using k(2) by (auto simp: is_meta_def list_all_iff)
qed

lemma named_iri: "expand_attr_name c k = Inr i \<Longrightarrow> is_absolute_iri i"
  by (auto simp: expand_attr_name_def Let_def split: if_splits)

lemma iri_not_id: "expand_attr_name c k = Inr i \<Longrightarrow> i \<noteq> ''id''"
  using iri_not_meta [OF named_iri] meta_keys(1) by blast

lemma filtered_new_attrs: "new_attrs_inv b m \<Longrightarrow> \<exists>m'. strip_covered_expanded regs (JObj m) = JObj m' \<and> new_attrs_inv b m'"
  by (auto simp: strip_covered_expanded_def new_attrs_inv_def)

lemma write_here_inv:
  assumes "docs_inv (w_store w)" "write_here N a i merge (JObj f) w = (r, w')"
    and "\<And>s. entity_inv (fst s) \<Longrightarrow> entity_inv (fst (merge f s))" "\<And>s. bm_get (fst (merge f s)) ''id'' = bm_get (fst s) ''id''"
  shows "docs_inv (w_store w')"
proof -
  obtain q w1 where c: "change_entity N a i (write_fragment (ca_ctx a) (ca_params a) i (nd_now N) merge (JObj f)) w = (q, w1)" by fastforce
  have "docs_inv (w_store w1)"
  proof (rule change_inv [OF assms(1) c])
    fix x b j assume b: "doc_inv i b" "write_fragment (ca_ctx a) (ca_params a) i (nd_now N) merge (JObj f) b = Inr (x, j)"
    then obtain t where t: "b = JObj t" "entity_inv t" "bm_get t ''id'' = Some (JStr i)" by (auto simp: doc_inv_def named_inv_def)
    then obtain m where m: "j = JObj m" "entity_inv m"
      using write_fragment_inv [of t "ca_ctx a" "ca_params a" i "nd_now N" merge f x j, OF _ _ assms(3)] b(2) by auto
    then show "doc_inv i j" using write_fragment_id [where merge = merge and f = f, OF _ assms(4)] b(2) t
      by (simp add: doc_inv_def named_inv_def)
  qed
  then show ?thesis using assms(2) c by (auto simp: write_here_def split: option.splits sum.splits unwritten.splits)
qed

lemma write_attrs_inv:
  assumes "docs_inv (w_store w)" "write_attrs N a mode merge i obj w = (r, w')"
    and "\<And>f s. new_attrs_inv (\<not> aw_null mode) f \<Longrightarrow> entity_inv (fst s) \<Longrightarrow> entity_inv (fst (merge f s))"
    and "\<And>f s. bm_get (fst (merge f s)) ''id'' = bm_get (fst s) ''id''"
  shows "docs_inv (w_store w')"
proof -
  have "docs_inv (w_store w1)"
    if v: "expand_entity (nd_lib N) (ca_ctx a) (fragment_opts (aw_null mode)) obj = Inr v"
      and w: "write_here N a i merge (strip_covered_expanded regs v) w = (q, w1)" for v regs q w1
  proof -
    obtain m where m: "v = JObj m" "entity_ok (fragment_opts (aw_null mode)) m" using entity_result_ok [OF v] by blast
    then obtain m' where "strip_covered_expanded regs v = JObj m'" "new_attrs_inv (\<not> aw_null mode) m'"
      using filtered_new_attrs [OF expanded_new_attrs [OF m(2) no_temporal(3)], of regs] no_temporal(5) by auto
    then show ?thesis using write_here_inv [OF assms(1) _ assms(3,4)] w by simp
  qed
  then show ?thesis using assms(1,2)
    by (auto simp: write_attrs_def Let_def split: sum.splits option.splits if_splits prod.splits)
qed

lemma append_attrs_inv: "docs_inv (w_store w) \<Longrightarrow> append_attrs N a i obj w = (r, w') \<Longrightarrow> docs_inv (w_store w')"
  unfolding append_attrs_def
  by (erule (1) write_attrs_inv) (auto simp: APPEND_def intro: append_fragment_inv simp: append_fragment_id)

lemma update_attrs_inv: "docs_inv (w_store w) \<Longrightarrow> update_attrs N a i obj w = (r, w') \<Longrightarrow> docs_inv (w_store w')"
  unfolding update_attrs_def
  by (erule (1) write_attrs_inv) (auto simp: UPDATE_def intro: update_fragment_inv simp: update_fragment_id)

lemma single_attr_inv:
  assumes "docs_inv (w_store w)" "single_attr N a i name target edit had send w = (r, w')"
    and "\<And>t x m. entity_inv t \<Longrightarrow> edit t = Inr (x, m) \<Longrightarrow> entity_inv m"
    and "\<And>t x m. edit t = Inr (x, m) \<Longrightarrow> bm_get m ''id'' = bm_get t ''id''"
  shows "docs_inv (w_store w')"
proof -
  have "docs_inv (w_store w1)" if "change_entity N a i (on_target (ca_ctx a) (ca_params a) i edit) w = (q, w1)" for q w1
  proof (rule change_inv [OF assms(1) that])
    fix x b j assume "doc_inv i b" "on_target (ca_ctx a) (ca_params a) i edit b = Inr (x, j)"
    then obtain t where t: "b = JObj t" "named_inv i t" "map_sum id (map_prod id JObj) (edit t) = Inr (x, j)"
      by (auto simp: on_target_def doc_inv_def split: if_splits)
    then obtain m where "edit t = Inr (x, m)" "j = JObj m" by (cases "edit t") (auto simp: map_prod_def split: prod.splits)
    then show "doc_inv i j" using assms(3,4) t(2) by (auto simp: doc_inv_def named_inv_def)
  qed
  then show ?thesis using assms(1,2)
    by (auto simp: single_attr_def Let_def split: sum.splits option.splits if_splits prod.splits)
qed


definition leaves_dataset :: "jobj \<Rightarrow> jobj ngsi_result \<Rightarrow> bool" where
  "leaves_dataset s r \<longleftrightarrow> (\<forall>s'. r = Inr s' \<longrightarrow> (bm_ok s \<longrightarrow> bm_ok s') \<and> bm_get s' ''datasetId'' = bm_get s ''datasetId'')"

lemma leaves_dataset_simps:
  "leaves_dataset s (Inr s)" "leaves_dataset s (Inl e)" "k \<noteq> ''datasetId'' \<Longrightarrow> leaves_dataset s (Inr (bm_insert k v s))"
  "(\<And>x. r = Inr x \<Longrightarrow> leaves_dataset s (h x)) \<Longrightarrow> leaves_dataset s (and_then r h)"
  "(b \<Longrightarrow> leaves_dataset s x) \<Longrightarrow> (\<not> b \<Longrightarrow> leaves_dataset s y) \<Longrightarrow> leaves_dataset s (if b then x else y)"
  "leaves_dataset s z \<Longrightarrow> (\<And>u. leaves_dataset s (q u)) \<Longrightarrow> leaves_dataset s (case d of None \<Rightarrow> z | Some u \<Rightarrow> q u)"
  by (auto simp: leaves_dataset_def bm_insert_ok and_then_Inr_iff split: option.split)

lemma iri_not_dataset: "expand_attr_name c k = Inr i \<Longrightarrow> i \<noteq> ''datasetId''"
  using absolute_colon [OF named_iri, of c k i] by auto

lemma other_member_leaves_dataset: "k \<noteq> ''datasetId'' \<Longrightarrow> leaves_dataset s (fragment_step L c (k, v) s)"
  unfolding fragment_step_def prod.case
  by (intro leaves_dataset_simps; (erule iri_not_dataset)?; simp)

lemma fragment_sound:
  assumes "expand_attr_fragment L c obj = Inr v"
  shows "sound_ds v"
proof -
  obtain m where m: "try_fold (fragment_step L c) obj [] = Inr m" "v = JObj m"
    using assms by (auto simp: expand_attr_fragment_def and_then_Inr_iff)
  let ?P = "\<lambda>m. bm_ok m \<and> dataset_ok (bm_get m ''datasetId'')"
  have "?P m"
  proof (rule try_fold_Inr_inv [OF m(1)])
    show "?P []" by (simp add: bm_ok_def dataset_ok_def bm_get_def)
    fix x s s' assume s: "?P s" "fragment_step L c x s = Inr s'"
    obtain k u where x: "x = (k, u)" by (cases x)
    show "?P s'"
    proof (cases "k = ''datasetId''")
      case True
      then have "k \<notin> set FRAGMENT_IGNORED" "k \<notin> set OUTPUT_ONLY" by (simp_all add: FRAGMENT_IGNORED_def OUTPUT_ONLY_def)
      then obtain d where "dataset_id_member u = Inr d" "s' = (case d of Some d \<Rightarrow> bm_insert ''datasetId'' d s | None \<Rightarrow> s)"
        using s(2) x True by (auto simp: fragment_step_def and_then_Inr_iff split: option.splits)
      then show ?thesis using s(1) dataset_member_ok by (auto simp: bm_insert_ok split: option.split)
    next
      case False
      with other_member_leaves_dataset [OF this, of s L c u] s x show ?thesis by (simp add: leaves_dataset_def)
    qed
  qed
  then show ?thesis using m(2) by (auto simp: sound_ds_def dataset_ok_def inst_str_def split: option.splits)
qed

lemma partial_update_attr_inv:
  assumes "docs_inv (w_store w)" "partial_update_attr N a i name obj w = (r, w')"
  shows "docs_inv (w_store w')"
proof -
  have "docs_inv (w_store w1)"
    if "expand_attr_fragment (nd_lib N) (ca_ctx a) obj = Inr frag" "expand_attr_name (ca_ctx a) name = Inr target"
      "single_attr N a i name target (partial_update (nd_now N) target frag) False send w = (q, w1)" for frag target send q w1
    using single_attr_inv [OF assms(1) that(3)] attr_ops_id(1) [OF iri_not_id [OF that(2)]] partial_update_inv [OF _ fragment_sound [OF that(1)] iri_not_meta [OF named_iri [OF that(2)]]] by blast
  then show ?thesis using assms by (auto simp: partial_update_attr_def split: sum.splits if_splits)
qed

lemma replace_attr_inv:
  assumes "docs_inv (w_store w)" "replace_attr N a i name obj w = (r, w')"
  shows "docs_inv (w_store w')"
proof -
  have "docs_inv (w_store w1)"
    if "expand_attr_name (ca_ctx a) name = Inr target" "single_attr N a i name target (replace_attribute (nd_now N) target new) False send w = (q, w1)"
    for target new send q w1
    using single_attr_inv [OF assms(1) that(2)] attr_ops_id(2) [OF iri_not_id [OF that(1)]] replace_attribute_inv [OF _ iri_not_meta [OF named_iri [OF that(1)]]] by blast
  then show ?thesis using assms by (auto simp: replace_attr_def split: sum.splits if_splits option.splits list.splits)
qed

lemma delete_attr_inv:
  assumes "docs_inv (w_store w)" "delete_attr N a had i name w = (r, w')"
  shows "docs_inv (w_store w')"
proof -
  have "docs_inv (w_store w1)"
    if "\<not> is_meta target \<or> target = ''scope''" "single_attr N a i name target (delete_attribute (nd_now N) target everything ds) had send w = (q, w1)"
    for target everything ds send q w1
    using single_attr_inv [OF assms(1) that(2)] attr_ops_id(3) [of target] meta_keys(1) that(1) delete_attribute_inv [OF _ that(1)] by blast
  moreover have "\<not> is_meta target \<or> target = ''scope''"
    if "(if name = ''scope'' then Ok ''scope'' else map_sum id (\<lambda>target. if target = SCOPE_IRI then ''scope'' else target) (expand_attr_name (ca_ctx a) name)) = Inr target" for target
    using that named_iri [of "ca_ctx a" name] iri_not_meta by (cases "expand_attr_name (ca_ctx a) name") (auto split: if_splits)
  ultimately show ?thesis using assms
    by (cases "if name = ''scope'' then Ok ''scope'' else map_sum id (\<lambda>target. if target = SCOPE_IRI then ''scope'' else target) (expand_attr_name (ca_ctx a) name)";
        cases "and_then (entity_id_new i) (\<lambda>_. check_attr_name name)")
       (simp_all add: delete_attr_def split: if_split_asm)
qed

lemma docs_new: "docs_inv new_store"
proof -
  have "wf_inner (st_inner new_store)" using store_ok_new by (simp add: store_ok_def)
  then show ?thesis by (simp add: docs_inv_def get_def new_store_def doc_at_def tenant_docs_def empty_inner_def bm_get_def)
qed

end
