(* ===== verification/BatchSpec.thy ===== *)
theory BatchSpec
  imports Batch Stored
begin

text \<open>
  A batch writes every entity as its items one after another: the rounds keep the order of the items of each id, and a
  round holds an id at most once.  The batch answers for every item, and keeps the stored entities well formed.
\<close>

subsection \<open>Rounds\<close>

definition of_id :: "string \<Rightarrow> (string \<times> 'a) list \<Rightarrow> (string \<times> 'a) list" where
  "of_id i xs = filter (\<lambda>x. fst x = i) xs"

lemma of_id_simps [simp]:
  "of_id i [] = []" "of_id i (x # xs) = (if fst x = i then x # of_id i xs else of_id i xs)" "of_id i (xs @ ys) = of_id i xs @ of_id i ys"
  by (simp_all add: of_id_def)

lemma of_id_empty: "i \<notin> fst ` set xs \<Longrightarrow> of_id i xs = []"
  by (force simp: of_id_def filter_empty_conv)

lemma of_id_concat: "of_id i (concat rs) = concat (map (of_id i) rs)"
  by (induction rs) simp_all

lemma distinct_ids: "(\<And>i. length (of_id i xs) \<le> 1) \<Longrightarrow> distinct (map fst xs)"
proof (induction xs)
  case (Cons x xs)
  have "length (of_id i xs) \<le> 1" for i using Cons.prems [of i] by (auto split: if_splits)
  moreover have "of_id (fst x) xs = []" using Cons.prems [of "fst x"] by simp
  then have "fst x \<notin> set (map fst xs)" by (auto simp: of_id_def filter_empty_conv)
  ultimately show ?case using Cons.IH by simp
qed simp

text \<open>After the items \<open>xs\<close>: the n-th round holds the n-th item of every id.\<close>

definition rounds_inv :: "batch_docs \<Rightarrow> batch_docs list \<times> nat bmap \<Rightarrow> bool" where
  "rounds_inv xs s \<longleftrightarrow> (\<forall>i. (case bm_get (snd s) i of Some n \<Rightarrow> n | None \<Rightarrow> 0) = length (of_id i xs)
     \<and> length (of_id i xs) \<le> length (fst s)
     \<and> (\<forall>n<length (fst s). of_id i (fst s ! n) = (if n < length (of_id i xs) then [of_id i xs ! n] else [])))"

lemma into_round_inv:
  assumes "rounds_inv xs s"
  shows "rounds_inv (xs @ [x]) (into_round x s)"
proof -
  obtain rs occ where s: "s = (rs, occ)" by (cases s)
  let ?n = "length (of_id (fst x) xs)"
  let ?rs = "if length rs \<le> ?n then rs @ [[]] else rs"
  have occ: "(case bm_get occ i of Some n \<Rightarrow> n | None \<Rightarrow> 0) = length (of_id i xs)" "length (of_id i xs) \<le> length rs"
    and get: "n < length rs \<Longrightarrow> of_id i (rs ! n) = (if n < length (of_id i xs) then [of_id i xs ! n] else [])" for i n
    using assms s by (auto simp: rounds_inv_def)
  have r: "into_round x s = (?rs[?n := ?rs ! ?n @ [x]], bm_insert (fst x) (Suc ?n) occ)"
    by (simp add: into_round_def s occ(1) Let_def)
  have n: "?n < length ?rs" "length ?rs \<le> Suc (length rs)" using occ(2) [of "fst x"] by auto
  have g: "of_id i (?rs ! n) = (if n < length (of_id i xs) then [of_id i xs ! n] else [])" if "n < length ?rs" for i n
  proof (cases "n < length rs")
    case False
    then have "n = length rs" "length rs \<le> ?n" using that by (auto split: if_splits)
    then show ?thesis using occ(2) [of i] by (simp add: nth_append)
  qed (use get in \<open>auto simp: nth_append\<close>)
  show ?thesis unfolding rounds_inv_def r
  proof (intro allI conjI impI, goal_cases)
    case (1 i)
    then show ?case using occ(1) [of i] by simp
  next
    case (2 i)
    then show ?case using occ(2) [of i] n(1) by (auto split: if_splits)
  next
    case (3 i n)
    then have m: "n < length ?rs" by simp
    show ?case using g [OF m, of i] m by (cases "n = ?n"; cases "fst x = i") (auto simp: nth_append less_Suc_eq)
  qed
qed

lemma rounds_inv_fold: "rounds_inv xs s \<Longrightarrow> rounds_inv (xs @ ys) (fold into_round ys s)"
proof (induction ys arbitrary: xs s)
  case (Cons y ys)
  from Cons.IH [OF into_round_inv [OF Cons.prems]] show ?case by simp
qed simp

lemma rounds_ok: "rounds_inv xs (fold into_round xs ([], []))"
  using rounds_inv_fold [of "[]" "([], [])" xs] by (simp add: rounds_inv_def bm_get_def)

lemma rounds_keep_order: "of_id i (concat (rounds_of xs)) = of_id i xs"
proof -
  let ?rs = "rounds_of xs"
  have inv: "length (of_id i xs) \<le> length ?rs"
    "n < length ?rs \<Longrightarrow> of_id i (?rs ! n) = (if n < length (of_id i xs) then [of_id i xs ! n] else [])" for n
    using rounds_ok [of xs] by (auto simp: rounds_inv_def rounds_of_def)
  have "of_id i (concat ?rs) = concat (map (\<lambda>n. of_id i (?rs ! n)) [0..<length ?rs])"
    unfolding of_id_concat by (metis (no_types) map_nth map_map comp_def map_eq_conv)
  also have "\<dots> = concat (map (\<lambda>n. if n < length (of_id i xs) then [of_id i xs ! n] else []) [0..<length ?rs])"
    by (rule arg_cong [of _ _ concat], rule map_cong) (simp_all add: inv)
  also have "\<dots> = concat (map (\<lambda>n. [of_id i xs ! n]) [0..<length (of_id i xs)])"
  proof -
    have "[0..<length ?rs] = [0..<length (of_id i xs)] @ [length (of_id i xs)..<length ?rs]"
      using inv(1) by (metis le_add_diff_inverse upt_add_eq_append zero_le)
    moreover have "concat (map (\<lambda>n. if n < length (of_id i xs) then [of_id i xs ! n] else []) [length (of_id i xs)..<length ?rs]) = []"
      by simp
    moreover have "map (\<lambda>n. if n < length (of_id i xs) then [of_id i xs ! n] else []) [0..<length (of_id i xs)]
        = map (\<lambda>n. [of_id i xs ! n]) [0..<length (of_id i xs)]"
      by (rule map_cong) simp_all
    ultimately show ?thesis by (simp only: map_append concat_append append_Nil2)
  qed
  also have "\<dots> = of_id i xs" by (simp add: concat_map_singleton map_nth)
  finally show ?thesis .
qed

lemma rounds_distinct:
  assumes "r \<in> set (rounds_of xs)"
  shows "distinct (map fst r)"
proof (rule distinct_ids)
  fix i
  obtain n where "n < length (rounds_of xs)" "r = rounds_of xs ! n" using assms by (auto simp: in_set_conv_nth)
  then show "length (of_id i r) \<le> 1" using rounds_ok [of xs] by (auto simp: rounds_inv_def rounds_of_def)
qed

subsection \<open>The stored entity after a batch\<close>

abbreviation entity_at :: "call_info \<Rightarrow> world \<Rightarrow> string \<Rightarrow> json option" where
  "entity_at a w i \<equiv> get (ca_tenant a) Entity i (w_store w)"

text \<open>What one item does to the entity it names.\<close>

definition edited :: "'g broker_node \<Rightarrow> (json \<Rightarrow> ('e, 'a \<times> json) result) \<Rightarrow> json option \<Rightarrow> json option" where
  "edited N f o1 = (case o1 of None \<Rightarrow> None
     | Some j \<Rightarrow> if expired_at (nd_ext N) (nd_now N) j then Some j else (case f j of Inl _ \<Rightarrow> Some j | Inr (_, c) \<Rightarrow> Some c))"

definition stale :: "'g broker_node \<Rightarrow> json option \<Rightarrow> bool" where
  "stale N o1 \<longleftrightarrow> (case o1 of None \<Rightarrow> True | Some j \<Rightarrow> expired_at (nd_ext N) (nd_now N) j)"

definition item_edit :: "'g broker_node \<Rightarrow> call_info \<Rightarrow> batch_mode \<Rightarrow> json \<Rightarrow> json option \<Rightarrow> json option" where
  "item_edit N a m d o1 = (let new = stamp_new (nd_now N) d in case m of
     BCreate \<Rightarrow> if stale N o1 then Some new else o1
   | BUpsert \<Rightarrow> if \<not> has_option (ca_params a) ''update'' \<or> stale N o1 then Some new else edited N (merge_closure (nd_now N) d) o1
   | BUpdate \<Rightarrow> edited N ((if has_option (ca_params a) ''noOverwrite'' then append_missing else merge_closure) (nd_now N) d) o1
   | BMerge \<Rightarrow> edited N (merge_closure (nd_now N) d) o1)"

lemma expired_get: "is_expired E now (st_inner st) Entity t d \<longleftrightarrow> (case get t Entity d st of Some j \<Rightarrow> expired_at E now j | None \<Rightarrow> False)"
  by (simp add: is_expired_def get_def)

lemma change_at:
  "entity_at a (snd (change_entity N a d f w)) i = (if i = d then edited N f (entity_at a w d) else entity_at a w i)"
  "fst (change_entity N a d f w) = None \<longleftrightarrow> stale N (entity_at a w d)"
  by (auto simp: change_entity_def mutate_def expired_get edited_def stale_def get_def doc_at_put Let_def split: option.splits sum.splits)

lemma store_at:
  "entity_at a (snd (store_entity N a d j w)) i = (if i = d \<and> stale N (entity_at a w d) then Some j else entity_at a w i)"
  by (auto simp: store_entity_def create_def expired_get stale_def get_def doc_at_put split: option.splits)

lemma upsert_at: "entity_at a (snd (upsert_entity N a d j w)) i = (if i = d then Some j else entity_at a w i)"
  by (auto simp: upsert_entity_def upsert_def get_def doc_at_put Let_def)

lemma create_one_at:
  "entity_at a (snd (create_one N a x s)) i = (if i = fst x then item_edit N a BCreate (snd x) (entity_at a (snd s) i) else entity_at a (snd s) i)"
proof -
  obtain out created w where s: "s = ((out, created), w)" by (metis surj_pair)
  have "snd (create_one N a x s) = snd (store_entity N a (fst x) (stamp_new (nd_now N) (snd x)) w)"
    by (simp add: create_one_def s split: prod.split bool.split)
  then show ?thesis using store_at [where N = N and a = a and d = "fst x" and j = "stamp_new (nd_now N) (snd x)" and w = w and i = i] by (auto simp: item_edit_def s)
qed

lemma replace_one_at:
  "entity_at a (snd (replace_one N a x s)) i = (if i = fst x then Some (stamp_new (nd_now N) (snd x)) else entity_at a (snd s) i)"
proof -
  obtain out created w where s: "s = ((out, created), w)" by (metis surj_pair)
  have "snd (replace_one N a x s) = snd (upsert_entity N a (fst x) (stamp_new (nd_now N) (snd x)) w)"
    by (simp add: replace_one_def s split: prod.split)
  then show ?thesis using upsert_at [where N = N and a = a and d = "fst x" and j = "stamp_new (nd_now N) (snd x)" and w = w and i = i] by (auto simp: s)
qed

text \<open>Steps that each touch the entity they name: an entity sees the steps that name it, in order.\<close>

lemma fold_at:
  assumes "\<And>x s. P (f x s) i = (if i = fst x then g (snd x) (P s i) else P s i)"
  shows "P (fold f xs s) i = fold (\<lambda>x. g (snd x)) (of_id i xs) (P s i)"
  by (induction xs arbitrary: s) (auto simp: assms)

lemma batch_mutate_at:
  "entity_at a (snd (batch_mutate N a f xs w)) i = fold (\<lambda>x. edited N (f (snd x))) (of_id i xs) (entity_at a w i)"
proof (induction xs arbitrary: w)
  case (Cons x xs)
  have "snd (batch_mutate N a f (x # xs) w) = snd (batch_mutate N a f xs (snd (change_entity N a (fst x) (f (snd x)) w)))"
    by (simp add: split_beta)
  then show ?case using Cons.IH [of "snd (change_entity N a (fst x) (f (snd x)) w)"] change_at(1) [where N = N and a = a and d = "fst x" and f = "f (snd x)" and w = w and i = i] by simp
qed simp

lemma absent_docs_Cons: "absent_docs (x # xs) (r # rs) = (if r = None then x # absent_docs xs rs else absent_docs xs rs)"
  by (simp add: absent_docs_def)

lemma absent_at:
  assumes "distinct (map fst xs)"
  shows "of_id i (absent_docs xs (fst (batch_mutate N a f xs w))) = (if stale N (entity_at a w i) then of_id i xs else [])"
  using assms
proof (induction xs arbitrary: w)
  case Nil
  then show ?case by (simp add: absent_docs_def)
next
  case (Cons x xs)
  let ?w = "snd (change_entity N a (fst x) (f (snd x)) w)"
  have r: "fst (batch_mutate N a f (x # xs) w) = fst (change_entity N a (fst x) (f (snd x)) w) # fst (batch_mutate N a f xs ?w)"
    by (simp add: split_beta)
  show ?case
  proof (cases "fst x = i")
    case True
    then have i: "i \<notin> fst ` set xs" using Cons.prems by auto
    then have "of_id i xs = []" by (rule of_id_empty)
    moreover have "of_id i (absent_docs xs rs) = []" for rs
    proof (rule of_id_empty)
      have "set (absent_docs xs rs) \<subseteq> set xs" by (auto simp: absent_docs_def dest: set_zip_leftD)
      then show "i \<notin> fst ` set (absent_docs xs rs)" using i by blast
    qed
    ultimately show ?thesis unfolding r absent_docs_Cons
      using True change_at(2) [where N = N and a = a and d = "fst x" and f = "f (snd x)" and w = w] by simp
  next
    case False
    then show ?thesis unfolding r absent_docs_Cons
      using Cons.IH [of ?w] Cons.prems change_at(1) [where N = N and a = a and d = "fst x" and f = "f (snd x)" and w = w and i = i] by simp
  qed
qed

lemma fold_single: "length xs \<le> 1 \<Longrightarrow> fold f xs s = (case xs of [] \<Rightarrow> s | x # _ \<Rightarrow> f x s)"
  by (cases xs) (auto simp: Suc_le_eq)

lemma distinct_of_id: "distinct (map fst xs) \<Longrightarrow> length (of_id i xs) \<le> 1"
proof (induction xs)
  case (Cons x xs)
  show ?case
  proof (cases "fst x = i")
    case True
    then have "of_id i xs = []" using Cons.prems by (auto intro: of_id_empty)
    then show ?thesis using True by simp
  qed (use Cons in simp)
qed simp

lemma upsert_round_at:
  assumes "distinct (map fst xs)"
  shows "entity_at a (snd (upsert_round N a (has_option (ca_params a) ''update'') xs s)) i =
    fold (\<lambda>x. item_edit N a BUpsert (snd x)) (of_id i xs) (entity_at a (snd s) i)"
proof -
  obtain out created w where s: "s = ((out, created), w)" by (metis surj_pair)
  let ?g = "\<lambda>s. entity_at a (snd s)"
  have rep: "?g (fold (replace_one N a) ys q) i = fold (\<lambda>x o1. Some (stamp_new (nd_now N) (snd x))) (of_id i ys) (?g q i)" for ys q
    using fold_at [where P = ?g and f = "replace_one N a" and g = "\<lambda>d o1. Some (stamp_new (nd_now N) d)"] replace_one_at by fastforce
  show ?thesis
  proof (cases "has_option (ca_params a) ''update''")
    case False
    then have "(\<lambda>x. item_edit N a BUpsert (snd x)) = (\<lambda>(x :: string \<times> json) o1. Some (stamp_new (nd_now N) (snd x)))"
      by (intro ext) (simp add: item_edit_def Let_def)
    then show ?thesis using rep False by (simp add: upsert_round_def)
  next
    case True
    let ?f = "merge_closure (nd_now N)"
    let ?b = "batch_mutate N a ?f xs w"
    have "?g (upsert_round N a True xs s) i = fold (\<lambda>x o1. Some (stamp_new (nd_now N) (snd x))) (of_id i (absent_docs xs (fst ?b))) (entity_at a (snd ?b) i)"
      using rep by (simp add: upsert_round_def s split_beta)
    then show ?thesis using True absent_at [OF assms, where N = N and a = a and f = ?f and w = w and i = i] distinct_of_id [OF assms, of i] batch_mutate_at [where N = N and a = a and f = ?f and xs = xs and w = w and i = i]
      by (auto simp: s fold_single item_edit_def edited_def stale_def Let_def split: list.splits option.splits)
  qed
qed

lemma update_round_at:
  "entity_at a (snd (update_round N a mo xs s)) i =
    fold (\<lambda>x. edited N ((if mo then append_missing else merge_closure) (nd_now N) (snd x))) (of_id i xs) (entity_at a (snd s) i)"
  by (cases s) (simp add: update_round_def split_beta batch_mutate_at)

lemma item_edit_changes:
  "item_edit N a BUpdate d = edited N ((if has_option (ca_params a) ''noOverwrite'' then append_missing else merge_closure) (nd_now N) d)"
  "item_edit N a BMerge d = edited N (merge_closure (nd_now N) d)"
  by (rule ext, simp add: item_edit_def Let_def)+

lemma rounds_at:
  assumes "\<And>r s. r \<in> set rs \<Longrightarrow> P (f r s) = fold g (of_id i r) (P s)"
  shows "P (fold f rs s) = fold g (of_id i (concat rs)) (P s)"
  using assms by (induction rs arbitrary: s) simp_all

lemma local_arm_at:
  "entity_at a (snd (local_arm N a m ps w)) i = fold (\<lambda>x. item_edit N a m (snd x)) (of_id i (good_docs ps)) (entity_at a w i)"
proof -
  let ?g = "\<lambda>s :: batch_state \<times> world. entity_at a (snd s) i"
  let ?e = "\<lambda>x :: string \<times> json. item_edit N a m (snd x)"
  let ?xs = "good_docs ps"
  let ?s = "((\<lparr>bo_success = [], bo_errors = bad_docs ps\<rparr>, []), w) :: batch_state \<times> world"
  show ?thesis
  proof (cases m)
    case BCreate
    have "?g (fold (create_one N a) ?xs ?s) = fold ?e (of_id i ?xs) (?g ?s)"
      using fold_at [where P = "\<lambda>s. entity_at a (snd s)" and f = "create_one N a" and g = "item_edit N a BCreate"] create_one_at BCreate by fastforce
    then show ?thesis using BCreate by (simp add: local_arm_def Let_def)
  next
    case BUpsert
    have "?g (fold (upsert_round N a (has_option (ca_params a) ''update'')) (rounds_of ?xs) ?s) = fold ?e (of_id i (concat (rounds_of ?xs))) (?g ?s)"
    proof (rule rounds_at [where P = ?g])
      fix r :: batch_docs and s :: "batch_state \<times> world"
      assume "r \<in> set (rounds_of ?xs)"
      then show "?g (upsert_round N a (has_option (ca_params a) ''update'') r s) = fold ?e (of_id i r) (?g s)"
        unfolding BUpsert by (rule upsert_round_at [OF rounds_distinct])
    qed
    then show ?thesis using BUpsert by (simp add: local_arm_def Let_def rounds_keep_order)
  next
    case BUpdate
    have "?g (fold (update_round N a (has_option (ca_params a) ''noOverwrite'')) (rounds_of ?xs) ?s) = fold ?e (of_id i (concat (rounds_of ?xs))) (?g ?s)"
      by (rule rounds_at [where P = ?g]) (simp add: update_round_at item_edit_changes BUpdate)
    then show ?thesis using BUpdate by (simp add: local_arm_def Let_def rounds_keep_order)
  next
    case BMerge
    have "?g (fold (update_round N a False) (rounds_of ?xs) ?s) = fold ?e (of_id i (concat (rounds_of ?xs))) (?g ?s)"
      by (rule rounds_at [where P = ?g]) (simp add: update_round_at item_edit_changes BMerge)
    then show ?thesis using BMerge by (simp add: local_arm_def Let_def rounds_keep_order)
  qed
qed

lemma inv_snd: "(\<And>r w'. p = (r, w') \<Longrightarrow> docs_inv (w_store w')) \<Longrightarrow> docs_inv (w_store (snd p))"
  by (cases p) simp

subsection \<open>The stored documents\<close>

lemma docs_upsert: "docs_inv st \<Longrightarrow> doc_inv d j \<Longrightarrow> docs_inv (snd (upsert E C now t Entity d j st))"
  by (auto simp: upsert_def Let_def intro: docs_put)

lemma docs_delete: "docs_inv st \<Longrightarrow> docs_inv (snd (delete E C now t Entity d st))"
  by (auto simp: delete_def Let_def emit_is_emit_if intro: docs_del split: option.split)

lemma upsert_inv: "docs_inv (w_store w) \<Longrightarrow> doc_inv i j \<Longrightarrow> docs_inv (w_store (snd (upsert_entity N a i j w)))"
  by (simp add: upsert_entity_def docs_upsert)

lemma drop_inv: "docs_inv (w_store w) \<Longrightarrow> docs_inv (w_store (snd (drop_entity N a i w)))"
  by (simp add: drop_entity_def docs_delete)

lemma batch_drop_inv: "docs_inv (w_store w) \<Longrightarrow> docs_inv (w_store (snd (batch_drop N a ids w)))"
  by (induction ids arbitrary: w) (simp_all add: split_beta drop_inv)

lemma batch_delete_inv: "docs_inv (w_store w) \<Longrightarrow> docs_inv (w_store (snd (batch_delete N a cap v w)))"
  using batch_drop_inv [of w N a]
  by (auto simp: batch_delete_def Let_def loop_508_def split_beta split: json.split list.split option.split)

text \<open>An item that survives its preparation is an expanded document.\<close>

definition ready :: "batch_mode \<Rightarrow> string \<Rightarrow> json \<Rightarrow> bool" where
  "ready m i d \<longleftrightarrow> (\<exists>f. d = JObj f \<and> fragment_inv f) \<and> (m \<noteq> BMerge \<longrightarrow> (\<exists>f. d = JObj f \<and> entity_inv f) \<and> (\<forall>ts. doc_inv i (stamp_new ts d)))"

lemma batch_opts_facts: "\<not> opt_temporal (batch_opts m)" "m \<noteq> BMerge \<Longrightarrow> batch_opts m = default_opts"
  by (simp_all add: batch_opts_def default_opts_def)

lemma prepared_ready:
  assumes "prepare N m proxies item = PGood i d"
  shows "ready m i d"
proof -
  obtain c obj where e: "expand_entity (nd_lib N) c (batch_opts m) obj = Inr d" and i: "expanded_id d = Inr i"
    using assms by (auto simp: prepare_def Let_def and_then_Inr_iff split: prod.splits sum.splits option.splits json.splits)
  obtain f where f: "d = JObj f" "entity_ok (batch_opts m) f" using entity_result_ok [OF e] by blast
  have "Option.bind (jget d ''id'') as_str = Some i" using i by (simp add: expanded_id_def split: option.splits)
  from expanded_names [OF e this] have n: "names obj i" .
  show ?thesis unfolding ready_def
    using f expanded_fragment [OF f(2)] expanded_entity [OF f(2)] batch_opts_facts(1) new_document [OF _ n] e batch_opts_facts(2) [of m] by auto
qed

lemma good_ready: "(i, d) \<in> set (good_docs (map (prepare N m proxies) items)) \<Longrightarrow> ready m i d"
  by (auto simp: good_docs_def map_filter_def prepared_ready split: prepared.splits)

lemma add_missing_inv:
  "one_each cur \<Longrightarrow> one_each (fst (fold add_missing xs (cur, b))) \<and> (cur \<noteq> [] \<longrightarrow> fst (fold add_missing xs (cur, b)) \<noteq> [])"
proof (induction xs arbitrary: cur b)
  case (Cons x xs)
  show ?case
  proof (cases "ds_pos (inst_str x ''datasetId'') cur")
    case None
    then have "one_each (cur @ [x])" using Cons.prems ds_pos_None [of "ds_of x" cur]
      by (auto simp: one_each_def in_dataset_None image_iff)
    from Cons.IH [OF this, of b] show ?thesis using None by (simp add: add_missing_def)
  qed (use Cons.IH [OF Cons.prems, of True] in \<open>simp add: add_missing_def\<close>)
qed simp

lemma missing_attr_inv:
  assumes "entity_inv (fst s)" "is_meta (fst e) \<or> (\<exists>xs. snd e = JArr xs \<and> one_each xs \<and> xs \<noteq> [])"
  shows "entity_inv (fst (missing_attr e s))"
proof -
  obtain k v t sk where es: "e = (k, v)" "s = (t, sk)" by (metis surj_pair)
  have et: "entity_inv t" using assms(1) by (simp add: es)
  show ?thesis
  proof (cases "is_fragment_meta k")
    case nm: False
    show ?thesis
    proof (cases "is_meta k")
      case True
      then show ?thesis using assms(1) nm
        by (auto simp: es missing_attr_def entity_inv_insert split: option.split prod.split)
    next
      case False
      then obtain xs where xs: "v = JArr xs" "one_each xs" "xs \<noteq> []" using assms(2) by (auto simp: es)
      show ?thesis
      proof (cases "bm_get t k")
        case None
        then show ?thesis using assms(1) xs nm
          by (simp add: es missing_attr_def entity_inv_insert attr_list_def array_or_empty_def)
      next
        case (Some cv)
        obtain cur where c: "cv = JArr cur" "one_each cur" "cur \<noteq> []" using entity_list [OF et False Some] by blast
        obtain cur' sk' where r: "fold add_missing xs (cur, sk) = (cur', sk')" by (rule prod.exhaust)
        have "one_each cur'" "cur' \<noteq> []" using add_missing_inv [OF c(2), of xs sk] c(3) r by simp_all
        then show ?thesis using assms(1) Some nm
          by (simp add: es missing_attr_def entity_inv_insert attr_list_def array_or_empty_def xs(1) c(1) r)
      qed
    qed
  qed (use assms(1) in \<open>simp add: es missing_attr_def\<close>)
qed

lemma missing_attr_id: "bm_get (fst (missing_attr e s)) ''id'' = bm_get (fst s) ''id''"
  using fragment_meta_id by (auto simp: missing_attr_def split: prod.split option.split)

lemma append_missing_inv:
  assumes "doc_inv i doc" "entity_inv f" "append_missing ts (JObj f) doc = Inr (x, j)"
  shows "doc_inv i j"
proof -
  obtain t where t: "doc = JObj t" "entity_inv t" "bm_get t ''id'' = Some (JStr i)" using assms(1) by (auto simp: doc_inv_def named_inv_def)
  have a: "is_meta (fst e) \<or> (\<exists>xs. snd e = JArr xs \<and> one_each xs \<and> xs \<noteq> [])" if "e \<in> set f" for e
    using assms(2) that by (cases e) (fastforce simp: entity_inv_def attr_list_def bm_get_iff)
  have "entity_inv (fst s) \<Longrightarrow> set f' \<subseteq> set f \<Longrightarrow> entity_inv (fst (fold missing_attr f' s))" for s f'
    by (induction f' arbitrary: s) (simp_all add: missing_attr_inv a)
  from this [of "(t, False)" f] have "entity_inv (fst (fold missing_attr f (t, False)))" using t(2) by simp
  moreover have "bm_get (fst (fold missing_attr f (t, False))) ''id'' = Some (JStr i)"
    using fold_keeps [of "\<lambda>s. bm_get (fst s) ''id''" missing_attr f "(t, False)"] missing_attr_id t(3) by simp
  ultimately have "named_inv i (touch_entity ts (fst (fold missing_attr f (t, False))))"
    by (simp add: named_inv_def entity_inv_touch) (simp add: touch_entity_def)
  then show ?thesis using assms(3) by (auto simp: append_missing_def t(1) doc_inv_def split: prod.splits)
qed

lemma merge_closure_inv:
  assumes "doc_inv i doc" "fragment_inv f" "merge_closure ts (JObj f) doc = Inr (x, j)"
  shows "doc_inv i j"
proof -
  obtain t where t: "doc = JObj t" "entity_inv t" "bm_get t ''id'' = Some (JStr i)" using assms(1) by (auto simp: doc_inv_def named_inv_def)
  obtain m' where m': "merge_into ts (JObj f) (JObj t) = JObj m'" using merge_into_obj by blast
  have "bm_get m' ''id'' = Some (JStr i)"
    using merge_into_get [of f ts t "''id''"] assms(2) t(3) m' by (auto simp: fragment_inv_def merged_member_def split: option.splits)
  then have "named_inv i m'" using merge_into_inv [OF t(2) assms(2) m'] by (simp add: named_inv_def)
  then show ?thesis using assms(3) by (auto simp: merge_closure_def t(1) m' doc_inv_def)
qed

subsection \<open>The batch keeps them\<close>

lemma fold_inv: "(\<And>x s. x \<in> set xs \<Longrightarrow> Q s \<Longrightarrow> Q (f x s)) \<Longrightarrow> Q s \<Longrightarrow> Q (fold f xs s)"
  by (induction xs arbitrary: s) simp_all

lemma batch_mutate_inv:
  assumes "docs_inv (w_store w)" "\<And>i d x b j. (i, d) \<in> set xs \<Longrightarrow> doc_inv i b \<Longrightarrow> f d b = Inr (x, j) \<Longrightarrow> doc_inv i j"
  shows "docs_inv (w_store (snd (batch_mutate N a f xs w)))"
  using assms
proof (induction xs arbitrary: w)
  case (Cons y ys)
  obtain i d where y: "y = (i, d)" by (cases y)
  have "docs_inv (w_store (snd (change_entity N a i (f d) w)))"
    using change_inv [OF Cons.prems(1), of N a i "f d"] Cons.prems(2) [of i d] by (simp add: y inv_snd)
  from Cons.IH [OF this] have "docs_inv (w_store (snd (batch_mutate N a f ys (snd (change_entity N a i (f d) w)))))"
    using Cons.prems(2) by (meson list.set_intros(2))
  then show ?case by (simp add: y split_beta)
qed simp

abbreviation all_ready :: "batch_mode \<Rightarrow> batch_docs \<Rightarrow> bool" where
  "all_ready m xs \<equiv> \<forall>x\<in>set xs. ready m (fst x) (snd x)"

lemma create_one_inv: "docs_inv (w_store (snd s)) \<Longrightarrow> ready m (fst x) (snd x) \<Longrightarrow> m \<noteq> BMerge \<Longrightarrow> docs_inv (w_store (snd (create_one N a x s)))"
  by (auto simp: create_one_def ready_def split: prod.split bool.split intro: store_inv)

lemma replace_one_inv: "docs_inv (w_store (snd s)) \<Longrightarrow> ready m (fst x) (snd x) \<Longrightarrow> m \<noteq> BMerge \<Longrightarrow> docs_inv (w_store (snd (replace_one N a x s)))"
  by (simp add: replace_one_def ready_def upsert_inv split_beta)

lemma merged_round_inv:
  assumes "docs_inv (w_store w)" "all_ready m xs"
  shows "docs_inv (w_store (snd (batch_mutate N a (merge_closure ts) xs w)))"
  by (rule batch_mutate_inv [OF assms(1)]) (use assms(2) in \<open>fastforce simp: ready_def intro: merge_closure_inv\<close>)

lemma absent_subset: "set (absent_docs xs rs) \<subseteq> set xs"
  by (auto simp: absent_docs_def dest: set_zip_leftD)

lemma upsert_round_inv:
  assumes "docs_inv (w_store (snd s))" "all_ready m xs" "m \<noteq> BMerge"
  shows "docs_inv (w_store (snd (upsert_round N a b xs s)))"
proof -
  have f: "docs_inv (w_store (snd (fold (replace_one N a) ys s)))" if "docs_inv (w_store (snd s))" "set ys \<subseteq> set xs" for ys s
    by (rule fold_inv [where Q = "\<lambda>s. docs_inv (w_store (snd s))"]) (use that assms(2,3) in \<open>auto intro: replace_one_inv\<close>)
  obtain out created w where s: "s = ((out, created), w)" by (metis surj_pair)
  have w: "docs_inv (w_store w)" using assms(1) s by simp
  show ?thesis using f [of s xs] assms(1) f [OF _ absent_subset] merged_round_inv [OF w assms(2), of N a "nd_now N"]
    by (simp add: upsert_round_def s split_beta)
qed

lemma update_round_inv:
  assumes "docs_inv (w_store (snd s))" "all_ready m xs" "m \<noteq> BMerge \<or> \<not> b"
  shows "docs_inv (w_store (snd (update_round N a b xs s)))"
proof -
  obtain out created w where s: "s = ((out, created), w)" by (metis surj_pair)
  have w: "docs_inv (w_store w)" using assms(1) s by simp
  have "docs_inv (w_store (snd (batch_mutate N a (append_missing ts) xs w)))" if "m \<noteq> BMerge" for ts
    by (rule batch_mutate_inv [OF w]) (use assms(2) that in \<open>fastforce simp: ready_def intro: append_missing_inv\<close>)
  then show ?thesis using assms(3) merged_round_inv [OF w assms(2), of N a "nd_now N"] by (auto simp: update_round_def s split_beta)
qed

lemma set_rounds: "set (concat (rounds_of xs)) = set xs"
proof (rule set_eqI)
  fix x :: "string \<times> json"
  have m: "x \<in> set ys \<longleftrightarrow> x \<in> set (of_id (fst x) ys)" for ys by (simp add: of_id_def)
  show "x \<in> set (concat (rounds_of xs)) \<longleftrightarrow> x \<in> set xs"
    unfolding m [of "concat (rounds_of xs)"] m [of xs] rounds_keep_order ..
qed

lemma rounds_inv_run:
  fixes f :: "batch_docs \<Rightarrow> batch_state \<times> world \<Rightarrow> batch_state \<times> world"
  assumes "all_ready m xs" "docs_inv (w_store (snd s))"
    and "\<And>r s. all_ready m r \<Longrightarrow> docs_inv (w_store (snd s)) \<Longrightarrow> docs_inv (w_store (snd (f r s)))"
  shows "docs_inv (w_store (snd (fold f (rounds_of xs) s)))"
proof (rule fold_inv [where Q = "\<lambda>s. docs_inv (w_store (snd s))"])
  fix r :: batch_docs and s :: "batch_state \<times> world"
  assume "r \<in> set (rounds_of xs)" "docs_inv (w_store (snd s))"
  moreover from this have "set r \<subseteq> set (concat (rounds_of xs))" by (simp add: UN_upper)
  then have "set r \<subseteq> set xs" by (simp only: set_rounds)
  ultimately show "docs_inv (w_store (snd (f r s)))" using assms(1,3) by blast
qed (rule assms(2))

lemma local_arm_inv:
  assumes "docs_inv (w_store w)" "all_ready m (good_docs ps)"
  shows "docs_inv (w_store (snd (local_arm N a m ps w)))"
proof (cases m)
  case BCreate
  have "docs_inv (w_store (snd (fold (create_one N a) (good_docs ps) s)))" if "docs_inv (w_store (snd s))" for s
    by (rule fold_inv [where Q = "\<lambda>s. docs_inv (w_store (snd s))"]) (use that assms(2) BCreate in \<open>auto intro: create_one_inv\<close>)
  then show ?thesis using assms(1) BCreate by (simp add: local_arm_def Let_def)
next
  case BUpsert
  have "docs_inv (w_store (snd (fold (upsert_round N a b) (rounds_of (good_docs ps)) s)))" if "docs_inv (w_store (snd s))" for s b
    by (rule rounds_inv_run [OF assms(2) that]) (simp add: upsert_round_inv BUpsert)
  then show ?thesis using assms(1) BUpsert by (simp add: local_arm_def Let_def)
next
  case BUpdate
  have "docs_inv (w_store (snd (fold (update_round N a b) (rounds_of (good_docs ps)) s)))" if "docs_inv (w_store (snd s))" for s b
    by (rule rounds_inv_run [OF assms(2) that]) (simp add: update_round_inv BUpdate)
  then show ?thesis using assms(1) BUpdate by (simp add: local_arm_def Let_def)
next
  case BMerge
  have "docs_inv (w_store (snd (fold (update_round N a False) (rounds_of (good_docs ps)) s)))" if "docs_inv (w_store (snd s))" for s
    by (rule rounds_inv_run [OF assms(2) that]) (simp add: update_round_inv)
  then show ?thesis using assms(1) BMerge by (simp add: local_arm_def Let_def)
qed

lemma batch_write_inv:
  assumes "docs_inv (w_store w)"
  shows "docs_inv (w_store (snd (batch_write N a m items w)))"
proof -
  have "docs_inv (w_store (snd (local_arm N a m (map (prepare N m ps) items) w)))" for ps
    by (rule local_arm_inv [OF assms]) (auto intro: good_ready)
  then show ?thesis using assms by (simp add: batch_write_def split_beta loop_508_def split: option.split)
qed

lemma batch_entities_inv: "docs_inv (w_store w) \<Longrightarrow> docs_inv (w_store (snd (batch_entities N a m load cap ld link v w)))"
  by (simp add: batch_entities_def batch_write_inv split: sum.split)

subsection \<open>Every event\<close>

lemma serve_inv:
  assumes "docs_inv (w_store w)"
  shows "docs_inv (w_store (snd (serve N a req w)))"
proof (cases req)
qed (simp_all add: serve_def inv_snd [OF create_entity_inv [OF assms]] inv_snd [OF merge_entity_inv [OF assms]]
    inv_snd [OF replace_entity_inv [OF assms]] inv_snd [OF delete_entity_inv [OF assms]]
    inv_snd [OF append_attrs_inv [OF assms]] inv_snd [OF update_attrs_inv [OF assms]]
    inv_snd [OF partial_update_attr_inv [OF assms]] inv_snd [OF replace_attr_inv [OF assms]]
    inv_snd [OF delete_attr_inv [OF assms]] batch_entities_inv [OF assms] batch_delete_inv [OF assms])

lemma world_step_inv: "docs_inv (w_store w) \<Longrightarrow> docs_inv (w_store (world_step ev w))"
  using serve_inv docs_sweep by (cases ev) (simp_all add: world_step_def)

lemma world_run_inv: "docs_inv (w_store w) \<Longrightarrow> docs_inv (w_store (fold world_step evs w))"
  by (induction evs arbitrary: w) (simp_all add: world_step_inv)

subsection \<open>The answer of a batch\<close>

text \<open>An outcome accounts for an id that succeeded or that an error names, and it forgets neither.\<close>

definition accounts :: "batch_outcome \<Rightarrow> string \<Rightarrow> bool" where
  "accounts out i \<longleftrightarrow> i \<in> set (bo_success out) \<or> (\<exists>e. err_entry (Some i) e \<in> set (bo_errors out))"

definition extends :: "string set \<Rightarrow> batch_outcome \<Rightarrow> batch_outcome \<Rightarrow> bool" where
  "extends is out out' \<longleftrightarrow> set (bo_errors out) \<subseteq> set (bo_errors out') \<and> set (bo_success out) \<subseteq> set (bo_success out')
     \<and> set (bo_success out') \<subseteq> set (bo_success out) \<union> is"

lemma extends_refl: "extends is out out"
  by (simp add: extends_def)

lemma extends_trans: "extends is out out' \<Longrightarrow> extends is out' out'' \<Longrightarrow> extends is out out''"
  by (auto simp: extends_def)

lemma extends_accounts: "extends is out out' \<Longrightarrow> accounts out i \<Longrightarrow> accounts out' i"
  by (auto simp: extends_def accounts_def)

lemma added:
  "extends is out (add_error e out)" "i \<in> is \<Longrightarrow> extends is out (add_success i out)"
  "accounts (add_success i out) i" "accounts (add_error (err_entry (Some i) x) out) i"
  by (auto simp: extends_def add_error_def add_success_def accounts_def)

text \<open>Steps that each account for the item they take account for all of them.\<close>

lemma fold_accounts:
  assumes "\<And>x s. x \<in> set xs \<Longrightarrow> extends is (P s) (P (f x s)) \<and> (\<forall>i\<in>g x. accounts (P (f x s)) i)"
  shows "extends is (P s) (P (fold f xs s)) \<and> (\<forall>x\<in>set xs. \<forall>i\<in>g x. accounts (P (fold f xs s)) i)"
  using assms
proof (induction xs arbitrary: s)
  case (Cons x xs)
  have x: "extends is (P s) (P (f x s))" "\<forall>i\<in>g x. accounts (P (f x s)) i" using Cons.prems [of x s] by simp_all
  have r: "extends is (P (f x s)) (P (fold f xs (f x s)))" "\<forall>y\<in>set xs. \<forall>i\<in>g y. accounts (P (fold f xs (f x s))) i"
    using Cons.IH [of "f x s"] Cons.prems by simp_all
  show ?case using extends_trans [OF x(1) r(1)] extends_accounts [OF r(1)] x(2) r(2) by auto
qed (simp add: extends_refl)

abbreviation outcome_of :: "batch_state \<times> world \<Rightarrow> batch_outcome" where
  "outcome_of s \<equiv> fst (fst s)"

lemma create_one_accounts:
  "fst x \<in> is \<Longrightarrow> extends is (outcome_of s) (outcome_of (create_one N a x s)) \<and> accounts (outcome_of (create_one N a x s)) (fst x)"
  by (auto simp: create_one_def added split: prod.split bool.split)

lemma replace_one_accounts:
  "fst x \<in> is \<Longrightarrow> extends is (outcome_of s) (outcome_of (replace_one N a x s)) \<and> accounts (outcome_of (replace_one N a x s)) (fst x)"
  by (simp add: replace_one_def added split: prod.split)

lemma batch_mutate_length: "length (fst (batch_mutate N a f xs w)) = length xs"
  by (induction xs arbitrary: w) (simp_all add: split_beta)

lemma note_result_accounts:
  assumes "fst x \<in> is"
  shows "extends is out (note_result seen_merge (x, r) out) \<and> (r \<noteq> None \<longrightarrow> accounts (note_result seen_merge (x, r) out) (fst x))"
  using assms by (cases r) (auto simp: note_result_def seen_merge_def added extends_refl split: sum.split)

lemma seen_update_accounts:
  "fst x \<in> is \<Longrightarrow> extends is out (seen_update x r out) \<and> accounts (seen_update x r out) (fst x)"
  by (auto simp: seen_update_def added split: option.split sum.split)

lemma upsert_round_accounts:
  assumes "fst ` set xs \<subseteq> is"
  shows "extends is (outcome_of s) (outcome_of (upsert_round N a b xs s)) \<and> (\<forall>i\<in>fst ` set xs. accounts (outcome_of (upsert_round N a b xs s)) i)"
proof -
  have rep: "extends is (outcome_of s) (outcome_of (fold (replace_one N a) ys s)) \<and> (\<forall>x\<in>set ys. \<forall>i\<in>{fst x}. accounts (outcome_of (fold (replace_one N a) ys s)) i)"
    if "set ys \<subseteq> set xs" for ys s
    by (rule fold_accounts) (use that assms in \<open>auto intro!: replace_one_accounts\<close>)
  obtain out created w where s: "s = ((out, created), w)" by (metis surj_pair)
  show ?thesis
  proof (cases b)
    case False
    then show ?thesis using rep [of xs s] by (auto simp: upsert_round_def)
  next
    case True
    let ?b = "batch_mutate N a (merge_closure (nd_now N)) xs w"
    let ?m = "fold (note_result seen_merge) (zip xs (fst ?b)) out"
    let ?t = "fold (replace_one N a) (absent_docs xs (fst ?b)) ((?m, created), snd ?b)"
    have mrg: "extends is out ?m \<and> (\<forall>xr\<in>set (zip xs (fst ?b)). \<forall>i\<in>(if snd xr = None then {} else {fst (fst xr)}). accounts ?m i)"
    proof (rule fold_accounts [where P = "\<lambda>out. out"])
      fix xr out assume "xr \<in> set (zip xs (fst ?b))"
      then have "fst xr \<in> set xs" using set_zip_leftD [of "fst xr" "snd xr"] by simp
    then have "fst (fst xr) \<in> is" using assms by blast
      then show "extends is out (note_result seen_merge xr out) \<and> (\<forall>i\<in>if snd xr = None then {} else {fst (fst xr)}. accounts (note_result seen_merge xr out) i)"
        using note_result_accounts [of "fst xr" "is" out "snd xr"] by simp
    qed
    note rp = rep [OF absent_subset [of xs "fst ?b"], of "((?m, created), snd ?b)"]
    then have e: "extends is ?m (outcome_of ?t)" by simp
    have m: "accounts (outcome_of ?t) (fst x)" if "(x, r) \<in> set (zip xs (fst ?b))" "r \<noteq> None" for x r
      using bspec [OF conjunct2 [OF mrg] that(1)] that(2) extends_accounts [OF e, of "fst x"] by simp
    have n: "accounts (outcome_of ?t) (fst x)" if "x \<in> set (absent_docs xs (fst ?b))" for x
      using bspec [OF conjunct2 [OF rp] that] by simp
    have "extends is out (outcome_of ?t)" by (rule extends_trans [OF conjunct1 [OF mrg] e])
    moreover have "accounts (outcome_of ?t) (fst x)" if x: "x \<in> set xs" for x
    proof -
      obtain r where r: "(x, r) \<in> set (zip xs (fst ?b))" using x batch_mutate_length [of N a "merge_closure (nd_now N)" xs w]
        by (metis in_set_impl_in_set_zip1)
      then have "r = None \<Longrightarrow> x \<in> set (absent_docs xs (fst ?b))" by (force simp: absent_docs_def)
      then show ?thesis using m [OF r] n by blast
    qed
    ultimately show ?thesis using True by (simp add: upsert_round_def s split_beta)
  qed
qed

lemma update_round_accounts:
  assumes "fst ` set xs \<subseteq> is"
  shows "extends is (outcome_of s) (outcome_of (update_round N a b xs s)) \<and> (\<forall>i\<in>fst ` set xs. accounts (outcome_of (update_round N a b xs s)) i)"
proof -
  obtain out created w where s: "s = ((out, created), w)" by (metis surj_pair)
  let ?f = "(if b then append_missing else merge_closure) (nd_now N)"
  let ?b = "batch_mutate N a ?f xs w"
  let ?m = "fold (\<lambda>(x, r). seen_update x r) (zip xs (fst ?b)) out"
  have "extends is out ?m \<and> (\<forall>xr\<in>set (zip xs (fst ?b)). \<forall>i\<in>{fst (fst xr)}. accounts ?m i)"
  proof (rule fold_accounts [where P = "\<lambda>out. out"])
    fix xr out assume "xr \<in> set (zip xs (fst ?b))"
    then have "fst xr \<in> set xs" using set_zip_leftD [of "fst xr" "snd xr"] by simp
    then have "fst (fst xr) \<in> is" using assms by blast
    then show "extends is out ((\<lambda>(x, r). seen_update x r) xr out) \<and> (\<forall>i\<in>{fst (fst xr)}. accounts ((\<lambda>(x, r). seen_update x r) xr out) i)"
      using seen_update_accounts [of "fst xr" "is" out "snd xr"] by (simp add: split_beta)
  qed
  moreover have "\<exists>r. (x, r) \<in> set (zip xs (fst ?b))" if "x \<in> set xs" for x
    using that batch_mutate_length [of N a ?f xs w] by (metis in_set_impl_in_set_zip1)
  ultimately show ?thesis by (fastforce simp: update_round_def s split_beta)
qed

lemma rounds_account:
  fixes f :: "batch_docs \<Rightarrow> batch_state \<times> world \<Rightarrow> batch_state \<times> world"
  assumes "\<And>r s. fst ` set r \<subseteq> fst ` set xs \<Longrightarrow>
    extends (fst ` set xs) (outcome_of s) (outcome_of (f r s)) \<and> (\<forall>i\<in>fst ` set r. accounts (outcome_of (f r s)) i)"
  shows "extends (fst ` set xs) (outcome_of s) (outcome_of (fold f (rounds_of xs) s))
    \<and> (\<forall>x\<in>set xs. accounts (outcome_of (fold f (rounds_of xs) s)) (fst x))"
proof -
  have "set r \<subseteq> set xs" if "r \<in> set (rounds_of xs)" for r
  proof -
    have "set r \<subseteq> set (concat (rounds_of xs))" using that by (simp add: UN_upper)
    then show ?thesis by (simp only: set_rounds)
  qed
  then have "extends (fst ` set xs) (outcome_of s) (outcome_of (fold f (rounds_of xs) s))
      \<and> (\<forall>r\<in>set (rounds_of xs). \<forall>i\<in>fst ` set r. accounts (outcome_of (fold f (rounds_of xs) s)) i)"
    by (intro fold_accounts assms image_mono) blast
  moreover have "\<exists>r\<in>set (rounds_of xs). x \<in> set r" if "x \<in> set xs" for x
  proof -
    have "x \<in> set (concat (rounds_of xs))" using that by (simp only: set_rounds)
    then show ?thesis by auto
  qed
  ultimately show ?thesis by (meson imageI)
qed

lemma local_arm_accounts:
  assumes "out = outcome_of (local_arm N a m ps w)"
  shows "extends (fst ` set (good_docs ps)) \<lparr>bo_success = [], bo_errors = bad_docs ps\<rparr> out \<and> (\<forall>x\<in>set (good_docs ps). accounts out (fst x))"
proof -
  let ?xs = "good_docs ps"
  let ?s = "((\<lparr>bo_success = [], bo_errors = bad_docs ps\<rparr>, []), w) :: batch_state \<times> world"
  show ?thesis
  proof (cases m)
    case BCreate
    have "extends (fst ` set ?xs) (outcome_of ?s) (outcome_of (fold (create_one N a) ?xs ?s))
        \<and> (\<forall>x\<in>set ?xs. \<forall>i\<in>{fst x}. accounts (outcome_of (fold (create_one N a) ?xs ?s)) i)"
      by (rule fold_accounts) (auto intro!: create_one_accounts)
    then show ?thesis using BCreate by (simp add: assms local_arm_def Let_def)
  next
    case BUpsert
    then show ?thesis using rounds_account [of ?xs "upsert_round N a (has_option (ca_params a) ''update'')" ?s, OF upsert_round_accounts] by (simp add: assms local_arm_def Let_def)
  next
    case BUpdate
    then show ?thesis using rounds_account [of ?xs "update_round N a (has_option (ca_params a) ''noOverwrite'')" ?s, OF update_round_accounts] by (simp add: assms local_arm_def Let_def)
  next
    case BMerge
    then show ?thesis using rounds_account [of ?xs "update_round N a False" ?s, OF update_round_accounts] by (simp add: assms local_arm_def Let_def)
  qed
qed

subsection \<open>The whole operation\<close>

text \<open>The registrations a batch is carried out with, if it is carried out.\<close>

definition batch_regs :: "'g broker_node \<Rightarrow> call_info \<Rightarrow> batch_mode \<Rightarrow> batch_item list \<Rightarrow> fed_reg list option" where
  "batch_regs N a m items = (if nd_gate N (clause_of m) JNull
     then write_plan N (a\<lparr>ca_ctx := e_core (nd_env N)\<rparr>) (fst (batch_spec items)) else None)"

definition prepared_items :: "'g broker_node \<Rightarrow> batch_mode \<Rightarrow> fed_reg list \<Rightarrow> batch_item list \<Rightarrow> prepared list" where
  "prepared_items N m regs items = map (prepare N m (filter is_proxy regs)) items"

lemma batch_write_at:
  "entity_at a (snd (batch_write N a m items w)) i = (case batch_regs N a m items of
     None \<Rightarrow> entity_at a w i
   | Some regs \<Rightarrow> fold (\<lambda>x. item_edit N a m (snd x)) (of_id i (good_docs (prepared_items N m regs items))) (entity_at a w i))"
  using local_arm_at [where N = N and a = a and m = m and w = w and i = i]
  by (simp add: batch_write_def batch_regs_def prepared_items_def split_beta loop_508_def split: option.split)

lemma merge_remote_extends:
  "extends (is \<union> fst ` set (fst rem)) (fst s) (fst (merge_remote rem s))"
proof -
  obtain ok err where r: "rem = (ok, err)" by (cases rem)
  let ?f = "\<lambda>x (s :: batch_state). (add_success (fst x) (fst s), if snd x then snd s @ [fst x] else snd s)"
  have "extends (is \<union> fst ` set ok) (fst s) (fst (fold ?f xs s))" if "set xs \<subseteq> set ok" for xs :: "(string \<times> bool) list" and s
    using that
  proof (induction xs arbitrary: s)
    case (Cons x xs)
    have "extends (is \<union> fst ` set ok) (fst s) (fst (?f x s))" using Cons.prems added(2) [of "fst x" "is \<union> fst ` set ok" "fst s"] by auto
    moreover have "extends (is \<union> fst ` set ok) (fst (?f x s)) (fst (fold ?f xs (?f x s)))" by (rule Cons.IH) (use Cons.prems in simp)
    ultimately show ?case using extends_trans by (metis (no_types, lifting) fold_simps(2))
  qed (simp add: extends_refl)
  from this [of ok s] have e: "extends (is \<union> fst ` set ok) (fst s) (fst (fold ?f ok s))" by simp
  have "(\<lambda>(i, was_created) (out, created). (add_success i out, if was_created then created @ [i] else created)) = ?f"
    by (rule ext)+ (simp add: split_beta)
  then have "fst (merge_remote rem s) = (fst (fold ?f ok s))\<lparr>bo_errors := bo_errors (fst (fold ?f ok s)) @ err\<rparr>"
    by (simp add: merge_remote_def r split_beta)
  then show ?thesis using e by (auto simp: extends_def r)
qed

lemma forward_batch_extends:
  "\<exists>is. extends is (fst (fst s)) (fst (fst (forward_batch N a m update no_over regs fs s)))"
proof (cases s)
  case (Pair b e)
  obtain rem e' where "fold (forward_reg N a m (\<not> update) no_over fs) regs (([], []), e) = (rem, e')" by (rule prod.exhaust)
  then show ?thesis using merge_remote_extends [of _ rem b] by (auto simp: Pair forward_batch_def)
qed

text \<open>The answer is made of an outcome that accounts for every item: those refused, and those that reached the store.\<close>

lemma batch_write_accounts:
  assumes "batch_regs N a m items = Some regs"
  shows "\<exists>out created. fst (batch_write N a m items w) = batch_reply m (out, created)
    \<and> set (bad_docs (prepared_items N m regs items)) \<subseteq> set (bo_errors out)
    \<and> (\<forall>i\<in>fst ` set (good_docs (prepared_items N m regs items)). accounts out i)"
proof -
  let ?ps = "prepared_items N m regs items"
  obtain b w' where b: "local_arm N a m ?ps w = (b, w')" by (rule prod.exhaust)
  obtain out0 c0 where b0: "b = (out0, c0)" by (rule prod.exhaust)
  have l: "set (bad_docs ?ps) \<subseteq> set (bo_errors out0)" "\<forall>i\<in>fst ` set (good_docs ?ps). accounts out0 i"
    using local_arm_accounts [of out0 N a m ?ps w] by (auto simp: b b0 extends_def)
  obtain out created where r: "fst (batch_write N a m items w) = batch_reply m (out, created)" 
      "out = out0 \<or> (\<exists>up no fs. out = fst (fst (forward_batch N a m up no regs fs (b, w_egress w'))))"
  proof (cases "regs = []")
    case True
    have "fst (batch_write N a m items w) = batch_reply m (out0, c0)"
      using assms b b0 by (simp add: True batch_write_def batch_regs_def prepared_items_def split_beta split: if_splits)
    then show ?thesis using that by blast
  next
    case False
    have "\<exists>up no fs. fst (batch_write N a m items w) = batch_reply m (fst (forward_batch N a m up no regs fs (b, w_egress w')))"
      using assms b False by (auto simp: batch_write_def batch_regs_def prepared_items_def split_beta split: if_splits)
    then show ?thesis using that by (metis prod.collapse)
  qed
  have "\<exists>ids. extends ids out0 out" using r(2)
  proof (elim disjE exE)
    fix up no fs assume "out = fst (fst (forward_batch N a m up no regs fs (b, w_egress w')))"
    then show ?thesis using forward_batch_extends [of "(b, w_egress w')" N a m up no regs fs] by (simp add: b0)
  qed (auto intro: extends_refl)
  then obtain ids where e: "extends ids out0 out" by blast
  have "set (bad_docs ?ps) \<subseteq> set (bo_errors out)" using l(1) e by (auto simp: extends_def)
  moreover have "\<forall>i\<in>fst ` set (good_docs ?ps). accounts out i" using l(2) extends_accounts [OF e] by blast
  ultimately show ?thesis using r(1) by blast
qed

subsection \<open>What goes wrong\<close>

text \<open>An item without attributes has no part of its own as soon as any proxy registration matches the batch.\<close>

lemma attributeless_item_is_dropped:
  assumes "proxies \<noteq> []" "\<forall>e\<in>set obj. fst e = ''@context'' \<or> frame_member (fst e)"
  shows "prepare N m proxies (JObj obj, Ok c) = PSkip"
proof -
  have "\<not> snd (strip_proxied (nd_build N) c proxies obj)" using assms(2) by (auto simp: strip_has_attrs)
  then show ?thesis using assms(1) by (cases "strip_proxied (nd_build N) c proxies obj") (simp add: prepare_def local_item_def)
qed

text \<open>With \<open>noOverwrite\<close> the expiry of the entity is overwritten by an empty list.\<close>

lemma no_overwrite_loses_expiry:
  assumes "bm_get t ''expiresAt'' = Some (JStr old)"
  shows "fst (missing_attr (''expiresAt'', JStr new) (t, b)) = bm_insert ''expiresAt'' (JArr []) t"
  using assms by (simp add: missing_attr_def is_fragment_meta_def array_or_empty_def)

text \<open>An instance added with \<open>noOverwrite\<close> keeps the form it was sent in, without the stamps of a write.\<close>

lemma no_overwrite_does_not_stamp:
  assumes "bm_get t k = None" "\<not> is_fragment_meta k"
  shows "fst (missing_attr (k, JArr xs) (t, b)) = bm_insert k (JArr xs) t"
  using assms by (simp add: missing_attr_def array_or_empty_def)

end
