(* ===== verification/SamplesWrites.thy ===== *)
theory SamplesWrites
  imports SamplesFed BatchSpec
begin

text \<open>A broker with one redirect registration, and one that serves requests alone, for the witnesses about writes.\<close>

definition sample_node :: "json broker_node" where
  "sample_node = \<lparr>nd_fed = sample_fed, nd_codec = sample_codec, nd_mirror = sample_peers, nd_gate = (\<lambda>_ _. True)\<rparr>"

definition local_call :: call_info where
  "local_call = \<lparr>ca_tenant = ''city'', ca_headers = [], ca_params = [(''local'', ''true'')], ca_ctx = empty_ctx, ca_url = []\<rparr>"

definition empty_world :: world where
  "empty_world = \<lparr>w_store = new_store, w_egress = new_egress\<rparr>"

definition new_car :: jobj where
  "new_car = [(''id'', JStr ''urn:car''), (''type'', JStr ''x:C''), (''x:s'', jint 5)]"

definition proxy_reg :: fed_reg where
  "proxy_reg = peer_compiled\<lparr>fr_mode := ''redirect'', fr_ops := [''redirectionOps'']\<rparr>"

lemma node_simps:
  "nd_fed sample_node = sample_fed" "nd_codec sample_node = sample_codec" "fe_env sample_fed = peer_env"
  "e_lib peer_env = peer_lib" "base peer_lib = sample_ext" "now_iso (e_clock peer_env) = ''2026-01-01T00:00:00Z''"
  "e_builder peer_env = sample_builder" "nd_gate sample_node q b = True"
  by (simp_all add: sample_node_def sample_fed_def peer_env_def peer_lib_def)

lemma call_simps:
  "ca_tenant local_call = ''city''" "ca_headers local_call = []" "ca_params local_call = [(''local'', ''true'')]"
  "ca_ctx local_call = empty_ctx" "ca_url local_call = []"
  by (simp_all add: local_call_def)

definition expanded_car :: jobj where
  "expanded_car = [(''id'', JStr ''urn:car''), (''type'', JArr [JStr ''x:C'']), (''x:s'', JArr [inst_obj ''Property'' (jint 5)])]"

lemma car_expanded: "expand_entity peer_lib empty_ctx default_opts new_car = Ok (JObj expanded_car)"
  by code_simp

lemma car_stamped: "\<exists>m. stamp_new ts (JObj expanded_car) = JObj m"
  by (simp add: stamp_new_def)

lemma alone: "write_plan sample_node local_call spec = Some []"
  by (simp add: write_plan_def write_regs_def fed_active_def call_simps bm_get_def handle_via_loop_def no_via)

lemma car_created:
  "get ''city'' Entity ''urn:car'' (w_store (world_step (Served sample_node local_call (CreateEntity new_car)) empty_world))
     = Some (stamp_new ''2026-01-01T00:00:00Z'' (JObj expanded_car))"
proof -
  have i: "expanded_id (JObj expanded_car) = Ok ''urn:car''" by code_simp
  have f: "doc_at (st_inner new_store) Entity ''city'' ''urn:car'' = None" by code_simp
  show ?thesis
    by (simp add: world_step_def serve_def create_entity_def node_simps call_simps car_expanded i alone Let_def
        store_entity_def create_def empty_world_def f get_def doc_at_put)
qed

subsection \<open>A create that a redirect registration takes\<close>

lemma proxy_facts: "is_proxy proxy_reg" "supports proxy_reg ''createEntity''" "covers_attr proxy_reg k" "fr_cooldown proxy_reg = None"
    "fr_attrs proxy_reg = None"
  by (code_simp, code_simp, simp_all add: proxy_reg_def peer_compiled_def covers_attr_def)

lemma car_covered: "covers_item sample_builder empty_ctx proxy_reg new_car"
  by code_simp

lemma car_reduced: "reduce_to_scope sample_builder empty_ctx proxy_reg new_car = Some (JObj new_car)"
  by (simp add: reduce_to_scope_def car_covered proxy_facts) (simp add: new_car_def bm_remove_def)

lemma proxy_accepts: "part_ok (fst (forward_part sample_node local_call proxy_reg mth url query (Some body) new_egress))"
proof -
  have "fe_allowed sample_fed u" "fe_send sample_fed q = Responded 200 (JArr [sample_peer_entity]) []" "fe_now sample_fed = 0" for u q
    by (simp_all add: sample_fed_def)
  then show ?thesis
    by (simp add: forward_part_def node_simps call_simps forward_def Let_def new_closed settle_def note_forward_def proxy_facts part_ok_def split_beta)
qed

lemma car_taken: "\<exists>w. create_distributed sample_node local_call ''urn:car'' new_car [proxy_reg] empty_world = (Done 201, w)"
proof -
  have "\<not> snd (strip_proxied sample_builder empty_ctx [proxy_reg] new_car)"
    by (auto simp: strip_has_attrs proxied_def car_covered proxy_facts)
  then show ?thesis
    using proxy_accepts [of "''POST''" "entities_url proxy_reg" "[]" "JObj new_car"]
    by (cases "strip_proxied sample_builder empty_ctx [proxy_reg] new_car")
       (simp add: create_distributed_def Let_def node_simps call_simps proxy_facts send_created_def send_reduced_def car_reduced
        combine_def map_prod_def split_beta empty_world_def)
qed

subsection \<open>A patch\<close>

definition patch_doc :: jobj where
  "patch_doc = [(''x:s'', JArr [JObj [(''value'', jint 2)]])]"

definition patched_doc :: jobj where
  "patched_doc = [(''x:s'', JArr [JObj [(''value'', jint 1)]])]"

lemma patch_attr: "\<not> is_meta ''x:s''"
  by (simp add: is_meta_def ENTITY_META_KEYS_def)

lemma patched_doc_ok: "entity_inv patched_doc"
  by (simp add: entity_inv_def patched_doc_def bm_ok_def bm_get_def attr_list_def one_each_def)

lemma patch_doc_ok: "fragment_inv patch_doc"
  by (simp add: fragment_inv_def patch_doc_def bm_ok_def bm_get_def attr_list_def one_each_def sound_ds_def array_or_empty_def inst_str_def)

lemma patch_docs_instances:
  "in_dataset None (insts_of (JObj patch_doc) ''x:s'') = Some (JObj [(''value'', jint 2)])"
  "in_dataset None (insts_of (JObj patched_doc) ''x:s'') = Some (JObj [(''value'', jint 1)])"
  "\<not> is_deletion_instance (JObj [(''value'', jint 2)])"
  by (simp_all add: patch_doc_def patched_doc_def insts_of_def array_or_empty_def in_dataset_def inst_str_def bm_get_def)
    (code_simp)

definition value_target :: jobj where
  "value_target = [(''a'', JObj [(''b'', jint 1)])]"

definition value_patch :: jobj where
  "value_patch = [(''a'', JObj [(''b'', JObj [(''c'', jint 2)])])]"

lemma value_patch_fits: "fits value_target value_patch"
  by (simp add: fits.simps value_target_def value_patch_def bm_ok_def bm_get_def removal_def is_ngsi_null_def)

subsection \<open>A batch\<close>

lemma batch_alone: "batch_regs sample_node local_call BCreate items = Some []"
  by (simp add: batch_regs_def node_simps write_plan_def write_regs_def fed_active_def call_simps bm_get_def handle_via_loop_def no_via)

lemma null_item_bad: "\<exists>e. bad_docs [prepare sample_node BCreate [] (JNull, Ok empty_ctx)] = [e]"
  by (simp add: prepare_def local_item_def bad_docs_def map_filter_simps Let_def)

end
