(* ===== verification/History.thy ===== *)
theory History
  imports Batch
begin

text \<open>
  The history of entities (\<open>antares-api/src/history.rs\<close>, \<open>notify.rs\<close>, the temporal driver of \<open>antares-store\<close> and of the
  in-memory store): every change of an entity becomes events, one for each new or changed attribute instance; a request
  drains its events at its end into the temporal documents.  The identifiers the code draws at random are an argument
  (\<open>hi_fresh\<close>: the one drawn for the n-th instance of an attribute), the identifiers derived from a text too.
\<close>

datatype temporal_record = RecAll | RecObserved | RecNone

record history =
  hi_mode :: temporal_record
  hi_supported :: bool
  hi_temporal_only :: bool
  hi_uuid5 :: "string \<Rightarrow> string"
  hi_fresh :: "string \<Rightarrow> nat \<Rightarrow> string"

datatype temporal_op = AttrCreated | AttrModified | ScopeChanged

record temporal_event =
  te_op :: temporal_op
  te_tenant :: string
  te_entity :: string
  te_shell :: json
  te_attr :: string
  te_instance :: json

subsection \<open>The events of a change\<close>

definition inst_urn :: "string \<Rightarrow> string" where
  "inst_urn u = ''urn:ngsi-ld:Instance:'' @ u"

definition newline :: string where "newline = [CHR 0x0A]"

text \<open>An observed instance is identified by its entity, attribute, dataset and instant, whatever the spelling of the instant.\<close>

definition instance_key :: "string \<Rightarrow> string \<Rightarrow> json \<Rightarrow> string option" where
  "instance_key entity att inst = map_option (\<lambda>at_time.
     entity @ newline @ att @ newline @ (case inst_str inst ''datasetId'' of Some d \<Rightarrow> d | None \<Rightarrow> ''@none'') @ newline @ dt_key at_time)
     (inst_str inst ''observedAt'')"

definition instance_id :: "history \<Rightarrow> string \<Rightarrow> string \<Rightarrow> nat \<Rightarrow> json \<Rightarrow> string" where
  "instance_id H entity att n inst = inst_urn (case instance_key entity att inst of
     Some key \<Rightarrow> hi_uuid5 H key | None \<Rightarrow> hi_fresh H att n)"

definition with_instance_id :: "history \<Rightarrow> string \<Rightarrow> string \<Rightarrow> nat \<Rightarrow> json \<Rightarrow> json" where
  "with_instance_id H entity att n inst = (case inst of
     JObj m \<Rightarrow> if bm_get m ''instanceId'' = None then JObj (bm_insert ''instanceId'' (JStr (instance_id H entity att n inst)) m) else inst
   | _ \<Rightarrow> inst)"

definition shell_of :: "json \<Rightarrow> json" where
  "shell_of doc = JObj (fold (\<lambda>k m. case jget doc k of Some v \<Rightarrow> bm_insert k v m | None \<Rightarrow> m)
     [''id'', ''type'', ''createdAt'', ''modifiedAt'', ''scope''] [])"

definition scope_instance :: "history \<Rightarrow> string \<Rightarrow> json \<Rightarrow> json \<Rightarrow> json" where
  "scope_instance H now after sc = (let ts = (case inst_str after ''modifiedAt'' of Some t \<Rightarrow> t | None \<Rightarrow> now) in
     mkobj [(''type'', JStr ''Property''), (''value'', sc), (''instanceId'', JStr (inst_urn (hi_fresh H ''scope'' 0))),
       (''createdAt'', JStr ts), (''modifiedAt'', JStr ts), (''observedAt'', JStr ts)])"

definition entity_event :: "temporal_op \<Rightarrow> string \<Rightarrow> string \<Rightarrow> json \<Rightarrow> string \<Rightarrow> json \<Rightarrow> temporal_event" where
  "entity_event oper tenant i after k inst = \<lparr>te_op = oper, te_tenant = tenant, te_entity = i, te_shell = shell_of after, te_attr = k, te_instance = inst\<rparr>"

definition attr_events :: "history \<Rightarrow> string \<Rightarrow> string \<Rightarrow> json option \<Rightarrow> json \<Rightarrow> string \<times> change_class \<Rightarrow> temporal_event list" where
  "attr_events H tenant i before after e = (case e of (k, cls) \<Rightarrow>
     if cls = Deleted then []
     else (case jget after k of None \<Rightarrow> []
       | Some av \<Rightarrow> map (\<lambda>(n, inst). entity_event (if cls = Created then AttrCreated else AttrModified) tenant i after k (with_instance_id H i k n inst))
           (List.enumerate 0 (changed_instances (Option.bind before (\<lambda>b. jget b k)) av))))"

definition scope_events :: "history \<Rightarrow> string \<Rightarrow> string \<Rightarrow> string \<Rightarrow> json option \<Rightarrow> json \<Rightarrow> temporal_event list" where
  "scope_events H now tenant i before after = (case (before, jget after ''scope'') of
     (Some b, Some sc) \<Rightarrow> if jget b ''scope'' \<noteq> Some sc then [entity_event ScopeChanged tenant i after ''scope'' (scope_instance H now after sc)] else []
   | _ \<Rightarrow> [])"

definition change_events :: "history \<Rightarrow> string \<Rightarrow> string \<Rightarrow> json option \<Rightarrow> json option \<Rightarrow> temporal_event list" where
  "change_events H now tenant before after = (case Option.bind after (\<lambda>a. map_option (Pair a) (inst_str a ''id'')) of
     None \<Rightarrow> []
   | Some (a, i) \<Rightarrow> if \<not> hi_supported H then []
       else scope_events H now tenant i before a @ concat (map (attr_events H tenant i before a) (diff before after)))"

subsection \<open>The temporal documents\<close>

primrec position_of :: "('a \<Rightarrow> bool) \<Rightarrow> 'a list \<Rightarrow> nat option" where
  "position_of P [] = None"
| "position_of P (x # xs) = (if P x then Some 0 else map_option Suc (position_of P xs))"

text \<open>The same instance id means the same instance, corrected.\<close>

definition append_by_id :: "json \<Rightarrow> json list \<Rightarrow> json list" where
  "append_by_id inst cur = (case position_of (\<lambda>c. jget c ''instanceId'' = jget inst ''instanceId'') cur of
     Some p \<Rightarrow> cur[p := inst] | None \<Rightarrow> cur @ [inst])"

definition append_attr_history :: "string \<times> json \<Rightarrow> jobj \<Rightarrow> jobj" where
  "append_attr_history e t = (case e of (k, v) \<Rightarrow> bm_insert k (JArr (case Option.bind (bm_get t k) as_array of
     Some cur \<Rightarrow> fold append_by_id (array_or_empty (Some v)) cur | None \<Rightarrow> array_or_empty (Some v))) t)"

definition append_doc :: "jobj \<Rightarrow> json \<Rightarrow> (unit, unit \<times> json) result" where
  "append_doc grown doc = (case doc of JObj t \<Rightarrow> Ok ((), JObj (fold append_attr_history grown t)) | _ \<Rightarrow> Err ())"

definition temporal_append :: "'g broker_node \<Rightarrow> history \<Rightarrow> string \<Rightarrow> string \<Rightarrow> json \<Rightarrow> jobj \<Rightarrow> store \<Rightarrow> store" where
  "temporal_append N H t i shell grown st =
     (if \<not> hi_temporal_only H \<and> get t Entity i st = None then st
      else (let st = (if get t Temporal i st = None then snd (create (nd_ext N) (nd_codec N) (nd_now N) t Temporal i shell st) else st)
            in snd (mutate (nd_ext N) (nd_codec N) (nd_now N) t Temporal i (append_doc grown) st)))"

text \<open>A scope that is a list of instances gets one grown, any other is replaced.\<close>

definition add_scope :: "json \<Rightarrow> jobj \<Rightarrow> jobj" where
  "add_scope inst t = (case Option.bind (bm_get t ''scope'') as_array of
     Some (JObj x # xs) \<Rightarrow> bm_insert ''scope'' (JArr (JObj x # xs @ [inst])) t
   | _ \<Rightarrow> bm_insert ''scope'' (JArr [inst]) t)"

definition scope_doc :: "json \<Rightarrow> json \<Rightarrow> (unit, unit \<times> json) result" where
  "scope_doc inst doc = (case doc of JObj t \<Rightarrow> Ok ((), JObj (add_scope inst t)) | _ \<Rightarrow> Err ())"

definition event_step :: "'g broker_node \<Rightarrow> temporal_event \<Rightarrow> jobj \<times> store \<Rightarrow> jobj \<times> store" where
  "event_step N ev s = (case s of (grown, st) \<Rightarrow>
     if te_op ev = ScopeChanged then
       (grown, snd (mutate (nd_ext N) (nd_codec N) (nd_now N) (te_tenant ev) Temporal (te_entity ev) (scope_doc (te_instance ev)) st))
     else (bm_insert (te_attr ev) (JArr (array_or_empty (bm_get grown (te_attr ev)) @ [te_instance ev])) grown, st))"

definition same_entity :: "temporal_event \<Rightarrow> temporal_event \<Rightarrow> bool" where
  "same_entity e f \<longleftrightarrow> te_tenant f = te_tenant e \<and> te_entity f = te_entity e"

definition event_run :: "'g broker_node \<Rightarrow> history \<Rightarrow> temporal_event list \<Rightarrow> store \<Rightarrow> store" where
  "event_run N H run st = (case fold (event_step N) run ([], st) of
     (grown, st) \<Rightarrow> if grown = [] then st
       else temporal_append N H (te_tenant (last run)) (te_entity (last run)) (te_shell (last run)) grown st)"

function event_list :: "'g broker_node \<Rightarrow> history \<Rightarrow> temporal_event list \<Rightarrow> store \<Rightarrow> store" where
  "event_list N H [] st = st"
| "event_list N H (ev # evs) st = event_list N H (dropWhile (same_entity ev) evs) (event_run N H (ev # takeWhile (same_entity ev) evs) st)"
  by pat_completeness auto
termination
  by (relation "measure (\<lambda>(N, H, evs, st). length evs)") (auto simp: le_imp_less_Suc length_dropWhile_le)

definition admitted :: "history \<Rightarrow> temporal_event \<Rightarrow> bool" where
  "admitted H ev \<longleftrightarrow> (case hi_mode H of RecAll \<Rightarrow> True | RecObserved \<Rightarrow> jget (te_instance ev) ''observedAt'' \<noteq> None | RecNone \<Rightarrow> False)"

definition drain :: "'g broker_node \<Rightarrow> history \<Rightarrow> temporal_event list \<Rightarrow> store \<Rightarrow> store" where
  "drain N H evs st = (let evs = filter (admitted H) evs in if evs = [] then st else event_list N H evs st)"

subsection \<open>Deletions\<close>

definition mirror_delete_entity :: "'g broker_node \<Rightarrow> history \<Rightarrow> string \<Rightarrow> string \<Rightarrow> store \<Rightarrow> store" where
  "mirror_delete_entity N H t i st =
     (if \<not> hi_supported H then st else snd (delete (nd_ext N) (nd_codec N) (nd_now N) t Temporal i st))"

definition deletion_member :: "string \<Rightarrow> string \<times> json" where
  "deletion_member ty = (let null = JStr NGSI_NULL in
     if ty = ''Relationship'' then (''object'', null)
     else if ty = ''LanguageProperty'' then (''languageMap'', mkobj [(''@none'', null)])
     else if ty = ''JsonProperty'' then (''json'', null)
     else if ty = ''VocabProperty'' then (''vocab'', null)
     else if ty = ''ListProperty'' then (''valueList'', null)
     else if ty = ''ListRelationship'' then (''objectList'', null)
     else (''value'', null))"

definition deletion_mark :: "history \<Rightarrow> string \<Rightarrow> string \<Rightarrow> string option \<Rightarrow> string \<Rightarrow> json" where
  "deletion_mark H att ty ds ts = mkobj ([(''type'', JStr ty), deletion_member ty]
     @ (case ds of Some d \<Rightarrow> [(''datasetId'', JStr d)] | None \<Rightarrow> [])
     @ [(''instanceId'', JStr (inst_urn (hi_fresh H att 0))), (''deletedAt'', JStr ts)])"

definition scope_mark :: "history \<Rightarrow> string \<Rightarrow> json" where
  "scope_mark H ts = mkobj [(''type'', JStr ''Property''), (''value'', JArr []), (''instanceId'', JStr (inst_urn (hi_fresh H ''scope'' 0))), (''deletedAt'', JStr ts)]"

definition mark_deleted :: "history \<Rightarrow> string \<Rightarrow> string option \<Rightarrow> string \<Rightarrow> json \<Rightarrow> (unit, bool \<times> json) result" where
  "mark_deleted H att ds ts doc = (case doc of
     JObj t \<Rightarrow> if att = ''scope'' then Ok (True, JObj (add_scope (scope_mark H ts) t))
       else (case Option.bind (bm_get t att) as_array of
           None \<Rightarrow> Ok (False, doc)
         | Some [] \<Rightarrow> Ok (False, doc)
         | Some (x # xs) \<Rightarrow> Ok (True, JObj (bm_insert att (JArr (x # xs @
             [deletion_mark H att (case inst_str x ''type'' of Some ty \<Rightarrow> ty | None \<Rightarrow> ''Property'') ds ts])) t)))
   | _ \<Rightarrow> Ok (False, doc))"

definition mirror_delete_attr :: "'g broker_node \<Rightarrow> history \<Rightarrow> string \<Rightarrow> string \<Rightarrow> string \<Rightarrow> string option \<Rightarrow> store \<Rightarrow> bool \<times> store" where
  "mirror_delete_attr N H t i att ds st =
     (case mutate (nd_ext N) (nd_codec N) (nd_now N) t Temporal i (mark_deleted H att ds (nd_now N)) st of
       (r, st) \<Rightarrow> (r = Some (Ok True), st))"

subsection \<open>Recording\<close>

text \<open>What a request changed, from the log of the change hook.\<close>

definition changes_between :: "store \<Rightarrow> store \<Rightarrow> (string \<times> json option \<times> json option) list" where
  "changes_between st st' = drop (length (st_emitted st)) (st_emitted st')"

definition record_changes :: "'g broker_node \<Rightarrow> history \<Rightarrow> store \<Rightarrow> store \<Rightarrow> store" where
  "record_changes N H st st' = drain N H (concat (map (\<lambda>(t, b, a). change_events H (nd_now N) t b a) (changes_between st st'))) st'"

end
