(* ===== verification/Temporal.thy ===== *)
theory Temporal
  imports History
begin

text \<open>
  The temporal write operations (\<open>antares-api/src/temporal.rs\<close>): upsert of a temporal evolution, adding attribute
  instances, changing and deleting an instance, an attribute or the evolution, with their forwards; and the merge of the
  evolutions other brokers hold.  Between reading whether an evolution exists and writing it an upsert may be overtaken
  by other requests: \<open>gap n\<close> is what they do to the store during the n-th attempt.
\<close>

definition temporal_opts :: "bool \<Rightarrow> bool \<Rightarrow> expand_opts" where
  "temporal_opts fragment allow_null = default_opts\<lparr>opt_fragment := fragment, opt_allow_null := allow_null, opt_temporal := True\<rparr>"

subsection \<open>Instances\<close>

definition stamp_instance :: "history \<Rightarrow> string \<Rightarrow> string \<Rightarrow> nat \<Rightarrow> json \<Rightarrow> json" where
  "stamp_instance H ts k n inst = (case inst of
     JObj m \<Rightarrow> JObj (bm_insert ''modifiedAt'' (JStr ts) (bm_insert ''createdAt'' (JStr ts)
       (if bm_get m ''instanceId'' = None then bm_insert ''instanceId'' (JStr (inst_urn (hi_fresh H k n))) m else m)))
   | _ \<Rightarrow> inst)"

definition stamp_list :: "history \<Rightarrow> string \<Rightarrow> string \<Rightarrow> json \<Rightarrow> json" where
  "stamp_list H ts k v = (case v of
     JArr xs \<Rightarrow> if is_meta k then v else JArr (map (\<lambda>(n, x). stamp_instance H ts k n x) (List.enumerate 0 xs)) | _ \<Rightarrow> v)"

definition stamp_temporal_instances :: "history \<Rightarrow> string \<Rightarrow> json \<Rightarrow> json" where
  "stamp_temporal_instances H ts doc = (case doc of JObj m \<Rightarrow> JObj (map (\<lambda>(k, v). (k, stamp_list H ts k v)) m) | _ \<Rightarrow> doc)"

type_synonym slot = "string option \<times> string option"

definition slot_of :: "json \<Rightarrow> slot" where
  "slot_of i = (inst_str i ''datasetId'', inst_str i ''observedAt'')"

text \<open>A correction keeps the identity and the creation time of the instance it corrects.\<close>

definition keep_member :: "json \<Rightarrow> string \<Rightarrow> json \<Rightarrow> json" where
  "keep_member had k ni = (case (jget had k, ni) of (Some v, JObj m) \<Rightarrow> JObj (bm_insert k v m) | _ \<Rightarrow> ni)"

definition corrected :: "json \<Rightarrow> json \<Rightarrow> json" where
  "corrected had ni = keep_member had ''createdAt'' (keep_member had ''instanceId'' ni)"

definition add_slot :: "json \<Rightarrow> json list \<Rightarrow> json list" where
  "add_slot ni cur = (case position_of (\<lambda>ci. slot_of ci = slot_of ni \<and> snd (slot_of ni) \<noteq> None) cur of
     Some p \<Rightarrow> cur[p := corrected (cur ! p) ni] | None \<Rightarrow> cur @ [ni])"

definition add_slots :: "string \<times> json \<Rightarrow> jobj \<Rightarrow> jobj" where
  "add_slots e t = (case e of (k, v) \<Rightarrow> if is_meta k then t
     else bm_insert k (JArr (case Option.bind (bm_get t k) as_array of
       Some cur \<Rightarrow> fold add_slot (array_or_empty (Some v)) cur | None \<Rightarrow> array_or_empty (Some v))) t)"

definition union_types :: "json \<Rightarrow> jobj \<Rightarrow> jobj" where
  "union_types expanded t = (case Option.bind (jget expanded ''type'') as_array of None \<Rightarrow> t
     | Some new \<Rightarrow> bm_insert ''type'' (JArr (fold (\<lambda>x cur. if x \<in> set cur then cur else cur @ [x]) new (array_or_empty (bm_get t ''type'')))) t)"

definition upsert_closure :: "string \<Rightarrow> json \<Rightarrow> json \<Rightarrow> (unit \<times> json) ngsi_result" where
  "upsert_closure ts expanded doc = (case (doc, expanded) of
     (JObj t, JObj m) \<Rightarrow> Ok ((), JObj (bm_insert ''modifiedAt'' (JStr ts) (fold add_slots m (union_types expanded t))))
   | (JObj t, _) \<Rightarrow> Err (InternalError ''expanded document is not a JSON object'')
   | _ \<Rightarrow> Err not_an_object)"

subsection \<open>Upsert\<close>

definition stamped_doc :: "string \<Rightarrow> json \<Rightarrow> json" where
  "stamped_doc ts doc = (case doc of JObj m \<Rightarrow> JObj (bm_insert ''modifiedAt'' (JStr ts) (bm_insert ''createdAt'' (JStr ts) m)) | _ \<Rightarrow> doc)"

primrec upsert_attempts :: "'g broker_node \<Rightarrow> string \<Rightarrow> string \<Rightarrow> json \<Rightarrow> (nat \<Rightarrow> store \<Rightarrow> store) \<Rightarrow> nat \<Rightarrow> store \<Rightarrow> nat ngsi_result \<times> store" where
  "upsert_attempts N t i d gap 0 st = (Err (InternalError ''upsert retry storm''), st)"
| "upsert_attempts N t i d gap (Suc n) st =
     (if get t Temporal i st \<noteq> None then
        (case mutate (nd_ext N) (nd_codec N) (nd_now N) t Temporal i (upsert_closure (nd_now N) d) (gap n st) of
           (Some (Err e), st) \<Rightarrow> (Err e, st)
         | (Some (Ok _), st) \<Rightarrow> (Ok 204, st)
         | (None, st) \<Rightarrow> upsert_attempts N t i d gap n st)
      else
        (case create (nd_ext N) (nd_codec N) (nd_now N) t Temporal i (stamped_doc (nd_now N) d) (gap n st) of
           (True, st) \<Rightarrow> (Ok 201, st) | (False, st) \<Rightarrow> upsert_attempts N t i d gap n st))"

definition UPSERT_ATTEMPTS :: nat where "UPSERT_ATTEMPTS = 16"

definition upsert_temporal_local :: "'g broker_node \<Rightarrow> history \<Rightarrow> string \<Rightarrow> string \<Rightarrow> json \<Rightarrow> (nat \<Rightarrow> store \<Rightarrow> store) \<Rightarrow> store \<Rightarrow> nat ngsi_result \<times> store" where
  "upsert_temporal_local N H t i expanded gap st =
     upsert_attempts N t i (stamp_temporal_instances H (nd_now N) expanded) gap UPSERT_ATTEMPTS st"

definition temporal_url :: "fed_reg \<Rightarrow> string" where
  "temporal_url r = fr_endpoint r @ ''/ngsi-ld/v1/temporal/entities''"

definition evolution_url :: "fed_reg \<Rightarrow> string \<Rightarrow> string \<Rightarrow> string" where
  "evolution_url r i suffix = temporal_url r @ ''/'' @ path_segment i @ suffix"

definition with_store :: "world \<Rightarrow> 'a \<times> store \<Rightarrow> 'a \<times> world" where
  "with_store w = map_prod id (\<lambda>st. w\<lparr>w_store := st\<rparr>)"

text \<open>A write of which every registration gets its part and the rest stays here.\<close>

definition spread_write :: "'g broker_node \<Rightarrow> call_info \<Rightarrow> string \<Rightarrow> (fed_reg \<Rightarrow> string) \<Rightarrow> jobj \<Rightarrow> fed_reg list
    \<Rightarrow> (jobj \<Rightarrow> world \<Rightarrow> write_part ngsi_result \<times> world) \<Rightarrow> reply \<Rightarrow> world \<Rightarrow> reply \<times> world" where
  "spread_write N a oper url obj regs here ok w =
     (let conflicts = map (\<lambda>r. conflict_part oper) (filter (\<lambda>r. \<not> supports r oper \<and> is_proxy r) regs);
          proxies = filter is_proxy regs
      in case strip_proxied (nd_build N) (ca_ctx a) proxies obj of (rest, has_attrs) \<Rightarrow>
        (case (if has_attrs \<or> proxies = [] then map_prod (map_sum id (\<lambda>p. [p])) id (here rest w) else (Ok [], w)) of
           (Err e, w) \<Rightarrow> (Refused e, w)
         | (Ok mine, w) \<Rightarrow>
             (case entity_parts oper (send_reduced N a ''POST'' url [] obj) (filter (\<lambda>r. supports r oper) regs) (w_egress w) of
               (there, e) \<Rightarrow> (combine (conflicts @ mine @ there) ok, w\<lparr>w_egress := e\<rparr>))))"

definition upsert_here :: "'g broker_node \<Rightarrow> history \<Rightarrow> call_info \<Rightarrow> string \<Rightarrow> (nat \<Rightarrow> store \<Rightarrow> store) \<Rightarrow> jobj \<Rightarrow> world \<Rightarrow> write_part ngsi_result \<times> world" where
  "upsert_here N H a i gap rest w = (case expand_entity (nd_lib N) (ca_ctx a) (temporal_opts False True) rest of
     Err e \<Rightarrow> (Err e, w)
   | Ok d \<Rightarrow> (case upsert_temporal_local N H (ca_tenant a) i d gap (w_store w) of
       (r, st) \<Rightarrow> (map_sum id (\<lambda>s. \<lparr>pt_status = s, pt_detail = ''local temporal upsert''\<rparr>) r, w\<lparr>w_store := st\<rparr>)))"

definition upsert_temporal :: "'g broker_node \<Rightarrow> history \<Rightarrow> call_info \<Rightarrow> jobj \<Rightarrow> (nat \<Rightarrow> store \<Rightarrow> store) \<Rightarrow> world \<Rightarrow> reply \<times> world" where
  "upsert_temporal N H a obj gap w =
     (case and_then (expand_entity (nd_lib N) (ca_ctx a) (temporal_opts False True) obj) (\<lambda>d. and_then (expanded_id d) (\<lambda>i. Ok (i, d))) of
        Err e \<Rightarrow> (Refused e, w)
      | Ok (i, d) \<Rightarrow>
        if \<not> nd_gate N ''5.6.11'' JNull then (Forbidden, w)
        else (case write_plan N a (default_spec\<lparr>cs_ids := Some [i]\<rparr>) of
          None \<Rightarrow> (loop_508, w)
        | Some regs \<Rightarrow>
            if regs \<noteq> [] then spread_write N a ''upsertTemporal'' temporal_url obj regs (upsert_here N H a i gap) (Done 201) w
            else (case upsert_temporal_local N H (ca_tenant a) i d gap (w_store w) of
              (r, st) \<Rightarrow> (case r of Err e \<Rightarrow> Refused e | Ok s \<Rightarrow> Done s, w\<lparr>w_store := st\<rparr>))))"

subsection \<open>Adding instances\<close>

definition add_attr_instances :: "string \<times> json \<Rightarrow> jobj \<Rightarrow> jobj" where
  "add_attr_instances e t = (case e of (k, v) \<Rightarrow> if is_meta k then t
     else bm_insert k (JArr ((case Option.bind (bm_get t k) as_array of Some cur \<Rightarrow> cur | None \<Rightarrow> []) @ array_or_empty (Some v))) t)"

definition add_temporal_instances :: "string \<Rightarrow> json \<Rightarrow> json \<Rightarrow> (unit \<times> json) ngsi_result" where
  "add_temporal_instances ts expanded doc = (case doc of
     JObj t \<Rightarrow> Ok ((), JObj (bm_insert ''modifiedAt'' (JStr ts) (fold add_attr_instances (case expanded of JObj m \<Rightarrow> m | _ \<Rightarrow> []) t)))
   | _ \<Rightarrow> Ok ((), doc))"

definition change_temporal :: "'g broker_node \<Rightarrow> call_info \<Rightarrow> string \<Rightarrow> (json \<Rightarrow> ('e, 'a \<times> json) result) \<Rightarrow> world \<Rightarrow> ('e, 'a) result option \<times> world" where
  "change_temporal N a i f w = with_store w (mutate (nd_ext N) (nd_codec N) (nd_now N) (ca_tenant a) Temporal i f (w_store w))"

definition no_evolution :: "string \<Rightarrow> ngsi_error" where
  "no_evolution i = ResourceNotFound (''temporal entity '' @ i @ '' not found'')"

definition evolution_gone :: "string \<Rightarrow> write_part" where
  "evolution_gone i = \<lparr>pt_status = 404, pt_detail = ''temporal entity '' @ i @ '' not found locally''\<rparr>"

definition add_here :: "'g broker_node \<Rightarrow> history \<Rightarrow> call_info \<Rightarrow> string \<Rightarrow> jobj \<Rightarrow> world \<Rightarrow> write_part ngsi_result \<times> world" where
  "add_here N H a i rest w = (case expand_entity (nd_lib N) (ca_ctx a) (temporal_opts True True) rest of
     Err e \<Rightarrow> (Err e, w)
   | Ok d \<Rightarrow> (case change_temporal N a i (add_temporal_instances (nd_now N) (stamp_temporal_instances H (nd_now N) d)) w of
       (Some (Ok _), w) \<Rightarrow> (Ok \<lparr>pt_status = 204, pt_detail = ''added locally''\<rparr>, w) | (_, w) \<Rightarrow> (Ok (evolution_gone i), w)))"

definition add_temporal_attrs :: "'g broker_node \<Rightarrow> history \<Rightarrow> call_info \<Rightarrow> string \<Rightarrow> jobj \<Rightarrow> world \<Rightarrow> reply \<times> world" where
  "add_temporal_attrs N H a i obj w = (case entity_id_new i of
     Err e \<Rightarrow> (Refused e, w)
   | Ok _ \<Rightarrow>
     if \<not> nd_gate N ''5.6.12'' JNull then (Forbidden, w)
     else (case expand_entity (nd_lib N) (ca_ctx a) (temporal_opts True True) obj of
       Err e \<Rightarrow> (Refused e, w)
     | Ok d \<Rightarrow> (case write_plan N a (default_spec\<lparr>cs_ids := Some [i]\<rparr>) of
         None \<Rightarrow> (loop_508, w)
       | Some regs \<Rightarrow>
           if regs \<noteq> [] then spread_write N a ''appendAttrsTemporal'' (\<lambda>r. evolution_url r i ''/attrs'') obj regs (add_here N H a i) (Done 204) w
           else (case change_temporal N a i (add_temporal_instances (nd_now N) (stamp_temporal_instances H (nd_now N) d)) w of
             (None, w) \<Rightarrow> (Refused (no_evolution i), w) | (Some (Err e), w) \<Rightarrow> (Refused e, w) | (Some (Ok _), w) \<Rightarrow> (Done 204, w)))))"

subsection \<open>Changing and deleting\<close>

text \<open>What the local write did: nothing was there, it was refused, or it succeeded; and whether its target was there.\<close>

record local_write =
  lw_res :: "((bool \<times> ngsi_error), bool) result option"
  lw_missing :: string
  lw_applied :: string

definition lw_found :: "local_write \<Rightarrow> bool" where
  "lw_found l = (case lw_res l of None \<Rightarrow> False | Some (Err (f, _)) \<Rightarrow> f | Some (Ok f) \<Rightarrow> f)"

definition local_temporal_part :: "string \<Rightarrow> local_write \<Rightarrow> write_part" where
  "local_temporal_part i l = (if lw_res l = None then evolution_gone i
     else if lw_found l then \<lparr>pt_status = 204, pt_detail = lw_applied l\<rparr>
     else \<lparr>pt_status = 404, pt_detail = lw_missing l @ '' not found locally''\<rparr>)"

definition answer_temporal_attr_write :: "'g broker_node \<Rightarrow> call_info \<Rightarrow> string \<Rightarrow> string \<Rightarrow> string \<Rightarrow> string \<Rightarrow> json option \<Rightarrow> fed_reg list
    \<Rightarrow> local_write \<times> world \<Rightarrow> reply \<times> world" where
  "answer_temporal_attr_write N a i oper method suffix body regs lw = (case lw of (l, w) \<Rightarrow>
     if regs = [] then (case lw_res l of
         None \<Rightarrow> Refused (no_evolution i) | Some (Err (_, e)) \<Rightarrow> Refused e
       | Some (Ok True) \<Rightarrow> Done 204 | Some (Ok False) \<Rightarrow> Refused (ResourceNotFound (lw_missing l @ '' not found'')), w)
     else (case entity_parts oper (\<lambda>r e. map_prod (\<lambda>p. [p]) id (forward_part N a r method (evolution_url r i suffix) [] body e)) regs (w_egress w) of
       (there, e) \<Rightarrow> (combine (local_temporal_part i l # there) (Done 204), w\<lparr>w_egress := e\<rparr>)))"

definition temporal_target :: "'g broker_node \<Rightarrow> call_info \<Rightarrow> string \<Rightarrow> (fed_reg list \<Rightarrow> reply \<times> world) \<Rightarrow> world \<Rightarrow> reply \<times> world" where
  "temporal_target N a i go w = (case write_plan N a (default_spec\<lparr>cs_ids := Some [i]\<rparr>) of None \<Rightarrow> (loop_508, w) | Some regs \<Rightarrow> go regs)"

definition delete_temporal :: "'g broker_node \<Rightarrow> call_info \<Rightarrow> string \<Rightarrow> world \<Rightarrow> reply \<times> world" where
  "delete_temporal N a i w = (case entity_id_new i of
     Err e \<Rightarrow> (Refused e, w)
   | Ok _ \<Rightarrow> if \<not> nd_gate N ''5.6.16'' JNull then (Forbidden, w)
     else temporal_target N (a\<lparr>ca_ctx := e_core (nd_env N)\<rparr>) i (\<lambda>regs.
       answer_temporal_attr_write N a i ''deleteTemporal'' ''DELETE'' [] None regs
         (case with_store w (delete (nd_ext N) (nd_codec N) (nd_now N) (ca_tenant a) Temporal i (w_store w)) of
           (hit, w) \<Rightarrow> (\<lparr>lw_res = (if hit then Some (Ok True) else None), lw_missing = ''temporal entity '' @ i, lw_applied = ''deleted locally''\<rparr>, w))) w)"

definition has_datasets :: "json option \<Rightarrow> bool" where
  "has_datasets v = list_ex (\<lambda>i. jget i ''datasetId'' \<noteq> None) (array_or_empty v)"

definition drop_history :: "string \<Rightarrow> string \<Rightarrow> bool \<Rightarrow> string option \<Rightarrow> json \<Rightarrow> (bool \<times> ngsi_error, bool \<times> json) result" where
  "drop_history ts k all ds doc = (case doc of
     JObj t \<Rightarrow>
       (let touched = (\<lambda>found t. Ok (found, JObj (if found then bm_insert ''modifiedAt'' (JStr ts) t else t))) in
        if all \<or> ds = None \<and> \<not> has_datasets (bm_get t k) then touched (bm_get t k \<noteq> None) (bm_remove k t)
        else (case Option.bind (bm_get t k) as_array of
            None \<Rightarrow> touched False t
          | Some xs \<Rightarrow> (let kept = filter (\<lambda>x. inst_str x ''datasetId'' \<noteq> ds) xs in
              touched (length kept \<noteq> length xs) (if kept = [] then bm_remove k t else bm_insert k (JArr kept) t))))
   | _ \<Rightarrow> Err (False, not_an_object))"

definition delete_temporal_attr :: "'g broker_node \<Rightarrow> call_info \<Rightarrow> string \<Rightarrow> string \<Rightarrow> world \<Rightarrow> reply \<times> world" where
  "delete_temporal_attr N a i name w = (case and_then (entity_id_new i) (\<lambda>_. check_attr_name name) of
     Err e \<Rightarrow> (Refused e, w)
   | Ok _ \<Rightarrow> if \<not> nd_gate N ''5.6.13'' JNull then (Forbidden, w)
     else (case expand_attr_name (ca_ctx a) name of
       Err e \<Rightarrow> (Refused e, w)
     | Ok k \<Rightarrow> temporal_target N a i (\<lambda>regs.
         answer_temporal_attr_write N a i ''deleteAttrsTemporal'' ''DELETE'' (''/attrs/'' @ path_segment name) None regs
           (case change_temporal N a i (drop_history (nd_now N) k (bm_get (ca_params a) ''deleteAll'' = Some ''true'') (target_dataset_id (ca_params a))) w of
             (r, w) \<Rightarrow> (\<lparr>lw_res = r, lw_missing = ''attribute '' @ name, lw_applied = ''deleted locally''\<rparr>, w))) w))"

definition has_instance_id :: "string \<Rightarrow> json \<Rightarrow> bool" where
  "has_instance_id iid inst \<longleftrightarrow> inst_str inst ''instanceId'' = Some iid"

definition kept_members :: "jobj \<Rightarrow> jobj" where
  "kept_members t = fold (\<lambda>k m. case bm_get t k of Some v \<Rightarrow> bm_insert k v m | None \<Rightarrow> m) [''createdAt'', ''instanceId''] []"

definition replace_instance :: "string \<Rightarrow> json \<Rightarrow> json \<Rightarrow> json ngsi_result" where
  "replace_instance ts frag inst = (case (inst, frag) of
     (JObj t, JObj f) \<Rightarrow> Ok (JObj (bm_insert ''modifiedAt'' (JStr ts)
       (fold (\<lambda>(k, v) m. if k \<in> {''createdAt'', ''instanceId''} then m else bm_insert k v m) f (kept_members t))))
   | (JObj t, _) \<Rightarrow> Err (InternalError ''expanded document is not a JSON object'')
   | _ \<Rightarrow> Err not_an_object)"

definition modify_history :: "string \<Rightarrow> string \<Rightarrow> string \<Rightarrow> json \<Rightarrow> json \<Rightarrow> (bool \<times> ngsi_error, bool \<times> json) result" where
  "modify_history ts k iid frag doc = (case doc of
     JObj t \<Rightarrow> (case Option.bind (bm_get t k) as_array of
         None \<Rightarrow> Ok (False, doc)
       | Some xs \<Rightarrow> (case position_of (has_instance_id iid) xs of
           None \<Rightarrow> Ok (False, doc)
         | Some p \<Rightarrow> (case replace_instance ts frag (xs ! p) of
             Err e \<Rightarrow> Err (True, e) | Ok inst \<Rightarrow> Ok (True, JObj (bm_insert k (JArr (xs[p := inst])) t)))))
   | _ \<Rightarrow> Err (False, not_an_object))"

definition instance_ids_ok :: "string \<Rightarrow> string \<Rightarrow> string \<Rightarrow> unit ngsi_result" where
  "instance_ids_ok i name iid = and_then (entity_id_new i) (\<lambda>_. and_then (check_attr_name name) (\<lambda>_.
     case entity_id_new iid of Err _ \<Rightarrow> Err (BadRequestData ''invalid instance id'') | Ok _ \<Rightarrow> Ok ()))"

definition instance_suffix :: "string \<Rightarrow> string \<Rightarrow> string" where
  "instance_suffix name iid = ''/attrs/'' @ path_segment name @ ''/'' @ path_segment iid"

definition fragment_instance :: "'g broker_node \<Rightarrow> call_info \<Rightarrow> string \<Rightarrow> jobj \<Rightarrow> (string \<times> json) ngsi_result" where
  "fragment_instance N a name obj =
     and_then (expand_entity (nd_lib N) (ca_ctx a) (temporal_opts True False) [(name, JObj (bm_remove ''@context'' obj))]) (\<lambda>d.
     and_then (expand_attr_name (ca_ctx a) name) (\<lambda>k.
       case array_or_empty (jget d k) of [] \<Rightarrow> Err (BadRequestData ''invalid instance fragment'') | x # _ \<Rightarrow> Ok (k, x)))"

definition modify_temporal_instance :: "'g broker_node \<Rightarrow> call_info \<Rightarrow> string \<Rightarrow> string \<Rightarrow> string \<Rightarrow> jobj \<Rightarrow> world \<Rightarrow> reply \<times> world" where
  "modify_temporal_instance N a i name iid obj w =
     (if name = [] then (Done 405, w)
      else (case instance_ids_ok i name iid of
        Err e \<Rightarrow> (Refused e, w)
      | Ok _ \<Rightarrow> if \<not> nd_gate N ''5.6.14'' JNull then (Forbidden, w)
        else (case fragment_instance N a name obj of
          Err e \<Rightarrow> (Refused e, w)
        | Ok (k, frag) \<Rightarrow> temporal_target N a i (\<lambda>regs.
            answer_temporal_attr_write N a i ''updateAttrInstanceTemporal'' ''PATCH'' (instance_suffix name iid) (Some (JObj obj)) regs
              (case change_temporal N a i (modify_history (nd_now N) k iid frag) w of
                (r, w) \<Rightarrow> (\<lparr>lw_res = r, lw_missing = ''instance '' @ iid, lw_applied = ''applied locally''\<rparr>, w))) w)))"

definition drop_instance :: "string \<Rightarrow> string \<Rightarrow> string \<Rightarrow> json \<Rightarrow> (bool \<times> ngsi_error, bool \<times> json) result" where
  "drop_instance ts k iid doc = (case doc of
     JObj t \<Rightarrow> (case Option.bind (bm_get t k) as_array of
         None \<Rightarrow> Ok (False, doc)
       | Some xs \<Rightarrow>
          (let kept = filter (\<lambda>x. \<not> has_instance_id iid x) xs;
               t = (if kept = [] then bm_remove k t else bm_insert k (JArr kept) t);
               found = (length kept \<noteq> length xs)
           in Ok (found, JObj (if found then bm_insert ''modifiedAt'' (JStr ts) t else t))))
   | _ \<Rightarrow> Err (False, not_an_object))"

definition delete_temporal_instance :: "'g broker_node \<Rightarrow> call_info \<Rightarrow> string \<Rightarrow> string \<Rightarrow> string \<Rightarrow> world \<Rightarrow> reply \<times> world" where
  "delete_temporal_instance N a i name iid w = (case instance_ids_ok i name iid of
     Err e \<Rightarrow> (Refused e, w)
   | Ok _ \<Rightarrow> if \<not> nd_gate N ''5.6.15'' JNull then (Forbidden, w)
     else (case expand_attr_name (ca_ctx a) name of
       Err e \<Rightarrow> (Refused e, w)
     | Ok k \<Rightarrow> temporal_target N a i (\<lambda>regs.
         answer_temporal_attr_write N a i ''deleteAttrInstanceTemporal'' ''DELETE'' (instance_suffix name iid) None regs
           (case change_temporal N a i (drop_instance (nd_now N) k iid) w of
             (r, w) \<Rightarrow> (\<lparr>lw_res = r, lw_missing = ''instance '' @ iid, lw_applied = ''applied locally''\<rparr>, w))) w))"

subsection \<open>Evolutions of other brokers\<close>

definition time_key :: "string \<Rightarrow> json \<Rightarrow> string option" where
  "time_key prop i = map_option dt_key (inst_str i prop)"

definition modified_key :: "json \<Rightarrow> string" where
  "modified_key i = dt_key (case inst_str i ''modifiedAt'' of Some t \<Rightarrow> t | None \<Rightarrow> [])"

definition merge_slot :: "bool \<Rightarrow> string \<Rightarrow> json \<Rightarrow> json list \<Rightarrow> json list" where
  "merge_slot aux prop ni cur =
     (if aux \<and> time_key prop ni \<noteq> None \<and> list_ex (\<lambda>ci. time_key prop ci = time_key prop ni) cur then cur
      else (case (if time_key prop ni = None then None
                  else position_of (\<lambda>ci. time_key prop ci = time_key prop ni \<and> jget ci ''datasetId'' = jget ni ''datasetId'') cur) of
          Some p \<Rightarrow> if modified_key (cur ! p) < modified_key ni then cur[p := ni] else cur
        | None \<Rightarrow> cur @ [ni]))"

definition TEMPORAL_META :: "string list" where
  "TEMPORAL_META = [''id'', ''type'', ''scope'', ''createdAt'', ''modifiedAt'', ''deletedAt'', ''expiresAt'']"

definition merge_temporal_member :: "bool \<Rightarrow> string \<Rightarrow> string \<times> json \<Rightarrow> jobj \<Rightarrow> jobj" where
  "merge_temporal_member aux prop e t = (case e of (k, v) \<Rightarrow>
     if k \<in> set TEMPORAL_META then (if bm_get t k = None then bm_insert k v t else t)
     else (let incoming = (case v of JArr xs \<Rightarrow> xs | _ \<Rightarrow> [v]) in
       bm_insert k (JArr (case Option.bind (bm_get t k) as_array of
         None \<Rightarrow> incoming | Some cur \<Rightarrow> fold (merge_slot aux prop) incoming cur)) t))"

definition merge_temporal_docs :: "bool \<Rightarrow> string \<Rightarrow> json \<Rightarrow> json \<Rightarrow> json" where
  "merge_temporal_docs aux prop doc here = (case (here, doc) of
     (JObj t, JObj m) \<Rightarrow> JObj (fold (merge_temporal_member aux prop) m t) | _ \<Rightarrow> here)"

end
