(* ===== verification/TemporalView.thy ===== *)
theory TemporalView
  imports Temporal
begin

text \<open>
  Reading an evolution (\<open>antares-api/src/temporal.rs\<close>): the parameters of the representation, the window of instances,
  the cut that makes an answer partial with its \<open>Content-Range\<close>, the conditions a query puts on the instances in the
  window, and the presentation of the instances.  Of the aggregated representation the classes of values and the
  aggregation of one bucket are modelled; the bounds of the buckets, calendar arithmetic of chrono, are not.
\<close>

subsection \<open>Parameters\<close>

datatype aggr_period = WholeRange | PeriodSeconds int | PeriodMonths nat int

record trepr =
  tr_values :: bool
  tr_aggregated :: bool
  tr_sys :: bool
  tr_last_n :: "nat option"
  tr_pick :: "proj_node list option"
  tr_omit :: "proj_node list option"
  tr_datasets :: "string list option"
  tr_attrs :: "string list option"
  tr_methods :: "string list"
  tr_period :: aggr_period
  tr_lang :: "string option"

definition default_trepr :: trepr where
  "default_trepr = \<lparr>tr_values = False, tr_aggregated = False, tr_sys = False, tr_last_n = None, tr_pick = None, tr_omit = None,
     tr_datasets = None, tr_attrs = None, tr_methods = [], tr_period = WholeRange, tr_lang = None\<rparr>"

text \<open>The casts of a float to an integer truncate and saturate, and so do the sums of periods.\<close>

definition clamp :: "int \<Rightarrow> int \<Rightarrow> int \<Rightarrow> int" where
  "clamp lo hi n = max lo (min hi n)"

definition truncated :: "rat \<Rightarrow> int" where
  "truncated q = (if 0 \<le> q then floor q else - floor (- q))"

definition cast_int :: "int \<Rightarrow> int \<Rightarrow> f64 \<Rightarrow> int" where
  "cast_int lo hi f = (case f of Fin q \<Rightarrow> clamp lo hi (truncated q) | PInf \<Rightarrow> hi | NInf \<Rightarrow> lo)"

definition times_per :: "f64 \<Rightarrow> nat \<Rightarrow> f64" where
  "times_per f per = (case f of Fin q \<Rightarrow> round_f64 (q * of_nat per) | _ \<Rightarrow> f)"

definition period_months :: "iso_duration \<Rightarrow> int" where
  "period_months d = (let u32 = (\<lambda>f. cast_int 0 (2 ^ 32 - 1) f)
     in clamp 0 (2 ^ 32 - 1) (clamp 0 (2 ^ 32 - 1) (u32 (years d) * 12) + u32 (months d)))"

definition period_seconds :: "iso_duration \<Rightarrow> int" where
  "period_seconds d = fold (\<lambda>(n, per) total. clamp (- (2 ^ 63)) (2 ^ 63 - 1) (total + cast_int (- (2 ^ 63)) (2 ^ 63 - 1) (times_per n per)))
     [(weeks d, 604800), (days d, 86400), (hours d, 3600), (minutes d, 60), (seconds d, 1)] 0"

definition parse_period :: "string \<Rightarrow> aggr_period option" where
  "parse_period s = map_option (\<lambda>d. let m = period_months d; sc = period_seconds d in
     if m = 0 \<and> sc = 0 then WholeRange else if m = 0 then PeriodSeconds sc else PeriodMonths (nat m) sc) (parse_iso_duration s)"

definition AGGR_METHODS :: "string list" where
  "AGGR_METHODS = [''totalCount'', ''distinctCount'', ''sum'', ''avg'', ''min'', ''max'', ''stddev'', ''sumsq'']"

definition temporal_option :: "string \<Rightarrow> trepr \<Rightarrow> trepr ngsi_result" where
  "temporal_option o1 r = (let t = trim o1 in
     if t = ''sysAttrs'' then Ok (r\<lparr>tr_sys := True\<rparr>)
     else if t = ''temporalValues'' then Ok (r\<lparr>tr_values := True\<rparr>)
     else if t = ''aggregatedValues'' then Ok (r\<lparr>tr_aggregated := True\<rparr>)
     else if t = ''normalized'' then Ok r
     else Err (InvalidRequest ''unsupported options value''))"

definition temporal_format :: "string bmap \<Rightarrow> trepr \<Rightarrow> trepr ngsi_result" where
  "temporal_format ps r = (case bm_get ps ''format'' of
     None \<Rightarrow> Ok r
   | Some f \<Rightarrow>
       if f = ''temporalValues'' then Ok (r\<lparr>tr_values := True, tr_aggregated := False\<rparr>)
       else if f = ''aggregatedValues'' then Ok (r\<lparr>tr_aggregated := True, tr_values := False\<rparr>)
       else if f = ''normalized'' then Ok (r\<lparr>tr_values := False, tr_aggregated := False\<rparr>)
       else Err (InvalidRequest ''unsupported format value''))"

definition parse_usize :: "string \<Rightarrow> nat option" where
  "parse_usize s = (let ds = (case s of ch # rest \<Rightarrow> if ch = CHR ''+'' then rest else s | [] \<Rightarrow> []) in
     if ds \<noteq> [] \<and> list_all is_digit ds \<and> digits_val ds < 2 ^ 64 then Some (nat (digits_val ds)) else None)"

definition last_n_param :: "string \<Rightarrow> nat ngsi_result" where
  "last_n_param s = (case parse_usize s of
     None \<Rightarrow> Err (BadRequestData ''invalid lastN'')
   | Some n \<Rightarrow> if n < 1 then Err (BadRequestData ''invalid lastN'')
       else if 2 ^ 63 - 1 < n then Err (BadRequestData ''lastN is out of range'') else Ok n)"

definition aggr_param :: "string bmap \<Rightarrow> trepr \<Rightarrow> trepr ngsi_result" where
  "aggr_param ps r = (case bm_get ps ''aggrMethods'' of
     None \<Rightarrow> Ok r
   | Some m \<Rightarrow> (let ms = map trim (split_on comma m) in
       if list_all (\<lambda>x. x \<in> set AGGR_METHODS) ms
       then Ok (r\<lparr>tr_methods := tr_methods r @ ms, tr_aggregated := tr_aggregated r \<or> \<not> bm_contains ps ''format''\<rparr>)
       else Err (BadRequestData ''invalid aggrMethods value (4.5.19)'')))"

definition period_param :: "string bmap \<Rightarrow> trepr \<Rightarrow> trepr ngsi_result" where
  "period_param ps r = (case bm_get ps ''aggrPeriodDuration'' of
     None \<Rightarrow> Ok r
   | Some s \<Rightarrow> (case parse_period s of
       None \<Rightarrow> Err (BadRequestData ''invalid aggrPeriodDuration'')
     | Some p \<Rightarrow> (let (m, sc) = (case p of WholeRange \<Rightarrow> (0, 0) | PeriodSeconds sc \<Rightarrow> (0, sc) | PeriodMonths m sc \<Rightarrow> (m, sc)) in
         if 1200 < m \<or> 86400 * 366 * 100 < sc then Err (BadRequestData ''aggrPeriodDuration is out of range'')
         else Ok (r\<lparr>tr_period := p\<rparr>))))"

definition parse_trepr :: "string bmap \<Rightarrow> jctx \<Rightarrow> trepr ngsi_result" where
  "parse_trepr ps c =
     and_then (case bm_get ps ''options'' of None \<Rightarrow> Ok default_trepr | Some opts \<Rightarrow> try_fold temporal_option (split_on comma opts) default_trepr) (\<lambda>r.
     and_then (temporal_format ps r) (\<lambda>r.
     and_then (check_projection_exclusive ps) (\<lambda>_.
     and_then (opt_param ps ''pick'' (parse_projection c)) (\<lambda>pick.
     and_then (opt_param ps ''omit'' (parse_projection c)) (\<lambda>omit.
     and_then (opt_param ps ''lastN'' last_n_param) (\<lambda>n.
     and_then (aggr_param ps (r\<lparr>tr_lang := bm_get ps ''lang'', tr_pick := pick, tr_omit := omit, tr_last_n := n,
         tr_attrs := map_option (\<lambda>a. map (\<lambda>t. expand_key c (trim t)) (split_on comma a)) (bm_get ps ''attrs''),
         tr_datasets := map_option (\<lambda>d. map trim (split_on comma d)) (bm_get ps ''datasetId'')\<rparr>)) (\<lambda>r.
       if tr_aggregated r \<and> tr_methods r = [] then Err (BadRequestData ''aggregatedValues requires aggrMethods (4.5.19)'')
       else period_param ps r)))))))"

definition reject_linked_projection :: "trepr \<Rightarrow> string \<Rightarrow> unit ngsi_result" where
  "reject_linked_projection r clause = (let depth = (\<lambda>p. case p of None \<Rightarrow> 0 | Some ns \<Rightarrow> proj_depth ns) in
     if 0 < depth (tr_pick r) \<or> 0 < depth (tr_omit r)
     then Err (BadRequestData (''temporal projection must not use Linked Entity selection ('' @ clause @ '')'')) else Ok ())"

definition selection :: "trepr \<Rightarrow> string list option" where
  "selection r = (case tr_attrs r of Some a \<Rightarrow> Some a
     | None \<Rightarrow> map_option (\<lambda>ns. map pn_iri (filter (\<lambda>n. \<not> is_meta (pn_raw n)) ns)) (tr_pick r))"

subsection \<open>Windows\<close>

record windowed =
  wd_attrs :: "(string \<times> json list) list"
  wd_max :: nat
  wd_ts_min :: "string option"
  wd_ts_max :: "string option"
  wd_truncated :: bool

definition empty_window :: windowed where
  "empty_window = \<lparr>wd_attrs = [], wd_max = 0, wd_ts_min = None, wd_ts_max = None, wd_truncated = False\<rparr>"

text \<open>The bounds of the instants seen so far, in their canonical order but as they were written.\<close>

definition bound_step :: "string \<Rightarrow> json \<Rightarrow> string option \<times> string option \<Rightarrow> string option \<times> string option" where
  "bound_step prop inst s = (case inst_str inst prop of None \<Rightarrow> s
     | Some t \<Rightarrow> (case s of (lo, hi) \<Rightarrow>
         (if (case lo of None \<Rightarrow> True | Some m \<Rightarrow> dt_key t < dt_key m) then Some t else lo,
          if (case hi of None \<Rightarrow> True | Some m \<Rightarrow> dt_key m < dt_key t) then Some t else hi)))"

definition bounds_of :: "string \<Rightarrow> json list \<Rightarrow> string option \<times> string option \<Rightarrow> string option \<times> string option" where
  "bounds_of prop xs s = fold (bound_step prop) xs s"

definition scope_instances :: "string \<Rightarrow> json \<Rightarrow> bool" where
  "scope_instances k v \<longleftrightarrow> k = ''scope'' \<and> (case v of JArr (x # xs) \<Rightarrow> is_object x | _ \<Rightarrow> False)"

definition scope_set_time :: "json \<Rightarrow> string option" where
  "scope_set_time i = (case List.map_filter (inst_str i) [''observedAt'', ''modifiedAt'', ''createdAt''] of [] \<Rightarrow> None | t # _ \<Rightarrow> Some t)"

definition dataset_wanted :: "string list option \<Rightarrow> json \<Rightarrow> bool" where
  "dataset_wanted ds inst = (case ds of None \<Rightarrow> True
     | Some want \<Rightarrow> (case jget inst ''datasetId'' of
         Some (JStr have1) \<Rightarrow> have1 \<in> set want | None \<Rightarrow> ''@none'' \<in> set want | _ \<Rightarrow> False))"

definition set_key :: "json \<Rightarrow> string option" where
  "set_key i = map_option dt_key (scope_set_time i)"

text \<open>The scope in force when the window opens: the latest instance set before it (the last of equals).\<close>

definition scope_carry :: "temporal_q option \<Rightarrow> json list \<Rightarrow> json option" where
  "scope_carry tq xs = (case tq of None \<Rightarrow> None
     | Some q \<Rightarrow> if tq_timerel q \<noteq> ''after'' \<and> tq_timerel q \<noteq> ''between'' then None
         else fold (\<lambda>x best. case best of None \<Rightarrow> Some x | Some y \<Rightarrow> if the (set_key x) < the (set_key y) then best else Some x)
           (filter (\<lambda>x. case set_key x of None \<Rightarrow> False | Some t \<Rightarrow> t < dt_key (tq_time_at q)) xs) None)"

definition with_carry :: "json option \<Rightarrow> json list \<Rightarrow> json list" where
  "with_carry c xs = (case c of None \<Rightarrow> xs | Some x \<Rightarrow> if x \<in> set xs then xs else xs @ [x])"

definition sort_instant :: "string \<Rightarrow> json \<Rightarrow> string" where
  "sort_instant prop i = dt_key (case inst_str i prop of Some t \<Rightarrow> t | None \<Rightarrow> [])"

definition last_instances :: "nat option \<Rightarrow> json list \<Rightarrow> json list" where
  "last_instances n xs = (case n of None \<Rightarrow> xs | Some n \<Rightarrow> rev (drop (length xs - n) xs))"

definition window_attr :: "temporal_q option \<Rightarrow> nat option \<Rightarrow> string list option \<Rightarrow> string \<Rightarrow> string \<times> json \<Rightarrow> json list" where
  "window_attr tq last_n ds prop e = (case e of (k, v) \<Rightarrow>
     (let xs = filter (dataset_wanted ds) (filter (\<lambda>i. case tq of None \<Rightarrow> True | Some q \<Rightarrow> instance_matches q i) (array_or_empty (Some v)));
          xs = (if scope_instances k v then with_carry (scope_carry tq (array_or_empty (Some v))) xs else xs)
      in last_instances last_n (sort_key (sort_instant prop) xs)))"

definition windowed_member :: "string list option \<Rightarrow> proj_node list option \<Rightarrow> string \<times> json \<Rightarrow> bool" where
  "windowed_member want omit e \<longleftrightarrow> (\<not> is_meta (fst e) \<or> scope_instances (fst e) (snd e))
     \<and> (case want of None \<Rightarrow> True | Some ws \<Rightarrow> fst e \<in> set ws)
     \<and> (case omit of None \<Rightarrow> True | Some ns \<Rightarrow> \<not> list_ex (\<lambda>n. pn_iri n = fst e \<and> pn_children n = None) ns)"

definition window :: "json \<Rightarrow> temporal_q option \<Rightarrow> nat option \<Rightarrow> string list option \<Rightarrow> proj_node list option \<Rightarrow> string list option \<Rightarrow> string \<Rightarrow> windowed" where
  "window doc tq last_n want omit ds prop = (case doc of
     JObj m \<Rightarrow>
       (let as = filter (\<lambda>e. snd e \<noteq> []) (map (\<lambda>e. (fst e, window_attr tq last_n ds prop e)) (filter (windowed_member want omit) m));
            (lo, hi) = bounds_of prop (concat (map snd as)) (None, None)
        in \<lparr>wd_attrs = as, wd_max = fold max (map (\<lambda>e. length (snd e)) as) 0, wd_ts_min = lo, wd_ts_max = hi, wd_truncated = False\<rparr>)
   | _ \<Rightarrow> empty_window)"

subsection \<open>The cut\<close>

definition TEMPORAL_INSTANCE_LIMIT :: nat where "TEMPORAL_INSTANCE_LIMIT = 9"

definition tighter :: "bool \<Rightarrow> string \<Rightarrow> string \<Rightarrow> string" where
  "tighter descending x y = (if (y < x) \<noteq> descending then y else x)"

text \<open>The instant of the ninth instance of every attribute that has more, the tightest of them.\<close>

definition cut_boundary :: "string \<Rightarrow> bool \<Rightarrow> (string \<times> json list) list \<Rightarrow> string option" where
  "cut_boundary prop descending as =
     (case List.map_filter (\<lambda>xs. time_key prop (xs ! (TEMPORAL_INSTANCE_LIMIT - 1))) (filter (\<lambda>xs. TEMPORAL_INSTANCE_LIMIT < length xs) (map snd as)) of
        [] \<Rightarrow> None | t # ts \<Rightarrow> Some (fold (\<lambda>y x. tighter descending x y) ts t))"

definition within_cut :: "string \<Rightarrow> bool \<Rightarrow> string option \<Rightarrow> json list \<Rightarrow> json list" where
  "within_cut prop descending bd xs = (case bd of
     None \<Rightarrow> take TEMPORAL_INSTANCE_LIMIT xs
   | Some b \<Rightarrow> filter (\<lambda>i. case time_key prop i of None \<Rightarrow> True | Some t \<Rightarrow> if descending then b \<le> t else t \<le> b) xs)"

definition truncate_window :: "string \<Rightarrow> bool \<Rightarrow> windowed \<Rightarrow> windowed" where
  "truncate_window prop descending w =
     (if wd_max w \<le> TEMPORAL_INSTANCE_LIMIT then w
      else (let as = map (\<lambda>(k, xs). (k, within_cut prop descending (cut_boundary prop descending (wd_attrs w)) xs)) (wd_attrs w);
                (lo, hi) = bounds_of prop (concat (map snd as)) (None, None)
            in \<lparr>wd_attrs = as, wd_max = TEMPORAL_INSTANCE_LIMIT, wd_ts_min = lo, wd_ts_max = hi, wd_truncated = True\<rparr>))"

definition content_range :: "bool \<Rightarrow> string option \<Rightarrow> string option \<Rightarrow> temporal_q option \<Rightarrow> nat option \<Rightarrow> string option" where
  "content_range part lo hi tq last_n = (case (part, lo, hi) of
     (True, Some lo, Some hi) \<Rightarrow>
       (let named = (case tq of Some q \<Rightarrow> if tq_timerel q = ''any'' then None else Some q | None \<Rightarrow> None);
            (start, stop) = (case last_n of
               None \<Rightarrow> (case named of Some q \<Rightarrow> if tq_timerel q = ''after'' \<or> tq_timerel q = ''between'' then tq_time_at q else lo | None \<Rightarrow> lo, hi)
             | Some _ \<Rightarrow> (case named of
                   Some q \<Rightarrow> if tq_timerel q = ''before'' then tq_time_at q
                     else if tq_timerel q = ''between'' then (case tq_end q of Some e \<Rightarrow> e | None \<Rightarrow> hi) else hi
                 | None \<Rightarrow> hi, lo))
        in Some (''date-time '' @ start @ ''-'' @ stop @ ''/'' @ (case last_n of None \<Rightarrow> ''*'' | Some n \<Rightarrow> decimal n)))
   | _ \<Rightarrow> None)"

subsection \<open>Conditions on the window\<close>

definition scope_value_matches :: "string \<Rightarrow> json \<Rightarrow> bool" where
  "scope_value_matches sq v \<longleftrightarrow> v \<noteq> JNull \<and> v \<noteq> JStr NGSI_NULL \<and> scope_matches sq (mkobj [(''scope'', v)])"

primrec state_intervals :: "string \<Rightarrow> (string \<times> json) list \<Rightarrow> (string \<times> string option) list" where
  "state_intervals sq [] = []"
| "state_intervals sq (s # ss) = (if scope_value_matches sq (snd s)
     then [(fst s, case ss of [] \<Rightarrow> None | n # _ \<Rightarrow> Some (fst n))] else []) @ state_intervals sq ss"

definition scope_match_intervals :: "json \<Rightarrow> string \<Rightarrow> (string \<times> string option) list" where
  "scope_match_intervals doc sq = (case jget doc ''scope'' of
     None \<Rightarrow> []
   | Some v \<Rightarrow> if scope_instances ''scope'' v
       then state_intervals sq (sort_key (\<lambda>s. dt_key (fst s)) (List.map_filter (\<lambda>i. map_option (\<lambda>t. (t, case jget i ''value'' of Some x \<Rightarrow> x | None \<Rightarrow> JNull))
              (scope_set_time i)) (array_or_empty (Some v))))
       else if scope_matches sq doc then [([], None)] else [])"

definition on_attr_instances :: "(json \<Rightarrow> bool) \<Rightarrow> json \<Rightarrow> json" where
  "on_attr_instances keep doc = (case doc of
     JObj m \<Rightarrow> JObj (map (\<lambda>(k, v). (k, case v of JArr xs \<Rightarrow> if is_meta k then v else JArr (filter keep xs) | _ \<Rightarrow> v)) m) | _ \<Rightarrow> doc)"

definition query_bounds :: "temporal_q option \<Rightarrow> string option \<times> string option" where
  "query_bounds tq = (case tq of None \<Rightarrow> (None, None)
     | Some q \<Rightarrow> if tq_timerel q = ''before'' then (None, Some (tq_time_at q))
         else if tq_timerel q = ''after'' then (Some (tq_time_at q), None)
         else if tq_timerel q = ''between'' then (Some (tq_time_at q), tq_end q) else (None, None))"

text \<open>Here the instants are compared as they were written.\<close>

definition scope_window_retain :: "json \<Rightarrow> string \<Rightarrow> temporal_q option \<Rightarrow> string \<Rightarrow> json option" where
  "scope_window_retain doc sq tq prop =
     (let iv = scope_match_intervals doc sq; (ws, we) = query_bounds tq in
      if list_ex (\<lambda>(s, e). (case we of None \<Rightarrow> True | Some x \<Rightarrow> s < x) \<and>
             (case e of None \<Rightarrow> True | Some e \<Rightarrow> (case ws of None \<Rightarrow> True | Some x \<Rightarrow> x < e))) iv
      then Some (on_attr_instances (\<lambda>i. case inst_str i prop of None \<Rightarrow> False
             | Some t \<Rightarrow> list_ex (\<lambda>(s, e). s \<le> t \<and> (case e of None \<Rightarrow> True | Some e \<Rightarrow> t < e)) iv) doc)
      else None)"

definition type_and_attrs_match :: "json \<Rightarrow> string list option \<Rightarrow> string list option \<Rightarrow> bool" where
  "type_and_attrs_match doc tys want \<longleftrightarrow>
     (case tys of None \<Rightarrow> True | Some ts \<Rightarrow> list_ex (\<lambda>t. case t of JStr s \<Rightarrow> s \<in> set ts | _ \<Rightarrow> False) (array_or_empty (jget doc ''type''))) \<and>
     (case want of None \<Rightarrow> True | Some ws \<Rightarrow> list_ex (\<lambda>k. jget doc k \<noteq> None) ws)"

definition window_conditions_match :: "ext \<Rightarrow> jctx \<Rightarrow> temporal_q option \<Rightarrow> qnode option \<Rightarrow> (json \<Rightarrow> bool) option \<Rightarrow> json \<Rightarrow> bool" where
  "window_conditions_match E c tq q geo doc =
     (let d = (case tq of None \<Rightarrow> doc | Some t \<Rightarrow> on_attr_instances (instance_matches t) doc)
      in (case q of None \<Rightarrow> True | Some n \<Rightarrow> eval_q E c (\<lambda>_. None) d n) \<and> (case geo of None \<Rightarrow> True | Some g \<Rightarrow> g d))"

subsection \<open>Presentation\<close>

definition core_member :: "trepr \<Rightarrow> jctx \<Rightarrow> string \<times> json \<Rightarrow> (string \<times> json) option" where
  "core_member r c e = (case e of (k, v) \<Rightarrow>
     if \<not> is_meta k \<or> scope_instances k v then None
     else if k \<in> {''createdAt'', ''modifiedAt'', ''expiresAt'', ''deletedAt''} \<and> \<not> tr_sys r then None
     else if \<not> meta_projected (tr_pick r) (tr_omit r) k then None
     else Some (k, if k = ''type'' then compact_types c v else v))"

definition in_lang :: "trepr \<Rightarrow> json \<Rightarrow> json" where
  "in_lang r i = (case (tr_lang r, i) of (Some l, JObj m) \<Rightarrow> JObj (apply_lang l m) | _ \<Rightarrow> i)"

definition pair_value :: "jctx \<Rightarrow> json \<Rightarrow> json" where
  "pair_value c i = (case jget i ''value'' of Some v \<Rightarrow> v | None \<Rightarrow>
     (case jget i ''object'' of Some v \<Rightarrow> v | None \<Rightarrow>
     (case jget i ''languageMap'' of Some v \<Rightarrow> mkobj [(''languageMap'', v)] | None \<Rightarrow>
     (case jget i ''json'' of Some v \<Rightarrow> mkobj [(''json'', v)] | None \<Rightarrow>
     (case jget i ''vocab'' of Some v \<Rightarrow> mkobj [(''vocab'', compact_vocab c v)] | None \<Rightarrow>
     (case jget i ''valueList'' of Some v \<Rightarrow> v | None \<Rightarrow>
     (case jget i ''objectList'' of Some v \<Rightarrow> v | None \<Rightarrow> JNull)))))))"

definition values_member :: "json \<Rightarrow> string" where
  "values_member ty = (case ty of
     JStr t \<Rightarrow> if t = ''Relationship'' then ''objects'' else if t = ''LanguageProperty'' then ''languageMaps''
       else if t = ''VocabProperty'' then ''vocabs'' else if t = ''JsonProperty'' then ''jsons''
       else if t = ''ListProperty'' then ''valueLists'' else if t = ''ListRelationship'' then ''objectLists'' else ''values''
   | _ \<Rightarrow> ''values'')"

definition into_group :: "json \<Rightarrow> (string option \<times> json list) list \<Rightarrow> (string option \<times> json list) list" where
  "into_group i gs = (let ds = inst_str i ''datasetId'' in
     if list_ex (\<lambda>g. fst g = ds) gs then map (\<lambda>g. if fst g = ds then (ds, snd g @ [i]) else g) gs else gs @ [(ds, [i])])"

definition render_group :: "jctx \<Rightarrow> string \<Rightarrow> string option \<times> json list \<Rightarrow> json" where
  "render_group c prop g = (case g of (ds, xs) \<Rightarrow>
     (let ty = (case xs of x # _ \<Rightarrow> (case jget x ''type'' of Some t \<Rightarrow> t | None \<Rightarrow> JStr ''Property'') | [] \<Rightarrow> JStr ''Property'') in
      mkobj ([(''type'', ty)] @ (case ds of Some d \<Rightarrow> [(''datasetId'', JStr d)] | None \<Rightarrow> [])
        @ [(values_member ty, JArr (map (\<lambda>i. JArr [pair_value c i, case jget i prop of Some t \<Rightarrow> t | None \<Rightarrow> JNull]) xs))])))"

definition render_values :: "jctx \<Rightarrow> string \<Rightarrow> json list \<Rightarrow> json" where
  "render_values c prop xs = (case map (render_group c prop) (fold into_group xs []) of [g] \<Rightarrow> g | gs \<Rightarrow> JArr gs)"

definition shown_instance :: "trepr \<Rightarrow> jctx \<Rightarrow> json \<Rightarrow> json" where
  "shown_instance r c i = compact_instance c (case i of
     JObj m \<Rightarrow> if tr_sys r then i else JObj (bm_remove ''expiresAt'' (bm_remove ''modifiedAt'' (bm_remove ''createdAt'' m))) | _ \<Rightarrow> i)"

definition present_attr :: "trepr \<Rightarrow> jctx \<Rightarrow> string \<Rightarrow> string \<times> json list \<Rightarrow> string \<times> json" where
  "present_attr r c prop e = (case e of (k, xs) \<Rightarrow>
     (compact_iri c k,
      let xs = map (in_lang r) xs in
      if xs = [] then JArr [] else if tr_values r then render_values c prop xs else JArr (map (shown_instance r c) xs)))"

definition present_instances :: "json \<Rightarrow> windowed \<Rightarrow> jctx \<Rightarrow> trepr \<Rightarrow> string \<Rightarrow> json" where
  "present_instances doc w c r prop = (case doc of
     JObj m \<Rightarrow> JObj (fold (\<lambda>(k, v). bm_insert k v) (map (present_attr r c prop) (wd_attrs w))
       (bm_of_list (List.map_filter (core_member r c) m)))
   | _ \<Rightarrow> doc)"

subsection \<open>Aggregation\<close>

datatype aggr_class = Number | TextClass | Instant | TimeOfDay | ListClass | Opaque | RelationshipClass

definition ld_term :: "string \<Rightarrow> string" where
  "ld_term s = (case strip_prefix NGSI_LD_BASE s of Some r \<Rightarrow> r | None \<Rightarrow> s)"

definition value_datatype :: "json \<Rightarrow> string option" where
  "value_datatype inst = (case (inst_str inst ''valueType'', jget inst ''value'') of
     (Some vt, Some (JStr _)) \<Rightarrow> Some (ld_term vt)
   | (_, v) \<Rightarrow> map_option ld_term (Option.bind v (\<lambda>v. inst_str v ''@type'')))"

definition lexical_of :: "json \<Rightarrow> string option" where
  "lexical_of v = (case v of JStr s \<Rightarrow> Some s | _ \<Rightarrow> inst_str v ''@value'')"

definition classify_instance :: "json \<Rightarrow> aggr_class" where
  "classify_instance inst = (let has1 = (\<lambda>k. jget inst k \<noteq> None) in
     if has1 ''object'' then RelationshipClass
     else if has1 ''valueList'' \<or> has1 ''objectList'' then ListClass
     else if has1 ''vocab'' \<or> has1 ''languageMap'' \<or> has1 ''json'' then Opaque
     else if value_datatype inst = Some ''DateTime'' \<or> value_datatype inst = Some ''Date'' then Instant
     else if value_datatype inst = Some ''Time'' then TimeOfDay
     else (case jget inst ''value'' of
         Some (JNum _) \<Rightarrow> Number | Some (JBool _) \<Rightarrow> Number | Some (JStr _) \<Rightarrow> TextClass | Some (JArr _) \<Rightarrow> ListClass | _ \<Rightarrow> Opaque))"

definition aggr_eligible :: "aggr_class \<Rightarrow> string \<Rightarrow> bool" where
  "aggr_eligible cl m \<longleftrightarrow>
     (if m = ''totalCount'' \<or> m = ''distinctCount'' then True
      else if m = ''min'' \<or> m = ''max'' then cl \<noteq> Opaque \<and> cl \<noteq> RelationshipClass
      else if m = ''avg'' then cl \<in> {Number, ListClass, TimeOfDay}
      else if m = ''sum'' then cl \<in> {Number, ListClass}
      else if m = ''stddev'' \<or> m = ''sumsq'' then cl = Number else False)"

text \<open>Arithmetic on doubles.  A sum that leaves the range stays infinite, so no operation below meets a NaN.\<close>

fun f64_add :: "f64 \<Rightarrow> f64 \<Rightarrow> f64" where
  "f64_add (Fin x) (Fin y) = round_f64 (x + y)"
| "f64_add (Fin x) y = y"
| "f64_add x y = x"

fun f64_neg :: "f64 \<Rightarrow> f64" where
  "f64_neg (Fin x) = Fin (- x)" | "f64_neg PInf = NInf" | "f64_neg NInf = PInf"

fun f64_square :: "f64 \<Rightarrow> f64" where
  "f64_square (Fin x) = round_f64 (x * x)" | "f64_square _ = PInf"

definition f64_over :: "f64 \<Rightarrow> nat \<Rightarrow> f64" where
  "f64_over x n = (case x of Fin q \<Rightarrow> round_f64 (q / of_nat n) | _ \<Rightarrow> x)"

definition f64_sum :: "f64 list \<Rightarrow> f64" where
  "f64_sum xs = fold (\<lambda>x s. f64_add s x) xs (Fin 0)"

function isqrt :: "int \<Rightarrow> int" where
  "isqrt n = (if n \<le> 0 then 0 else (let r = 2 * isqrt (n div 4) in if (r + 1) * (r + 1) \<le> n then r + 1 else r))"
  by pat_completeness auto
termination
  by (relation "measure nat") auto

declare isqrt.simps [simp del]

text \<open>The square root, rounded to even: the root of the argument scaled to 106 bits, and what is left over.\<close>

definition f64_sqrt :: "f64 \<Rightarrow> f64" where
  "f64_sqrt x = (case x of
     Fin q \<Rightarrow> if q \<le> 0 then Fin 0
       else (let e = ilog2 q div 2 - 52; m = q / power_int 4 e; r = isqrt (floor m); half = (of_int r + 1 / 2) * (of_int r + 1 / 2) in
         Fin (of_int (if m < half then r else if half < m then r + 1 else if even r then r else r + 1) * power_int 2 e))
   | _ \<Rightarrow> x)"

definition finite_json :: "f64 \<Rightarrow> json" where
  "finite_json x = (if is_finite x then JNum (JFloat x) else JNull)"

text \<open>\<open>HH:MM:SS[.f]\<close>; the parts are parsed as floats.\<close>

definition seconds_of_day :: "string \<Rightarrow> f64 option" where
  "seconds_of_day s = (let t = (if s \<noteq> [] \<and> last s = CHR ''Z'' then butlast s else s);
       num = (\<lambda>u. case rust_f64 u of Float x \<Rightarrow> Some x | _ \<Rightarrow> None) in
     if length t < 8 \<or> t ! 2 \<noteq> CHR '':'' \<or> t ! 5 \<noteq> CHR '':'' then None
     else (case (num (take 2 t), num (take 2 (drop 3 t)), num (drop 6 t)) of
         (Some h, Some m, Some sc) \<Rightarrow> if h < Fin 24 \<and> m < Fin 60 \<and> sc < Fin 62
            then Some (f64_add (f64_add (times_per h 3600) (times_per m 60)) sc) else None
       | _ \<Rightarrow> None))"

definition pad_left :: "nat \<Rightarrow> string \<Rightarrow> string" where
  "pad_left n s = replicate (n - length s) CHR ''0'' @ s"

text \<open>\<open>{:013.6}\<close>\<close>

definition fixed6 :: "f64 \<Rightarrow> string" where
  "fixed6 x = (case x of
     Fin q \<Rightarrow> (let n = nat (round_half_even (\<bar>q\<bar> * 1000000)); body = decimal (n div 1000000) @ ''.'' @ pad_left 6 (decimal (n mod 1000000))
       in if q < 0 then ''-'' @ pad_left 12 body else pad_left 13 body)
   | PInf \<Rightarrow> ''          inf'' | NInf \<Rightarrow> ''         -inf'')"

definition order_key :: "aggr_class \<Rightarrow> json \<Rightarrow> string option" where
  "order_key cl v = Option.bind (lexical_of v) (\<lambda>s.
     if cl = Instant then Some (dt_key s) else if cl = TimeOfDay then map_option fixed6 (seconds_of_day s) else Some s)"

definition raw_of :: "json \<Rightarrow> json option" where
  "raw_of inst = (case List.map_filter (jget inst) [''value'', ''object'', ''valueList'', ''objectList'', ''vocab'', ''languageMap'', ''json''] of
     [] \<Rightarrow> None | v # _ \<Rightarrow> Some v)"

definition numeric_of :: "aggr_class \<Rightarrow> json \<Rightarrow> f64 option" where
  "numeric_of cl v = (case cl of
     Number \<Rightarrow> (case v of JBool b \<Rightarrow> Some (Fin (if b then 1 else 0)) | _ \<Rightarrow> as_f64 v)
   | ListClass \<Rightarrow> map_option (\<lambda>xs. f64_of_int (int (length xs))) (as_array v)
   | TimeOfDay \<Rightarrow> Option.bind (lexical_of v) seconds_of_day
   | _ \<Rightarrow> None)"

definition clock_time :: "f64 \<Rightarrow> string" where
  "clock_time mean = (let u32 = (\<lambda>f. nat (cast_int 0 (2 ^ 32 - 1) f));
       rest = (\<lambda>b. case mean of Fin q \<Rightarrow> Fin (q - of_int (truncated (q / b)) * b) | x \<Rightarrow> x);
       two = (\<lambda>n. pad_left 2 (decimal n))
     in two (u32 (f64_over mean 3600)) @ '':'' @ two (u32 (f64_over (rest 3600) 60)) @ '':'' @ two (u32 (rest 60)) @ ''Z'')"

definition distinct_items :: "aggr_class \<Rightarrow> json list \<Rightarrow> json list" where
  "distinct_items cl vs = concat (map (\<lambda>v. case (cl, v) of (RelationshipClass, JArr a) \<Rightarrow> a | _ \<Rightarrow> [v]) vs)"

definition ordered_pick :: "bool \<Rightarrow> aggr_class \<Rightarrow> json list \<Rightarrow> json" where
  "ordered_pick least cl vs = (let ks = sort_key fst (List.map_filter (\<lambda>v. map_option (\<lambda>k. (k, v)) (order_key cl v)) vs) in
     if ks = [] then JNull else snd (if least then hd ks else last ks))"

definition numeric_pick :: "bool \<Rightarrow> f64 list \<Rightarrow> json" where
  "numeric_pick least xs = (case xs of [] \<Rightarrow> JNull | x # xs \<Rightarrow> finite_json (fold (\<lambda>y m. if least then min m y else max m y) xs x))"

definition mean_of :: "f64 list \<Rightarrow> f64" where
  "mean_of xs = f64_over (f64_sum xs) (length xs)"

definition aggregate_bucket :: "lib \<Rightarrow> string \<Rightarrow> aggr_class \<Rightarrow> json list \<Rightarrow> json" where
  "aggregate_bucket L m cl vs = (let nums = List.map_filter (numeric_of cl) vs in
     if m = ''totalCount'' then jint (int (length vs))
     else if m = ''distinctCount'' then jint (int (length (remdups (map (to_json L) (distinct_items cl vs)))))
     else if m = ''min'' \<or> m = ''max'' then
       (if cl \<in> {TextClass, Instant, TimeOfDay} then ordered_pick (m = ''min'') cl vs else numeric_pick (m = ''min'') nums)
     else if m = ''sum'' then finite_json (f64_sum nums)
     else if m = ''avg'' then
       (if nums = [] then JNull
        else if cl = TimeOfDay then mkobj [(''@type'', JStr ''Time''), (''@value'', JStr (clock_time (mean_of nums)))]
        else finite_json (mean_of nums))
     else if m = ''stddev'' then
       (if nums = [] then JNull
        else finite_json (f64_sqrt (f64_over (f64_sum (map (\<lambda>v. f64_square (f64_add v (f64_neg (mean_of nums)))) nums)) (length nums))))
     else if m = ''sumsq'' then finite_json (f64_sum (map (\<lambda>v. f64_square v) nums))
     else JNull)"

end
