(* ===== verification/HistorySpec.thy ===== *)
theory HistorySpec
  imports History BatchSpec
begin

text \<open>
  What the recording of history promises: draining the events of a request only grows the evolutions, in place and by
  identity, touches no other document, and afterwards every instance a change made new or different can be found in the
  evolution of its entity.
\<close>

subsection \<open>Lists and documents\<close>

lemma position_of_None: "position_of P xs = None \<longleftrightarrow> (\<forall>x\<in>set xs. \<not> P x)"
  by (induction xs) auto

lemma position_of_Some: "position_of P xs = Some p \<Longrightarrow> p < length xs \<and> P (xs ! p)"
  by (induction xs arbitrary: p) (auto split: if_splits)

definition history_of :: "json \<Rightarrow> string \<Rightarrow> json list" where
  "history_of doc k = array_or_empty (jget doc k)"

definition hist :: "string \<Rightarrow> string \<Rightarrow> string \<Rightarrow> store \<Rightarrow> json list" where
  "hist t i k st = (case get t Temporal i st of Some d \<Rightarrow> history_of d k | None \<Rightarrow> [])"

subsection \<open>Evolutions in the store\<close>

lemma get_cong: "st_inner st = st_inner st' \<Longrightarrow> get t k i st = get t k i st'"
  by (simp add: get_def)

lemma get_emit_if [simp]: "get t k i (emit_if b u x y st) = get t k i st"
  by (rule get_cong) (simp add: emit_if_def emit_def)

lemma get_put [simp]: "get t k i (st\<lparr>st_inner := put_doc k' t' i' j inn\<rparr>) =
    (if k = k' \<and> t = t' \<and> i = i' then Some j else doc_at inn k t i)"
  by (simp add: get_def doc_at_put)

lemma get_persist [simp]: "get t k i (persist C tb key v st) = get t k i st"
  by (rule get_cong) simp

lemma temporal_created:
  "create E C now t Temporal i j st = (True, st') \<Longrightarrow> get t Temporal i st = None \<and> get t Temporal i st' = Some j"
  "create E C now t Temporal i j st = (False, st') \<Longrightarrow> st' = st"
  by (auto simp: create_def is_expired_def get_def [of _ _ _ st] split: if_splits)

lemma temporal_mutated:
  "mutate E C now t Temporal i f st = (Some (Ok x), st') \<Longrightarrow>
     \<exists>old new. get t Temporal i st = Some old \<and> f old = Ok (x, new) \<and> get t Temporal i st' = Some new"
  "mutate E C now t Temporal i f st = (None, st') \<Longrightarrow> st' = st \<and> get t Temporal i st = None"
  "mutate E C now t Temporal i f st = (Some (Err e), st') \<Longrightarrow> st' = st \<and> (\<exists>old. get t Temporal i st = Some old \<and> f old = Err e)"
  by (auto simp: mutate_def get_def [of _ _ _ st] is_expired_def Let_def split: option.splits sum.splits prod.splits)

lemma temporal_untouched:
  "(t', k', i') \<noteq> (t, Temporal, i) \<Longrightarrow> get t' k' i' (snd (mutate E C now t Temporal i f st)) = get t' k' i' st"
  "(t', k', i') \<noteq> (t, Temporal, i) \<Longrightarrow> get t' k' i' (snd (create E C now t Temporal i j st)) = get t' k' i' st"
  by (auto simp: mutate_def create_def get_def is_expired_def Let_def doc_at_put split: option.splits sum.splits prod.splits)

subsection \<open>Recording\<close>

definition same_id :: "json \<Rightarrow> json \<Rightarrow> bool" where
  "same_id x y \<longleftrightarrow> jget x ''instanceId'' = jget y ''instanceId''"

text \<open>
  A history that grew by some instances: what was there keeps its place and its identity, an instance none of the new
  ones identifies itself with stays as it was, and of the new instances the last one of each identity is there.
\<close>

definition recorded :: "json list \<Rightarrow> json list \<Rightarrow> json list \<Rightarrow> bool" where
  "recorded insts cur new \<longleftrightarrow>
     length cur \<le> length new \<and> (\<forall>p<length cur. same_id (new ! p) (cur ! p)) \<and>
     (\<forall>x\<in>set cur. (\<forall>y\<in>set insts. \<not> same_id y x) \<longrightarrow> x \<in> set new) \<and>
     (\<forall>as x bs. insts = as @ x # bs \<longrightarrow> (\<forall>y\<in>set bs. \<not> same_id y x) \<longrightarrow> x \<in> set new)"

lemma recorded_Nil [simp]: "recorded [] cur cur"
  by (simp add: recorded_def same_id_def)

lemma recorded_start: "recorded insts [] insts"
  by (simp add: recorded_def)

lemma recorded_append:
  assumes "recorded xs cur mid" "recorded ys mid new"
  shows "recorded (xs @ ys) cur new"
proof -
  have len: "length cur \<le> length mid" "length mid \<le> length new" using assms by (simp_all add: recorded_def)
  have "same_id (new ! p) (cur ! p)" if "p < length cur" for p
  proof -
    have "same_id (mid ! p) (cur ! p)" "same_id (new ! p) (mid ! p)" using assms that len(1) by (auto simp: recorded_def)
    then show ?thesis by (simp add: same_id_def)
  qed
  moreover have "x \<in> set new" if "x \<in> set cur" "\<forall>y\<in>set (xs @ ys). \<not> same_id y x" for x
  proof -
    have "x \<in> set mid" using assms(1) that by (auto simp: recorded_def)
    then show ?thesis using assms(2) that by (auto simp: recorded_def)
  qed
  moreover have "x \<in> set new" if "xs @ ys = as @ x # bs" "\<forall>y\<in>set bs. \<not> same_id y x" for as x bs
  proof -
    consider us where "xs = as @ x # us" "bs = us @ ys" | us where "ys = us @ x # bs"
      using \<open>xs @ ys = as @ x # bs\<close> by (auto simp: append_eq_append_conv2 append_eq_Cons_conv Cons_eq_append_conv)
    then show ?thesis
    proof cases
      case 1
      then have "x \<in> set mid" using assms(1) that(2) by (auto simp: recorded_def)
      then show ?thesis using assms(2) 1(2) that(2) by (auto simp: recorded_def)
    next
      case 2
      then show ?thesis using assms(2) that(2) by (auto simp: recorded_def)
    qed
  qed
  ultimately show ?thesis using len unfolding recorded_def by (meson order_trans)
qed

lemma append_by_id_recorded: "recorded [inst] cur (append_by_id inst cur)"
proof -
  let ?P = "\<lambda>c. jget c ''instanceId'' = jget inst ''instanceId''"
  have one: "as @ x # bs = [inst] \<longleftrightarrow> as = [] \<and> x = inst \<and> bs = []" for as x bs by (cases as) auto
  show ?thesis
  proof (cases "position_of ?P cur")
    case None
    then show ?thesis by (auto simp: append_by_id_def recorded_def same_id_def nth_append one eq_commute [of "[inst]"])
  next
    case (Some p)
    note p = position_of_Some [OF Some]
    have keep: "x \<in> set (cur[p := inst])" if "x \<in> set cur" "\<not> same_id inst x" for x
    proof -
      obtain q where q: "q < length cur" "x = cur ! q" using \<open>x \<in> set cur\<close> by (auto simp: in_set_conv_nth)
      then have "q \<noteq> p" using p that(2) by (auto simp: same_id_def)
      then have "cur[p := inst] ! q = x" "q < length (cur[p := inst])" using q by simp_all
      then show ?thesis by (metis nth_mem)
    qed
    show ?thesis using p keep
      by (auto simp: append_by_id_def Some recorded_def one eq_commute [of "[inst]"] nth_list_update set_update_memI)
        (simp_all add: same_id_def)
  qed
qed

lemma fold_by_id_recorded: "recorded insts cur (fold append_by_id insts cur)"
proof (induction insts arbitrary: cur)
  case (Cons x xs)
  show ?case using recorded_append [OF append_by_id_recorded Cons.IH, of x cur] by simp
qed simp

lemma keywise_history: "keywise append_attr_history"
  by (auto simp: keywise_def append_attr_history_def)

lemma append_attr_recorded:
  "recorded (array_or_empty (Some v)) (array_or_empty (bm_get t k)) (array_or_empty (bm_get (append_attr_history (k, v) t) k))"
  by (auto simp: append_attr_history_def array_or_empty_def recorded_start fold_by_id_recorded split: option.split json.split)

lemma append_doc_recorded:
  assumes "append_doc m doc = Ok (u, new)" "distinct (map fst m)"
  shows "is_object new" "recorded (array_or_empty (bm_get m k)) (history_of doc k) (history_of new k)"
proof -
  obtain t where t: "doc = JObj t" "new = JObj (fold append_attr_history m t)"
    using assms(1) by (cases doc) (auto simp: append_doc_def)
  then show "is_object new" by simp
  show "recorded (array_or_empty (bm_get m k)) (history_of doc k) (history_of new k)"
    using t keywise_fold [OF keywise_history assms(2), of t k] append_attr_recorded [of "the (bm_get m k)" t k]
    by (cases "map_of m k") (simp_all add: history_of_def bm_get_def [of m] array_or_empty_def)
qed

text \<open>Every stored evolution is an object.\<close>

definition evolutions_ok :: "store \<Rightarrow> bool" where
  "evolutions_ok st \<longleftrightarrow> (\<forall>t i d. get t Temporal i st = Some d \<longrightarrow> is_object d)"

lemma evolutions_okD: "evolutions_ok st \<Longrightarrow> get t Temporal i st = Some d \<Longrightarrow> \<exists>m. d = JObj m"
  unfolding evolutions_ok_def by (cases d) fastforce+

definition for_attr :: "string \<Rightarrow> temporal_event \<Rightarrow> bool" where
  "for_attr k ev \<longleftrightarrow> te_op ev \<noteq> ScopeChanged \<and> te_attr ev = k"

definition insts_for :: "string \<Rightarrow> temporal_event list \<Rightarrow> json list" where
  "insts_for k evs = map te_instance (filter (for_attr k) evs)"

lemma insts_for_Nil [simp]: "insts_for k [] = []"
  and insts_for_Cons: "insts_for k (ev # evs) = (if for_attr k ev then [te_instance ev] else []) @ insts_for k evs"
  by (simp_all add: insts_for_def)

lemma scope_mutate:
  assumes "evolutions_ok st" "k \<noteq> ''scope''"
  shows "evolutions_ok (snd (mutate E C now t Temporal i (scope_doc x) st))"
    "hist t' i' k (snd (mutate E C now t Temporal i (scope_doc x) st)) = hist t' i' k st"
    "k' \<noteq> Temporal \<Longrightarrow> get t' k' i' (snd (mutate E C now t Temporal i (scope_doc x) st)) = get t' k' i' st"
proof -
  let ?r = "mutate E C now t Temporal i (scope_doc x) st"
  have scope: "bm_get (add_scope y m) k = bm_get m k" for y m
    using assms(2) by (auto simp: add_scope_def split: option.split list.split json.split)
  have at: "get t Temporal i (snd ?r) = (case get t Temporal i st of None \<Rightarrow> None | Some d \<Rightarrow>
      (case scope_doc x d of Ok (_, n) \<Rightarrow> Some n | Err _ \<Rightarrow> Some d))"
    by (auto simp: mutate_def is_expired_def get_def [of _ _ _ st] Let_def split: option.split sum.split prod.split)
  show "k' \<noteq> Temporal \<Longrightarrow> get t' k' i' (snd ?r) = get t' k' i' st"
    by (rule temporal_untouched) simp
  show "evolutions_ok (snd ?r)"
    unfolding evolutions_ok_def
  proof (intro allI impI)
    fix t' i' d
    assume g: "get t' Temporal i' (snd ?r) = Some d"
    show "is_object d"
    proof (cases "t' = t \<and> i' = i")
      case True
      then show ?thesis using g at
        by (auto simp: scope_doc_def split: option.splits json.splits dest: evolutions_okD [OF assms(1)])
    next
      case False
      then show ?thesis using g assms(1) temporal_untouched(1) [of t' Temporal i' t i E C now "scope_doc x" st] by (auto simp: evolutions_ok_def)
    qed
  qed
  show "hist t' i' k (snd ?r) = hist t' i' k st"
  proof (cases "t' = t \<and> i' = i")
    case True
    then show ?thesis using at by (auto simp: hist_def scope_doc_def history_of_def scope split: option.split json.split)
  next
    case False
    then show ?thesis using temporal_untouched(1) [of t' Temporal i' t i E C now "scope_doc x" st] by (auto simp: hist_def)
  qed
qed

lemma event_step_scope: "te_op ev = ScopeChanged \<Longrightarrow> event_step N ev (m, st) =
    (m, snd (mutate (nd_ext N) (nd_codec N) (nd_now N) (te_tenant ev) Temporal (te_entity ev) (scope_doc (te_instance ev)) st))"
  and event_step_attr: "te_op ev \<noteq> ScopeChanged \<Longrightarrow> event_step N ev (m, st) =
    (bm_insert (te_attr ev) (JArr (array_or_empty (bm_get m (te_attr ev)) @ [te_instance ev])) m, st)"
  by (simp_all add: event_step_def)

lemma event_fold:
  assumes "evolutions_ok st" "k \<noteq> ''scope''" "bm_ok m" "fold (event_step N) evs (m, st) = (m', st')"
  shows "evolutions_ok st' \<and> hist t i k st' = hist t i k st \<and> (\<forall>k'. k' \<noteq> Temporal \<longrightarrow> (\<forall>t i. get t k' i st' = get t k' i st)) \<and>
    bm_ok m' \<and> array_or_empty (bm_get m' k) = array_or_empty (bm_get m k) @ insts_for k evs"
  using assms(1,3,4)
proof (induction evs arbitrary: m st)
  case (Cons ev evs)
  show ?case
  proof (cases "te_op ev = ScopeChanged")
    case True
    let ?st = "snd (mutate (nd_ext N) (nd_codec N) (nd_now N) (te_tenant ev) Temporal (te_entity ev) (scope_doc (te_instance ev)) st)"
    have "fold (event_step N) evs (m, ?st) = (m', st')" using Cons.prems(3) by (simp only: fold_simps event_step_scope [OF True])
    note ih = Cons.IH [OF scope_mutate(1) [OF Cons.prems(1) assms(2)] Cons.prems(2) this]
    then show ?thesis using True scope_mutate(2,3) [OF Cons.prems(1) assms(2)]
      by (simp add: insts_for_Cons for_attr_def)
  next
    case False
    let ?m = "bm_insert (te_attr ev) (JArr (array_or_empty (bm_get m (te_attr ev)) @ [te_instance ev])) m"
    have "fold (event_step N) evs (?m, st) = (m', st')" using Cons.prems(3) by (simp only: fold_simps event_step_attr [OF False])
    note ih = Cons.IH [OF Cons.prems(1) bm_insert_ok [OF Cons.prems(2)] this]
    then show ?thesis using False by (auto simp: insts_for_Cons for_attr_def array_or_empty_def)
  qed
qed simp

definition recordable :: "history \<Rightarrow> string \<Rightarrow> string \<Rightarrow> store \<Rightarrow> bool" where
  "recordable H t i st \<longleftrightarrow> hi_temporal_only H \<or> get t Entity i st \<noteq> None"

lemma temporal_append_recorded:
  assumes "evolutions_ok st" "bm_ok m" "recordable H t i st" "is_object shell" "jget shell k = None"
  shows "evolutions_ok (temporal_append N H t i shell m st)"
    "recorded (array_or_empty (bm_get m k)) (hist t i k st) (hist t i k (temporal_append N H t i shell m st))"
    "(t', i') \<noteq> (t, i) \<Longrightarrow> hist t' i' k (temporal_append N H t i shell m st) = hist t' i' k st"
    "k' \<noteq> Temporal \<Longrightarrow> get t' k' i' (temporal_append N H t i shell m st) = get t' k' i' st"
proof -
  define st1 where "st1 = (if get t Temporal i st = None then snd (create (nd_ext N) (nd_codec N) (nd_now N) t Temporal i shell st) else st)"
  let ?f = "append_doc m" and ?M = "mutate (nd_ext N) (nd_codec N) (nd_now N) t Temporal i (append_doc m) st1"
  have new: "temporal_append N H t i shell m st = snd ?M"
    using assms(3) by (auto simp: temporal_append_def recordable_def st1_def Let_def)
  have same: "get t' k' i' st1 = get t' k' i' st" if "(t', k', i') \<noteq> (t, Temporal, i)" for t' k' i'
    using temporal_untouched(2) [OF that] by (simp add: st1_def)
  have at1: "\<exists>d. get t Temporal i st1 = Some (JObj d) \<and> history_of (JObj d) k = hist t i k st"
  proof (cases "get t Temporal i st")
    case None
    let ?C = "create (nd_ext N) (nd_codec N) (nd_now N) t Temporal i shell st"
    have "fst ?C" using None by (simp add: create_def get_def)
    then have "?C = (True, st1)" using None by (simp add: st1_def prod_eq_iff)
    from temporal_created(1) [OF this] have "get t Temporal i st1 = Some shell" by blast
    then show ?thesis using assms(4,5) None by (cases shell) (auto simp: hist_def history_of_def array_or_empty_def)
  next
    case (Some d)
    then show ?thesis using evolutions_okD [OF assms(1) Some] by (auto simp: st1_def hist_def)
  qed
  then obtain d where d: "get t Temporal i st1 = Some (JObj d)" "history_of (JObj d) k = hist t i k st" by blast
  then obtain n where n: "append_doc m (JObj d) = Ok ((), n)" by (simp add: append_doc_def)
  have "fst ?M = Some (Ok ())" using d n by (simp add: mutate_def is_expired_def get_def Let_def)
  then have "?M = (Some (Ok ()), snd ?M)" by (simp add: prod_eq_iff)
  from temporal_mutated(1) [OF this] have g: "get t Temporal i (snd ?M) = Some n" using d n by auto
  note r = append_doc_recorded [OF n bm_distinct [OF assms(2)]]
  have rest: "get t' k' i' (snd ?M) = get t' k' i' st" if "(t', k', i') \<noteq> (t, Temporal, i)" for t' k' i'
    by (simp only: temporal_untouched(1) [OF that] same [OF that])
  show "recorded (array_or_empty (bm_get m k)) (hist t i k st) (hist t i k (temporal_append N H t i shell m st))"
    using g r(2) [of k] d(2) by (simp add: new hist_def)
  show "(t', i') \<noteq> (t, i) \<Longrightarrow> hist t' i' k (temporal_append N H t i shell m st) = hist t' i' k st"
    using rest [of t' Temporal i'] by (simp add: new hist_def)
  show "k' \<noteq> Temporal \<Longrightarrow> get t' k' i' (temporal_append N H t i shell m st) = get t' k' i' st"
    using rest [of t' k' i'] by (simp add: new)
  show "evolutions_ok (temporal_append N H t i shell m st)"
    unfolding evolutions_ok_def new
  proof (intro allI impI)
    fix t' i' e
    assume e: "get t' Temporal i' (snd ?M) = Some e"
    show "is_object e"
    proof (cases "(t', i') = (t, i)")
      case True
      then show ?thesis using e g r(1) by simp
    next
      case False
      then show ?thesis using e rest [of t' Temporal i'] assms(1) by (auto simp: evolutions_ok_def)
    qed
  qed
qed

text \<open>The instances a list of events records for one attribute of one entity.\<close>

definition instances_of :: "string \<Rightarrow> string \<Rightarrow> string \<Rightarrow> temporal_event list \<Rightarrow> json list" where
  "instances_of t i k evs = insts_for k (filter (\<lambda>ev. te_tenant ev = t \<and> te_entity ev = i) evs)"

lemma instances_of_append [simp]: "instances_of t i k (xs @ ys) = instances_of t i k xs @ instances_of t i k ys"
  by (simp add: instances_of_def insts_for_def)

lemma instances_of_run:
  assumes "\<forall>ev\<in>set run. te_tenant ev = t' \<and> te_entity ev = i'"
  shows "instances_of t i k run = (if t = t' \<and> i = i' then insts_for k run else [])"
  using assms by (induction run) (auto simp: instances_of_def insts_for_def)

definition shells_ok :: "string \<Rightarrow> temporal_event list \<Rightarrow> bool" where
  "shells_ok k evs \<longleftrightarrow> (\<forall>ev\<in>set evs. is_object (te_shell ev) \<and> jget (te_shell ev) k = None)"

lemma event_run_recorded:
  assumes "evolutions_ok st" "k \<noteq> ''scope''" "run \<noteq> []" "\<forall>ev\<in>set run. te_tenant ev = t' \<and> te_entity ev = i'"
    and "shells_ok k run" "recordable H t' i' st"
  shows "evolutions_ok (event_run N H run st)"
    "recorded (instances_of t i k run) (hist t i k st) (hist t i k (event_run N H run st))"
    "k' \<noteq> Temporal \<Longrightarrow> get t k' i (event_run N H run st) = get t k' i st"
proof -
  obtain m st1 where f: "fold (event_step N) run ([], st) = (m, st1)" by (rule prod.exhaust)
  note e = event_fold [OF assms(1,2) bm_ok_Nil f]
  have last: "te_tenant (last run) = t'" "te_entity (last run) = i'" "is_object (te_shell (last run))" "jget (te_shell (last run)) k = None"
    using assms(3-5) last_in_set [OF assms(3)] by (auto simp: shells_ok_def)
  have r: "event_run N H run st = (if m = [] then st1 else temporal_append N H t' i' (te_shell (last run)) m st1)"
    using f last by (simp add: event_run_def)
  have rec: "recordable H t' i' st1" using assms(6) e by (simp add: recordable_def)
  have ok: "evolutions_ok st1" "bm_ok m" using e by blast+
  have ins: "array_or_empty (bm_get m k) = insts_for k run" using e by (simp add: array_or_empty_def)
  note ta = temporal_append_recorded [OF ok rec last(3,4), where N = N]
  show "evolutions_ok (event_run N H run st)" using r ok ta(1) by simp
  show "k' \<noteq> Temporal \<Longrightarrow> get t k' i (event_run N H run st) = get t k' i st" using r ta(4) e by simp
  have "insts_for k run = []" if "m = []" using ins that by (simp add: array_or_empty_def)
  then show "recorded (instances_of t i k run) (hist t i k st) (hist t i k (event_run N H run st))"
    using r ta(2) ta(3) [of t i] e ins by (auto simp: instances_of_run [OF assms(4)])
qed

lemma event_list_recorded:
  assumes "evolutions_ok st" "k \<noteq> ''scope''" "shells_ok k evs" "\<forall>ev\<in>set evs. recordable H (te_tenant ev) (te_entity ev) st"
  shows "evolutions_ok (event_list N H evs st) \<and>
    recorded (instances_of t i k evs) (hist t i k st) (hist t i k (event_list N H evs st)) \<and>
    (\<forall>k'. k' \<noteq> Temporal \<longrightarrow> (\<forall>t i. get t k' i (event_list N H evs st) = get t k' i st))"
  using assms(1,3,4)
proof (induction N H evs st rule: event_list.induct)
  case (2 N H ev evs st)
  let ?run = "ev # takeWhile (same_entity ev) evs" and ?rest = "dropWhile (same_entity ev) evs"
  have split: "ev # evs = ?run @ ?rest" by simp
  have sub: "set ?run \<subseteq> set (ev # evs)" "set ?rest \<subseteq> set (ev # evs)" by (auto dest: set_takeWhileD set_dropWhileD)
  have run: "\<forall>e\<in>set ?run. te_tenant e = te_tenant ev \<and> te_entity e = te_entity ev"
    by (auto dest: set_takeWhileD simp: same_entity_def)
  have shells: "shells_ok k ?run" "shells_ok k ?rest" using "2.prems"(2) sub unfolding shells_ok_def by blast+
  have rec: "recordable H (te_tenant ev) (te_entity ev) st" using "2.prems"(3) by simp
  note r = event_run_recorded [OF "2.prems"(1) assms(2) _ run shells(1) rec, where N = N, simplified]
  have rest: "\<forall>e\<in>set ?rest. recordable H (te_tenant e) (te_entity e) (event_run N H ?run st)"
  proof
    fix e
    assume "e \<in> set ?rest"
    then have "recordable H (te_tenant e) (te_entity e) st" using "2.prems"(3) sub(2) by blast
    then show "recordable H (te_tenant e) (te_entity e) (event_run N H ?run st)"
      by (simp only: recordable_def r(3) [of Entity, simplified])
  qed
  note ih = "2.IH" [OF r(1) shells(2) rest]
  have eq: "event_list N H (ev # evs) st = event_list N H ?rest (event_run N H ?run st)" by (rule event_list.simps(2))
  have ins: "instances_of t i k (ev # evs) = instances_of t i k ?run @ instances_of t i k ?rest"
    by (subst split) (rule instances_of_append)
  have whole: "recorded (instances_of t i k (ev # evs)) (hist t i k st) (hist t i k (event_list N H (ev # evs) st))"
    unfolding ins eq by (rule recorded_append [OF r(2) conjunct1 [OF conjunct2 [OF ih]]])
  have others: "get t k' i (event_list N H ?rest (event_run N H ?run st)) = get t k' i st" if "k' \<noteq> Temporal" for t k' i
    by (rule trans [OF conjunct2 [OF conjunct2 [OF ih], rule_format, OF that] r(3) [OF that]])
  show ?case
    unfolding eq by (intro conjI allI impI conjunct1 [OF ih] whole [unfolded eq] others)
qed (simp add: instances_of_def)

theorem drain_recorded:
  assumes "evolutions_ok st" "\<not> is_meta k" "shells_ok k evs" "\<forall>ev\<in>set evs. recordable H (te_tenant ev) (te_entity ev) st"
  shows "recorded (instances_of t i k (filter (admitted H) evs)) (hist t i k st) (hist t i k (drain N H evs st))"
    "evolutions_ok (drain N H evs st)" "k' \<noteq> Temporal \<Longrightarrow> get t k' i (drain N H evs st) = get t k' i st"
proof -
  have k: "k \<noteq> ''scope''" using assms(2) by (auto simp: is_meta_def ENTITY_META_KEYS_def)
  have sub: "shells_ok k (filter (admitted H) evs)" "\<forall>ev\<in>set (filter (admitted H) evs). recordable H (te_tenant ev) (te_entity ev) st"
    using assms(3,4) by (auto simp: shells_ok_def)
  note l = event_list_recorded [OF assms(1) k sub, where N = N]
  show "recorded (instances_of t i k (filter (admitted H) evs)) (hist t i k st) (hist t i k (drain N H evs st))"
    using l by (auto simp: drain_def Let_def instances_of_def)
  show "evolutions_ok (drain N H evs st)" using l assms(1) by (auto simp: drain_def Let_def)
  show "k' \<noteq> Temporal \<Longrightarrow> get t k' i (drain N H evs st) = get t k' i st" using l by (auto simp: drain_def Let_def)
qed

text \<open>So every instance that was to be recorded can be found by its identity.\<close>

lemma last_with:
  "x \<in> set xs \<Longrightarrow> \<exists>as y bs. xs = as @ y # bs \<and> same_id y x \<and> (\<forall>z\<in>set bs. \<not> same_id z y)"
proof (induction xs)
  case (Cons a xs)
  show ?case
  proof (cases "\<exists>z\<in>set xs. same_id z x")
    case True
    then obtain z where z: "z \<in> set xs" "same_id z x" by blast
    have "\<exists>v\<in>set xs. same_id v z" using z(1) by (auto simp: same_id_def)
    from split_list_last_prop [OF this] obtain as y bs where
      "xs = as @ y # bs" "same_id y z" "\<forall>v\<in>set bs. \<not> same_id v y" by (auto simp: same_id_def)
    then have "a # xs = (a # as) @ y # bs \<and> same_id y x \<and> (\<forall>v\<in>set bs. \<not> same_id v y)" using z(2) by (simp add: same_id_def)
    then show ?thesis by blast
  next
    case False
    then have "x = a" using Cons.prems by (auto simp: same_id_def)
    then have "a # xs = [] @ a # xs \<and> same_id a x \<and> (\<forall>z\<in>set xs. \<not> same_id z a)" using False by (simp add: same_id_def)
    then show ?thesis by blast
  qed
qed simp

lemma recorded_found: "recorded insts cur new \<Longrightarrow> x \<in> set insts \<Longrightarrow> \<exists>y\<in>set new. same_id y x"
proof -
  assume r: "recorded insts cur new" and x: "x \<in> set insts"
  obtain as y bs where y: "insts = as @ y # bs" "same_id y x" "\<forall>z\<in>set bs. \<not> same_id z y" using last_with [OF x] by blast
  have "y \<in> set new" using r y(1,3) unfolding recorded_def by blast
  then show ?thesis using y(2) by blast
qed

lemma shell_get: "bm_get (fold (\<lambda>k m. case jget doc k of Some v \<Rightarrow> bm_insert k v m | None \<Rightarrow> m) ks m) j =
    (if j \<in> set ks \<and> jget doc j \<noteq> None then jget doc j else bm_get m j)"
  by (induction ks arbitrary: m) (auto split: option.split)

lemma shell_of_ok: "is_object (shell_of doc)" "\<not> is_meta k \<Longrightarrow> jget (shell_of doc) k = None"
proof -
  show "is_object (shell_of doc)" unfolding shell_of_def by simp
  assume "\<not> is_meta k"
  then have "k \<notin> set [''id'', ''type'', ''createdAt'', ''modifiedAt'', ''scope'']" by (auto simp: is_meta_def ENTITY_META_KEYS_def)
  then show "jget (shell_of doc) k = None" unfolding shell_of_def jget.simps shell_get by simp
qed

lemma entity_event_fields [simp]:
  "te_op (entity_event oper t i a k x) = oper" "te_tenant (entity_event oper t i a k x) = t" "te_entity (entity_event oper t i a k x) = i"
  "te_shell (entity_event oper t i a k x) = shell_of a" "te_attr (entity_event oper t i a k x) = k" "te_instance (entity_event oper t i a k x) = x"
  by (simp_all add: entity_event_def)

lemma attr_events_fields: "ev \<in> set (attr_events H t i before a e) \<Longrightarrow> te_tenant ev = t \<and> te_entity ev = i \<and> te_shell ev = shell_of a"
  by (auto simp: attr_events_def split: prod.splits option.splits if_splits)

lemma scope_events_fields: "ev \<in> set (scope_events H now t i before a) \<Longrightarrow> te_tenant ev = t \<and> te_entity ev = i \<and> te_shell ev = shell_of a"
  by (auto simp: scope_events_def split: prod.splits option.splits if_splits)

lemma change_events_fields:
  assumes "ev \<in> set (change_events H now t before after)"
  shows "\<exists>a i. after = Some a \<and> inst_str a ''id'' = Some i \<and> te_tenant ev = t \<and> te_entity ev = i \<and> te_shell ev = shell_of a"
proof -
  obtain a i where a: "after = Some a" "inst_str a ''id'' = Some i"
    using assms by (cases after; cases "inst_str (the after) ''id''") (auto simp: change_events_def)
  then have "ev \<in> set (scope_events H now t i before a) \<union> (\<Union>e\<in>set (diff before after). set (attr_events H t i before a e))"
    using assms by (simp add: change_events_def split: if_splits)
  then show ?thesis using a attr_events_fields scope_events_fields by (elim UnE UN_E) blast+
qed

lemma change_events_attr:
  assumes "hi_supported H" "inst_str a ''id'' = Some i" "(k, cls) \<in> set (diff before (Some a))" "cls \<noteq> Deleted" "jget a k = Some av"
    and "(n, inst) \<in> set (List.enumerate 0 (changed_instances (Option.bind before (\<lambda>b. jget b k)) av))"
  shows "with_instance_id H i k n inst \<in> set (instances_of t i k (change_events H now t before (Some a)))"
proof -
  let ?ev = "entity_event (if cls = Created then AttrCreated else AttrModified) t i a k (with_instance_id H i k n inst)"
  have "?ev \<in> (\<lambda>(n, inst). entity_event (if cls = Created then AttrCreated else AttrModified) t i a k (with_instance_id H i k n inst))
      ` set (List.enumerate 0 (changed_instances (Option.bind before (\<lambda>b. jget b k)) av))"
    by (rule image_eqI [OF _ assms(6)]) simp
  then have "?ev \<in> set (attr_events H t i before a (k, cls))"
    using assms(4,5) by (simp only: attr_events_def prod.case option.case if_False set_map)
  then have "?ev \<in> (\<Union>e\<in>set (diff before (Some a)). set (attr_events H t i before a e))" by (rule UN_I [OF assms(3)])
  then have "?ev \<in> set (change_events H now t before (Some a))"
    using assms(1,2) by (simp add: change_events_def)
  then have "?ev \<in> set (filter (for_attr k) (filter (\<lambda>ev. te_tenant ev = t \<and> te_entity ev = i) (change_events H now t before (Some a))))"
    by (simp add: for_attr_def)
  then have "te_instance ?ev \<in> set (instances_of t i k (change_events H now t before (Some a)))"
    unfolding instances_of_def insts_for_def set_map by (rule imageI)
  then show ?thesis by simp
qed

lemma change_grows:
  assumes "evolutions_ok st" "hi_supported H" "hi_mode H = RecAll" "inst_str a ''id'' = Some i" "recordable H t i st"
    and "(k, cls) \<in> set (diff before (Some a))"
  shows "recorded (instances_of t i k (change_events H now t before (Some a))) (hist t i k st)
    (hist t i k (drain N H (change_events H now t before (Some a)) st))"
proof -
  let ?evs = "change_events H now t before (Some a)"
  have fields: "te_tenant ev = t \<and> te_entity ev = i \<and> te_shell ev = shell_of a" if "ev \<in> set ?evs" for ev
    using change_events_fields [OF that] assms(4) by auto
  have "k \<notin> set ENTITY_META_KEYS" using assms(6) by (simp add: diff_set)
  then have k: "\<not> is_meta k" by (simp add: is_meta_def)
  have "shells_ok k ?evs" using fields shell_of_ok k by (auto simp: shells_ok_def)
  moreover have "\<forall>ev\<in>set ?evs. recordable H (te_tenant ev) (te_entity ev) st" using fields assms(5) by auto
  moreover have "filter (admitted H) ?evs = ?evs" using assms(3) by (simp add: admitted_def)
  ultimately show ?thesis using drain_recorded(1) [OF assms(1) k, of ?evs H t i N] by simp
qed

theorem change_recorded:
  assumes "evolutions_ok st" "hi_supported H" "hi_mode H = RecAll" "inst_str a ''id'' = Some i" "recordable H t i st"
    and "(k, cls) \<in> set (diff before (Some a))" "cls \<noteq> Deleted" "jget a k = Some av"
    and "(n, inst) \<in> set (List.enumerate 0 (changed_instances (Option.bind before (\<lambda>b. jget b k)) av))"
  shows "\<exists>x\<in>set (hist t i k (drain N H (change_events H now t before (Some a)) st)). same_id x (with_instance_id H i k n inst)"
  by (rule recorded_found [OF change_grows [OF assms(1-6)]]) (rule change_events_attr [OF assms(2,4,6-9)])

subsection \<open>Deletions\<close>

text \<open>A deletion is marked, and answered as one, whenever the attribute has a history: deleted before, or never of that dataset.\<close>

lemma deletion_is_always_marked:
  assumes "bm_get t k = Some (JArr (x # xs))" "k \<noteq> ''scope''"
  shows "\<exists>mark. mark_deleted H k ds ts (JObj t) = Ok (True, JObj (bm_insert k (JArr (x # xs @ [mark])) t))"
  using assms by (auto simp: mark_deleted_def)

text \<open>A change that deletes an attribute, or some of its instances, leaves no event.\<close>

lemma deletion_is_not_recorded:
  assumes "jget a ''scope'' = Option.bind before (\<lambda>b. jget b ''scope'') \<or> before = None" "\<forall>e\<in>set (diff before (Some a)). snd e = Deleted"
  shows "change_events H now t before (Some a) = []"
  using assms by (auto simp: change_events_def scope_events_def attr_events_def split: option.split)

end
