(* ===== verification/TemporalSpec.thy ===== *)
theory TemporalSpec
  imports TemporalView HistorySpec
begin

text \<open>
  What the temporal operations promise: a correction keeps the identity of the instance it corrects, an upsert that
  succeeds has stored all it was given whatever overtook it, the merge of evolutions never lets a peer replace a newer
  instance, and a cut answer ends at one instant.
\<close>

subsection \<open>Slots\<close>

lemma inst_str_insert [simp]: "inst_str (JObj (bm_insert k v m)) j = (if j = k then as_str v else inst_str (JObj m) j)"
  by (simp add: inst_str_def)

lemma jget_keep: "jget (keep_member had k ni) j = (if j = k \<and> is_object ni \<and> jget had k \<noteq> None then jget had k else jget ni j)"
  by (cases ni) (auto simp: keep_member_def split: option.split)

lemma is_object_keep [simp]: "is_object (keep_member had k ni) = is_object ni"
  by (cases ni) (auto simp: keep_member_def split: option.split)

lemma jget_corrected: "jget (corrected had ni) j =
   (if j \<in> {''createdAt'', ''instanceId''} \<and> is_object ni \<and> jget had j \<noteq> None then jget had j else jget ni j)"
  by (auto simp: corrected_def jget_keep)

lemma slot_corrected [simp]: "slot_of (corrected had ni) = slot_of ni"
  by (simp add: slot_of_def inst_str_def jget_corrected)

lemma slot_object: "snd (slot_of ni) \<noteq> None \<Longrightarrow> is_object ni"
  by (cases ni) (auto simp: slot_of_def inst_str_def)

text \<open>An instance is kept: it is there, or corrected under its own identity.\<close>

definition kept_as :: "json \<Rightarrow> json \<Rightarrow> bool" where
  "kept_as c x \<longleftrightarrow> x = c \<or> slot_of x = slot_of c \<and> (\<forall>k\<in>{''createdAt'', ''instanceId''}. jget c k \<noteq> None \<longrightarrow> jget x k = jget c k)"

definition carries :: "json \<Rightarrow> json \<Rightarrow> bool" where
  "carries ni x \<longleftrightarrow> slot_of x = slot_of ni \<and> (\<forall>k. k \<notin> {''createdAt'', ''instanceId''} \<longrightarrow> jget x k = jget ni k)"

lemma kept_refl [simp]: "kept_as c c" by (simp add: kept_as_def)

lemma kept_trans: "kept_as a b \<Longrightarrow> kept_as b c \<Longrightarrow> kept_as a c"
  unfolding kept_as_def by auto

lemma carries_refl [simp]: "carries c c" by (simp add: carries_def)

definition grown :: "json list \<Rightarrow> json list \<Rightarrow> bool" where
  "grown cur xs \<longleftrightarrow> length cur \<le> length xs \<and> (\<forall>p<length cur. kept_as (cur ! p) (xs ! p))"

lemma grown_refl [simp]: "grown c c" by (simp add: grown_def)

lemma grown_trans: "grown a b \<Longrightarrow> grown b c \<Longrightarrow> grown a c"
  unfolding grown_def by (meson kept_trans order_less_le_trans order_trans)

lemma grown_append [simp]: "grown c (c @ xs)"
  by (simp add: grown_def nth_append)

lemma add_slot_found:
  assumes "position_of (\<lambda>ci. slot_of ci = slot_of ni \<and> snd (slot_of ni) \<noteq> None) cur = Some p"
  shows "p < length cur" "slot_of (cur ! p) = slot_of ni" "snd (slot_of ni) \<noteq> None" "is_object ni"
  using position_of_Some [OF assms] slot_object by auto

lemma add_slot_grown: "grown cur (add_slot ni cur)"
proof (cases "position_of (\<lambda>ci. slot_of ci = slot_of ni \<and> snd (slot_of ni) \<noteq> None) cur")
  case (Some p)
  then show ?thesis using add_slot_found [OF Some]
    by (auto simp: add_slot_def grown_def nth_list_update kept_as_def jget_corrected)
qed (simp add: add_slot_def)

lemma add_slot_carries: "\<exists>x\<in>set (add_slot ni cur). carries ni x"
proof (cases "position_of (\<lambda>ci. slot_of ci = slot_of ni \<and> snd (slot_of ni) \<noteq> None) cur")
  case (Some p)
  then have "corrected (cur ! p) ni \<in> set (add_slot ni cur)"
    using add_slot_found(1) [OF Some] by (simp add: add_slot_def set_update_memI)
  moreover have "carries ni (corrected (cur ! p) ni)" by (auto simp: carries_def jget_corrected)
  ultimately show ?thesis by blast
qed (simp add: add_slot_def)

text \<open>An instance is disturbed only by one of its own slot, and only if it was observed.\<close>

lemma add_slot_other:
  assumes "x \<in> set cur" "slot_of ni \<noteq> slot_of x \<or> snd (slot_of x) = None"
  shows "x \<in> set (add_slot ni cur)"
proof (cases "position_of (\<lambda>ci. slot_of ci = slot_of ni \<and> snd (slot_of ni) \<noteq> None) cur")
  case (Some p)
  obtain q where q: "q < length cur" "x = cur ! q" using assms(1) by (auto simp: in_set_conv_nth)
  have "q \<noteq> p" using add_slot_found [OF Some] assms(2) q by auto
  then have "add_slot ni cur ! q = x" "q < length (add_slot ni cur)" using q Some by (simp_all add: add_slot_def)
  then show ?thesis by (metis nth_mem)
qed (use assms in \<open>simp add: add_slot_def\<close>)

lemma fold_slot_grown: "grown cur (fold add_slot xs cur)"
  by (induction xs arbitrary: cur) (auto intro: grown_trans [OF add_slot_grown])

lemma fold_slot_other:
  "x \<in> set cur \<Longrightarrow> \<forall>ni\<in>set xs. slot_of ni \<noteq> slot_of x \<or> snd (slot_of x) = None \<Longrightarrow> x \<in> set (fold add_slot xs cur)"
  by (induction xs arbitrary: cur) (auto intro: add_slot_other)

text \<open>Of the instances of one slot the last one counts.\<close>

definition decisive :: "json \<Rightarrow> json list \<Rightarrow> bool" where
  "decisive ni xs \<longleftrightarrow> (\<exists>as bs. xs = as @ ni # bs \<and> (\<forall>b\<in>set bs. slot_of b \<noteq> slot_of ni \<or> snd (slot_of ni) = None))"

lemma decisive_set: "decisive ni xs \<Longrightarrow> ni \<in> set xs"
  by (auto simp: decisive_def)

lemma fold_slot_carries:
  assumes "decisive ni xs"
  shows "\<exists>x\<in>set (fold add_slot xs cur). carries ni x"
proof -
  obtain as bs where xs: "xs = as @ ni # bs" "\<forall>b\<in>set bs. slot_of b \<noteq> slot_of ni \<or> snd (slot_of ni) = None"
    using assms by (auto simp: decisive_def)
  obtain x where x: "x \<in> set (add_slot ni (fold add_slot as cur))" "carries ni x" using add_slot_carries by blast
  have s: "slot_of x = slot_of ni" using x(2) by (simp add: carries_def)
  have "x \<in> set (fold add_slot bs (add_slot ni (fold add_slot as cur)))"
    using xs(2) s by (intro fold_slot_other [OF x(1)]) auto
  then show ?thesis using x(2) xs(1) by auto
qed

subsection \<open>Documents\<close>

lemma keywise_add_slots: "keywise add_slots"
  by (auto simp: keywise_def add_slots_def)

lemma add_slots_get: "\<not> is_meta k \<Longrightarrow> bm_get (add_slots (k, v) t) k = Some (JArr (case Option.bind (bm_get t k) as_array of
     Some cur \<Rightarrow> fold add_slot (array_or_empty (Some v)) cur | None \<Rightarrow> array_or_empty (Some v)))"
  by (simp add: add_slots_def)

lemma stamps_are_meta: "is_meta ''type''" "is_meta ''modifiedAt''" "is_meta ''createdAt''"
  by (simp_all add: is_meta_def ENTITY_META_KEYS_def)

lemma not_meta_key: "\<not> is_meta k \<Longrightarrow> k \<noteq> ''type'' \<and> k \<noteq> ''modifiedAt'' \<and> k \<noteq> ''createdAt''"
  using stamps_are_meta by auto

lemma union_types_get: "k \<noteq> ''type'' \<Longrightarrow> bm_get (union_types d t) k = bm_get t k"
  by (auto simp: union_types_def split: option.split)

lemma expanded_keys: "expand_entity L c opts doc = Ok (JObj m) \<Longrightarrow> bm_ok m"
  using entity_result_ok [of L c opts doc "JObj m"] by (auto simp: entity_ok_def)

lemma stamp_keys: "map fst (case stamp_temporal_instances H ts (JObj m) of JObj n \<Rightarrow> n | _ \<Rightarrow> []) = map fst m"
  by (auto simp: stamp_temporal_instances_def)

lemma upsert_closure_get:
  assumes "upsert_closure ts (JObj m) doc = Ok (u, new)" "distinct (map fst m)" "\<not> is_meta k"
  shows "jget new k = (case bm_get m k of None \<Rightarrow> jget doc k | Some v \<Rightarrow> Some (JArr (case Option.bind (jget doc k) as_array of
     Some cur \<Rightarrow> fold add_slot (array_or_empty (Some v)) cur | None \<Rightarrow> array_or_empty (Some v))))"
proof -
  let ?t = "\<lambda>t. union_types (JObj m) t"
  obtain t where dm: "doc = JObj t" "new = JObj (bm_insert ''modifiedAt'' (JStr ts) (fold add_slots m (?t t)))"
    using assms(1) by (auto simp: upsert_closure_def split: json.splits)
  have "bm_get (fold add_slots m (?t t)) k =
      (case map_of m k of None \<Rightarrow> bm_get (?t t) k | Some v \<Rightarrow> bm_get (add_slots (k, v) (?t t)) k)"
    by (rule keywise_fold [OF keywise_add_slots assms(2)])
  then show ?thesis using dm not_meta_key [OF assms(3)] assms(3)
    by (simp add: union_types_get add_slots_get bm_get_def [of m] split: option.split)
qed

lemma upsert_closure_history:
  assumes "upsert_closure ts (JObj m) doc = Ok (u, new)" "distinct (map fst m)" "\<not> is_meta k"
  shows "grown (history_of doc k) (history_of new k)"
    and "decisive ni (history_of (JObj m) k) \<Longrightarrow> \<exists>x\<in>set (history_of new k). carries ni x"
proof -
  note g = upsert_closure_get [OF assms]
  show "grown (history_of doc k) (history_of new k)"
  proof (cases "bm_get m k")
    case (Some v)
    show ?thesis
    proof (cases "Option.bind (jget doc k) as_array")
      case None
      then have "history_of doc k = []" by (auto simp: history_of_def array_or_empty_def split: option.splits json.splits)
      then show ?thesis by (simp add: grown_def)
    next
      case c: (Some cur)
      then have "history_of doc k = cur" by (auto simp: history_of_def array_or_empty_def split: option.splits json.splits)
      then show ?thesis using g Some c by (simp add: history_of_def array_or_empty_def fold_slot_grown)
    qed
  qed (use g in \<open>simp add: history_of_def\<close>)
  assume n: "decisive ni (history_of (JObj m) k)"
  then obtain v where v: "bm_get m k = Some v" using decisive_set [OF n]
    by (cases "bm_get m k") (auto simp: history_of_def array_or_empty_def)
  have n': "decisive ni (array_or_empty (Some v))" using n v by (simp add: history_of_def)
  show "\<exists>x\<in>set (history_of new k). carries ni x"
  proof (cases "Option.bind (jget doc k) as_array")
    case None
    then show ?thesis using g v decisive_set [OF n'] carries_refl by (auto simp: history_of_def array_or_empty_def)
  next
    case (Some cur)
    then show ?thesis using g v fold_slot_carries [OF n'] by (simp add: history_of_def array_or_empty_def)
  qed
qed

subsection \<open>Upsert\<close>

definition overtaken :: "(nat \<Rightarrow> store \<Rightarrow> store) \<Rightarrow> nat \<Rightarrow> nat \<Rightarrow> store \<Rightarrow> store" where
  "overtaken gap j n st = fold gap (rev [j..<n]) st"

lemma overtaken_Suc: "j \<le> n \<Longrightarrow> overtaken gap j (Suc n) st = overtaken gap j n (gap n st)"
  by (simp add: overtaken_def)

lemma overtaken_last: "overtaken gap n (Suc n) st = gap n st"
  by (simp add: overtaken_def)

text \<open>An upsert that succeeds did so on the store as the overtaking requests left it, in one of its attempts.\<close>

definition upsert_done :: "'g broker_node \<Rightarrow> string \<Rightarrow> string \<Rightarrow> json \<Rightarrow> nat \<Rightarrow> store \<Rightarrow> store \<Rightarrow> bool" where
  "upsert_done N t i d s st st' \<longleftrightarrow>
     s = 201 \<and> get t Temporal i st = None \<and> get t Temporal i st' = Some (stamped_doc (nd_now N) d) \<or>
     s = 204 \<and> (\<exists>old u new. get t Temporal i st = Some old \<and> upsert_closure (nd_now N) d old = Ok (u, new) \<and> get t Temporal i st' = Some new)"

lemma upsert_attempts_done:
  "upsert_attempts N t i d gap n st = (Ok s, st') \<Longrightarrow> \<exists>j<n. upsert_done N t i d s (overtaken gap j n st) st'"
proof (induction n arbitrary: st)
  case (Suc n)
  have again: "upsert_attempts N t i d gap n (gap n st) = (Ok s, st') \<Longrightarrow> ?case"
    using Suc.IH [of "gap n st"] overtaken_Suc [of _ n gap st] by (metis less_Suc_eq less_imp_le_nat)
  have now: "upsert_done N t i d s (gap n st) st' \<Longrightarrow> ?case"
    using overtaken_last [of gap n st] by (metis lessI)
  show ?case
  proof (cases "get t Temporal i st = None")
    case True
    then obtain b st1 where c: "create (nd_ext N) (nd_codec N) (nd_now N) t Temporal i (stamped_doc (nd_now N) d) (gap n st) = (b, st1)"
      by (rule_tac prod.exhaust)
    show ?thesis
    proof (cases b)
      case b: True
      then have "s = 201" "st1 = st'" using Suc.prems True c by simp_all
      then show ?thesis using temporal_created(1) [of "nd_ext N" "nd_codec N" "nd_now N" t i "stamped_doc (nd_now N) d" "gap n st" st1] b c by (intro now) (simp add: upsert_done_def)
    next
      case b: False
      then show ?thesis using Suc.prems True c temporal_created(2) [of "nd_ext N" "nd_codec N" "nd_now N" t i "stamped_doc (nd_now N) d" "gap n st" st1] b by (intro again) simp
    qed
  next
    case False
    obtain r st1 where c: "mutate (nd_ext N) (nd_codec N) (nd_now N) t Temporal i (upsert_closure (nd_now N) d) (gap n st) = (r, st1)"
      by (rule prod.exhaust)
    show ?thesis
    proof (cases r)
      case None
      then show ?thesis using Suc.prems False c temporal_mutated(2) [OF c [simplified None]] by (intro again) simp
    next
      case (Some y)
      then obtain u where u: "y = Ok u" using Suc.prems False c by (auto split: sum.splits)
      then have "s = 204" "st1 = st'" using Suc.prems False c Some by simp_all
      then show ?thesis using temporal_mutated(1) [OF c [simplified Some u]] by (intro now) (auto simp: upsert_done_def)
    qed
  qed
qed simp

lemma upsert_undisturbed:
  assumes old: "get t Temporal i st = None \<or> (\<exists>m. get t Temporal i st = Some (JObj m))"
  shows "\<exists>s st'. upsert_temporal_local N H t i (JObj d) (\<lambda>_ st. st) st = (Ok s, st')"
proof -
  have sixteen: "UPSERT_ATTEMPTS = Suc 15" by (simp add: UPSERT_ATTEMPTS_def)
  show ?thesis
  proof (cases "get t Temporal i st")
    case None
    then show ?thesis
      by (auto simp only: upsert_temporal_local_def sixteen upsert_attempts.simps create_def get_def) auto
  next
    case (Some j)
    then obtain m where "doc_at (st_inner st) Temporal t i = Some (JObj m)" using old by (auto simp: get_def)
    then show ?thesis
      by (simp only: upsert_temporal_local_def sixteen upsert_attempts.simps) (simp add: mutate_def get_def is_expired_def upsert_closure_def stamp_temporal_instances_def Let_def)
  qed
qed

lemma upsert_done_history:
  assumes "upsert_done N t i (stamp_temporal_instances H ts (JObj m)) s st st'" "distinct (map fst m)" "\<not> is_meta k"
  shows "\<exists>doc. get t Temporal i st' = Some doc \<and>
    grown (hist t i k st) (history_of doc k) \<and>
    (\<forall>ni. decisive ni (history_of (stamp_temporal_instances H ts (JObj m)) k) \<longrightarrow> (\<exists>x\<in>set (history_of doc k). carries ni x))"
proof -
  obtain m' where m': "stamp_temporal_instances H ts (JObj m) = JObj m'" "map fst m' = map fst m"
    by (simp add: stamp_temporal_instances_def split_beta comp_def)
  have d: "distinct (map fst m')" using assms(2) m'(2) by simp
  consider "get t Temporal i st = None" "get t Temporal i st' = Some (stamped_doc (nd_now N) (JObj m'))"
    | old u new where "get t Temporal i st = Some old" "upsert_closure (nd_now N) (JObj m') old = Ok (u, new)" "get t Temporal i st' = Some new"
    using assms(1) m'(1) by (auto simp: upsert_done_def)
  then show ?thesis
  proof cases
    case 1
    have "history_of (stamped_doc (nd_now N) (JObj m')) k = history_of (JObj m') k"
      using not_meta_key [OF assms(3)] by (simp add: stamped_doc_def history_of_def)
    then show ?thesis using 1 m' decisive_set carries_refl by (fastforce simp: grown_def hist_def)
  next
    case 2
    then show ?thesis using upsert_closure_history [OF 2(2) d assms(3)] m' by (auto simp: hist_def)
  qed
qed

theorem upsert_temporal_history:
  assumes "write_plan N a (default_spec\<lparr>cs_ids := Some [i]\<rparr>) = Some []" "\<not> is_meta k"
    and "expand_entity (nd_lib N) (ca_ctx a) (temporal_opts False True) obj = Ok d" "expanded_id d = Ok i"
    and "upsert_temporal N H a obj gap w = (Done s, w')"
  shows "\<exists>j<UPSERT_ATTEMPTS. \<exists>doc. get (ca_tenant a) Temporal i (w_store w') = Some doc \<and>
    grown (hist (ca_tenant a) i k (overtaken gap j UPSERT_ATTEMPTS (w_store w))) (history_of doc k) \<and>
    (\<forall>ni. decisive ni (history_of (stamp_temporal_instances H (nd_now N) d) k) \<longrightarrow> (\<exists>x\<in>set (history_of doc k). carries ni x))"
proof -
  obtain m where m: "d = JObj m" using entity_result_ok [OF assms(3)] by blast
  have dm: "distinct (map fst m)" using expanded_keys [OF assms(3) [unfolded m]] by (rule bm_distinct)
  obtain r st' where u: "upsert_temporal_local N H (ca_tenant a) i d gap (w_store w) = (r, st')" by (rule prod.exhaust)
  have "r = Ok s" "w_store w' = st'"
    using assms(1,3-5) u by (auto simp: upsert_temporal_def split: if_splits sum.splits)
  then have "upsert_attempts N (ca_tenant a) i (stamp_temporal_instances H (nd_now N) d) gap UPSERT_ATTEMPTS (w_store w) = (Ok s, w_store w')"
    using u by (simp add: upsert_temporal_local_def)
  from upsert_attempts_done [OF this] obtain j where "j < UPSERT_ATTEMPTS"
    "upsert_done N (ca_tenant a) i (stamp_temporal_instances H (nd_now N) d) s (overtaken gap j UPSERT_ATTEMPTS (w_store w)) (w_store w')" by blast
  then show ?thesis using upsert_done_history [OF _ dm assms(2)] m by blast
qed

subsection \<open>Evolutions of other brokers\<close>

text \<open>A slot of the merge: an instant of the time property and a dataset.\<close>

definition merge_key :: "string \<Rightarrow> json \<Rightarrow> string option \<times> json option" where
  "merge_key prop x = (time_key prop x, jget x ''datasetId'')"

lemma merge_slot_cases:
  obtains "merge_slot aux prop ni cur = cur"
  | "merge_slot aux prop ni cur = cur @ [ni]"
    "time_key prop ni = None \<or> (\<forall>c\<in>set cur. merge_key prop c \<noteq> merge_key prop ni)" "aux \<Longrightarrow> time_key prop ni = None \<or> (\<forall>c\<in>set cur. time_key prop c \<noteq> time_key prop ni)"
  | p where "merge_slot aux prop ni cur = cur[p := ni]" "p < length cur" "merge_key prop (cur ! p) = merge_key prop ni"
    "time_key prop ni \<noteq> None" "modified_key (cur ! p) < modified_key ni" "\<not> aux"
proof -
  let ?P = "\<lambda>ci. time_key prop ci = time_key prop ni \<and> jget ci ''datasetId'' = jget ni ''datasetId''"
  show ?thesis
  proof (cases "aux \<and> time_key prop ni \<noteq> None \<and> list_ex (\<lambda>ci. time_key prop ci = time_key prop ni) cur")
    case True
    then show ?thesis using that(1) by (simp add: merge_slot_def)
  next
    case a: False
    show ?thesis
    proof (cases "time_key prop ni = None \<or> position_of ?P cur = None")
      case True
      then have "merge_slot aux prop ni cur = cur @ [ni]" using a by (auto simp: merge_slot_def)
      moreover have "time_key prop ni = None \<or> (\<forall>c\<in>set cur. merge_key prop c \<noteq> merge_key prop ni)"
        using True by (auto simp: position_of_None merge_key_def)
      ultimately show ?thesis using a by (intro that(2)) (auto simp: list_ex_iff)
    next
      case False
      then obtain p where p: "position_of ?P cur = Some p" "time_key prop ni \<noteq> None" by auto
      note found = position_of_Some [OF p(1)]
      have na: "\<not> aux" using a p(2) found nth_mem [of p cur] by (auto simp: list_ex_iff)
      then have s: "merge_slot aux prop ni cur = (if modified_key (cur ! p) < modified_key ni then cur[p := ni] else cur)"
        using a p by (auto simp: merge_slot_def)
      show ?thesis
      proof (cases "modified_key (cur ! p) < modified_key ni")
        case True
        then show ?thesis using s found p(2) na by (intro that(3) [of p]) (auto simp: merge_key_def)
      next
        case False
        then show ?thesis using s by (intro that(1)) simp
      qed
    qed
  qed
qed

text \<open>
  What a peer's instance may do to the instances held: each stays, or gives way to one of its own slot that was
  modified strictly later; an auxiliary source replaces nothing.
\<close>

definition held_on :: "bool \<Rightarrow> string \<Rightarrow> json list \<Rightarrow> json list \<Rightarrow> bool" where
  "held_on aux prop cur new \<longleftrightarrow> length cur \<le> length new \<and> (\<forall>p<length cur. new ! p = cur ! p \<or>
     \<not> aux \<and> merge_key prop (new ! p) = merge_key prop (cur ! p) \<and> modified_key (cur ! p) < modified_key (new ! p))"

lemma held_refl [simp]: "held_on aux prop cur cur"
  by (simp add: held_on_def)

lemma held_trans:
  assumes "held_on aux prop a b" "held_on aux prop b c"
  shows "held_on aux prop a c"
proof -
  have "c ! p = a ! p \<or> \<not> aux \<and> merge_key prop (c ! p) = merge_key prop (a ! p) \<and> modified_key (a ! p) < modified_key (c ! p)"
    if p: "p < length a" for p
  proof -
    have "p < length b" using assms(1) p by (simp add: held_on_def)
    then show ?thesis using assms p unfolding held_on_def by (metis order.strict_trans)
  qed
  then show ?thesis using assms unfolding held_on_def by auto
qed

lemma merge_slot_held: "held_on aux prop cur (merge_slot aux prop ni cur)"
  by (rule merge_slot_cases [of aux "prop" ni cur]) (auto simp: held_on_def nth_append nth_list_update)

lemma merge_slots_held: "held_on aux prop cur (fold (merge_slot aux prop) xs cur)"
  by (induction xs arbitrary: cur) (auto intro: held_trans [OF merge_slot_held])

text \<open>No slot is filled twice.\<close>

definition one_per_slot :: "string \<Rightarrow> json list \<Rightarrow> bool" where
  "one_per_slot prop xs \<longleftrightarrow> distinct (map (merge_key prop) (filter (\<lambda>x. time_key prop x \<noteq> None) xs))"

lemma one_per_slot_snoc: "one_per_slot prop (xs @ [x]) \<longleftrightarrow>
    one_per_slot prop xs \<and> (time_key prop x = None \<or> merge_key prop x \<notin> merge_key prop ` {y \<in> set xs. time_key prop y \<noteq> None})"
  by (auto simp: one_per_slot_def)

lemma one_per_slot_update:
  assumes "one_per_slot prop xs" "p < length xs" "merge_key prop (xs ! p) = merge_key prop x"
  shows "one_per_slot prop (xs[p := x])"
proof -
  have t: "time_key prop (xs ! p) = time_key prop x" using assms(3) by (simp add: merge_key_def)
  have "map (merge_key prop) (xs[p := x]) = map (merge_key prop) xs"
    using assms(2,3) by (intro nth_equalityI) (auto simp: nth_list_update)
  moreover have slots: "map (merge_key prop) (filter (\<lambda>x. time_key prop x \<noteq> None) ys) = filter (\<lambda>s. fst s \<noteq> None) (map (merge_key prop) ys)" for ys
    by (induction ys) (simp_all add: merge_key_def)
  ultimately show ?thesis using assms(1) by (simp only: one_per_slot_def slots)
qed

lemma merge_slot_one: "one_per_slot prop cur \<Longrightarrow> one_per_slot prop (merge_slot aux prop ni cur)"
proof (rule merge_slot_cases [of aux "prop" ni cur])
  assume o: "one_per_slot prop cur"
  show "one_per_slot prop (merge_slot aux prop ni cur)" if "merge_slot aux prop ni cur = cur" using o that by simp
  show "one_per_slot prop (merge_slot aux prop ni cur)"
    if "merge_slot aux prop ni cur = cur @ [ni]" "time_key prop ni = None \<or> (\<forall>c\<in>set cur. merge_key prop c \<noteq> merge_key prop ni)"
    using o that(2) unfolding that(1) one_per_slot_snoc by auto
  show "one_per_slot prop (merge_slot aux prop ni cur)"
    if "merge_slot aux prop ni cur = cur[p := ni]" "p < length cur" "merge_key prop (cur ! p) = merge_key prop ni" for p
    unfolding that(1) by (rule one_per_slot_update [OF o that(2,3)])
qed

lemma merge_slots_one: "one_per_slot prop cur \<Longrightarrow> one_per_slot prop (fold (merge_slot aux prop) xs cur)"
  by (induction xs arbitrary: cur) (auto intro: merge_slot_one)

lemma keywise_merge: "keywise (merge_temporal_member aux prop)"
  by (auto simp: keywise_def merge_temporal_member_def Let_def)

theorem merge_docs_history:
  assumes "distinct (map fst m)" "k \<notin> set TEMPORAL_META" "bm_get t k = Some (JArr cur)"
  shows "held_on aux prop cur (history_of (merge_temporal_docs aux prop (JObj m) (JObj t)) k)"
    "one_per_slot prop cur \<Longrightarrow> one_per_slot prop (history_of (merge_temporal_docs aux prop (JObj m) (JObj t)) k)"
proof -
  have "\<exists>xs. history_of (merge_temporal_docs aux prop (JObj m) (JObj t)) k = fold (merge_slot aux prop) xs cur"
  proof (cases "map_of m k")
    case None
    then have "history_of (merge_temporal_docs aux prop (JObj m) (JObj t)) k = fold (merge_slot aux prop) [] cur"
      using keywise_fold [OF keywise_merge assms(1), of aux "prop" t k] assms(3)
      by (simp add: history_of_def merge_temporal_docs_def array_or_empty_def)
    then show ?thesis by blast
  next
    case (Some v)
    then have "history_of (merge_temporal_docs aux prop (JObj m) (JObj t)) k = fold (merge_slot aux prop) (case v of JArr xs \<Rightarrow> xs | _ \<Rightarrow> [v]) cur"
      using keywise_fold [OF keywise_merge assms(1), of aux "prop" t k] assms(2,3)
      by (simp add: history_of_def merge_temporal_docs_def merge_temporal_member_def array_or_empty_def Let_def)
    then show ?thesis by blast
  qed
  then show "held_on aux prop cur (history_of (merge_temporal_docs aux prop (JObj m) (JObj t)) k)"
    and "one_per_slot prop cur \<Longrightarrow> one_per_slot prop (history_of (merge_temporal_docs aux prop (JObj m) (JObj t)) k)"
    by (auto simp: merge_slots_held merge_slots_one)
qed

subsection \<open>The cut\<close>

lemma bounds_step:
  "bound_step prop x (lo, hi) = (case inst_str x prop of None \<Rightarrow> (lo, hi)
     | Some t \<Rightarrow> (if lo = None \<or> dt_key t < dt_key (the lo) then Some t else lo, if hi = None \<or> dt_key (the hi) < dt_key t then Some t else hi))"
  by (auto simp: bound_step_def split: option.split)

text \<open>The bounds are instants of the instances, and the first and last of them.\<close>

definition spans :: "string \<Rightarrow> json list \<Rightarrow> string option \<times> string option \<Rightarrow> bool" where
  "spans prop xs b \<longleftrightarrow> (case b of (lo, hi) \<Rightarrow>
     (lo = None \<longleftrightarrow> (\<forall>x\<in>set xs. inst_str x prop = None)) \<and> (hi = None \<longleftrightarrow> lo = None) \<and>
     (\<forall>l h. lo = Some l \<longrightarrow> hi = Some h \<longrightarrow>
        (\<exists>x\<in>set xs. inst_str x prop = Some l) \<and> (\<exists>x\<in>set xs. inst_str x prop = Some h) \<and>
        (\<forall>x\<in>set xs. \<forall>t. inst_str x prop = Some t \<longrightarrow> dt_key l \<le> dt_key t \<and> dt_key t \<le> dt_key h)))"

lemma spans_step: "spans prop xs b \<Longrightarrow> spans prop (xs @ [x]) (bound_step prop x b)"
proof (cases b)
  case (Pair lo hi)
  assume s: "spans prop xs b"
  show ?thesis
  proof (cases "inst_str x prop")
    case None
    then show ?thesis using s Pair by (auto simp: spans_def bounds_step)
  next
    case (Some t)
    show ?thesis
    proof (cases lo)
      case None
      then show ?thesis using s Pair Some by (auto simp: spans_def bounds_step)
    next
      case (Some l)
      then obtain h where "hi = Some h" using s Pair by (auto simp: spans_def)
      then show ?thesis using s Pair Some \<open>inst_str x prop = Some t\<close>
        by (auto simp: spans_def bounds_step) (meson le_less_trans less_le_trans less_imp_le)+
    qed
  qed
qed

lemma bounds_of_spans: "spans prop xs (bounds_of prop xs (None, None))"
proof (induction xs rule: rev_induct)
  case (snoc x xs)
  then show ?case using spans_step [OF snoc] by (simp add: bounds_of_def)
qed (simp add: bounds_of_def spans_def)

lemma window_spans: "spans prop (concat (map snd (wd_attrs (window doc tq n want omit ds prop)))) (wd_ts_min (window doc tq n want omit ds prop), wd_ts_max (window doc tq n want omit ds prop))"
proof (cases doc)
  case (JObj m)
  let ?as = "filter (\<lambda>e. snd e \<noteq> []) (map (\<lambda>e. (fst e, window_attr tq n ds prop e)) (filter (windowed_member want omit) m))"
  show ?thesis using bounds_of_spans [of "prop" "concat (map snd ?as)"]
    by (simp add: window_def JObj Let_def split_beta)
qed (simp_all add: window_def empty_window_def spans_def)

lemma cut_spans:
  assumes "TEMPORAL_INSTANCE_LIMIT < wd_max w"
  shows "spans prop (concat (map snd (wd_attrs (truncate_window prop descending w))))
     (wd_ts_min (truncate_window prop descending w), wd_ts_max (truncate_window prop descending w))"
proof -
  let ?as = "map (\<lambda>(k, xs). (k, within_cut prop descending (cut_boundary prop descending (wd_attrs w)) xs)) (wd_attrs w)"
  show ?thesis using assms bounds_of_spans [of "prop" "concat (map snd ?as)"]
    by (simp add: truncate_window_def Let_def split_beta)
qed

text \<open>\<open>earlier descending\<close> is the order in which the instances are served.\<close>

definition up_to :: "bool \<Rightarrow> string \<Rightarrow> string \<Rightarrow> bool" where
  "up_to descending x y \<longleftrightarrow> (if descending then y \<le> x else x \<le> y)"

lemma up_to_order: "up_to d x x" "up_to d x y \<Longrightarrow> up_to d y z \<Longrightarrow> up_to d x z" "up_to d x y \<or> up_to d y x"
  by (auto simp: up_to_def split: if_splits)

lemma within_cut_Some: "x \<in> set (within_cut prop d (Some b) xs) \<longleftrightarrow> x \<in> set xs \<and> (case time_key prop x of None \<Rightarrow> True | Some t \<Rightarrow> up_to d t b)"
  by (auto simp: within_cut_def up_to_def split: option.split)

lemma tighter_up_to: "up_to d (tighter d x y) x" "up_to d (tighter d x y) y" "tighter d x y = x \<or> tighter d x y = y"
  by (auto simp: tighter_def up_to_def)

lemma tightest: "(\<forall>x\<in>set (t # ts). up_to d (fold (\<lambda>y x. tighter d x y) ts t) x) \<and> fold (\<lambda>y x. tighter d x y) ts t \<in> set (t # ts)"
proof (induction ts rule: rev_induct)
  case (snoc y ts)
  let ?f = "fold (\<lambda>y x. tighter d x y) ts t"
  have "up_to d (tighter d ?f y) x" if "x \<in> set (t # ts)" for x
    using snoc that tighter_up_to(1) [of d ?f y] up_to_order(2) by blast
  then show ?case using snoc tighter_up_to [of d ?f y] by auto
qed (simp add: up_to_order)

lemma set_map_filter_iff: "set (List.map_filter f xs) = {y. \<exists>x\<in>set xs. f x = Some y}"
  by (induction xs) (auto simp: map_filter_simps split: option.split)

lemma cut_boundary_Some:
  assumes "cut_boundary prop d as = Some b"
  shows "\<exists>e\<in>set as. TEMPORAL_INSTANCE_LIMIT < length (snd e) \<and> time_key prop (snd e ! (TEMPORAL_INSTANCE_LIMIT - 1)) = Some b"
    "\<forall>e\<in>set as. \<forall>t. TEMPORAL_INSTANCE_LIMIT < length (snd e) \<longrightarrow> time_key prop (snd e ! (TEMPORAL_INSTANCE_LIMIT - 1)) = Some t \<longrightarrow> up_to d b t"
proof -
  let ?ts = "List.map_filter (\<lambda>xs. time_key prop (xs ! (TEMPORAL_INSTANCE_LIMIT - 1))) (filter (\<lambda>xs. TEMPORAL_INSTANCE_LIMIT < length xs) (map snd as))"
  have set: "set ?ts = {t. \<exists>e\<in>set as. TEMPORAL_INSTANCE_LIMIT < length (snd e) \<and> time_key prop (snd e ! (TEMPORAL_INSTANCE_LIMIT - 1)) = Some t}"
    unfolding set_map_filter_iff by auto
  obtain t ts where ts: "?ts = t # ts" "b = fold (\<lambda>y x. tighter d x y) ts t"
    using assms by (auto simp: cut_boundary_def split: list.splits)
  then have b: "b \<in> set ?ts" "\<forall>x\<in>set ?ts. up_to d b x" using tightest [where d = d and t = t and ts = ts] by simp_all
  then show "\<exists>e\<in>set as. TEMPORAL_INSTANCE_LIMIT < length (snd e) \<and> time_key prop (snd e ! (TEMPORAL_INSTANCE_LIMIT - 1)) = Some b"
    "\<forall>e\<in>set as. \<forall>t. TEMPORAL_INSTANCE_LIMIT < length (snd e) \<longrightarrow> time_key prop (snd e ! (TEMPORAL_INSTANCE_LIMIT - 1)) = Some t \<longrightarrow> up_to d b t"
    unfolding set by blast+
qed

lemma window_attr_sorted:
  "sorted_wrt (\<lambda>x y. up_to (n \<noteq> None) (sort_instant prop x) (sort_instant prop y)) (window_attr tq n ds prop e)"
proof -
  have s: "sorted_wrt (\<lambda>x y. sort_instant prop x \<le> sort_instant prop y) (sort_key (sort_instant prop) xs)" for xs
    using sorted_sort_key [of "sort_instant prop" xs] by (simp add: sorted_map)
  show ?thesis
    by (cases n; cases e) (simp_all add: window_attr_def Let_def last_instances_def up_to_def s sorted_wrt_rev sorted_wrt_drop)
qed

lemma window_sorted:
  "e \<in> set (wd_attrs (window doc tq n want omit ds prop)) \<Longrightarrow>
     sorted_wrt (\<lambda>x y. up_to (n \<noteq> None) (sort_instant prop x) (sort_instant prop y)) (snd e)"
  using window_attr_sorted by (cases doc) (auto simp: window_def Let_def empty_window_def split: prod.splits)

text \<open>The attribute that sets the boundary is served its first nine instances.\<close>

lemma cut_keeps:
  assumes "sorted_wrt (\<lambda>x y. up_to d (sort_instant prop x) (sort_instant prop y)) xs" "n < length xs" "time_key prop (xs ! n) = Some b"
  shows "n < length (within_cut prop d (Some b) xs)"
proof -
  let ?P = "\<lambda>x. case time_key prop x of None \<Rightarrow> True | Some t \<Rightarrow> up_to d t b"
  have si: "time_key prop x = Some t \<Longrightarrow> sort_instant prop x = t" for x t
    by (auto simp: time_key_def sort_instant_def)
  have "?P (xs ! p)" if p: "p \<le> n" for p
  proof -
    have "up_to d (sort_instant prop (xs ! p)) b"
    proof (cases "p = n")
      case True
      then show ?thesis using si [OF assms(3)] by (simp add: up_to_order)
    next
      case False
      then show ?thesis using sorted_wrt_nth_less [OF assms(1), of p n] p assms(2) si [OF assms(3)] by simp
    qed
    then show ?thesis using si by (auto split: option.split)
  qed
  then have "\<forall>x\<in>set (take (Suc n) xs). ?P x" using assms(2) by (auto simp: in_set_conv_nth less_Suc_eq_le)
  then have "filter ?P (take (Suc n) xs) = take (Suc n) xs" by (simp add: filter_id_conv)
  then have "filter ?P xs = take (Suc n) xs @ filter ?P (drop (Suc n) xs)"
    by (metis append_take_drop_id filter_append)
  moreover have "within_cut prop d (Some b) xs = filter ?P xs" by (simp add: within_cut_def up_to_def cong: option.case_cong)
  ultimately show ?thesis using assms(2) by simp
qed

theorem cut_ends_at_one_instant:
  assumes w: "w = window doc tq n want omit ds prop"
    and "TEMPORAL_INSTANCE_LIMIT < wd_max w" "cut_boundary prop (n \<noteq> None) (wd_attrs w) = Some b"
  shows "wd_attrs (truncate_window prop (n \<noteq> None) w) =
      map (\<lambda>(k, xs). (k, filter (\<lambda>x. case time_key prop x of None \<Rightarrow> True | Some t \<Rightarrow> up_to (n \<noteq> None) t b) xs)) (wd_attrs w)"
    and "\<exists>e\<in>set (wd_attrs (truncate_window prop (n \<noteq> None) w)). TEMPORAL_INSTANCE_LIMIT \<le> length (snd e)"
proof -
  have as: "wd_attrs (truncate_window prop (n \<noteq> None) w) = map (\<lambda>(k, xs). (k, within_cut prop (n \<noteq> None) (Some b) xs)) (wd_attrs w)"
    using assms(2,3) by (simp add: truncate_window_def Let_def split_beta)
  then show "wd_attrs (truncate_window prop (n \<noteq> None) w) =
      map (\<lambda>(k, xs). (k, filter (\<lambda>x. case time_key prop x of None \<Rightarrow> True | Some t \<Rightarrow> up_to (n \<noteq> None) t b) xs)) (wd_attrs w)"
    by (simp add: within_cut_def up_to_def cong: option.case_cong)
  obtain e where e: "e \<in> set (wd_attrs w)" "TEMPORAL_INSTANCE_LIMIT < length (snd e)" "time_key prop (snd e ! (TEMPORAL_INSTANCE_LIMIT - 1)) = Some b"
    using cut_boundary_Some(1) [OF assms(3)] by blast
  have "TEMPORAL_INSTANCE_LIMIT - 1 < length (within_cut prop (n \<noteq> None) (Some b) (snd e))"
    by (rule cut_keeps [OF window_sorted [OF e(1) [unfolded w]] _ e(3)]) (use e(2) in simp)
  then show "\<exists>e\<in>set (wd_attrs (truncate_window prop (n \<noteq> None) w)). TEMPORAL_INSTANCE_LIMIT \<le> length (snd e)"
    unfolding as using e(1) by (intro bexI [of _ "(fst e, within_cut prop (n \<noteq> None) (Some b) (snd e))"]) force+
qed

subsection \<open>Spellings of an instant\<close>

text \<open>The upsert compares instants as they were written, so another spelling of one instant makes a second instance.\<close>

lemma other_spelling_is_another_slot:
  assumes "inst_str c ''observedAt'' = Some x" "inst_str ni ''observedAt'' = Some y" "x \<noteq> y"
  shows "add_slot ni [c] = [c, ni]"
  using assms by (simp add: add_slot_def slot_of_def)

text \<open>A window of scope states compares them as they were written too: half a second later sorts before.\<close>

lemma fraction_leaves_the_window:
  "scope_window_retain (JObj [(''scope'', JArr [JObj [(''observedAt'', JStr ''2020-01-01T00:00:00Z''), (''value'', JStr ''/a'')]]),
      (''x:s'', JArr [JObj [(''observedAt'', JStr ''2020-01-01T00:00:00.5Z''), (''value'', jint 1)]])]) ''/a'' None ''observedAt''
    = Some (JObj [(''scope'', JArr [JObj [(''observedAt'', JStr ''2020-01-01T00:00:00Z''), (''value'', JStr ''/a'')]]), (''x:s'', JArr [])])"
  by code_simp

lemma fraction_is_later: "dt_key ''2020-01-01T00:00:00Z'' < dt_key ''2020-01-01T00:00:00.5Z''"
  by code_simp

end
