(* ===== verification/SamplesTemporal.thy ===== *)
theory SamplesTemporal
  imports SamplesWrites TemporalSpec
begin

text \<open>Evolutions for the witnesses: one upserted into an empty store, one whose changes are recorded, and one too long to serve whole.\<close>

definition sample_history :: history where
  "sample_history = \<lparr>hi_mode = RecAll, hi_supported = True, hi_temporal_only = True, hi_uuid5 = id, hi_fresh = (\<lambda>k n. k @ ''/'' @ decimal n)\<rparr>"

lemma history_simps [simp]: "hi_mode sample_history = RecAll" "hi_supported sample_history" "hi_temporal_only sample_history"
  by (simp_all add: sample_history_def)

definition observed :: "string \<Rightarrow> int \<Rightarrow> json" where
  "observed ts n = JObj [(''observedAt'', JStr ts), (''type'', JStr ''Property''), (''value'', jint n)]"

definition new_evolution :: jobj where
  "new_evolution = [(''id'', JStr ''urn:car''), (''type'', JStr ''x:C''), (''x:s'', JArr [observed ''2026-01-01T00:00:00Z'' 5])]"

definition expanded_evolution :: jobj where
  "expanded_evolution = [(''id'', JStr ''urn:car''), (''type'', JArr [JStr ''x:C'']), (''x:s'', JArr [observed ''2026-01-01T00:00:00Z'' 5])]"

lemma evolution_expanded: "expand_entity peer_lib empty_ctx (temporal_opts False True) new_evolution = Ok (JObj expanded_evolution)"
  by code_simp

lemma evolution_id: "expanded_id (JObj expanded_evolution) = Ok ''urn:car''"
  by code_simp

lemma attr_not_meta: "\<not> is_meta ''x:s''"
  by (simp add: is_meta_def ENTITY_META_KEYS_def)

lemma no_evolution_yet: "get t Temporal i new_store = None"
  by (simp add: get_def new_store_def doc_at_def tenant_docs_def empty_inner_def)

lemma evolution_upserted: "\<exists>s w. upsert_temporal sample_node sample_history local_call new_evolution (\<lambda>_ st. st) empty_world = (Done s, w)"
proof -
  have "\<exists>s st. upsert_temporal_local sample_node sample_history ''city'' ''urn:car'' (JObj expanded_evolution) (\<lambda>_ st. st) new_store = (Ok s, st)"
    by (rule upsert_undisturbed) (simp add: no_evolution_yet)
  then show ?thesis
    by (auto simp: upsert_temporal_def node_simps call_simps evolution_expanded evolution_id alone empty_world_def)
qed

lemma decisive_only: "decisive x [x]"
  unfolding decisive_def by (rule exI [of _ "[]"], rule exI [of _ "[]"]) simp

lemma evolution_decisive:
  "\<exists>ni. decisive ni (history_of (stamp_temporal_instances sample_history ts (JObj expanded_evolution)) ''x:s'')"
  by (rule exI [of _ "stamp_instance sample_history ts ''x:s'' 0 (observed ''2026-01-01T00:00:00Z'' 5)"])
    (simp add: decisive_only stamp_temporal_instances_def expanded_evolution_def stamp_list_def attr_not_meta history_of_def
      array_or_empty_def bm_get_def)

subsection \<open>A recorded change\<close>

definition changed_car :: json where
  "changed_car = JObj [(''id'', JStr ''urn:car''), (''x:s'', JArr [observed ''2026-01-01T00:00:00Z'' 5])]"

lemma empty_evolutions: "evolutions_ok new_store"
  by (simp add: evolutions_ok_def no_evolution_yet)

lemma car_changed: "(''x:s'', Created) \<in> set (diff None (Some changed_car))"
  by code_simp

subsection \<open>Evolutions of two brokers\<close>

definition held_instances :: "json list" where
  "held_instances = [observed ''2026-01-01T00:00:00Z'' 5]"

lemma held_once: "one_per_slot ''observedAt'' held_instances"
  by (simp add: one_per_slot_def held_instances_def)

lemma held_length: "length held_instances = 1"
  by (simp add: held_instances_def)

subsection \<open>A long evolution\<close>

definition long_evolution :: json where
  "long_evolution = JObj [(''x:s'', JArr (replicate 10 (observed ''2026-01-01T00:00:00Z'' 5)))]"

lemma long_window:
  "TEMPORAL_INSTANCE_LIMIT < wd_max (window long_evolution None None None None None ''observedAt'')"
  "cut_boundary ''observedAt'' (None \<noteq> (None :: nat option)) (wd_attrs (window long_evolution None None None None None ''observedAt''))
     = Some (dt_key ''2026-01-01T00:00:00Z'')"
  by code_simp+

end
