(* ===== verification/Spec2Isabelle.thy ===== *)
theory Spec2Isabelle
  imports SamplesTemporal
begin

text \<open>
  \<^bold>\<open>The broker\<close>

  Antares is an NGSI-LD context broker: tenants store JSON-LD entities, query them, subscribe to their changes, and
  register other brokers as context sources.  This development models the parts of the Rust workspace under
  \<open>src/crates\<close> that decide what is stored, selected, shown and sent.

  A document is a \<open>json\<close> value whose objects are sorted maps without duplicate keys (\<open>json_ok\<close>), the order
  serde_json's map has.  Strings are the bytes of their UTF-8 encoding.  Numbers are the parsed number of
  serde_json: an integer of 64 bits or a double (\<open>f64\<close>, exact rationals with the infinities and NaN, for the
  comparisons the code makes).  An error is a left value of \<open>ngsi_result\<close>.  What is not under \<open>src/\<close>, the regex
  engine, the geometry crates, the JSON text codec, redb, chrono and the clock, is an argument (\<open>ext\<close>, \<open>lib\<close>,
  \<open>geo_lib\<close>, \<open>codec\<close>, \<open>builder\<close>, \<open>clock\<close>), with the laws the proofs need as hypotheses.

  \<^bold>\<open>Theories and code\<close>

  \<^item> \<open>Prelude\<close>, \<open>BMap\<close>, \<open>F64\<close>, \<open>Json\<close>: strings, sorted maps behind the locale of maps, numbers, JSON.
  \<^item> \<open>Model\<close>: errors, tenants, entity ids, operations, durations (\<open>antares-model\<close>); \<open>Naming\<close> shows that accepted
    names stay in their URL path segment.
  \<^item> \<open>QParser\<close>, \<open>QRender\<close>, \<open>QEval\<close>, \<open>Scope\<close>, \<open>Geometry\<close>, \<open>Geo\<close>: the query languages (\<open>antares-ql\<close>): parser, renderer
    with their round trip, evaluation with the lookup budget, scope and geoqueries.
  \<^item> \<open>JsonldContext\<close>, \<open>Expand\<close>, \<open>Compact\<close>, \<open>DateTime\<close>: terms, expansion to the internal form, compaction
    (\<open>antares-jsonld\<close>); \<open>ExpandSpec\<close> states which documents expansion yields.
  \<^item> \<open>Policy\<close>, \<open>Repr\<close>, \<open>Joins\<close>: the policy gate, the representation of a response, joins of linked entities
    (\<open>antares-api/src/policy.rs\<close>, \<open>repr.rs\<close>).
  \<^item> \<open>MemStore\<close>, \<open>Durable\<close>, \<open>StoreSpec\<close>, \<open>StoreLists\<close>: the in-memory store, its durable shadow, the abstract store it
    refines, its listings (\<open>antares-sql/src/store/mem\<close>).
  \<^item> \<open>Caches\<close>, \<open>Matcher\<close>, \<open>Linked\<close>: compiled patterns and queries, subscription predicates through them, queries that
    read linked entities (\<open>antares-ql/src/regex.rs\<close>, \<open>antares-matcher\<close>, \<open>notify.rs\<close>).
  \<^item> \<open>Mirror\<close>, \<open>Changes\<close>, \<open>Notify\<close>: the subscription index, the difference of two documents, matching, payloads and
    grouping of notifications (\<open>mirror.rs\<close>, \<open>notify.rs\<close>).
  \<^item> \<open>Registry\<close>: context source registrations, their index and the prefilter (\<open>registry.rs\<close>, \<open>temporalq.rs\<close>, \<open>mirror.rs\<close>,
    \<open>federation.rs\<close>).
  \<^item> \<open>Fed\<close>, \<open>Forward\<close>, \<open>Conformance\<close>: compiled registrations, the Via chain, merging of remote versions, one forwarded
    request, the distributed reads over it (\<open>federation.rs\<close>), amendment of payloads for older versions
    (\<open>conformance.rs\<close>).  The network is a function from requests to outcomes.
  \<^item> \<open>Patch\<close>, \<open>Writes\<close>: the writes on a stored document (\<open>stamp.rs\<close>, \<open>entities.rs\<close>, \<open>attrs.rs\<close>), and the handlers that
    create, merge, replace and delete entities and their attributes, with the part a broker keeps and the parts it
    forwards (\<open>federation.rs\<close>); \<open>PatchSpec\<close>, \<open>WritesSpec\<close> and \<open>Stored\<close> state what they promise.
  \<^item> \<open>Batch\<close>, \<open>BatchSpec\<close>: the batch operations (\<open>batch.rs\<close>): the items with their contexts, the rounds in which
    repeated entities are written, forwards with their fallbacks, the lists of the answer; the requests and sweeps that
    change the stored entities as one step function (\<open>world_step\<close>).
  \<^item> \<open>History\<close>, \<open>HistorySpec\<close>: recording of every change in the evolution of its entity (\<open>notify.rs\<close>, \<open>history.rs\<close>, the
    temporal driver of \<open>antares-store\<close>); \<open>Temporal\<close>, \<open>TemporalView\<close>, \<open>TemporalSpec\<close>: the temporal write operations, the merge
    of evolutions, windows, partial answers and their presentation (\<open>temporal.rs\<close>).
  \<^item> \<open>Egress\<close>: circuit breakers and cooldowns of outbound requests (\<open>egress.rs\<close>, \<open>bounds.rs\<close>).
  \<^item> \<open>Samples\<close>, \<open>SamplesApi\<close>, \<open>SamplesFed\<close>, \<open>SamplesWrites\<close>, \<open>SamplesTemporal\<close>: concrete stand-ins for the parameters, used by the witnesses.

  \<^bold>\<open>What the lemmas show\<close>

  Each component has an invariant and a preservation lemma per operation; the interfaces between them are the
  locales of \<open>BMap\<close> (maps), \<open>Caches\<close> (memo tables) and \<open>Mirror\<close> (a document map and an index derived from it), each
  interpreted on the code's own structures.  The properties C1 to C40 below are stated over these.

  \<^bold>\<open>Bounds and fuel\<close>

  Every function is total.  Recursions that the code bounds by a budget carry that budget (512 lookups of a
  query, 1000 of a join, ten join levels); the eviction loops of the caches end because each round shrinks the
  map, which \<open>pattern_call_returns\<close> states; an upsert of an evolution makes at most the 16 attempts of the code; \<open>linked_eval\<close> makes at most 512 passes.

  \<^bold>\<open>Not modelled\<close>

  HTTP routing and bodies, delivery of notifications over HTTP and MQTT, fetching of contexts, paging and
  distribution of temporal queries, the bounds of aggregation buckets (calendar arithmetic of chrono), entity maps, the PostgreSQL store (SQL text whose meaning is the server's), NATS, metrics, logging, start-up
  and shutdown.  Locks are taken for whole operations in the code, so an operation is one step here; where readers
  and writers interleave inside one (the pattern cache) the steps are separate.
\<close>



subsection \<open>The query language\<close>

text \<open>
  C1.  Rendering a spellable query and parsing the text back succeeds and gives a query that every entity answers the same way, whatever the store and the @context.
\<close>

theorem rendered_query_means_the_same:
  assumes "wf_node E n" "within_limits E n"
  shows "\<exists>n'. parse_q E (render E n) = Ok n' \<and> (\<forall>c l e. eval_q E c l e n' = eval_q E c l e n)"
  using parse_render [OF assms] eval_canon by blast

theorem rendered_query_means_the_same_witness:
  "\<exists>n'. parse_q sample_ext (render sample_ext sample_query) = Ok n' \<and>
     (\<forall>c l e. eval_q sample_ext c l e n' = eval_q sample_ext c l e sample_query)"
  by (rule rendered_query_means_the_same [OF sample_query_wf sample_query_limits])

subsection \<open>The store\<close>

text \<open>
  C2.  File mode: after any run of mutators from an empty file, opening the file again succeeds and every document and every stored context reads as it did before.
\<close>

theorem store_survives_restart:
  assumes "from_database C empty_db = Ok st0" "list_all (op_ok E C) es"
  shows "\<exists>d st'. st_shadow (fold (step E C) es st0) = Some d \<and> from_database C d = Ok st' \<and>
    (\<forall>t k i. get t k i st' = get t k i (fold (step E C) es st0)) \<and>
    contexts (st_inner st') = contexts (st_inner (fold (step E C) es st0))"
proof -
  let ?st = "fold (step E C) es st0"
  have du: "durable C ?st" using assms durable_run [OF durable_fresh] by (simp add: open_empty)
  then obtain d where d: "st_shadow ?st = Some d" by (auto simp: durable_def split: option.splits)
  from reopen [OF du d] obtain st' where st': "from_database C d = Ok st'" "durable C st'"
    "get_any (st_inner st') = get_any (st_inner ?st)" by blast
  have "get t k i st' = get t k i ?st" for t k i
    using fun_cong [OF st'(3), of "DocKey k t i"] by (simp add: get_def)
  moreover have "contexts (st_inner st') = contexts (st_inner ?st)"
    by (rule same_contexts [OF durable_wf [OF st'(2)] durable_wf [OF du] st'(3)])
  ultimately show ?thesis using d st'(1) by blast
qed

theorem store_survives_restart_witness:
  "\<exists>d st'. st_shadow (fold (step sample_ext sample_codec) sample_ops fresh) = Some d \<and>
     from_database sample_codec d = Ok st' \<and>
     get ''city'' Entity ''urn:car'' st' = Some sample_doc"
proof -
  have "list_all (op_ok sample_ext sample_codec) sample_ops" by (rule sample_ops_ok)
  from store_survives_restart [OF open_empty this]
  show ?thesis using sample_run by fastforce
qed

text \<open>
  C3.  In every run from an empty store, each mutator acts on the documents readers may see exactly as the abstract store says: an expired entity counts as absent.
\<close>

theorem store_refines_live_view:
  "live E now (fold (step E C) (es @ [(now, x)]) new_store) =
     live_step E now x (live E now (fold (step E C) es new_store))"
  using live_step_refines [of "fold (step E C) es new_store" E now C x] store_ok_run [OF store_ok_new, of E C es]
  by (simp add: store_ok_def)


text \<open>
  C5.  After a sweep the entities held are the live ones with their expired attribute instances pruned, temporal documents are pruned likewise, and every other document is untouched.
\<close>

theorem sweep_leaves_the_living:
  "doc_at (st_inner (snd (sweep_expired E C now (fold (step E C) es new_store)))) k t d =
    (let j = live E now (fold (step E C) es new_store) (k, t, d) in
     if k = Entity \<or> k = Temporal then map_option (\<lambda>j. fst (prune_expired_instances E now j)) j else j)"
  using sweep_docs [of "fold (step E C) es new_store" E C now] store_ok_run [OF store_ok_new, of E C es]
  by (simp add: store_ok_def)

text \<open>
  C6.  Paging through a collection by the last id seen visits every visible document once, in id order: a page after the i-th entry is the next entries of the whole listing.
\<close>

theorem pages_continue:
  assumes "wf_inner (st_inner st)" "i < length (page_entries E now t k st)"
  shows "list_page E now t k (Some (fst (page_entries E now t k st ! i))) limit st =
      map snd (take limit (drop (Suc i) (page_entries E now t k st)))
    \<and> list_page E now t k None limit st = map snd (take limit (page_entries E now t k st))"
  using next_page [OF assms] by (simp add: list_page_entries)

theorem pages_continue_witness:
  "list_page sample_ext ''now'' ''city'' Entity (Some ''urn:car'') 5 (fold (step sample_ext sample_codec) sample_ops fresh) = []"
  using pages_continue [of "fold (step sample_ext sample_codec) sample_ops fresh" 0 sample_ext "''now''" "''city''" Entity 5]
    sample_page durable_wf [OF durable_run [OF durable_fresh sample_ops_ok]] by simp

text \<open>
  C7.  A tenant neither reads, replaces nor deletes a context row it may not see.
\<close>

theorem contexts_isolated:
  assumes "wf_inner (st_inner st)" "bm_get (contexts (st_inner st)) x = Some r" "\<not> context_row_visible r tenant"
  shows "context_get tenant x st = None
    \<and> bm_get (contexts (st_inner (snd (context_put C tenant d doc st)))) x = Some r
    \<and> bm_get (contexts (st_inner (snd (context_delete C tenant d st)))) x = Some r"
  using foreign_row_put [of st x r tenant C d doc] foreign_row_delete [of st x r tenant C d] assms
  by (simp add: context_get_def wf_inner_def)

theorem contexts_isolated_witness:
  "context_get (Some ''b'') ''urn:ctx'' (fold (step sample_ext sample_codec) sample_ops fresh) = None"
  using contexts_isolated [of "fold (step sample_ext sample_codec) sample_ops fresh" "''urn:ctx''" sample_doc "Some ''b''"]
    sample_context durable_wf [OF durable_run [OF durable_fresh sample_ops_ok]] by simp

subsection \<open>Entity writes\<close>

text \<open>
  C8.  Whatever requests and sweeps a broker that starts empty runs, in whatever order, every stored entity carries the id it is stored under, and each of its attributes is a non-empty list of instances, one per dataset.
\<close>

theorem stored_entities_stay_well_formed:
  assumes "get t Entity i (w_store (fold world_step evs \<lparr>w_store = new_store, w_egress = eg\<rparr>)) = Some j"
  shows "\<exists>m. j = JObj m \<and> bm_ok m \<and> bm_get m ''id'' = Some (JStr i)
    \<and> (\<forall>k v. bm_get m k = Some v \<longrightarrow> \<not> is_meta k \<longrightarrow> (\<exists>xs. v = JArr xs \<and> xs \<noteq> [] \<and> one_each xs))"
proof -
  have "docs_inv (w_store (fold world_step evs \<lparr>w_store = new_store, w_egress = eg\<rparr>))"
    by (rule world_run_inv) (simp add: docs_new)
  then have "doc_inv i j" using assms by (simp add: docs_inv_def)
  then show ?thesis by (fastforce simp: doc_inv_def named_inv_def entity_inv_def attr_list_def)
qed

theorem stored_entities_stay_well_formed_witness:
  "\<exists>m. stamp_new ''2026-01-01T00:00:00Z'' (JObj expanded_car) = JObj m \<and> bm_get m ''id'' = Some (JStr ''urn:car'')"
  using stored_entities_stay_well_formed [of "''city''" "''urn:car''" "[Served sample_node local_call (CreateEntity new_car)]" new_egress]
    car_created by (auto simp: empty_world_def)



text \<open>
  C10.  A merge patch acts dataset by dataset: in every attribute an instance of the patch removes, patches or adds the one instance of its dataset, and the instance of every other dataset stays as it was.
\<close>

theorem merge_patch_is_per_dataset:
  assumes "entity_inv t" "fragment_inv f" "\<not> is_meta k"
  shows "in_dataset d (insts_of (merge_into ts (JObj f) (JObj t)) k) =
    (case in_dataset d (insts_of (JObj f) k) of
       None \<Rightarrow> in_dataset d (insts_of (JObj t) k)
     | Some fi \<Rightarrow> if is_deletion_instance fi then None
         else Some (case in_dataset d (insts_of (JObj t) k) of Some x \<Rightarrow> patch_instance ts fi x | None \<Rightarrow> stamped_instance ts fi))"
  by (rule merge_into_dataset [OF assms])

theorem merge_patch_is_per_dataset_witness:
  "in_dataset None (insts_of (merge_into ''now'' (JObj patch_doc) (JObj patched_doc)) ''x:s'') =
     Some (patch_instance ''now'' (JObj [(''value'', jint 2)]) (JObj [(''value'', jint 1)]))"
  using merge_patch_is_per_dataset [OF patched_doc_ok patch_doc_ok patch_attr, of None "''now''"]
  by (simp add: patch_docs_instances)

text \<open>
  C11.  Where every removal in a patch meets an object to remove it from, patching a value gives what the JSON merge patch of RFC 7396 gives.
\<close>

theorem value_patch_is_rfc_7396:
  assumes "fits t p"
  shows "JObj (merge_value_object t p) = rfc_merge (JObj t) (JObj p)"
  by (rule merge_value_is_rfc [OF assms, symmetric])

theorem value_patch_is_rfc_7396_witness:
  "rfc_merge (JObj value_target) (JObj value_patch) = JObj (merge_value_object value_target value_patch)"
  using value_patch_is_rfc_7396 [OF value_patch_fits] by simp

text \<open>
  C12.  A batch does to every stored entity what its items for that entity do one after another, in the order of the array, however the batch is split into rounds; a batch that is refused changes nothing.
\<close>

theorem batch_is_its_items_in_order:
  "get (ca_tenant a) Entity i (w_store (snd (batch_write N a m items w))) = (case batch_regs N a m items of
     None \<Rightarrow> get (ca_tenant a) Entity i (w_store w)
   | Some regs \<Rightarrow> fold (\<lambda>x. item_edit N a m (snd x)) (of_id i (good_docs (prepared_items N m regs items)))
       (get (ca_tenant a) Entity i (w_store w)))"
  by (rule batch_write_at)



subsection \<open>Temporal evolutions\<close>

text \<open>
  C14.  A local upsert of an evolution that succeeds, whatever requests overtake it, has stored the last instance it was given for each slot, and every instance held when it wrote keeps its place, slot, instanceId and createdAt.
\<close>

theorem temporal_upsert_loses_nothing:
  assumes "write_plan N a (default_spec\<lparr>cs_ids := Some [i]\<rparr>) = Some []" "\<not> is_meta k"
    and "expand_entity (nd_lib N) (ca_ctx a) (temporal_opts False True) obj = Ok d" "expanded_id d = Ok i"
    and "upsert_temporal N H a obj gap w = (Done s, w')"
  shows "\<exists>j<UPSERT_ATTEMPTS. \<exists>doc. get (ca_tenant a) Temporal i (w_store w') = Some doc \<and>
    grown (hist (ca_tenant a) i k (overtaken gap j UPSERT_ATTEMPTS (w_store w))) (history_of doc k) \<and>
    (\<forall>ni. decisive ni (history_of (stamp_temporal_instances H (nd_now N) d) k) \<longrightarrow> (\<exists>x\<in>set (history_of doc k). carries ni x))"
  by (rule upsert_temporal_history [OF assms])

theorem temporal_upsert_loses_nothing_witness:
  "\<exists>(w :: world) doc x. get ''city'' Temporal ''urn:car'' (w_store w) = Some doc \<and> x \<in> set (history_of doc ''x:s'')"
proof -
  obtain s w where u: "upsert_temporal sample_node sample_history local_call new_evolution (\<lambda>_ st. st) empty_world = (Done s, w)"
    using evolution_upserted by blast
  have e: "expand_entity (nd_lib sample_node) (ca_ctx local_call) (temporal_opts False True) new_evolution = Ok (JObj expanded_evolution)"
    by (simp add: node_simps call_simps evolution_expanded)
  obtain ni where ni: "decisive ni (history_of (stamp_temporal_instances sample_history (nd_now sample_node) (JObj expanded_evolution)) ''x:s'')"
    using evolution_decisive by blast
  obtain doc where "get ''city'' Temporal ''urn:car'' (w_store w) = Some doc" "\<exists>x\<in>set (history_of doc ''x:s''). carries ni x"
    using temporal_upsert_loses_nothing [OF alone attr_not_meta e evolution_id u] ni unfolding call_simps by fast
  then show ?thesis by blast
qed







subsection \<open>Names\<close>

text \<open>
  C18.  An accepted entity id or attribute name, written into a URL path and percent-decoded by the peer, has no dot segment.
\<close>

theorem names_stay_in_their_path:
  assumes "entity_id_new raw = Ok v \<or> check_attr_name raw = Ok ()"
  shows "''.'' \<notin> set (split_on (\<lambda>c. c = CHR ''/'') (percent_bytes raw)) \<and>
     ''..'' \<notin> set (split_on (\<lambda>c. c = CHR ''/'') (percent_bytes raw))"
proof -
  have "\<not> has_dot_segment raw"
    using assms by (auto simp: entity_id_new_def check_attr_name_def Let_def split: if_splits)
  from no_dot_segment_decoded [OF this] show ?thesis by (simp add: slashes_def)
qed

theorem names_stay_in_their_path_witness:
  "''..'' \<notin> set (split_on (\<lambda>c. c = CHR ''/'') (percent_bytes ''speed%20x''))"
proof -
  have "check_attr_name ''speed%20x'' = Ok ()" by code_simp
  then show ?thesis using names_stay_in_their_path by blast
qed

subsection \<open>Scopes, expiry, limits\<close>



text \<open>
  C20.  What strip_expired serves holds nothing expired at any depth, and serving it again at the same time changes nothing.
\<close>

theorem served_is_not_expired:
  assumes "strip_expired E now v = Some v'"
  shows "none_expired E now v' \<and> strip_expired E now v' = Some v'"
  using strip_none_expired [OF assms] strip_idle by blast

theorem served_is_not_expired_witness:
  "none_expired sample_ext ''now'' sample_doc"
proof -
  have "strip_expired sample_ext ''now'' sample_doc = Some sample_doc"
    using sample_expired unfolding sample_doc_def strip_obj by (simp add: List.map_filter_def strip_entry_def)
  then show ?thesis using served_is_not_expired by blast
qed

subsection \<open>The policy seam\<close>



text \<open>
  C22.  The gate fails closed: a request passes only if the engine answered in time without panicking and did not deny, and outside the filterable clauses it passes only unnarrowed.
\<close>

theorem gate_fails_closed:
  assumes "gate clause run = Ok f"
  shows "(run = Answers Allow \<and> f = default_filter) \<or>
    (\<exists>g. run = Answers (Narrow g) \<and> (if List.member FILTERABLE clause then f = g else filter_is_empty g \<and> f = default_filter))"
  using assms by (cases run) (auto simp: gate_def resolve_def split: decision.splits if_splits)

theorem gate_fails_closed_witness:
  "\<exists>g. Answers (Narrow default_filter) = Answers (Narrow g) \<and> filter_is_empty g"
proof -
  have "gate ''5.6.1'' (Answers (Narrow default_filter)) = Ok default_filter" by code_simp
  moreover have "\<not> List.member FILTERABLE ''5.6.1''" by code_simp
  ultimately show ?thesis using gate_fails_closed by fastforce
qed

subsection \<open>JSON-LD contexts\<close>



subsection \<open>Expansion\<close>

text \<open>
  C24.  An accepted entity is well formed: a URI id, absolute type IRIs, and under every absolute attribute IRI at most nine levels of instances that carry the member of their type, one per dataset, and no deletion marker.
\<close>

theorem expansion_is_well_formed:
  assumes "expand_entity L c opts doc = Ok e"
  shows "\<exists>m. e = JObj m \<and> bm_ok m
     \<and> (case bm_get m ''id'' of None \<Rightarrow> opt_fragment opts | Some v \<Rightarrow> id_ok v)
     \<and> (case bm_get m ''type'' of None \<Rightarrow> opt_fragment opts | Some v \<Rightarrow> type_ok v)
     \<and> (\<forall>(k, v)\<in>set m. is_meta k \<or> is_absolute_iri k \<and>
          (\<exists>xs. v = JArr xs \<and> instances opts MAX_LEVELS xs \<and> (opt_temporal opts \<or> distinct_datasets xs)))"
  using entity_result_ok [OF assms] by (auto simp: entity_ok_def attrs_ok_def)

theorem expansion_is_well_formed_witness:
  "\<exists>m. sample_expanded = JObj m \<and> bm_ok m"
  using expansion_is_well_formed [OF sample_expansion] by blast

text \<open>
  C25.  A refused entity is always the fault of the client: expansion fails with BadRequestData only, and the arm for an unknown attribute type is never reached.
\<close>

theorem expansion_blames_the_client:
  assumes "expand_entity L c opts doc = Err e"
  shows "\<exists>m. e = BadRequestData m"
  using blame_entity [of L c opts doc] assms by (simp add: blames_client_def client_error_def)

theorem expansion_blames_the_client_witness:
  "\<exists>e. expand_entity sample_lib empty_ctx plain_opts (tl sample_entity) = Err e \<and> (\<exists>m. e = BadRequestData m)"
  using sample_refused expansion_blames_the_client by blast

subsection \<open>Geoqueries\<close>

text \<open>
  C26.  An accepted geoquery has a geometry of the declared shape within the WGS84 range and at most 1024 positions, and a near query has exactly one distance, finite and positive.
\<close>

theorem accepted_geoquery_is_sound:
  assumes "from_params L G params = Ok (Some gq)"
  shows "count_positions (g_coordinates gq) \<le> 1024
     \<and> (\<exists>P. geometry_shape (g_geometry gq) = Some P \<and> P (g_coordinates gq))
     \<and> (\<forall>mx mn. g_rel gq = Near mx mn \<longrightarrow> (\<exists>d > 0. (mx, mn) = (Some (Fin d), None) \<or> (mx, mn) = (None, Some (Fin d))))"
  using accepted_geoquery [OF assms] by (simp add: one_distance_def MAX_GEO_VERTICES_def)

theorem accepted_geoquery_is_sound_witness:
  "count_positions sample_point \<le> 1024"
proof -
  have "from_params sample_lib sample_geo sample_geo_params = Ok (Some sample_geoquery)" by code_simp
  from accepted_geoquery_is_sound [OF this] show ?thesis by (simp add: sample_geoquery_def)
qed

subsection \<open>Matching subscriptions\<close>

text \<open>
  C27.  The caches change no answer: from coherent caches the matcher returns, answers what the uncached predicates say (active, selected, conditions hold, not throttled), and leaves coherent caches.
\<close>

theorem matcher_caches_change_nothing:
  assumes "mcaches_ok L G B cs" "inj (to_json L)"
  shows "\<exists>cs'. would_notify L G B t c lookup sub doc cs =
      Some (is_active (now_iso t) sub \<and> selected B c sub doc \<and> conditions_hold L G c lookup sub doc
            \<and> \<not> throttled (base L) (now_ns t) sub, cs')
    \<and> mcaches_ok L G B cs'"
  using would_notify_ok [OF assms, of t c lookup sub doc] by (simp add: notifies_def)

theorem matcher_caches_change_nothing_witness:
  "\<exists>cs'. mcaches_ok sample_lib sample_geo sample_builder cs'"
proof -
  have "inj (to_json sample_lib)" using sample_json_inj by (simp add: sample_lib_def)
  from matcher_caches_change_nothing [OF new_mcaches_ok this] show ?thesis by blast
qed

subsection \<open>The pattern cache\<close>

text \<open>
  C28.  A compile call always returns, whatever interleaving of calls came before: its eviction loop ends, the answer is the one the builder gives for the pattern, and an immediate second call compiles nothing.
\<close>

theorem pattern_call_returns:
  assumes "rc_reaches build (s, w)"
  shows "\<exists>s'. rc_compile build p s = Some (fst (built build p), s') \<and>
    (\<exists>s''. rc_compile build p s' = Some (fst (built build p), s'') \<and> rc_compiles s'' = rc_compiles s')"
proof -
  have "rc_ok build s" using rc_reaches_ok [OF assms] by simp
  from rc_compile_returns [OF this] obtain s' where s': "rc_compile build p s = Some (fst (built build p), s')"
    "rc_ok build s'" "lru_held (rc_lru s') p = Some (built build p)" by blast
  with rc_compile_returns [OF s'(2), of p] show ?thesis by auto
qed

theorem pattern_call_returns_witness:
  "\<exists>s'. rc_compile sample_builder ''^a$'' rc_new = Some (fst (built sample_builder ''^a$''), s')"
  using pattern_call_returns [of sample_builder rc_new "[]" "''^a$''"] by (auto simp: rc_reaches_def)

subsection \<open>Outbound safety\<close>

text \<open>
  C29.  Along any run, a destination is reported open only if it failed at least five times since its last success and failed or was probed within the cooldown.
\<close>

theorem breaker_opens_only_on_failures:
  assumes "reaches tr e" "is_open now key e = (True, e')"
  shows "5 \<le> fails_since tr key \<and> (\<exists>t. (Failed t key \<in> set tr \<or> Asked t key False \<in> set tr) \<and> now - t < COOLDOWN)"
  using open_means_failing [OF assms] by (simp add: stamped_def TRIP_AFTER_def)

theorem breaker_opens_only_on_failures_witness:
  "5 \<le> fails_since sample_run_events sample_key"
  using breaker_opens_only_on_failures [OF sample_reaches sample_open] by blast

text \<open>
  C30.  A tripped destination is let through again: once the cooldown is over the next ask passes as the probe, further asks within the cooldown of that probe do not, and a recorded success closes the breaker.
\<close>

theorem breaker_lets_one_probe_through:
  assumes "bm_get (breakers e) key = Some b" "tripped_at b = Some t" "t + COOLDOWN \<le> now" "now' < now + COOLDOWN"
  shows "fst (is_open now key e) = False \<and> fst (is_open now' key (snd (is_open now key e))) = True
    \<and> fst (is_open now' key (record_success key (snd (is_open now key e)))) = False"
proof -
  have "COOLDOWN \<le> now - t" "now' - now < COOLDOWN" using assms(3,4) by (auto simp: COOLDOWN_def)
  with one_probe [OF assms(1,2)] success_closes show ?thesis by blast
qed

theorem breaker_lets_one_probe_through_witness:
  "fst (is_open 30100 sample_key sample_egress) = False"
  using breaker_lets_one_probe_through [OF sample_entry, of 100 30100 30101] by (simp add: COOLDOWN_def)

subsection \<open>Joined entities\<close>

text \<open>
  C31.  A flattened join returns at most 1000 entities, never the entity asked for, each one the stored document of its id reached over links the policy shows, and shapes it so that no attribute the policy hides remains.
\<close>

theorem join_stays_within_policy:
  assumes "collect_flat look r doc level [] = (out, ok)"
  shows "length out \<le> 1000 \<and> (\<forall>i t child. bm_get out i = Some (t, child) \<longrightarrow>
    look i = Some t \<and> jget doc ''id'' \<noteq> Some (JStr i) \<and> policy_path look r doc i
    \<and> (\<forall>k. policy_hides r k \<longrightarrow> jget (apply_repr t child) k = None))"
  using collected_bounded [OF assms] collected_sound [OF assms] collected_not_root [OF assms] apply_hides
  by (fastforce simp: MAX_JOIN_LOOKUPS_def)

theorem join_stays_within_policy_witness:
  "length (fst (collect_flat sample_store default_repr linking 2 [])) \<le> 1000"
  using join_stays_within_policy [OF prod.collapse [symmetric], of sample_store default_repr linking 2] by simp

subsection \<open>Change detection\<close>



subsection \<open>Notification matching\<close>

text \<open>
  C33.  Matching a change against the inverted index, through the caches and the passes over linked entities, yields exactly the payloads of the stored subscriptions that fire, where stored means the last delta of each.
\<close>

theorem matching_is_a_scan:
  assumes "inj (to_json (e_lib V))" "mcaches_ok (e_lib V) (e_geo V) (e_builder V) cs"
    and "tenant_new_internal tn = Ok tenant" "eval_doc before after = Some doc"
  shows "\<exists>cs'. matches_for V (mirrored ds) tn before after cs = Some (map (payload_of V tenant before after)
        (filter (sub_fires V tenant before after doc) (mirror_docs (mirrored ds) tenant)), cs')
      \<and> mcaches_ok (e_lib V) (e_geo V) (e_builder V) cs'
      \<and> (\<forall>i. held (mirrored ds) tenant i = latest ds tenant i)"
  using matches_for_ok [OF assms(1,2) _ assms(3,4)] mirrored_ok by blast

theorem matching_is_a_scan_witness:
  "\<exists>ms cs'. matches_for sample_env (mirrored sample_deltas) ''city'' None (Some sample_expanded)
     new_mcaches = Some (ms, cs')"
proof -
  have "mcaches_ok (e_lib sample_env) (e_geo sample_env) (e_builder sample_env) new_mcaches"
    by (rule new_mcaches_ok)
  from matching_is_a_scan [OF sample_env_inj this sample_tenant, of None "Some sample_expanded" _ sample_deltas] show ?thesis
    by (simp add: eval_doc_def) blast
qed



subsection \<open>Registrations\<close>



subsection \<open>Federation\<close>









subsection \<open>Version negotiation\<close>

text \<open>
  C40.  An entity amended for an older version is reported as amended exactly if it changed, and amending it again changes nothing more.
\<close>

theorem amendment_is_exact:
  assumes "json_ok doc" "flat_type doc"
  shows "(snd (amend_entity ver doc) \<longleftrightarrow> fst (amend_entity ver doc) \<noteq> doc)
    \<and> amend_entity ver (fst (amend_entity ver doc)) = (fst (amend_entity ver doc), False)"
  using amend_entity_exact [OF assms(1)] amend_entity_twice [OF assms] by blast

theorem amendment_is_exact_witness:
  "snd (amend_entity (1, 3) newer_doc) \<longleftrightarrow> fst (amend_entity (1, 3) newer_doc) \<noteq> newer_doc"
  using amendment_is_exact [OF newer_doc_ok] by blast

end
